(* ===== verification/Prelude.thy ===== *)
theory Prelude
  imports Main "HOL-Library.Word"
begin

section \<open>Shared vocabulary of the development\<close>

text \<open>
  What every component shares: the ways a C++ call can fail (\<open>exn\<close>), the result type
  \<open>'a res\<close> with its sequencing \<open>bindE\<close> (a C++ exception that is not caught skips the rest of
  the body), loops that may throw (\<open>mapE\<close>), and the two algorithms of the C++ standard
  library the order book is written with: \<open>std::find_if\<close>, as the position it returns
  (\<open>length xs\<close> stands for \<open>end()\<close>), and \<open>std::vector::erase\<close> at a position.
\<close>

named_theorems res_simps "rules that take a sequence of fallible calls apart"

text \<open>
  \<open>Parse_Error\<close> and \<open>Type_Error\<close> are the exceptions of the JSON library, \<open>Invalid_Argument\<close> and
  \<open>Out_Of_Range\<close> those of \<open>std::stod\<close> and \<open>std::stoi\<close>. \<open>Domain_Error\<close>, \<open>Logic_Error\<close> and
  \<open>Runtime_Error\<close> are the exceptions of the standard library that the test framework throws,
  \<open>Generator_Exception\<close> is one of its own. \<open>Undefined\<close> is undefined behaviour of
  C++ (dereferencing \<open>end()\<close> or an empty \<open>optional\<close>, reading past a vector), \<open>Assert_Failed\<close> a
  failed \<open>assert\<close>, and
  \<open>Stack_Exhausted\<close> marks a recursion that used up the depth a definition was given.
\<close>

datatype exn = Parse_Error | Type_Error | Invalid_Argument | Out_Of_Range | Undefined
  | Assert_Failed | Stack_Exhausted | Domain_Error | Logic_Error | Runtime_Error | Generator_Exception

type_synonym 'a res = "exn + 'a"

type_synonym u64 = "64 word"

fun bindE :: "'a res \<Rightarrow> ('a \<Rightarrow> 'b res) \<Rightarrow> 'b res" where
  "bindE (Inl e) k = Inl e"
| "bindE (Inr x) k = k x"

lemma bindE_eq_Inr [res_simps]:
  "bindE m k = Inr y \<longleftrightarrow> (\<exists>x. m = Inr x \<and> k x = Inr y)"
  by (cases m) auto

lemma bindE_eq_Inl [res_simps]:
  "bindE m k = Inl e \<longleftrightarrow> m = Inl e \<or> (\<exists>x. m = Inr x \<and> k x = Inl e)"
  by (cases m) auto

lemma bindE_cong [fundef_cong]:
  assumes "m = m'" and "\<And>x. m' = Inr x \<Longrightarrow> k x = k' x"
  shows "bindE m k = bindE m' k'"
  using assms by (cases m') auto

lemma bindE_assoc: "bindE (bindE m f) g = bindE m (\<lambda>x. bindE (f x) g)"
  by (cases m) auto

subsection \<open>Loops that may throw\<close>

fun mapE :: "('a \<Rightarrow> 'b res) \<Rightarrow> 'a list \<Rightarrow> 'b list res" where
  "mapE f [] = Inr []"
| "mapE f (x # xs) = bindE (f x) (\<lambda>y. bindE (mapE f xs) (\<lambda>ys. Inr (y # ys)))"

lemma mapE_cong [fundef_cong]:
  assumes "xs = ys" and "\<And>x. x \<in> set ys \<Longrightarrow> f x = g x"
  shows "mapE f xs = mapE g ys"
  using assms(2) unfolding assms(1) by (induction ys) auto

lemma mapE_all_Inr:
  "(\<And>x. x \<in> set xs \<Longrightarrow> f x = Inr (g x)) \<Longrightarrow> mapE f xs = Inr (map g xs)"
  by (induction xs) auto

lemma mapE_mem: "mapE f xs = Inr ys \<Longrightarrow> y \<in> set ys \<Longrightarrow> \<exists>x \<in> set xs. f x = Inr y"
  by (induction xs arbitrary: ys) (auto simp: res_simps)

lemma mapE_InlD: "mapE f xs = Inl e \<Longrightarrow> \<exists>x \<in> set xs. f x = Inl e"
  by (induction xs) (auto simp: res_simps)

fun foldE :: "('a \<Rightarrow> 's \<Rightarrow> 's res) \<Rightarrow> 'a list \<Rightarrow> 's \<Rightarrow> 's res" where
  "foldE f [] s = Inr s"
| "foldE f (x # xs) s = bindE (f x s) (foldE f xs)"

lemma foldE_append: "foldE f (xs @ ys) s = bindE (foldE f xs s) (foldE f ys)"
  by (induction xs arbitrary: s) (auto simp: bindE_assoc intro!: bindE_cong)

fun keep_some :: "'a option list \<Rightarrow> 'a list" where
  "keep_some [] = []"
| "keep_some (None # xs) = keep_some xs"
| "keep_some (Some x # xs) = x # keep_some xs"

lemma keep_some_map_Some [simp]: "keep_some (map (\<lambda>x. Some (f x)) xs) = map f xs"
  by (induction xs) auto

lemma keep_some_append [simp]: "keep_some (xs @ ys) = keep_some xs @ keep_some ys"
  by (induction xs rule: keep_some.induct) auto

lemma set_keep_some: "set (keep_some xs) = {x. Some x \<in> set xs}"
  by (induction xs rule: keep_some.induct) auto

subsection \<open>\<open>std::find_if\<close> and \<open>std::vector::erase\<close>\<close>

fun find_if :: "('a \<Rightarrow> bool) \<Rightarrow> 'a list \<Rightarrow> nat" where
  "find_if p [] = 0"
| "find_if p (x # xs) = (if p x then 0 else Suc (find_if p xs))"

definition erase_at :: "nat \<Rightarrow> 'a list \<Rightarrow> 'a list" where
  "erase_at i xs = take i xs @ drop (Suc i) xs"

lemma find_if_le: "find_if p xs \<le> length xs"
  by (induction xs) auto

lemma find_if_end: "find_if p xs = length xs \<longleftrightarrow> (\<forall>x \<in> set xs. \<not> p x)"
  by (induction xs) auto

lemma find_if_found: "find_if p xs \<noteq> length xs \<longleftrightarrow> (\<exists>x \<in> set xs. p x)"
  by (auto simp: find_if_end)

lemma find_if_less: "find_if p xs \<noteq> length xs \<Longrightarrow> find_if p xs < length xs"
  using find_if_le [of p xs] by linarith

lemma find_if_nth: "find_if p xs \<noteq> length xs \<Longrightarrow> p (xs ! find_if p xs)"
  by (induction xs) auto

lemma find_if_first: "i < find_if p xs \<Longrightarrow> \<not> p (xs ! i)"
proof (induction xs arbitrary: i)
  case (Cons x xs)
  then show ?case by (cases i) (auto split: if_splits)
qed simp

lemma erase_at_Cons_0 [simp]: "erase_at 0 (x # xs) = xs"
  by (simp add: erase_at_def)

lemma erase_at_Cons_Suc [simp]: "erase_at (Suc i) (x # xs) = x # erase_at i xs"
  by (simp add: erase_at_def)

lemma set_erase_at: "set (erase_at i xs) \<subseteq> set xs"
  unfolding erase_at_def by (metis Un_least set_append set_drop_subset set_take_subset)

lemma map_erase_at: "map f (erase_at i xs) = erase_at i (map f xs)"
  by (simp add: erase_at_def take_map drop_map)

lemma distinct_erase_at: "distinct xs \<Longrightarrow> distinct (erase_at i xs)"
  unfolding erase_at_def
  by (simp add: set_take_disj_set_drop_if_distinct)

lemma length_erase_at: "i < length xs \<Longrightarrow> length (erase_at i xs) = length xs - 1"
  by (simp add: erase_at_def)

subsection \<open>Groups of equal keys\<close>

text \<open>
  An \<open>unordered_multimap\<close> keeps the elements of one key next to each other when it is walked
  from \<open>begin()\<close> to \<open>end()\<close>; \<open>grouped\<close> says so of a list of keys.
\<close>

fun grouped :: "'k list \<Rightarrow> bool" where
  "grouped [] = True"
| "grouped (k # ks) = (k \<notin> set (dropWhile (\<lambda>x. x = k) ks) \<and> grouped ks)"

lemma grouped_dropWhile: "grouped ks \<Longrightarrow> grouped (dropWhile P ks)"
  by (induction ks) auto

lemma distinct_grouped: "distinct ks \<Longrightarrow> grouped ks"
  by (induction ks) (auto dest: set_dropWhileD)

subsection \<open>\<open>std::to_string\<close> on integers\<close>

definition digit :: "nat \<Rightarrow> char" where
  "digit d = char_of (48 + d)"

fun digits :: "nat \<Rightarrow> string" where
  "digits n = (if n < 10 then [digit n] else digits (n div 10) @ [digit (n mod 10)])"

declare digits.simps [simp del]

definition to_string :: "int \<Rightarrow> string" where
  "to_string i = (if i < 0 then ''-'' @ digits (nat (- i)) else digits (nat i))"

definition number_of :: "string \<Rightarrow> nat" where
  "number_of s = foldl (\<lambda>n c. 10 * n + (of_char c - 48)) 0 s"

lemma number_of_digits: "number_of (digits n) = n"
proof (induction n rule: digits.induct)
  case (1 n)
  show ?case
  proof (cases "n < 10")
    case True
    then show ?thesis by (simp add: digits.simps [of n] number_of_def digit_def)
  next
    case False
    then show ?thesis
      using "1.IH" by (simp add: digits.simps [of n] number_of_def digit_def)
  qed
qed

lemma digits_inject: "digits m = digits n \<longleftrightarrow> m = n"
  by (metis number_of_digits)

lemma to_string_inject: "0 \<le> i \<Longrightarrow> 0 \<le> j \<Longrightarrow> to_string i = to_string j \<longleftrightarrow> i = j"
  by (simp add: to_string_def digits_inject nat_eq_iff)

end
