(* ===== verification/Std_Strings.thy ===== *)
theory Std_Strings
  imports Prelude
begin

section \<open>Text in the C++ standard library\<close>

text \<open>
  The classes of characters of \<open>ctype.h\<close> in the C locale, \<open>std::stoi\<close>, and the searches of
  \<open>std::string\<close>. A position is a natural number, \<open>npos\<close> is \<open>None\<close>.
\<close>

definition isspace :: "char \<Rightarrow> bool" where
  "isspace c = (let n = of_char c :: nat in n = 32 \<or> (9 \<le> n \<and> n \<le> 13))"

definition isdigit :: "char \<Rightarrow> bool" where
  "isdigit c = (let n = of_char c :: nat in 48 \<le> n \<and> n \<le> 57)"

text \<open>
  \<open>std::stoi\<close>, that is \<open>strtol\<close> in base ten: white space, a sign, and the longest run of digits; what
  follows is ignored. No digit is \<open>invalid_argument\<close>, a value that does not fit an \<open>int\<close> of 32 bits
  \<open>out_of_range\<close>.
\<close>

definition read_digits :: "string \<Rightarrow> int res" where
  "read_digits s = (let ds = takeWhile isdigit s
     in if ds = [] then Inl Invalid_Argument else Inr (int (number_of ds)))"

definition int_range :: "int \<Rightarrow> int res" where
  "int_range i = (if - (2 ^ 31) \<le> i \<and> i < 2 ^ 31 then Inr i else Inl Out_Of_Range)"

definition stoi :: "string \<Rightarrow> int res" where
  "stoi s = (case dropWhile isspace s of
     [] \<Rightarrow> Inl Invalid_Argument
   | c # cs \<Rightarrow>
       if c = CHR ''-'' then bindE (read_digits cs) (\<lambda>i. int_range (- i))
       else if c = CHR ''+'' then bindE (read_digits cs) int_range
       else bindE (read_digits (c # cs)) int_range)"

lemma digit_isdigit: "d < 10 \<Longrightarrow> isdigit (digit d)"
  by (simp add: isdigit_def digit_def Let_def)

lemma digits_isdigit: "c \<in> set (digits n) \<Longrightarrow> isdigit c"
proof (induction n rule: digits.induct)
  case (1 n)
  then show ?case
    by (cases "n < 10") (auto simp: digits.simps [of n] digit_isdigit)
qed

lemma digits_nonempty [simp]: "digits n \<noteq> []"
  by (simp add: digits.simps [of n])

lemma takeWhile_digits [simp]: "takeWhile isdigit (digits n) = digits n"
  by (simp add: takeWhile_eq_all_conv digits_isdigit)

lemma read_digits_digits: "read_digits (digits n) = Inr (int n)"
  by (simp add: read_digits_def number_of_digits)

lemma isdigit_not_special:
  "isdigit c \<Longrightarrow> \<not> isspace c \<and> c \<noteq> CHR ''-'' \<and> c \<noteq> CHR ''+''"
  by (auto simp: isdigit_def isspace_def Let_def)

theorem stoi_to_string: "- (2 ^ 31) \<le> i \<Longrightarrow> i < 2 ^ 31 \<Longrightarrow> stoi (to_string i) = Inr i"
proof (cases "i < 0")
  case True
  assume "- (2 ^ 31) \<le> i"
  with True show ?thesis
    by (simp add: stoi_def to_string_def read_digits_digits int_range_def isspace_def Let_def)
next
  case False
  assume "i < 2 ^ 31"
  obtain c cs where ds: "digits (nat i) = c # cs" by (cases "digits (nat i)") auto
  then have "isdigit c" using digits_isdigit [of c "nat i"] by simp
  with isdigit_not_special have "\<not> isspace c" "c \<noteq> CHR ''-''" "c \<noteq> CHR ''+''" by blast+
  with ds have "stoi (digits (nat i)) = bindE (read_digits (digits (nat i))) int_range"
    by (simp add: stoi_def)
  with False \<open>i < 2 ^ 31\<close> show ?thesis
    by (simp add: to_string_def read_digits_digits int_range_def)
qed

subsection \<open>Searching\<close>

text \<open>\<open>find\<close>, \<open>find_first_not_of\<close> and \<open>find_last_not_of\<close>.\<close>

definition occurs_at :: "string \<Rightarrow> string \<Rightarrow> nat \<Rightarrow> bool" where
  "occurs_at s t i \<longleftrightarrow> i + length t \<le> length s \<and> take (length t) (drop i s) = t"

definition str_find :: "string \<Rightarrow> string \<Rightarrow> nat \<Rightarrow> nat option" where
  "str_find s t pos = List.find (occurs_at s t) [pos..<Suc (length s)]"

definition find_first_not_of :: "char set \<Rightarrow> string \<Rightarrow> nat option" where
  "find_first_not_of cs s = List.find (\<lambda>i. s ! i \<notin> cs) [0..<length s]"

definition find_last_not_of :: "char set \<Rightarrow> string \<Rightarrow> nat option" where
  "find_last_not_of cs s = List.find (\<lambda>i. s ! i \<notin> cs) (rev [0..<length s])"

lemma occurs_at_split: "occurs_at s t i \<longleftrightarrow> (\<exists>u v. s = u @ t @ v \<and> length u = i)"
proof
  assume a: "occurs_at s t i"
  then have "s = take i s @ t @ drop (length t) (drop i s)"
    by (metis append_take_drop_id occurs_at_def)
  moreover have "length (take i s) = i" using a by (simp add: occurs_at_def)
  ultimately show "\<exists>u v. s = u @ t @ v \<and> length u = i" by blast
qed (auto simp: occurs_at_def)

lemma find_upt_Some:
  "List.find P [a..<b] = Some i \<longleftrightarrow> a \<le> i \<and> i < b \<and> P i \<and> (\<forall>j. a \<le> j \<and> j < i \<longrightarrow> \<not> P j)"
proof -
  have "List.find P [a..<b] = Some i \<longleftrightarrow>
      (\<exists>k < b - a. P (a + k) \<and> i = a + k \<and> (\<forall>j < k. \<not> P (a + j)))"
    by (auto simp: find_Some_iff)
  also have "\<dots> \<longleftrightarrow> a \<le> i \<and> i < b \<and> P i \<and> (\<forall>j. a \<le> j \<and> j < i \<longrightarrow> \<not> P j)"
  proof
    assume "\<exists>k < b - a. P (a + k) \<and> i = a + k \<and> (\<forall>j < k. \<not> P (a + j))"
    then obtain k where k: "k < b - a" "P (a + k)" "i = a + k" "\<forall>j < k. \<not> P (a + j)" by blast
    have "\<not> P j" if "a \<le> j" "j < i" for j
      using k(4)[rule_format, of "j - a"] that k(3) by simp
    with k show "a \<le> i \<and> i < b \<and> P i \<and> (\<forall>j. a \<le> j \<and> j < i \<longrightarrow> \<not> P j)" by auto
  next
    assume "a \<le> i \<and> i < b \<and> P i \<and> (\<forall>j. a \<le> j \<and> j < i \<longrightarrow> \<not> P j)"
    then show "\<exists>k < b - a. P (a + k) \<and> i = a + k \<and> (\<forall>j < k. \<not> P (a + j))"
      by (intro exI [of _ "i - a"]) auto
  qed
  finally show ?thesis .
qed

lemma str_find_Some:
  "str_find s t pos = Some i \<longleftrightarrow> pos \<le> i \<and> occurs_at s t i \<and> (\<forall>j. pos \<le> j \<and> j < i \<longrightarrow> \<not> occurs_at s t j)"
proof -
  have "occurs_at s t i \<Longrightarrow> i < Suc (length s)" by (simp add: occurs_at_def)
  then show ?thesis unfolding str_find_def find_upt_Some by blast
qed

lemma str_find_None: "str_find s t pos = None \<longleftrightarrow> (\<forall>i \<ge> pos. \<not> occurs_at s t i)"
  by (auto simp: str_find_def find_None_iff occurs_at_def)

lemma str_find_drop: "pos \<le> length s \<Longrightarrow>
  str_find s t pos = map_option (\<lambda>i. pos + i) (str_find (drop pos s) t 0)"
proof (cases "str_find (drop pos s) t 0")
  case None
  assume p: "pos \<le> length s"
  have "\<not> occurs_at s t i" if "i \<ge> pos" for i
  proof -
    from None have "\<not> occurs_at (drop pos s) t (i - pos)" by (simp add: str_find_None)
    with that p show ?thesis by (auto simp: occurs_at_def)
  qed
  then have "str_find s t pos = None" by (simp add: str_find_None)
  with None show ?thesis by simp
next
  case (Some i)
  assume p: "pos \<le> length s"
  have o: "occurs_at (drop pos s) t j \<longleftrightarrow> occurs_at s t (pos + j)" for j
    using p by (auto simp: occurs_at_def add.commute)
  from Some have i: "occurs_at s t (pos + i)" "\<And>j. j < i \<Longrightarrow> \<not> occurs_at s t (pos + j)"
    by (simp_all add: str_find_Some o)
  have "\<not> occurs_at s t j" if "pos \<le> j" "j < pos + i" for j
    using i(2) [of "j - pos"] that by simp
  then have "str_find s t pos = Some (pos + i)" using i(1) by (simp add: str_find_Some)
  with Some show ?thesis by simp
qed

end
