(* ===== verification/Std_Algorithms.thy ===== *)
theory Std_Algorithms
  imports Prelude "HOL-Library.Multiset"
begin

section \<open>Algorithms of the C++ standard library\<close>

text \<open>
  \<open>std::sort\<close> does not say where it puts equivalent elements, so the model takes the algorithm as a
  parameter (a \<open>sorter\<close>); \<open>std_sort\<close> is what the standard says of it: for a strict weak order on the
  elements it leaves an ordered permutation. Insertion sort is one sorter, for the witnesses.
  \<open>std::unique\<close> keeps the first of a group of neighbours.
\<close>

type_synonym 'a sorter = "('a \<Rightarrow> 'a \<Rightarrow> bool) \<Rightarrow> 'a list \<Rightarrow> 'a list"

definition weak_order_on :: "('a \<Rightarrow> 'a \<Rightarrow> bool) \<Rightarrow> 'a set \<Rightarrow> bool" where
  "weak_order_on lt A \<longleftrightarrow> (\<forall>x \<in> A. \<not> lt x x) \<and>
     (\<forall>x \<in> A. \<forall>y \<in> A. \<forall>z \<in> A. lt x y \<longrightarrow> lt y z \<longrightarrow> lt x z) \<and>
     (\<forall>x \<in> A. \<forall>y \<in> A. \<forall>z \<in> A. \<not> lt x y \<longrightarrow> \<not> lt y z \<longrightarrow> \<not> lt x z)"

definition std_sort :: "'a sorter \<Rightarrow> bool" where
  "std_sort srt \<longleftrightarrow> (\<forall>lt xs. weak_order_on lt (set xs) \<longrightarrow>
     mset (srt lt xs) = mset xs \<and> sorted_wrt (\<lambda>x y. \<not> lt y x) (srt lt xs))"

fun std_unique :: "('a \<Rightarrow> 'a \<Rightarrow> bool) \<Rightarrow> 'a list \<Rightarrow> 'a list" where
  "std_unique p [] = []"
| "std_unique p [x] = [x]"
| "std_unique p (x # y # zs) = (if p x y then std_unique p (x # zs) else x # std_unique p (y # zs))"

fun insert_by :: "('a \<Rightarrow> 'a \<Rightarrow> bool) \<Rightarrow> 'a \<Rightarrow> 'a list \<Rightarrow> 'a list" where
  "insert_by lt x [] = [x]"
| "insert_by lt x (y # ys) = (if lt y x then y # insert_by lt x ys else x # y # ys)"

fun insertion_sort :: "'a sorter" where
  "insertion_sort lt [] = []"
| "insertion_sort lt (x # xs) = insert_by lt x (insertion_sort lt xs)"

lemma mset_insert_by: "mset (insert_by lt x ys) = add_mset x (mset ys)"
  by (induction ys) auto

lemma set_insert_by: "set (insert_by lt x ys) = insert x (set ys)"
  by (induction ys) auto

lemma mset_insertion_sort: "mset (insertion_sort lt xs) = mset xs"
  by (induction xs) (auto simp: mset_insert_by)

lemma set_insertion_sort: "set (insertion_sort lt xs) = set xs"
  by (metis mset_insertion_sort set_mset_mset)

lemma weak_order_on_subset: "weak_order_on lt A \<Longrightarrow> B \<subseteq> A \<Longrightarrow> weak_order_on lt B"
  unfolding weak_order_on_def subset_iff by meson

lemma weak_order_on_asym: "weak_order_on lt A \<Longrightarrow> x \<in> A \<Longrightarrow> y \<in> A \<Longrightarrow> lt x y \<Longrightarrow> \<not> lt y x"
  unfolding weak_order_on_def by meson

lemma weak_order_on_trans:
  "weak_order_on lt A \<Longrightarrow> x \<in> A \<Longrightarrow> y \<in> A \<Longrightarrow> z \<in> A \<Longrightarrow> \<not> lt x y \<Longrightarrow> \<not> lt y z \<Longrightarrow> \<not> lt x z"
  unfolding weak_order_on_def by meson

lemma insert_by_sorted:
  assumes "weak_order_on lt (insert x (set ys))" and "sorted_wrt (\<lambda>x y. \<not> lt y x) ys"
  shows "sorted_wrt (\<lambda>x y. \<not> lt y x) (insert_by lt x ys)"
  using assms
proof (induction ys)
  case (Cons y ys)
  have wo: "weak_order_on lt (insert x (set ys))"
    by (rule weak_order_on_subset [OF Cons.prems(1)]) auto
  have asym: "lt y x \<Longrightarrow> \<not> lt x y"
    by (rule weak_order_on_asym [OF Cons.prems(1)]) auto
  have trans: "\<not> lt z y \<Longrightarrow> \<not> lt y x \<Longrightarrow> \<not> lt z x" if "z \<in> set ys" for z
    by (rule weak_order_on_trans [OF Cons.prems(1), of z y x]) (use that in auto)
  from Cons.IH [OF wo] Cons.prems(2) asym trans show ?case
    by (auto simp: set_insert_by)
qed simp

lemma insertion_sort_sorted:
  "weak_order_on lt (set xs) \<Longrightarrow> sorted_wrt (\<lambda>x y. \<not> lt y x) (insertion_sort lt xs)"
proof (induction xs)
  case (Cons x xs)
  have "weak_order_on lt (set xs)" by (rule weak_order_on_subset [OF Cons.prems]) auto
  from Cons.IH [OF this] Cons.prems show ?case
    by (simp add: insert_by_sorted set_insertion_sort)
qed simp

lemma insertion_sort_std: "std_sort insertion_sort"
  by (simp add: std_sort_def mset_insertion_sort insertion_sort_sorted)

text \<open>Sorting by a key with a total order, and then dropping equal neighbours.\<close>

lemma std_unique_keys:
  assumes "sorted_wrt (\<lambda>x y. \<not> lt (k y) (k x)) xs"
    and "\<And>a b. a \<in> k ` set xs \<Longrightarrow> b \<in> k ` set xs \<Longrightarrow> a \<noteq> b \<Longrightarrow> lt a b \<or> lt b a"
    and "\<And>a b. lt a b \<Longrightarrow> \<not> lt b a"
    and "\<And>a b c. lt a b \<Longrightarrow> lt b c \<Longrightarrow> lt a c"
  shows "sorted_wrt (\<lambda>x y. lt (k x) (k y)) (std_unique (\<lambda>x y. k x = k y) xs) \<and>
    k ` set (std_unique (\<lambda>x y. k x = k y) xs) = k ` set xs \<and>
    set (std_unique (\<lambda>x y. k x = k y) xs) \<subseteq> set xs"
  using assms(1,2)
proof (induction "\<lambda>x y. k x = k y" xs rule: std_unique.induct)
  case (3 x y zs)
  show ?case
  proof (cases "k x = k y")
    case True
    have "sorted_wrt (\<lambda>x y. \<not> lt (k y) (k x)) (x # zs)" using 3(3) by simp
    moreover have "\<And>a b. a \<in> k ` set (x # zs) \<Longrightarrow> b \<in> k ` set (x # zs) \<Longrightarrow> a \<noteq> b \<Longrightarrow> lt a b \<or> lt b a"
      using 3(4) by auto
    ultimately have "sorted_wrt (\<lambda>x y. lt (k x) (k y)) (std_unique (\<lambda>x y. k x = k y) (x # zs)) \<and>
      k ` set (std_unique (\<lambda>x y. k x = k y) (x # zs)) = k ` set (x # zs) \<and>
      set (std_unique (\<lambda>x y. k x = k y) (x # zs)) \<subseteq> set (x # zs)"
      using 3(1) [OF True] by blast
    with True show ?thesis by auto
  next
    case False
    have "sorted_wrt (\<lambda>x y. \<not> lt (k y) (k x)) (y # zs)" using 3(3) by simp
    moreover have "\<And>a b. a \<in> k ` set (y # zs) \<Longrightarrow> b \<in> k ` set (y # zs) \<Longrightarrow> a \<noteq> b \<Longrightarrow> lt a b \<or> lt b a"
      using 3(4) by auto
    ultimately have ih: "sorted_wrt (\<lambda>x y. lt (k x) (k y)) (std_unique (\<lambda>x y. k x = k y) (y # zs))"
      "k ` set (std_unique (\<lambda>x y. k x = k y) (y # zs)) = k ` set (y # zs)"
      "set (std_unique (\<lambda>x y. k x = k y) (y # zs)) \<subseteq> set (y # zs)"
      using 3(2) [OF False] by blast+
    have xy: "lt (k x) (k y)" using 3(3) 3(4) [of "k x" "k y"] False by auto
    have "lt (k x) (k z)" if "z \<in> set (y # zs)" for z
    proof (cases "k z = k y")
      case True
      with xy show ?thesis by simp
    next
      case False
      then have "lt (k y) (k z)" using 3(3) 3(4) [of "k y" "k z"] that by auto
      with xy assms(4) show ?thesis by blast
    qed
    with ih False show ?thesis by auto
  qed
qed auto

end
