(* ===== verification/Json_Lib.thy ===== *)
theory Json_Lib
  imports Prelude "HOL-Library.AList"
begin

section \<open>The JSON library, as a parameter\<close>

text \<open>
  The program reads and writes its messages with \<open>nlohmann::json\<close> (the git submodule
  \<open>ext/json\<close>, whose sources are not in the repository). The library is a parameter of every
  definition that uses it: a record of the operations the program calls, over a type \<open>'j\<close> of
  documents about which nothing is assumed. What a property needs of the library is a named
  hypothesis on that record (the \<open>json_\<dots>\<close> predicates below), each a statement of the library's
  documentation. The last section gives one record that satisfies them all, which the witnesses
  of the properties use; no definition of the model mentions it.
\<close>

datatype json_exn = JType \<comment> \<open>\<open>type_error\<close>\<close> | JUndefined \<comment> \<open>undefined: key or index missing\<close>

fun of_json :: "json_exn + 'a \<Rightarrow> 'a res" where
  "of_json (Inl JType) = Inl Type_Error"
| "of_json (Inl JUndefined) = Inl Undefined"
| "of_json (Inr x) = Inr x"

lemma of_json_eq_Inr [simp]: "of_json m = Inr x \<longleftrightarrow> m = Inr x"
  by (cases m rule: of_json.cases) auto

lemma of_json_not_exhausted [simp]: "of_json m \<noteq> Inl Stack_Exhausted"
  by (cases m rule: of_json.cases) auto

record 'j json_lib =
  js_parse :: "string \<Rightarrow> 'j option"  \<comment> \<open>\<open>json::parse\<close>; \<open>None\<close>: it throws \<open>parse_error\<close>\<close>
  js_dump :: "'j \<Rightarrow> string"  \<comment> \<open>\<open>dump()\<close>\<close>
  js_contains :: "'j \<Rightarrow> string \<Rightarrow> bool"  \<comment> \<open>\<open>contains(key)\<close>\<close>
  js_at :: "'j \<Rightarrow> string \<Rightarrow> json_exn + 'j"  \<comment> \<open>\<open>j[key]\<close> on a const document\<close>
  js_ref :: "'j \<Rightarrow> string \<Rightarrow> json_exn + 'j"  \<comment> \<open>\<open>j[key]\<close> on a document that may be written\<close>
  js_index :: "'j \<Rightarrow> nat \<Rightarrow> json_exn + 'j"  \<comment> \<open>\<open>j[i]\<close> on a const document\<close>
  js_elems :: "'j \<Rightarrow> 'j list"  \<comment> \<open>what \<open>for (x : j)\<close> visits\<close>
  js_string :: "'j \<Rightarrow> json_exn + string"  \<comment> \<open>\<open>get<std::string>()\<close>\<close>
  js_ulong :: "'j \<Rightarrow> json_exn + u64"  \<comment> \<open>\<open>get<unsigned long>()\<close>\<close>
  js_eq :: "'j \<Rightarrow> string \<Rightarrow> bool"  \<comment> \<open>\<open>j == \"literal\"\<close>\<close>
  js_of_string :: "string \<Rightarrow> 'j"  \<comment> \<open>a string document\<close>
  js_array :: "'j list \<Rightarrow> 'j"  \<comment> \<open>an array\<close>
  js_object :: "(string \<times> 'j) list \<Rightarrow> 'j"  \<comment> \<open>an object, from an initializer list\<close>
  js_set :: "'j \<Rightarrow> string \<Rightarrow> 'j \<Rightarrow> json_exn + 'j"  \<comment> \<open>\<open>j[key] = v\<close>\<close>
  js_push :: "'j \<Rightarrow> string \<Rightarrow> 'j \<Rightarrow> json_exn + 'j"  \<comment> \<open>\<open>j[key].push_back(v)\<close>\<close>

text \<open>The reads the program makes, with a failure of the library as a failure of the call.\<close>

definition at :: "'j json_lib \<Rightarrow> 'j \<Rightarrow> string \<Rightarrow> 'j res" where
  "at J j k = of_json (js_at J j k)"

definition str_at :: "'j json_lib \<Rightarrow> 'j \<Rightarrow> string \<Rightarrow> string res" where
  "str_at J j k = bindE (at J j k) (\<lambda>v. of_json (js_string J v))"

definition ulong_at :: "'j json_lib \<Rightarrow> 'j \<Rightarrow> string \<Rightarrow> u64 res" where
  "ulong_at J j k = bindE (at J j k) (\<lambda>v. of_json (js_ulong J v))"

definition str_idx :: "'j json_lib \<Rightarrow> 'j \<Rightarrow> nat \<Rightarrow> string res" where
  "str_idx J j i = bindE (of_json (js_index J j i)) (\<lambda>v. of_json (js_string J v))"

definition str_ref :: "'j json_lib \<Rightarrow> 'j \<Rightarrow> string \<Rightarrow> string res" where
  "str_ref J j k = bindE (of_json (js_ref J j k)) (\<lambda>v. of_json (js_string J v))"

definition ulong_ref :: "'j json_lib \<Rightarrow> 'j \<Rightarrow> string \<Rightarrow> u64 res" where
  "ulong_ref J j k = bindE (of_json (js_ref J j k)) (\<lambda>v. of_json (js_ulong J v))"

lemma str_at_not_exhausted [simp]: "str_at J j k \<noteq> Inl Stack_Exhausted"
  by (auto simp: str_at_def at_def res_simps)

lemma ulong_at_not_exhausted [simp]: "ulong_at J j k \<noteq> Inl Stack_Exhausted"
  by (auto simp: ulong_at_def at_def res_simps)

lemma str_idx_not_exhausted [simp]: "str_idx J j k \<noteq> Inl Stack_Exhausted"
  by (auto simp: str_idx_def res_simps)

lemma at_not_exhausted [simp]: "at J j k \<noteq> Inl Stack_Exhausted"
  by (auto simp: at_def)

text \<open>
  \<open>std::stod\<close> reads a decimal number into a \<open>double\<close>. Prices and sizes are kept in a type \<open>'f\<close>
  of which the program uses only the subtraction, so that \<open>double\<close> with its rounding is one
  instance; \<open>stod\<close> is a parameter of the definitions that call it.
\<close>

datatype stod_exn = Stod_Invalid | Stod_Range

fun of_stod :: "stod_exn + 'f \<Rightarrow> 'f res" where
  "of_stod (Inl Stod_Invalid) = Inl Invalid_Argument"
| "of_stod (Inl Stod_Range) = Inl Out_Of_Range"
| "of_stod (Inr x) = Inr x"

lemma of_stod_eq_Inr [simp]: "of_stod m = Inr x \<longleftrightarrow> m = Inr x"
  by (cases m rule: of_stod.cases) auto

lemma of_stod_not_exhausted [simp]: "of_stod m \<noteq> Inl Stack_Exhausted"
  by (cases m rule: of_stod.cases) auto

subsection \<open>Documented behaviour\<close>

text \<open>
  A present key is found by both forms of \<open>operator[]\<close>, with the same value. The form for a
  document that may be written inserts \<open>null\<close> for an absent key, and reading \<open>null\<close> as a
  string or a number is a \<open>type_error\<close>, as is a key of a document that is no object. The
  comparison with a literal succeeds for exactly that string.
\<close>

definition json_lookup :: "'j json_lib \<Rightarrow> bool" where
  "json_lookup J \<longleftrightarrow>
     (\<forall>j k. js_contains J j k \<longrightarrow> (\<exists>v. js_at J j k = Inr v \<and> js_ref J j k = Inr v)) \<and>
     (\<forall>j k. \<not> js_contains J j k \<longrightarrow>
        js_ref J j k = Inl JType \<or>
        (\<exists>v. js_ref J j k = Inr v \<and> js_string J v = Inl JType \<and> js_ulong J v = Inl JType)) \<and>
     (\<forall>j s. js_eq J j s \<longleftrightarrow> js_string J j = Inr s)"

text \<open>A document built from strings and other documents has the fields it was built with.\<close>

definition json_build :: "'j json_lib \<Rightarrow> bool" where
  "json_build J \<longleftrightarrow>
     (\<forall>s. js_string J (js_of_string J s) = Inr s) \<and>
     (\<forall>vs. js_elems J (js_array J vs) = vs) \<and>
     (\<forall>vs i. i < length vs \<longrightarrow> js_index J (js_array J vs) i = Inr (vs ! i)) \<and>
     (\<forall>kvs k. distinct (map fst kvs) \<longrightarrow>
        js_contains J (js_object J kvs) k = (map_of kvs k \<noteq> None)) \<and>
     (\<forall>kvs k v. distinct (map fst kvs) \<longrightarrow> map_of kvs k = Some v \<longrightarrow>
        js_at J (js_object J kvs) k = Inr v)"

text \<open>
  \<open>j[key].push_back(v)\<close> appends to the array under the key and leaves the other keys alone. On
  an object without the key it starts a new array, and it can be repeated.
\<close>

definition json_push :: "'j json_lib \<Rightarrow> bool" where
  "json_push J \<longleftrightarrow>
     (\<forall>j k v j'. js_push J j k v = Inr j' \<longrightarrow>
        (\<forall>k'. js_contains J j' k' = (js_contains J j k' \<or> k' = k)) \<and>
        (\<forall>k'. k' \<noteq> k \<longrightarrow> js_contains J j k' \<longrightarrow> js_at J j' k' = js_at J j k') \<and>
        (\<exists>a'. js_at J j' k = Inr a' \<and>
          js_elems J a' =
            (if js_contains J j k
             then (case js_at J j k of Inl _ \<Rightarrow> [] | Inr a \<Rightarrow> js_elems J a) else []) @ [v]) \<and>
        (\<forall>w. \<exists>j''. js_push J j' k w = Inr j'')) \<and>
     (\<forall>j k k' v. js_contains J j k' \<longrightarrow> \<not> js_contains J j k \<longrightarrow> (\<exists>j'. js_push J j k v = Inr j'))"

text \<open>Documents are finite trees: what an iteration over a field visits is smaller.\<close>

definition json_depth :: "'j json_lib \<Rightarrow> ('j \<Rightarrow> nat) \<Rightarrow> bool" where
  "json_depth J d \<longleftrightarrow>
     (\<forall>j k v x. js_at J j k = Inr v \<longrightarrow> x \<in> set (js_elems J v) \<longrightarrow> d x < d j)"

lemma json_lookup_contains:
  assumes "json_lookup J" and "js_contains J j k"
  obtains v where "js_at J j k = Inr v" and "js_ref J j k = Inr v"
  using assms unfolding json_lookup_def by blast

lemma json_lookup_eq: "json_lookup J \<Longrightarrow> js_eq J j s \<longleftrightarrow> js_string J j = Inr s"
  by (simp add: json_lookup_def)

lemma str_ref_missing:
  assumes "json_lookup J" and "\<not> js_contains J j k"
  shows "str_ref J j k = Inl Type_Error"
proof -
  from assms have "js_ref J j k = Inl JType \<or>
      (\<exists>v. js_ref J j k = Inr v \<and> js_string J v = Inl JType \<and> js_ulong J v = Inl JType)"
    unfolding json_lookup_def by blast
  then show ?thesis by (auto simp: str_ref_def)
qed

lemma str_ref_contains:
  assumes "json_lookup J" and "js_contains J j k"
  shows "str_ref J j k = str_at J j k"
  by (rule json_lookup_contains [OF assms]) (simp add: str_ref_def str_at_def at_def)

lemma ulong_ref_contains:
  assumes "json_lookup J" and "js_contains J j k"
  shows "ulong_ref J j k = ulong_at J j k"
  by (rule json_lookup_contains [OF assms]) (simp add: ulong_ref_def ulong_at_def at_def)

lemma str_at_object:
  assumes "json_build J" and "distinct (map fst kvs)" and "map_of kvs k = Some v"
  shows "str_at J (js_object J kvs) k = of_json (js_string J v)"
  using assms by (simp add: json_build_def str_at_def at_def)

lemma ulong_at_object:
  assumes "json_build J" and "distinct (map fst kvs)" and "map_of kvs k = Some v"
  shows "ulong_at J (js_object J kvs) k = of_json (js_ulong J v)"
  using assms by (simp add: json_build_def ulong_at_def at_def)

lemma at_object:
  assumes "json_build J" and "distinct (map fst kvs)" and "map_of kvs k = Some v"
  shows "at J (js_object J kvs) k = Inr v"
  using assms by (simp add: json_build_def at_def)

lemma contains_object:
  assumes "json_build J" and "distinct (map fst kvs)"
  shows "js_contains J (js_object J kvs) k \<longleftrightarrow> map_of kvs k \<noteq> None"
  using assms by (simp add: json_build_def)

lemma string_of_string: "json_build J \<Longrightarrow> js_string J (js_of_string J s) = Inr s"
  by (simp add: json_build_def)

subsection \<open>A record that behaves as documented\<close>

text \<open>
  For the witnesses only: documents as a datatype, and every operation of the record on it. Text
  and documents are related by a table \<open>txt\<close> of the texts an example uses.
\<close>

datatype jdoc = JNull | JBool bool | JNum u64 | JStr string | JArr "jdoc list"
  | JObj "(string \<times> jdoc) list"

fun ref_contains :: "jdoc \<Rightarrow> string \<Rightarrow> bool" where
  "ref_contains (JObj kvs) k = (map_of kvs k \<noteq> None)"
| "ref_contains _ k = False"

fun ref_at :: "jdoc \<Rightarrow> string \<Rightarrow> json_exn + jdoc" where
  "ref_at (JObj kvs) k = (case map_of kvs k of None \<Rightarrow> Inl JUndefined | Some v \<Rightarrow> Inr v)"
| "ref_at _ k = Inl JType"

fun ref_ref :: "jdoc \<Rightarrow> string \<Rightarrow> json_exn + jdoc" where
  "ref_ref (JObj kvs) k = (case map_of kvs k of None \<Rightarrow> Inr JNull | Some v \<Rightarrow> Inr v)"
| "ref_ref JNull k = Inr JNull"
| "ref_ref _ k = Inl JType"

fun ref_index :: "jdoc \<Rightarrow> nat \<Rightarrow> json_exn + jdoc" where
  "ref_index (JArr vs) i = (if i < length vs then Inr (vs ! i) else Inl JUndefined)"
| "ref_index _ i = Inl JType"

fun ref_elems :: "jdoc \<Rightarrow> jdoc list" where
  "ref_elems (JArr vs) = vs"
| "ref_elems (JObj kvs) = map snd kvs"
| "ref_elems JNull = []"
| "ref_elems j = [j]"

fun ref_string :: "jdoc \<Rightarrow> json_exn + string" where
  "ref_string (JStr s) = Inr s"
| "ref_string _ = Inl JType"

fun ref_ulong :: "jdoc \<Rightarrow> json_exn + u64" where
  "ref_ulong (JNum n) = Inr n"
| "ref_ulong (JBool b) = Inr (if b then 1 else 0)"
| "ref_ulong _ = Inl JType"

fun ref_set :: "jdoc \<Rightarrow> string \<Rightarrow> jdoc \<Rightarrow> json_exn + jdoc" where
  "ref_set (JObj kvs) k v = Inr (JObj (AList.update k v kvs))"
| "ref_set JNull k v = Inr (JObj [(k, v)])"
| "ref_set _ k v = Inl JType"

fun ref_push :: "jdoc \<Rightarrow> string \<Rightarrow> jdoc \<Rightarrow> json_exn + jdoc" where
  "ref_push (JObj kvs) k v =
     (case map_of kvs k of
        None \<Rightarrow> Inr (JObj (AList.update k (JArr [v]) kvs))
      | Some JNull \<Rightarrow> Inr (JObj (AList.update k (JArr [v]) kvs))
      | Some (JArr vs) \<Rightarrow> Inr (JObj (AList.update k (JArr (vs @ [v])) kvs))
      | Some _ \<Rightarrow> Inl JType)"
| "ref_push JNull k v = Inr (JObj [(k, JArr [v])])"
| "ref_push _ k v = Inl JType"

definition ref_json :: "(string \<Rightarrow> jdoc option) \<Rightarrow> jdoc json_lib" where
  "ref_json txt = \<lparr>js_parse = txt, js_dump = (\<lambda>j. case j of JStr s \<Rightarrow> s | _ \<Rightarrow> ''{}''),
     js_contains = ref_contains, js_at = ref_at, js_ref = ref_ref, js_index = ref_index,
     js_elems = ref_elems, js_string = ref_string, js_ulong = ref_ulong,
     js_eq = (\<lambda>j s. j = JStr s), js_of_string = JStr, js_array = JArr, js_object = JObj,
     js_set = ref_set, js_push = ref_push\<rparr>"

lemma ref_json_sel [simp]:
  "js_parse (ref_json txt) = txt"
  "js_contains (ref_json txt) = ref_contains"
  "js_at (ref_json txt) = ref_at"
  "js_ref (ref_json txt) = ref_ref"
  "js_index (ref_json txt) = ref_index"
  "js_elems (ref_json txt) = ref_elems"
  "js_string (ref_json txt) = ref_string"
  "js_ulong (ref_json txt) = ref_ulong"
  "js_eq (ref_json txt) = (\<lambda>j s. j = JStr s)"
  "js_of_string (ref_json txt) = JStr"
  "js_array (ref_json txt) = JArr"
  "js_object (ref_json txt) = JObj"
  "js_set (ref_json txt) = ref_set"
  "js_push (ref_json txt) = ref_push"
  by (simp_all add: ref_json_def)

lemma ref_string_Inr: "ref_string j = Inr s \<longleftrightarrow> j = JStr s"
  by (cases j) auto

lemma ref_json_lookup: "json_lookup (ref_json txt)"
proof -
  have "ref_contains j k \<Longrightarrow> \<exists>v. ref_at j k = Inr v \<and> ref_ref j k = Inr v" for j k
    by (cases j) auto
  moreover have "\<not> ref_contains j k \<Longrightarrow> ref_ref j k = Inl JType \<or>
      (\<exists>v. ref_ref j k = Inr v \<and> ref_string v = Inl JType \<and> ref_ulong v = Inl JType)" for j k
    by (cases j) auto
  ultimately show ?thesis by (simp add: json_lookup_def ref_string_Inr)
qed

lemma ref_json_build: "json_build (ref_json txt)"
  by (simp add: json_build_def)

lemma ref_json_push: "json_push (ref_json txt)"
proof -
  have "ref_push j k v = Inr j' \<Longrightarrow>
      (\<forall>k'. ref_contains j' k' = (ref_contains j k' \<or> k' = k)) \<and>
      (\<forall>k'. k' \<noteq> k \<longrightarrow> ref_contains j k' \<longrightarrow> ref_at j' k' = ref_at j k') \<and>
      (\<exists>a'. ref_at j' k = Inr a' \<and>
        ref_elems a' = (if ref_contains j k
          then (case ref_at j k of Inl _ \<Rightarrow> [] | Inr a \<Rightarrow> ref_elems a) else []) @ [v]) \<and>
      (\<forall>w. \<exists>j''. ref_push j' k w = Inr j'')" for j k v j'
    by (cases "(j, k, v)" rule: ref_push.cases)
      (auto simp: update_conv' split: option.splits jdoc.splits if_splits)
  moreover have "ref_contains j k' \<Longrightarrow> \<not> ref_contains j k \<Longrightarrow> \<exists>j'. ref_push j k v = Inr j'"
    for j k k' v
    by (cases j) auto
  ultimately show ?thesis unfolding json_push_def ref_json_sel by blast
qed

lemma ref_elems_size: "x \<in> set (ref_elems v) \<Longrightarrow> size x \<le> size v"
proof (cases v)
  case (JArr vs)
  assume "x \<in> set (ref_elems v)"
  with JArr have "size x \<le> size_list size vs" by (simp add: size_list_estimation')
  with JArr show ?thesis by simp
next
  case (JObj kvs)
  assume "x \<in> set (ref_elems v)"
  with JObj obtain k where "(k, x) \<in> set kvs" by auto
  then have "size x \<le> size_list (size_prod (\<lambda>_. 0) size) kvs"
    by (auto intro: size_list_estimation')
  with JObj show ?thesis by simp
qed auto

lemma ref_json_depth: "json_depth (ref_json txt) size"
proof -
  have "ref_at j k = Inr v \<Longrightarrow> size v < size j" for j k v
  proof (cases j)
    case (JObj kvs)
    assume "ref_at j k = Inr v"
    with JObj have "(k, v) \<in> set kvs" by (auto split: option.splits dest: map_of_SomeD)
    then have "size v \<le> size_list (size_prod (\<lambda>_. 0) size) kvs"
      by (auto intro: size_list_estimation')
    with JObj show ?thesis by simp
  qed auto
  then show ?thesis
    unfolding json_depth_def by (auto dest!: ref_elems_size intro: le_less_trans)
qed

lemmas ref_json_documented = ref_json_lookup ref_json_build ref_json_push ref_json_depth

subsection \<open>Texts of flat documents\<close>

text \<open>
  The messages between the service and its clients are objects whose fields are strings. Parsing what
  \<open>dump\<close> wrote gives the document back, and a text is never empty.
\<close>

definition flat_doc :: "'j json_lib \<Rightarrow> (string \<times> string) list \<Rightarrow> 'j" where
  "flat_doc J kvs = js_object J (map (\<lambda>(k, v). (k, js_of_string J v)) kvs)"

definition json_text :: "'j json_lib \<Rightarrow> bool" where
  "json_text J \<longleftrightarrow> (\<forall>kvs. js_parse J (js_dump J (flat_doc J kvs)) = Some (flat_doc J kvs) \<and>
     js_dump J (flat_doc J kvs) \<noteq> '''')"

lemma map_of_flat: "map_of (map (\<lambda>(k, v). (k, f v)) kvs) k = map_option f (map_of kvs k)"
  by (induction kvs) auto

lemma flat_contains:
  assumes "json_build J" and "distinct (map fst kvs)"
  shows "js_contains J (flat_doc J kvs) k \<longleftrightarrow> map_of kvs k \<noteq> None"
proof -
  have "distinct (map fst (map (\<lambda>(k, v). (k, js_of_string J v)) kvs))"
    using assms(2) by (simp add: comp_def case_prod_unfold)
  from contains_object [OF assms(1) this] show ?thesis by (simp add: flat_doc_def map_of_flat)
qed

lemma flat_str_at:
  assumes "json_build J" and "distinct (map fst kvs)" and "map_of kvs k = Some v"
  shows "str_at J (flat_doc J kvs) k = Inr v"
proof -
  have "distinct (map fst (map (\<lambda>(k, v). (k, js_of_string J v)) kvs))"
    using assms(2) by (simp add: comp_def case_prod_unfold)
  from str_at_object [OF assms(1) this, of k "js_of_string J v"] assms(3) show ?thesis
    by (simp add: flat_doc_def map_of_flat string_of_string [OF assms(1)])
qed

text \<open>
  A way to write flat documents: every character of a string is marked, a string ends with \<open>e\<close>, a
  field starts with \<open>f\<close>. With it the record above satisfies \<open>json_text\<close> as well.
\<close>

fun mark :: "string \<Rightarrow> string" where
  "mark [] = ''e''"
| "mark (c # cs) = CHR ''c'' # c # mark cs"

fun write_fields :: "(string \<times> jdoc) list \<Rightarrow> string" where
  "write_fields [] = ''.''"
| "write_fields ((k, v) # kvs) =
     CHR ''f'' # mark k @ mark (case v of JStr s \<Rightarrow> s | _ \<Rightarrow> '''') @ write_fields kvs"

fun unmark :: "string \<Rightarrow> string \<times> string" where
  "unmark (m # cs) = (if m = CHR ''c'' then
       (case cs of [] \<Rightarrow> ([], []) | c # r \<Rightarrow> (let (s, r') = unmark r in (c # s, r')))
     else ([], cs))"
| "unmark [] = ([], [])"

lemma unmark_mark [simp]: "unmark (mark s @ r) = (s, r)"
  by (induction s) auto

lemma unmark_shorter: "unmark s = (x, r) \<Longrightarrow> length r \<le> length s"
  by (induction s arbitrary: x r rule: unmark.induct)
    (fastforce split: if_splits list.splits prod.splits)+

function read_fields :: "string \<Rightarrow> (string \<times> jdoc) list" where
  "read_fields s = (case s of [] \<Rightarrow> [] | m # cs \<Rightarrow>
     (if m = CHR ''f'' then
        (case unmark cs of (k, r) \<Rightarrow> case unmark r of (v, r') \<Rightarrow> (k, JStr v) # read_fields r')
      else []))"
  by auto
termination
  by (relation "measure length")
    (auto dest!: unmark_shorter sym [of _ "unmark _"] intro: le_imp_less_Suc order_trans)

declare read_fields.simps [simp del]

lemma read_write_fields:
  "read_fields (write_fields (map (\<lambda>(k, v). (k, JStr v)) kvs)) = map (\<lambda>(k, v). (k, JStr v)) kvs"
  by (induction kvs) (auto simp: read_fields.simps)

definition text_json :: "jdoc json_lib" where
  "text_json = (ref_json (\<lambda>s. Some (JObj (read_fields s))))
     \<lparr>js_dump := (\<lambda>j. case j of JObj kvs \<Rightarrow> write_fields kvs | _ \<Rightarrow> ''.'')\<rparr>"

lemma text_json_lookup: "json_lookup text_json"
  using ref_json_lookup [of "\<lambda>s. Some (JObj (read_fields s))"]
  by (simp add: text_json_def json_lookup_def)

lemma text_json_build: "json_build text_json"
  by (simp add: text_json_def json_build_def)

lemma text_json_text: "json_text text_json"
proof -
  have "write_fields kvs \<noteq> []" for kvs
    by (cases kvs rule: write_fields.cases) auto
  then show ?thesis
    by (simp add: text_json_def json_text_def flat_doc_def read_write_fields)
qed

end
