(* ===== verification/Order_Book.thy ===== *)
theory Order_Book
  imports Prelude
begin

section \<open>The order book\<close>

text \<open>
  \<open>Order.hpp\<close>, \<open>Side.hpp\<close> and \<open>OrderBook.cpp\<close>: an order book is two vectors of orders, bids
  and asks, in the order of insertion. \<open>double\<close> (\<open>FloatingP\<close>) is a type \<open>'f\<close> with a
  subtraction, the only arithmetic the program does on prices and sizes. The first part has the
  operations as the code writes them, with positions for iterators; the second reads a vector of
  orders as a table from order ids to orders (the interface \<open>order_table\<close>), and the third states
  each operation of the book over two such tables.
\<close>

datatype Side = Sell | Buy

record 'f order =
  price :: 'f
  osize :: 'f
  order_id :: string

text \<open>\<open>operator==\<close>, with the comparison of two doubles as a parameter.\<close>

definition order_eq :: "('f \<Rightarrow> 'f \<Rightarrow> bool) \<Rightarrow> 'f order \<Rightarrow> 'f order \<Rightarrow> bool" where
  "order_eq feq lhs rhs \<longleftrightarrow>
     feq (price lhs) (price rhs) \<and> feq (osize lhs) (osize rhs) \<and> order_id lhs = order_id rhs"

record 'f OrderBook =
  m_bids :: "'f order list"
  m_asks :: "'f order list"

definition empty_book :: "'f OrderBook" where
  "empty_book = \<lparr>m_bids = [], m_asks = []\<rparr>"

subsection \<open>The operations\<close>

definition push_all :: "'f order list \<Rightarrow> 'f order list \<Rightarrow> 'f order list" where
  "push_all from v = foldl (\<lambda>v o'. v @ [o']) v from"

definition init :: "'f order list \<Rightarrow> 'f order list \<Rightarrow> 'f OrderBook \<Rightarrow> 'f OrderBook" where
  "init bids asks ob =
     (let ob1 = ob\<lparr>m_bids := [], m_asks := []\<rparr>;
          ob2 = ob1\<lparr>m_bids := push_all bids (m_bids ob1)\<rparr>
      in ob2\<lparr>m_asks := push_all asks (m_asks ob2)\<rparr>)"

definition addOrder :: "'f order \<Rightarrow> Side \<Rightarrow> 'f OrderBook \<Rightarrow> 'f OrderBook" where
  "addOrder ord side ob =
     (if side = Buy then ob\<lparr>m_bids := m_bids ob @ [ord]\<rparr>
      else ob\<lparr>m_asks := m_asks ob @ [ord]\<rparr>)"

definition removeOrder :: "string \<Rightarrow> Side \<Rightarrow> 'f OrderBook \<Rightarrow> 'f OrderBook" where
  "removeOrder orderId side ob =
     (if side = Buy then
        (let it = find_if (\<lambda>ord. order_id ord = orderId) (m_asks ob)
         in if it \<noteq> length (m_asks ob) then ob\<lparr>m_asks := erase_at it (m_asks ob)\<rparr> else ob)
      else
        (let it = find_if (\<lambda>ord. order_id ord = orderId) (m_bids ob)
         in if it \<noteq> length (m_bids ob) then ob\<lparr>m_bids := erase_at it (m_bids ob)\<rparr> else ob))"

definition updateOrder :: "string \<Rightarrow> 'f \<Rightarrow> Side \<Rightarrow> 'f OrderBook \<Rightarrow> 'f OrderBook" where
  "updateOrder orderId newSize side ob =
     (if side = Buy then
        (let it = find_if (\<lambda>ord. order_id ord = orderId) (m_asks ob)
         in if it = length (m_asks ob) then ob
            else ob\<lparr>m_asks := (m_asks ob)[it := (m_asks ob ! it)\<lparr>osize := newSize\<rparr>]\<rparr>)
      else
        (let it = find_if (\<lambda>ord. order_id ord = orderId) (m_bids ob)
         in if it = length (m_bids ob) then ob
            else ob\<lparr>m_bids := (m_bids ob)[it := (m_bids ob ! it)\<lparr>osize := newSize\<rparr>]\<rparr>))"

text \<open>
  \<open>matchOrders\<close> looks the maker up first and returns when it is missing; it then writes the
  maker's new size before it looks the taker up.
\<close>

definition take_size :: "nat \<Rightarrow> 'f::minus \<Rightarrow> 'f order list \<Rightarrow> 'f order list" where
  "take_size it matchedSize v = v[it := (v ! it)\<lparr>osize := osize (v ! it) - matchedSize\<rparr>]"

definition matchOrders ::
  "string \<Rightarrow> string \<Rightarrow> 'f::minus \<Rightarrow> Side \<Rightarrow> 'f OrderBook \<Rightarrow> 'f OrderBook" where
  "matchOrders makerOrderId takerOrderId matchedSize side ob =
     (if side = Sell then
        (let it = find_if (\<lambda>ord. order_id ord = makerOrderId) (m_bids ob)
         in if it = length (m_bids ob) then ob
            else
              (let ob1 = ob\<lparr>m_bids := take_size it matchedSize (m_bids ob)\<rparr>;
                   ita = find_if (\<lambda>ord. order_id ord = takerOrderId) (m_asks ob1)
               in if ita = length (m_asks ob1) then ob1
                  else ob1\<lparr>m_asks := take_size ita matchedSize (m_asks ob1)\<rparr>))
      else
        (let it = find_if (\<lambda>ord. order_id ord = makerOrderId) (m_asks ob)
         in if it = length (m_asks ob) then ob
            else
              (let ob1 = ob\<lparr>m_asks := take_size it matchedSize (m_asks ob)\<rparr>;
                   itb = find_if (\<lambda>ord. order_id ord = takerOrderId) (m_bids ob1)
               in if itb = length (m_bids ob1) then ob1
                  else ob1\<lparr>m_bids := take_size itb matchedSize (m_bids ob1)\<rparr>)))"

definition getAsks :: "'f OrderBook \<Rightarrow> 'f order list" where
  "getAsks ob = m_asks ob"

definition getBids :: "'f OrderBook \<Rightarrow> 'f order list" where
  "getBids ob = m_bids ob"

subsection \<open>A vector of orders as a table\<close>

text \<open>
  The interface the book's operations need of one side: look an order up by its id, append an
  order, erase by id, change by id. The laws are those of a table whose ids are unique (\<open>ok\<close>).
\<close>

locale order_table =
  fixes lookup :: "'t \<Rightarrow> string \<Rightarrow> 'o option"
    and push :: "'o \<Rightarrow> 't \<Rightarrow> 't"
    and erase :: "string \<Rightarrow> 't \<Rightarrow> 't"
    and modify :: "string \<Rightarrow> ('o \<Rightarrow> 'o) \<Rightarrow> 't \<Rightarrow> 't"
    and key :: "'o \<Rightarrow> string"
    and ok :: "'t \<Rightarrow> bool"
  assumes lookup_push: "lookup (push x t) k =
      (case lookup t k of None \<Rightarrow> if key x = k then Some x else None | Some y \<Rightarrow> Some y)"
    and lookup_erase: "ok t \<Longrightarrow> lookup (erase i t) = (lookup t)(i := None)"
    and lookup_modify: "(\<And>y. key (f y) = key y) \<Longrightarrow>
      lookup (modify i f t) = (lookup t)(i := map_option f (lookup t i))"
    and ok_push: "ok t \<Longrightarrow> lookup t (key x) = None \<Longrightarrow> ok (push x t)"
    and ok_erase: "ok t \<Longrightarrow> ok (erase i t)"
    and ok_modify: "(\<And>y. key (f y) = key y) \<Longrightarrow> ok t \<Longrightarrow> ok (modify i f t)"
begin

lemma lookup_push_fresh:
  assumes "lookup t (key x) = None"
  shows "lookup (push x t) = (lookup t)(key x \<mapsto> x)"
  using assms by (auto simp: fun_eq_iff lookup_push split: option.splits)

lemma push_erase:
  assumes "ok t" and "lookup t (key x) = None"
  shows "lookup (erase (key x) (push x t)) = lookup t"
  using assms by (auto simp: lookup_push_fresh lookup_erase ok_push fun_eq_iff)

lemma erase_commute:
  assumes "ok t"
  shows "lookup (erase i (erase j t)) = lookup (erase j (erase i t))"
  using assms by (auto simp: lookup_erase ok_erase fun_eq_iff)

lemma modify_other:
  assumes "\<And>y. key (f y) = key y" and "k \<noteq> i"
  shows "lookup (modify i f t) k = lookup t k"
  using assms by (simp add: lookup_modify)

end

definition lookup_order :: "'f order list \<Rightarrow> string \<Rightarrow> 'f order option" where
  "lookup_order v = map_of (map (\<lambda>ord. (order_id ord, ord)) v)"

definition erase_order :: "string \<Rightarrow> 'f order list \<Rightarrow> 'f order list" where
  "erase_order i v =
     (let it = find_if (\<lambda>ord. order_id ord = i) v in if it \<noteq> length v then erase_at it v else v)"

definition modify_order :: "string \<Rightarrow> ('f order \<Rightarrow> 'f order) \<Rightarrow> 'f order list \<Rightarrow> 'f order list"
  where "modify_order i f v =
     (let it = find_if (\<lambda>ord. order_id ord = i) v in if it = length v then v else v[it := f (v ! it)])"

definition unique_ids :: "'f order list \<Rightarrow> bool" where
  "unique_ids v \<longleftrightarrow> distinct (map order_id v)"

lemma lookup_order_simps [simp]:
  "lookup_order [] = Map.empty"
  "lookup_order (x # v) = (lookup_order v)(order_id x \<mapsto> x)"
  by (simp_all add: lookup_order_def)

lemma lookup_order_None: "lookup_order v i = None \<longleftrightarrow> i \<notin> order_id ` set v"
  by (induction v) auto

lemma lookup_order_Some: "lookup_order v i = Some x \<Longrightarrow> x \<in> set v \<and> order_id x = i"
  by (induction v) (auto split: if_splits)

lemma lookup_order_append: "lookup_order (v @ w) i =
    (case lookup_order v i of None \<Rightarrow> lookup_order w i | Some y \<Rightarrow> Some y)"
  by (induction v) auto

lemma erase_order_simps [simp]:
  "erase_order i [] = []"
  "erase_order i (x # v) = (if order_id x = i then v else x # erase_order i v)"
  by (simp_all add: erase_order_def Let_def)

lemma modify_order_simps [simp]:
  "modify_order i f [] = []"
  "modify_order i f (x # v) = (if order_id x = i then f x # v else x # modify_order i f v)"
  by (simp_all add: modify_order_def Let_def)

lemma unique_ids_simps [simp]:
  "unique_ids []"
  "unique_ids (x # v) \<longleftrightarrow> order_id x \<notin> order_id ` set v \<and> unique_ids v"
  by (simp_all add: unique_ids_def)

lemma unique_ids_append: "unique_ids (v @ w) \<longleftrightarrow>
    unique_ids v \<and> unique_ids w \<and> order_id ` set v \<inter> order_id ` set w = {}"
  by (auto simp: unique_ids_def)

lemma set_erase_order: "set (erase_order i v) \<subseteq> set v"
  by (induction v) auto

lemma unique_ids_erase: "unique_ids v \<Longrightarrow> unique_ids (erase_order i v)"
  using set_erase_order by (induction v) fastforce+

lemma lookup_erase_order:
  "unique_ids v \<Longrightarrow> lookup_order (erase_order i v) = (lookup_order v)(i := None)"
  by (induction v) (auto simp: fun_eq_iff lookup_order_None)

lemma erase_order_absent: "lookup_order v i = None \<Longrightarrow> erase_order i v = v"
  by (induction v) (auto split: if_splits)

lemma modify_order_absent: "lookup_order v i = None \<Longrightarrow> modify_order i f v = v"
  by (induction v) (auto split: if_splits)

lemma lookup_modify_order:
  assumes "\<And>y. order_id (f y) = order_id y"
  shows "lookup_order (modify_order i f v) = (lookup_order v)(i := map_option f (lookup_order v i))"
  using assms by (induction v) (auto simp: fun_eq_iff)

lemma map_id_modify_order:
  assumes "\<And>y. order_id (f y) = order_id y"
  shows "map order_id (modify_order i f v) = map order_id v"
  using assms by (induction v) auto

lemma ids_modify_order:
  assumes "\<And>y. order_id (f y) = order_id y"
  shows "order_id ` set (modify_order i f v) = order_id ` set v"
  using map_id_modify_order [OF assms] by (metis list.set_map)

lemma unique_ids_modify:
  assumes "\<And>y. order_id (f y) = order_id y"
  shows "unique_ids (modify_order i f v) = unique_ids v"
  using assms by (simp add: unique_ids_def map_id_modify_order)

text \<open>Vectors of orders are such a table.\<close>

interpretation side: order_table lookup_order "\<lambda>x v. v @ [x]" erase_order modify_order order_id unique_ids
proof unfold_locales
  fix v :: "'a order list" and x :: "'a order"
  assume "unique_ids v" "lookup_order v (order_id x) = None"
  then show "unique_ids (v @ [x])" by (simp add: unique_ids_append lookup_order_None)
qed (auto simp: lookup_order_append lookup_erase_order lookup_modify_order unique_ids_erase
    unique_ids_modify split: option.splits)

subsection \<open>The operations over tables\<close>

lemma push_all_eq [simp]: "push_all from v = v @ from"
  unfolding push_all_def by (induction "from" arbitrary: v) auto

lemma init_eq [simp]: "init bids asks ob = \<lparr>m_bids = bids, m_asks = asks\<rparr>"
  by (cases ob) (simp add: init_def Let_def)

lemma removeOrder_eq: "removeOrder i side ob =
    (if side = Buy then ob\<lparr>m_asks := erase_order i (m_asks ob)\<rparr>
     else ob\<lparr>m_bids := erase_order i (m_bids ob)\<rparr>)"
  by (simp add: removeOrder_def erase_order_def Let_def)

lemma updateOrder_eq: "updateOrder i n side ob =
    (if side = Buy then ob\<lparr>m_asks := modify_order i (osize_update (\<lambda>_. n)) (m_asks ob)\<rparr>
     else ob\<lparr>m_bids := modify_order i (osize_update (\<lambda>_. n)) (m_bids ob)\<rparr>)"
  by (simp add: updateOrder_def modify_order_def Let_def)

definition fill :: "'f::minus \<Rightarrow> 'f order \<Rightarrow> 'f order" where
  "fill m ord = ord\<lparr>osize := osize ord - m\<rparr>"

lemma order_id_fill [simp]: "order_id (fill m ord) = order_id ord"
  by (simp add: fill_def)

lemma osize_fill [simp]: "osize (fill m ord) = osize ord - m"
  by (simp add: fill_def)

lemma price_fill [simp]: "price (fill m ord) = price ord"
  by (simp add: fill_def)

lemma take_size_modify:
  "modify_order i (fill m) v =
     (let it = find_if (\<lambda>ord. order_id ord = i) v in if it = length v then v else take_size it m v)"
  by (simp add: modify_order_def take_size_def fill_def Let_def)

lemma find_if_lookup:
  "find_if (\<lambda>ord. order_id ord = i) v = length v \<longleftrightarrow> lookup_order v i = None"
  by (auto simp: find_if_end lookup_order_None image_iff)

lemma matchOrders_eq: "matchOrders mk tk m side ob =
    (if side = Sell then
       (if lookup_order (m_bids ob) mk = None then ob
        else ob\<lparr>m_bids := modify_order mk (fill m) (m_bids ob),
               m_asks := modify_order tk (fill m) (m_asks ob)\<rparr>)
     else
       (if lookup_order (m_asks ob) mk = None then ob
        else ob\<lparr>m_bids := modify_order tk (fill m) (m_bids ob),
               m_asks := modify_order mk (fill m) (m_asks ob)\<rparr>))"
  by (simp add: matchOrders_def take_size_modify find_if_lookup Let_def)

lemmas book_op_eqs = init_eq addOrder_def removeOrder_eq updateOrder_eq matchOrders_eq

text \<open>The abstract book: two tables, and what each operation does to them.\<close>

type_synonym 'f side_table = "string \<rightharpoonup> 'f order"

definition book_abs :: "'f OrderBook \<Rightarrow> 'f side_table \<times> 'f side_table" where
  "book_abs ob = (lookup_order (m_bids ob), lookup_order (m_asks ob))"

definition book_ok :: "'f OrderBook \<Rightarrow> bool" where
  "book_ok ob \<longleftrightarrow> unique_ids (m_bids ob) \<and> unique_ids (m_asks ob)"

fun spec_add :: "'f order \<Rightarrow> Side \<Rightarrow> 'f side_table \<times> 'f side_table \<Rightarrow> 'f side_table \<times> 'f side_table"
  where
  "spec_add ord Buy (B, A) = (B(order_id ord \<mapsto> ord), A)"
| "spec_add ord Sell (B, A) = (B, A(order_id ord \<mapsto> ord))"

fun spec_remove :: "string \<Rightarrow> Side \<Rightarrow> 'f side_table \<times> 'f side_table \<Rightarrow> 'f side_table \<times> 'f side_table"
  where
  "spec_remove i Buy (B, A) = (B, A(i := None))"
| "spec_remove i Sell (B, A) = (B(i := None), A)"

fun spec_update ::
  "string \<Rightarrow> 'f \<Rightarrow> Side \<Rightarrow> 'f side_table \<times> 'f side_table \<Rightarrow> 'f side_table \<times> 'f side_table" where
  "spec_update i n Buy (B, A) = (B, A(i := map_option (osize_update (\<lambda>_. n)) (A i)))"
| "spec_update i n Sell (B, A) = (B(i := map_option (osize_update (\<lambda>_. n)) (B i)), A)"

fun spec_match :: "string \<Rightarrow> string \<Rightarrow> 'f::minus \<Rightarrow> Side \<Rightarrow>
    'f side_table \<times> 'f side_table \<Rightarrow> 'f side_table \<times> 'f side_table" where
  "spec_match mk tk m Sell (B, A) = (if B mk = None then (B, A)
     else (B(mk := map_option (fill m) (B mk)), A(tk := map_option (fill m) (A tk))))"
| "spec_match mk tk m Buy (B, A) = (if A mk = None then (B, A)
     else (B(tk := map_option (fill m) (B tk)), A(mk := map_option (fill m) (A mk))))"

text \<open>The side an order is added to, and the side \<open>removeOrder\<close> and \<open>updateOrder\<close> look in.\<close>

definition fresh_for :: "string \<Rightarrow> Side \<Rightarrow> 'f OrderBook \<Rightarrow> bool" where
  "fresh_for i side ob \<longleftrightarrow>
     lookup_order (if side = Buy then m_bids ob else m_asks ob) i = None"

lemma abs_addOrder:
  assumes "fresh_for (order_id ord) side ob"
  shows "book_abs (addOrder ord side ob) = spec_add ord side (book_abs ob)"
  using assms by (cases side) (auto simp: book_abs_def addOrder_def fresh_for_def
      side.lookup_push_fresh)

lemma abs_removeOrder:
  assumes "book_ok ob"
  shows "book_abs (removeOrder i side ob) = spec_remove i side (book_abs ob)"
  using assms by (cases side) (auto simp: book_abs_def removeOrder_eq book_ok_def side.lookup_erase)

lemma abs_updateOrder: "book_abs (updateOrder i n side ob) = spec_update i n side (book_abs ob)"
  by (cases side) (auto simp: book_abs_def updateOrder_eq side.lookup_modify)

lemma abs_matchOrders:
  "book_abs (matchOrders mk tk m side ob) = spec_match mk tk m side (book_abs ob)"
  by (cases side) (auto simp: book_abs_def matchOrders_eq side.lookup_modify)

lemma ok_addOrder: "book_ok ob \<Longrightarrow> fresh_for (order_id ord) side ob \<Longrightarrow> book_ok (addOrder ord side ob)"
  by (cases side) (auto simp: book_ok_def addOrder_def fresh_for_def side.ok_push)

lemma ok_removeOrder: "book_ok ob \<Longrightarrow> book_ok (removeOrder i side ob)"
  by (cases side) (auto simp: book_ok_def removeOrder_eq side.ok_erase)

lemma ok_updateOrder: "book_ok ob \<Longrightarrow> book_ok (updateOrder i n side ob)"
  by (cases side) (auto simp: book_ok_def updateOrder_eq side.ok_modify)

lemma ok_matchOrders: "book_ok ob \<Longrightarrow> book_ok (matchOrders mk tk m side ob)"
  by (cases side) (auto simp: book_ok_def matchOrders_eq side.ok_modify)

end
