(* ===== verification/Product_Changes.thy ===== *)
theory Product_Changes
  imports Order_Book "HOL-Library.AList"
begin

section \<open>Product changes and products\<close>

text \<open>
  The classes of \<open>include/product\<close>. A \<open>ProductChange\<close> is one of five subclasses, here the five
  constructors of a datatype, and its virtual \<open>updateOrderBook\<close> is a function by cases. A
  \<open>Product\<close> owns an order book and a publisher and applies batches of changes. The interface
  \<open>ProductChange\<close> offers to \<open>Product\<close> is the locale \<open>book_updater\<close>; with an abstract book it
  becomes \<open>refined_updater\<close>.
\<close>

datatype 'f product_change =
    ProductChangeOpen string 'f 'f Side string u64
  | ProductChangeDone string Side string u64
  | ProductChangeMatch string string 'f 'f Side string u64
  | ProductChangeChange string 'f 'f Side string u64
  | ProductChangeResetOrderBook "'f order list" "'f order list" "'f product_change list" string u64

fun getProductId :: "'f product_change \<Rightarrow> string" where
  "getProductId (ProductChangeOpen _ _ _ _ pid _) = pid"
| "getProductId (ProductChangeDone _ _ pid _) = pid"
| "getProductId (ProductChangeMatch _ _ _ _ _ pid _) = pid"
| "getProductId (ProductChangeChange _ _ _ _ pid _) = pid"
| "getProductId (ProductChangeResetOrderBook _ _ _ pid _) = pid"

fun getSequenceNumber :: "'f product_change \<Rightarrow> u64" where
  "getSequenceNumber (ProductChangeOpen _ _ _ _ _ n) = n"
| "getSequenceNumber (ProductChangeDone _ _ _ n) = n"
| "getSequenceNumber (ProductChangeMatch _ _ _ _ _ _ n) = n"
| "getSequenceNumber (ProductChangeChange _ _ _ _ _ n) = n"
| "getSequenceNumber (ProductChangeResetOrderBook _ _ _ _ n) = n"

text \<open>The overrides of \<open>updateOrderBook\<close>; each uses only some of the fields of its object.\<close>

definition Open_updateOrderBook :: "string \<Rightarrow> 'f \<Rightarrow> 'f \<Rightarrow> Side \<Rightarrow> 'f OrderBook \<Rightarrow> 'f OrderBook \<times> bool" where
  [simp]: "Open_updateOrderBook m_orderId m_price m_remainingSize m_side ob =
     (addOrder \<lparr>price = m_price, osize = m_remainingSize, order_id = m_orderId\<rparr> m_side ob, True)"

definition Done_updateOrderBook :: "string \<Rightarrow> Side \<Rightarrow> 'f OrderBook \<Rightarrow> 'f OrderBook \<times> bool" where
  [simp]: "Done_updateOrderBook m_orderId m_side ob = (removeOrder m_orderId m_side ob, True)"

definition Match_updateOrderBook :: "string \<Rightarrow> string \<Rightarrow> 'f \<Rightarrow> 'f \<Rightarrow> Side \<Rightarrow> 'f::minus OrderBook \<Rightarrow>
    'f OrderBook \<times> bool" where
  [simp]: "Match_updateOrderBook m_makerOrderId m_takerOrderId m_price m_size m_side ob =
     (matchOrders m_makerOrderId m_takerOrderId m_size m_side ob, True)"

definition Change_updateOrderBook :: "string \<Rightarrow> 'f \<Rightarrow> 'f \<Rightarrow> Side \<Rightarrow> 'f OrderBook \<Rightarrow> 'f OrderBook \<times> bool" where
  [simp]: "Change_updateOrderBook m_orderId m_price m_remainingSize m_side ob =
     (updateOrder m_orderId m_remainingSize m_side ob, True)"

fun updateOrderBook :: "'f::minus product_change \<Rightarrow> 'f OrderBook \<Rightarrow> 'f OrderBook \<times> bool" where
  "updateOrderBook (ProductChangeOpen orderId pr remainingSize side pid n) ob =
     Open_updateOrderBook orderId pr remainingSize side ob"
| "updateOrderBook (ProductChangeDone orderId side pid n) ob = Done_updateOrderBook orderId side ob"
| "updateOrderBook (ProductChangeMatch makerOrderId takerOrderId pr sz side pid n) ob =
     Match_updateOrderBook makerOrderId takerOrderId pr sz side ob"
| "updateOrderBook (ProductChangeChange orderId pr remainingSize side pid n) ob =
     Change_updateOrderBook orderId pr remainingSize side ob"
| "updateOrderBook (ProductChangeResetOrderBook bids asks toMerge pid n) ob =
     (foldl (\<lambda>b pc. fst (updateOrderBook pc b)) (init bids asks ob) toMerge, True)"

text \<open>
  The constructors, in the order of their parameters; the message handler makes the changes with them.
\<close>

definition new_ProductChangeOpen :: "string \<Rightarrow> 'f \<Rightarrow> 'f \<Rightarrow> Side \<Rightarrow> string \<Rightarrow> u64 \<Rightarrow> 'f product_change" where
  [simp]: "new_ProductChangeOpen orderId pr remainingSize side productId sequenceNumber =
     ProductChangeOpen orderId pr remainingSize side productId sequenceNumber"

definition new_ProductChangeDone :: "string \<Rightarrow> Side \<Rightarrow> string \<Rightarrow> u64 \<Rightarrow> 'f product_change" where
  [simp]: "new_ProductChangeDone orderId side productId sequenceNumber =
     ProductChangeDone orderId side productId sequenceNumber"

definition new_ProductChangeMatch :: "string \<Rightarrow> string \<Rightarrow> 'f \<Rightarrow> 'f \<Rightarrow> Side \<Rightarrow> string \<Rightarrow> u64 \<Rightarrow>
    'f product_change" where
  [simp]: "new_ProductChangeMatch makerOrderId takerOrderId pr sz side productId sequenceNumber =
     ProductChangeMatch makerOrderId takerOrderId pr sz side productId sequenceNumber"

definition new_ProductChangeChange :: "string \<Rightarrow> 'f \<Rightarrow> 'f \<Rightarrow> Side \<Rightarrow> string \<Rightarrow> u64 \<Rightarrow> 'f product_change" where
  [simp]: "new_ProductChangeChange orderId pr remainingSize side productId sequenceNumber =
     ProductChangeChange orderId pr remainingSize side productId sequenceNumber"

text \<open>Applying a list of changes, as the loops of the code do.\<close>

definition apply_changes :: "'f::minus product_change list \<Rightarrow> 'f OrderBook \<Rightarrow> 'f OrderBook" where
  "apply_changes pcs ob = foldl (\<lambda>b pc. fst (updateOrderBook pc b)) ob pcs"

lemma apply_changes_simps [simp]:
  "apply_changes [] ob = ob"
  "apply_changes (pc # pcs) ob = apply_changes pcs (fst (updateOrderBook pc ob))"
  "apply_changes (pcs @ pcs') ob = apply_changes pcs' (apply_changes pcs ob)"
  by (simp_all add: apply_changes_def)

lemma updateOrderBook_Reset: "updateOrderBook (ProductChangeResetOrderBook bids asks ms pid n) ob =
    (apply_changes ms (init bids asks ob), True)"
  by (simp add: apply_changes_def)

lemma updateOrderBook_true [simp]: "snd (updateOrderBook pc ob) = True"
  by (cases pc) simp_all

subsection \<open>What \<open>Product\<close> relies on\<close>

locale book_updater =
  fixes upd :: "'c \<Rightarrow> 'b \<Rightarrow> 'b \<times> bool"
    and ok :: "'b \<Rightarrow> bool"
    and fits :: "'c \<Rightarrow> 'b \<Rightarrow> bool"
  assumes upd_ok: "ok b \<Longrightarrow> fits c b \<Longrightarrow> ok (fst (upd c b))"
begin

fun fits_all :: "'c list \<Rightarrow> 'b \<Rightarrow> bool" where
  "fits_all [] b = True"
| "fits_all (c # cs) b = (fits c b \<and> fits_all cs (fst (upd c b)))"

lemma foldl_ok: "ok b \<Longrightarrow> fits_all cs b \<Longrightarrow> ok (foldl (\<lambda>b c. fst (upd c b)) b cs)"
  by (induction cs arbitrary: b) (auto intro: upd_ok)

end

locale refined_updater = book_updater +
  fixes abs_book :: "'b \<Rightarrow> 's" and spec :: "'a \<Rightarrow> 's \<Rightarrow> 's"
  assumes upd_abs: "ok b \<Longrightarrow> fits c b \<Longrightarrow> abs_book (fst (upd c b)) = spec c (abs_book b)"
begin

lemma foldl_abs: "ok b \<Longrightarrow> fits_all cs b \<Longrightarrow>
    abs_book (foldl (\<lambda>b c. fst (upd c b)) b cs) = fold spec cs (abs_book b)"
  by (induction cs arbitrary: b) (auto simp: upd_abs upd_ok)

end

text \<open>
  The abstract effect of a change on the two tables, and when a change fits a book: an order may
  only be opened under an id its side does not hold.
\<close>

fun spec_change :: "'f::minus product_change \<Rightarrow>
    'f side_table \<times> 'f side_table \<Rightarrow> 'f side_table \<times> 'f side_table" where
  "spec_change (ProductChangeOpen i pr sz side pid n) T =
     spec_add \<lparr>price = pr, osize = sz, order_id = i\<rparr> side T"
| "spec_change (ProductChangeDone i side pid n) T = spec_remove i side T"
| "spec_change (ProductChangeMatch mk tk pr sz side pid n) T = spec_match mk tk sz side T"
| "spec_change (ProductChangeChange i pr sz side pid n) T = spec_update i sz side T"
| "spec_change (ProductChangeResetOrderBook bids asks ms pid n) T =
     fold spec_change ms (lookup_order bids, lookup_order asks)"

fun change_fits :: "'f::minus product_change \<Rightarrow> 'f OrderBook \<Rightarrow> bool"
  and changes_fit :: "'f product_change list \<Rightarrow> 'f OrderBook \<Rightarrow> bool" where
  "change_fits (ProductChangeOpen i pr sz side pid n) ob = fresh_for i side ob"
| "change_fits (ProductChangeDone i side pid n) ob = True"
| "change_fits (ProductChangeMatch mk tk pr sz side pid n) ob = True"
| "change_fits (ProductChangeChange i pr sz side pid n) ob = True"
| "change_fits (ProductChangeResetOrderBook bids asks ms pid n) ob =
     (unique_ids bids \<and> unique_ids asks \<and> changes_fit ms (init bids asks ob))"
| "changes_fit [] ob = True"
| "changes_fit (pc # pcs) ob =
     (change_fits pc ob \<and> changes_fit pcs (fst (updateOrderBook pc ob)))"

lemma book_ok_init: "unique_ids bids \<Longrightarrow> unique_ids asks \<Longrightarrow> book_ok (init bids asks ob)"
  by (simp add: book_ok_def)

lemma change_refines:
  fixes pc :: "'f::minus product_change"
  shows "book_ok ob \<Longrightarrow> change_fits pc ob \<Longrightarrow>
      book_ok (fst (updateOrderBook pc ob)) \<and>
      book_abs (fst (updateOrderBook pc ob)) = spec_change pc (book_abs ob)"
    and "book_ok ob \<Longrightarrow> changes_fit pcs ob \<Longrightarrow>
      book_ok (apply_changes pcs ob) \<and>
      book_abs (apply_changes pcs ob) = fold spec_change pcs (book_abs ob)"
proof (induction pc ob and pcs ob rule: change_fits_changes_fit.induct)
  case (5 bids asks ms pid n ob)
  then have fit: "unique_ids bids" "unique_ids asks" "changes_fit ms (init bids asks ob)" by auto
  have "book_abs (init bids asks ob) = (lookup_order bids, lookup_order asks)"
    by (simp add: book_abs_def)
  with "5.IH" [OF book_ok_init [OF fit(1,2)] fit(3)] show ?case
    unfolding updateOrderBook_Reset by simp
qed (auto simp: abs_addOrder abs_removeOrder abs_updateOrder abs_matchOrders
    ok_addOrder ok_removeOrder ok_updateOrder ok_matchOrders)

interpretation change: refined_updater updateOrderBook book_ok change_fits book_abs spec_change
  by unfold_locales (simp_all add: change_refines)

lemma fits_all_changes_fit: "change.fits_all pcs ob = changes_fit pcs ob"
  by (induction pcs arbitrary: ob) simp_all

subsection \<open>Products\<close>

text \<open>
  \<open>Client.hpp\<close> and \<open>Product.hpp\<close>. The product reaches its publisher through the interface
  \<open>ProductChangePublisher\<close>; here \<open>'p\<close> is the publisher's state and \<open>publish\<close> its operation. The
  client table is the \<open>unordered_map\<close> from client ids, as an association list. The timing output
  of \<open>onProductChanges\<close> is left out.
\<close>

record Client =
  m_clientId :: string
  m_orderIds :: "string list"

definition new_Client :: "string \<Rightarrow> Client" where
  "new_Client clientId = \<lparr>m_clientId = clientId, m_orderIds = []\<rparr>"

record ('f, 'p) Product =
  prod_productId :: string
  prod_clients :: "(string \<times> Client) list"
  m_orderBook :: "'f OrderBook"
  m_publisher :: 'p

definition new_Product :: "string \<Rightarrow> 'p \<Rightarrow> ('f, 'p) Product" where
  "new_Product productId publisher =
     \<lparr>prod_productId = productId, prod_clients = [], m_orderBook = empty_book,
      m_publisher = publisher\<rparr>"

definition onProductChanges :: "('f OrderBook \<Rightarrow> 'p \<Rightarrow> 'p) \<Rightarrow> 'f::minus product_change list \<Rightarrow>
    ('f, 'p) Product \<Rightarrow> ('f, 'p) Product" where
  "onProductChanges publish pcs p =
     (if pcs = [] then p
      else
        (let (ob, bookUpdated) =
               foldl (\<lambda>(ob, bookUpdated) pc.
                   let (ob', upd) = updateOrderBook pc ob
                   in (ob', if upd then True else bookUpdated))
                 (m_orderBook p, False) pcs;
             p1 = p\<lparr>m_orderBook := ob\<rparr>
         in if bookUpdated then p1\<lparr>m_publisher := publish (m_orderBook p1) (m_publisher p1)\<rparr>
            else p1))"

definition hasClients :: "('f, 'p) Product \<Rightarrow> int" where
  "hasClients p = int (length (prod_clients p))"

definition appendClient :: "Client \<Rightarrow> ('f, 'p) Product \<Rightarrow> ('f, 'p) Product" where
  "appendClient client p =
     p\<lparr>prod_clients := AList.update (m_clientId client) client (prod_clients p)\<rparr>"

definition removeClient :: "string \<Rightarrow> ('f, 'p) Product \<Rightarrow> ('f, 'p) Product" where
  "removeClient clientId p = p\<lparr>prod_clients := AList.delete clientId (prod_clients p)\<rparr>"

lemma onProductChanges_loop:
  "foldl (\<lambda>(ob, upd) pc. let (ob', u) = updateOrderBook pc ob in (ob', if u then True else upd))
     (ob, b) pcs = (apply_changes pcs ob, b \<or> pcs \<noteq> [])"
proof (induction pcs arbitrary: ob b)
  case (Cons pc pcs)
  then show ?case
    using updateOrderBook_true [of pc ob] by (cases "updateOrderBook pc ob") (simp add: Let_def)
qed simp

lemma onProductChanges_eq: "onProductChanges publish pcs p =
    (if pcs = [] then p
     else p\<lparr>m_orderBook := apply_changes pcs (m_orderBook p),
            m_publisher := publish (apply_changes pcs (m_orderBook p)) (m_publisher p)\<rparr>)"
  unfolding onProductChanges_def onProductChanges_loop by (simp add: Let_def)

lemma onProductChanges_frame [simp]:
  "prod_clients (onProductChanges publish pcs p) = prod_clients p"
  "prod_productId (onProductChanges publish pcs p) = prod_productId p"
  by (simp_all add: onProductChanges_eq)

subsection \<open>Sizes\<close>

definition total_size :: "'f::comm_monoid_add order list \<Rightarrow> 'f" where
  "total_size v = sum_list (map osize v)"

lemma total_size_fill:
  fixes m :: "'f::ab_group_add"
  shows "total_size (modify_order i (fill m) v) =
    total_size v - (if lookup_order v i = None then 0 else m)"
  by (induction v) (auto simp: total_size_def)

subsection \<open>Properties of the book and of products\<close>

definition other_side :: "Side \<Rightarrow> Side" where
  "other_side side = (if side = Buy then Sell else Buy)"

lemma erase_order_snoc:
  "lookup_order v (order_id x) = None \<Longrightarrow> erase_order (order_id x) (v @ [x]) = v"
  by (induction v) (auto split: if_splits)

lemma modify_order_frame:
  "map price (modify_order i (fill m) v) = map price v"
  "map order_id (modify_order i (fill m) v) = map order_id v"
  by (induction v) auto

lemma fill_on_side:
  fixes m :: "'f::ab_group_add"
  assumes "lookup_order v i \<noteq> None"
  shows "total_size (modify_order i (fill m) v) = total_size v - m"
  using assms by (simp add: total_size_fill del: not_None_eq)

definition sample_bid :: "int order" where
  "sample_bid = \<lparr>price = 10, osize = 7, order_id = ''b1''\<rparr>"

definition sample_ask :: "int order" where
  "sample_ask = \<lparr>price = 11, osize = 5, order_id = ''a1''\<rparr>"

definition sample_book :: "int OrderBook" where
  "sample_book = \<lparr>m_bids = [sample_bid], m_asks = [sample_ask]\<rparr>"

lemmas sample_defs = sample_bid_def sample_ask_def sample_book_def

text \<open>
  C3: Refinement of the book. On a book whose ids are unique on each side, a change that fits
  (an opened id is new to its side, a snapshot has unique ids) leaves a book with unique ids,
  and its effect is the abstract one on the tables of bids and asks: open inserts, done deletes,
  change and match rewrite sizes, a snapshot replaces both tables and then applies its merged
  changes in order.
\<close>

theorem updateOrderBook_refines:
  fixes pc :: "'f::minus product_change"
  assumes "book_ok ob" and "change_fits pc ob"
  shows "book_ok (fst (updateOrderBook pc ob)) \<and>
    book_abs (fst (updateOrderBook pc ob)) = spec_change pc (book_abs ob)"
  using change.upd_ok [OF assms] change.upd_abs [OF assms] by simp

theorem updateOrderBook_refines_witness:
  "let pc = ProductChangeResetOrderBook [sample_bid] []
       [ProductChangeOpen ''a2'' 12 3 Sell ''ETH-USD'' 8, ProductChangeDone ''b1'' Sell ''ETH-USD'' 9]
       ''ETH-USD'' 7
   in book_ok (fst (updateOrderBook pc sample_book)) \<and>
      book_abs (fst (updateOrderBook pc sample_book)) = spec_change pc (book_abs sample_book)"
proof -
  have "book_ok sample_book"
    by (simp add: book_ok_def sample_defs)
  moreover have "change_fits (ProductChangeResetOrderBook [sample_bid] []
       [ProductChangeOpen ''a2'' 12 3 Sell ''ETH-USD'' 8, ProductChangeDone ''b1'' Sell ''ETH-USD'' 9]
       ''ETH-USD'' 7) sample_book"
    by (simp add: fresh_for_def)
  ultimately show ?thesis
    unfolding Let_def by (rule updateOrderBook_refines)
qed

text \<open>
  A snapshot forgets and merges. Applying a snapshot with merged changes gives the same book
  whatever the book was before, and delivering part of the merged changes separately, after the
  snapshot, gives the same book again: merging queued messages into the snapshot message is
  equivalent to delivering them one by one.
\<close>

theorem snapshot_merge_equiv:
  "fst (updateOrderBook (ProductChangeResetOrderBook bids asks (ms @ ms') pid n) ob) =
   apply_changes (ProductChangeResetOrderBook bids asks ms pid n' # ms') ob'"
  by (simp add: updateOrderBook_Reset del: updateOrderBook.simps)

text \<open>
  One publication per batch. A product publishes nothing for an empty batch, and exactly
  once for any other, the book after every change of the batch was applied in order.
\<close>

theorem product_publishes_once:
  "m_publisher (onProductChanges (\<lambda>ob sent. sent @ [ob]) pcs p) =
     m_publisher p @ (if pcs = [] then [] else [apply_changes pcs (m_orderBook p)]) \<and>
   m_orderBook (onProductChanges (\<lambda>ob sent. sent @ [ob]) pcs p) =
     apply_changes pcs (m_orderBook p) \<and>
   prod_clients (onProductChanges (\<lambda>ob sent. sent @ [ob]) pcs p) = prod_clients p"
  by (simp add: onProductChanges_eq)

text \<open>
  A match moves the same size on both sides. When maker and taker are on the sides
  \<open>matchOrders\<close> looks at, each side loses exactly the matched size (in exact arithmetic), and
  the ids, prices and positions of all orders stay as they were.
\<close>

theorem match_takes_from_both:
  fixes m :: "'f::ab_group_add"
  assumes "lookup_order (if side = Sell then m_bids ob else m_asks ob) mk \<noteq> None"
    and "lookup_order (if side = Sell then m_asks ob else m_bids ob) tk \<noteq> None"
  shows "total_size (m_bids (matchOrders mk tk m side ob)) = total_size (m_bids ob) - m \<and>
    total_size (m_asks (matchOrders mk tk m side ob)) = total_size (m_asks ob) - m \<and>
    map order_id (m_bids (matchOrders mk tk m side ob)) = map order_id (m_bids ob) \<and>
    map order_id (m_asks (matchOrders mk tk m side ob)) = map order_id (m_asks ob) \<and>
    map price (m_bids (matchOrders mk tk m side ob)) = map price (m_bids ob) \<and>
    map price (m_asks (matchOrders mk tk m side ob)) = map price (m_asks ob)"
  using assms by (cases side) (auto simp: matchOrders_eq fill_on_side modify_order_frame)

theorem match_takes_from_both_witness:
  "total_size (m_bids (matchOrders ''b1'' ''a1'' 2 Sell sample_book)) = 5 \<and>
   total_size (m_asks (matchOrders ''b1'' ''a1'' 2 Sell sample_book)) = 3"
  using match_takes_from_both [of Sell sample_book "''b1''" "''a1''" 2]
  by (simp add: sample_defs total_size_def)

text \<open>
  C37: Which side \<open>done\<close> looks at. After an order with a new id was opened, a removal that names
  the opposite side restores the book exactly, and a removal that names the order's own side
  leaves the order where it is: \<open>addOrder\<close> and \<open>removeOrder\<close> read their side differently.
\<close>

theorem open_done_sides:
  assumes "fresh_for (order_id ord) side ob"
  shows "removeOrder (order_id ord) (other_side side) (addOrder ord side ob) = ob \<and>
    ord \<in> set (if side = Buy then m_bids (removeOrder (order_id ord) side (addOrder ord side ob))
              else m_asks (removeOrder (order_id ord) side (addOrder ord side ob)))"
  using assms by (cases side)
    (auto simp: other_side_def addOrder_def removeOrder_eq fresh_for_def erase_order_snoc)

theorem open_done_sides_witness:
  "let ord = \<lparr>price = 9, osize = 1, order_id = ''b2''\<rparr>
   in removeOrder ''b2'' Sell (addOrder ord Buy sample_book) = sample_book \<and>
      ord \<in> set (m_bids (removeOrder ''b2'' Buy (addOrder ord Buy sample_book)))"
  using open_done_sides [of "\<lparr>price = 9, osize = 1, order_id = ''b2''\<rparr>" Buy sample_book]
  by (simp add: fresh_for_def sample_defs other_side_def)

text \<open>
  A match whose maker is missing changes nothing, and a match whose taker is missing still
  reduces the maker: the two lookups of \<open>matchOrders\<close> are not one transaction.
\<close>

theorem match_missing_orders:
  "matchOrders mk tk m Sell ob =
     (case (lookup_order (m_bids ob) mk, lookup_order (m_asks ob) tk) of
        (None, _) \<Rightarrow> ob
      | (Some _, None) \<Rightarrow> ob\<lparr>m_bids := modify_order mk (fill m) (m_bids ob)\<rparr>
      | (Some _, Some _) \<Rightarrow> ob\<lparr>m_bids := modify_order mk (fill m) (m_bids ob),
                             m_asks := modify_order tk (fill m) (m_asks ob)\<rparr>) \<and>
   matchOrders mk tk m Buy ob =
     (case (lookup_order (m_asks ob) mk, lookup_order (m_bids ob) tk) of
        (None, _) \<Rightarrow> ob
      | (Some _, None) \<Rightarrow> ob\<lparr>m_asks := modify_order mk (fill m) (m_asks ob)\<rparr>
      | (Some _, Some _) \<Rightarrow> ob\<lparr>m_bids := modify_order tk (fill m) (m_bids ob),
                             m_asks := modify_order mk (fill m) (m_asks ob)\<rparr>)"
  by (auto simp: matchOrders_eq modify_order_absent split: option.splits)

end
