(* ===== verification/Endpoints.thy ===== *)
theory Endpoints
  imports Json_Lib
begin

section \<open>The endpoint provider\<close>

text \<open>
  \<open>transport/include/CoinbaseEndpointService.hpp\<close>: a table from the ids of the products that are
  online to the address and the two ports of their publishers, filled by the constructor from
  the list of products the REST interface returns. The ports are \<open>int\<close>s counted up from 83000
  and 93000; the model counts in unbounded integers, which agrees with \<open>int\<close> up to two thousand
  million products. The text of the REST response is an argument.
\<close>

record Endpoint =
  address :: string
  orderbookPort :: string
  tradePort :: string

fun insert_products :: "'j json_lib \<Rightarrow> 'j list \<Rightarrow> int \<Rightarrow> int \<Rightarrow> (string \<rightharpoonup> Endpoint) \<Rightarrow>
    (string \<rightharpoonup> Endpoint) res" where
  "insert_products J [] order_port trade_port productIds = Inr productIds"
| "insert_products J (productId # rest) order_port trade_port productIds =
     bindE (at J productId ''status'') (\<lambda>status.
       if js_eq J status ''online'' then
         bindE (str_at J productId ''id'') (\<lambda>pid.
           insert_products J rest (order_port + 1) (trade_port + 1)
             (if productIds pid = None
              then productIds(pid \<mapsto> \<lparr>address = ''127.0.0.1'',
                     orderbookPort = to_string order_port, tradePort = to_string trade_port\<rparr>)
              else productIds))
       else insert_products J rest order_port trade_port productIds)"

definition EndpointProvider :: "'j json_lib \<Rightarrow> string \<Rightarrow> (string \<rightharpoonup> Endpoint) res" where
  "EndpointProvider J results =
     (case js_parse J results of
        None \<Rightarrow> Inl Parse_Error
      | Some jmsg \<Rightarrow> insert_products J (js_elems J jmsg) 83000 93000 Map.empty)"

definition contains :: "(string \<rightharpoonup> Endpoint) \<Rightarrow> string \<Rightarrow> bool" where
  "contains productIds prodId \<longleftrightarrow> productIds prodId \<noteq> None"

definition prodIdToPort :: "(string \<rightharpoonup> Endpoint) \<Rightarrow> string \<Rightarrow> Endpoint res" where
  "prodIdToPort productIds prodId =
     (case productIds prodId of None \<Rightarrow> Inl Assert_Failed | Some e \<Rightarrow> Inr e)"

text \<open>The URIs built from an endpoint, by the publishers and by the client service.\<close>

definition orderbook_address :: "Endpoint \<Rightarrow> string" where
  "orderbook_address e = address e @ '':'' @ orderbookPort e"

definition trade_address :: "Endpoint \<Rightarrow> string" where
  "trade_address e = address e @ '':'' @ tradePort e"

subsection \<open>What the constructor builds\<close>

definition endpoint_at :: "nat \<Rightarrow> nat \<Rightarrow> nat \<Rightarrow> Endpoint" where
  "endpoint_at op tp i = \<lparr>address = ''127.0.0.1'', orderbookPort = digits (op + i),
     tradePort = digits (tp + i)\<rparr>"

text \<open>The ids of the products that are online, in the order of the list.\<close>

fun online_ids :: "'j json_lib \<Rightarrow> 'j list \<Rightarrow> string list res" where
  "online_ids J [] = Inr []"
| "online_ids J (p # ps) =
     bindE (at J p ''status'') (\<lambda>status.
       if js_eq J status ''online''
       then bindE (str_at J p ''id'') (\<lambda>pid. bindE (online_ids J ps) (\<lambda>ids. Inr (pid # ids)))
       else online_ids J ps)"

text \<open>An id that occurs twice keeps the ports of its first occurrence.\<close>

lemma insert_products_eq:
  assumes "online_ids J ps = Inr ids"
  shows "insert_products J ps (int op) (int tp) m =
    Inr (\<lambda>k. case m k of Some e \<Rightarrow> Some e
      | None \<Rightarrow> if k \<in> set ids then Some (endpoint_at op tp (find_if (\<lambda>x. x = k) ids)) else None)"
  using assms
proof (induction ps arbitrary: ids op tp m)
  case (Cons p ps)
  obtain status where st: "at J p ''status'' = Inr status"
    using Cons.prems by (auto simp: res_simps)
  show ?case
  proof (cases "js_eq J status ''online''")
    case True
    with Cons.prems st obtain pid ids' where pid: "str_at J p ''id'' = Inr pid"
      and ids': "online_ids J ps = Inr ids'" and ids: "ids = pid # ids'"
      by (auto simp: res_simps)
    have step: "insert_products J ps (int op + 1) (int tp + 1) m' = Inr (\<lambda>k. case m' k of
        Some e \<Rightarrow> Some e
      | None \<Rightarrow> if k \<in> set ids' then Some (endpoint_at (Suc op) (Suc tp) (find_if (\<lambda>x. x = k) ids'))
                else None)" for m'
      using Cons.IH [OF ids', of "Suc op" "Suc tp" m'] by (simp add: add.commute)
    have first: "endpoint_at op tp 0 = \<lparr>address = ''127.0.0.1'',
        orderbookPort = to_string (int op), tradePort = to_string (int tp)\<rparr>"
      by (simp add: endpoint_at_def to_string_def)
    show ?thesis
      using True st pid by (auto simp: step ids first [symmetric] fun_eq_iff endpoint_at_def
          split: option.splits)
  next
    case False
    with Cons st show ?thesis by simp
  qed
qed (simp add: fun_eq_iff split: option.split)

lemma EndpointProvider_eq:
  assumes "js_parse J results = Some jmsg" and "online_ids J (js_elems J jmsg) = Inr ids"
  shows "EndpointProvider J results = Inr (\<lambda>k. if k \<in> set ids
    then Some (endpoint_at 83000 93000 (find_if (\<lambda>x. x = k) ids)) else None)"
  using insert_products_eq [OF assms(2), of 83000 93000 Map.empty] assms(1)
  by (simp add: EndpointProvider_def)

lemma nth_find_if_eq: "k \<in> set ids \<Longrightarrow> ids ! find_if (\<lambda>x. x = k) ids = k"
  by (induction ids) auto

lemma find_if_eq_inject:
  assumes "k \<in> set ids" and "k' \<in> set ids"
  shows "find_if (\<lambda>x. x = k) ids = find_if (\<lambda>x. x = k') ids \<longleftrightarrow> k = k'"
  using nth_find_if_eq [OF assms(1)] nth_find_if_eq [OF assms(2)] by metis

lemma find_if_eq_less: "k \<in> set ids \<Longrightarrow> find_if (\<lambda>x. x = k) ids < length ids"
  by (induction ids) auto

lemma endpoint_at_ports:
  "orderbookPort (endpoint_at op tp i) = orderbookPort (endpoint_at op tp j) \<longleftrightarrow> i = j"
  "tradePort (endpoint_at op tp i) = tradePort (endpoint_at op tp j) \<longleftrightarrow> i = j"
  "orderbookPort (endpoint_at op tp i) = tradePort (endpoint_at op tp j) \<longleftrightarrow> op + i = tp + j"
  by (simp_all add: endpoint_at_def digits_inject)

subsection \<open>Properties of the endpoint provider\<close>

definition sample_products :: jdoc where
  "sample_products = JArr
     [JObj [(''id'', JStr ''BTC-USD''), (''status'', JStr ''online'')],
      JObj [(''id'', JStr ''XRP-USD''), (''status'', JStr ''delisted'')],
      JObj [(''id'', JStr ''ETH-USD''), (''status'', JStr ''online'')]]"

definition sample_provider_lib :: "jdoc json_lib" where
  "sample_provider_lib = ref_json [''products'' \<mapsto> sample_products]"

lemma sample_online_ids:
  "js_parse sample_provider_lib ''products'' = Some sample_products"
  "online_ids sample_provider_lib (js_elems sample_provider_lib sample_products) =
     Inr [''BTC-USD'', ''ETH-USD'']"
  by (simp_all add: sample_provider_lib_def sample_products_def at_def str_at_def)

text \<open>
  The provider's table. When the list of products parses and its entries can be read, the
  provider knows exactly the products that are online, and gives every one of them a loopback
  address with its own order book port and its own trade port; as long as at most 10000 products
  are online no order book port is also a trade port.
\<close>

theorem endpoints_separate:
  assumes "js_parse J results = Some jmsg" and "online_ids J (js_elems J jmsg) = Inr ids"
  shows "\<exists>ps. EndpointProvider J results = Inr ps \<and>
    (\<forall>k. contains ps k \<longleftrightarrow> k \<in> set ids) \<and>
    (\<forall>k k' e e'. ps k = Some e \<longrightarrow> ps k' = Some e' \<longrightarrow> k \<noteq> k' \<longrightarrow>
       orderbookPort e \<noteq> orderbookPort e' \<and> tradePort e \<noteq> tradePort e') \<and>
    (length ids \<le> 10000 \<longrightarrow>
       (\<forall>k k' e e'. ps k = Some e \<longrightarrow> ps k' = Some e' \<longrightarrow> orderbookPort e \<noteq> tradePort e'))"
proof -
  have "find_if (\<lambda>x. x = k) ids \<noteq> 10000 + n" if "length ids \<le> 10000" "k \<in> set ids" for k n
    using that find_if_eq_less [of k ids] by linarith
  then show ?thesis
    by (auto simp: EndpointProvider_eq [OF assms] contains_def endpoint_at_ports find_if_eq_inject
        split: if_splits)
qed

theorem endpoints_separate_witness:
  "\<exists>ps. EndpointProvider sample_provider_lib ''products'' = Inr ps \<and>
    contains ps ''ETH-USD'' \<and> \<not> contains ps ''XRP-USD''"
proof -
  obtain ps where "EndpointProvider sample_provider_lib ''products'' = Inr ps"
    and "\<forall>k. contains ps k \<longleftrightarrow> k \<in> set [''BTC-USD'', ''ETH-USD'']"
    using endpoints_separate [OF sample_online_ids] by blast
  then show ?thesis by (intro exI [of _ ps]) simp
qed

text \<open>
  The ports are no TCP ports. Every port the provider ever hands out is larger than 65535,
  the largest port number there is.
\<close>

theorem endpoint_ports_too_large:
  assumes "js_parse J results = Some jmsg" and "online_ids J (js_elems J jmsg) = Inr ids"
    and "EndpointProvider J results = Inr ps" and "prodIdToPort ps k = Inr e"
  shows "65535 < number_of (orderbookPort e) \<and> 65535 < number_of (tradePort e)"
  using assms(3,4) by (auto simp: EndpointProvider_eq [OF assms(1,2)] prodIdToPort_def endpoint_at_def
      number_of_digits split: if_splits option.splits)

theorem endpoint_ports_too_large_witness:
  "\<exists>ps e. EndpointProvider sample_provider_lib ''products'' = Inr ps \<and>
    prodIdToPort ps ''ETH-USD'' = Inr e \<and> 65535 < number_of (orderbookPort e)"
proof -
  let ?ps = "\<lambda>k. if k \<in> set [''BTC-USD'', ''ETH-USD'']
    then Some (endpoint_at 83000 93000 (find_if (\<lambda>x. x = k) [''BTC-USD'', ''ETH-USD''])) else None"
  have ps: "EndpointProvider sample_provider_lib ''products'' = Inr ?ps"
    by (rule EndpointProvider_eq [OF sample_online_ids])
  have e: "prodIdToPort ?ps ''ETH-USD'' = Inr (endpoint_at 83000 93000 1)"
    by (simp add: prodIdToPort_def)
  from endpoint_ports_too_large [OF sample_online_ids ps e] ps e show ?thesis by blast
qed

subsection \<open>The REST transport\<close>

text \<open>
  \<open>transport/src/RestTransport.cpp\<close>: one transfer by the curlpp library, which is the parameter
  \<open>perform\<close> (URL, user agent); it gives the body of the response or one of the library's two
  exceptions with its message. The function gives its result and what it prints.
\<close>

datatype curl_exn = LogicError string | RuntimeError string

definition user_agent :: string where
  "user_agent = ''Chrome: Mozilla/5.0 (X11; Linux x86_64) AppleWebKit/537.36 (KHTML, like Gecko) '' @
     ''Chrome/77.0.3865.90 Safari/537.36.''"

definition RestTransport_request :: "(string \<Rightarrow> string \<Rightarrow> curl_exn + string) \<Rightarrow> string \<Rightarrow>
    string \<times> string list" where
  "RestTransport_request perform url =
     (case perform url user_agent of
        Inr output \<Rightarrow> (output, [])
      | Inl (LogicError what) \<Rightarrow> ('''', [what])
      | Inl (RuntimeError what) \<Rightarrow> ('''', [what]))"

text \<open>The first use of the provider runs its constructor on what the REST interface returns.\<close>

definition EndpointProvider_getInstance :: "(string \<Rightarrow> string \<Rightarrow> curl_exn + string) \<Rightarrow> 'j json_lib \<Rightarrow>
    (string \<rightharpoonup> Endpoint) res" where
  "EndpointProvider_getInstance perform J =
     EndpointProvider J (fst (RestTransport_request perform ''https://api.pro.coinbase.com/products/''))"

text \<open>
  A failed transfer is not handled. When the transfer of the product list fails, the transport
  prints the message and returns an empty text as if the transfer had succeeded; no JSON document is
  empty, so the constructor of the endpoint provider throws a parse error, each time it is called.
\<close>

theorem failed_transfer_throws:
  assumes "js_parse J '''' = None" and "\<And>agent. \<exists>e. perform ''https://api.pro.coinbase.com/products/'' agent = Inl e"
  shows "EndpointProvider_getInstance perform J = Inl Parse_Error"
proof -
  have "fst (RestTransport_request perform ''https://api.pro.coinbase.com/products/'') = ''''"
    using assms(2) [of user_agent] by (auto simp: RestTransport_request_def split: curl_exn.splits)
  with assms(1) show ?thesis by (simp add: EndpointProvider_getInstance_def EndpointProvider_def)
qed

theorem failed_transfer_throws_witness:
  "EndpointProvider_getInstance (\<lambda>url agent. Inl (RuntimeError ''Timeout'')) sample_provider_lib = Inl Parse_Error"
  by (rule failed_transfer_throws) (simp_all add: sample_provider_lib_def)

end
