(* ===== verification/Wire_Messages.thy ===== *)
theory Wire_Messages
  imports Endpoints Order_Book
begin

section \<open>Trades, wire messages and publishers\<close>

text \<open>
  The messages of \<open>protos/qs_protos/Message.proto\<close>, the trade classes of \<open>include/trade\<close> that
  fill them in, and the publishers that send them. A message under construction has its unset
  fields at \<open>None\<close>; \<open>'g\<close> is the wire type \<open>float\<close>, and \<open>to_float\<close>, the implicit conversion from
  \<open>double\<close>, is a parameter, as is \<open>ser\<close>, the \<open>SerializeAsString\<close> of the code the protocol buffer
  compiler generates. A socket is the list of the payloads sent on it.
\<close>

datatype MessageType = MessageType_ORDERBOOK | MessageType_TRADE

datatype TradeType = TradeType_ACTIVATE | TradeType_CHANGE | TradeType_DONE | TradeType_MATCH
  | TradeType_OPEN

record 'g qs_Order =
  o_order_id :: "string option"
  o_price :: "'g option"
  o_size :: "'g option"

record 'g qs_OrderBook =
  b_product_id :: "string option"
  b_asks :: "'g qs_Order list"
  b_bids :: "'g qs_Order list"

record 'g qs_Trade =
  t_type :: "TradeType option"
  t_product_id :: "string option"
  t_order_id :: "string option"
  t_size :: "'g option"
  t_price :: "'g option"
  t_founds :: "'g option"
  t_stop_price :: "'g option"
  t_stop_type :: "string option"
  t_order_type :: "string option"
  t_funds :: "'g option"

datatype 'g qs_msg = No_Msg | Trade_Msg "'g qs_Trade" | OrderBook_Msg "'g qs_OrderBook"

record 'g qsMessage =
  message_type :: "MessageType option"
  msg :: "'g qs_msg"

definition empty_Trade :: "'g qs_Trade" where
  "empty_Trade = \<lparr>t_type = None, t_product_id = None, t_order_id = None, t_size = None,
     t_price = None, t_founds = None, t_stop_price = None, t_stop_type = None,
     t_order_type = None, t_funds = None\<rparr>"

text \<open>The fields the \<open>.proto\<close> file declares \<open>required\<close>.\<close>

definition order_complete :: "'g qs_Order \<Rightarrow> bool" where
  "order_complete x \<longleftrightarrow> o_order_id x \<noteq> None \<and> o_price x \<noteq> None \<and> o_size x \<noteq> None"

fun msg_complete :: "'g qs_msg \<Rightarrow> bool" where
  "msg_complete No_Msg = True"
| "msg_complete (Trade_Msg t) =
     (t_type t \<noteq> None \<and> t_product_id t \<noteq> None \<and> t_order_id t \<noteq> None)"
| "msg_complete (OrderBook_Msg b) =
     (b_product_id b \<noteq> None \<and> list_all order_complete (b_asks b) \<and> list_all order_complete (b_bids b))"

definition complete :: "'g qsMessage \<Rightarrow> bool" where
  "complete m \<longleftrightarrow> message_type m \<noteq> None \<and> msg_complete (msg m)"

subsection \<open>Trades\<close>

datatype 'f trade =
    TradeActivate string 'f 'f 'f 'f string string
      \<comment> \<open>order id, size, price, founds, stop price, stop type, product id\<close>
  | TradeMatch string 'f string
  | TradeReceive string "'f option" "'f option" "'f option" Side string string
      \<comment> \<open>order id, size, founds, price, side, order type, product id\<close>

text \<open>The constructors, in the order of their parameters.\<close>

definition new_TradeActivate :: "string \<Rightarrow> 'f \<Rightarrow> 'f \<Rightarrow> 'f \<Rightarrow> 'f \<Rightarrow> string \<Rightarrow> string \<Rightarrow> 'f trade" where
  [simp]: "new_TradeActivate orderId sz pr founds stopPrice stopType productId =
     TradeActivate orderId sz pr founds stopPrice stopType productId"

definition new_TradeMatch :: "string \<Rightarrow> 'f \<Rightarrow> string \<Rightarrow> 'f trade" where
  [simp]: "new_TradeMatch orderId sz productId = TradeMatch orderId sz productId"

definition new_TradeReceive :: "string \<Rightarrow> 'f option \<Rightarrow> 'f option \<Rightarrow> 'f option \<Rightarrow> Side \<Rightarrow> string \<Rightarrow>
    string \<Rightarrow> 'f trade" where
  [simp]: "new_TradeReceive orderId sz founds pr side orderType productId =
     TradeReceive orderId sz founds pr side orderType productId"

fun trade_productId :: "'f trade \<Rightarrow> string" where
  "trade_productId (TradeActivate _ _ _ _ _ _ pid) = pid"
| "trade_productId (TradeMatch _ _ pid) = pid"
| "trade_productId (TradeReceive _ _ _ _ _ _ pid) = pid"

fun trade_orderId :: "'f trade \<Rightarrow> string" where
  "trade_orderId (TradeActivate oid _ _ _ _ _ _) = oid"
| "trade_orderId (TradeMatch oid _ _) = oid"
| "trade_orderId (TradeReceive oid _ _ _ _ _ _) = oid"

text \<open>The body of \<open>generateMessage\<close> up to the serialisation. \<open>*m_founds\<close> on an empty optional
  is undefined.\<close>

definition TradeActivate_message :: "('f \<Rightarrow> 'g) \<Rightarrow> string \<Rightarrow> 'f \<Rightarrow> 'f \<Rightarrow> 'f \<Rightarrow> 'f \<Rightarrow> string \<Rightarrow> string \<Rightarrow>
    'g qsMessage" where
  [simp]: "TradeActivate_message to_float oid sz pr fo sp st pid =
     \<lparr>message_type = Some MessageType_TRADE,
       msg = Trade_Msg (empty_Trade\<lparr>t_type := Some TradeType_ACTIVATE, t_order_id := Some oid,
         t_product_id := Some pid, t_size := Some (to_float sz), t_price := Some (to_float pr),
         t_founds := Some (to_float fo), t_stop_price := Some (to_float sp),
         t_stop_type := Some st\<rparr>)\<rparr>"

definition TradeMatch_message :: "('f \<Rightarrow> 'g) \<Rightarrow> string \<Rightarrow> 'f \<Rightarrow> string \<Rightarrow> 'g qsMessage" where
  [simp]: "TradeMatch_message to_float oid sz pid =
     \<lparr>message_type = Some MessageType_TRADE,
       msg = Trade_Msg (empty_Trade\<lparr>t_type := Some TradeType_MATCH, t_order_id := Some oid,
         t_product_id := Some pid, t_size := Some (to_float sz)\<rparr>)\<rparr>"

definition TradeReceive_message :: "('f \<Rightarrow> 'g) \<Rightarrow> string \<Rightarrow> 'f option \<Rightarrow> 'f option \<Rightarrow> 'f option \<Rightarrow>
    string \<Rightarrow> string \<Rightarrow> 'g qsMessage res" where
  [simp]: "TradeReceive_message to_float oid sz fo pr ot pid =
     (let t1 = empty_Trade\<lparr>t_type := Some TradeType_ACTIVATE, t_order_id := Some oid,
            t_product_id := Some pid\<rparr>;
          t2 = (case sz of Some x \<Rightarrow> t1\<lparr>t_size := Some (to_float x)\<rparr> | None \<Rightarrow> t1);
          t3 = (case pr of Some x \<Rightarrow> t2\<lparr>t_price := Some (to_float x)\<rparr> | None \<Rightarrow> t2)
      in bindE
           (case pr of
              None \<Rightarrow> Inr t3
            | Some _ \<Rightarrow>
                (case fo of None \<Rightarrow> Inl Undefined
                 | Some x \<Rightarrow> Inr (t3\<lparr>t_founds := Some (to_float x)\<rparr>)))
           (\<lambda>t4. Inr \<lparr>message_type = Some MessageType_TRADE,
              msg = Trade_Msg (t4\<lparr>t_order_type := Some ot\<rparr>)\<rparr>))"

fun trade_message :: "('f \<Rightarrow> 'g) \<Rightarrow> 'f trade \<Rightarrow> 'g qsMessage res" where
  "trade_message to_float (TradeActivate oid sz pr fo sp st pid) =
     Inr (TradeActivate_message to_float oid sz pr fo sp st pid)"
| "trade_message to_float (TradeMatch oid sz pid) = Inr (TradeMatch_message to_float oid sz pid)"
| "trade_message to_float (TradeReceive oid sz fo pr side ot pid) =
     TradeReceive_message to_float oid sz fo pr ot pid"

definition generateMessage ::
  "('g qsMessage \<Rightarrow> string) \<Rightarrow> ('f \<Rightarrow> 'g) \<Rightarrow> 'f trade \<Rightarrow> string res" where
  "generateMessage ser to_float t = bindE (trade_message to_float t) (\<lambda>pMessage. Inr (ser pMessage))"

subsection \<open>Publishers\<close>

record ZMQPublisher =
  bind_addr :: string
  m_sent :: "string list"

definition new_ZMQPublisher :: "string \<Rightarrow> ZMQPublisher" where
  "new_ZMQPublisher addr = \<lparr>bind_addr = ''tcp://'' @ addr, m_sent = []\<rparr>"

definition zmq_publish :: "string \<Rightarrow> ZMQPublisher \<Rightarrow> ZMQPublisher" where
  "zmq_publish payload z = z\<lparr>m_sent := m_sent z @ [payload]\<rparr>"

text \<open>\<open>TradePublisher\<close>: both reads of the endpoint come before the string is built.\<close>

definition new_TradePublisher :: "(string \<rightharpoonup> Endpoint) \<Rightarrow> string \<Rightarrow> ZMQPublisher res" where
  "new_TradePublisher productIds productId =
     bindE (prodIdToPort productIds productId) (\<lambda>e1.
     bindE (prodIdToPort productIds productId) (\<lambda>e2.
       Inr (new_ZMQPublisher (address e1 @ '':'' @ tradePort e2))))"

definition TradePublisher_publish :: "('g qsMessage \<Rightarrow> string) \<Rightarrow> ('f \<Rightarrow> 'g) \<Rightarrow> 'f trade \<Rightarrow>
    ZMQPublisher \<Rightarrow> ZMQPublisher res" where
  "TradePublisher_publish ser to_float trade z =
     bindE (generateMessage ser to_float trade) (\<lambda>payload. Inr (zmq_publish payload z))"

text \<open>\<open>ProductChangePublisherZMQ\<close>, with \<open>PROTOCOL_BUF_PUB\<close> defined as the header does.\<close>

record ProductChangePublisherZMQ =
  pub_productId :: string
  pub_socket :: ZMQPublisher

definition new_ProductChangePublisherZMQ ::
  "(string \<rightharpoonup> Endpoint) \<Rightarrow> string \<Rightarrow> ProductChangePublisherZMQ res" where
  "new_ProductChangePublisherZMQ productIds productId =
     bindE (prodIdToPort productIds productId) (\<lambda>e1.
     bindE (prodIdToPort productIds productId) (\<lambda>e2.
       Inr \<lparr>pub_productId = productId,
            pub_socket = new_ZMQPublisher (address e1 @ '':'' @ orderbookPort e2)\<rparr>))"

definition wire_order :: "('f \<Rightarrow> 'g) \<Rightarrow> 'f order \<Rightarrow> 'g qs_Order" where
  "wire_order to_float x = \<lparr>o_order_id = Some (order_id x), o_price = Some (to_float (price x)),
     o_size = Some (to_float (osize x))\<rparr>"

definition orderbook_message :: "('f \<Rightarrow> 'g) \<Rightarrow> string \<Rightarrow> 'f OrderBook \<Rightarrow> 'g qsMessage" where
  "orderbook_message to_float productId view =
     \<lparr>message_type = Some MessageType_ORDERBOOK,
      msg = OrderBook_Msg
        \<lparr>b_product_id = Some productId,
         b_asks = foldl (\<lambda>v x. v @ [wire_order to_float x]) [] (getAsks view),
         b_bids = foldl (\<lambda>v x. v @ [wire_order to_float x]) [] (getBids view)\<rparr>\<rparr>"

definition ProductChangePublisherZMQ_publish :: "('g qsMessage \<Rightarrow> string) \<Rightarrow> ('f \<Rightarrow> 'g) \<Rightarrow>
    'f OrderBook \<Rightarrow> ProductChangePublisherZMQ \<Rightarrow> ProductChangePublisherZMQ" where
  "ProductChangePublisherZMQ_publish ser to_float view pub =
     pub\<lparr>pub_socket :=
       zmq_publish (ser (orderbook_message to_float (pub_productId pub) view)) (pub_socket pub)\<rparr>"

lemma wire_loop: "foldl (\<lambda>v x. v @ [f x]) v xs = v @ map f xs"
  by (induction xs arbitrary: v) auto

lemma orderbook_message_eq: "orderbook_message to_float pid view =
    \<lparr>message_type = Some MessageType_ORDERBOOK,
     msg = OrderBook_Msg \<lparr>b_product_id = Some pid, b_asks = map (wire_order to_float) (m_asks view),
       b_bids = map (wire_order to_float) (m_bids view)\<rparr>\<rparr>"
  by (simp add: orderbook_message_def wire_loop getAsks_def getBids_def)

lemma trade_message_Receive: "trade_message to_float (TradeReceive oid sz fo pr side ot pid) =
    (if pr \<noteq> None \<and> fo = None then Inl Undefined
     else Inr \<lparr>message_type = Some MessageType_TRADE,
       msg = Trade_Msg (empty_Trade\<lparr>t_type := Some TradeType_ACTIVATE, t_order_id := Some oid,
         t_product_id := Some pid, t_size := map_option to_float sz,
         t_price := map_option to_float pr,
         t_founds := (if pr = None then None else map_option to_float fo),
         t_order_type := Some ot\<rparr>)\<rparr>)"
  by (auto simp: empty_Trade_def Let_def split: option.splits)

text \<open>The test before \<open>set_founds\<close> reads the price: a trade with a price and no \<open>founds\<close> has no
  message.\<close>

lemma generateMessage_Receive:
  "generateMessage ser to_float (TradeReceive oid sz fo pr side ot pid) = Inl Undefined \<longleftrightarrow>
   pr \<noteq> None \<and> fo = None"
  by (auto simp: generateMessage_def trade_message_Receive simp del: trade_message.simps(3))

subsection \<open>Properties of the wire messages\<close>

text \<open>
  Messages are complete. Every trade message that is generated at all, and every order book
  message, sets all the fields the protocol requires.
\<close>

theorem wire_messages_complete:
  "(\<forall>t pMessage. trade_message to_float t = Inr pMessage \<longrightarrow> complete pMessage) \<and>
   complete (orderbook_message to_float productId view)"
proof -
  have "complete pMessage" if "trade_message to_float t = Inr pMessage" for t pMessage
    using that by (cases t) (auto simp: trade_message_Receive complete_def empty_Trade_def
        simp del: trade_message.simps(3) split: if_splits)
  then show ?thesis
    by (auto simp: orderbook_message_eq complete_def list_all_iff order_complete_def wire_order_def)
qed

theorem wire_messages_complete_witness:
  "\<exists>pMessage. trade_message id (TradeMatch ''t1'' (3::int) ''ETH-USD'') = Inr pMessage \<and>
    complete pMessage"
proof -
  have "trade_message id (TradeMatch ''t1'' (3::int) ''ETH-USD'') =
      Inr (projr (trade_message id (TradeMatch ''t1'' (3::int) ''ETH-USD'')))"
    by simp
  then show ?thesis
    using wire_messages_complete [of "id :: int \<Rightarrow> int"] by blast
qed

subsection \<open>The other form of the order book message\<close>

text \<open>
  With \<open>RAPID_JSON_PUB\<close> instead of \<open>PROTOCOL_BUF_PUB\<close> the publisher writes a JSON text with the
  rapidjson library. The library is the record \<open>rapid_lib\<close> over a type \<open>'v\<close> of values: values are moved
  into the document, so each is used once. \<open>to_str\<close> is \<open>std::to_string\<close> on \<open>double\<close>.
\<close>

record 'v rapid_lib =
  rj_parse :: "string \<Rightarrow> 'v"
  rj_string :: "string \<Rightarrow> 'v"  \<comment> \<open>\<open>SetString\<close>\<close>
  rj_object :: 'v  \<comment> \<open>\<open>Value(kObjectType)\<close>\<close>
  rj_array :: 'v  \<comment> \<open>\<open>Value(kArrayType)\<close>\<close>
  rj_add :: "string \<Rightarrow> 'v \<Rightarrow> 'v \<Rightarrow> 'v"  \<comment> \<open>\<open>AddMember\<close>: name, value, object\<close>
  rj_push :: "'v \<Rightarrow> 'v \<Rightarrow> 'v"  \<comment> \<open>\<open>PushBack\<close>: value, array\<close>
  rj_write :: "'v \<Rightarrow> string"  \<comment> \<open>\<open>Accept(writer)\<close>, the buffer's text\<close>

definition rapid_order :: "'v rapid_lib \<Rightarrow> ('f \<Rightarrow> string) \<Rightarrow> 'f order \<Rightarrow> 'v" where
  "rapid_order R to_str x =
     (let jOrder = rj_object R;
          jOrder1 = rj_add R ''order_id'' (rj_string R (order_id x)) jOrder;
          jOrder2 = rj_add R ''price'' (rj_string R (to_str (price x))) jOrder1
      in rj_add R ''size'' (rj_string R (to_str (osize x))) jOrder2)"

definition rapid_message :: "'v rapid_lib \<Rightarrow> ('f \<Rightarrow> string) \<Rightarrow> string \<Rightarrow> 'f OrderBook \<Rightarrow> 'v" where
  "rapid_message R to_str productId view =
     (let rapidMeesage = rj_parse R (''{'' @ [CHR 0x22] @ ''message'' @ [CHR 0x22] @ '':'' @ [CHR 0x22] @
            ''orderbook'' @ [CHR 0x22] @ ''}'');
          m1 = rj_add R ''product_id'' (rj_string R productId) rapidMeesage;
          jAsks = foldl (\<lambda>v x. rj_push R (rapid_order R to_str x) v) (rj_array R) (getAsks view);
          jBids = foldl (\<lambda>v x. rj_push R (rapid_order R to_str x) v) (rj_array R) (getBids view)
      in rj_add R ''asks'' jAsks (rj_add R ''bids'' jBids m1))"

definition rapid_publish :: "'v rapid_lib \<Rightarrow> ('f \<Rightarrow> string) \<Rightarrow> 'f OrderBook \<Rightarrow>
    ProductChangePublisherZMQ \<Rightarrow> ProductChangePublisherZMQ" where
  "rapid_publish R to_str view pub =
     pub\<lparr>pub_socket := zmq_publish (rj_write R (rapid_message R to_str (pub_productId pub) view))
       (pub_socket pub)\<rparr>"

subsection \<open>The ZMQ example programs\<close>

text \<open>
  \<open>zmq_test\<close>: one program publishes the same text again and again, the other prints what it receives.
  The loops never end; the arguments are the number of rounds and the messages received.
\<close>

fun zmq_test_pub :: "nat \<Rightarrow> ZMQPublisher \<Rightarrow> ZMQPublisher" where
  "zmq_test_pub 0 sock = sock"
| "zmq_test_pub (Suc rounds) sock = zmq_test_pub rounds (zmq_publish ''test'' sock)"

fun zmq_test_sub :: "string list \<Rightarrow> string list" where
  "zmq_test_sub [] = [''Waiting for feed message'']"
| "zmq_test_sub (message # messages) = ''Waiting for feed message'' # message # zmq_test_sub messages"

end
