(* ===== verification/Message_Handler.thy ===== *)
theory Message_Handler
  imports Json_Lib Product_Changes Wire_Messages
begin

section \<open>From feed messages to product changes and trades\<close>

text \<open>
  \<open>CoinbaseFeedMessageHandler.cpp\<close> and \<open>MessageToTrade.cpp\<close>. The reads of a message come in the
  order of the code, each of which may throw; where one C++ call has several \<open>stod\<close> calls among
  its arguments they are taken from left to right. \<open>getProductChange\<close> calls itself for the
  messages under \<open>to_merge\<close>; its first argument bounds the depth of that recursion, and
  \<open>getProductChange_deep\<close> shows that any bound above the depth of the document is enough.
\<close>

definition to_Side :: "string \<Rightarrow> Side" where
  "to_Side s = (if s = ''sell'' then Sell else Buy)"

definition stodE :: "(string \<Rightarrow> stod_exn + 'f) \<Rightarrow> string \<Rightarrow> 'f res" where
  "stodE stod s = of_stod (stod s)"

lemma stodE_not_exhausted [simp]: "stodE stod s \<noteq> Inl Stack_Exhausted"
  by (simp add: stodE_def)

definition parse_order ::
  "'j json_lib \<Rightarrow> (string \<Rightarrow> stod_exn + 'f) \<Rightarrow> 'j \<Rightarrow> 'f order res" where
  "parse_order J stod ord =
     bindE (str_idx J ord 0) (\<lambda>pr.
     bindE (str_idx J ord 1) (\<lambda>sz.
     bindE (str_idx J ord 2) (\<lambda>orderId.
     bindE (stodE stod pr) (\<lambda>p.
     bindE (stodE stod sz) (\<lambda>s.
       Inr \<lparr>price = p, osize = s, order_id = orderId\<rparr>)))))"

definition parse_open :: "'j json_lib \<Rightarrow> (string \<Rightarrow> stod_exn + 'f) \<Rightarrow> string \<Rightarrow> 'j \<Rightarrow>
    'f product_change res" where
  "parse_open J stod productId jmsg =
     bindE (str_at J jmsg ''order_id'') (\<lambda>orderId.
     bindE (ulong_at J jmsg ''sequence'') (\<lambda>sequence.
     bindE (str_at J jmsg ''price'') (\<lambda>pr.
     bindE (str_at J jmsg ''remaining_size'') (\<lambda>sz.
     bindE (str_at J jmsg ''side'') (\<lambda>side.
     bindE (stodE stod pr) (\<lambda>p.
     bindE (stodE stod sz) (\<lambda>s.
       Inr (new_ProductChangeOpen orderId p s (to_Side side) productId sequence))))))))"

definition parse_done :: "'j json_lib \<Rightarrow> string \<Rightarrow> 'j \<Rightarrow> 'f product_change res" where
  "parse_done J productId jmsg =
     bindE (str_at J jmsg ''order_id'') (\<lambda>orderId.
     bindE (str_at J jmsg ''side'') (\<lambda>sideStr.
     bindE (ulong_at J jmsg ''sequence'') (\<lambda>sequence.
       Inr (new_ProductChangeDone orderId (to_Side sideStr) productId sequence))))"

definition parse_match :: "'j json_lib \<Rightarrow> (string \<Rightarrow> stod_exn + 'f) \<Rightarrow> string \<Rightarrow> 'j \<Rightarrow>
    'f product_change res" where
  "parse_match J stod productId jmsg =
     bindE (str_at J jmsg ''maker_order_id'') (\<lambda>makerOrderId.
     bindE (str_at J jmsg ''taker_order_id'') (\<lambda>takerOrderId.
     bindE (ulong_at J jmsg ''sequence'') (\<lambda>sequence.
     bindE (str_at J jmsg ''price'') (\<lambda>pr.
     bindE (str_at J jmsg ''size'') (\<lambda>sz.
     bindE (str_at J jmsg ''side'') (\<lambda>side.
     bindE (stodE stod pr) (\<lambda>p.
     bindE (stodE stod sz) (\<lambda>s.
       Inr (new_ProductChangeMatch makerOrderId takerOrderId p s (to_Side side) productId
              sequence)))))))))"

definition parse_change :: "'j json_lib \<Rightarrow> (string \<Rightarrow> stod_exn + 'f) \<Rightarrow> string \<Rightarrow> 'j \<Rightarrow>
    'f product_change res" where
  "parse_change J stod productId jmsg =
     bindE (str_at J jmsg ''order_id'') (\<lambda>orderId.
     bindE (str_at J jmsg ''price'') (\<lambda>pr.
     bindE (str_at J jmsg ''size'') (\<lambda>sz.
     bindE (ulong_at J jmsg ''sequence'') (\<lambda>sequence.
     bindE (str_at J jmsg ''side'') (\<lambda>side.
     bindE (stodE stod pr) (\<lambda>p.
     bindE (stodE stod sz) (\<lambda>s.
       Inr (new_ProductChangeChange orderId p s (to_Side side) productId sequence))))))))"

fun getProductChange :: "nat \<Rightarrow> 'j json_lib \<Rightarrow> (string \<Rightarrow> stod_exn + 'f) \<Rightarrow> string \<Rightarrow> 'j \<Rightarrow>
    'f product_change option res" where
  "getProductChange 0 J stod productId jmsg = Inl Stack_Exhausted"
| "getProductChange (Suc depth) J stod productId jmsg =
     (if js_contains J jmsg ''bids'' \<and> js_contains J jmsg ''asks'' then
        bindE (at J jmsg ''asks'') (\<lambda>jasks.
        bindE (mapE (parse_order J stod) (js_elems J jasks)) (\<lambda>asks.
        bindE (at J jmsg ''bids'') (\<lambda>jbids.
        bindE (mapE (parse_order J stod) (js_elems J jbids)) (\<lambda>bids.
        bindE
          (if js_contains J jmsg ''to_merge'' then
             bindE (at J jmsg ''to_merge'') (\<lambda>jmerge.
             bindE (mapE (getProductChange depth J stod productId) (js_elems J jmerge)) (\<lambda>pcs.
               Inr (keep_some pcs)))
           else Inr []) (\<lambda>toMerge.
        bindE (ulong_at J jmsg ''sequence'') (\<lambda>sequence.
          Inr (Some (ProductChangeResetOrderBook bids asks toMerge productId sequence))))))))
      else if js_contains J jmsg ''type'' then
        bindE (str_at J jmsg ''type'') (\<lambda>type.
          if type = ''open'' then
            bindE (parse_open J stod productId jmsg) (\<lambda>pc. Inr (Some pc))
          else if type = ''done'' then
            bindE (parse_done J productId jmsg) (\<lambda>pc. Inr (Some pc))
          else if type = ''match'' then
            bindE (parse_match J stod productId jmsg) (\<lambda>pc. Inr (Some pc))
          else if type = ''change'' then
            bindE (parse_change J stod productId jmsg) (\<lambda>pc. Inr (Some pc))
          else Inr None)
      else Inr None)"

text \<open>
  \<open>onMessageReceived\<close> hands a change to the listener, the interface \<open>ProductChangeListener\<close>:
  \<open>'l\<close> is its state and \<open>listen\<close> its \<open>onProductChange\<close>.
\<close>

definition handler_onMessageReceived :: "nat \<Rightarrow> 'j json_lib \<Rightarrow> (string \<Rightarrow> stod_exn + 'f) \<Rightarrow>
    ('f product_change \<Rightarrow> 'l \<Rightarrow> 'l) \<Rightarrow> string \<Rightarrow> 'j \<Rightarrow> 'l \<Rightarrow> 'l res" where
  "handler_onMessageReceived depth J stod listen productId jmsg l =
     bindE (getProductChange depth J stod productId jmsg) (\<lambda>pc.
       Inr (case pc of Some c \<Rightarrow> listen c l | None \<Rightarrow> l))"

subsection \<open>Trades\<close>

definition parse_optional :: "'j json_lib \<Rightarrow> (string \<Rightarrow> stod_exn + 'f) \<Rightarrow> 'j \<Rightarrow> string \<Rightarrow>
    'f option res" where
  "parse_optional J stod jmsg k =
     (if js_contains J jmsg k
      then bindE (str_at J jmsg k) (\<lambda>s. bindE (stodE stod s) (\<lambda>x. Inr (Some x)))
      else Inr None)"

definition getTrade :: "'j json_lib \<Rightarrow> (string \<Rightarrow> stod_exn + 'f) \<Rightarrow> 'j \<Rightarrow> 'f trade option res" where
  "getTrade J stod jmsg =
     bindE (str_at J jmsg ''type'') (\<lambda>type.
       if type = ''activate'' then
         bindE (str_at J jmsg ''order_id'') (\<lambda>orderId.
         bindE (ulong_at J jmsg ''sequence'') (\<lambda>_.
         bindE (str_at J jmsg ''price'') (\<lambda>pr.
         bindE (str_at J jmsg ''size'') (\<lambda>sz.
         bindE (str_at J jmsg ''stop_type'') (\<lambda>stop_type.
         bindE (str_at J jmsg ''stop_price'') (\<lambda>stop_price.
         bindE (str_at J jmsg ''founds'') (\<lambda>founds.
         bindE (str_at J jmsg ''side'') (\<lambda>_.
         bindE (str_at J jmsg ''product_id'') (\<lambda>productId.
         bindE (stodE stod sz) (\<lambda>s.
         bindE (stodE stod pr) (\<lambda>p.
         bindE (stodE stod founds) (\<lambda>f.
         bindE (stodE stod stop_price) (\<lambda>sp.
           Inr (Some (new_TradeActivate orderId s p f sp stop_type productId)))))))))))))))
       else if type = ''received'' then
         bindE (str_at J jmsg ''order_id'') (\<lambda>orderId.
         bindE (ulong_at J jmsg ''sequence'') (\<lambda>_.
         bindE (str_at J jmsg ''order_type'') (\<lambda>orderType.
         bindE (parse_optional J stod jmsg ''founds'') (\<lambda>founds.
         bindE (parse_optional J stod jmsg ''size'') (\<lambda>sz.
         bindE (parse_optional J stod jmsg ''price'') (\<lambda>pr.
         bindE (str_at J jmsg ''side'') (\<lambda>side.
         bindE (str_at J jmsg ''product_id'') (\<lambda>productId.
           Inr (Some (new_TradeReceive orderId sz founds pr (to_Side side) orderType productId))))))))))
       else if type = ''match'' then
         bindE (str_at J jmsg ''maker_order_id'') (\<lambda>_.
         bindE (str_at J jmsg ''taker_order_id'') (\<lambda>takerOrderId.
         bindE (ulong_at J jmsg ''sequence'') (\<lambda>_.
         bindE (str_at J jmsg ''price'') (\<lambda>_.
         bindE (str_at J jmsg ''size'') (\<lambda>sz.
         bindE (str_at J jmsg ''product_id'') (\<lambda>productId.
         bindE (str_at J jmsg ''side'') (\<lambda>_.
         bindE (stodE stod sz) (\<lambda>s.
           Inr (Some (new_TradeMatch takerOrderId s productId))))))))))
       else Inr None)"

subsection \<open>Depth of the recursion\<close>

lemmas parse_defs = parse_open_def parse_done_def parse_match_def parse_change_def parse_order_def

lemma parse_not_exhausted [simp]:
  "parse_open J stod pid j \<noteq> Inl Stack_Exhausted"
  "parse_done J pid j \<noteq> Inl Stack_Exhausted"
  "parse_match J stod pid j \<noteq> Inl Stack_Exhausted"
  "parse_change J stod pid j \<noteq> Inl Stack_Exhausted"
  "parse_order J stod j \<noteq> Inl Stack_Exhausted"
  by (auto simp: parse_defs res_simps)

lemma mapE_parse_order_not_exhausted [simp]:
  "mapE (parse_order J stod) js \<noteq> Inl Stack_Exhausted"
  using mapE_InlD [of "parse_order J stod" js Stack_Exhausted] by auto

lemma json_depth_elems:
  assumes "json_depth J d" and "at J j k = Inr v" and "x \<in> set (js_elems J v)"
  shows "d x < d j"
  using assms unfolding json_depth_def at_def by auto

lemma getProductChange_deep:
  assumes "json_depth J d" and "d jmsg < n"
  shows "getProductChange n J stod pid jmsg \<noteq> Inl Stack_Exhausted"
  using assms(2)
proof (induction n arbitrary: jmsg)
  case (Suc n)
  have merge: "mapE (getProductChange n J stod pid) (js_elems J v) \<noteq> Inl Stack_Exhausted"
    if "at J jmsg ''to_merge'' = Inr v" for v
  proof
    assume "mapE (getProductChange n J stod pid) (js_elems J v) = Inl Stack_Exhausted"
    then obtain x where x: "x \<in> set (js_elems J v)"
      and ex: "getProductChange n J stod pid x = Inl Stack_Exhausted"
      by (auto dest: mapE_InlD)
    have "d x < n"
      using json_depth_elems [OF assms(1) that x] Suc.prems by simp
    with Suc.IH ex show False by blast
  qed
  show ?case
    by (auto simp: res_simps merge split: if_splits)
qed simp

lemma getProductChange_stable:
  assumes "json_depth J d" and "d jmsg < n" and "d jmsg < n'"
  shows "getProductChange n J stod pid jmsg = getProductChange n' J stod pid jmsg"
  using assms(2,3)
proof (induction n arbitrary: n' jmsg)
  case (Suc n)
  then obtain k where n': "n' = Suc k" by (cases n') auto
  have merge: "mapE (getProductChange n J stod pid) (js_elems J v) =
      mapE (getProductChange k J stod pid) (js_elems J v)" if "at J jmsg ''to_merge'' = Inr v" for v
  proof (rule mapE_cong [OF refl])
    fix x assume "x \<in> set (js_elems J v)"
    then have "d x < d jmsg" using json_depth_elems [OF assms(1) that] by simp
    with Suc.prems n' show "getProductChange n J stod pid x = getProductChange k J stod pid x"
      by (intro Suc.IH) auto
  qed
  have "bindE (at J jmsg ''to_merge'') (\<lambda>jmerge.
      bindE (mapE (getProductChange n J stod pid) (js_elems J jmerge)) (\<lambda>pcs. Inr (keep_some pcs))) =
    bindE (at J jmsg ''to_merge'') (\<lambda>jmerge.
      bindE (mapE (getProductChange k J stod pid) (js_elems J jmerge)) (\<lambda>pcs. Inr (keep_some pcs)))"
    by (rule bindE_cong) (simp_all add: merge)
  then show ?case unfolding n' getProductChange.simps by simp
qed simp

subsection \<open>Messages written for changes\<close>

text \<open>
  The message the feed sends for a change, and the snapshot message \<open>requestFullOrderBookImpl\<close>
  builds, over a library that can also build numbers (\<open>num\<close>), with \<open>sho\<close> printing a price.
\<close>

fun side_text :: "Side \<Rightarrow> string" where
  "side_text Sell = ''sell''"
| "side_text Buy = ''buy''"

lemma to_Side_text [simp]: "to_Side (side_text side) = side"
  by (cases side) (simp_all add: to_Side_def)

definition encode_order :: "'j json_lib \<Rightarrow> ('f \<Rightarrow> string) \<Rightarrow> 'f order \<Rightarrow> 'j" where
  "encode_order J sho x = js_array J (map (js_of_string J) [sho (price x), sho (osize x), order_id x])"

fun encode_change :: "'j json_lib \<Rightarrow> (u64 \<Rightarrow> 'j) \<Rightarrow> ('f \<Rightarrow> string) \<Rightarrow> 'f product_change \<Rightarrow> 'j" where
  "encode_change J num sho (ProductChangeOpen i p sz side pid n) = js_object J
     [(''type'', js_of_string J ''open''), (''sequence'', num n),
      (''order_id'', js_of_string J i), (''price'', js_of_string J (sho p)),
      (''remaining_size'', js_of_string J (sho sz)), (''side'', js_of_string J (side_text side))]"
| "encode_change J num sho (ProductChangeDone i side pid n) = js_object J
     [(''type'', js_of_string J ''done''), (''sequence'', num n),
      (''order_id'', js_of_string J i), (''side'', js_of_string J (side_text side))]"
| "encode_change J num sho (ProductChangeMatch mk tk p sz side pid n) = js_object J
     [(''type'', js_of_string J ''match''), (''sequence'', num n),
      (''maker_order_id'', js_of_string J mk), (''taker_order_id'', js_of_string J tk),
      (''price'', js_of_string J (sho p)), (''size'', js_of_string J (sho sz)),
      (''side'', js_of_string J (side_text side))]"
| "encode_change J num sho (ProductChangeChange i p sz side pid n) = js_object J
     [(''type'', js_of_string J ''change''), (''sequence'', num n),
      (''order_id'', js_of_string J i), (''price'', js_of_string J (sho p)),
      (''size'', js_of_string J (sho sz)), (''side'', js_of_string J (side_text side))]"
| "encode_change J num sho (ProductChangeResetOrderBook bids asks ms pid n) = js_object J
     [(''bids'', js_array J (map (encode_order J sho) bids)),
      (''asks'', js_array J (map (encode_order J sho) asks)),
      (''to_merge'', js_array J (map (encode_change J num sho) ms)), (''sequence'', num n)]"

fun nesting :: "'f product_change \<Rightarrow> nat" where
  "nesting (ProductChangeResetOrderBook bids asks ms pid n) = Suc (foldr max (map nesting ms) 0)"
| "nesting _ = 0"

fun all_of_product :: "string \<Rightarrow> 'f product_change \<Rightarrow> bool" where
  "all_of_product p (ProductChangeResetOrderBook bids asks ms pid n) =
     (pid = p \<and> list_all (all_of_product p) ms)"
| "all_of_product p pc = (getProductId pc = p)"

lemma le_foldr_max: "x \<in> set xs \<Longrightarrow> (x::nat) \<le> foldr max xs 0"
  by (induction xs) auto

lemma parse_order_encode:
  assumes "json_build J" and "\<And>x. stod (sho x) = Inr x"
  shows "parse_order J stod (encode_order J sho x) = Inr x"
proof -
  have "str_idx J (encode_order J sho x) i =
      Inr ([sho (price x), sho (osize x), order_id x] ! i)" if "i < 3" for i
    using assms(1) that unfolding str_idx_def encode_order_def json_build_def
    by (simp add: nth_Cons split: nat.split)
  then show ?thesis by (simp add: parse_order_def stodE_def assms(2))
qed

lemma getProductChange_encode:
  assumes J: "json_build J" and num: "\<And>n. js_ulong J (num n) = Inr n"
    and sho: "\<And>x. stod (sho x) = Inr x"
  shows "nesting pc < n \<Longrightarrow> all_of_product pid pc \<Longrightarrow>
    getProductChange n J stod pid (encode_change J num sho pc) = Inr (Some pc)"
proof (induction pc arbitrary: n)
  case (ProductChangeResetOrderBook bids asks ms pid' s)
  then obtain k where n: "n = Suc k" and k: "foldr max (map nesting ms) 0 < k" and [simp]: "pid' = pid"
    by (cases n) auto
  have "mapE (getProductChange k J stod pid) (map (encode_change J num sho) ms) = Inr (map Some ms)"
  proof -
    have "getProductChange k J stod pid (encode_change J num sho pc) = Inr (Some pc)"
      if "pc \<in> set ms" for pc
    proof (rule ProductChangeResetOrderBook.IH [OF that])
      show "nesting pc < k"
        using le_foldr_max [of "nesting pc" "map nesting ms"] that k by auto
      show "all_of_product pid pc"
        using ProductChangeResetOrderBook.prems that by (auto simp: list_all_iff)
    qed
    then show ?thesis by (induction ms) auto
  qed
  moreover have "mapE (parse_order J stod) (map (encode_order J sho) xs) = Inr xs" for xs
    by (induction xs) (auto simp: parse_order_encode [OF J sho])
  moreover have "keep_some (map Some ms) = ms"
    using keep_some_map_Some [of "\<lambda>x. x" ms] by simp
  moreover have "js_elems J (js_array J vs) = vs" for vs
    using J by (simp add: json_build_def)
  ultimately show ?case
    by (simp add: n contains_object [OF J] at_object [OF J] ulong_at_object [OF J] num)
qed (auto simp: contains_object [OF J] str_at_object [OF J] ulong_at_object [OF J] num
    string_of_string [OF J] parse_defs stodE_def sho gr0_conv_Suc)

subsection \<open>What the handler stamps on a change\<close>

lemma parse_stamps:
  "parse_open J stod pid j = Inr pc \<Longrightarrow> getProductId pc = pid \<and>
     ulong_at J j ''sequence'' = Inr (getSequenceNumber pc) \<and> all_of_product pid pc"
  "parse_done J pid j = Inr pc \<Longrightarrow> getProductId pc = pid \<and>
     ulong_at J j ''sequence'' = Inr (getSequenceNumber pc) \<and> all_of_product pid pc"
  "parse_match J stod pid j = Inr pc \<Longrightarrow> getProductId pc = pid \<and>
     ulong_at J j ''sequence'' = Inr (getSequenceNumber pc) \<and> all_of_product pid pc"
  "parse_change J stod pid j = Inr pc \<Longrightarrow> getProductId pc = pid \<and>
     ulong_at J j ''sequence'' = Inr (getSequenceNumber pc) \<and> all_of_product pid pc"
  by (auto simp: parse_defs res_simps)

lemma getProductChange_plain:
  assumes "getProductChange (Suc n) J stod pid j = Inr (Some pc)"
    and F: "\<not> (js_contains J j ''bids'' \<and> js_contains J j ''asks'')"
  shows "parse_open J stod pid j = Inr pc \<or> parse_done J pid j = Inr pc \<or>
    parse_match J stod pid j = Inr pc \<or> parse_change J stod pid j = Inr pc"
  using assms(1) unfolding getProductChange.simps if_not_P [OF F]
  by (cases "str_at J j ''type''", simp_all split: if_splits, simp_all only: res_simps, auto)

lemma getProductChange_snapshot:
  assumes "getProductChange (Suc n) J stod pid j = Inr (Some pc)"
    and T: "js_contains J j ''bids'' \<and> js_contains J j ''asks''"
  shows "\<exists>bids asks ms sq. pc = ProductChangeResetOrderBook bids asks ms pid sq \<and>
    ulong_at J j ''sequence'' = Inr sq \<and>
    (ms = [] \<or> (\<exists>v pcs. mapE (getProductChange n J stod pid) (js_elems J v) = Inr pcs \<and>
      ms = keep_some pcs))"
  using assms(1) unfolding getProductChange.simps if_P [OF T] bindE_eq_Inr
  by (cases "js_contains J j ''to_merge''") (fastforce simp: bindE_eq_Inr)+

lemma getProductChange_stamp:
  "getProductChange n J stod pid j = Inr (Some pc) \<Longrightarrow> all_of_product pid pc \<and>
     ulong_at J j ''sequence'' = Inr (getSequenceNumber pc)"
proof (induction n arbitrary: j pc)
  case (Suc n)
  have merged: "list_all (all_of_product pid) (keep_some pcs)"
    if "mapE (getProductChange n J stod pid) js = Inr pcs" for js pcs
  proof -
    have "all_of_product pid c" if "Some c \<in> set pcs" for c
      using mapE_mem [OF \<open>mapE _ js = Inr pcs\<close> that] Suc.IH by blast
    then show ?thesis by (simp add: list_all_iff set_keep_some)
  qed
  show ?case
  proof (cases "js_contains J j ''bids'' \<and> js_contains J j ''asks''")
    case True
    from getProductChange_snapshot [OF Suc.prems True] obtain bids asks ms sq
      where pc: "pc = ProductChangeResetOrderBook bids asks ms pid sq"
        and sq: "ulong_at J j ''sequence'' = Inr sq"
        and ms: "ms = [] \<or> (\<exists>v pcs. mapE (getProductChange n J stod pid) (js_elems J v) = Inr pcs \<and>
          ms = keep_some pcs)"
      by blast
    from ms have "list_all (all_of_product pid) ms"
    proof (elim disjE exE conjE)
      fix v pcs
      assume "mapE (getProductChange n J stod pid) (js_elems J v) = Inr pcs" and "ms = keep_some pcs"
      then show ?thesis using merged [of "js_elems J v" pcs] by blast
    qed simp
    with pc sq show ?thesis by simp
  next
    case False
    from getProductChange_plain [OF Suc.prems this] show ?thesis
      by (elim disjE) (drule parse_stamps, simp)+
  qed
qed simp

lemma all_of_product_id: "all_of_product pid pc \<Longrightarrow> getProductId pc = pid"
  by (cases pc) auto

subsection \<open>Properties of the message handler\<close>

definition int_text :: "int \<Rightarrow> string" where
  "int_text i = (if i < 0 then CHR ''-'' # digits (nat (- i)) else digits (nat i))"

definition int_stod :: "string \<Rightarrow> stod_exn + int" where
  "int_stod s = (case s of [] \<Rightarrow> Inl Stod_Invalid
     | c # cs \<Rightarrow> Inr (if c = CHR ''-'' then - int (number_of cs) else int (number_of s)))"

lemma hd_digits: "digits n \<noteq> [] \<and> hd (digits n) \<noteq> CHR ''-''"
proof (induction n rule: digits.induct)
  case (1 n)
  have "digit d \<noteq> CHR ''-''" if "d < 10" for d
  proof
    assume "digit d = CHR ''-''"
    then have "(of_char (digit d) :: nat) = 45" by simp
    with that show False by (simp add: digit_def)
  qed
  with 1 show ?case by (cases "n < 10") (auto simp: digits.simps [of n])
qed

lemma int_stod_text: "int_stod (int_text i) = Inr i"
proof (cases "i < 0")
  case False
  obtain c cs where d: "digits (nat i) = c # cs" and c: "c \<noteq> CHR ''-''"
    using hd_digits [of "nat i"] by (cases "digits (nat i)") auto
  have "number_of (c # cs) = nat i"
    using number_of_digits [of "nat i"] d by simp
  with False d c show ?thesis by (simp add: int_text_def int_stod_def)
qed (simp add: int_stod_def int_text_def number_of_digits)

definition sample_snapshot :: "int product_change" where
  "sample_snapshot = ProductChangeResetOrderBook [sample_bid] [sample_ask]
     [ProductChangeOpen ''b2'' 9 4 Buy ''ETH-USD'' 8, ProductChangeMatch ''b1'' ''a1'' 10 2 Sell ''ETH-USD'' 9]
     ''ETH-USD'' 7"

definition sample_received :: jdoc where
  "sample_received = JObj [(''type'', JStr ''received''), (''product_id'', JStr ''BTC-USD''),
     (''sequence'', JNum 10), (''order_id'', JStr ''d50ec984''), (''size'', JStr ''134''),
     (''price'', JStr ''502''), (''side'', JStr ''buy''), (''order_type'', JStr ''limit'')]"

definition sample_match :: jdoc where
  "sample_match = JObj [(''type'', JStr ''match''), (''product_id'', JStr ''BTC-USD''),
     (''sequence'', JNum 50), (''maker_order_id'', JStr ''ac92''), (''taker_order_id'', JStr ''132f''),
     (''size'', JStr ''5''), (''price'', JStr ''400''), (''side'', JStr ''sell'')]"

lemma getTrade_received:
  assumes "getTrade J stod jmsg = Inr (Some t)" and "str_at J jmsg ''type'' = Inr ''received''"
  shows "\<exists>oid sz fo pr side ot pid. t = TradeReceive oid sz fo pr side ot pid \<and>
    (pr = None \<longleftrightarrow> \<not> js_contains J jmsg ''price'') \<and> (fo = None \<longleftrightarrow> \<not> js_contains J jmsg ''founds'')"
  using assms by (auto simp: getTrade_def bindE_eq_Inr parse_optional_def split: if_splits)

lemma getTrade_match:
  assumes "getTrade J stod jmsg = Inr (Some t)" and "str_at J jmsg ''type'' = Inr ''match''"
  shows "\<exists>tk sz s pid. t = TradeMatch tk s pid \<and> str_at J jmsg ''taker_order_id'' = Inr tk \<and>
    str_at J jmsg ''size'' = Inr sz \<and> stod sz = Inr s"
  using assms by (auto simp: getTrade_def bindE_eq_Inr stodE_def)

text \<open>
  C5: Round trip. Every change, snapshots with nested merged changes included, is recovered from
  the message written for it, given a depth above the nesting of the snapshots, a JSON library
  that builds what it is told to, and a \<open>stod\<close> that reads what \<open>sho\<close> prints.
\<close>

theorem getProductChange_roundtrip:
  fixes pc :: "'f product_change"
  assumes "json_build J" and "\<And>n. js_ulong J (num n) = Inr n" and "\<And>x. stod (sho x) = Inr x"
    and "nesting pc < n" and "all_of_product pid pc"
  shows "getProductChange n J stod pid (encode_change J num sho pc) = Inr (Some pc)"
  using assms by (rule getProductChange_encode)

theorem getProductChange_roundtrip_witness:
  "getProductChange 2 (ref_json Map.empty) int_stod ''ETH-USD''
     (encode_change (ref_json Map.empty) JNum int_text sample_snapshot) = Inr (Some sample_snapshot)"
  by (rule getProductChange_roundtrip)
    (simp_all add: ref_json_build int_stod_text sample_snapshot_def)

text \<open>
  C36: The recursion of the handler ends. On a library whose documents are finite trees, a depth
  bound above the depth of the message is never used up, and the result does not depend on which
  such bound is taken.
\<close>

theorem getProductChange_terminates:
  assumes "json_depth J d" and "d jmsg < n"
  shows "getProductChange n J stod pid jmsg \<noteq> Inl Stack_Exhausted \<and>
    getProductChange n J stod pid jmsg = getProductChange (Suc (d jmsg)) J stod pid jmsg"
  by (intro conjI getProductChange_deep [OF assms] getProductChange_stable [OF assms] lessI)

theorem getProductChange_terminates_witness:
  "getProductChange (Suc (size sample_match)) (ref_json Map.empty) int_stod ''BTC-USD'' sample_match
     \<noteq> Inl Stack_Exhausted"
  using getProductChange_terminates [OF ref_json_depth, of sample_match "Suc (size sample_match)"]
  by blast

text \<open>
  What a change carries. Whatever the message says its product is, the change and all the
  changes merged into it carry the product id of the handler, and the change carries the
  sequence number of the message.
\<close>

theorem getProductChange_stamps:
  assumes "getProductChange n J stod pid jmsg = Inr (Some pc)"
  shows "all_of_product pid pc \<and> getProductId pc = pid \<and>
    ulong_at J jmsg ''sequence'' = Inr (getSequenceNumber pc)"
  using getProductChange_stamp [OF assms] all_of_product_id by blast

theorem getProductChange_stamps_witness:
  "getProductId (ProductChangeMatch ''ac92'' ''132f'' (400::int) 5 Sell ''ETH-USD'' 50) = ''ETH-USD'' \<and>
   ulong_at (ref_json Map.empty) sample_match ''sequence'' = Inr 50"
proof -
  have "getProductChange 1 (ref_json Map.empty) int_stod ''ETH-USD'' sample_match =
      Inr (Some (ProductChangeMatch ''ac92'' ''132f'' 400 5 Sell ''ETH-USD'' 50))"
    by (simp add: sample_match_def str_at_def ulong_at_def at_def parse_match_def stodE_def
        int_stod_def number_of_def to_Side_def)
  from getProductChange_stamps [OF this] show ?thesis by simp
qed

text \<open>
  One match, two readers. A match message that yields both a product change and a trade
  yields a match with some maker and taker, and the trade is about that taker and that size.
\<close>

theorem match_change_and_trade:
  assumes "getProductChange n J stod pid jmsg = Inr (Some pc)" and "getTrade J stod jmsg = Inr (Some t)"
    and "str_at J jmsg ''type'' = Inr ''match''"
    and "\<not> (js_contains J jmsg ''bids'' \<and> js_contains J jmsg ''asks'')"
  shows "\<exists>mk tk p s side sq pid'.
    pc = ProductChangeMatch mk tk p s side pid sq \<and> t = TradeMatch tk s pid'"
proof -
  from assms(1) obtain k where "getProductChange (Suc k) J stod pid jmsg = Inr (Some pc)"
    by (cases n) auto
  then have "js_contains J jmsg ''type'' \<and> parse_match J stod pid jmsg = Inr pc"
    unfolding getProductChange.simps if_not_P [OF assms(4)]
    by (simp add: assms(3) bindE_eq_Inr split: if_splits)
  with getTrade_match [OF assms(2,3)] show ?thesis
    by (auto simp: parse_match_def bindE_eq_Inr stodE_def)
qed

theorem match_change_and_trade_witness:
  "\<exists>mk tk p s side sq pid'.
    ProductChangeMatch ''ac92'' ''132f'' (400::int) 5 Sell ''BTC-USD'' 50 =
      ProductChangeMatch mk tk p s side ''BTC-USD'' sq \<and>
    TradeMatch ''132f'' 5 ''BTC-USD'' = TradeMatch tk s pid'"
proof (rule match_change_and_trade [of 1 "ref_json Map.empty" int_stod _ sample_match])
  show "getProductChange 1 (ref_json Map.empty) int_stod ''BTC-USD'' sample_match =
      Inr (Some (ProductChangeMatch ''ac92'' ''132f'' 400 5 Sell ''BTC-USD'' 50))"
    by (simp add: sample_match_def str_at_def ulong_at_def at_def parse_match_def stodE_def
        int_stod_def number_of_def to_Side_def)
  show "getTrade (ref_json Map.empty) int_stod sample_match =
      Inr (Some (TradeMatch ''132f'' 5 ''BTC-USD''))"
    by (simp add: sample_match_def str_at_def ulong_at_def at_def getTrade_def stodE_def
        int_stod_def number_of_def)
qed (simp_all add: sample_match_def str_at_def at_def)

text \<open>
  C40: A received limit order has no wire message. A trade read from a \<open>received\<close> message runs
  into undefined behaviour when its message is generated exactly if the feed's message has a
  \<open>price\<close> and no \<open>founds\<close>, the form the header of \<open>TradeReceive\<close> gives as its example.
\<close>

theorem received_limit_order_undefined:
  assumes "getTrade J stod jmsg = Inr (Some t)" and "str_at J jmsg ''type'' = Inr ''received''"
  shows "generateMessage ser to_float t = Inl Undefined \<longleftrightarrow>
    js_contains J jmsg ''price'' \<and> \<not> js_contains J jmsg ''founds''"
  using getTrade_received [OF assms] by (auto simp: generateMessage_Receive)

theorem received_limit_order_undefined_witness:
  "\<exists>t. getTrade (ref_json Map.empty) int_stod sample_received = Inr (Some t) \<and>
    generateMessage (\<lambda>_. ''bytes'') (id :: int \<Rightarrow> int) t = Inl Undefined"
proof -
  let ?t = "TradeReceive ''d50ec984'' (Some 134) None (Some 502) Buy ''limit'' ''BTC-USD''"
  have t: "getTrade (ref_json Map.empty) int_stod sample_received = Inr (Some ?t)"
    by (simp add: sample_received_def str_at_def ulong_at_def at_def getTrade_def stodE_def
        int_stod_def number_of_def parse_optional_def to_Side_def)
  have "str_at (ref_json Map.empty) sample_received ''type'' = Inr ''received''"
    by (simp add: sample_received_def str_at_def at_def)
  from received_limit_order_undefined [OF t this, of "\<lambda>_. ''bytes''" "id :: int \<Rightarrow> int"] t
  show ?thesis by (intro exI [of _ ?t]) (simp add: sample_received_def)
qed

end
