(* ===== verification/Feed_Product.thy ===== *)
theory Feed_Product
  imports Message_Handler
begin

section \<open>One product of the feed: sequence numbers and resynchronisation\<close>

text \<open>
  \<open>CoinbaseFeedProduct.cpp\<close>. Three threads share a product: the feed thread
  (\<open>fp_onMessageReceived\<close>), the thread of a full order book request (\<open>requestFullOrderBookImpl\<close>)
  and the message loop. All three work on the state under \<open>m_messagesMutex\<close>, so each of their
  locked sections is one step here, and the relation \<open>fp_step\<close> interleaves them in any order.
  The request thread is \<open>Running\<close> from its start until its function returns; a response can only
  come from a running request. The text of the REST response is an argument (\<open>RestTransport\<close>
  returns whatever the server sent, or the empty string on an error). Sequence numbers are
  \<open>unsigned long\<close>, 64 bits wide, and wrap.
\<close>

datatype request_thread = Running | Ended

record 'j feed_product =
  fp_productId :: string
  m_messageQueue :: "'j list"
  m_lastSequenceNumber :: u64
  m_requestingOrderbook :: bool
  m_isRunning :: bool
  m_requestThread :: request_thread

text \<open>The constructor starts the first request.\<close>

definition new_CoinbaseFeedProduct :: "string \<Rightarrow> 'j feed_product" where
  "new_CoinbaseFeedProduct productId =
     \<lparr>fp_productId = productId, m_messageQueue = [], m_lastSequenceNumber = 0,
      m_requestingOrderbook = True, m_isRunning = True, m_requestThread = Running\<rparr>"

text \<open>
  \<open>requestFullOrderBook\<close> joins the last request thread before it starts a new one.
  \<open>reachable_joinable\<close> below shows that it has always ended when this is called.
\<close>

definition requestFullOrderBook :: "'j feed_product \<Rightarrow> 'j feed_product" where
  "requestFullOrderBook s = s\<lparr>m_requestingOrderbook := True, m_requestThread := Running\<rparr>"

definition fp_onMessageReceived ::
  "'j json_lib \<Rightarrow> 'j \<Rightarrow> 'j feed_product \<Rightarrow> 'j feed_product res" where
  "fp_onMessageReceived J message s =
     bindE (ulong_at J message ''sequence'') (\<lambda>sequence.
       Inr (if m_requestingOrderbook s then
              s\<lparr>m_messageQueue := m_messageQueue s @ [message]\<rparr>
            else if sequence > m_lastSequenceNumber s + 1 then
              requestFullOrderBook (s\<lparr>m_lastSequenceNumber := 0\<rparr>)
            else if sequence \<le> m_lastSequenceNumber s then s
            else s\<lparr>m_messageQueue := m_messageQueue s @ [message],
                   m_lastSequenceNumber := sequence\<rparr>))"

text \<open>
  The loop that empties the queue into the snapshot: it returns the snapshot with the merged
  messages and the new last sequence number.
\<close>

fun drain :: "'j json_lib \<Rightarrow> u64 \<Rightarrow> 'j list \<Rightarrow> 'j \<Rightarrow> u64 \<Rightarrow> ('j \<times> u64) res" where
  "drain J orderBookSequence [] orderBookMsg lastSeq = Inr (orderBookMsg, lastSeq)"
| "drain J orderBookSequence (message # queue) orderBookMsg lastSeq =
     (if js_contains J message ''sequence'' then
        bindE (ulong_ref J message ''sequence'') (\<lambda>sequence.
          if sequence > orderBookSequence then
            bindE (of_json (js_push J orderBookMsg ''to_merge'' message)) (\<lambda>orderBookMsg'.
              drain J orderBookSequence queue orderBookMsg' sequence)
          else drain J orderBookSequence queue orderBookMsg lastSeq)
      else drain J orderBookSequence queue orderBookMsg lastSeq)"

definition requestFullOrderBookImpl ::
  "'j json_lib \<Rightarrow> string \<Rightarrow> 'j feed_product \<Rightarrow> 'j feed_product res" where
  "requestFullOrderBookImpl J fullOrderbookMessage s =
     (if fullOrderbookMessage \<noteq> '''' then
        (case js_parse J fullOrderbookMessage of
           None \<Rightarrow> Inl Parse_Error
         | Some orderBookMsg \<Rightarrow>
             if \<not> js_contains J orderBookMsg ''sequence'' then Inr (s\<lparr>m_requestThread := Ended\<rparr>)
             else
               bindE (ulong_ref J orderBookMsg ''sequence'') (\<lambda>orderBookSequence.
                 if orderBookSequence = 0 then Inr (s\<lparr>m_requestThread := Ended\<rparr>)
                 else
                   bindE (drain J orderBookSequence (m_messageQueue s) orderBookMsg orderBookSequence)
                     (\<lambda>(orderBookMsg', lastSeq).
                       Inr (s\<lparr>m_lastSequenceNumber := lastSeq, m_messageQueue := [orderBookMsg'],
                              m_requestingOrderbook := False, m_requestThread := Ended\<rparr>))))
      else Inr (s\<lparr>m_requestThread := Ended\<rparr>))"

text \<open>One round of \<open>messageLoop\<close>: what it takes under the lock, and then the handler for each.\<close>

definition messageLoop_take :: "'j feed_product \<Rightarrow> 'j list \<times> 'j feed_product" where
  "messageLoop_take s =
     (if \<not> m_requestingOrderbook s then (m_messageQueue s, s\<lparr>m_messageQueue := []\<rparr>) else ([], s))"

definition messageLoop :: "nat \<Rightarrow> 'j json_lib \<Rightarrow> (string \<Rightarrow> stod_exn + 'f) \<Rightarrow>
    ('f product_change \<Rightarrow> 'l \<Rightarrow> 'l) \<Rightarrow> 'j feed_product \<Rightarrow> 'l \<Rightarrow> ('j feed_product \<times> 'l) res" where
  "messageLoop depth J stod listen s l =
     (let (messages, s') = messageLoop_take s
      in bindE (foldE (handler_onMessageReceived depth J stod listen (fp_productId s)) messages l)
           (\<lambda>l'. Inr (s', l')))"

subsection \<open>The interleaving of the three threads\<close>

datatype 'j fp_event = Feed 'j | Response string | Loop

inductive fp_step ::
  "'j json_lib \<Rightarrow> 'j feed_product \<Rightarrow> 'j fp_event \<Rightarrow> 'j list \<Rightarrow> 'j feed_product \<Rightarrow> bool" for J where
  feed: "fp_onMessageReceived J m s = Inr s' \<Longrightarrow> fp_step J s (Feed m) [] s'"
| response: "m_requestThread s = Running \<Longrightarrow> requestFullOrderBookImpl J r s = Inr s' \<Longrightarrow>
    fp_step J s (Response r) [] s'"
| loop: "messageLoop_take s = (ms, s') \<Longrightarrow> fp_step J s Loop ms s'"

inductive_cases fp_step_feedE: "fp_step J s (Feed m) out s'"
inductive_cases fp_step_responseE: "fp_step J s (Response r) out s'"
inductive_cases fp_step_loopE: "fp_step J s Loop out s'"

text \<open>A run, with the messages the loop took, in order.\<close>

inductive fp_run :: "'j json_lib \<Rightarrow> 'j feed_product \<Rightarrow> 'j fp_event list \<Rightarrow> 'j list \<Rightarrow>
    'j feed_product \<Rightarrow> bool" for J where
  nil: "fp_run J s [] [] s"
| snoc: "fp_run J s es out s' \<Longrightarrow> fp_step J s' e ms s'' \<Longrightarrow> fp_run J s (es @ [e]) (out @ ms) s''"

text \<open>The guarded functions are executable; \<open>fp_exec\<close> runs a list of events.\<close>

fun fp_exec :: "'j json_lib \<Rightarrow> 'j fp_event list \<Rightarrow> 'j list \<times> 'j feed_product \<Rightarrow>
    ('j list \<times> 'j feed_product) option" where
  "fp_exec J [] (out, s) = Some (out, s)"
| "fp_exec J (Feed m # es) (out, s) =
     (case fp_onMessageReceived J m s of Inl _ \<Rightarrow> None | Inr s' \<Rightarrow> fp_exec J es (out, s'))"
| "fp_exec J (Response r # es) (out, s) =
     (if m_requestThread s = Running then
        (case requestFullOrderBookImpl J r s of Inl _ \<Rightarrow> None | Inr s' \<Rightarrow> fp_exec J es (out, s'))
      else None)"
| "fp_exec J (Loop # es) (out, s) =
     (let (ms, s') = messageLoop_take s in fp_exec J es (out @ ms, s'))"

lemma fp_exec_run:
  "fp_exec J es (out, s) = Some (out', s') \<Longrightarrow> fp_run J s0 es0 out s \<Longrightarrow> fp_run J s0 (es0 @ es) out' s'"
proof (induction es arbitrary: es0 out s)
  case (Cons e es)
  have "\<exists>ms t. fp_step J s e ms t \<and> fp_exec J es (out @ ms, t) = Some (out', s')"
  proof (cases e)
    case (Feed m)
    with Cons.prems(1) show ?thesis
      by (auto split: sum.splits intro: fp_step.feed intro!: exI [of _ "[]"])
  next
    case (Response r)
    with Cons.prems(1) show ?thesis
      by (auto split: sum.splits if_splits intro: fp_step.response intro!: exI [of _ "[]"])
  next
    case Loop
    with Cons.prems(1) show ?thesis
      by (cases "messageLoop_take s") (auto intro: fp_step.loop)
  qed
  then obtain ms t where step: "fp_step J s e ms t"
    and rest: "fp_exec J es (out @ ms, t) = Some (out', s')" by blast
  from Cons.IH [OF rest fp_run.snoc [OF Cons.prems(2) step]] show ?case by simp
qed simp

lemma fp_exec_runI: "fp_exec J es ([], s) = Some (out, s') \<Longrightarrow> fp_run J s es out s'"
  using fp_exec_run [OF _ fp_run.nil] by fastforce

subsection \<open>Messages, snapshots and their sequence numbers\<close>

definition seq_of :: "'j json_lib \<Rightarrow> 'j \<Rightarrow> u64" where
  "seq_of J j = (case ulong_at J j ''sequence'' of Inl _ \<Rightarrow> 0 | Inr n \<Rightarrow> n)"

definition merged :: "'j json_lib \<Rightarrow> 'j \<Rightarrow> 'j list" where
  "merged J j = (if js_contains J j ''to_merge''
     then (case js_at J j ''to_merge'' of Inl _ \<Rightarrow> [] | Inr a \<Rightarrow> js_elems J a) else [])"

text \<open>The last sequence number a message brings the product to, merged messages included.\<close>

definition end_of :: "'j json_lib \<Rightarrow> 'j \<Rightarrow> u64" where
  "end_of J j = (if merged J j = [] then seq_of J j else seq_of J (last (merged J j)))"

definition is_snapshot :: "'j json_lib \<Rightarrow> 'j \<Rightarrow> bool" where
  "is_snapshot J j \<longleftrightarrow> js_contains J j ''bids'' \<and> js_contains J j ''asks''"

text \<open>
  A list of delivered messages is consecutive: it starts with a snapshot, and every later
  message is either a snapshot again or carries the number that follows what came before,
  without wrapping around.
\<close>

fun follows :: "'j json_lib \<Rightarrow> 'j option \<Rightarrow> 'j \<Rightarrow> bool" where
  "follows J None b = is_snapshot J b"
| "follows J (Some a) b =
     (is_snapshot J b \<or> (seq_of J b = end_of J a + 1 \<and> end_of J a < seq_of J b))"

fun consecutive :: "'j json_lib \<Rightarrow> 'j option \<Rightarrow> 'j list \<Rightarrow> bool" where
  "consecutive J a [] = True"
| "consecutive J a (b # bs) = (follows J a b \<and> consecutive J (Some b) bs)"

lemma consecutive_append: "consecutive J a (xs @ ys) \<longleftrightarrow>
    consecutive J a xs \<and> consecutive J (if xs = [] then a else Some (last xs)) ys"
  by (induction xs arbitrary: a) auto

lemma consecutive_snoc:
  assumes "consecutive J a xs" and "xs \<noteq> []" and "follows J (Some (last xs)) b"
  shows "consecutive J a (xs @ [b])"
  using assms by (simp add: consecutive_append)

lemma next_number:
  fixes n k :: u64
  assumes "\<not> n > k + 1" and "\<not> n \<le> k"
  shows "n = k + 1 \<and> k < n"
proof -
  from assms have "k < n" and "n \<le> k + 1" by auto
  then have "unat k < unat n" and "unat n \<le> unat (k + 1)"
    by (simp_all add: word_less_nat_alt word_le_nat_alt)
  moreover have "unat (k + 1) \<le> Suc (unat k)"
    by (simp add: unat_word_ariths)
  ultimately have "unat n = unat (k + 1)" by linarith
  then show ?thesis using \<open>k < n\<close> by (simp add: word_unat_eq_iff)
qed

lemma seq_of_ulong: "ulong_at J m ''sequence'' = Inr n \<Longrightarrow> seq_of J m = n"
  by (simp add: seq_of_def)

subsection \<open>Draining the queue\<close>

lemma push_merged:
  assumes "json_push J" and "js_push J b ''to_merge'' m = Inr b'"
  shows "merged J b' = merged J b @ [m]"
    and "k \<noteq> ''to_merge'' \<Longrightarrow> js_contains J b' k = js_contains J b k"
    and "k \<noteq> ''to_merge'' \<Longrightarrow> js_contains J b k \<Longrightarrow> js_at J b' k = js_at J b k"
  using assms unfolding json_push_def merged_def by fastforce+

definition newer :: "'j json_lib \<Rightarrow> u64 \<Rightarrow> 'j \<Rightarrow> bool" where
  "newer J n m \<longleftrightarrow> js_contains J m ''sequence'' \<and> seq_of J m > n"

lemma drain_spec:
  assumes "json_push J" and "json_lookup J"
  shows "drain J n q b lastSeq = Inr (b', lastSeq') \<Longrightarrow>
    merged J b' = merged J b @ filter (newer J n) q \<and>
    lastSeq' = (if filter (newer J n) q = [] then lastSeq else seq_of J (last (filter (newer J n) q))) \<and>
    (\<forall>k. k \<noteq> ''to_merge'' \<longrightarrow> js_contains J b' k = js_contains J b k) \<and>
    (\<forall>k. k \<noteq> ''to_merge'' \<longrightarrow> js_contains J b k \<longrightarrow> js_at J b' k = js_at J b k)"
proof (induction q arbitrary: b lastSeq)
  case (Cons m q)
  show ?case
  proof (cases "newer J n m")
    case False
    with Cons.prems have "drain J n q b lastSeq = Inr (b', lastSeq')"
      by (auto simp: newer_def bindE_eq_Inr seq_of_def ulong_ref_contains [OF assms(2)] split: if_splits)
    from Cons.IH [OF this] False show ?thesis by simp
  next
    case True
    then have c: "js_contains J m ''sequence''" and gt: "seq_of J m > n" by (auto simp: newer_def)
    from Cons.prems obtain b1 where push: "js_push J b ''to_merge'' m = Inr b1"
      and rest: "drain J n q b1 (seq_of J m) = Inr (b', lastSeq')"
      using c gt by (auto simp: bindE_eq_Inr ulong_ref_contains [OF assms(2)] seq_of_def split: if_splits)
    from Cons.IH [OF rest] push_merged [OF assms(1) push] True show ?thesis by auto
  qed
qed simp

lemma drain_total:
  assumes "json_push J" and "json_lookup J"
    and "\<forall>m \<in> set q. js_contains J m ''sequence'' \<longrightarrow> (\<exists>k. ulong_at J m ''sequence'' = Inr k)"
    and "\<forall>v. \<exists>b1. js_push J b ''to_merge'' v = Inr b1"
  shows "\<exists>r. drain J n q b lastSeq = Inr r"
  using assms(3,4)
proof (induction q arbitrary: b lastSeq)
  case (Cons m q)
  have again: "\<forall>w. \<exists>b2. js_push J b1 ''to_merge'' w = Inr b2"
    if "js_push J b ''to_merge'' v = Inr b1" for b1 v
    using that assms(1) unfolding json_push_def by blast
  have m: "js_contains J m ''sequence'' \<Longrightarrow> \<exists>k. ulong_ref J m ''sequence'' = Inr k"
    using Cons.prems(1) by (simp add: ulong_ref_contains [OF assms(2)])
  obtain b1 where b1: "js_push J b ''to_merge'' m = Inr b1" using Cons.prems(2) by blast
  have "\<exists>r. drain J n q b l = Inr r" "\<exists>r. drain J n q b1 l = Inr r" for l
    using Cons.IH [OF _ Cons.prems(2)] Cons.IH [OF _ again [OF b1]] Cons.prems(1) by auto
  with m b1 show ?case by (cases "js_contains J m ''sequence''") auto
qed simp

subsection \<open>Invariants of a product\<close>

text \<open>
  What the environment is assumed to send: feed messages have no \<open>to_merge\<close> field, and an order
  book from the REST interface has bids and asks and no \<open>to_merge\<close> field.
\<close>

fun event_ok :: "'j json_lib \<Rightarrow> 'j fp_event \<Rightarrow> bool" where
  "event_ok J (Feed m) = (\<not> js_contains J m ''to_merge'')"
| "event_ok J (Response r) =
     (case js_parse J r of None \<Rightarrow> True
      | Some b \<Rightarrow> is_snapshot J b \<and> \<not> js_contains J b ''to_merge'')"
| "event_ok J Loop = True"

definition fp_inv :: "'j json_lib \<Rightarrow> 'j list \<Rightarrow> 'j feed_product \<Rightarrow> bool" where
  "fp_inv J out s \<longleftrightarrow> consecutive J None out \<and>
     (\<not> m_requestingOrderbook s \<longrightarrow>
        m_requestThread s = Ended \<and> consecutive J None (out @ m_messageQueue s) \<and>
        out @ m_messageQueue s \<noteq> [] \<and>
        end_of J (last (out @ m_messageQueue s)) = m_lastSequenceNumber s)"

lemma feed_cases:
  assumes "fp_onMessageReceived J m s = Inr s'"
  obtains n where "ulong_at J m ''sequence'' = Inr n" and
    "m_requestingOrderbook s \<and> s' = s\<lparr>m_messageQueue := m_messageQueue s @ [m]\<rparr> \<or>
     \<not> m_requestingOrderbook s \<and> n > m_lastSequenceNumber s + 1 \<and>
       s' = s\<lparr>m_lastSequenceNumber := 0, m_requestingOrderbook := True, m_requestThread := Running\<rparr> \<or>
     \<not> m_requestingOrderbook s \<and> n \<le> m_lastSequenceNumber s \<and> s' = s \<or>
     \<not> m_requestingOrderbook s \<and> n = m_lastSequenceNumber s + 1 \<and> m_lastSequenceNumber s < n \<and>
       s' = s\<lparr>m_messageQueue := m_messageQueue s @ [m], m_lastSequenceNumber := n\<rparr>"
proof -
  from assms obtain n where n: "ulong_at J m ''sequence'' = Inr n"
    by (auto simp: fp_onMessageReceived_def bindE_eq_Inr)
  show ?thesis
    by (rule that [OF n], insert assms n next_number [of "m_lastSequenceNumber s" n])
      (auto simp: fp_onMessageReceived_def requestFullOrderBook_def split: if_splits)
qed

lemma response_cases:
  assumes "requestFullOrderBookImpl J r s = Inr s'" and "json_lookup J"
  obtains "s' = s\<lparr>m_requestThread := Ended\<rparr>"
  | b n b' l where "r \<noteq> []" and "js_parse J r = Some b" and "js_contains J b ''sequence''"
    and "ulong_at J b ''sequence'' = Inr n" and "n \<noteq> 0"
    and "drain J n (m_messageQueue s) b n = Inr (b', l)"
    and "s' = s\<lparr>m_lastSequenceNumber := l, m_messageQueue := [b'], m_requestingOrderbook := False,
           m_requestThread := Ended\<rparr>"
  using assms(1)
  by (auto simp: requestFullOrderBookImpl_def bindE_eq_Inr ulong_ref_contains [OF assms(2)]
      split: if_splits option.splits)

lemma fp_inv_new: "fp_inv J [] (new_CoinbaseFeedProduct pid)"
  by (simp add: fp_inv_def new_CoinbaseFeedProduct_def)

lemma drain_snapshot:
  assumes "json_push J" and "json_lookup J" and "drain J n q b n = Inr (b', l)"
    and "ulong_at J b ''sequence'' = Inr n" and "js_contains J b ''sequence''"
    and "\<not> js_contains J b ''to_merge''" and "is_snapshot J b"
  shows "is_snapshot J b' \<and> merged J b' = filter (newer J n) q \<and> end_of J b' = l"
proof -
  have "merged J b = []" using assms(6) by (simp add: merged_def)
  with drain_spec [OF assms(1-3)] have m: "merged J b' = filter (newer J n) q"
    and l: "l = (if filter (newer J n) q = [] then n else seq_of J (last (filter (newer J n) q)))"
    and c: "js_contains J b' ''bids'' = js_contains J b ''bids''"
      "js_contains J b' ''asks'' = js_contains J b ''asks''"
    and s: "js_at J b' ''sequence'' = js_at J b ''sequence''"
    using assms(5) by auto
  have "seq_of J b' = n" using s assms(4) by (simp add: seq_of_def ulong_at_def at_def)
  with m l c assms(7) show ?thesis by (simp add: end_of_def is_snapshot_def)
qed

lemma fp_inv_feed:
  assumes inv: "fp_inv J out s" and ok: "\<not> js_contains J m ''to_merge''"
    and f: "fp_onMessageReceived J m s = Inr s'"
  shows "fp_inv J out s'"
proof (rule feed_cases [OF f], elim disjE conjE)
  fix n
  assume n: "ulong_at J m ''sequence'' = Inr n" "\<not> m_requestingOrderbook s"
    "n = m_lastSequenceNumber s + 1" "m_lastSequenceNumber s < n"
    "s' = s\<lparr>m_messageQueue := m_messageQueue s @ [m], m_lastSequenceNumber := n\<rparr>"
  let ?q = "out @ m_messageQueue s"
  have e: "end_of J m = n" "seq_of J m = n"
    using ok n(1) by (simp_all add: end_of_def merged_def seq_of_def)
  have "consecutive J None ?q" "?q \<noteq> []" "end_of J (last ?q) = m_lastSequenceNumber s"
    using inv n(2) by (simp_all add: fp_inv_def)
  then have "consecutive J None (?q @ [m])"
    using n(3,4) e by (intro consecutive_snoc) simp_all
  with n inv e show "fp_inv J out s'" by (simp add: fp_inv_def)
qed (use inv in \<open>auto simp: fp_inv_def consecutive_append\<close>)

lemma fp_inv_response:
  assumes inv: "fp_inv J out s" and J: "json_push J" "json_lookup J"
    and ok: "event_ok J (Response r)" and r: "m_requestThread s = Running"
    and f: "requestFullOrderBookImpl J r s = Inr s'"
  shows "fp_inv J out s'"
proof (rule response_cases [OF f J(2)])
  assume "s' = s\<lparr>m_requestThread := Ended\<rparr>"
  with inv show ?thesis by (auto simp: fp_inv_def)
next
  fix b n b' l
  assume b: "js_parse J r = Some b" "js_contains J b ''sequence''" "ulong_at J b ''sequence'' = Inr n"
    "drain J n (m_messageQueue s) b n = Inr (b', l)"
    and s': "s' = s\<lparr>m_lastSequenceNumber := l, m_messageQueue := [b'], m_requestingOrderbook := False,
           m_requestThread := Ended\<rparr>"
  from ok b(1) have "\<not> js_contains J b ''to_merge''" "is_snapshot J b" by simp_all
  from drain_snapshot [OF J b(4,3,2) this] have "is_snapshot J b'" "end_of J b' = l" by simp_all
  moreover have "follows J a b'" if "is_snapshot J b'" for a
    using that by (cases a) simp_all
  ultimately show ?thesis
    using inv by (simp add: fp_inv_def s' consecutive_append)
qed

lemma fp_inv_step:
  assumes "fp_step J s e ms s'" and "fp_inv J out s" and "json_push J" "json_lookup J"
    and "event_ok J e"
  shows "fp_inv J (out @ ms) s'"
  using assms
proof (cases rule: fp_step.cases)
  case (loop)
  with assms(2) show ?thesis
    by (auto simp: messageLoop_take_def fp_inv_def split: if_splits)
qed (auto intro: fp_inv_feed fp_inv_response)

lemma fp_inv_run:
  assumes "fp_run J s es out s'" and "fp_inv J [] s" and "json_push J" "json_lookup J"
    and "\<forall>e \<in> set es. event_ok J e"
  shows "fp_inv J out s'"
  using assms
proof (induction rule: fp_run.induct)
  case (snoc s es out s' e ms s'')
  then show ?case by (auto intro: fp_inv_step)
qed simp

text \<open>
  When no order book is being requested the request thread has ended, so the join in
  \<open>requestFullOrderBook\<close>, which runs only then, does not wait.
\<close>

lemma reachable_joinable:
  assumes "fp_run J s es out s'" and "json_lookup J"
    and "\<not> m_requestingOrderbook s \<longrightarrow> m_requestThread s = Ended"
  shows "\<not> m_requestingOrderbook s' \<longrightarrow> m_requestThread s' = Ended"
  using assms
proof (induction rule: fp_run.induct)
  case (snoc s es out s' e ms s'')
  from snoc.IH [OF snoc.prems] have IH: "\<not> m_requestingOrderbook s' \<longrightarrow> m_requestThread s' = Ended" .
  from snoc.hyps(2) show ?case
  proof (cases rule: fp_step.cases)
    case (feed m)
    from feed(3) show ?thesis by (rule feed_cases) (use IH in auto)
  next
    case (response r)
    from response(4) snoc.prems(1) show ?thesis by (rule response_cases) auto
  next
    case loop
    with IH show ?thesis by (auto simp: messageLoop_take_def split: if_splits)
  qed
qed simp

subsection \<open>The abstract synchronisation machine\<close>

datatype sync = Syncing | Synced nat

definition sync_abs :: "'j feed_product \<Rightarrow> sync" where
  "sync_abs s =
     (if m_requestingOrderbook s then Syncing else Synced (unat (m_lastSequenceNumber s)))"

text \<open>
  A message with number \<open>n\<close>: the new state, and whether the message is kept. The numbers are
  natural numbers below \<open>2 ^ 64\<close>: after the largest one no message is accepted any more, and
  any number but 0 starts a new request.
\<close>

fun sync_feed :: "nat \<Rightarrow> sync \<Rightarrow> sync \<times> bool" where
  "sync_feed n Syncing = (Syncing, True)"
| "sync_feed n (Synced k) =
     (if n = Suc k then (Synced n, True)
      else if n \<le> k \<and> (Suc k < 2 ^ 64 \<or> n = 0) then (Synced k, False) else (Syncing, False))"

lemma word_gap:
  fixes n k :: u64
  shows "n > k + 1 \<longleftrightarrow> (if Suc (unat k) < 2 ^ 64 then unat n > Suc (unat k) else 0 < unat n)"
proof -
  have k: "unat k < 2 ^ 64" using unsigned_less [of k, where 'a = nat] by simp
  have "unat (k + 1) = (if Suc (unat k) < 2 ^ 64 then Suc (unat k) else 0)"
  proof (cases "Suc (unat k) < 2 ^ 64")
    case False
    with k have "Suc (unat k) = 2 ^ 64" by linarith
    then show ?thesis by (simp add: unat_word_ariths)
  qed (simp add: unat_word_ariths)
  then show ?thesis by (simp add: word_less_nat_alt)
qed

lemma feed_sync:
  assumes "ulong_at J m ''sequence'' = Inr n"
  shows "\<exists>s'. fp_onMessageReceived J m s = Inr s' \<and>
    sync_abs s' = fst (sync_feed (unat n) (sync_abs s)) \<and>
    m_messageQueue s' =
      m_messageQueue s @ (if snd (sync_feed (unat n) (sync_abs s)) then [m] else [])"
proof -
  have "unat n < 2 ^ 64" using unsigned_less [of n, where 'a = nat] by simp
  then show ?thesis
    using assms by (auto simp: fp_onMessageReceived_def requestFullOrderBook_def sync_abs_def word_gap
        word_le_nat_alt split: if_splits)
qed

text \<open>A product whose request failed.\<close>

definition dead :: "'j feed_product \<Rightarrow> bool" where
  "dead s \<longleftrightarrow> m_requestingOrderbook s \<and> m_requestThread s = Ended"

lemma dead_step: "fp_step J s e ms s' \<Longrightarrow> dead s \<Longrightarrow> dead s' \<and> ms = []"
  by (erule fp_step.cases)
    (auto simp: dead_def fp_onMessageReceived_def bindE_eq_Inr messageLoop_take_def)

lemma dead_run: "fp_run J s es out s' \<Longrightarrow> dead s \<Longrightarrow> dead s' \<and> out = []"
  by (induction rule: fp_run.induct) (auto dest: dead_step)

subsection \<open>Properties of a product of the feed\<close>

definition sample_rest_book :: "u64 \<Rightarrow> jdoc" where
  "sample_rest_book n = JObj [(''bids'', JArr []), (''asks'', JArr []), (''sequence'', JNum n)]"

definition sample_update :: "u64 \<Rightarrow> jdoc" where
  "sample_update n = JObj [(''type'', JStr ''done''), (''product_id'', JStr ''ETH-USD''),
     (''sequence'', JNum n), (''order_id'', JStr ''b1''), (''side'', JStr ''sell'')]"

definition sample_feed_lib :: "jdoc json_lib" where
  "sample_feed_lib =
     ref_json [''book7'' \<mapsto> sample_rest_book 7, ''book9'' \<mapsto> sample_rest_book 9]"

lemma sample_feed_lib_documented:
  "json_push sample_feed_lib" "json_lookup sample_feed_lib"
  by (simp_all add: sample_feed_lib_def ref_json_push ref_json_lookup)

lemmas sample_eval = sample_feed_lib_def sample_rest_book_def sample_update_def
  new_CoinbaseFeedProduct_def fp_onMessageReceived_def requestFullOrderBookImpl_def
  requestFullOrderBook_def messageLoop_take_def ulong_at_def ulong_ref_def str_at_def at_def

lemma sample_run:
  "fp_run sample_feed_lib (new_CoinbaseFeedProduct ''ETH-USD'')
     [Feed (sample_update 6), Feed (sample_update 8), Response ''book7'', Loop, Feed (sample_update 9), Loop]
     [JObj [(''bids'', JArr []), (''asks'', JArr []), (''sequence'', JNum 7),
        (''to_merge'', JArr [sample_update 8])], sample_update 9]
     \<lparr>fp_productId = ''ETH-USD'', m_messageQueue = [], m_lastSequenceNumber = 9,
      m_requestingOrderbook = False, m_isRunning = True, m_requestThread = Ended\<rparr>"
  by (rule fp_exec_runI) (simp add: sample_eval)

lemma sample_failed_run:
  "fp_run sample_feed_lib
     (new_CoinbaseFeedProduct ''ETH-USD''\<lparr>m_requestThread := Ended\<rparr>) [Feed (sample_update 6), Loop] []
     (new_CoinbaseFeedProduct ''ETH-USD''\<lparr>m_requestThread := Ended, m_messageQueue := [sample_update 6]\<rparr>)"
  by (rule fp_exec_runI) (simp add: sample_eval)

text \<open>
  C2: Consecutive delivery. In every interleaving of feed messages, order book responses and
  rounds of the message loop, what the loop hands to the message handler starts with a snapshot,
  and every later message is either a snapshot or carries exactly the sequence number after the
  last one, where a snapshot counts up to the last message merged into it. Numbers do not wrap.
\<close>

theorem delivered_consecutive:
  assumes "fp_run J (new_CoinbaseFeedProduct pid) es out s"
    and "json_push J" and "json_lookup J" and "\<forall>e \<in> set es. event_ok J e"
  shows "consecutive J None out"
  using fp_inv_run [OF assms(1) fp_inv_new assms(2-4)] by (simp add: fp_inv_def)

theorem delivered_consecutive_witness:
  "consecutive sample_feed_lib None
     [JObj [(''bids'', JArr []), (''asks'', JArr []), (''sequence'', JNum 7),
        (''to_merge'', JArr [sample_update 8])], sample_update 9]"
  by (rule delivered_consecutive [OF sample_run sample_feed_lib_documented])
    (simp add: sample_feed_lib_def sample_rest_book_def sample_update_def is_snapshot_def)



text \<open>
  C32: What a snapshot merges. A usable response to the order book request is queued alone, with the
  queued messages that are newer than it merged in their order, all other fields unchanged, and
  leaves the product synchronised with the last merged message.
\<close>

theorem snapshot_merges_newer:
  assumes "json_push J" and "json_lookup J" and "r \<noteq> []" and "js_parse J r = Some b"
    and "js_contains J b ''sequence''" and "ulong_at J b ''sequence'' = Inr n" and "n \<noteq> 0"
    and "\<not> js_contains J b ''to_merge''"
    and "\<forall>m \<in> set (m_messageQueue s). \<exists>k. ulong_at J m ''sequence'' = Inr k"
  shows "\<exists>s' b'. requestFullOrderBookImpl J r s = Inr s' \<and> m_messageQueue s' = [b'] \<and>
    merged J b' = filter (newer J n) (m_messageQueue s) \<and>
    (\<forall>k. k \<noteq> ''to_merge'' \<longrightarrow> js_contains J b k \<longrightarrow> js_at J b' k = js_at J b k) \<and>
    sync_abs s' = Synced (unat (if filter (newer J n) (m_messageQueue s) = [] then n
      else seq_of J (last (filter (newer J n) (m_messageQueue s)))))"
proof -
  have "\<forall>v. \<exists>b1. js_push J b ''to_merge'' v = Inr b1"
    using assms(1,5,8) unfolding json_push_def by blast
  then obtain b' l where d: "drain J n (m_messageQueue s) b n = Inr (b', l)"
    using drain_total [OF assms(1,2), of "m_messageQueue s" b n n] assms(9) by auto
  have "merged J b = []" using assms(8) by (simp add: merged_def)
  with drain_spec [OF assms(1,2) d] d assms show ?thesis
    by (simp add: requestFullOrderBookImpl_def ulong_ref_contains sync_abs_def)
qed

theorem snapshot_merges_newer_witness:
  "\<exists>s' b'. requestFullOrderBookImpl sample_feed_lib ''book7''
      (new_CoinbaseFeedProduct ''ETH-USD''\<lparr>m_messageQueue := [sample_update 6, sample_update 8]\<rparr>) = Inr s' \<and>
    m_messageQueue s' = [b'] \<and> merged sample_feed_lib b' = [sample_update 8] \<and> sync_abs s' = Synced 8"
proof -
  let ?s = "new_CoinbaseFeedProduct ''ETH-USD''\<lparr>m_messageQueue := [sample_update 6, sample_update 8]\<rparr>"
  have "filter (newer sample_feed_lib 7) (m_messageQueue ?s) = [sample_update 8]"
    by (simp add: newer_def seq_of_def sample_eval)
  moreover have "seq_of sample_feed_lib (sample_update 8) = 8"
    by (simp add: seq_of_def sample_eval)
  ultimately show ?thesis
    using snapshot_merges_newer [OF sample_feed_lib_documented, of "''book7''" "sample_rest_book 7" 7 ?s]
    by (simp add: sample_eval)
qed

text \<open>
  C38: A failed request is never repeated. When the order book request returns without a book (an
  empty response, or one without a usable sequence number), no event whatsoever makes the product
  deliver anything again: it stays in the requesting state and only queues.
\<close>

theorem failed_request_is_final:
  assumes "sync_abs s = Syncing" and "requestFullOrderBookImpl J r s = Inr s1"
    and "r = [] \<or> (\<exists>b. js_parse J r = Some b \<and>
      (\<not> js_contains J b ''sequence'' \<or> ulong_ref J b ''sequence'' = Inr 0))"
    and "fp_run J s1 es out s2"
  shows "out = [] \<and> sync_abs s2 = Syncing"
proof -
  have "dead s1"
    using assms(1-3) by (auto simp: requestFullOrderBookImpl_def dead_def sync_abs_def split: if_splits)
  from dead_run [OF assms(4) this] show ?thesis by (simp add: dead_def sync_abs_def)
qed

theorem failed_request_is_final_witness:
  "sync_abs (new_CoinbaseFeedProduct ''ETH-USD''\<lparr>m_requestThread := Ended,
     m_messageQueue := [sample_update 6]\<rparr>) = Syncing"
proof -
  have "sync_abs (new_CoinbaseFeedProduct ''ETH-USD'' :: jdoc feed_product) = Syncing"
    by (simp add: sync_abs_def new_CoinbaseFeedProduct_def)
  moreover have "requestFullOrderBookImpl sample_feed_lib [] (new_CoinbaseFeedProduct ''ETH-USD'') =
      Inr (new_CoinbaseFeedProduct ''ETH-USD''\<lparr>m_requestThread := Ended\<rparr>)"
    by (simp add: requestFullOrderBookImpl_def)
  ultimately show ?thesis
    using failed_request_is_final [OF _ _ _ sample_failed_run] by blast
qed


text \<open>
  The join of the last request never waits. Whenever a feed message makes the product request a
  new order book, which happens with the message mutex held, the previous request thread has
  already left its function.
\<close>

theorem resync_join_ready:
  assumes "fp_run J (new_CoinbaseFeedProduct pid) es out s" and "json_lookup J"
    and "fp_onMessageReceived J m s = Inr s'"
    and "\<not> m_requestingOrderbook s" and "m_requestingOrderbook s'"
  shows "m_requestThread s = Ended"
  using reachable_joinable [OF assms(1,2)] assms(4) by (simp add: new_CoinbaseFeedProduct_def)

theorem resync_join_ready_witness:
  "m_requestThread \<lparr>fp_productId = ''ETH-USD'', m_messageQueue = [] :: jdoc list, m_lastSequenceNumber = 9,
      m_requestingOrderbook = False, m_isRunning = True, m_requestThread = Ended\<rparr> = Ended"
  by (rule resync_join_ready [OF sample_run sample_feed_lib_documented(2), of "sample_update 20"
        "\<lparr>fp_productId = ''ETH-USD'', m_messageQueue = [], m_lastSequenceNumber = 0,
      m_requestingOrderbook = True, m_isRunning = True, m_requestThread = Running\<rparr>"])
    (simp_all add: sample_eval)

end
