(* ===== verification/Feed_Client.thy ===== *)
theory Feed_Client
  imports Feed_Product
begin

section \<open>The feed client and its transport\<close>

text \<open>
  \<open>CoinbaseFeedClient.cpp\<close> and \<open>WebsocketTransport.cpp\<close>. The client dispatches the messages of
  one web socket to the products it has a listener for, and to the trade listener. It works under
  one mutex (\<open>m_mutexFeedData\<close>), so each of its operations is one function here. Whether a
  connection can be created is decided by the web socket library: a parameter \<open>conn_ok\<close>. The ring
  buffer of time stamps is left out, it is only measured.
\<close>

subsection \<open>\<open>WebsocketTransport\<close>\<close>

record 'r WebsocketTransport =
  subscribers :: "(string \<times> 'r) list"
  ws_handle :: "string option"  \<comment> \<open>the connection \<open>m_hdl\<close> stands for\<close>
  ws_sent :: "string list"

definition new_WebsocketTransport :: "'r WebsocketTransport" where
  "new_WebsocketTransport = \<lparr>subscribers = [], ws_handle = None, ws_sent = []\<rparr>"

definition ws_connect ::
  "(string \<Rightarrow> bool) \<Rightarrow> string \<Rightarrow> 'r WebsocketTransport \<Rightarrow> 'r WebsocketTransport" where
  "ws_connect conn_ok uri t = (if \<not> conn_ok uri then t else t\<lparr>ws_handle := Some uri\<rparr>)"

definition ws_send :: "string \<Rightarrow> 'r WebsocketTransport \<Rightarrow> 'r WebsocketTransport" where
  "ws_send m t = t\<lparr>ws_sent := ws_sent t @ [m]\<rparr>"

definition ws_subscribe :: "string \<Rightarrow> 'r \<Rightarrow> 'r WebsocketTransport \<Rightarrow> 'r WebsocketTransport" where
  "ws_subscribe i receiver t = t\<lparr>subscribers := AList.update i receiver (subscribers t)\<rparr>"

definition ws_unsubscribe :: "string \<Rightarrow> 'r WebsocketTransport \<Rightarrow> 'r WebsocketTransport" where
  "ws_unsubscribe i t = t\<lparr>subscribers := AList.delete i (subscribers t)\<rparr>"

text \<open>\<open>on_message\<close> calls every subscriber; \<open>receive\<close> is the interface \<open>MessageReceiver\<close>.\<close>

definition ws_on_message ::
  "('r \<Rightarrow> string \<Rightarrow> 's \<Rightarrow> 's res) \<Rightarrow> string \<Rightarrow> 'r WebsocketTransport \<Rightarrow> 's \<Rightarrow> 's res" where
  "ws_on_message receive payload t s =
     foldE (\<lambda>(i, r) s. receive r payload s) (subscribers t) s"

subsection \<open>\<open>CoinbaseFeedClient\<close>\<close>

text \<open>The only receiver is the client itself, registered as \<open>()\<close>.\<close>

record 'j CoinbaseFeedClient =
  m_prodIdToListener :: "string \<rightharpoonup> 'j feed_product"
  m_tradeListener :: bool  \<comment> \<open>whether the pointer has been set\<close>
  m_feedTransport :: "unit WebsocketTransport"
  m_connected :: bool

definition new_CoinbaseFeedClient :: "'j CoinbaseFeedClient" where
  "new_CoinbaseFeedClient = \<lparr>m_prodIdToListener = Map.empty, m_tradeListener = False,
     m_feedTransport = new_WebsocketTransport, m_connected = False\<rparr>"

definition setTradeListener :: "'j CoinbaseFeedClient \<Rightarrow> 'j CoinbaseFeedClient" where
  "setTradeListener c = c\<lparr>m_tradeListener := True\<rparr>"

definition isTradeMsg :: "'j json_lib \<Rightarrow> 'j \<Rightarrow> bool res" where
  "isTradeMsg J m =
     (if \<not> js_contains J m ''type'' then Inr False
      else bindE (at J m ''type'') (\<lambda>t.
        Inr (js_eq J t ''activate'' \<or> js_eq J t ''received'' \<or> js_eq J t ''match'')))"

definition isProductChangeMsg :: "'j json_lib \<Rightarrow> 'j \<Rightarrow> bool res" where
  "isProductChangeMsg J m =
     (if \<not> js_contains J m ''type'' then Inr False
      else bindE (at J m ''type'') (\<lambda>t.
        Inr (js_eq J t ''change'' \<or> js_eq J t ''done'' \<or> js_eq J t ''open'' \<or> js_eq J t ''match'')))"

text \<open>
  \<open>onMessageReceived\<close>: a parse error is caught and ends the call, any other exception leaves it.
  The trade listener is the interface \<open>TradeListener\<close>, with state \<open>'l\<close> and operation \<open>onTrade\<close>;
  it is handed the pointer \<open>getTrade\<close> returned, which is \<open>None\<close> when null.
\<close>

definition route_message ::
  "'j json_lib \<Rightarrow> 'j \<Rightarrow> 'j CoinbaseFeedClient \<Rightarrow> 'j CoinbaseFeedClient res" where
  "route_message J jmsg c =
     (if js_contains J jmsg ''sequence'' then
        bindE (str_ref J jmsg ''product_id'') (\<lambda>prodId.
          case m_prodIdToListener c prodId of
            None \<Rightarrow> Inr c
          | Some p \<Rightarrow>
              bindE (fp_onMessageReceived J jmsg p) (\<lambda>p'.
                Inr (c\<lparr>m_prodIdToListener := (m_prodIdToListener c)(prodId \<mapsto> p')\<rparr>)))
      else Inr c)"

definition feed_onMessageReceived :: "'j json_lib \<Rightarrow> (string \<Rightarrow> stod_exn + 'f) \<Rightarrow>
    ('f trade option \<Rightarrow> 'l \<Rightarrow> 'l res) \<Rightarrow> string \<Rightarrow> 'j CoinbaseFeedClient \<times> 'l \<Rightarrow>
    ('j CoinbaseFeedClient \<times> 'l) res" where
  "feed_onMessageReceived J stod onTrade message cl =
     (case cl of (c, l) \<Rightarrow>
        (case js_parse J message of
           None \<Rightarrow> Inr (c, l)
         | Some jmsg \<Rightarrow>
             if \<not> js_contains J jmsg ''type'' then Inr (c, l)
             else
               bindE (route_message J jmsg c) (\<lambda>c1.
               bindE (isTradeMsg J jmsg) (\<lambda>is_trade.
               bindE
                 (if is_trade \<and> m_tradeListener c1
                  then bindE (getTrade J stod jmsg) (\<lambda>trade. onTrade trade l)
                  else Inr l)
                 (\<lambda>l'. Inr (c1, l'))))))"

text \<open>The two templates, and the messages made from them.\<close>

definition subscribe_template :: "'j json_lib \<Rightarrow> 'j" where
  "subscribe_template J = js_object J
     [(''type'', js_of_string J ''subscribe''), (''product_ids'', js_array J []),
      (''channels'', js_array J (map (js_of_string J) [''full'', ''heartbeat'', ''ticker'']))]"

definition unsibscribe_template :: "'j json_lib \<Rightarrow> 'j" where
  "unsibscribe_template J = js_object J
     [(''type'', js_of_string J ''unsubscribe''), (''product_ids'', js_array J []),
      (''channels'', js_array J (map (js_of_string J) [''ticker'', ''full'', ''heartbeat'']))]"

definition generateSubscribeMessage :: "'j json_lib \<Rightarrow> string \<Rightarrow> string res" where
  "generateSubscribeMessage J productId =
     bindE (of_json (js_set J (subscribe_template J) ''product_ids''
              (js_array J [js_of_string J productId])))
       (\<lambda>message. Inr (js_dump J message))"

definition generateUnsubscribeMessage :: "'j json_lib \<Rightarrow> string \<Rightarrow> string res" where
  "generateUnsubscribeMessage J productId =
     bindE (of_json (js_set J (unsibscribe_template J) ''product_ids''
              (js_array J [js_of_string J productId])))
       (\<lambda>message. Inr (js_dump J message))"

definition feed_send :: "string \<Rightarrow> 'j CoinbaseFeedClient \<Rightarrow> 'j CoinbaseFeedClient" where
  "feed_send m c = c\<lparr>m_feedTransport := ws_send m (m_feedTransport c)\<rparr>"

definition feed_subscribe :: "'j json_lib \<Rightarrow> (string \<Rightarrow> bool) \<Rightarrow> string \<Rightarrow> 'j CoinbaseFeedClient \<Rightarrow>
    'j CoinbaseFeedClient res" where
  "feed_subscribe J conn_ok productId c =
     (let c1 =
            (if \<not> m_connected c then
               c\<lparr>m_feedTransport := ws_connect conn_ok ''wss://ws-feed.pro.coinbase.com''
                    (ws_subscribe ''coinbaseFeed'' () (m_feedTransport c)),
                 m_connected := True\<rparr>
             else c);
          c2 =
            (if m_prodIdToListener c1 productId = None then
               c1\<lparr>m_prodIdToListener :=
                    (m_prodIdToListener c1)(productId \<mapsto> new_CoinbaseFeedProduct productId)\<rparr>
             else c1)
      in bindE (generateSubscribeMessage J productId) (\<lambda>m. Inr (feed_send m c2)))"

definition feed_unsubscribe ::
  "'j json_lib \<Rightarrow> string \<Rightarrow> 'j CoinbaseFeedClient \<Rightarrow> 'j CoinbaseFeedClient res" where
  "feed_unsubscribe J productId c =
     bindE (generateUnsubscribeMessage J productId) (\<lambda>m.
       let c1 = feed_send m c
       in Inr (c1\<lparr>m_prodIdToListener := (m_prodIdToListener c1)(productId := None)\<rparr>))"

definition feed_destroy :: "'j CoinbaseFeedClient \<Rightarrow> 'j CoinbaseFeedClient" where
  "feed_destroy c = c\<lparr>m_feedTransport := ws_unsubscribe ''coinbaseFeed'' (m_feedTransport c)\<rparr>"

subsection \<open>The interface \<open>FeedClient\<close>\<close>

text \<open>
  What the market relies on: after \<open>subscribe\<close> the feed client listens for the product, after
  \<open>unsubscribe\<close> it does not, and neither touches the other products.
\<close>

locale feed_client =
  fixes subscribe :: "string \<Rightarrow> 'c \<Rightarrow> 'c res"
    and unsubscribe :: "string \<Rightarrow> 'c \<Rightarrow> 'c res"
    and listening :: "'c \<Rightarrow> string set"
  assumes listening_subscribe: "subscribe p c = Inr c' \<Longrightarrow> listening c' = insert p (listening c)"
    and listening_unsubscribe: "unsubscribe p c = Inr c' \<Longrightarrow> listening c' = listening c - {p}"

definition listening_ids :: "'j CoinbaseFeedClient \<Rightarrow> string set" where
  "listening_ids c = dom (m_prodIdToListener c)"

lemma listening_ids_subscribe:
  "feed_subscribe J conn_ok p c = Inr c' \<Longrightarrow> listening_ids c' = insert p (listening_ids c)"
  by (auto simp: feed_subscribe_def listening_ids_def feed_send_def bindE_eq_Inr Let_def
      split: if_splits)

lemma listening_ids_unsubscribe:
  "feed_unsubscribe J p c = Inr c' \<Longrightarrow> listening_ids c' = listening_ids c - {p}"
  by (auto simp: feed_unsubscribe_def listening_ids_def feed_send_def bindE_eq_Inr Let_def
      split: if_splits)

interpretation coinbase: feed_client "feed_subscribe J conn_ok" "feed_unsubscribe J" listening_ids
  for J conn_ok
  by unfold_locales (rule listening_ids_subscribe listening_ids_unsubscribe; assumption)+

subsection \<open>Dispatching\<close>

lemma isTradeMsg_type:
  assumes "json_lookup J" and "isTradeMsg J m = Inr True"
  shows "str_at J m ''type'' \<in> {Inr ''activate'', Inr ''received'', Inr ''match''}"
  using assms(2) json_lookup_eq [OF assms(1)]
  by (auto simp: isTradeMsg_def bindE_eq_Inr str_at_def split: if_splits)

lemma getTrade_not_null:
  assumes "json_lookup J" and "isTradeMsg J m = Inr True" and "getTrade J stod m = Inr t"
  shows "t \<noteq> None"
  using isTradeMsg_type [OF assms(1,2)] assms(3) by (auto simp: getTrade_def bindE_eq_Inr)

lemma route_other:
  assumes "route_message J jmsg c = Inr c'" and "str_ref J jmsg ''product_id'' \<noteq> Inr q"
  shows "m_prodIdToListener c' q = m_prodIdToListener c q"
  using assms by (auto simp: route_message_def bindE_eq_Inr split: if_splits option.splits)

lemma route_frame:
  assumes "route_message J jmsg c = Inr c'"
  shows "m_tradeListener c' = m_tradeListener c \<and> m_feedTransport c' = m_feedTransport c \<and>
    m_connected c' = m_connected c \<and> listening_ids c' = listening_ids c"
  using assms by (auto simp: route_message_def bindE_eq_Inr listening_ids_def
      split: if_splits option.splits)

subsection \<open>Properties of the feed client\<close>

definition sample_client_lib :: "jdoc json_lib" where
  "sample_client_lib = ref_json
     [''update 8'' \<mapsto> sample_update 8, ''match 50'' \<mapsto> sample_match, ''{'' \<mapsto> JNull]"

definition sample_client :: "jdoc CoinbaseFeedClient" where
  "sample_client = \<lparr>m_prodIdToListener =
       [''ETH-USD'' \<mapsto> new_CoinbaseFeedProduct ''ETH-USD'', ''BTC-USD'' \<mapsto> new_CoinbaseFeedProduct ''BTC-USD''],
     m_tradeListener = True, m_feedTransport = new_WebsocketTransport, m_connected = True\<rparr>"

text \<open>
  Routing. A message with a sequence number reaches exactly the product it names, which handles
  it as \<open>CoinbaseFeedProduct\<close> does, and no other product; if nobody subscribed to the named product
  the feed client is left as it was.
\<close>

theorem feed_message_routed:
  assumes "feed_onMessageReceived J stod onTrade message (c, l) = Inr (c', l')"
    and "js_parse J message = Some jmsg" and "js_contains J jmsg ''type''"
    and "js_contains J jmsg ''sequence''" and "str_ref J jmsg ''product_id'' = Inr p"
  shows "(\<forall>q. q \<noteq> p \<longrightarrow> m_prodIdToListener c' q = m_prodIdToListener c q) \<and>
    (case m_prodIdToListener c p of None \<Rightarrow> c' = c
     | Some s \<Rightarrow> \<exists>s'. fp_onMessageReceived J jmsg s = Inr s' \<and> m_prodIdToListener c' p = Some s')"
proof -
  from assms have "route_message J jmsg c = Inr c'"
    by (auto simp: feed_onMessageReceived_def bindE_eq_Inr)
  with assms(4,5) show ?thesis
    by (auto simp: route_message_def bindE_eq_Inr split: option.splits)
qed

theorem feed_message_routed_witness:
  "\<exists>c' s'. feed_onMessageReceived sample_client_lib int_stod (\<lambda>t l. Inr (t # l)) ''update 8'' (sample_client, []) =
      Inr (c', []) \<and> m_prodIdToListener c' ''BTC-USD'' = m_prodIdToListener sample_client ''BTC-USD'' \<and>
    fp_onMessageReceived sample_client_lib (sample_update 8) (new_CoinbaseFeedProduct ''ETH-USD'') = Inr s' \<and>
    m_prodIdToListener c' ''ETH-USD'' = Some s'"
proof -
  have eval: "\<exists>c'. feed_onMessageReceived sample_client_lib int_stod (\<lambda>t l. Inr (t # l)) ''update 8''
      (sample_client, []) = Inr (c', [])"
    by (simp add: feed_onMessageReceived_def route_message_def isTradeMsg_def sample_client_lib_def
        sample_client_def sample_update_def str_ref_def at_def fp_onMessageReceived_def ulong_at_def
        new_CoinbaseFeedProduct_def)
  then obtain c' where c': "feed_onMessageReceived sample_client_lib int_stod (\<lambda>t l. Inr (t # l)) ''update 8''
      (sample_client, []) = Inr (c', [])" by blast
  have lib: "js_parse sample_client_lib ''update 8'' = Some (sample_update 8)"
    "js_contains sample_client_lib (sample_update 8) ''type''"
    "js_contains sample_client_lib (sample_update 8) ''sequence''"
    "str_ref sample_client_lib (sample_update 8) ''product_id'' = Inr ''ETH-USD''"
    by (simp_all add: sample_client_lib_def sample_update_def str_ref_def)
  from feed_message_routed [OF c' lib] c' show ?thesis
    by (auto simp: sample_client_def)
qed

text \<open>
  The trade listener never sees a null pointer. For every message, calling the trade listener is
  the same as calling it with a guard against null: \<open>isTradeMsg\<close> admits only the types for which
  \<open>getTrade\<close> makes a trade.
\<close>

theorem trade_never_null:
  assumes "json_lookup J"
  shows "feed_onMessageReceived J stod onTrade message cl =
    feed_onMessageReceived J stod (\<lambda>t l. if t = None then Inl Undefined else onTrade t l) message cl"
proof -
  have "bindE (getTrade J stod jmsg) (\<lambda>t. onTrade t l) =
      bindE (getTrade J stod jmsg) (\<lambda>t. if t = None then Inl Undefined else onTrade t l)"
    if "isTradeMsg J jmsg = Inr True" for jmsg l
    using getTrade_not_null [OF assms that, of stod] by (intro bindE_cong) auto
  then show ?thesis
    unfolding feed_onMessageReceived_def
    by (auto intro!: bindE_cong split: prod.split option.split)
qed

theorem trade_never_null_witness:
  "\<exists>c'. feed_onMessageReceived sample_client_lib int_stod
      (\<lambda>t l. if t = None then Inl Undefined else Inr (t # l)) ''match 50'' (sample_client, []) =
    Inr (c', [Some (TradeMatch ''132f'' 5 ''BTC-USD'')])"
proof -
  have "json_lookup sample_client_lib" by (simp add: sample_client_lib_def ref_json_lookup)
  from trade_never_null [OF this, of int_stod "\<lambda>t l. Inr (t # l)" "''match 50''" "(sample_client, [])"]
  show ?thesis
    by (simp add: feed_onMessageReceived_def route_message_def isTradeMsg_def sample_client_lib_def
        sample_client_def sample_match_def str_ref_def str_at_def at_def fp_onMessageReceived_def
        ulong_at_def new_CoinbaseFeedProduct_def getTrade_def stodE_def int_stod_def number_of_def)
qed

end
