(* ===== verification/Market_Core.thy ===== *)
theory Market_Core
  imports Feed_Client "HOL-Library.Multiset"
begin

section \<open>The market\<close>

text \<open>
  \<open>Market.hpp\<close> and \<open>Market.cpp\<close>. The market reaches the feed client and the publisher factory
  through interfaces, and creates trade publishers itself; \<open>market_ops\<close> collects these operations,
  over the states \<open>'fc\<close>, \<open>'p\<close> and \<open>'tp\<close> of a feed client, a publisher and a trade publisher. The
  pending changes are an \<open>unordered_multimap\<close>: the standard fixes only that elements with equal
  keys are next to each other when the container is walked, so the order of a walk is an argument
  of \<open>processProductChanges\<close>, constrained by \<open>multimap_order\<close>.
\<close>

record ('f, 'p, 'fc, 'tp) market_ops =
  op_createPublisher :: "string \<Rightarrow> 'p res"
  op_publish :: "'f OrderBook \<Rightarrow> 'p \<Rightarrow> 'p"
  op_feed_subscribe :: "string \<Rightarrow> 'fc \<Rightarrow> 'fc res"
  op_feed_unsubscribe :: "string \<Rightarrow> 'fc \<Rightarrow> 'fc res"
  op_newTradePublisher :: "string \<Rightarrow> 'tp res"
  op_publishTrade :: "'f trade \<Rightarrow> 'tp \<Rightarrow> 'tp res"

record ('f, 'p, 'fc, 'tp) Market =
  m_feedClient :: 'fc
  m_products :: "string \<rightharpoonup> ('f, 'p) Product"
  m_clients :: "string \<rightharpoonup> Client"
  productChanges :: "(string \<times> 'f product_change) list"
  currentChanges :: "(string \<times> 'f product_change) list"
    \<comment> \<open>the local variable of the handler thread, between its two locked sections\<close>
  m_trade_publishers :: "string \<rightharpoonup> 'tp"

definition new_Market :: "'fc \<Rightarrow> ('f, 'p, 'fc, 'tp) Market" where
  "new_Market feedClient = \<lparr>m_feedClient = feedClient, m_products = Map.empty, m_clients = Map.empty,
     productChanges = [], currentChanges = [], m_trade_publishers = Map.empty\<rparr>"

definition Market_onProductChange ::
  "'f product_change \<Rightarrow> ('f, 'p, 'fc, 'tp) Market \<Rightarrow> ('f, 'p, 'fc, 'tp) Market" where
  "Market_onProductChange pc m = m\<lparr>productChanges := productChanges m @ [(getProductId pc, pc)]\<rparr>"

definition Market_onTrade :: "('f, 'p, 'fc, 'tp) market_ops \<Rightarrow> 'f trade option \<Rightarrow>
    ('f, 'p, 'fc, 'tp) Market \<Rightarrow> ('f, 'p, 'fc, 'tp) Market res" where
  "Market_onTrade ops trade m =
     (case trade of
        None \<Rightarrow> Inl Undefined
      | Some t \<Rightarrow>
          (case m_trade_publishers m (trade_productId t) of
             None \<Rightarrow> Inr m
           | Some tp \<Rightarrow> bindE (op_publishTrade ops t tp) (\<lambda>tp'.
               Inr (m\<lparr>m_trade_publishers := (m_trade_publishers m)(trade_productId t \<mapsto> tp')\<rparr>))))"

text \<open>The walk over the batch: the changes of one key at a time.\<close>

function processChanges :: "('f::minus, 'p, 'fc, 'tp) market_ops \<Rightarrow> (string \<times> 'f product_change) list \<Rightarrow>
    ('f, 'p, 'fc, 'tp) Market \<Rightarrow> ('f, 'p, 'fc, 'tp) Market" where
  "processChanges ops [] m = m"
| "processChanges ops ((productId, pc) # it) m =
     (let changes = pc # map snd (takeWhile (\<lambda>x. fst x = productId) it);
          it' = dropWhile (\<lambda>x. fst x = productId) it
      in case m_products m productId of
           Some p \<Rightarrow> processChanges ops it'
             (m\<lparr>m_products := (m_products m)(productId \<mapsto> onProductChanges (op_publish ops) changes p)\<rparr>)
         | None \<Rightarrow> processChanges ops it' m)"
  by pat_completeness auto
termination
  by (relation "measure (\<lambda>(ops, it, m). length it)") (auto simp: le_imp_less_Suc length_dropWhile_le)

definition multimap_order :: "('k \<times> 'v) list \<Rightarrow> ('k \<times> 'v) list \<Rightarrow> bool" where
  "multimap_order xs it \<longleftrightarrow> mset it = mset xs \<and> grouped (map fst it)"

text \<open>The two locked sections of one round of \<open>processProductChanges\<close>.\<close>

definition takeChanges :: "(string \<times> 'f product_change) list \<Rightarrow> ('f, 'p, 'fc, 'tp) Market \<Rightarrow>
    ('f, 'p, 'fc, 'tp) Market" where
  "takeChanges it m = m\<lparr>currentChanges := it, productChanges := []\<rparr>"

definition processProductChanges ::
  "('f::minus, 'p, 'fc, 'tp) market_ops \<Rightarrow> ('f, 'p, 'fc, 'tp) Market \<Rightarrow> ('f, 'p, 'fc, 'tp) Market" where
  "processProductChanges ops m = (processChanges ops (currentChanges m) m)\<lparr>currentChanges := []\<rparr>"

definition Market_subscribe :: "('f, 'p, 'fc, 'tp) market_ops \<Rightarrow> string \<Rightarrow> string \<Rightarrow>
    ('f, 'p, 'fc, 'tp) Market \<Rightarrow> ('f, 'p, 'fc, 'tp) Market res" where
  "Market_subscribe ops clientId prodId m =
     (let m1 = (if m_clients m clientId = None
                then m\<lparr>m_clients := (m_clients m)(clientId \<mapsto> new_Client clientId)\<rparr> else m)
      in bindE
           (if m_products m1 prodId = None then
              bindE (op_createPublisher ops prodId) (\<lambda>publisher.
                let m2 = m1\<lparr>m_products := (m_products m1)(prodId \<mapsto> new_Product prodId publisher)\<rparr>
                in bindE (op_feed_subscribe ops prodId (m_feedClient m2)) (\<lambda>fc.
                     Inr (m2\<lparr>m_feedClient := fc\<rparr>)))
            else Inr m1)
           (\<lambda>m3.
              if m_trade_publishers m3 prodId = None then
                bindE (op_newTradePublisher ops prodId) (\<lambda>tp.
                  Inr (m3\<lparr>m_trade_publishers := (m_trade_publishers m3)(prodId \<mapsto> tp)\<rparr>))
              else Inr m3))"

text \<open>\<open>unsubscribe\<close> dereferences the iterator also when it is \<open>end()\<close>.\<close>

definition Market_unsubscribe :: "('f, 'p, 'fc, 'tp) market_ops \<Rightarrow> string \<Rightarrow> string \<Rightarrow>
    ('f, 'p, 'fc, 'tp) Market \<Rightarrow> ('f, 'p, 'fc, 'tp) Market res" where
  "Market_unsubscribe ops clientId prodId m =
     (let m1 = (case m_products m prodId of
                  Some p \<Rightarrow> m\<lparr>m_products := (m_products m)(prodId \<mapsto> removeClient clientId p)\<rparr>
                | None \<Rightarrow> m)
      in case m_products m1 prodId of
           None \<Rightarrow> Inl Undefined
         | Some p \<Rightarrow>
             if hasClients p = 0 then
               bindE (op_feed_unsubscribe ops prodId (m_feedClient m1)) (\<lambda>fc.
                 Inr (m1\<lparr>m_feedClient := fc, m_products := (m_products m1)(prodId := None),
                         m_trade_publishers := (m_trade_publishers m1)(prodId := None)\<rparr>))
             else Inr m1)"

subsection \<open>One batch\<close>

definition changes_of :: "string \<Rightarrow> (string \<times> 'f product_change) list \<Rightarrow> 'f product_change list" where
  "changes_of p it = map snd (filter (\<lambda>x. fst x = p) it)"

lemma filter_key_dropWhile:
  assumes "grouped (map fst ((k, c) # it))"
  shows "filter (\<lambda>x. fst x = k) it = takeWhile (\<lambda>x. fst x = k) it"
    and "filter (\<lambda>x. fst x = k) (dropWhile (\<lambda>x. fst x = k) it) = []"
    and "grouped (map fst (dropWhile (\<lambda>x. fst x = k) it))"
proof -
  have eq: "dropWhile (\<lambda>y. y = k) (map fst it) = map fst (dropWhile (\<lambda>x. fst x = k) it)"
    by (simp add: dropWhile_map comp_def)
  have "k \<notin> set (dropWhile (\<lambda>y. y = k) (map fst it))" and g: "grouped (map fst it)"
    using assms by simp_all
  then have "k \<notin> fst ` set (dropWhile (\<lambda>x. fst x = k) it)" by (simp add: eq)
  then show none: "filter (\<lambda>x. fst x = k) (dropWhile (\<lambda>x. fst x = k) it) = []"
    by (auto simp: filter_empty_conv)
  have "filter (\<lambda>x. fst x = k) (takeWhile (\<lambda>x. fst x = k) it) = takeWhile (\<lambda>x. fst x = k) it"
    by (auto simp: filter_id_conv dest: set_takeWhileD)
  moreover have "filter (\<lambda>x. fst x = k) it = filter (\<lambda>x. fst x = k) (takeWhile (\<lambda>x. fst x = k) it) @
      filter (\<lambda>x. fst x = k) (dropWhile (\<lambda>x. fst x = k) it)"
    by (simp flip: filter_append)
  ultimately show "filter (\<lambda>x. fst x = k) it = takeWhile (\<lambda>x. fst x = k) it"
    using none by simp
  show "grouped (map fst (dropWhile (\<lambda>x. fst x = k) it))"
    using grouped_dropWhile [OF g, of "\<lambda>y. y = k"] by (simp only: eq)
qed

lemma filter_other_dropWhile:
  "q \<noteq> k \<Longrightarrow> filter (\<lambda>x. fst x = q) (dropWhile (\<lambda>x. fst x = k) it) = filter (\<lambda>x. fst x = q) it"
  by (induction it) auto

lemma onProductChanges_Nil [simp]: "onProductChanges publish [] p = p"
  by (simp add: onProductChanges_def)

lemma processChanges_products:
  "grouped (map fst it) \<Longrightarrow> m_products (processChanges ops it m) q =
     map_option (onProductChanges (op_publish ops) (changes_of q it)) (m_products m q)"
proof (induction ops it m rule: processChanges.induct)
  case (1 ops m)
  then show ?case by (simp add: changes_of_def option.map_ident)
next
  case (2 ops k c it m)
  note key = filter_key_dropWhile(1,2) [OF "2.prems"] and g = filter_key_dropWhile(3) [OF "2.prems"]
  show ?case
  proof (cases "m_products m k")
    case None
    with "2.IH"(1) [OF refl refl None g] key show ?thesis
      by (cases "q = k") (simp_all add: changes_of_def filter_other_dropWhile Let_def)
  next
    case (Some p)
    with "2.IH"(2) [OF refl refl Some g] key show ?thesis
      by (cases "q = k") (simp_all add: changes_of_def filter_other_dropWhile Let_def)
  qed
qed

lemma processChanges_frame:
  "m_feedClient (processChanges ops it m) = m_feedClient m \<and>
   m_clients (processChanges ops it m) = m_clients m \<and>
   productChanges (processChanges ops it m) = productChanges m \<and>
   m_trade_publishers (processChanges ops it m) = m_trade_publishers m"
  by (induction ops it m rule: processChanges.induct) (auto simp: Let_def split: option.splits)

text \<open>Whatever order the container is walked in, a product gets its own changes, each once.\<close>

lemma mset_changes_of: "multimap_order xs it \<Longrightarrow> mset (changes_of q it) = mset (changes_of q xs)"
  by (simp add: multimap_order_def changes_of_def mset_filter)

lemma length_changes_of_distinct:
  "distinct (map fst xs) \<Longrightarrow> length (changes_of q xs) \<le> 1"
proof (induction xs)
  case (Cons x xs)
  have "q \<notin> fst ` set xs \<Longrightarrow> filter (\<lambda>y. fst y = q) xs = []"
    by (auto simp: filter_empty_conv)
  with Cons show ?case by (auto simp: changes_of_def)
qed (simp add: changes_of_def)

lemma mset_eq_short: "mset xs = mset ys \<Longrightarrow> length ys \<le> 1 \<Longrightarrow> xs = ys"
  by (cases ys) auto

subsection \<open>The market in any interleaving\<close>

text \<open>
  The threads that call into the market: the websocket thread (\<open>trade\<close>), the message loops of the
  feed products (\<open>change\<close>), the client service (\<open>subscribe\<close>, \<open>unsubscribe\<close>) and the market's own
  handler thread, which takes the pending changes under one mutex and works them off under another
  (\<open>take\<close>, \<open>process\<close>). The feed client may change at any time (\<open>feed\<close>), as long as it listens for the
  same products. Each of these bodies runs under the mutex that guards the fields it writes, except
  that \<open>subscribe\<close> has two locked sections; only the one client service thread calls it and
  \<open>unsubscribe\<close>, so that between the two only changes and trades can come in.
\<close>

inductive market_step ::
  "('f::minus, 'p, 'fc, 'tp) market_ops \<Rightarrow> ('fc \<Rightarrow> string set) \<Rightarrow>
    ('f, 'p, 'fc, 'tp) Market \<Rightarrow> ('f, 'p, 'fc, 'tp) Market \<Rightarrow> bool" for ops listening where
  change: "market_step ops listening m (Market_onProductChange pc m)"
| trade: "Market_onTrade ops t m = Inr m' \<Longrightarrow> market_step ops listening m m'"
| take: "currentChanges m = [] \<Longrightarrow> multimap_order (productChanges m) it \<Longrightarrow>
    market_step ops listening m (takeChanges it m)"
| process: "market_step ops listening m (processProductChanges ops m)"
| subscribe: "Market_subscribe ops c p m = Inr m' \<Longrightarrow> market_step ops listening m m'"
| unsubscribe: "Market_unsubscribe ops c p m = Inr m' \<Longrightarrow> market_step ops listening m m'"
| feed: "listening fc = listening (m_feedClient m) \<Longrightarrow>
    market_step ops listening m (m\<lparr>m_feedClient := fc\<rparr>)"

definition market_run :: "('f::minus, 'p, 'fc, 'tp) market_ops \<Rightarrow> ('fc \<Rightarrow> string set) \<Rightarrow>
    ('f, 'p, 'fc, 'tp) Market \<Rightarrow> ('f, 'p, 'fc, 'tp) Market \<Rightarrow> bool" where
  "market_run ops listening = (market_step ops listening)\<^sup>*\<^sup>*"

text \<open>
  The invariant: the three tables agree on which products there are, no product has a client in
  its own table, and every pending change is filed under its product.
\<close>

definition clean :: "(string \<rightharpoonup> ('f, 'p) Product) \<Rightarrow> bool" where
  "clean ps \<longleftrightarrow> (\<forall>q p. ps q = Some p \<longrightarrow> prod_clients p = [] \<and> prod_productId p = q)"

definition market_inv :: "('fc \<Rightarrow> string set) \<Rightarrow> ('f, 'p, 'fc, 'tp) Market \<Rightarrow> bool" where
  "market_inv listening m \<longleftrightarrow>
     dom (m_products m) = listening (m_feedClient m) \<and>
     dom (m_trade_publishers m) = listening (m_feedClient m) \<and>
     clean (m_products m) \<and>
     (\<forall>x \<in> set (productChanges m) \<union> set (currentChanges m). fst x = getProductId (snd x))"

lemma clean_update:
  "clean ps \<Longrightarrow> prod_clients p = [] \<Longrightarrow> prod_productId p = q \<Longrightarrow> clean (ps(q \<mapsto> p))"
  by (simp add: clean_def)

lemma clean_delete: "clean ps \<Longrightarrow> clean (ps(q := None))"
  by (simp add: clean_def)

lemma clean_Some: "clean ps \<Longrightarrow> ps q = Some p \<Longrightarrow> prod_clients p = [] \<and> prod_productId p = q"
  by (simp add: clean_def)

lemma market_inv_tables:
  "market_inv listening m \<Longrightarrow> m_products m p = None \<longleftrightarrow> m_trade_publishers m p = None"
  by (metis domIff market_inv_def)

lemma dom_update_same: "ps k = Some p \<Longrightarrow> dom (ps(k \<mapsto> v)) = dom ps"
  by (auto simp: insert_absorb)

lemma processChanges_dom: "dom (m_products (processChanges ops it m)) = dom (m_products m)"
proof (induction ops it m rule: processChanges.induct)
  case (2 ops k c it m)
  show ?case
  proof (cases "m_products m k")
    case None
    with "2.IH"(1) [OF refl refl None] show ?thesis by (simp add: Let_def)
  next
    case (Some p)
    show ?thesis
      using "2.IH"(2) [OF refl refl Some] dom_update_same [of "m_products m" k, OF Some]
      by (simp add: Some Let_def del: fun_upd_apply dom_fun_upd)
  qed
qed simp

lemma processChanges_clean: "clean (m_products m) \<Longrightarrow> clean (m_products (processChanges ops it m))"
proof (induction ops it m rule: processChanges.induct)
  case (2 ops k c it m)
  show ?case
  proof (cases "m_products m k")
    case None
    with "2.IH"(1) [OF refl refl None "2.prems"] show ?thesis by (simp add: Let_def)
  next
    case (Some p)
    have "clean ((m_products m)(k \<mapsto> onProductChanges (op_publish ops)
        (c # map snd (takeWhile (\<lambda>x. fst x = k) it)) p))"
      using clean_Some [OF "2.prems" Some] by (intro clean_update "2.prems") simp_all
    then show ?thesis
      using "2.IH"(2) [OF refl refl Some] by (simp add: Some Let_def del: fun_upd_apply)
  qed
qed simp

lemma processProductChanges_inv:
  assumes "market_inv listening m"
  shows "market_inv listening (processProductChanges ops m)"
  using assms processChanges_frame [of ops "currentChanges m" m]
  by (simp add: market_inv_def processProductChanges_def processChanges_dom processChanges_clean)

lemma set_multimap_order: "multimap_order xs it \<Longrightarrow> set it = set xs"
  unfolding multimap_order_def by (metis set_mset_mset)

lemma takeChanges_inv:
  assumes "market_inv listening m" and "multimap_order (productChanges m) it"
  shows "market_inv listening (takeChanges it m)"
  using assms set_multimap_order [OF assms(2)] by (simp add: market_inv_def takeChanges_def)

lemma onTrade_cases:
  assumes "Market_onTrade ops t m = Inr m'"
  obtains "m' = m" | p tp where "m_trade_publishers m p \<noteq> None"
    and "m' = m\<lparr>m_trade_publishers := (m_trade_publishers m)(p \<mapsto> tp)\<rparr>"
proof (cases t)
  case None
  with assms show thesis by (simp add: Market_onTrade_def)
next
  case (Some x)
  show thesis
  proof (cases "m_trade_publishers m (trade_productId x)")
    case None
    with assms Some that(1) show thesis by (simp add: Market_onTrade_def)
  next
    case (Some tp0)
    with assms \<open>t = Some x\<close> obtain tp where "m' = m\<lparr>m_trade_publishers :=
        (m_trade_publishers m)(trade_productId x \<mapsto> tp)\<rparr>"
      by (auto simp: Market_onTrade_def bindE_eq_Inr)
    with Some that(2) show thesis by blast
  qed
qed

lemma onTrade_inv:
  assumes "market_inv listening m" and "Market_onTrade ops t m = Inr m'"
  shows "market_inv listening m'"
  using assms(2)
proof (cases rule: onTrade_cases)
  case (2 p tp)
  from 2(1) obtain tp0 where "m_trade_publishers m p = Some tp0" by auto
  from assms(1) dom_update_same [of "m_trade_publishers m", OF this, of tp] show ?thesis
    by (simp add: 2(2) market_inv_def del: dom_fun_upd fun_upd_apply)
qed (use assms(1) in simp)

lemma onProductChange_inv:
  "market_inv listening m \<Longrightarrow> market_inv listening (Market_onProductChange pc m)"
  by (simp add: market_inv_def Market_onProductChange_def)

text \<open>Subscribing and unsubscribing, for a feed client that keeps its contract.\<close>

lemma subscribe_cases:
  assumes "Market_subscribe ops c p m = Inr m'" and "m_products m p = None \<longleftrightarrow> m_trade_publishers m p = None"
  obtains cl where "m_products m p \<noteq> None" and "m' = m\<lparr>m_clients := cl\<rparr>"
  | cl pub fc tp where "m_products m p = None" and "op_createPublisher ops p = Inr pub"
    and "op_feed_subscribe ops p (m_feedClient m) = Inr fc" and "op_newTradePublisher ops p = Inr tp"
    and "m' = m\<lparr>m_clients := cl, m_products := (m_products m)(p \<mapsto> new_Product p pub),
      m_feedClient := fc, m_trade_publishers := (m_trade_publishers m)(p \<mapsto> tp)\<rparr>"
proof -
  obtain cl where m1: "(if m_clients m c = None
      then m\<lparr>m_clients := (m_clients m)(c \<mapsto> new_Client c)\<rparr> else m) = m\<lparr>m_clients := cl\<rparr>"
  proof (cases "m_clients m c = None")
    case False
    then show thesis by (intro that [of "m_clients m"]) auto
  qed (use that in simp)
  note sub = assms(1) [unfolded Market_subscribe_def m1 Let_def]
  show thesis
  proof (cases "m_products m p")
    case None
    with assms(2) have "m_trade_publishers m p = None" by simp
    with None sub obtain pub fc tp where "op_createPublisher ops p = Inr pub"
      "op_feed_subscribe ops p (m_feedClient m) = Inr fc" "op_newTradePublisher ops p = Inr tp"
      "m' = m\<lparr>m_clients := cl, m_products := (m_products m)(p \<mapsto> new_Product p pub),
        m_feedClient := fc, m_trade_publishers := (m_trade_publishers m)(p \<mapsto> tp)\<rparr>"
      by (auto simp: bindE_eq_Inr simp del: fun_upd_apply)
    with None that(2) show thesis by blast
  next
    case (Some q)
    with assms(2) obtain tp where "m_trade_publishers m p = Some tp" by auto
    with Some sub show thesis by (intro that(1) [where cl = cl]) simp_all
  qed
qed

lemma removeClient_clean: "prod_clients p = [] \<Longrightarrow> removeClient c p = p"
  by (simp add: removeClient_def)

lemma unsubscribe_clean:
  assumes "clean (m_products m)"
  shows "Market_unsubscribe ops c p m =
    (if m_products m p = None then Inl Undefined
     else bindE (op_feed_unsubscribe ops p (m_feedClient m)) (\<lambda>fc.
       Inr (m\<lparr>m_feedClient := fc, m_products := (m_products m)(p := None),
              m_trade_publishers := (m_trade_publishers m)(p := None)\<rparr>)))"
proof (cases "m_products m p")
  case None
  then show ?thesis by (simp add: Market_unsubscribe_def)
next
  case (Some q)
  with clean_Some [OF assms this] show ?thesis
    by (simp add: Market_unsubscribe_def hasClients_def removeClient_clean)
qed

locale market_feed = feed_client "op_feed_subscribe ops" "op_feed_unsubscribe ops" listening
  for ops :: "('f::minus, 'p, 'fc, 'tp) market_ops" and listening :: "'fc \<Rightarrow> string set"
begin

lemma subscribe_inv:
  assumes "market_inv listening m" and "Market_subscribe ops c p m = Inr m'"
  shows "market_inv listening m'"
proof -
  from assms(2) market_inv_tables [OF assms(1)] show ?thesis
  proof (cases rule: subscribe_cases)
    case (1 cl)
    with assms(1) show ?thesis by (simp add: market_inv_def)
  next
    case (2 cl pub fc tp)
    have "clean ((m_products m)(p \<mapsto> new_Product p pub))"
      using assms(1) by (intro clean_update) (simp_all add: market_inv_def new_Product_def)
    with assms(1) listening_subscribe [OF 2(3)] show ?thesis
      by (simp add: 2(5) market_inv_def)
  qed
qed

lemma unsubscribe_inv:
  assumes "market_inv listening m" and "Market_unsubscribe ops c p m = Inr m'"
  shows "market_inv listening m'"
proof -
  from assms have cl: "clean (m_products m)" by (simp add: market_inv_def)
  from assms(2) obtain fc where "op_feed_unsubscribe ops p (m_feedClient m) = Inr fc"
    and m': "m' = m\<lparr>m_feedClient := fc, m_products := (m_products m)(p := None),
      m_trade_publishers := (m_trade_publishers m)(p := None)\<rparr>"
    by (auto simp: unsubscribe_clean [OF cl] bindE_eq_Inr split: if_splits)
  from listening_unsubscribe [OF this(1)] assms(1) clean_delete [OF cl] show ?thesis
    by (simp add: m' market_inv_def)
qed

lemma market_step_inv:
  assumes "market_step ops listening m m'" and "market_inv listening m"
  shows "market_inv listening m'"
  using assms
proof (cases rule: market_step.cases)
  case (feed fc)
  with assms(2) show ?thesis by (simp add: market_inv_def)
qed (use assms(2) in \<open>auto intro: onProductChange_inv onTrade_inv takeChanges_inv
  processProductChanges_inv subscribe_inv unsubscribe_inv\<close>)

lemma market_run_inv:
  assumes "market_run ops listening m m'" and "market_inv listening m"
  shows "market_inv listening m'"
  using assms(1) unfolding market_run_def
  by (induction rule: rtranclp_induct) (use assms(2) market_step_inv in blast)+

lemma market_inv_new: "listening fc = {} \<Longrightarrow> market_inv listening (new_Market fc)"
  by (simp add: market_inv_def new_Market_def clean_def)

end

subsection \<open>Properties of the market\<close>

text \<open>Publishers that only record what they are given, and a feed client that is a set of names.\<close>

definition log_ops :: "(int, int OrderBook list, string list, int trade list) market_ops" where
  "log_ops = \<lparr>op_createPublisher = (\<lambda>p. Inr []), op_publish = (\<lambda>ob sent. sent @ [ob]),
     op_feed_subscribe = (\<lambda>p fc. Inr (List.insert p fc)),
     op_feed_unsubscribe = (\<lambda>p fc. Inr (removeAll p fc)),
     op_newTradePublisher = (\<lambda>p. Inr []), op_publishTrade = (\<lambda>t tp. Inr (tp @ [t]))\<rparr>"

definition sample_market :: "(int, int OrderBook list, string list, int trade list) Market" where
  "sample_market = (new_Market [''ETH-USD''])\<lparr>
     m_products := [''ETH-USD'' \<mapsto> (new_Product ''ETH-USD'' [])\<lparr>m_orderBook := sample_book\<rparr>],
     m_trade_publishers := [''ETH-USD'' \<mapsto> []]\<rparr>"

definition sample_open :: "int product_change" where
  "sample_open = ProductChangeOpen ''a2'' 12 3 Sell ''ETH-USD'' 8"

definition sample_done :: "int product_change" where
  "sample_done = ProductChangeDone ''a2'' Buy ''ETH-USD'' 9"

text \<open>
  C8: A batch reaches every product. Whatever order the handler thread meets the pending changes in,
  every product there is applies a reordering of exactly its own pending changes, none lost and none
  twice, in one call, and so publishes once if there were any; the changes of other products are
  dropped, and the pending list and the batch are empty afterwards.
\<close>

theorem batch_reaches_products:
  assumes "multimap_order (productChanges m) it"
  shows "\<exists>pcs. mset pcs = mset (changes_of q (productChanges m)) \<and>
    m_products (processProductChanges ops (takeChanges it m)) q =
      map_option (onProductChanges (op_publish ops) pcs) (m_products m q) \<and>
    productChanges (processProductChanges ops (takeChanges it m)) = [] \<and>
    currentChanges (processProductChanges ops (takeChanges it m)) = []"
proof (intro exI conjI)
  show "mset (changes_of q it) = mset (changes_of q (productChanges m))"
    using assms by (rule mset_changes_of)
  have "grouped (map fst it)" using assms by (simp add: multimap_order_def)
  then show "m_products (processProductChanges ops (takeChanges it m)) q =
      map_option (onProductChanges (op_publish ops) (changes_of q it)) (m_products m q)"
    by (simp add: processProductChanges_def takeChanges_def processChanges_products)
qed (simp_all add: processProductChanges_def takeChanges_def processChanges_frame)

theorem batch_reaches_products_witness:
  "\<exists>pcs. mset pcs = {#sample_open, sample_done#} \<and>
    m_products (processProductChanges log_ops (takeChanges
        [(''ETH-USD'', sample_done), (''ETH-USD'', sample_open)]
        (sample_market\<lparr>productChanges := [(''ETH-USD'', sample_open), (''ETH-USD'', sample_done)]\<rparr>)))
      ''ETH-USD'' =
    Some (onProductChanges (op_publish log_ops) pcs
      ((new_Product ''ETH-USD'' [])\<lparr>m_orderBook := sample_book\<rparr>))"
proof -
  have "multimap_order (productChanges (sample_market\<lparr>productChanges :=
      [(''ETH-USD'', sample_open), (''ETH-USD'', sample_done)]\<rparr>))
      [(''ETH-USD'', sample_done), (''ETH-USD'', sample_open)]"
    by (simp add: multimap_order_def)
  from batch_reaches_products [OF this, of "''ETH-USD''" log_ops] show ?thesis
    by (auto simp: changes_of_def sample_market_def)
qed

text \<open>
  One change per product is safe. If no two pending changes are of the same product, the books,
  and everything else of the market, are the same for every order in which the container can be
  walked.
\<close>

theorem distinct_batch_deterministic:
  assumes "multimap_order (productChanges m) it" and "multimap_order (productChanges m) it'"
    and "distinct (map fst (productChanges m))"
  shows "processProductChanges ops (takeChanges it m) = processProductChanges ops (takeChanges it' m)"
proof -
  have same: "changes_of q it = changes_of q it'" for q
    using mset_changes_of [OF assms(1), of q] mset_changes_of [OF assms(2), of q]
      length_changes_of_distinct [OF assms(3), of q] by (metis mset_eq_short)
  have g: "grouped (map fst it)" "grouped (map fst it')"
    using assms(1,2) by (simp_all add: multimap_order_def)
  have products: "m_products (processChanges ops it (takeChanges it m)) =
      m_products (processChanges ops it' (takeChanges it' m))"
    by (rule ext) (simp add: processChanges_products g same takeChanges_def)
  show ?thesis
    using products
      processChanges_frame [of ops it "takeChanges it m"] processChanges_frame [of ops it' "takeChanges it' m"]
    by (simp add: processProductChanges_def takeChanges_def)
qed

theorem distinct_batch_deterministic_witness:
  "processProductChanges log_ops (takeChanges [(''ETH-USD'', sample_open), (''BTC-USD'', sample_done)]
      (sample_market\<lparr>productChanges := [(''ETH-USD'', sample_open), (''BTC-USD'', sample_done)]\<rparr>)) =
   processProductChanges log_ops (takeChanges [(''BTC-USD'', sample_done), (''ETH-USD'', sample_open)]
      (sample_market\<lparr>productChanges := [(''ETH-USD'', sample_open), (''BTC-USD'', sample_done)]\<rparr>))"
  by (rule distinct_batch_deterministic) (simp_all add: multimap_order_def)

text \<open>
  The order within one product is not fixed. An \<open>open\<close> and the \<open>done\<close> of the same order,
  delivered in this order, can be walked either way, as far as the container promises; one walk
  ends with the book as it was, the other with the order still in it.
\<close>

theorem batch_order_matters:
  "\<exists>it it'. multimap_order [(''ETH-USD'', sample_open), (''ETH-USD'', sample_done)] it \<and>
    multimap_order [(''ETH-USD'', sample_open), (''ETH-USD'', sample_done)] it' \<and>
    map_option m_orderBook (m_products (processProductChanges log_ops (takeChanges it sample_market)) ''ETH-USD'') =
      Some sample_book \<and>
    map_option m_orderBook (m_products (processProductChanges log_ops (takeChanges it' sample_market)) ''ETH-USD'') =
      Some (sample_book\<lparr>m_asks := m_asks sample_book @ [\<lparr>price = 12, osize = 3, order_id = ''a2''\<rparr>]\<rparr>)"
proof (intro exI conjI)
  let ?it = "[(''ETH-USD'', sample_open), (''ETH-USD'', sample_done)]"
  let ?it' = "[(''ETH-USD'', sample_done), (''ETH-USD'', sample_open)]"
  show "multimap_order ?it ?it" and "multimap_order ?it ?it'" by (simp_all add: multimap_order_def)
  show "map_option m_orderBook (m_products (processProductChanges log_ops (takeChanges ?it sample_market)) ''ETH-USD'') =
      Some sample_book"
    by (simp add: processProductChanges_def takeChanges_def processChanges_products changes_of_def
        sample_market_def onProductChanges_eq apply_changes_def sample_open_def sample_done_def
        addOrder_def removeOrder_def sample_defs)
  show "map_option m_orderBook (m_products (processProductChanges log_ops (takeChanges ?it' sample_market)) ''ETH-USD'') =
      Some (sample_book\<lparr>m_asks := m_asks sample_book @ [\<lparr>price = 12, osize = 3, order_id = ''a2''\<rparr>]\<rparr>)"
    by (simp add: processProductChanges_def takeChanges_def processChanges_products changes_of_def
        sample_market_def onProductChanges_eq apply_changes_def sample_open_def sample_done_def
        addOrder_def removeOrder_def sample_defs)
qed

end
