(* ===== verification/Uuid_Gen.thy ===== *)
theory Uuid_Gen
  imports Prelude
begin

section \<open>Client ids\<close>

text \<open>
  \<open>src/utils/uuid.cpp\<close>. The random generator is the standard library's; its results are an
  argument: the list of numbers the calls of \<open>dis\<close> and \<open>dis2\<close> return, in the order of the calls.
  \<open>dis\<close> returns numbers from 0 to 15, \<open>dis2\<close> from 8 to 11 (\<open>good_draws\<close>).
\<close>

text \<open>What a stream with the manipulator \<open>std::hex\<close> prints for a number.\<close>

definition hex_digit :: "nat \<Rightarrow> char" where
  "hex_digit d = (if d < 10 then char_of (48 + d) else char_of (87 + d))"

fun hex :: "nat \<Rightarrow> string" where
  "hex n = (if n < 16 then [hex_digit n] else hex (n div 16) @ [hex_digit (n mod 16)])"

declare hex.simps [simp del]

text \<open>One loop: \<open>n\<close> draws printed on the stream.\<close>

fun put_draws :: "nat \<Rightarrow> string \<times> nat list \<Rightarrow> string \<times> nat list" where
  "put_draws 0 (ss, ds) = (ss, ds)"
| "put_draws (Suc n) (ss, ds) = put_draws n (ss @ hex (hd ds), tl ds)"

definition put :: "string \<Rightarrow> string \<times> nat list \<Rightarrow> string \<times> nat list" where
  "put s = (\<lambda>(ss, ds). (ss @ s, ds))"

definition generate_uuid :: "nat list \<Rightarrow> string" where
  "generate_uuid draws =
     (let s0 = ('''', draws);
          s1 = put_draws 8 s0;
          s2 = put ''-'' s1;
          s3 = put_draws 4 s2;
          s4 = put ''-4'' s3;
          s5 = put_draws 3 s4;
          s6 = put ''-'' s5;
          s7 = put_draws 1 s6;
          s8 = put_draws 3 s7;
          s9 = put ''-'' s8;
          s10 = put_draws 12 s9
      in fst s10)"

definition good_draws :: "nat list \<Rightarrow> bool" where
  "good_draws ds \<longleftrightarrow> length ds = 31 \<and> (\<forall>d \<in> set ds. d < 16) \<and> ds ! 15 \<in> {8..11}"

lemma hex_small: "d < 16 \<Longrightarrow> hex d = [hex_digit d]"
  by (simp add: hex.simps)

lemma put_draws_eq:
  "n \<le> length ds \<Longrightarrow> \<forall>d \<in> set ds. d < 16 \<Longrightarrow>
    put_draws n (ss, ds) = (ss @ map hex_digit (take n ds), drop n ds)"
proof (induction n arbitrary: ss ds)
  case (Suc n)
  then obtain d ds' where "ds = d # ds'" by (cases ds) auto
  with Suc show ?case by (simp add: hex_small)
qed simp

lemma generate_uuid_eq:
  assumes "good_draws ds"
  shows "generate_uuid ds =
    map hex_digit (take 8 ds) @ ''-'' @ map hex_digit (take 4 (drop 8 ds)) @ ''-4'' @
    map hex_digit (take 3 (drop 12 ds)) @ ''-'' @ map hex_digit (take 4 (drop 15 ds)) @ ''-'' @
    map hex_digit (drop 19 ds)"
proof -
  have small: "\<forall>d \<in> set (drop k ds). d < 16" for k
    using assms by (auto simp: good_draws_def dest: in_set_dropD)
  have len: "length ds = 31" using assms by (simp add: good_draws_def)
  have four: "take 4 (drop 15 ds) = take 1 (drop 15 ds) @ take 3 (drop 16 ds)"
    using take_add [of 1 3 "drop 15 ds"] by simp
  show ?thesis
    using small [of 0]
    by (simp add: generate_uuid_def Let_def put_def put_draws_eq small len four
        del: put_draws.simps One_nat_def)
qed

definition is_hex :: "char \<Rightarrow> bool" where
  "is_hex c \<longleftrightarrow> c \<in> set ''0123456789abcdef''"

lemma hex_digit_table:
  "\<forall>d \<in> set [0..<16]. is_hex (hex_digit d) \<and> (\<forall>c \<in> set [0..<16]. hex_digit c = hex_digit d \<longrightarrow> c = d)"
  by code_simp

lemma is_hex_digit: "d < 16 \<Longrightarrow> is_hex (hex_digit d)"
  using hex_digit_table by simp

lemma map_hex_digit_inject:
  "\<forall>d \<in> set xs. d < 16 \<Longrightarrow> \<forall>d \<in> set ys. d < 16 \<Longrightarrow> map hex_digit xs = map hex_digit ys \<Longrightarrow> xs = ys"
proof (rule map_inj_on [of hex_digit])
  assume "\<forall>d \<in> set xs. d < 16" and "\<forall>d \<in> set ys. d < 16"
  then show "inj_on hex_digit (set xs \<union> set ys)"
    using hex_digit_table by (auto intro!: inj_onI)
qed

lemma layout_form:
  assumes "length a = 8" and "length b = 4" and "length c = 3" and "length d = 4" and "length e = 12"
    and "\<forall>x \<in> set (a @ b @ c @ d @ e). is_hex x" and "d ! 0 \<in> set ''89ab''"
    and "s = a @ ''-'' @ b @ ''-4'' @ c @ ''-'' @ d @ ''-'' @ e"
  shows "length s = 36 \<and>
    (\<forall>i < 36. if i \<in> {8, 13, 18, 23} then s ! i = CHR ''-'' else is_hex (s ! i)) \<and>
    s ! 14 = CHR ''4'' \<and> s ! 19 \<in> set ''89ab''"
proof (intro conjI allI impI)
  have hex: "i < length xs \<Longrightarrow> set xs \<subseteq> set (a @ b @ c @ d @ e) \<Longrightarrow> is_hex (xs ! i)" for i xs
    using assms(6) nth_mem by blast
  have four: "is_hex (CHR ''4'')" by (simp add: is_hex_def)
  show "i < 36 \<Longrightarrow> if i \<in> {8, 13, 18, 23} then s ! i = CHR ''-'' else is_hex (s ! i)" for i
    unfolding assms(8) using assms(1-5) four by (auto simp: nth_append nth_Cons' intro!: hex)
  have "s ! 19 = d ! 0" unfolding assms(8) using assms(1-5) by (simp add: nth_append nth_Cons')
  then show "s ! 19 \<in> set ''89ab''" using assms(7) by metis
qed (use assms(1-5) in \<open>simp_all add: assms(8) nth_append nth_Cons'\<close>)

lemma good_draws_small:
  assumes "good_draws ds"
  shows "\<forall>d \<in> set (take n (drop k ds)). d < 16" and "\<forall>d \<in> set (take n ds). d < 16"
    and "\<forall>d \<in> set (drop k ds). d < 16"
  using assms by (auto simp: good_draws_def dest: in_set_takeD in_set_dropD)

subsection \<open>Properties of the ids\<close>

definition sample_draws :: "nat list" where
  "sample_draws = [0..<15] @ [9] @ [0..<15]"

text \<open>
  The form of an id. With numbers from the two ranges an id has 36 characters: hyphens at
  the places 8, 13, 18 and 23, a \<open>4\<close> at place 14, one of \<open>8\<close>, \<open>9\<close>, \<open>a\<close>, \<open>b\<close> at place 19, and
  a lower case hexadecimal digit everywhere else. This is the layout of a version 4 UUID.
\<close>

theorem uuid_format:
  assumes "good_draws ds"
  shows "length (generate_uuid ds) = 36 \<and>
    (\<forall>i < 36. if i \<in> {8, 13, 18, 23} then generate_uuid ds ! i = CHR ''-''
       else is_hex (generate_uuid ds ! i)) \<and>
    generate_uuid ds ! 14 = CHR ''4'' \<and> generate_uuid ds ! 19 \<in> set ''89ab''"
proof -
  have len: "length ds = 31" and "ds ! 15 \<in> {8..11}" using assms by (simp_all add: good_draws_def)
  then have "hex_digit (ds ! 15) \<in> hex_digit ` set [8..<12]" by (intro imageI) auto
  also have "hex_digit ` set [8..<12] = set ''89ab''" by code_simp
  finally have variant: "map hex_digit (take 4 (drop 15 ds)) ! 0 \<in> set ''89ab''"
    using len by simp
  have ok: "\<forall>x \<in> set (map hex_digit (take 8 ds) @ map hex_digit (take 4 (drop 8 ds)) @
      map hex_digit (take 3 (drop 12 ds)) @ map hex_digit (take 4 (drop 15 ds)) @
      map hex_digit (drop 19 ds)). is_hex x"
    using good_draws_small [OF assms] by (auto simp: is_hex_digit)
  show ?thesis
    by (rule layout_form [OF _ _ _ _ _ ok variant generate_uuid_eq [OF assms]]) (simp_all add: len)
qed

theorem uuid_format_witness:
  "generate_uuid sample_draws = ''01234567-89ab-4cde-9012-3456789abcde'' \<and>
   length (generate_uuid sample_draws) = 36"
proof
  show "generate_uuid sample_draws = ''01234567-89ab-4cde-9012-3456789abcde''" by code_simp
  have "good_draws sample_draws" unfolding good_draws_def by code_simp
  from uuid_format [OF this] show "length (generate_uuid sample_draws) = 36" by blast
qed

text \<open>
  Different numbers, different ids. Two ids are equal only if the generator returned the same
  31 numbers.
\<close>

theorem uuid_injective:
  assumes "good_draws ds" and "good_draws ds'" and "generate_uuid ds = generate_uuid ds'"
  shows "ds = ds'"
proof -
  have pieces: "xs = take 8 xs @ take 4 (drop 8 xs) @ take 3 (drop 12 xs) @ take 4 (drop 15 xs) @ drop 19 xs"
    for xs :: "nat list"
    using append_take_drop_id [of 8 xs] append_take_drop_id [of 4 "drop 8 xs"]
      append_take_drop_id [of 3 "drop 12 xs"] append_take_drop_id [of 4 "drop 15 xs"] by simp
  have "length ds = length ds'" "length ds = 31" "length ds' = 31"
    using assms(1,2) by (simp_all add: good_draws_def)
  with assms(3) have "map hex_digit (take 8 ds) = map hex_digit (take 8 ds')"
    "map hex_digit (take 4 (drop 8 ds)) = map hex_digit (take 4 (drop 8 ds'))"
    "map hex_digit (take 3 (drop 12 ds)) = map hex_digit (take 3 (drop 12 ds'))"
    "map hex_digit (take 4 (drop 15 ds)) = map hex_digit (take 4 (drop 15 ds'))"
    "map hex_digit (drop 19 ds) = map hex_digit (drop 19 ds')"
    unfolding generate_uuid_eq [OF assms(1)] generate_uuid_eq [OF assms(2)] by simp_all
  then have "take 8 ds = take 8 ds'" "take 4 (drop 8 ds) = take 4 (drop 8 ds')"
    "take 3 (drop 12 ds) = take 3 (drop 12 ds')" "take 4 (drop 15 ds) = take 4 (drop 15 ds')"
    "drop 19 ds = drop 19 ds'"
    by (simp_all add: map_hex_digit_inject good_draws_small [OF assms(1)] good_draws_small [OF assms(2)])
  with pieces [of ds] pieces [of ds'] show ?thesis by simp
qed

theorem uuid_injective_witness:
  "generate_uuid sample_draws \<noteq> generate_uuid (1 # tl sample_draws)"
proof -
  have "good_draws sample_draws" and "good_draws (1 # tl sample_draws)"
    unfolding good_draws_def by code_simp+
  from uuid_injective [OF this] show ?thesis by (auto simp: sample_draws_def upt_rec)
qed

end
