(* ===== verification/Client_Service.thy ===== *)
theory Client_Service
  imports Endpoints Uuid_Gen
begin

section \<open>The client service\<close>

text \<open>
  \<open>ClientService.cpp\<close>: one thread that receives requests on a ZMQ reply socket and answers them. The
  service keeps the ids it has given out and passes subscriptions on to a \<open>ProductSubscriber\<close>, an
  interface with the operations \<open>subscribe\<close> and \<open>unsubscribe\<close> over a state \<open>'s\<close>. One round of
  \<open>runImpl\<close> is the function \<open>handle_request\<close>: it takes the text of the request (and the numbers the
  random generator returns, should an id be made) and gives the texts sent, in order, and the new
  state, or the exception that leaves the thread. The document read from a request may be written, so
  \<open>jmsg[key]\<close> inserts \<open>null\<close> for a missing key.
\<close>

record 's ClientService =
  m_registeredClientIds :: "string set"
  m_productSubscriber :: 's

definition new_ClientService :: "'s \<Rightarrow> 's ClientService" where
  "new_ClientService productSubscriber =
     \<lparr>m_registeredClientIds = {}, m_productSubscriber = productSubscriber\<rparr>"

type_synonym 's reply = "(string list \<times> 's ClientService) res"

definition client_id_message :: "'j json_lib \<Rightarrow> string \<Rightarrow> string" where
  "client_id_message J clientId = js_dump J (js_object J
     [(''type'', js_of_string J ''client_id_request''), (''client_id'', js_of_string J clientId),
      (''status'', js_of_string J ''registered'')])"

definition error_message :: "'j json_lib \<Rightarrow> string \<Rightarrow> string" where
  "error_message J err = js_dump J (js_object J
     [(''type'', js_of_string J ''error''), (''error'', js_of_string J err)])"

text \<open>Both endpoints are looked up twice, once for the address and once for the port.\<close>

definition endpoints_document :: "'j json_lib \<Rightarrow> (string \<rightharpoonup> Endpoint) \<Rightarrow> string \<Rightarrow> string \<Rightarrow> string \<Rightarrow>
    'j res" where
  "endpoints_document J productIds kind clientId productId =
     bindE (prodIdToPort productIds productId) (\<lambda>e1.
     bindE (prodIdToPort productIds productId) (\<lambda>e2.
     bindE (prodIdToPort productIds productId) (\<lambda>e3.
     bindE (prodIdToPort productIds productId) (\<lambda>e4.
       Inr (js_object J
         [(''type'', js_of_string J kind),
          (''client_id'', js_of_string J clientId),
          (''product_id'', js_of_string J productId),
          (''product_endpoint'',
             js_of_string J (''tcp://'' @ address e1 @ '':'' @ orderbookPort e2)),
          (''trade_endpoint'',
             js_of_string J (''tcp://'' @ address e3 @ '':'' @ tradePort e4))])))))"

definition handle_client_id :: "'j json_lib \<Rightarrow> nat list \<Rightarrow> 's ClientService \<Rightarrow> 's reply" where
  "handle_client_id J draws cs =
     (let clientId = generate_uuid draws
      in Inr ([client_id_message J clientId],
              cs\<lparr>m_registeredClientIds := insert clientId (m_registeredClientIds cs)\<rparr>))"

text \<open>The two checks both write \<open>error\<close>; the second one wins.\<close>

definition check_ids :: "(string \<rightharpoonup> Endpoint) \<Rightarrow> string \<Rightarrow> string \<Rightarrow> string \<Rightarrow> 's ClientService \<Rightarrow> string" where
  "check_ids productIds clientId productId err cs =
     (let err1 = (if clientId \<notin> m_registeredClientIds cs then ''UnknownClientId'' else err)
      in if \<not> contains productIds productId then ''UnknownProductId'' else err1)"

definition handle_subscribe :: "'j json_lib \<Rightarrow> (string \<rightharpoonup> Endpoint) \<Rightarrow>
    (string \<Rightarrow> string \<Rightarrow> 's \<Rightarrow> 's res) \<Rightarrow> 'j \<Rightarrow> 's ClientService \<Rightarrow> 's reply" where
  "handle_subscribe J productIds subscribe jmsg cs =
     (if \<not> js_contains J jmsg ''client_id'' then Inr ([], cs)
      else if \<not> js_contains J jmsg ''product_id'' then Inr ([], cs)
      else
        bindE (str_ref J jmsg ''client_id'') (\<lambda>clientId.
        bindE (str_ref J jmsg ''product_id'') (\<lambda>productId.
          let err = check_ids productIds clientId productId '''' cs
          in if err \<noteq> '''' then Inr ([error_message J err], cs)
             else
               bindE (subscribe clientId productId (m_productSubscriber cs)) (\<lambda>s.
               bindE (endpoints_document J productIds ''subscribe_request'' clientId productId) (\<lambda>jmessage.
                 Inr ([js_dump J jmessage],
                   cs\<lparr>m_productSubscriber := s,
                      m_registeredClientIds := insert clientId (m_registeredClientIds cs)\<rparr>))))))"

definition handle_unsubscribe :: "'j json_lib \<Rightarrow> (string \<rightharpoonup> Endpoint) \<Rightarrow>
    (string \<Rightarrow> string \<Rightarrow> 's \<Rightarrow> 's res) \<Rightarrow> 'j \<Rightarrow> 's ClientService \<Rightarrow> 's reply" where
  "handle_unsubscribe J productIds unsubscribe jmsg cs =
     (let err1 = (if \<not> js_contains J jmsg ''client_id'' then ''MalformedMsgNoClient'' else '''');
          err2 = (if \<not> js_contains J jmsg ''product_id'' then ''MalformedMsgNoProduct'' else err1)
      in
        bindE (str_ref J jmsg ''client_id'') (\<lambda>clientId.
        bindE (str_ref J jmsg ''product_id'') (\<lambda>productId.
          let err = check_ids productIds clientId productId err2 cs
          in if err \<noteq> '''' then Inr ([error_message J err], cs)
             else
               bindE (unsubscribe clientId productId (m_productSubscriber cs)) (\<lambda>s.
               bindE (endpoints_document J productIds ''unsubscribe_request'' clientId productId) (\<lambda>jmessage.
                 Inr ([js_dump J jmessage], cs\<lparr>m_productSubscriber := s\<rparr>))))))"

definition handle_heartbeat :: "'j json_lib \<Rightarrow> 'j \<Rightarrow> 's ClientService \<Rightarrow> 's reply" where
  "handle_heartbeat J jmsg cs =
     (let err1 = (if \<not> js_contains J jmsg ''client_id'' then ''MalformedMsgNoClient'' else '''')
      in
        bindE (str_ref J jmsg ''client_id'') (\<lambda>clientId.
          let err = (if clientId \<notin> m_registeredClientIds cs then ''UnknownClientId'' else err1)
          in if err \<noteq> '''' then Inr ([error_message J err], cs)
             else
               Inr ([js_dump J (js_object J
                 [(''type'', js_of_string J ''heartbeat''), (''client_id'', js_of_string J clientId)])], cs)))"

text \<open>\<open>dispatch\<close> is the body of the \<open>try\<close> block.\<close>

definition dispatch :: "'j json_lib \<Rightarrow> (string \<rightharpoonup> Endpoint) \<Rightarrow> (string \<Rightarrow> string \<Rightarrow> 's \<Rightarrow> 's res) \<Rightarrow>
    (string \<Rightarrow> string \<Rightarrow> 's \<Rightarrow> 's res) \<Rightarrow> nat list \<Rightarrow> 'j \<Rightarrow> 's ClientService \<Rightarrow> 's reply" where
  "dispatch J productIds subscribe unsubscribe draws jmsg cs =
     (if js_contains J jmsg ''type'' then
        bindE (of_json (js_ref J jmsg ''type'')) (\<lambda>kind.
          if js_eq J kind ''client_id_request'' then handle_client_id J draws cs
          else if js_eq J kind ''subscribe_request'' then handle_subscribe J productIds subscribe jmsg cs
          else if js_eq J kind ''unsubscribe_request'' then
            handle_unsubscribe J productIds unsubscribe jmsg cs
          else if js_eq J kind ''heartbeat'' then handle_heartbeat J jmsg cs
          else Inr ([js_dump J (js_object J
             [(''type'', js_of_string J ''error''),
              (''error'', js_of_string J ''usnsupported message type''),
              (''message_type'', kind)])], cs))
      else Inr ([error_message J ''usnsupported message''], cs))"

text \<open>
  Only \<open>parse\<close> throws a parse error (the subscriber parses no text), so what the handler of the
  exception sees is the state the round started with.
\<close>

definition handle_request :: "'j json_lib \<Rightarrow> (string \<rightharpoonup> Endpoint) \<Rightarrow> (string \<Rightarrow> string \<Rightarrow> 's \<Rightarrow> 's res) \<Rightarrow>
    (string \<Rightarrow> string \<Rightarrow> 's \<Rightarrow> 's res) \<Rightarrow> nat list \<Rightarrow> string \<Rightarrow> 's ClientService \<Rightarrow> 's reply" where
  "handle_request J productIds subscribe unsubscribe draws data cs =
     (case js_parse J data of
        None \<Rightarrow> Inr ([error_message J ''Invalid message''], cs)
      | Some jmsg \<Rightarrow> dispatch J productIds subscribe unsubscribe draws jmsg cs)"

text \<open>The loop, over the requests that come in; an exception ends the thread.\<close>

fun runImpl :: "'j json_lib \<Rightarrow> (string \<rightharpoonup> Endpoint) \<Rightarrow> (string \<Rightarrow> string \<Rightarrow> 's \<Rightarrow> 's res) \<Rightarrow>
    (string \<Rightarrow> string \<Rightarrow> 's \<Rightarrow> 's res) \<Rightarrow> (nat list \<times> string) list \<Rightarrow> 's ClientService \<Rightarrow>
    (string list list \<times> 's ClientService) res" where
  "runImpl J productIds subscribe unsubscribe [] cs = Inr ([], cs)"
| "runImpl J productIds subscribe unsubscribe ((draws, data) # rest) cs =
     bindE (handle_request J productIds subscribe unsubscribe draws data cs) (\<lambda>(sent, cs').
     bindE (runImpl J productIds subscribe unsubscribe rest cs') (\<lambda>(sents, cs'').
       Inr (sent # sents, cs'')))"

subsection \<open>What a request can do\<close>

lemma check_ids_ok:
  "check_ids productIds c p err cs = '''' \<longleftrightarrow>
   c \<in> m_registeredClientIds cs \<and> contains productIds p \<and> err = ''''"
  by (simp add: check_ids_def Let_def)

lemma handle_subscribe_cases:
  assumes "handle_subscribe J productIds subscribe jmsg cs = Inr (sent, cs')"
  obtains (malformed) "\<not> js_contains J jmsg ''client_id'' \<or> \<not> js_contains J jmsg ''product_id''"
      "sent = []" "cs' = cs"
  | (refused) err where "js_contains J jmsg ''client_id''" "js_contains J jmsg ''product_id''"
      "sent = [error_message J err]" "cs' = cs"
  | (served) c p s doc where "js_contains J jmsg ''client_id''" "js_contains J jmsg ''product_id''"
      "str_ref J jmsg ''client_id'' = Inr c" "str_ref J jmsg ''product_id'' = Inr p"
      "c \<in> m_registeredClientIds cs" "contains productIds p"
      "subscribe c p (m_productSubscriber cs) = Inr s"
      "endpoints_document J productIds ''subscribe_request'' c p = Inr doc"
      "sent = [js_dump J doc]" "cs' = cs\<lparr>m_productSubscriber := s\<rparr>"
proof (cases "js_contains J jmsg ''client_id'' \<and> js_contains J jmsg ''product_id''")
  case False
  with assms malformed show thesis by (auto simp: handle_subscribe_def split: if_splits)
next
  case True
  with assms obtain c p where ids: "str_ref J jmsg ''client_id'' = Inr c"
    "str_ref J jmsg ''product_id'' = Inr p"
    by (auto simp: handle_subscribe_def bindE_eq_Inr)
  show thesis
  proof (cases "check_ids productIds c p '''' cs = ''''")
    case False
    with assms True ids refused show thesis by (auto simp: handle_subscribe_def)
  next
    case ok: True
    with assms True ids obtain s doc where
      "subscribe c p (m_productSubscriber cs) = Inr s"
      "endpoints_document J productIds ''subscribe_request'' c p = Inr doc"
      "sent = [js_dump J doc]" "cs' = cs\<lparr>m_productSubscriber := s,
        m_registeredClientIds := insert c (m_registeredClientIds cs)\<rparr>"
      by (auto simp: handle_subscribe_def bindE_eq_Inr)
    moreover have "c \<in> m_registeredClientIds cs" "contains productIds p"
      using ok by (simp_all add: check_ids_ok)
    ultimately show thesis using True ids by (intro served) (simp_all add: insert_absorb)
  qed
qed

lemma handle_unsubscribe_cases:
  assumes "handle_unsubscribe J productIds unsubscribe jmsg cs = Inr (sent, cs')"
  obtains (refused) err where "sent = [error_message J err]" "cs' = cs"
  | (served) c p s doc where "js_contains J jmsg ''client_id''" "js_contains J jmsg ''product_id''"
      "str_ref J jmsg ''client_id'' = Inr c" "str_ref J jmsg ''product_id'' = Inr p"
      "c \<in> m_registeredClientIds cs" "contains productIds p"
      "unsubscribe c p (m_productSubscriber cs) = Inr s"
      "endpoints_document J productIds ''unsubscribe_request'' c p = Inr doc"
      "sent = [js_dump J doc]" "cs' = cs\<lparr>m_productSubscriber := s\<rparr>"
proof -
  define err where "err = (if \<not> js_contains J jmsg ''product_id'' then ''MalformedMsgNoProduct''
    else if \<not> js_contains J jmsg ''client_id'' then ''MalformedMsgNoClient'' else '''')"
  from assms obtain c p where ids: "str_ref J jmsg ''client_id'' = Inr c"
    "str_ref J jmsg ''product_id'' = Inr p"
    by (auto simp: handle_unsubscribe_def Let_def bindE_eq_Inr)
  show thesis
  proof (cases "check_ids productIds c p err cs = ''''")
    case False
    with assms ids show thesis
      by (intro refused [of "check_ids productIds c p err cs"])
        (auto simp: handle_unsubscribe_def Let_def err_def split: if_splits)
  next
    case ok: True
    then have "js_contains J jmsg ''client_id''" "js_contains J jmsg ''product_id''" "err = ''''"
      by (auto simp: check_ids_ok err_def split: if_splits)
    moreover from this assms ids ok obtain s doc where
      "unsubscribe c p (m_productSubscriber cs) = Inr s"
      "endpoints_document J productIds ''unsubscribe_request'' c p = Inr doc"
      "sent = [js_dump J doc]" "cs' = cs\<lparr>m_productSubscriber := s\<rparr>"
      by (auto simp: handle_unsubscribe_def Let_def bindE_eq_Inr)
    moreover have "c \<in> m_registeredClientIds cs" "contains productIds p"
      using ok by (simp_all add: check_ids_ok)
    ultimately show thesis using ids served by simp
  qed
qed

lemma handle_heartbeat_cases:
  assumes "handle_heartbeat J jmsg cs = Inr (sent, cs')"
  shows "length sent = 1 \<and> cs' = cs"
  using assms by (auto simp: handle_heartbeat_def Let_def bindE_eq_Inr split: if_splits)

text \<open>The kind of a request, as the dispatcher sees it.\<close>

definition kind_is :: "'j json_lib \<Rightarrow> 'j \<Rightarrow> string \<Rightarrow> bool" where
  "kind_is J jmsg k \<longleftrightarrow> js_contains J jmsg ''type'' \<and> str_ref J jmsg ''type'' = Inr k"

lemma dispatch_kinds:
  assumes "json_lookup J" and "js_contains J jmsg ''type''"
  shows "dispatch J productIds subscribe unsubscribe draws jmsg cs =
    (if kind_is J jmsg ''client_id_request'' then handle_client_id J draws cs
     else if kind_is J jmsg ''subscribe_request'' then handle_subscribe J productIds subscribe jmsg cs
     else if kind_is J jmsg ''unsubscribe_request'' then handle_unsubscribe J productIds unsubscribe jmsg cs
     else if kind_is J jmsg ''heartbeat'' then handle_heartbeat J jmsg cs
     else Inr ([js_dump J (js_object J
       [(''type'', js_of_string J ''error''), (''error'', js_of_string J ''usnsupported message type''),
        (''message_type'', projr (js_ref J jmsg ''type''))])], cs))"
proof -
  obtain v where v: "js_ref J jmsg ''type'' = Inr v" by (rule json_lookup_contains [OF assms])
  have "kind_is J jmsg k \<longleftrightarrow> js_eq J v k" for k
    using assms(2) v by (simp add: kind_is_def str_ref_def json_lookup_eq [OF assms(1)])
  with v assms(2) show ?thesis by (simp add: dispatch_def)
qed

lemma kind_is_unique: "kind_is J jmsg k \<Longrightarrow> kind_is J jmsg k' \<longleftrightarrow> k = k'"
  by (auto simp: kind_is_def)

text \<open>Every round is one of five.\<close>

lemma handle_request_cases:
  assumes "json_lookup J"
    and "handle_request J productIds subscribe unsubscribe draws data cs = Inr (sent, cs')"
  obtains (answered) "length sent = 1" "cs' = cs"
  | (silent) jmsg where "js_parse J data = Some jmsg" "kind_is J jmsg ''subscribe_request''"
      "\<not> js_contains J jmsg ''client_id'' \<or> \<not> js_contains J jmsg ''product_id''"
      "sent = []" "cs' = cs"
  | (registered) jmsg where "js_parse J data = Some jmsg" "kind_is J jmsg ''client_id_request''"
      "sent = [client_id_message J (generate_uuid draws)]"
      "cs' = cs\<lparr>m_registeredClientIds := insert (generate_uuid draws) (m_registeredClientIds cs)\<rparr>"
  | (subscribed) jmsg c p s doc where "js_parse J data = Some jmsg" "kind_is J jmsg ''subscribe_request''"
      "c \<in> m_registeredClientIds cs" "contains productIds p"
      "subscribe c p (m_productSubscriber cs) = Inr s"
      "endpoints_document J productIds ''subscribe_request'' c p = Inr doc"
      "sent = [js_dump J doc]" "cs' = cs\<lparr>m_productSubscriber := s\<rparr>"
  | (unsubscribed) jmsg c p s doc where "js_parse J data = Some jmsg" "kind_is J jmsg ''unsubscribe_request''"
      "c \<in> m_registeredClientIds cs" "contains productIds p"
      "unsubscribe c p (m_productSubscriber cs) = Inr s"
      "endpoints_document J productIds ''unsubscribe_request'' c p = Inr doc"
      "sent = [js_dump J doc]" "cs' = cs\<lparr>m_productSubscriber := s\<rparr>"
proof (cases "js_parse J data")
  case None
  with assms(2) answered show thesis by (auto simp: handle_request_def)
next
  case (Some jmsg)
  with assms(2) have run: "dispatch J productIds subscribe unsubscribe draws jmsg cs = Inr (sent, cs')"
    by (simp add: handle_request_def)
  show thesis
  proof (cases "js_contains J jmsg ''type''")
    case False
    with run answered show thesis by (auto simp: dispatch_def)
  next
    case True
    note run = run [unfolded dispatch_kinds [OF assms(1) True]]
    consider (a) "kind_is J jmsg ''client_id_request''" | (b) "kind_is J jmsg ''subscribe_request''"
      | (c) "kind_is J jmsg ''unsubscribe_request''" | (d) "kind_is J jmsg ''heartbeat''"
      | (e) "\<forall>k \<in> {''client_id_request'', ''subscribe_request'', ''unsubscribe_request'',
          ''heartbeat''}. \<not> kind_is J jmsg k"
      by auto
    then show thesis
    proof cases
      case a
      with run registered [OF Some] show thesis by (auto simp: handle_client_id_def Let_def)
    next
      case b
      with run have "handle_subscribe J productIds subscribe jmsg cs = Inr (sent, cs')"
        by (simp add: kind_is_unique [OF b])
      then show thesis
      proof (cases rule: handle_subscribe_cases)
        case malformed
        then show thesis using b Some silent by blast
      next
        case (refused err)
        then show thesis using answered by simp
      next
        case (served c p s doc)
        show thesis by (rule subscribed [OF Some b served(5-10)])
      qed
    next
      case c
      with run have "handle_unsubscribe J productIds unsubscribe jmsg cs = Inr (sent, cs')"
        by (simp add: kind_is_unique [OF c])
      then show thesis
      proof (cases rule: handle_unsubscribe_cases)
        case (refused err)
        then show thesis using answered by simp
      next
        case (served c' p s doc)
        show thesis by (rule unsubscribed [OF Some c served(5-10)])
      qed
    next
      case d
      with run have "handle_heartbeat J jmsg cs = Inr (sent, cs')"
        by (simp add: kind_is_unique [OF d])
      from handle_heartbeat_cases [OF this] show thesis using answered by simp
    next
      case e
      with run answered show thesis by auto
    qed
  qed
qed

text \<open>
  The interface \<open>ProductSubscriber\<close>: whatever the subscriber keeps as an invariant of its two
  operations, for products that are online, it keeps under the service.
\<close>

locale product_subscriber =
  fixes subscribe :: "string \<Rightarrow> string \<Rightarrow> 's \<Rightarrow> 's res"
    and unsubscribe :: "string \<Rightarrow> string \<Rightarrow> 's \<Rightarrow> 's res"
    and productIds :: "string \<rightharpoonup> Endpoint"
    and sub_inv :: "'s \<Rightarrow> bool"
  assumes subscribe_keeps: "sub_inv s \<Longrightarrow> contains productIds p \<Longrightarrow> subscribe c p s = Inr s' \<Longrightarrow> sub_inv s'"
    and unsubscribe_keeps: "sub_inv s \<Longrightarrow> contains productIds p \<Longrightarrow> unsubscribe c p s = Inr s' \<Longrightarrow> sub_inv s'"
begin

lemma handle_request_keeps:
  assumes "json_lookup J" and "sub_inv (m_productSubscriber cs)"
    and "handle_request J productIds subscribe unsubscribe draws data cs = Inr (sent, cs')"
  shows "sub_inv (m_productSubscriber cs')"
  using assms(1,3)
proof (cases rule: handle_request_cases)
  case (subscribed jmsg c p s doc)
  with assms(2) show ?thesis by (simp add: subscribe_keeps [of "m_productSubscriber cs" p c])
next
  case (unsubscribed jmsg c p s doc)
  with assms(2) show ?thesis by (simp add: unsubscribe_keeps [of "m_productSubscriber cs" p c])
qed (use assms(2) in simp_all)

lemma runImpl_keeps:
  assumes "json_lookup J"
  shows "runImpl J productIds subscribe unsubscribe reqs cs = Inr (sents, cs') \<Longrightarrow>
    sub_inv (m_productSubscriber cs) \<Longrightarrow> sub_inv (m_productSubscriber cs')"
proof (induction reqs arbitrary: cs sents)
  case (Cons r reqs)
  obtain draws data where r: "r = (draws, data)" by (cases r)
  from Cons.prems(1) obtain sent cs1 sents' where
    one: "handle_request J productIds subscribe unsubscribe draws data cs = Inr (sent, cs1)" and
    rest: "runImpl J productIds subscribe unsubscribe reqs cs1 = Inr (sents', cs')"
    unfolding r by (auto simp: bindE_eq_Inr)
  from handle_request_keeps [OF assms Cons.prems(2) one] Cons.IH [OF rest] show ?case by simp
qed simp

end

subsection \<open>Properties of the client service\<close>

text \<open>A subscriber that records who is subscribed to what, and the requests of the examples.\<close>

definition log_subscribe :: "string \<Rightarrow> string \<Rightarrow> (string \<times> string) list \<Rightarrow> (string \<times> string) list res" where
  "log_subscribe c p s = Inr (s @ [(c, p)])"

definition log_unsubscribe :: "string \<Rightarrow> string \<Rightarrow> (string \<times> string) list \<Rightarrow> (string \<times> string) list res" where
  "log_unsubscribe c p s = Inr (removeAll (c, p) s)"

definition sample_endpoints :: "string \<rightharpoonup> Endpoint" where
  "sample_endpoints = [''ETH-USD'' \<mapsto>
     \<lparr>address = ''127.0.0.1'', orderbookPort = ''83000'', tradePort = ''93000''\<rparr>]"

definition sample_request :: "string \<Rightarrow> (string \<times> string) list \<Rightarrow> jdoc" where
  "sample_request kind kvs = JObj ((''type'', JStr kind) # map (\<lambda>(k, v). (k, JStr v)) kvs)"

definition sample_service_lib :: "jdoc json_lib" where
  "sample_service_lib = ref_json
     [''id'' \<mapsto> sample_request ''client_id_request'' [],
      ''sub'' \<mapsto> sample_request ''subscribe_request'' [(''client_id'', ''c1''), (''product_id'', ''ETH-USD'')],
      ''unsub'' \<mapsto> sample_request ''unsubscribe_request'' [(''client_id'', ''c1''), (''product_id'', ''ETH-USD'')],
      ''no client'' \<mapsto> sample_request ''subscribe_request'' [(''product_id'', ''ETH-USD'')],
      ''beat'' \<mapsto> sample_request ''heartbeat'' []]"

definition sample_service :: "(string \<times> string) list ClientService" where
  "sample_service = \<lparr>m_registeredClientIds = {''c1''}, m_productSubscriber = []\<rparr>"

lemmas service_defs = sample_service_lib_def sample_request_def sample_service_def sample_endpoints_def
  handle_request_def dispatch_def handle_subscribe_def handle_unsubscribe_def handle_heartbeat_def
  handle_client_id_def check_ids_def contains_def str_ref_def endpoints_document_def prodIdToPort_def
  log_subscribe_def log_unsubscribe_def Let_def

text \<open>
  C33: Replies. A round that ends without an exception sends one message, except for a subscription
  request that names no client or no product: then it sends nothing and changes nothing, and the
  reply socket is left with a request that is never answered.
\<close>

theorem one_reply_unless_malformed:
  assumes "json_lookup J"
    and "handle_request J productIds subscribe unsubscribe draws data cs = Inr (sent, cs')"
  shows "length sent =
      (if \<exists>jmsg. js_parse J data = Some jmsg \<and> kind_is J jmsg ''subscribe_request'' \<and>
           (\<not> js_contains J jmsg ''client_id'' \<or> \<not> js_contains J jmsg ''product_id'')
       then 0 else 1) \<and> (sent = [] \<longrightarrow> cs' = cs)"
proof -
  let ?bad = "\<exists>jmsg. js_parse J data = Some jmsg \<and> kind_is J jmsg ''subscribe_request'' \<and>
    (\<not> js_contains J jmsg ''client_id'' \<or> \<not> js_contains J jmsg ''product_id'')"
  have bad: "sent = []" if ?bad
  proof -
    from that obtain jmsg where j: "js_parse J data = Some jmsg" "kind_is J jmsg ''subscribe_request''"
      "\<not> js_contains J jmsg ''client_id'' \<or> \<not> js_contains J jmsg ''product_id''" by blast
    then have t: "js_contains J jmsg ''type''" by (simp add: kind_is_def)
    have "dispatch J productIds subscribe unsubscribe draws jmsg cs = Inr ([], cs)"
      using j(3) by (auto simp: dispatch_kinds [OF assms(1) t] kind_is_unique [OF j(2)] handle_subscribe_def)
    with assms(2) j(1) show ?thesis by (simp add: handle_request_def)
  qed
  have good: "length sent = 1" if "\<not> ?bad"
    using assms
  proof (cases rule: handle_request_cases)
    case (silent jmsg)
    with that show ?thesis by blast
  qed simp_all
  have "sent = [] \<longrightarrow> cs' = cs"
    using assms by (cases rule: handle_request_cases) simp_all
  moreover have "length sent = (if ?bad then 0 else 1)"
  proof (cases ?bad)
    case True
    then show ?thesis unfolding if_P [OF True] using bad by simp
  next
    case False
    then show ?thesis unfolding if_not_P [OF False] by (rule good)
  qed
  ultimately show ?thesis by blast
qed

theorem one_reply_unless_malformed_witness:
  "handle_request sample_service_lib sample_endpoints log_subscribe log_unsubscribe [] ''no client'' sample_service =
     Inr ([], sample_service) \<and>
   length ([] :: string list) = (if \<exists>jmsg. js_parse sample_service_lib ''no client'' = Some jmsg \<and>
       kind_is sample_service_lib jmsg ''subscribe_request'' \<and>
       (\<not> js_contains sample_service_lib jmsg ''client_id'' \<or>
        \<not> js_contains sample_service_lib jmsg ''product_id'') then 0 else 1)"
proof -
  have run: "handle_request sample_service_lib sample_endpoints log_subscribe log_unsubscribe [] ''no client''
      sample_service = Inr ([], sample_service)"
    by (simp add: service_defs)
  have "json_lookup sample_service_lib" by (simp add: sample_service_lib_def ref_json_lookup)
  from one_reply_unless_malformed [OF this run] run show ?thesis by blast
qed



text \<open>
  Which ids are registered. Over any run of the service the registered ids are those registered
  before and ids that were generated in it; no request registers an id of the client's choice, and
  none is ever removed.
\<close>

theorem registered_ids_generated:
  assumes "json_lookup J"
    and "runImpl J productIds subscribe unsubscribe reqs cs = Inr (sents, cs')"
  shows "m_registeredClientIds cs \<subseteq> m_registeredClientIds cs' \<and>
    m_registeredClientIds cs' \<subseteq> m_registeredClientIds cs \<union> (generate_uuid \<circ> fst) ` set reqs"
  using assms(2)
proof (induction reqs arbitrary: cs sents)
  case (Cons r reqs)
  obtain draws data where r: "r = (draws, data)" by (cases r)
  from Cons.prems obtain sent cs1 sents' where
    one: "handle_request J productIds subscribe unsubscribe draws data cs = Inr (sent, cs1)" and
    rest: "runImpl J productIds subscribe unsubscribe reqs cs1 = Inr (sents', cs')"
    unfolding r by (auto simp: bindE_eq_Inr)
  from assms(1) one have "m_registeredClientIds cs1 = m_registeredClientIds cs \<or>
      m_registeredClientIds cs1 = insert (generate_uuid draws) (m_registeredClientIds cs)"
    by (cases rule: handle_request_cases) auto
  with Cons.IH [OF rest] show ?case by (auto simp: r)
qed simp

theorem registered_ids_generated_witness:
  "\<exists>sents cs'. runImpl sample_service_lib sample_endpoints log_subscribe log_unsubscribe
      [(sample_draws, ''id''), ([], ''sub''), ([], ''unsub''), ([], ''what'')] sample_service = Inr (sents, cs') \<and>
    m_registeredClientIds cs' \<subseteq>
      {''c1''} \<union> generate_uuid ` {sample_draws, []}"
proof -
  have "\<exists>sents cs'. runImpl sample_service_lib sample_endpoints log_subscribe log_unsubscribe
      [(sample_draws, ''id''), ([], ''sub''), ([], ''unsub''), ([], ''what'')] sample_service = Inr (sents, cs')"
    by (simp add: service_defs)
  then obtain sents cs' where run: "runImpl sample_service_lib sample_endpoints log_subscribe log_unsubscribe
      [(sample_draws, ''id''), ([], ''sub''), ([], ''unsub''), ([], ''what'')] sample_service = Inr (sents, cs')"
    by blast
  have "json_lookup sample_service_lib" by (simp add: sample_service_lib_def ref_json_lookup)
  from registered_ids_generated [OF this run] run show ?thesis by (auto simp: sample_service_def)
qed

text \<open>
  C35: Two kinds of requests end the service. An unsubscription request without a client or a product
  and a heartbeat without a client note the error, but then read the missing field as a string: the
  \<open>type_error\<close> is not a \<open>parse_error\<close>, and nothing catches it.
\<close>

theorem malformed_request_ends_service:
  assumes "json_lookup J" and "js_parse J data = Some jmsg"
    and "kind_is J jmsg ''unsubscribe_request'' \<and> \<not> js_contains J jmsg ''client_id'' \<or>
      kind_is J jmsg ''unsubscribe_request'' \<and> str_ref J jmsg ''client_id'' = Inr c \<and>
        \<not> js_contains J jmsg ''product_id'' \<or>
      kind_is J jmsg ''heartbeat'' \<and> \<not> js_contains J jmsg ''client_id''"
  shows "runImpl J productIds subscribe unsubscribe ((draws, data) # reqs) cs = Inl Type_Error"
proof -
  have t: "js_contains J jmsg ''type''" using assms(3) by (auto simp: kind_is_def)
  from assms(3) show ?thesis
    by (auto simp: handle_request_def assms(2) dispatch_kinds [OF assms(1) t] kind_is_unique
        handle_unsubscribe_def handle_heartbeat_def str_ref_missing [OF assms(1)])
qed

theorem malformed_request_ends_service_witness:
  "runImpl sample_service_lib sample_endpoints log_subscribe log_unsubscribe
     [(sample_draws, ''beat''), (sample_draws, ''id'')] sample_service = Inl Type_Error"
  by (rule malformed_request_ends_service [where jmsg = "sample_request ''heartbeat'' []" and c = "''''"])
    (simp_all add: service_defs ref_json_lookup kind_is_def)

end
