(* ===== verification/Server_System.thy ===== *)
theory Server_System
  imports Market_Core Client_Service
begin

section \<open>The server\<close>

text \<open>
  What \<open>main\<close> of \<open>server.cpp\<close> puts together: a market over the Coinbase feed client, with ZMQ
  publishers made by \<open>ProductChangePublisherFactoryZMQ\<close> and \<open>TradePublisher\<close>, as the trade listener of
  the feed client, the listener of its products, and the subscriber of the client service. The threads
  of the running server are the steps of \<open>server_step\<close>. The environment of the server (JSON library,
  \<open>std::stod\<close>, the bound on the recursion of the message handler, which URIs connect, the table of
  endpoints, protobuf serialisation and the conversion to \<open>float\<close>) is the record \<open>server_env\<close>.
\<close>

record ('j, 'f, 'g) server_env =
  env_json :: "'j json_lib"
  env_stod :: "string \<Rightarrow> stod_exn + 'f"
  env_depth :: nat
  env_conn_ok :: "string \<Rightarrow> bool"
  env_endpoints :: "string \<rightharpoonup> Endpoint"
  env_ser :: "'g qsMessage \<Rightarrow> string"
  env_float :: "'f \<Rightarrow> 'g"

type_synonym ('j, 'f) server_market =
  "('f, ProductChangePublisherZMQ, 'j CoinbaseFeedClient, ZMQPublisher) Market"

definition server_ops :: "('j, 'f, 'g) server_env \<Rightarrow>
    ('f, ProductChangePublisherZMQ, 'j CoinbaseFeedClient, ZMQPublisher) market_ops" where
  "server_ops E =
     \<lparr>op_createPublisher = new_ProductChangePublisherZMQ (env_endpoints E),
      op_publish = ProductChangePublisherZMQ_publish (env_ser E) (env_float E),
      op_feed_subscribe = feed_subscribe (env_json E) (env_conn_ok E),
      op_feed_unsubscribe = feed_unsubscribe (env_json E),
      op_newTradePublisher = new_TradePublisher (env_endpoints E),
      op_publishTrade = TradePublisher_publish (env_ser E) (env_float E)\<rparr>"

lemma server_ops_simps [simp]:
  "op_createPublisher (server_ops E) = new_ProductChangePublisherZMQ (env_endpoints E)"
  "op_publish (server_ops E) = ProductChangePublisherZMQ_publish (env_ser E) (env_float E)"
  "op_feed_subscribe (server_ops E) = feed_subscribe (env_json E) (env_conn_ok E)"
  "op_feed_unsubscribe (server_ops E) = feed_unsubscribe (env_json E)"
  "op_newTradePublisher (server_ops E) = new_TradePublisher (env_endpoints E)"
  "op_publishTrade (server_ops E) = TradePublisher_publish (env_ser E) (env_float E)"
  by (simp_all add: server_ops_def)

interpretation server: market_feed "server_ops E" listening_ids for E
  by unfold_locales (simp_all add: listening_ids_subscribe listening_ids_unsubscribe)

text \<open>\<open>main\<close>: the feed client gets the market as its trade listener.\<close>

definition new_server_market :: "('j, 'f) server_market" where
  "new_server_market = new_Market (setTradeListener new_CoinbaseFeedClient)"

text \<open>\<open>main\<close>: the options of the command line, and the address and the service it starts.\<close>

record server_options =
  sopt_help :: bool
  sopt_bind_address :: "string option"

definition server_main :: "server_options \<Rightarrow> int + string \<times> ('j, 'f) server_market ClientService" where
  "server_main vm =
     (if sopt_help vm then Inl 0
      else case sopt_bind_address vm of
        None \<Rightarrow> Inl 1
      | Some bindAddress \<Rightarrow> Inr (''tcp://'' @ bindAddress, new_ClientService new_server_market))"

subsection \<open>The threads of the server\<close>

text \<open>
  The state: the market (with the feed client and its products inside) and, for each product, the
  messages its message loop took and has not handled yet. The other fields are a history that no
  code reads: the messages taken since the feed product was created, every change ever delivered to
  the market, the changes applied to the present book, and those that went to an earlier book of
  the product or came when there was none.
\<close>

record ('j, 'f) Server =
  sv_market :: "('j, 'f) server_market"
  sv_taken :: "string \<Rightarrow> 'j list"
  h_out :: "string \<Rightarrow> 'j list"
  h_delivered :: "string \<Rightarrow> 'f product_change list"
  h_applied :: "string \<Rightarrow> 'f product_change list"
  h_gone :: "string \<Rightarrow> 'f product_change list"

definition new_Server :: "('j, 'f) Server" where
  "new_Server = \<lparr>sv_market = new_server_market, sv_taken = (\<lambda>_. []), h_out = (\<lambda>_. []),
     h_delivered = (\<lambda>_. []), h_applied = (\<lambda>_. []), h_gone = (\<lambda>_. [])\<rparr>"

definition feed_listener :: "string \<Rightarrow> ('j, 'f) Server \<Rightarrow> 'j feed_product option" where
  "feed_listener p sv = m_prodIdToListener (m_feedClient (sv_market sv)) p"

definition set_listener :: "string \<Rightarrow> 'j feed_product \<Rightarrow> ('j, 'f) Server \<Rightarrow> ('j, 'f) Server" where
  "set_listener p s sv =
     (let m = sv_market sv; c = m_feedClient m
      in sv\<lparr>sv_market := m\<lparr>m_feedClient :=
              c\<lparr>m_prodIdToListener := (m_prodIdToListener c)(p \<mapsto> s)\<rparr>\<rparr>\<rparr>)"

datatype ('j, 'f) server_event =
    Web string  \<comment> \<open>the web socket delivers a text\<close>
  | Book string string  \<comment> \<open>a product's order book request returns a text\<close>
  | Take_Messages string  \<comment> \<open>a product's message loop takes its queue\<close>
  | Handle_Message string  \<comment> \<open>the loop handles the next of these\<close>
  | Take_Changes "(string \<times> 'f product_change) list"  \<comment> \<open>the market's handler thread takes the batch\<close>
  | Process_Changes  \<comment> \<open>and works it off\<close>
  | Subscribe string string  \<comment> \<open>the client service, for a client and a product\<close>
  | Unsubscribe string string

text \<open>
  \<open>unsubscribe\<close> destroys the feed product, whose destructor joins its two threads: the request thread
  has ended then and the loop has handled what it took.
\<close>

definition joined :: "string \<Rightarrow> ('j, 'f) Server \<Rightarrow> bool" where
  "joined p sv \<longleftrightarrow> sv_taken sv p = [] \<and>
     (case feed_listener p sv of None \<Rightarrow> True | Some s \<Rightarrow> m_requestThread s = Ended)"

inductive server_step :: "('j, 'f::minus, 'g) server_env \<Rightarrow> ('j, 'f) Server \<Rightarrow> ('j, 'f) server_event \<Rightarrow>
    ('j, 'f) Server \<Rightarrow> bool" for E where
  web: "feed_onMessageReceived (env_json E) (env_stod E) (Market_onTrade (server_ops E)) payload
      (m_feedClient (sv_market sv), sv_market sv) = Inr (c, m) \<Longrightarrow>
    server_step E sv (Web payload) (sv\<lparr>sv_market := m\<lparr>m_feedClient := c\<rparr>\<rparr>)"
| book: "feed_listener p sv = Some s \<Longrightarrow> m_requestThread s = Running \<Longrightarrow>
    requestFullOrderBookImpl (env_json E) payload s = Inr s' \<Longrightarrow>
    server_step E sv (Book p payload) (set_listener p s' sv)"
| take_messages: "feed_listener p sv = Some s \<Longrightarrow> sv_taken sv p = [] \<Longrightarrow>
    messageLoop_take s = (ms, s') \<Longrightarrow>
    server_step E sv (Take_Messages p) ((set_listener p s' sv)
      \<lparr>sv_taken := (sv_taken sv)(p := ms), h_out := (h_out sv)(p := h_out sv p @ ms)\<rparr>)"
| handle: "sv_taken sv p = message # rest \<Longrightarrow>
    handler_onMessageReceived (env_depth E) (env_json E) (env_stod E) Market_onProductChange p message
      (sv_market sv) = Inr m \<Longrightarrow>
    getProductChange (env_depth E) (env_json E) (env_stod E) p message = Inr pc \<Longrightarrow>
    server_step E sv (Handle_Message p) (sv\<lparr>sv_market := m, sv_taken := (sv_taken sv)(p := rest),
      h_delivered := (h_delivered sv)(p := h_delivered sv p @ keep_some [pc])\<rparr>)"
| take_changes: "currentChanges (sv_market sv) = [] \<Longrightarrow>
    multimap_order (productChanges (sv_market sv)) it \<Longrightarrow>
    server_step E sv (Take_Changes it) (sv\<lparr>sv_market := takeChanges it (sv_market sv)\<rparr>)"
| process: "server_step E sv Process_Changes
    (sv\<lparr>sv_market := processProductChanges (server_ops E) (sv_market sv),
        h_applied := (\<lambda>q. h_applied sv q @
          (if m_products (sv_market sv) q = None then [] else changes_of q (currentChanges (sv_market sv)))),
        h_gone := (\<lambda>q. h_gone sv q @
          (if m_products (sv_market sv) q = None then changes_of q (currentChanges (sv_market sv)) else []))\<rparr>)"
| subscribe_new: "Market_subscribe (server_ops E) c p (sv_market sv) = Inr m \<Longrightarrow>
    m_products (sv_market sv) p = None \<Longrightarrow>
    server_step E sv (Subscribe c p)
      (sv\<lparr>sv_market := m, sv_taken := (sv_taken sv)(p := []), h_out := (h_out sv)(p := [])\<rparr>)"
| subscribe_old: "Market_subscribe (server_ops E) c p (sv_market sv) = Inr m \<Longrightarrow>
    m_products (sv_market sv) p \<noteq> None \<Longrightarrow>
    server_step E sv (Subscribe c p) (sv\<lparr>sv_market := m\<rparr>)"
| unsubscribe: "joined p sv \<Longrightarrow> Market_unsubscribe (server_ops E) c p (sv_market sv) = Inr m \<Longrightarrow>
    server_step E sv (Unsubscribe c p) (sv\<lparr>sv_market := m,
      h_gone := (h_gone sv)(p := h_gone sv p @ (if m_products m p = None then h_applied sv p else [])),
      h_applied := (h_applied sv)(p := (if m_products m p = None then [] else h_applied sv p))\<rparr>)"

inductive server_run :: "('j, 'f::minus, 'g) server_env \<Rightarrow> ('j, 'f) server_event list \<Rightarrow>
    ('j, 'f) Server \<Rightarrow> bool" for E where
  start: "server_run E [] new_Server"
| step: "server_run E evs sv \<Longrightarrow> server_step E sv ev sv' \<Longrightarrow> server_run E (evs @ [ev]) sv'"

subsection \<open>The server is a market in the sense of \<open>market_step\<close>\<close>

lemma feed_message_cases:
  assumes "feed_onMessageReceived J stod onTrade payload (c, l) = Inr (c', l')"
  shows "(c' = c \<or> (\<exists>jmsg. js_parse J payload = Some jmsg \<and> route_message J jmsg c = Inr c')) \<and>
    (l' = l \<or> (\<exists>t. onTrade t l = Inr l'))"
proof (cases "js_parse J payload")
  case None
  with assms show ?thesis by (simp add: feed_onMessageReceived_def)
next
  case (Some jmsg)
  show ?thesis
  proof (cases "js_contains J jmsg ''type''")
    case False
    with assms Some show ?thesis by (simp add: feed_onMessageReceived_def)
  next
    case True
    with assms Some show ?thesis
      by (auto simp: feed_onMessageReceived_def bindE_eq_Inr split: if_splits)
  qed
qed

lemma feed_message_listening:
  "feed_onMessageReceived J stod onTrade payload (c, l) = Inr (c', l') \<Longrightarrow> listening_ids c' = listening_ids c"
  using feed_message_cases [of J stod onTrade payload c l c' l'] by (auto dest: route_frame)

lemma onTrade_frame:
  assumes "Market_onTrade ops t m = Inr m'"
  shows "m_feedClient m' = m_feedClient m \<and> m_products m' = m_products m \<and>
    productChanges m' = productChanges m \<and> currentChanges m' = currentChanges m"
  using assms by (cases rule: onTrade_cases) simp_all

lemma set_listener_market:
  "sv_market (set_listener p s sv) = (sv_market sv)\<lparr>m_feedClient :=
     (m_feedClient (sv_market sv))\<lparr>m_prodIdToListener :=
        (m_prodIdToListener (m_feedClient (sv_market sv)))(p \<mapsto> s)\<rparr>\<rparr>"
  by (simp add: set_listener_def Let_def)

lemma set_listener_run:
  assumes "feed_listener p sv = Some s0"
  shows "market_run ops listening_ids (sv_market sv) (sv_market (set_listener p s sv))"
proof -
  have "market_step ops listening_ids (sv_market sv) (sv_market (set_listener p s sv))"
    unfolding set_listener_market
    by (rule market_step.feed) (use assms in \<open>auto simp: feed_listener_def listening_ids_def\<close>)
  then show ?thesis unfolding market_run_def by blast
qed

lemma market_run_trans [trans]:
  "market_run ops l a b \<Longrightarrow> market_run ops l b c \<Longrightarrow> market_run ops l a c"
  by (simp add: market_run_def)

lemma market_run_step: "market_step ops l a b \<Longrightarrow> market_run ops l a b"
  by (auto simp: market_run_def)

lemma market_run_refl [simp]: "market_run ops l a a"
  by (simp add: market_run_def)

lemma handler_run:
  assumes "handler_onMessageReceived d J stod Market_onProductChange p message m = Inr m'"
  shows "market_run ops l m m'"
  using assms by (auto simp: handler_onMessageReceived_def bindE_eq_Inr split: option.splits
      intro: market_run_step market_step.change)

lemma server_step_market:
  assumes "server_step E sv ev sv'"
  shows "market_run (server_ops E) listening_ids (sv_market sv) (sv_market sv')"
  using assms
proof (cases rule: server_step.cases)
  case (web payload c m)
  from web(3) have "m = sv_market sv \<or> (\<exists>t. Market_onTrade (server_ops E) t (sv_market sv) = Inr m)"
    by (rule feed_message_cases [THEN conjunct2])
  then have "market_run (server_ops E) listening_ids (sv_market sv) m \<and>
      m_feedClient m = m_feedClient (sv_market sv)"
  proof
    assume "\<exists>t. Market_onTrade (server_ops E) t (sv_market sv) = Inr m"
    then obtain t where "Market_onTrade (server_ops E) t (sv_market sv) = Inr m" by blast
    then show ?thesis using onTrade_frame market_step.trade market_run_step by metis
  qed simp
  then have "market_run (server_ops E) listening_ids (sv_market sv) m"
    and f: "m_feedClient m = m_feedClient (sv_market sv)" by simp_all
  note this(1)
  also have "market_run (server_ops E) listening_ids m (m\<lparr>m_feedClient := c\<rparr>)"
    by (intro market_run_step market_step.feed) (simp add: f feed_message_listening [OF web(3)])
  finally show ?thesis by (simp add: web)
next
  case (book p s payload s')
  then show ?thesis by (simp add: set_listener_run)
next
  case (take_messages p s ms s')
  then show ?thesis by (simp add: set_listener_run)
next
  case (handle p message rest m pc)
  then show ?thesis by (simp add: handler_run)
qed (auto intro: market_run_step market_step.intros)

lemma server_run_market:
  "server_run E evs sv \<Longrightarrow> market_run (server_ops E) listening_ids new_server_market (sv_market sv)"
  by (induction rule: server_run.induct)
    (auto simp: new_Server_def intro: market_run_trans server_step_market)

lemma server_market_inv:
  assumes "server_run E evs sv"
  shows "market_inv listening_ids (sv_market sv)"
proof (rule server.market_run_inv [OF server_run_market [OF assms]])
  show "market_inv listening_ids new_server_market"
    unfolding new_server_market_def
    by (rule server.market_inv_new)
      (simp add: listening_ids_def setTradeListener_def new_CoinbaseFeedClient_def)
qed

subsection \<open>From a delivered change to the published book\<close>

text \<open>What is known of a product's publisher, after the changes \<open>cs\<close> were applied to its book.\<close>

definition publisher_ok :: "('j, 'f, 'g) server_env \<Rightarrow> string \<Rightarrow> 'f product_change list \<Rightarrow>
    ('f, ProductChangePublisherZMQ) Product \<Rightarrow> bool" where
  "publisher_ok E p cs pr \<longleftrightarrow>
     pub_productId (m_publisher pr) = p \<and>
     (\<exists>e. env_endpoints E p = Some e \<and>
        bind_addr (pub_socket (m_publisher pr)) = ''tcp://'' @ orderbook_address e) \<and>
     (if cs = [] then m_sent (pub_socket (m_publisher pr)) = []
      else m_sent (pub_socket (m_publisher pr)) \<noteq> [] \<and>
        last (m_sent (pub_socket (m_publisher pr))) =
          env_ser E (orderbook_message (env_float E) p (m_orderBook pr)))"

definition balanced :: "('j, 'f) Server \<Rightarrow> string \<Rightarrow> bool" where
  "balanced sv p \<longleftrightarrow>
     mset (h_delivered sv p) = mset (h_gone sv p) + mset (h_applied sv p) +
       mset (changes_of p (productChanges (sv_market sv))) +
       mset (changes_of p (currentChanges (sv_market sv)))"

definition booked :: "('j, 'f::minus, 'g) server_env \<Rightarrow> string \<Rightarrow> 'f product_change list \<Rightarrow>
    ('f, ProductChangePublisherZMQ) Product option \<Rightarrow> bool" where
  "booked E p cs product =
     (case product of None \<Rightarrow> cs = []
      | Some pr \<Rightarrow> m_orderBook pr = apply_changes cs empty_book \<and> publisher_ok E p cs pr)"

definition trade_bound :: "('j, 'f, 'g) server_env \<Rightarrow> string \<Rightarrow> ZMQPublisher option \<Rightarrow> bool" where
  "trade_bound E p publisher =
     (case publisher of None \<Rightarrow> True
      | Some tp \<Rightarrow> \<exists>e. env_endpoints E p = Some e \<and> bind_addr tp = ''tcp://'' @ trade_address e)"

definition product_inv :: "('j, 'f::minus, 'g) server_env \<Rightarrow> ('j, 'f) Server \<Rightarrow> string \<Rightarrow> bool" where
  "product_inv E sv p \<longleftrightarrow> balanced sv p \<and>
     booked E p (h_applied sv p) (m_products (sv_market sv) p) \<and>
     trade_bound E p (m_trade_publishers (sv_market sv) p)"

lemma trade_bound_cong:
  "trade_bound E p t \<Longrightarrow> map_option bind_addr t' = map_option bind_addr t \<Longrightarrow> trade_bound E p t'"
  by (auto simp: trade_bound_def split: option.splits)

lemma changes_of_append [simp]: "changes_of p (xs @ ys) = changes_of p xs @ changes_of p ys"
  by (simp add: changes_of_def)

lemma changes_of_single [simp]: "changes_of p [(q, c)] = (if q = p then [c] else [])"
  by (simp add: changes_of_def)

lemma changes_of_Nil [simp]: "changes_of p [] = []"
  by (simp add: changes_of_def)

lemma apply_changes_append: "apply_changes (xs @ ys) ob = apply_changes ys (apply_changes xs ob)"
  by (simp add: apply_changes_def)

lemma publisher_ok_batch:
  assumes "publisher_ok E p cs pr" and "pcs \<noteq> []"
  shows "publisher_ok E p (cs @ pcs)
    (onProductChanges (ProductChangePublisherZMQ_publish (env_ser E) (env_float E)) pcs pr)"
  using assms by (simp add: publisher_ok_def onProductChanges_eq ProductChangePublisherZMQ_publish_def
      zmq_publish_def)

lemma publisher_ok_new:
  assumes "new_ProductChangePublisherZMQ (env_endpoints E) p = Inr pub"
  shows "publisher_ok E p [] (new_Product p pub)"
  using assms by (auto simp: publisher_ok_def new_ProductChangePublisherZMQ_def bindE_eq_Inr
      prodIdToPort_def new_Product_def new_ZMQPublisher_def orderbook_address_def split: option.splits)

lemma trade_publisher_new:
  assumes "new_TradePublisher (env_endpoints E) p = Inr tp"
  shows "\<exists>e. env_endpoints E p = Some e \<and> bind_addr tp = ''tcp://'' @ trade_address e"
  using assms by (auto simp: new_TradePublisher_def bindE_eq_Inr prodIdToPort_def new_ZMQPublisher_def
      trade_address_def split: option.splits)

lemma TradePublisher_publish_addr:
  "TradePublisher_publish ser f t tp = Inr tp' \<Longrightarrow> bind_addr tp' = bind_addr tp"
  by (auto simp: TradePublisher_publish_def zmq_publish_def bindE_eq_Inr)

text \<open>What does not touch the products, the changes and the addresses keeps the invariant.\<close>

lemma product_inv_frame:
  assumes "product_inv E sv p"
    and "m_products (sv_market sv') p = m_products (sv_market sv) p"
    and "changes_of p (productChanges (sv_market sv')) = changes_of p (productChanges (sv_market sv))"
    and "changes_of p (currentChanges (sv_market sv')) = changes_of p (currentChanges (sv_market sv))"
    and "map_option bind_addr (m_trade_publishers (sv_market sv') p) =
      map_option bind_addr (m_trade_publishers (sv_market sv) p)"
    and "h_delivered sv' p = h_delivered sv p" and "h_applied sv' p = h_applied sv p"
    and "h_gone sv' p = h_gone sv p"
  shows "product_inv E sv' p"
proof -
  have "trade_bound E p (m_trade_publishers (sv_market sv') p)"
    by (rule trade_bound_cong [OF _ assms(5)]) (use assms(1) in \<open>simp add: product_inv_def\<close>)
  with assms(1-4,6-8) show ?thesis by (simp add: product_inv_def balanced_def)
qed

lemma onTrade_addr:
  assumes "Market_onTrade (server_ops E) t m = Inr m'"
  shows "map_option bind_addr (m_trade_publishers m' p) = map_option bind_addr (m_trade_publishers m p)"
  using assms by (auto simp: Market_onTrade_def bindE_eq_Inr split: option.splits
      dest: TradePublisher_publish_addr)

lemma feed_message_market:
  assumes "feed_onMessageReceived J stod (Market_onTrade (server_ops E)) payload
      (m_feedClient m, m) = Inr (c, m')"
  shows "m_products m' = m_products m \<and> productChanges m' = productChanges m \<and>
    currentChanges m' = currentChanges m \<and> m_feedClient m' = m_feedClient m \<and>
    map_option bind_addr (m_trade_publishers m' p) = map_option bind_addr (m_trade_publishers m p)"
proof -
  from feed_message_cases [OF assms] consider "m' = m"
    | t where "Market_onTrade (server_ops E) t m = Inr m'" by blast
  then show ?thesis
    by cases (simp_all add: onTrade_frame onTrade_addr)
qed

lemma product_inv_process:
  assumes "product_inv E sv p" and "grouped (map fst (currentChanges (sv_market sv)))"
    and "sv' = sv\<lparr>sv_market := processProductChanges (server_ops E) (sv_market sv),
        h_applied := (\<lambda>q. h_applied sv q @
          (if m_products (sv_market sv) q = None then [] else changes_of q (currentChanges (sv_market sv)))),
        h_gone := (\<lambda>q. h_gone sv q @
          (if m_products (sv_market sv) q = None then changes_of q (currentChanges (sv_market sv)) else []))\<rparr>"
  shows "product_inv E sv' p"
proof -
  let ?m = "sv_market sv" let ?cs = "changes_of p (currentChanges (sv_market sv))"
  have products: "m_products (sv_market sv') p = map_option (onProductChanges
      (ProductChangePublisherZMQ_publish (env_ser E) (env_float E)) ?cs) (m_products ?m p)"
    using assms(2) by (simp add: assms(3) processProductChanges_def processChanges_products)
  have frame: "productChanges (sv_market sv') = productChanges ?m" "currentChanges (sv_market sv') = []"
    "m_trade_publishers (sv_market sv') = m_trade_publishers ?m"
    by (simp_all add: assms(3) processProductChanges_def processChanges_frame)
  have history: "h_delivered sv' p = h_delivered sv p"
    "h_applied sv' p = h_applied sv p @ (if m_products ?m p = None then [] else ?cs)"
    "h_gone sv' p = h_gone sv p @ (if m_products ?m p = None then ?cs else [])"
    by (simp_all add: assms(3))
  have "balanced sv' p"
    using assms(1) frame history by (simp add: product_inv_def balanced_def)
  moreover have "booked E p (h_applied sv' p) (m_products (sv_market sv') p)"
  proof (cases "m_products ?m p")
    case None
    then show ?thesis using assms(1) by (simp add: products product_inv_def booked_def history)
  next
    case (Some pr)
    with assms(1) have b: "m_orderBook pr = apply_changes (h_applied sv p) empty_book"
      "publisher_ok E p (h_applied sv p) pr"
      by (simp_all add: product_inv_def booked_def)
    show ?thesis
    proof (cases "?cs = []")
      case True
      with Some b products show ?thesis by (simp add: booked_def history)
    next
      case False
      from publisher_ok_batch [OF b(2) this] False show ?thesis
        unfolding products history by (simp add: booked_def Some onProductChanges_eq b(1) apply_changes_append)
    qed
  qed
  ultimately show ?thesis using assms(1) by (simp add: product_inv_def frame)
qed

lemma product_inv_handle:
  assumes "product_inv E sv p"
    and "handler_onMessageReceived d J stod Market_onProductChange q message (sv_market sv) = Inr m"
    and "getProductChange d J stod q message = Inr pc"
  shows "product_inv E (sv\<lparr>sv_market := m, sv_taken := tk,
    h_delivered := (h_delivered sv)(q := h_delivered sv q @ keep_some [pc])\<rparr>) p"
proof (cases pc)
  case None
  with assms(2,3) have "m = sv_market sv" by (simp add: handler_onMessageReceived_def)
  with None show ?thesis by (intro product_inv_frame [OF assms(1)]) simp_all
next
  case (Some c)
  with assms(2,3) have m: "m = Market_onProductChange c (sv_market sv)"
    by (simp add: handler_onMessageReceived_def)
  have id: "getProductId c = q"
    using getProductChange_stamp [OF assms(3) [unfolded Some]] by (simp add: all_of_product_id)
  show ?thesis
  proof (cases "q = p")
    case False
    with m id show ?thesis
      by (intro product_inv_frame [OF assms(1)]) (simp_all add: Market_onProductChange_def)
  next
    case True
    with assms(1) m id Some show ?thesis
      by (simp add: product_inv_def balanced_def Market_onProductChange_def)
  qed
qed

lemma product_inv_subscribe_new:
  assumes "product_inv E sv p" and "market_inv listening_ids (sv_market sv)"
    and "Market_subscribe (server_ops E) c q (sv_market sv) = Inr m"
  shows "product_inv E (sv\<lparr>sv_market := m, sv_taken := tk, h_out := ho\<rparr>) p"
proof -
  note tables = market_inv_tables [OF assms(2), of q]
  from assms(3) tables show ?thesis
  proof (cases rule: subscribe_cases)
    case (1 cl)
    then show ?thesis by (intro product_inv_frame [OF assms(1)]) simp_all
  next
    case (2 cl pub fc tp)
    show ?thesis
    proof (cases "q = p")
      case False
      with 2(5) show ?thesis by (intro product_inv_frame [OF assms(1)]) simp_all
    next
      case True
      have "publisher_ok E p [] (new_Product p pub)" and "trade_bound E p (Some tp)"
        using publisher_ok_new [of E q pub] trade_publisher_new [of E q tp] 2(2,4)
        by (simp_all add: True trade_bound_def)
      with 2(1,5) assms(1) show ?thesis
        by (simp add: product_inv_def balanced_def booked_def True new_Product_def)
    qed
  qed
qed

lemma product_inv_unsubscribe:
  assumes "product_inv E sv p" and "market_inv listening_ids (sv_market sv)"
    and "Market_unsubscribe (server_ops E) c q (sv_market sv) = Inr m"
  shows "m_products m q = None" and "product_inv E (sv\<lparr>sv_market := m,
      h_gone := (h_gone sv)(q := h_gone sv q @ h_applied sv q),
      h_applied := (h_applied sv)(q := [])\<rparr>) p"
proof -
  have "clean (m_products (sv_market sv))" using assms(2) by (simp add: market_inv_def)
  from assms(3) [unfolded unsubscribe_clean [OF this]] obtain fc where
    m: "m = (sv_market sv)\<lparr>m_feedClient := fc, m_products := (m_products (sv_market sv))(q := None),
      m_trade_publishers := (m_trade_publishers (sv_market sv))(q := None)\<rparr>"
    by (auto simp: bindE_eq_Inr split: if_splits)
  then show "m_products m q = None" by simp
  show "product_inv E (sv\<lparr>sv_market := m,
      h_gone := (h_gone sv)(q := h_gone sv q @ h_applied sv q),
      h_applied := (h_applied sv)(q := [])\<rparr>) p"
  proof (cases "q = p")
    case False
    with m show ?thesis by (intro product_inv_frame [OF assms(1)]) simp_all
  next
    case True
    with m assms(1) show ?thesis
      by (simp add: product_inv_def balanced_def booked_def trade_bound_def)
  qed
qed

text \<open>The batch the handler thread works on is grouped by product.\<close>

lemma server_step_grouped:
  assumes "server_step E sv ev sv'" and "market_inv listening_ids (sv_market sv)"
    and "grouped (map fst (currentChanges (sv_market sv)))"
  shows "grouped (map fst (currentChanges (sv_market sv')))"
  using assms(1)
proof (cases rule: server_step.cases)
  case (web payload c m)
  from feed_message_market [OF web(3)] web(2) assms(3) show ?thesis by simp
next
  case (handle p message rest m pc)
  then have "currentChanges m = currentChanges (sv_market sv)"
    by (auto simp: handler_onMessageReceived_def Market_onProductChange_def split: option.splits)
  with handle(2) assms(3) show ?thesis by simp
next
  case (take_changes it)
  then show ?thesis by (simp add: takeChanges_def multimap_order_def)
next
  case process
  then show ?thesis by (simp add: processProductChanges_def)
next
  case (subscribe_new c p m)
  note tables = market_inv_tables [OF assms(2), of p]
  have "currentChanges m = currentChanges (sv_market sv)"
    using subscribe_new(3) tables by (cases rule: subscribe_cases) simp_all
  with subscribe_new(2) assms(3) show ?thesis by simp
next
  case (subscribe_old c p m)
  note tables = market_inv_tables [OF assms(2), of p]
  have "currentChanges m = currentChanges (sv_market sv)"
    using subscribe_old(3) tables by (cases rule: subscribe_cases) simp_all
  with subscribe_old(2) assms(3) show ?thesis by simp
next
  case (unsubscribe p c m)
  have "clean (m_products (sv_market sv))" using assms(2) by (simp add: market_inv_def)
  with unsubscribe(4) have "currentChanges m = currentChanges (sv_market sv)"
    by (auto simp: unsubscribe_clean bindE_eq_Inr split: if_splits)
  with unsubscribe(2) assms(3) show ?thesis by simp
qed (use assms(3) in \<open>simp_all add: set_listener_market\<close>)

lemma set_listener_history [simp]:
  "h_delivered (set_listener p s sv) = h_delivered sv"
  "h_applied (set_listener p s sv) = h_applied sv"
  "h_gone (set_listener p s sv) = h_gone sv"
  "h_out (set_listener p s sv) = h_out sv"
  "sv_taken (set_listener p s sv) = sv_taken sv"
  by (simp_all add: set_listener_def Let_def)

lemma server_step_product_inv:
  assumes "server_step E sv ev sv'" and "market_inv listening_ids (sv_market sv)"
    and "grouped (map fst (currentChanges (sv_market sv)))" and "product_inv E sv p"
  shows "product_inv E sv' p"
  using assms(1)
proof (cases rule: server_step.cases)
  case (web payload c m)
  from feed_message_market [OF web(3)] show ?thesis
    unfolding web(2) by (intro product_inv_frame [OF assms(4)]) simp_all
next
  case (book q s payload s')
  then show ?thesis
    by (intro product_inv_frame [OF assms(4)]) (simp_all add: set_listener_market)
next
  case (take_messages q s ms s')
  then show ?thesis
    by (intro product_inv_frame [OF assms(4)]) (simp_all add: set_listener_market)
next
  case (handle q message rest m pc)
  then show ?thesis by (simp add: product_inv_handle [OF assms(4)])
next
  case (take_changes it)
  have "mset (changes_of p it) = mset (changes_of p (productChanges (sv_market sv)))"
    by (rule mset_changes_of [OF take_changes(4)])
  with take_changes assms(4) show ?thesis
    by (simp add: product_inv_def balanced_def takeChanges_def)
next
  case process
  show ?thesis by (rule product_inv_process [OF assms(4,3) process(2)])
next
  case (subscribe_new c q m)
  from product_inv_subscribe_new [OF assms(4,2) subscribe_new(3)] show ?thesis
    by (simp add: subscribe_new(2))
next
  case (subscribe_old c q m)
  from product_inv_subscribe_new [OF assms(4,2) subscribe_old(3), where tk = "sv_taken sv" and ho = "h_out sv"]
  show ?thesis
    by (simp add: subscribe_old(2))
next
  case (unsubscribe q c m)
  from product_inv_unsubscribe [OF assms(4,2) unsubscribe(4)] show ?thesis
    by (simp add: unsubscribe(2))
qed

lemma server_run_product_inv:
  assumes "server_run E evs sv"
  shows "grouped (map fst (currentChanges (sv_market sv))) \<and> product_inv E sv p"
  using assms
proof (induction rule: server_run.induct)
  case start
  show ?case
    by (simp add: new_Server_def new_server_market_def new_Market_def product_inv_def balanced_def
        booked_def trade_bound_def)
next
  case (step evs sv ev sv')
  have "market_inv listening_ids (sv_market sv)" by (rule server_market_inv [OF step.hyps(1)])
  with step show ?case using server_step_grouped server_step_product_inv by blast
qed

subsection \<open>The feed products inside the server\<close>

text \<open>
  What the outside is assumed to send, as for one product: feed messages have no \<open>to_merge\<close> field, an
  order book has bids and asks and no \<open>to_merge\<close> field.
\<close>

fun server_event_ok :: "'j json_lib \<Rightarrow> ('j, 'f) server_event \<Rightarrow> bool" where
  "server_event_ok J (Web payload) =
     (case js_parse J payload of None \<Rightarrow> True | Some m \<Rightarrow> \<not> js_contains J m ''to_merge'')"
| "server_event_ok J (Book p payload) = event_ok J (Response payload)"
| "server_event_ok J _ = True"

definition listener_inv :: "'j json_lib \<Rightarrow> ('j, 'f) Server \<Rightarrow> string \<Rightarrow> bool" where
  "listener_inv J sv p \<longleftrightarrow> (\<forall>s. feed_listener p sv = Some s \<longrightarrow>
     (\<exists>es. fp_run J (new_CoinbaseFeedProduct p) es (h_out sv p) s \<and> (\<forall>e \<in> set es. event_ok J e)))"

lemma listener_inv_frame:
  "listener_inv J sv p \<Longrightarrow> feed_listener p sv' = feed_listener p sv \<Longrightarrow> h_out sv' p = h_out sv p \<Longrightarrow>
    listener_inv J sv' p"
  by (simp add: listener_inv_def)

lemma listener_inv_step:
  assumes "listener_inv J sv p" and "feed_listener p sv = Some s" and "fp_step J s e ms s'"
    and "event_ok J e" and "feed_listener p sv' = Some s'" and "h_out sv' p = h_out sv p @ ms"
  shows "listener_inv J sv' p"
proof -
  from assms(1,2) obtain es where "fp_run J (new_CoinbaseFeedProduct p) es (h_out sv p) s"
    and ok: "\<forall>e \<in> set es. event_ok J e" by (auto simp: listener_inv_def)
  from fp_run.snoc [OF this(1) assms(3)]
  have "fp_run J (new_CoinbaseFeedProduct p) (es @ [e]) (h_out sv' p) s'" by (simp add: assms(6))
  moreover have "\<forall>e' \<in> set (es @ [e]). event_ok J e'" using ok assms(4) by simp
  ultimately show ?thesis using assms(5) unfolding listener_inv_def by force
qed

lemma feed_subscribe_listeners:
  assumes "feed_subscribe J conn_ok p c = Inr c'"
  shows "m_prodIdToListener c' = (if m_prodIdToListener c p = None
    then (m_prodIdToListener c)(p \<mapsto> new_CoinbaseFeedProduct p) else m_prodIdToListener c)"
  using assms by (auto simp: feed_subscribe_def feed_send_def bindE_eq_Inr Let_def split: if_splits)

lemma feed_unsubscribe_listeners:
  assumes "feed_unsubscribe J p c = Inr c'"
  shows "m_prodIdToListener c' = (m_prodIdToListener c)(p := None)"
  using assms by (auto simp: feed_unsubscribe_def feed_send_def bindE_eq_Inr Let_def)

lemma listener_inv_web:
  assumes "listener_inv J sv p" and "server_event_ok J (Web payload :: ('j, 'f) server_event)"
    and "feed_onMessageReceived J stod onTrade payload (m_feedClient (sv_market sv), l) = Inr (c, m)"
    and "m_feedClient (sv_market sv') = c" and "h_out sv' = h_out sv"
  shows "listener_inv J sv' p"
proof (cases "feed_listener p sv' = feed_listener p sv")
  case True
  then show ?thesis by (intro listener_inv_frame [OF assms(1)]) (simp_all add: assms(5))
next
  case False
  let ?c = "m_feedClient (sv_market sv)"
  from feed_message_cases [OF assms(3)] False obtain jmsg where
    parse: "js_parse J payload = Some jmsg" and route: "route_message J jmsg ?c = Inr c"
    by (auto simp: feed_listener_def assms(4))
  from route False obtain s s' where "m_prodIdToListener ?c p = Some s"
    "fp_onMessageReceived J jmsg s = Inr s'" "m_prodIdToListener c p = Some s'"
    by (auto simp: feed_listener_def assms(4) route_message_def bindE_eq_Inr split: if_splits option.splits)
  moreover have "event_ok J (Feed jmsg)" using assms(2) parse by simp
  ultimately show ?thesis
    by (intro listener_inv_step [OF assms(1) _ fp_step.feed]) (simp_all add: feed_listener_def assms(4,5))
qed

lemma listener_set_listener:
  "feed_listener q (set_listener p s sv) = (if q = p then Some s else feed_listener q sv)"
  by (simp add: feed_listener_def set_listener_market)

lemma server_step_listener_inv:
  assumes "server_step E sv ev sv'" and "market_inv listening_ids (sv_market sv)"
    and "listener_inv (env_json E) sv p" and "server_event_ok (env_json E) ev"
  shows "listener_inv (env_json E) sv' p"
  using assms(1)
proof (cases rule: server_step.cases)
  case (web payload c m)
  show ?thesis
    by (rule listener_inv_web [OF assms(3) assms(4) [unfolded web(1)] web(3)]) (simp_all add: web(2))
next
  case (book q s payload s')
  show ?thesis
  proof (cases "q = p")
    case True
    with book assms(4) show ?thesis
      by (intro listener_inv_step [OF assms(3) _ fp_step.response [OF book(4,5)]])
        (simp_all add: listener_set_listener)
  next
    case False
    with book(2) show ?thesis by (intro listener_inv_frame [OF assms(3)]) (simp_all add: listener_set_listener)
  qed
next
  case (take_messages q s ms s')
  have l: "feed_listener r sv' = feed_listener r (set_listener q s' sv)" for r
    by (simp add: take_messages(2) feed_listener_def)
  show ?thesis
  proof (cases "q = p")
    case True
    have "h_out sv' p = h_out sv p @ ms" using True by (simp add: take_messages(2))
    with True take_messages(3) show ?thesis
      by (intro listener_inv_step [OF assms(3) _ fp_step.loop [OF take_messages(5)]])
        (simp_all add: l listener_set_listener)
  next
    case False
    have "h_out sv' p = h_out sv p" using False by (simp add: take_messages(2))
    with False show ?thesis
      by (intro listener_inv_frame [OF assms(3)]) (simp_all add: l listener_set_listener)
  qed
next
  case (handle q message rest m pc)
  then have "m_feedClient m = m_feedClient (sv_market sv)"
    by (auto simp: handler_onMessageReceived_def Market_onProductChange_def split: option.splits)
  with handle(2) show ?thesis by (intro listener_inv_frame [OF assms(3)]) (simp_all add: feed_listener_def)
next
  case (take_changes it)
  then show ?thesis
    by (intro listener_inv_frame [OF assms(3)]) (simp_all add: feed_listener_def takeChanges_def)
next
  case process
  then show ?thesis
    by (intro listener_inv_frame [OF assms(3)])
      (simp_all add: feed_listener_def processProductChanges_def processChanges_frame)
next
  case (subscribe_new c q m)
  note tables = market_inv_tables [OF assms(2), of q]
  have "feed_subscribe (env_json E) (env_conn_ok E) q (m_feedClient (sv_market sv)) = Inr (m_feedClient m)"
    using subscribe_new(3) tables by (cases rule: subscribe_cases) (simp_all add: subscribe_new(4))
  then obtain fc where
    "feed_subscribe (env_json E) (env_conn_ok E) q (m_feedClient (sv_market sv)) = Inr fc"
    and m: "m_feedClient m = fc" by blast
  from feed_subscribe_listeners [OF this(1)] have ls: "m_prodIdToListener fc =
    (m_prodIdToListener (m_feedClient (sv_market sv)))(q \<mapsto> new_CoinbaseFeedProduct q)"
    using assms(2) subscribe_new(4) by (auto simp: market_inv_def listening_ids_def)
  show ?thesis
  proof (cases "q = p")
    case True
    with subscribe_new(2) m ls show ?thesis
      by (auto simp: listener_inv_def feed_listener_def intro!: exI [of _ "[]"] fp_run.nil)
  next
    case False
    with subscribe_new(2) m ls show ?thesis
      by (intro listener_inv_frame [OF assms(3)]) (simp_all add: feed_listener_def)
  qed
next
  case (subscribe_old c q m)
  note tables = market_inv_tables [OF assms(2), of q]
  have "m_feedClient m = m_feedClient (sv_market sv)"
    using subscribe_old(3) tables by (cases rule: subscribe_cases) (use subscribe_old(4) in simp_all)
  with subscribe_old(2) show ?thesis
    by (intro listener_inv_frame [OF assms(3)]) (simp_all add: feed_listener_def)
next
  case (unsubscribe q c m)
  have "clean (m_products (sv_market sv))" using assms(2) by (simp add: market_inv_def)
  with unsubscribe(4) obtain fc where "feed_unsubscribe (env_json E) q (m_feedClient (sv_market sv)) = Inr fc"
    and m: "m_feedClient m = fc"
    by (auto simp: unsubscribe_clean bindE_eq_Inr split: if_splits)
  from feed_unsubscribe_listeners [OF this(1)] m unsubscribe(2) show ?thesis
    by (cases "q = p")
      (simp add: listener_inv_def feed_listener_def,
       intro listener_inv_frame [OF assms(3)], simp_all add: feed_listener_def)
qed

lemma server_run_listener_inv:
  assumes "server_run E evs sv" and "\<forall>ev \<in> set evs. server_event_ok (env_json E) ev"
  shows "listener_inv (env_json E) sv p"
  using assms
proof (induction rule: server_run.induct)
  case start
  show ?case
    by (simp add: listener_inv_def feed_listener_def new_Server_def new_server_market_def new_Market_def
        setTradeListener_def new_CoinbaseFeedClient_def)
next
  case (step evs sv ev sv')
  then have "listener_inv (env_json E) sv p" and "server_event_ok (env_json E) ev" by simp_all
  with server_step_listener_inv [OF step.hyps(2) server_market_inv [OF step.hyps(1)]] show ?case by blast
qed

subsection \<open>Runs that can be computed\<close>

text \<open>The steps as a function, for examples.\<close>

definition step_of :: "'a res \<Rightarrow> ('a \<Rightarrow> 'b) \<Rightarrow> 'b option" where
  "step_of r k = (case r of Inl _ \<Rightarrow> None | Inr x \<Rightarrow> Some (k x))"

fun server_do :: "('j, 'f::minus, 'g) server_env \<Rightarrow> ('j, 'f) server_event \<Rightarrow> ('j, 'f) Server \<Rightarrow>
    ('j, 'f) Server option" where
  "server_do E (Web payload) sv =
     step_of (feed_onMessageReceived (env_json E) (env_stod E) (Market_onTrade (server_ops E)) payload
        (m_feedClient (sv_market sv), sv_market sv))
       (\<lambda>(c, m). sv\<lparr>sv_market := m\<lparr>m_feedClient := c\<rparr>\<rparr>)"
| "server_do E (Book p payload) sv =
     (case feed_listener p sv of None \<Rightarrow> None
      | Some s \<Rightarrow> if m_requestThread s = Running
          then step_of (requestFullOrderBookImpl (env_json E) payload s) (\<lambda>s'. set_listener p s' sv) else None)"
| "server_do E (Take_Messages p) sv =
     (case feed_listener p sv of None \<Rightarrow> None
      | Some s \<Rightarrow> if sv_taken sv p = []
          then (case messageLoop_take s of (ms, s') \<Rightarrow> Some ((set_listener p s' sv)
            \<lparr>sv_taken := (sv_taken sv)(p := ms), h_out := (h_out sv)(p := h_out sv p @ ms)\<rparr>)) else None)"
| "server_do E (Handle_Message p) sv =
     (case sv_taken sv p of [] \<Rightarrow> None
      | message # rest \<Rightarrow>
          (case getProductChange (env_depth E) (env_json E) (env_stod E) p message of Inl _ \<Rightarrow> None
           | Inr pc \<Rightarrow>
              step_of (handler_onMessageReceived (env_depth E) (env_json E) (env_stod E)
                  Market_onProductChange p message (sv_market sv))
                (\<lambda>m. sv\<lparr>sv_market := m, sv_taken := (sv_taken sv)(p := rest),
                    h_delivered := (h_delivered sv)(p := h_delivered sv p @ keep_some [pc])\<rparr>)))"
| "server_do E (Take_Changes it) sv =
     (if currentChanges (sv_market sv) = [] \<and> it = productChanges (sv_market sv) \<and> grouped (map fst it)
      then Some (sv\<lparr>sv_market := takeChanges it (sv_market sv)\<rparr>) else None)"
| "server_do E Process_Changes sv = Some (sv\<lparr>sv_market := processProductChanges (server_ops E) (sv_market sv),
        h_applied := (\<lambda>q. h_applied sv q @
          (if m_products (sv_market sv) q = None then [] else changes_of q (currentChanges (sv_market sv)))),
        h_gone := (\<lambda>q. h_gone sv q @
          (if m_products (sv_market sv) q = None then changes_of q (currentChanges (sv_market sv)) else []))\<rparr>)"
| "server_do E (Subscribe c p) sv =
     step_of (Market_subscribe (server_ops E) c p (sv_market sv)) (\<lambda>m.
       if m_products (sv_market sv) p = None
       then sv\<lparr>sv_market := m, sv_taken := (sv_taken sv)(p := []), h_out := (h_out sv)(p := [])\<rparr>
       else sv\<lparr>sv_market := m\<rparr>)"
| "server_do E (Unsubscribe c p) sv =
     (if joined p sv then
        step_of (Market_unsubscribe (server_ops E) c p (sv_market sv)) (\<lambda>m. sv\<lparr>sv_market := m,
          h_gone := (h_gone sv)(p := h_gone sv p @ (if m_products m p = None then h_applied sv p else [])),
          h_applied := (h_applied sv)(p := (if m_products m p = None then [] else h_applied sv p))\<rparr>)
      else None)"

fun server_exec :: "('j, 'f::minus, 'g) server_env \<Rightarrow> ('j, 'f) server_event list \<Rightarrow> ('j, 'f) Server \<Rightarrow>
    ('j, 'f) Server option" where
  "server_exec E [] sv = Some sv"
| "server_exec E (ev # evs) sv =
     (case server_do E ev sv of None \<Rightarrow> None | Some sv' \<Rightarrow> server_exec E evs sv')"

lemma step_of_Some: "step_of r k = Some y \<longleftrightarrow> (\<exists>x. r = Inr x \<and> y = k x)"
  by (cases r) (auto simp: step_of_def)

lemma server_do_step: "server_do E ev sv = Some sv' \<Longrightarrow> server_step E sv ev sv'"
proof (cases ev)
  case (Web payload)
  assume "server_do E ev sv = Some sv'"
  with Web obtain c m where "feed_onMessageReceived (env_json E) (env_stod E) (Market_onTrade (server_ops E))
      payload (m_feedClient (sv_market sv), sv_market sv) = Inr (c, m)"
    "sv' = sv\<lparr>sv_market := m\<lparr>m_feedClient := c\<rparr>\<rparr>" by (auto simp: step_of_Some)
  then show ?thesis unfolding Web using server_step.web by metis
next
  case (Book p payload)
  assume "server_do E ev sv = Some sv'"
  with Book show ?thesis
    by (auto simp: step_of_Some intro: server_step.book split: option.splits if_splits)
next
  case (Take_Messages p)
  assume "server_do E ev sv = Some sv'"
  with Take_Messages show ?thesis
    by (auto intro: server_step.take_messages split: option.splits if_splits prod.splits)
next
  case (Handle_Message p)
  assume "server_do E ev sv = Some sv'"
  with Handle_Message show ?thesis
    by (auto simp: step_of_Some simp del: keep_some.simps intro: server_step.handle split: list.splits sum.splits)
next
  case (Take_Changes it)
  assume "server_do E ev sv = Some sv'"
  with Take_Changes show ?thesis
    by (auto simp: multimap_order_def intro!: server_step.take_changes split: if_splits)
next
  case Process_Changes
  assume "server_do E ev sv = Some sv'"
  with Process_Changes server_step.process [of E sv] show ?thesis
    by (simp only: server_do.simps option.inject)
next
  case (Subscribe c p)
  assume "server_do E ev sv = Some sv'"
  with Subscribe obtain m where m: "Market_subscribe (server_ops E) c p (sv_market sv) = Inr m"
    and sv': "sv' = (if m_products (sv_market sv) p = None
       then sv\<lparr>sv_market := m, sv_taken := (sv_taken sv)(p := []), h_out := (h_out sv)(p := [])\<rparr>
       else sv\<lparr>sv_market := m\<rparr>)"
    by (auto simp: step_of_Some)
  show ?thesis
    unfolding Subscribe sv'
    using server_step.subscribe_new [OF m] server_step.subscribe_old [OF m] by simp
next
  case (Unsubscribe c p)
  assume "server_do E ev sv = Some sv'"
  with Unsubscribe obtain m where "joined p sv"
    "Market_unsubscribe (server_ops E) c p (sv_market sv) = Inr m" and sv': "sv' = sv\<lparr>sv_market := m,
      h_gone := (h_gone sv)(p := h_gone sv p @ (if m_products m p = None then h_applied sv p else [])),
      h_applied := (h_applied sv)(p := (if m_products m p = None then [] else h_applied sv p))\<rparr>"
    by (auto simp: step_of_Some split: if_splits)
  from server_step.unsubscribe [OF this(1,2)] show ?thesis unfolding Unsubscribe sv' .
qed

lemma server_exec_run:
  "server_exec E evs sv = Some sv' \<Longrightarrow> server_run E evs0 sv \<Longrightarrow> server_run E (evs0 @ evs) sv'"
proof (induction evs arbitrary: evs0 sv)
  case (Cons ev evs)
  then obtain sv1 where "server_do E ev sv = Some sv1" and rest: "server_exec E evs sv1 = Some sv'"
    by (auto split: option.splits)
  then have "server_run E (evs0 @ [ev]) sv1"
    using Cons.prems(2) by (blast intro: server_run.step server_do_step)
  from Cons.IH [OF rest this] show ?case by simp
qed simp

lemma server_exec_runI: "server_exec E evs new_Server = Some sv \<Longrightarrow> server_run E evs sv"
  using server_exec_run [OF _ server_run.start] by fastforce

lemma server_exec_view:
  "map_option f (server_exec E evs new_Server) = Some x \<Longrightarrow> \<exists>sv. server_run E evs sv \<and> f sv = x"
  by (auto intro: server_exec_runI)

subsection \<open>Properties of the server\<close>

definition sample_server_lib :: "jdoc json_lib" where
  "sample_server_lib = ref_json
     [''book'' \<mapsto> JObj [(''sequence'', JNum 7),
        (''asks'', JArr [JArr [JStr ''11'', JStr ''5'', JStr ''a1'']]), (''bids'', JArr [])],
      ''open'' \<mapsto> JObj [(''type'', JStr ''open''), (''product_id'', JStr ''ETH-USD''),
        (''sequence'', JNum 8), (''order_id'', JStr ''a2''), (''price'', JStr ''12''),
        (''remaining_size'', JStr ''3''), (''side'', JStr ''sell'')],
      ''sub'' \<mapsto> sample_request ''subscribe_request''
        [(''client_id'', ''c1''), (''product_id'', ''ETH-USD'')]]"

definition sample_env :: "(jdoc, int, int) server_env" where
  "sample_env = \<lparr>env_json = sample_server_lib, env_stod = int_stod, env_depth = 3,
     env_conn_ok = (\<lambda>_. True), env_endpoints = sample_endpoints,
     env_ser = (\<lambda>m. case msg m of OrderBook_Msg b \<Rightarrow> digits (length (b_asks b)) | _ \<Rightarrow> ''trade''),
     env_float = id\<rparr>"

definition sample_reset :: "int product_change" where
  "sample_reset = ProductChangeResetOrderBook [] [\<lparr>price = 11, osize = 5, order_id = ''a1''\<rparr>] []
     ''ETH-USD'' 7"

definition sample_events :: "(jdoc, int) server_event list" where
  "sample_events = [Subscribe ''c1'' ''ETH-USD'', Book ''ETH-USD'' ''book'', Web ''open'',
     Take_Messages ''ETH-USD'', Handle_Message ''ETH-USD'', Take_Changes [(''ETH-USD'', sample_reset)],
     Process_Changes, Handle_Message ''ETH-USD'']"

definition sample_view :: "(jdoc, int) Server \<Rightarrow> int product_change list \<times> int OrderBook option \<times> string list" where
  "sample_view sv = (h_delivered sv ''ETH-USD'', map_option m_orderBook (m_products (sv_market sv) ''ETH-USD''),
     (case m_products (sv_market sv) ''ETH-USD'' of None \<Rightarrow> []
      | Some pr \<Rightarrow> m_sent (pub_socket (m_publisher pr))))"

lemma sample_events_view:
  "map_option sample_view (server_exec sample_env sample_events new_Server) =
    Some ([sample_reset, sample_open],
      Some \<lparr>m_bids = [], m_asks = [\<lparr>price = 11, osize = 5, order_id = ''a1''\<rparr>]\<rparr>, [''1''])"
  by code_simp

lemma sample_server_run:
  obtains sv where "server_run sample_env sample_events sv" and "sample_view sv = ([sample_reset, sample_open],
      Some \<lparr>m_bids = [], m_asks = [\<lparr>price = 11, osize = 5, order_id = ''a1''\<rparr>]\<rparr>, [''1''])"
  using sample_events_view by (auto intro: server_exec_runI)

lemma sample_server_documented: "json_lookup (env_json sample_env)" "json_push (env_json sample_env)"
  "json_build (env_json sample_env)"
  by (simp_all add: sample_env_def sample_server_lib_def ref_json_lookup ref_json_push ref_json_build)

lemma sample_events_ok: "\<forall>ev \<in> set sample_events. server_event_ok (env_json sample_env) ev"
  by (simp add: sample_events_def sample_env_def sample_server_lib_def is_snapshot_def)

text \<open>
  C1: No change is lost or made up. In every reachable state of the server, and for every product,
  the changes its feed delivered since the start are exactly (as a multiset) those applied to its
  present book, those applied to an earlier book of it or arrived when it had none, and those still
  pending or in the batch; and the present book is the empty book after the applied ones, in the
  order they were applied.
\<close>

theorem no_change_lost:
  assumes "server_run E evs sv"
  shows "mset (h_delivered sv p) = mset (h_applied sv p) + mset (h_gone sv p) +
      mset (changes_of p (productChanges (sv_market sv))) +
      mset (changes_of p (currentChanges (sv_market sv))) \<and>
    (\<forall>pr. m_products (sv_market sv) p = Some pr \<longrightarrow>
      m_orderBook pr = apply_changes (h_applied sv p) empty_book)"
  using server_run_product_inv [OF assms, of p]
  by (auto simp: product_inv_def balanced_def booked_def ac_simps)

theorem no_change_lost_witness:
  "\<exists>sv. server_run sample_env sample_events sv \<and> h_delivered sv ''ETH-USD'' = [sample_reset, sample_open] \<and>
    {#sample_reset, sample_open#} = mset (h_applied sv ''ETH-USD'') + mset (h_gone sv ''ETH-USD'') +
      mset (changes_of ''ETH-USD'' (productChanges (sv_market sv))) +
      mset (changes_of ''ETH-USD'' (currentChanges (sv_market sv)))"
proof -
  obtain sv where run: "server_run sample_env sample_events sv"
    and "h_delivered sv ''ETH-USD'' = [sample_reset, sample_open]"
    by (rule sample_server_run) (simp add: sample_view_def)
  with no_change_lost [OF run, of "''ETH-USD''"] show ?thesis by (intro exI [of _ sv]) simp
qed

text \<open>
  C4: The published book is the book. In every reachable state, every product publishes on the address
  the table of endpoints gives it, and once any change was applied to its book, the last message it
  sent is the serialised book as it is now, under the product's own id; before, it has sent nothing.
\<close>

theorem published_book_current:
  assumes "server_run E evs sv" and "m_products (sv_market sv) p = Some pr"
  shows "\<exists>e. env_endpoints E p = Some e \<and>
    bind_addr (pub_socket (m_publisher pr)) = ''tcp://'' @ orderbook_address e \<and>
    (if h_applied sv p = [] then m_sent (pub_socket (m_publisher pr)) = []
     else last (m_sent (pub_socket (m_publisher pr))) =
       env_ser E (orderbook_message (env_float E) p (m_orderBook pr)))"
  using server_run_product_inv [OF assms(1), of p] assms(2)
  by (auto simp: product_inv_def booked_def publisher_ok_def)

theorem published_book_current_witness:
  "\<exists>sv pr. server_run sample_env sample_events sv \<and> m_products (sv_market sv) ''ETH-USD'' = Some pr \<and>
    last (m_sent (pub_socket (m_publisher pr))) =
      env_ser sample_env (orderbook_message (env_float sample_env) ''ETH-USD'' (m_orderBook pr))"
proof -
  obtain sv where run: "server_run sample_env sample_events sv"
    and v: "sample_view sv = ([sample_reset, sample_open],
      Some \<lparr>m_bids = [], m_asks = [\<lparr>price = 11, osize = 5, order_id = ''a1''\<rparr>]\<rparr>, [''1''])"
    by (rule sample_server_run)
  then obtain pr where pr: "m_products (sv_market sv) ''ETH-USD'' = Some pr"
    and "m_sent (pub_socket (m_publisher pr)) = [''1'']"
    by (auto simp: sample_view_def)
  with published_book_current [OF run pr] pr run show ?thesis by (auto split: if_splits)
qed

text \<open>
  C31: Consecutive delivery in the server. Whatever the threads of the server do, the messages the loop
  of a subscribed product took since it was created are consecutive in the sense of the feed product.
\<close>

theorem server_delivers_consecutive:
  assumes "server_run E evs sv" and "feed_listener p sv \<noteq> None"
    and "json_push (env_json E)" and "json_lookup (env_json E)"
    and "\<forall>ev \<in> set evs. server_event_ok (env_json E) ev"
  shows "consecutive (env_json E) None (h_out sv p)"
proof -
  from assms(2) obtain s where "feed_listener p sv = Some s" by blast
  with server_run_listener_inv [OF assms(1,5), of p] obtain es where
    "fp_run (env_json E) (new_CoinbaseFeedProduct p) es (h_out sv p) s"
    and "\<forall>e \<in> set es. event_ok (env_json E) e" by (auto simp: listener_inv_def)
  from fp_inv_run [OF this(1) fp_inv_new assms(3,4) this(2)] show ?thesis by (simp add: fp_inv_def)
qed

theorem server_delivers_consecutive_witness:
  "\<exists>sv. server_run sample_env sample_events sv \<and> length (h_out sv ''ETH-USD'') = 2 \<and>
    consecutive (env_json sample_env) None (h_out sv ''ETH-USD'')"
proof -
  have "map_option (\<lambda>sv. (length (h_out sv ''ETH-USD''), Option.is_none (feed_listener ''ETH-USD'' sv)))
      (server_exec sample_env sample_events new_Server) = Some (2, False)" by code_simp
  then obtain sv where run: "server_run sample_env sample_events sv" and "length (h_out sv ''ETH-USD'') = 2"
    and "feed_listener ''ETH-USD'' sv \<noteq> None" by (auto intro: server_exec_runI simp: Option.is_none_def)
  with server_delivers_consecutive [OF run _ sample_server_documented(2,1) sample_events_ok] show ?thesis
    by blast
qed



text \<open>
  C34: Unsubscribing is for everybody. In every reachable state, an unsubscription of a product that is
  there, by whatever client, removes the product, its trade publisher and its feed, however many
  clients had subscribed; the next unsubscription of the product, again by any client, then reads
  through the end iterator, which is undefined behaviour.
\<close>

theorem unsubscribe_is_global:
  assumes "server_run E evs sv" and "Market_unsubscribe (server_ops E) c p (sv_market sv) = Inr m"
  shows "m_products m p = None \<and> m_trade_publishers m p = None \<and>
    p \<notin> listening_ids (m_feedClient m) \<and> Market_unsubscribe (server_ops E) c' p m = Inl Undefined"
proof -
  have "market_inv listening_ids m"
    by (rule server.unsubscribe_inv [OF server_market_inv [OF assms(1)] assms(2)])
  moreover have "m_products m p = None"
    by (rule product_inv_unsubscribe(1) [OF server_run_product_inv [OF assms(1), THEN conjunct2]
          server_market_inv [OF assms(1)] assms(2)])
  ultimately show ?thesis
    by (auto simp: market_inv_tables [of listening_ids] market_inv_def unsubscribe_clean)
qed

theorem unsubscribe_is_global_witness:
  "\<exists>sv m. server_run sample_env [Subscribe ''c1'' ''ETH-USD'', Subscribe ''c2'' ''ETH-USD''] sv \<and>
    Market_unsubscribe (server_ops sample_env) ''c1'' ''ETH-USD'' (sv_market sv) = Inr m \<and>
    Market_unsubscribe (server_ops sample_env) ''c2'' ''ETH-USD'' m = Inl Undefined"
proof -
  have "map_option (\<lambda>sv. isl (Market_unsubscribe (server_ops sample_env) ''c1'' ''ETH-USD'' (sv_market sv)))
      (server_exec sample_env [Subscribe ''c1'' ''ETH-USD'', Subscribe ''c2'' ''ETH-USD''] new_Server) = Some False"
    by code_simp
  from server_exec_view [OF this] obtain sv where
    run: "server_run sample_env [Subscribe ''c1'' ''ETH-USD'', Subscribe ''c2'' ''ETH-USD''] sv"
    and "\<not> isl (Market_unsubscribe (server_ops sample_env) ''c1'' ''ETH-USD'' (sv_market sv))"
    by blast
  then obtain m where m: "Market_unsubscribe (server_ops sample_env) ''c1'' ''ETH-USD'' (sv_market sv) = Inr m"
    by (cases "Market_unsubscribe (server_ops sample_env) ''c1'' ''ETH-USD'' (sv_market sv)") auto
  from unsubscribe_is_global [OF run m, of "''c2''"] run m show ?thesis by blast
qed

text \<open>
  Stale changes. A change that is still pending when a product is given up is applied to the new
  book when somebody subscribes to the product again: here the new feed product has not delivered
  anything, yet the new book has an order.
\<close>

theorem stale_change_after_resubscribe:
  "\<exists>sv. server_run sample_env [Subscribe ''c1'' ''ETH-USD'', Book ''ETH-USD'' ''book'', Take_Messages ''ETH-USD'',
      Handle_Message ''ETH-USD'', Unsubscribe ''c1'' ''ETH-USD'', Subscribe ''c2'' ''ETH-USD'',
      Take_Changes [(''ETH-USD'', sample_reset)], Process_Changes] sv \<and>
    h_out sv ''ETH-USD'' = [] \<and>
    map_option m_orderBook (m_products (sv_market sv) ''ETH-USD'') =
      Some \<lparr>m_bids = [], m_asks = [\<lparr>price = 11, osize = 5, order_id = ''a1''\<rparr>]\<rparr>"
proof -
  have "map_option (\<lambda>sv. (h_out sv ''ETH-USD'', map_option m_orderBook (m_products (sv_market sv) ''ETH-USD'')))
      (server_exec sample_env [Subscribe ''c1'' ''ETH-USD'', Book ''ETH-USD'' ''book'', Take_Messages ''ETH-USD'',
      Handle_Message ''ETH-USD'', Unsubscribe ''c1'' ''ETH-USD'', Subscribe ''c2'' ''ETH-USD'',
      Take_Changes [(''ETH-USD'', sample_reset)], Process_Changes] new_Server) =
    Some ([], Some \<lparr>m_bids = [], m_asks = [\<lparr>price = 11, osize = 5, order_id = ''a1''\<rparr>]\<rparr>)"
    by code_simp
  from server_exec_view [OF this] show ?thesis by (simp only: prod.inject)
qed

subsection \<open>The client service on the market\<close>

interpretation service: product_subscriber "Market_subscribe (server_ops E)"
  "Market_unsubscribe (server_ops E)" "env_endpoints E" "market_inv listening_ids"
  for E :: "('j, 'f::minus, 'g) server_env"
  by unfold_locales (erule server.subscribe_inv server.unsubscribe_inv, assumption)+

lemma Market_subscribe_total:
  assumes "env_endpoints E p = Some e" and "generateSubscribeMessage (env_json E) p = Inr t"
  shows "\<exists>m'. Market_subscribe (server_ops E) c p m = Inr m'"
proof -
  obtain pub where pub: "new_ProductChangePublisherZMQ (env_endpoints E) p = Inr pub"
    using assms(1) by (simp add: new_ProductChangePublisherZMQ_def prodIdToPort_def)
  obtain tp where tp: "new_TradePublisher (env_endpoints E) p = Inr tp"
    using assms(1) by (simp add: new_TradePublisher_def prodIdToPort_def)
  have "\<exists>fc'. feed_subscribe (env_json E) (env_conn_ok E) p fc = Inr fc'" for fc
    using assms(2) by (simp add: feed_subscribe_def Let_def)
  then obtain sub where "\<And>fc. feed_subscribe (env_json E) (env_conn_ok E) p fc = Inr (sub fc)" by metis
  note sub = this
  show ?thesis
    by (cases "m_products m p"; cases "m_trade_publishers m p"; cases "m_clients m c")
      (simp_all add: Market_subscribe_def Let_def pub tp sub)
qed

lemma subscribe_present:
  assumes "Market_subscribe ops c p m = Inr m'" and "m_products m p = None \<longleftrightarrow> m_trade_publishers m p = None"
  shows "m_products m' p \<noteq> None \<and> m_trade_publishers m' p \<noteq> None"
  using assms(1,2)
proof (cases rule: subscribe_cases)
  case (1 cl)
  with assms(2) show ?thesis by simp
qed simp

lemma endpoints_document_fields:
  assumes "json_build J" and "env_endpoints E p = Some e"
  shows "\<exists>doc. endpoints_document J (env_endpoints E) kind c p = Inr doc \<and>
    str_at J doc ''product_endpoint'' = Inr (''tcp://'' @ orderbook_address e) \<and>
    str_at J doc ''trade_endpoint'' = Inr (''tcp://'' @ trade_address e)"
  using assms(2) by (simp add: endpoints_document_def prodIdToPort_def orderbook_address_def trade_address_def
      str_at_object [OF assms(1)] string_of_string [OF assms(1)])

text \<open>
  C9: A served subscription. A well-formed subscription request by a registered client for a product
  that is online is answered, in every reachable state of the server; afterwards the product and its
  trade publisher are there, and the two endpoints of the reply are the addresses they are bound to.
\<close>

theorem subscription_served:
  assumes "server_run E evs sv" and "m_productSubscriber cs = sv_market sv"
    and "json_lookup (env_json E)" and "json_build (env_json E)"
    and "js_parse (env_json E) data = Some jmsg" and "kind_is (env_json E) jmsg ''subscribe_request''"
    and "js_contains (env_json E) jmsg ''client_id''" and "js_contains (env_json E) jmsg ''product_id''"
    and "str_ref (env_json E) jmsg ''client_id'' = Inr c" and "str_ref (env_json E) jmsg ''product_id'' = Inr p"
    and "c \<in> m_registeredClientIds cs" and "env_endpoints E p \<noteq> None"
    and "generateSubscribeMessage (env_json E) p = Inr t"
  shows "\<exists>doc cs' pr tp. handle_request (env_json E) (env_endpoints E) (Market_subscribe (server_ops E))
      (Market_unsubscribe (server_ops E)) draws data cs = Inr ([js_dump (env_json E) doc], cs') \<and>
    m_products (m_productSubscriber cs') p = Some pr \<and>
    m_trade_publishers (m_productSubscriber cs') p = Some tp \<and>
    str_at (env_json E) doc ''product_endpoint'' = Inr (bind_addr (pub_socket (m_publisher pr))) \<and>
    str_at (env_json E) doc ''trade_endpoint'' = Inr (bind_addr tp)"
proof -
  obtain e where e: "env_endpoints E p = Some e" using assms(12) by blast
  obtain m where m: "Market_subscribe (server_ops E) c p (sv_market sv) = Inr m"
    using Market_subscribe_total [OF e assms(13)] by blast
  obtain doc where doc: "endpoints_document (env_json E) (env_endpoints E) ''subscribe_request'' c p = Inr doc"
    "str_at (env_json E) doc ''product_endpoint'' = Inr (''tcp://'' @ orderbook_address e)"
    "str_at (env_json E) doc ''trade_endpoint'' = Inr (''tcp://'' @ trade_address e)"
    using endpoints_document_fields [OF assms(4) e] by blast
  have t: "js_contains (env_json E) jmsg ''type''" using assms(6) by (simp add: kind_is_def)
  have reply: "\<exists>cs'. handle_request (env_json E) (env_endpoints E) (Market_subscribe (server_ops E))
      (Market_unsubscribe (server_ops E)) draws data cs = Inr ([js_dump (env_json E) doc], cs') \<and>
      m_productSubscriber cs' = m"
    using assms(2,5-11) e m doc(1)
    by (simp add: handle_request_def dispatch_kinds [OF assms(3) t] kind_is_unique [OF assms(6)]
        handle_subscribe_def check_ids_def contains_def)
  have inv: "product_inv E sv p" "market_inv listening_ids (sv_market sv)"
    using server_run_product_inv [OF assms(1)] server_market_inv [OF assms(1)] by blast+
  have "product_inv E (sv\<lparr>sv_market := m, sv_taken := sv_taken sv, h_out := h_out sv\<rparr>) p"
    by (rule product_inv_subscribe_new [OF inv m])
  then have bound: "booked E p (h_applied sv p) (m_products m p)" "trade_bound E p (m_trade_publishers m p)"
    by (simp_all add: product_inv_def)
  from subscribe_present [OF m market_inv_tables [OF inv(2)]] bound e obtain pr tp where "m_products m p = Some pr" "m_trade_publishers m p = Some tp"
    "bind_addr (pub_socket (m_publisher pr)) = ''tcp://'' @ orderbook_address e"
    "bind_addr tp = ''tcp://'' @ trade_address e"
    by (auto simp: booked_def publisher_ok_def trade_bound_def)
  with reply doc show ?thesis by auto
qed

theorem subscription_served_witness:
  "\<exists>doc cs' pr. handle_request (env_json sample_env) (env_endpoints sample_env)
      (Market_subscribe (server_ops sample_env)) (Market_unsubscribe (server_ops sample_env)) [] ''sub''
      \<lparr>m_registeredClientIds = {''c1''}, m_productSubscriber = sv_market new_Server\<rparr> =
      Inr ([js_dump (env_json sample_env) doc], cs') \<and>
    m_products (m_productSubscriber cs') ''ETH-USD'' = Some pr \<and>
    str_at (env_json sample_env) doc ''product_endpoint'' = Inr (bind_addr (pub_socket (m_publisher pr)))"
proof -
  have "\<exists>t. generateSubscribeMessage (env_json sample_env) ''ETH-USD'' = Inr t"
    by (simp add: generateSubscribeMessage_def subscribe_template_def sample_env_def sample_server_lib_def)
  then obtain t where t: "generateSubscribeMessage (env_json sample_env) ''ETH-USD'' = Inr t" ..
  show ?thesis
    using subscription_served [OF server_run.start [of sample_env] _ sample_server_documented(1,3),
      of "\<lparr>m_registeredClientIds = {''c1''}, m_productSubscriber = sv_market new_Server\<rparr>" "''sub''"
        "sample_request ''subscribe_request'' [(''client_id'', ''c1''), (''product_id'', ''ETH-USD'')]"
        "''c1''" "''ETH-USD''" t "[]"] t
    by (force simp: sample_env_def sample_server_lib_def sample_request_def kind_is_def str_ref_def
        sample_endpoints_def)
qed

text \<open>
  The service keeps the tables. Any run of the client service that starts with the market of
  \<open>main\<close> leaves the market's tables and the feed client's table with the same products.
\<close>

theorem service_keeps_tables:
  fixes E :: "('j, 'f::minus, 'g) server_env"
  assumes "json_lookup (env_json E)"
    and "runImpl (env_json E) (env_endpoints E) (Market_subscribe (server_ops E))
      (Market_unsubscribe (server_ops E)) reqs (new_ClientService new_server_market) = Inr (sents, cs)"
  shows "dom (m_products (m_productSubscriber cs)) = listening_ids (m_feedClient (m_productSubscriber cs)) \<and>
    dom (m_trade_publishers (m_productSubscriber cs)) = listening_ids (m_feedClient (m_productSubscriber cs))"
proof -
  have "market_inv listening_ids
      (m_productSubscriber (new_ClientService (new_server_market :: ('j, 'f) server_market)))"
    using server_market_inv [OF server_run.start [of E]] by (simp add: new_ClientService_def new_Server_def)
  from service.runImpl_keeps [OF assms this] show ?thesis by (simp add: market_inv_def)
qed

theorem service_keeps_tables_witness:
  "\<exists>sents cs. runImpl (env_json sample_env) (env_endpoints sample_env) (Market_subscribe (server_ops sample_env))
      (Market_unsubscribe (server_ops sample_env)) [([], ''sub''), ([], ''what'')]
      (new_ClientService new_server_market) = Inr (sents, cs) \<and>
    dom (m_products (m_productSubscriber cs)) = listening_ids (m_feedClient (m_productSubscriber cs))"
proof -
  have "\<exists>sents cs. runImpl (env_json sample_env) (env_endpoints sample_env) (Market_subscribe (server_ops sample_env))
      (Market_unsubscribe (server_ops sample_env)) [([], ''sub''), ([], ''what'')]
      (new_ClientService new_server_market) = Inr (sents, cs)"
    by (simp add: sample_env_def sample_server_lib_def service_defs new_ClientService_def)
  then obtain sents cs where run: "runImpl (env_json sample_env) (env_endpoints sample_env)
      (Market_subscribe (server_ops sample_env)) (Market_unsubscribe (server_ops sample_env))
      [([], ''sub''), ([], ''what'')] (new_ClientService new_server_market) = Inr (sents, cs)" by blast
  from service_keeps_tables [OF sample_server_documented(1) run] run show ?thesis by blast
qed

end
