(* ===== verification/Demo_Client.thy ===== *)
theory Demo_Client
  imports Client_Service Wire_Messages Std_Strings
begin

section \<open>The demo client\<close>

text \<open>
  \<open>client.cpp\<close>: a program that registers with the service, subscribes and unsubscribes as a scenario
  says, and prints what arrives on the endpoints it was told. \<open>main\<close> talks to the service; three
  threads handle the endpoints, the messages and the scenario; one more thread per endpoint receives.
  The global variables are the record \<open>client\<close>. A thread that receives is an entry of \<open>subThreads\<close>
  with its endpoint and the \<open>atomic<bool>\<close> it shares with \<open>endpointToHandler\<close>, whose pointers are
  positions of that list. \<open>printed\<close> is what \<open>handleFeedMessages\<close> writes to the standard output.
  Protocol buffer messages are read with the generated class, a parameter.
\<close>

record ScenarioEntry =
  sc_subscribe :: bool
  sc_productId :: string
  sc_timeInS :: int

record sub_thread =
  th_endpoint :: string
  th_at :: bool

record client =
  endpointsToSubscribe :: "string list"
  endpointsToUnsubscribe :: "string list"
  endpointToHandler :: "string \<rightharpoonup> nat"
  feedMessagesQueue :: "string list"
  scenarioMessagesQueue :: "ScenarioEntry list"
  clientId :: string
  scenario :: "ScenarioEntry list"
  subThreads :: "sub_thread list"
  printed :: "string list"

text \<open>The accessors of the generated class \<open>qs::qsMessage\<close> that the client calls.\<close>

record 'p pb_reader =
  pb_parse :: "string \<Rightarrow> 'p"  \<comment> \<open>\<open>ParseFromString\<close>, its result ignored\<close>
  pb_message_type :: "'p \<Rightarrow> MessageType"
  pb_book_product_id :: "'p \<Rightarrow> string"
  pb_trade_product_id :: "'p \<Rightarrow> string"
  pb_trade_type :: "'p \<Rightarrow> TradeType"

fun tradeToString :: "TradeType \<Rightarrow> string" where
  "tradeToString TradeType_ACTIVATE = ''ACTIVATE''"
| "tradeToString TradeType_CHANGE = ''CHANGE''"
| "tradeToString TradeType_DONE = ''CHANGE''"
| "tradeToString TradeType_MATCH = ''MATCH''"
| "tradeToString TradeType_OPEN = ''OPEN''"

definition feed_line :: "'p pb_reader \<Rightarrow> string \<Rightarrow> string list" where
  "feed_line P message =
     (let pMessage = pb_parse P message
      in if pb_message_type P pMessage = MessageType_ORDERBOOK then
           [''['' @ pb_book_product_id P pMessage @ ''] '' @ ''Received new ORDERBOOK message'']
         else if pb_message_type P pMessage = MessageType_TRADE then
           [''['' @ pb_trade_product_id P pMessage @ ''] '' @
            '' Received new trade message of type: '' @ tradeToString (pb_trade_type P pMessage)]
         else [])"

text \<open>One iteration of the loop: the section under the mutex takes the queue, the rest prints.\<close>

definition takeFeedMessages :: "client \<Rightarrow> string list \<times> client" where
  "takeFeedMessages s = (feedMessagesQueue s, s\<lparr>feedMessagesQueue := []\<rparr>)"

fun printMessages :: "'p pb_reader \<Rightarrow> string list \<Rightarrow> client \<Rightarrow> client" where
  "printMessages P [] s = s"
| "printMessages P (message # newMessages) s =
     printMessages P newMessages (s\<lparr>printed := printed s @ feed_line P message\<rparr>)"

definition handleFeedMessages :: "'p pb_reader \<Rightarrow> client \<Rightarrow> client" where
  "handleFeedMessages P s =
     (if feedMessagesQueue s = [] then s
      else let (newMessages, s1) = takeFeedMessages s in printMessages P newMessages s1)"

text \<open>One iteration of the scenario thread, after its sleep.\<close>

definition handleScenario :: "client \<Rightarrow> client" where
  "handleScenario s = (case scenario s of
     [] \<Rightarrow> s
   | entry # rest \<Rightarrow>
       s\<lparr>scenario := rest, scenarioMessagesQueue := scenarioMessagesQueue s @ [entry]\<rparr>)"

text \<open>\<open>transform\<close> reads three words at a time without looking at the length.\<close>

fun transform :: "string list \<Rightarrow> ScenarioEntry list res" where
  "transform [] = Inr []"
| "transform (w # p # t # vec) =
     bindE (stoi t) (\<lambda>timeInS.
     bindE (transform vec) (\<lambda>out.
       Inr (\<lparr>sc_subscribe = (w = ''sub''), sc_productId = p, sc_timeInS = timeInS\<rparr> # out)))"
| "transform _ = Inl Undefined"

subsection \<open>The threads that receive\<close>

text \<open>\<open>emplace\<close> leaves an entry alone that is already there.\<close>

definition startHandler :: "string \<Rightarrow> client \<Rightarrow> client" where
  "startHandler endpoint s =
     (let k = length (subThreads s);
          s1 = s\<lparr>subThreads := subThreads s @ [\<lparr>th_endpoint = endpoint, th_at = True\<rparr>]\<rparr>
      in if endpointToHandler s endpoint = None
         then s1\<lparr>endpointToHandler := (endpointToHandler s1)(endpoint \<mapsto> k)\<rparr>
         else s1)"

text \<open>\<open>operator[]\<close> makes a null pointer of a missing entry, which is then dereferenced.\<close>

definition stopHandler :: "string \<Rightarrow> client \<Rightarrow> client res" where
  "stopHandler endpoint s = (case endpointToHandler s endpoint of
     None \<Rightarrow> Inl Undefined
   | Some k \<Rightarrow>
       Inr (s\<lparr>subThreads := (subThreads s)[k := (subThreads s ! k)\<lparr>th_at := False\<rparr>]\<rparr>))"

definition takeEndpoints :: "client \<Rightarrow> (string list \<times> string list) \<times> client" where
  "takeEndpoints s = ((endpointsToSubscribe s, endpointsToUnsubscribe s),
     s\<lparr>endpointsToSubscribe := [], endpointsToUnsubscribe := []\<rparr>)"

definition hendleNewEndpoints :: "client \<Rightarrow> client res" where
  "hendleNewEndpoints s =
     (if endpointsToSubscribe s = [] \<and> endpointsToUnsubscribe s = [] then Inr s
      else let ((subs, unsubs), s1) = takeEndpoints s
           in foldE stopHandler unsubs (fold startHandler subs s1))"

text \<open>
  One round of the thread at a position: nothing once its flag is down; an empty message, which is what
  a time-out leaves, is skipped.
\<close>

definition receiveMessage :: "nat \<Rightarrow> string \<Rightarrow> client \<Rightarrow> client" where
  "receiveMessage k message s =
     (if \<not> (k < length (subThreads s) \<and> th_at (subThreads s ! k)) then s
      else if message = '''' then s
      else s\<lparr>feedMessagesQueue := feedMessagesQueue s @ [message]\<rparr>)"

subsection \<open>The conversation with the service\<close>

definition handleReply :: "'j json_lib \<Rightarrow> string \<Rightarrow> client \<Rightarrow> client res" where
  "handleReply J data s =
     (case js_parse J data of
        None \<Rightarrow> Inl Parse_Error
      | Some jmsg \<Rightarrow>
          if js_contains J jmsg ''type'' then
            bindE (at J jmsg ''type'') (\<lambda>kind.
              if js_eq J kind ''client_id_request'' then
                bindE (str_at J jmsg ''client_id'') (\<lambda>cid. Inr (s\<lparr>clientId := cid\<rparr>))
              else if js_eq J kind ''subscribe_request'' then
                bindE (str_at J jmsg ''product_endpoint'') (\<lambda>pe.
                bindE (str_at J jmsg ''trade_endpoint'') (\<lambda>te.
                  Inr (s\<lparr>endpointsToSubscribe := (endpointsToSubscribe s @ [pe]) @ [te]\<rparr>)))
              else if js_eq J kind ''unsubscribe_request'' then
                bindE (str_at J jmsg ''product_endpoint'') (\<lambda>pe.
                bindE (str_at J jmsg ''trade_endpoint'') (\<lambda>te.
                  Inr (s\<lparr>endpointsToUnsubscribe := (endpointsToUnsubscribe s @ [pe]) @ [te]\<rparr>)))
              else Inr s)
          else Inr s)"

definition scenario_document :: "'j json_lib \<Rightarrow> string \<Rightarrow> ScenarioEntry \<Rightarrow> 'j" where
  "scenario_document J cid entry =
     (if sc_subscribe entry then
        js_object J [(''type'', js_of_string J ''subscribe_request''),
          (''client_id'', js_of_string J cid),
          (''product_id'', js_of_string J (sc_productId entry))]
      else
        js_object J [(''type'', js_of_string J ''unsubscribe_request''),
          (''client_id'', js_of_string J cid),
          (''product_id'', js_of_string J (sc_productId entry))])"

definition heartbeat_document :: "'j json_lib \<Rightarrow> string \<Rightarrow> 'j" where
  "heartbeat_document J cid =
     js_object J [(''type'', js_of_string J ''heartbeat''), (''client_id'', js_of_string J cid)]"

text \<open>What is sent next; the wait of ten milliseconds ends with the queue empty or not.\<close>

definition nextMessage :: "'j json_lib \<Rightarrow> client \<Rightarrow> string \<times> client" where
  "nextMessage J s =
     (let (response, s1) = (case scenarioMessagesQueue s of
            [] \<Rightarrow> ('''', s)
          | scenarioEntry # rest \<Rightarrow>
              (js_dump J (scenario_document J (clientId s) scenarioEntry),
               s\<lparr>scenarioMessagesQueue := rest\<rparr>))
      in if response = ''''
         then (js_dump J (heartbeat_document J (clientId s1)), s1)
         else (response, s1))"

text \<open>
  The loop of \<open>main\<close>, over what \<open>recv\<close> leaves in the message (empty after a time-out) and whether the
  \<open>send\<close> at the end succeeds. Between two rounds the other threads may change the globals: \<open>others\<close>.
\<close>

fun clientLoop :: "'j json_lib \<Rightarrow> (string \<times> bool \<times> (client \<Rightarrow> client)) list \<Rightarrow> client \<Rightarrow>
    (string list \<times> client) res" where
  "clientLoop J [] s = Inr ([], s)"
| "clientLoop J ((message, sends, others) # rest) s =
     (if message = '''' then clientLoop J rest (others s)
      else
        bindE (handleReply J message s) (\<lambda>s1.
          let (response, s2) = nextMessage J s1
          in if \<not> sends then Inr ([], s2)
             else bindE (clientLoop J rest (others s2)) (\<lambda>(sent, s3). Inr (response # sent, s3))))"

record client_options =
  opt_help :: bool
  opt_prod_ids :: "string list option"
  opt_server_endpoint :: "string option"

datatype 'a main_result = Exit int | Running 'a

definition new_client :: "ScenarioEntry list \<Rightarrow> client" where
  "new_client sc = \<lparr>endpointsToSubscribe = [], endpointsToUnsubscribe = [],
     endpointToHandler = Map.empty, feedMessagesQueue = [], scenarioMessagesQueue = [],
     clientId = '''', scenario = sc, subThreads = [], printed = []\<rparr>"

definition client_id_request :: "'j json_lib \<Rightarrow> string" where
  "client_id_request J = js_dump J (js_object J [(''type'', js_of_string J ''client_id_request'')])"

text \<open>\<open>main\<close> up to the loop: the endpoint it connects to, the first message and the globals.\<close>

definition client_main :: "'j json_lib \<Rightarrow> bool \<Rightarrow> client_options \<Rightarrow>
    (string \<times> string \<times> client) main_result res" where
  "client_main J sends vm =
     (if opt_help vm then Inr (Exit 0)
      else case opt_prod_ids vm of
        None \<Rightarrow> Inr (Exit 1)
      | Some prodIds \<Rightarrow>
          (case opt_server_endpoint vm of
             None \<Rightarrow> Inr (Exit 1)
           | Some serverEndpoint \<Rightarrow>
               bindE (transform prodIds) (\<lambda>sc.
                 if \<not> sends then Inr (Exit 1)
                 else Inr (Running (serverEndpoint, client_id_request J, new_client sc)))))"

subsection \<open>The threads as steps\<close>

text \<open>
  The sections of the client's threads, in any order. What arrives on a socket is arbitrary.
\<close>

inductive client_step :: "'j json_lib \<Rightarrow> 'p pb_reader \<Rightarrow> client \<Rightarrow> client \<Rightarrow> bool"
  for J :: "'j json_lib" and P :: "'p pb_reader" where
  step_feed: "client_step J P s (handleFeedMessages P s)"
| step_scenario: "client_step J P s (handleScenario s)"
| step_endpoints: "hendleNewEndpoints s = Inr s' \<Longrightarrow> client_step J P s s'"
| step_receive: "client_step J P s (receiveMessage k message s)"
| step_reply: "data \<noteq> '''' \<Longrightarrow> handleReply J data s = Inr s1 \<Longrightarrow>
    client_step J P s (snd (nextMessage J s1))"

inductive_cases client_stepE: "client_step J P s s'"

text \<open>What only the endpoint thread writes.\<close>

definition handler_part :: "client \<Rightarrow> (string \<rightharpoonup> nat) \<times> sub_thread list" where
  "handler_part s = (endpointToHandler s, subThreads s)"

lemma printMessages_eq:
  "printMessages P ms s = s\<lparr>printed := printed s @ concat (map (feed_line P) ms)\<rparr>"
  by (induction ms arbitrary: s) auto

lemma handleFeedMessages_eq:
  "handleFeedMessages P s = s\<lparr>feedMessagesQueue := [],
     printed := printed s @ concat (map (feed_line P) (feedMessagesQueue s))\<rparr>"
  by (simp add: handleFeedMessages_def takeFeedMessages_def printMessages_eq)

lemma handleReply_handlers: "handleReply J data s = Inr s' \<Longrightarrow> handler_part s' = handler_part s"
  by (auto simp: handleReply_def handler_part_def bindE_eq_Inr split: option.splits if_splits)

lemma nextMessage_handlers: "handler_part (snd (nextMessage J s)) = handler_part s"
  by (auto simp: nextMessage_def handler_part_def split: list.splits)

lemma client_step_handlers:
  assumes "client_step J P s s'"
  shows "handler_part s' = handler_part s \<or> hendleNewEndpoints s = Inr s'"
  using assms
proof cases
  case step_feed
  then show ?thesis by (simp add: handleFeedMessages_eq handler_part_def)
next
  case step_scenario
  then show ?thesis by (auto simp: handleScenario_def handler_part_def split: list.splits)
next
  case (step_receive k message)
  then show ?thesis by (auto simp: receiveMessage_def handler_part_def)
next
  case (step_reply data s1)
  then show ?thesis using handleReply_handlers nextMessage_handlers by metis
qed simp

text \<open>Every pointer of the table belongs to a thread of its endpoint, the first one there was.\<close>

definition handlers_wf :: "client \<Rightarrow> bool" where
  "handlers_wf s \<longleftrightarrow> (\<forall>e k. endpointToHandler s e = Some k \<longrightarrow>
     k < length (subThreads s) \<and> th_endpoint (subThreads s ! k) = e)"

lemma startHandler_wf: "handlers_wf s \<Longrightarrow> handlers_wf (startHandler e s)"
  by (auto simp: handlers_wf_def startHandler_def Let_def nth_append less_Suc_eq split: if_splits)

lemma stopHandler_wf: "handlers_wf s \<Longrightarrow> stopHandler e s = Inr s' \<Longrightarrow> handlers_wf s'"
  by (auto simp: handlers_wf_def stopHandler_def nth_list_update split: option.splits)

lemma fold_startHandler_wf: "handlers_wf s \<Longrightarrow> handlers_wf (fold startHandler es s)"
  by (induction es arbitrary: s) (auto simp: startHandler_wf)

lemma foldE_stopHandler_wf: "handlers_wf s \<Longrightarrow> foldE stopHandler es s = Inr s' \<Longrightarrow> handlers_wf s'"
  by (induction es arbitrary: s) (auto simp: bindE_eq_Inr dest: stopHandler_wf)

text \<open>A thread the table does not point to.\<close>

definition orphan :: "nat \<Rightarrow> string \<Rightarrow> client \<Rightarrow> bool" where
  "orphan k e s \<longleftrightarrow> k < length (subThreads s) \<and> th_at (subThreads s ! k) \<and>
     th_endpoint (subThreads s ! k) = e \<and> (\<forall>e'. endpointToHandler s e' \<noteq> Some k)"

lemma startHandler_orphan: "orphan k e s \<Longrightarrow> orphan k e (startHandler e' s)"
  by (auto simp: orphan_def startHandler_def Let_def nth_append)

lemma stopHandler_orphan:
  assumes "orphan k e s" and "stopHandler e' s = Inr s'"
  shows "orphan k e s'"
proof -
  from assms(2) obtain j where j: "endpointToHandler s e' = Some j"
    and s': "s' = s\<lparr>subThreads := (subThreads s)[j := (subThreads s ! j)\<lparr>th_at := False\<rparr>]\<rparr>"
    by (auto simp: stopHandler_def split: option.splits)
  with assms(1) have "j \<noteq> k" by (auto simp: orphan_def)
  with assms(1) show ?thesis by (simp add: orphan_def s')
qed

lemma fold_startHandler_orphan: "orphan k e s \<Longrightarrow> orphan k e (fold startHandler es s)"
  by (induction es arbitrary: s) (auto simp: startHandler_orphan)

lemma foldE_stopHandler_orphan: "orphan k e s \<Longrightarrow> foldE stopHandler es s = Inr s' \<Longrightarrow> orphan k e s'"
  by (induction es arbitrary: s) (auto simp: bindE_eq_Inr dest: stopHandler_orphan)

lemma handler_part_orphan: "handler_part s' = handler_part s \<Longrightarrow> orphan k e s' = orphan k e s"
  by (simp add: handler_part_def orphan_def)

lemma handler_part_wf: "handler_part s' = handler_part s \<Longrightarrow> handlers_wf s' = handlers_wf s"
  by (simp add: handler_part_def handlers_wf_def)

lemma hendleNewEndpoints_cases:
  assumes "hendleNewEndpoints s = Inr s'"
  obtains "s' = s" | s1 where "handler_part s1 = handler_part s"
    "foldE stopHandler (endpointsToUnsubscribe s) (fold startHandler (endpointsToSubscribe s) s1) = Inr s'"
proof (cases "endpointsToSubscribe s = [] \<and> endpointsToUnsubscribe s = []")
  case True
  with assms that(1) show thesis by (simp add: hendleNewEndpoints_def)
next
  case False
  with assms that(2) [of "s\<lparr>endpointsToSubscribe := [], endpointsToUnsubscribe := []\<rparr>"] show thesis
    by (simp add: hendleNewEndpoints_def takeEndpoints_def handler_part_def)
qed

lemma hendleNewEndpoints_orphan:
  assumes "hendleNewEndpoints s = Inr s'" and "orphan k e s"
  shows "orphan k e s'"
  using assms(1)
proof (cases rule: hendleNewEndpoints_cases)
  case (2 s1)
  from assms(2) have "orphan k e s1" using handler_part_orphan [OF 2(1)] by blast
  from foldE_stopHandler_orphan [OF fold_startHandler_orphan [OF this] 2(2)] show ?thesis .
qed (use assms(2) in simp)

lemma client_run_orphan:
  "(client_step J P)\<^sup>*\<^sup>* s s' \<Longrightarrow> orphan k e s \<Longrightarrow> orphan k e s'"
proof (induction rule: rtranclp_induct)
  case (step t u)
  with client_step_handlers [OF step(2)] handler_part_orphan [of u t k e]
    hendleNewEndpoints_orphan [of t u k e]
  show ?case by blast
qed

lemma hendleNewEndpoints_wf:
  assumes "hendleNewEndpoints s = Inr s'" and "handlers_wf s"
  shows "handlers_wf s'"
  using assms(1)
proof (cases rule: hendleNewEndpoints_cases)
  case (2 s1)
  from assms(2) have "handlers_wf s1" using handler_part_wf [OF 2(1)] by blast
  from foldE_stopHandler_wf [OF fold_startHandler_wf [OF this] 2(2)] show ?thesis .
qed (use assms(2) in simp)

lemma client_run_wf: "(client_step J P)\<^sup>*\<^sup>* s s' \<Longrightarrow> handlers_wf s \<Longrightarrow> handlers_wf s'"
proof (induction rule: rtranclp_induct)
  case (step t u)
  with client_step_handlers [OF step(2)] handler_part_wf [of u t] hendleNewEndpoints_wf [of t u]
  show ?case by blast
qed

lemma new_client_wf: "handlers_wf (new_client sc)"
  by (simp add: handlers_wf_def new_client_def)

lemma startHandler_makes_orphan:
  "handlers_wf s \<Longrightarrow> endpointToHandler s e \<noteq> None \<Longrightarrow>
   orphan (length (subThreads s)) e (startHandler e s)"
  by (fastforce simp: orphan_def startHandler_def Let_def handlers_wf_def)

lemma startHandler_keeps_known:
  "endpointToHandler s e \<noteq> None \<Longrightarrow> endpointToHandler (startHandler e' s) e \<noteq> None"
  by (auto simp: startHandler_def Let_def)

lemma startHandler_length: "length (subThreads s) \<le> length (subThreads (startHandler e s))"
  by (simp add: startHandler_def Let_def)

lemma fold_startHandler_known_orphan:
  assumes "e \<in> set es" and "handlers_wf s" and "endpointToHandler s e \<noteq> None"
  shows "\<exists>k \<ge> length (subThreads s). orphan k e (fold startHandler es s)"
  using assms
proof (induction es arbitrary: s)
  case (Cons x es)
  show ?case
  proof (cases "x = e")
    case True
    with fold_startHandler_orphan [OF startHandler_makes_orphan [OF Cons.prems(2,3)], of es]
    show ?thesis by auto
  next
    case False
    with Cons.prems have "e \<in> set es" by simp
    from Cons.IH [OF this startHandler_wf [OF Cons.prems(2)] startHandler_keeps_known [OF Cons.prems(3)]]
    obtain k where "k \<ge> length (subThreads (startHandler x s))"
      "orphan k e (fold startHandler es (startHandler x s))" by blast
    with startHandler_length [of s x] show ?thesis by (auto intro: order_trans)
  qed
qed simp

subsection \<open>Properties of the demo client\<close>

text \<open>A reader and a scenario for the examples.\<close>

definition sample_reader :: "string pb_reader" where
  "sample_reader = \<lparr>pb_parse = id,
     pb_message_type = (\<lambda>m. if m = ''book'' then MessageType_ORDERBOOK else MessageType_TRADE),
     pb_book_product_id = (\<lambda>_. ''ETH-USD''), pb_trade_product_id = (\<lambda>_. ''ETH-USD''),
     pb_trade_type = (\<lambda>_. TradeType_DONE)\<rparr>"

text \<open>
  A second subscription is for ever. When the client subscribes again to an endpoint it has known
  before, the thread that is started for it is not entered into the table of handlers: whatever the
  client does from then on, unsubscribing included, that thread keeps receiving.
\<close>

theorem resubscribed_thread_never_stops:
  assumes "(client_step J P)\<^sup>*\<^sup>* (new_client sc) s"
    and "endpointToHandler s e \<noteq> None" and "e \<in> set (endpointsToSubscribe s)"
    and "hendleNewEndpoints s = Inr s1"
  shows "\<exists>k \<ge> length (subThreads s). \<forall>s2. (client_step J P)\<^sup>*\<^sup>* s1 s2 \<longrightarrow>
    k < length (subThreads s2) \<and> th_at (subThreads s2 ! k) \<and> th_endpoint (subThreads s2 ! k) = e"
proof -
  have wf: "handlers_wf s" by (rule client_run_wf [OF assms(1) new_client_wf])
  define s0 where "s0 = snd (takeEndpoints s)"
  have s0: "handler_part s0 = handler_part s" by (simp add: s0_def takeEndpoints_def handler_part_def)
  have run: "foldE stopHandler (endpointsToUnsubscribe s) (fold startHandler (endpointsToSubscribe s) s0) = Inr s1"
    using assms(3,4) by (cases "endpointsToSubscribe s") (auto simp: hendleNewEndpoints_def takeEndpoints_def s0_def)
  have "handlers_wf s0" using wf handler_part_wf [OF s0] by blast
  moreover have known: "endpointToHandler s0 e \<noteq> None" and len: "subThreads s0 = subThreads s"
    using assms(2) s0 by (simp_all add: handler_part_def)
  ultimately obtain k where k: "k \<ge> length (subThreads s)"
    "orphan k e (fold startHandler (endpointsToSubscribe s) s0)"
    using fold_startHandler_known_orphan [OF assms(3)] by force
  from foldE_stopHandler_orphan [OF k(2) run] have "orphan k e s1" .
  then have "orphan k e s2" if "(client_step J P)\<^sup>*\<^sup>* s1 s2" for s2
    using client_run_orphan [OF that] by blast
  with k(1) show ?thesis by (auto simp: orphan_def)
qed

definition endpoints_reply :: "string \<Rightarrow> jdoc" where
  "endpoints_reply kind = sample_request kind [(''product_endpoint'', ''tcp://a:1''), (''trade_endpoint'', ''tcp://a:2'')]"

definition endpoints_lib :: "jdoc json_lib" where
  "endpoints_lib = ref_json [''sub'' \<mapsto> endpoints_reply ''subscribe_request'']"

definition subscribed_once :: client where
  "subscribed_once = (new_client [])\<lparr>endpointToHandler := [''tcp://a:1'' \<mapsto> 0, ''tcp://a:2'' \<mapsto> 1],
     subThreads := [\<lparr>th_endpoint = ''tcp://a:1'', th_at = True\<rparr>, \<lparr>th_endpoint = ''tcp://a:2'', th_at = True\<rparr>],
     endpointsToSubscribe := [''tcp://a:1'', ''tcp://a:2'']\<rparr>"

lemma subscribed_once_reached:
  "(client_step endpoints_lib sample_reader)\<^sup>*\<^sup>* (new_client []) subscribed_once"
proof -
  have r: "handleReply endpoints_lib ''sub'' s =
      Inr (s\<lparr>endpointsToSubscribe := (endpointsToSubscribe s @ [''tcp://a:1'']) @ [''tcp://a:2'']\<rparr>)" for s
    by (simp add: handleReply_def endpoints_lib_def endpoints_reply_def sample_request_def at_def str_at_def)
  have idle: "snd (nextMessage endpoints_lib s) = s" if "scenarioMessagesQueue s = []" for s
    using that by (simp add: nextMessage_def)
  let ?q = "(new_client [])\<lparr>endpointsToSubscribe := [''tcp://a:1'', ''tcp://a:2'']\<rparr>"
  let ?h = "subscribed_once\<lparr>endpointsToSubscribe := []\<rparr>"
  have "client_step endpoints_lib sample_reader (new_client []) ?q"
    using step_reply [where data = "''sub''" and s = "new_client []", OF _ r]
    by (simp add: idle new_client_def)
  moreover have "client_step endpoints_lib sample_reader ?q ?h"
    by (rule step_endpoints) (simp add: hendleNewEndpoints_def takeEndpoints_def startHandler_def
        new_client_def subscribed_once_def fun_upd_twist)
  moreover have "client_step endpoints_lib sample_reader ?h subscribed_once"
    using step_reply [where data = "''sub''" and s = ?h, OF _ r]
    by (simp add: idle subscribed_once_def new_client_def)
  ultimately show ?thesis by (meson converse_rtranclp_into_rtranclp r_into_rtranclp)
qed

theorem resubscribed_thread_never_stops_witness:
  "\<exists>s1. hendleNewEndpoints subscribed_once = Inr s1 \<and>
    (\<exists>k \<ge> 2. \<forall>s2. (client_step endpoints_lib sample_reader)\<^sup>*\<^sup>* s1 s2 \<longrightarrow>
      k < length (subThreads s2) \<and> th_at (subThreads s2 ! k) \<and>
      th_endpoint (subThreads s2 ! k) = ''tcp://a:1'')"
proof -
  have "\<exists>s1. hendleNewEndpoints subscribed_once = Inr s1"
    by (simp add: subscribed_once_def hendleNewEndpoints_def takeEndpoints_def new_client_def)
  then obtain s1 where s1: "hendleNewEndpoints subscribed_once = Inr s1" by blast
  have "endpointToHandler subscribed_once ''tcp://a:1'' \<noteq> None"
    "''tcp://a:1'' \<in> set (endpointsToSubscribe subscribed_once)"
    "length (subThreads subscribed_once) = 2"
    by (simp_all add: subscribed_once_def)
  with resubscribed_thread_never_stops [OF subscribed_once_reached _ _ s1] s1 show ?thesis by auto
qed

text \<open>
  What is printed. Whatever messages the receiving threads get in whatever order, the loop that
  handles them prints those that are not empty and came to a running thread, once each, in the order
  in which they were queued, after what was queued before.
\<close>

theorem received_printed_in_order:
  "printed (handleFeedMessages P (fold (\<lambda>(k, m). receiveMessage k m) ms s)) =
   printed s @ concat (map (feed_line P) (feedMessagesQueue s @
     map snd (filter (\<lambda>(k, m). k < length (subThreads s) \<and> th_at (subThreads s ! k) \<and> m \<noteq> '''') ms)))"
proof -
  have one: "receiveMessage k m s = s\<lparr>feedMessagesQueue := feedMessagesQueue s @
     (if k < length (subThreads s) \<and> th_at (subThreads s ! k) \<and> m \<noteq> '''' then [m] else [])\<rparr>" for k m s
    by (simp add: receiveMessage_def)
  have "fold (\<lambda>(k, m). receiveMessage k m) ms s = s\<lparr>feedMessagesQueue := feedMessagesQueue s @
     map snd (filter (\<lambda>(k, m). k < length (subThreads s) \<and> th_at (subThreads s ! k) \<and> m \<noteq> '''') ms)\<rparr>"
  proof (induction ms arbitrary: s)
    case (Cons x ms)
    obtain k m where x: "x = (k, m)" by (cases x)
    show ?case
      by (auto simp: x one [of k m s] Cons.IH)
  qed simp
  then show ?thesis by (simp add: handleFeedMessages_eq)
qed

definition entry_words :: "ScenarioEntry \<Rightarrow> string list" where
  "entry_words x = [if sc_subscribe x then ''sub'' else ''unsub'', sc_productId x, to_string (sc_timeInS x)]"

text \<open>
  The scenario on the command line. Words written for a list of entries are read back as those
  entries; when the number of words is no multiple of three, \<open>transform\<close> never returns a scenario.
\<close>

theorem transform_roundtrip:
  "(list_all (\<lambda>x. - (2 ^ 31) \<le> sc_timeInS x \<and> sc_timeInS x < 2 ^ 31) entries \<longrightarrow>
    transform (concat (map entry_words entries)) = Inr entries) \<and>
   (length ws mod 3 \<noteq> 0 \<longrightarrow> (\<exists>err. transform ws = Inl err))"
proof (intro conjI impI)
  assume "list_all (\<lambda>x. - (2 ^ 31) \<le> sc_timeInS x \<and> sc_timeInS x < 2 ^ 31) entries"
  then show "transform (concat (map entry_words entries)) = Inr entries"
    by (induction entries) (auto simp: entry_words_def stoi_to_string)
next
  assume "length ws mod 3 \<noteq> 0"
  then show "\<exists>err. transform ws = Inl err"
  proof (induction ws rule: transform.induct)
    case (2 w p t vec)
    then have "length vec mod 3 \<noteq> 0" by simp
    then show ?case
      using "2.IH" by (cases "stoi t") auto
  qed auto
qed

theorem transform_roundtrip_witness:
  "transform [''sub'', ''ETH-USD'', ''1'', ''unsub'', ''ETH-USD'', ''20''] =
     Inr [\<lparr>sc_subscribe = True, sc_productId = ''ETH-USD'', sc_timeInS = 1\<rparr>,
          \<lparr>sc_subscribe = False, sc_productId = ''ETH-USD'', sc_timeInS = 20\<rparr>] \<and>
   (\<exists>err. transform [''sub'', ''ETH-USD''] = Inl err)"
proof -
  let ?es = "[\<lparr>sc_subscribe = True, sc_productId = ''ETH-USD'', sc_timeInS = 1\<rparr>,
    \<lparr>sc_subscribe = False, sc_productId = ''ETH-USD'', sc_timeInS = 20\<rparr>]"
  have "concat (map entry_words ?es) = [''sub'', ''ETH-USD'', ''1'', ''unsub'', ''ETH-USD'', ''20'']"
    by code_simp
  with transform_roundtrip [of ?es "[''sub'', ''ETH-USD'']"] show ?thesis by simp
qed

text \<open>
  One message for one reply. As long as sending succeeds, the client sends exactly as many messages
  as it receives: a time-out sends nothing, so after a reply is lost the conversation is over, although
  the message printed at every time-out promises to try again.
\<close>

theorem client_sends_one_per_reply:
  assumes "clientLoop J rounds s = Inr (sent, s')"
    and "list_all (\<lambda>(message, sends, others). sends) rounds"
  shows "length sent = length (filter (\<lambda>(message, sends, others). message \<noteq> '''') rounds)"
  using assms
proof (induction rounds arbitrary: s sent)
  case (Cons r rounds)
  obtain message sends others where r: "r = (message, sends, others)" by (cases r)
  show ?case
  proof (cases "message = ''''")
    case True
    with Cons show ?thesis by (auto simp: r)
  next
    case False
    with Cons.prems obtain s1 where s1: "handleReply J message s = Inr s1" and "sends"
      by (auto simp: r bindE_eq_Inr)
    obtain response s2 where nm: "nextMessage J s1 = (response, s2)" by (cases "nextMessage J s1")
    with Cons.prems False s1 \<open>sends\<close> obtain sent' where
      "clientLoop J rounds (others s2) = Inr (sent', s')" "sent = response # sent'"
      by (auto simp: r bindE_eq_Inr)
    with Cons.IH [of "others s2" sent'] Cons.prems(2) False show ?thesis by (simp add: r)
  qed
qed simp

theorem client_sends_one_per_reply_witness:
  "\<exists>sent s'. clientLoop endpoints_lib [(''sub'', True, handleScenario), ('''', True, id), ('''', True, id)]
      (new_client []) = Inr (sent, s') \<and> length sent = 1"
proof -
  have "\<exists>sent s'. clientLoop endpoints_lib [(''sub'', True, handleScenario), ('''', True, id), ('''', True, id)]
      (new_client []) = Inr (sent, s')"
    by (simp add: handleReply_def endpoints_lib_def endpoints_reply_def sample_request_def at_def
        str_at_def nextMessage_def new_client_def)
  then obtain sent s' where run: "clientLoop endpoints_lib
      [(''sub'', True, handleScenario), ('''', True, id), ('''', True, id)] (new_client []) = Inr (sent, s')"
    by blast
  from client_sends_one_per_reply [OF run] run show ?thesis by auto
qed

subsection \<open>The client and the service in conversation\<close>

text \<open>
  A round: the service answers the pending message, the client handles the answer and sends the next
  message. \<open>None\<close> is a message that stays without an answer. The other threads of the client may do
  anything to the globals but write \<open>clientId\<close>, which they do not touch.
\<close>

fun conversation :: "'j json_lib \<Rightarrow> (string \<rightharpoonup> Endpoint) \<Rightarrow> (string \<Rightarrow> string \<Rightarrow> 's \<Rightarrow> 's res) \<Rightarrow>
    (string \<Rightarrow> string \<Rightarrow> 's \<Rightarrow> 's res) \<Rightarrow> (nat list \<times> (client \<Rightarrow> client)) list \<Rightarrow> string \<Rightarrow> client \<Rightarrow>
    's ClientService \<Rightarrow> (string \<times> client \<times> 's ClientService) option res" where
  "conversation J productIds subscribe unsubscribe [] m c cs = Inr (Some (m, c, cs))"
| "conversation J productIds subscribe unsubscribe ((draws, others) # rounds) m c cs =
     bindE (handle_request J productIds subscribe unsubscribe draws m cs) (\<lambda>(sent, cs').
       case sent of [] \<Rightarrow> Inr None
       | reply # _ \<Rightarrow>
           bindE (clientLoop J [(reply, True, others)] c) (\<lambda>(ms, c').
             case ms of [] \<Rightarrow> Inr None
             | m' # _ \<Rightarrow> conversation J productIds subscribe unsubscribe rounds m' c' cs'))"

lemmas flat_simps = flat_contains flat_str_at str_ref_contains

lemma flat_str_ref:
  assumes "json_lookup J" and "json_build J" and "distinct (map fst kvs)" and "map_of kvs k = Some v"
  shows "str_ref J (flat_doc J kvs) k = Inr v"
  using assms by (simp add: flat_simps)

lemma flat_kind:
  assumes "json_lookup J" and "json_build J" and "distinct (map fst kvs)" and "map_of kvs ''type'' = Some t"
  shows "kind_is J (flat_doc J kvs) k \<longleftrightarrow> t = k"
  using assms by (simp add: kind_is_def flat_simps)

lemma handleReply_flat:
  assumes "json_lookup J" and "json_build J" and "json_text J" and "distinct (map fst kvs)"
    and "map_of kvs ''type'' = Some t"
  shows "handleReply J (js_dump J (flat_doc J kvs)) s =
    (if t = ''client_id_request'' then
       bindE (str_at J (flat_doc J kvs) ''client_id'') (\<lambda>cid. Inr (s\<lparr>clientId := cid\<rparr>))
     else if t = ''subscribe_request'' then
       bindE (str_at J (flat_doc J kvs) ''product_endpoint'') (\<lambda>pe.
       bindE (str_at J (flat_doc J kvs) ''trade_endpoint'') (\<lambda>te.
         Inr (s\<lparr>endpointsToSubscribe := (endpointsToSubscribe s @ [pe]) @ [te]\<rparr>)))
     else if t = ''unsubscribe_request'' then
       bindE (str_at J (flat_doc J kvs) ''product_endpoint'') (\<lambda>pe.
       bindE (str_at J (flat_doc J kvs) ''trade_endpoint'') (\<lambda>te.
         Inr (s\<lparr>endpointsToUnsubscribe := (endpointsToUnsubscribe s @ [pe]) @ [te]\<rparr>)))
     else Inr s)"
proof -
  have c: "js_contains J (flat_doc J kvs) ''type''" using assms by (simp add: flat_contains)
  obtain v where v: "js_at J (flat_doc J kvs) ''type'' = Inr v"
    by (rule json_lookup_contains [OF assms(1) c])
  have "js_string J v = Inr t"
    using flat_str_at [OF assms(2,4,5)] v by (simp add: str_at_def at_def)
  then have "js_eq J v k \<longleftrightarrow> t = k" for k using json_lookup_eq [OF assms(1)] by simp
  moreover have "js_parse J (js_dump J (flat_doc J kvs)) = Some (flat_doc J kvs)"
    using assms(3) by (simp add: json_text_def)
  ultimately show ?thesis using c v by (simp add: handleReply_def at_def)
qed

text \<open>Everything the service and the client write is a flat document.\<close>

lemma flat_docs:
  "client_id_message J x = js_dump J (flat_doc J [(''type'', ''client_id_request''), (''client_id'', x),
     (''status'', ''registered'')])"
  "error_message J err = js_dump J (flat_doc J [(''type'', ''error''), (''error'', err)])"
  "client_id_request J = js_dump J (flat_doc J [(''type'', ''client_id_request'')])"
  "heartbeat_document J x = flat_doc J [(''type'', ''heartbeat''), (''client_id'', x)]"
  "scenario_document J x entry = flat_doc J
     [(''type'', if sc_subscribe entry then ''subscribe_request'' else ''unsubscribe_request''),
      (''client_id'', x), (''product_id'', sc_productId entry)]"
  by (simp_all add: client_id_message_def error_message_def client_id_request_def
      heartbeat_document_def scenario_document_def flat_doc_def)

lemma endpoints_document_flat:
  assumes "productIds p = Some e"
  shows "endpoints_document J productIds kind c p = Inr (flat_doc J
    [(''type'', kind), (''client_id'', c), (''product_id'', p),
     (''product_endpoint'', ''tcp://'' @ address e @ '':'' @ orderbookPort e),
     (''trade_endpoint'', ''tcp://'' @ address e @ '':'' @ tradePort e)])"
  using assms by (simp add: endpoints_document_def prodIdToPort_def flat_doc_def)

text \<open>What the service writes, and that the client takes it.\<close>

inductive reply_ok :: "'j json_lib \<Rightarrow> string \<Rightarrow> string \<Rightarrow> string \<Rightarrow> bool" for J :: "'j json_lib" where
  ok_id: "reply_ok J c x (client_id_message J x)"
| ok_error: "reply_ok J c c (error_message J err)"
| ok_beat: "reply_ok J c c (js_dump J (heartbeat_document J c))"
| ok_served: "kind \<in> {''subscribe_request'', ''unsubscribe_request''} \<Longrightarrow>
    reply_ok J c c (js_dump J (flat_doc J [(''type'', kind), (''client_id'', c), (''product_id'', p),
      (''product_endpoint'', pe), (''trade_endpoint'', te)]))"

lemma reply_ok_handled:
  assumes "json_lookup J" and "json_build J" and "json_text J"
    and "reply_ok J (clientId s) x reply"
  shows "\<exists>s'. handleReply J reply s = Inr s' \<and> clientId s' = x \<and> reply \<noteq> ''''"
proof -
  note H = handleReply_flat [OF assms(1-3)]
  have t: "js_dump J (flat_doc J kvs) \<noteq> ''''" for kvs using assms(3) by (simp add: json_text_def)
  from assms(4) show ?thesis
    by cases (auto simp: flat_docs H flat_str_at [OF assms(2)] t)
qed

text \<open>What the client sends, and that the service answers it.\<close>

definition request_ok :: "'j json_lib \<Rightarrow> string \<Rightarrow> string set \<Rightarrow> string \<Rightarrow> bool" where
  "request_ok J c ids m \<longleftrightarrow> m = client_id_request J \<or>
     c \<in> ids \<and> (m = js_dump J (heartbeat_document J c) \<or>
       (\<exists>entry. m = js_dump J (scenario_document J c entry)))"

lemma request_ok_answered:
  assumes "json_lookup J" and "json_build J" and "json_text J"
    and "\<And>c p s. contains productIds p \<Longrightarrow> \<exists>s'. subscribe c p s = Inr s'"
    and "\<And>c p s. contains productIds p \<Longrightarrow> \<exists>s'. unsubscribe c p s = Inr s'"
    and "request_ok J c (m_registeredClientIds cs) m"
  shows "\<exists>reply x cs'. handle_request J productIds subscribe unsubscribe draws m cs = Inr ([reply], cs') \<and>
    reply_ok J c x reply \<and> x \<in> m_registeredClientIds cs'"
proof -
  have run: "handle_request J productIds subscribe unsubscribe draws (js_dump J (flat_doc J kvs)) cs =
      dispatch J productIds subscribe unsubscribe draws (flat_doc J kvs) cs" for kvs
    using assms(3) by (simp add: handle_request_def json_text_def)
  note D = dispatch_kinds [OF assms(1)] flat_contains [OF assms(2)] flat_kind [OF assms(1,2)]
    flat_str_ref [OF assms(1,2)]
  consider (id) "m = client_id_request J"
    | (beat) "c \<in> m_registeredClientIds cs" "m = js_dump J (heartbeat_document J c)"
    | (entry) entry where "c \<in> m_registeredClientIds cs" "m = js_dump J (scenario_document J c entry)"
    using assms(6) by (auto simp: request_ok_def)
  then show ?thesis
  proof cases
    case id
    then show ?thesis
      by (auto simp: flat_docs(3) run D handle_client_id_def Let_def intro: ok_id)
  next
    case beat
    then have "handle_request J productIds subscribe unsubscribe draws m cs =
        Inr ([js_dump J (heartbeat_document J c)], cs)"
      by (simp add: flat_docs(4) run D handle_heartbeat_def flat_doc_def [symmetric])
        (simp add: flat_doc_def)
    with beat(1) show ?thesis by (auto intro: ok_beat)
  next
    case (entry entry)
    show ?thesis
    proof (cases "productIds (sc_productId entry)")
      case None
      then have "check_ids productIds c (sc_productId entry) '''' cs = ''UnknownProductId''"
        by (simp add: check_ids_def contains_def)
      then have "handle_request J productIds subscribe unsubscribe draws m cs =
          Inr ([error_message J ''UnknownProductId''], cs)"
        by (simp add: entry(2) flat_docs(5) run D handle_subscribe_def handle_unsubscribe_def)
      with entry(1) show ?thesis by (auto intro: ok_error)
    next
      case (Some e)
      then have k: "contains productIds (sc_productId entry)" by (simp add: contains_def)
      with entry(1) have ck: "check_ids productIds c (sc_productId entry) '''' cs = ''''"
        by (simp add: check_ids_def)
      obtain s1 s2 where s: "subscribe c (sc_productId entry) (m_productSubscriber cs) = Inr s1"
        "unsubscribe c (sc_productId entry) (m_productSubscriber cs) = Inr s2"
        using assms(4,5) [OF k] by blast
      define kind where "kind = (if sc_subscribe entry then ''subscribe_request'' else ''unsubscribe_request'')"
      have "\<exists>cs'. handle_request J productIds subscribe unsubscribe draws m cs =
          Inr ([js_dump J (projr (endpoints_document J productIds kind c (sc_productId entry)))], cs') \<and>
          c \<in> m_registeredClientIds cs'"
        using entry(1) by (simp add: entry(2) flat_docs(5) run D handle_subscribe_def kind_def
            handle_unsubscribe_def ck s endpoints_document_flat [where productIds = productIds, OF Some])
      then obtain cs' where "handle_request J productIds subscribe unsubscribe draws m cs =
          Inr ([js_dump J (projr (endpoints_document J productIds kind c (sc_productId entry)))], cs')"
        "c \<in> m_registeredClientIds cs'" by blast
      moreover have "reply_ok J c c
          (js_dump J (projr (endpoints_document J productIds kind c (sc_productId entry))))"
        unfolding endpoints_document_flat [where productIds = productIds, OF Some] sum.sel
        by (rule ok_served) (simp add: kind_def)
      ultimately show ?thesis by blast
    qed
  qed
qed

lemma nextMessage_request_ok:
  assumes "json_text J" and "clientId s \<in> ids"
  shows "request_ok J (clientId s) ids (fst (nextMessage J s)) \<and> clientId (snd (nextMessage J s)) = clientId s"
  using assms by (auto simp: nextMessage_def request_ok_def json_text_def flat_docs split: list.splits)


definition talk_rounds :: "(nat list \<times> (client \<Rightarrow> client)) list" where
  "talk_rounds = [(sample_draws, handleScenario), ([], handleScenario), ([], id)]"

definition talk_scenario :: "ScenarioEntry list" where
  "talk_scenario = [\<lparr>sc_subscribe = True, sc_productId = ''ETH-USD'', sc_timeInS = 1\<rparr>,
     \<lparr>sc_subscribe = True, sc_productId = ''DOGE'', sc_timeInS = 1\<rparr>]"


end
