(* ===== verification/Catch_Strings.thy ===== *)
theory Catch_Strings
  imports Std_Strings "HOL-Library.Sublist"
begin

section \<open>String functions of the test framework\<close>

text \<open>
  The tests of the repository are written with Catch2, whose amalgamated sources are part of it
  (\<open>ext/catch2/catch2/catch.cpp\<close>). This theory has its functions on strings, the comparison of
  \<open>StringRef\<close>, and the registry of tag aliases. A \<open>StringRef\<close> is the text it refers to; a
  \<open>size_t\<close> is a natural number, since no length comes near the end of its range.
\<close>

definition toLowerCh :: "char \<Rightarrow> char" where
  "toLowerCh c = (let n = of_char c :: nat in if 65 \<le> n \<and> n \<le> 90 then char_of (n + 32) else c)"

definition startsWith :: "string \<Rightarrow> string \<Rightarrow> bool" where
  "startsWith s pre \<longleftrightarrow> length s \<ge> length pre \<and> take (length pre) s = pre"

definition startsWith_char :: "string \<Rightarrow> char \<Rightarrow> bool" where
  "startsWith_char s c \<longleftrightarrow> s \<noteq> [] \<and> s ! 0 = c"

definition endsWith :: "string \<Rightarrow> string \<Rightarrow> bool" where
  "endsWith s suf \<longleftrightarrow> length s \<ge> length suf \<and> take (length suf) (rev s) = rev suf"

definition endsWith_char :: "string \<Rightarrow> char \<Rightarrow> bool" where
  "endsWith_char s c \<longleftrightarrow> s \<noteq> [] \<and> s ! (length s - 1) = c"

definition str_contains :: "string \<Rightarrow> string \<Rightarrow> bool" where
  "str_contains s infx \<longleftrightarrow> str_find s infx 0 \<noteq> None"

definition toLower :: "string \<Rightarrow> string" where
  "toLower s = map toLowerCh s"

definition trim_space :: "char set" where
  "trim_space = {CHR 0x0A, CHR 0x0D, CHR 0x09, CHR '' ''}"

definition trim :: "string \<Rightarrow> string" where
  "trim str = (case find_first_not_of trim_space str of
       None \<Rightarrow> []
     | Some start \<Rightarrow>
         (case find_last_not_of trim_space str of
            None \<Rightarrow> []  \<comment> \<open>no case: there is a first one\<close>
          | Some end_ \<Rightarrow> take (1 + end_ - start) (drop start str)))"

text \<open>The overload for \<open>StringRef\<close>, with its two loops.\<close>

definition is_ws :: "char \<Rightarrow> bool" where
  "is_ws c \<longleftrightarrow> c = CHR '' '' \<or> c = CHR 0x09 \<or> c = CHR 0x0A \<or> c = CHR 0x0D"

function real_begin :: "string \<Rightarrow> nat \<Rightarrow> nat" where
  "real_begin ref i = (if i < length ref \<and> is_ws (ref ! i) then real_begin ref (i + 1) else i)"
  by auto
termination by (relation "measure (\<lambda>(ref, i). length ref - i)") auto

fun real_end :: "string \<Rightarrow> nat \<Rightarrow> nat \<Rightarrow> nat" where
  "real_end ref b e = (if e > b \<and> is_ws (ref ! (e - 1)) then real_end ref b (e - 1) else e)"

declare real_begin.simps [simp del] real_end.simps [simp del]

definition trim_ref :: "string \<Rightarrow> string" where
  "trim_ref ref = (let b = real_begin ref 0; e = real_end ref b (length ref)
     in take (e - b) (drop b ref))"

text \<open>The loop of \<open>replaceInPlace\<close>, from a position of a match on; it need not end.\<close>

partial_function (option) replace_loop :: "string \<Rightarrow> string \<Rightarrow> nat option \<Rightarrow> string \<Rightarrow> string option" where
  "replace_loop replaceThis withThis i str = (case i of
       None \<Rightarrow> Some str
     | Some i \<Rightarrow>
         (let str' = take i str @ withThis @ drop (i + length replaceThis) str
          in replace_loop replaceThis withThis
               (if i < length str' - length withThis
                then str_find str' replaceThis (i + length withThis) else None)
               str'))"

definition replaceInPlace :: "string \<Rightarrow> string \<Rightarrow> string \<Rightarrow> (string \<times> bool) option" where
  "replaceInPlace str replaceThis withThis =
     map_option (\<lambda>s. (s, str_find str replaceThis 0 \<noteq> None))
       (replace_loop replaceThis withThis (str_find str replaceThis 0) str)"

definition split_step :: "string \<Rightarrow> char \<Rightarrow> nat \<times> string list \<Rightarrow> nat \<Rightarrow> nat \<times> string list" where
  "split_step str delimiter st pos = (case st of (start, subStrings) \<Rightarrow>
     if str ! pos = delimiter
     then (pos + 1, if pos - start > 1 then subStrings @ [take (pos - start) (drop start str)] else subStrings)
     else (start, subStrings))"

definition splitStringRef :: "string \<Rightarrow> char \<Rightarrow> string list" where
  "splitStringRef str delimiter =
     (let (start, subStrings) = foldl (split_step str delimiter) (0, []) [0..<length str]
      in if start < length str then subStrings @ [drop start str] else subStrings)"

record pluralise =
  m_count :: nat
  m_label :: string

definition pluralise_text :: "pluralise \<Rightarrow> string" where
  "pluralise_text p = digits (m_count p) @ '' '' @ m_label p @ (if m_count p \<noteq> 1 then ''s'' else '''')"

subsection \<open>\<open>StringRef\<close>\<close>

text \<open>\<open>strncmp\<close> compares bytes as unsigned numbers and stops at a zero byte.\<close>

fun strncmp :: "nat \<Rightarrow> string \<Rightarrow> string \<Rightarrow> int" where
  "strncmp 0 s t = 0"
| "strncmp (Suc n) (a # s) (b # t) =
     (if a \<noteq> b then of_char a - of_char b else if a = CHR 0x00 then 0 else strncmp n s t)"
| "strncmp (Suc n) [] [] = 0"
| "strncmp (Suc n) [] (b # t) = - of_char b"
| "strncmp (Suc n) (a # s) [] = of_char a"

definition StringRef_eq :: "string \<Rightarrow> string \<Rightarrow> bool" where
  "StringRef_eq this other \<longleftrightarrow> length this = length other \<and> this = take (length this) other"

definition StringRef_less :: "string \<Rightarrow> string \<Rightarrow> bool" where
  "StringRef_less this rhs =
     (if length this < length rhs then strncmp (length this) this rhs \<le> 0
      else strncmp (length rhs) this rhs < 0)"

definition StringRef_append :: "string \<Rightarrow> string \<Rightarrow> string" where
  "StringRef_append lhs rhs = lhs @ take (length rhs) rhs"

definition StringRef_plus :: "string \<Rightarrow> string \<Rightarrow> string" where
  "StringRef_plus lhs rhs =
     (let ret = []; ret1 = StringRef_append ret lhs in StringRef_append ret1 rhs)"

subsection \<open>Tag aliases\<close>

record TagAlias =
  alias_tag :: string
  alias_line :: string

text \<open>The registry is a \<open>std::map\<close>, walked in the order of its keys.\<close>

type_synonym TagAliasRegistry = "(string \<times> TagAlias) list"

definition alias_find :: "TagAliasRegistry \<Rightarrow> string \<Rightarrow> TagAlias option" where
  "alias_find registry alias = map_of registry alias"

definition expand_one :: "string \<times> TagAlias \<Rightarrow> string \<Rightarrow> string" where
  "expand_one kvp spec = (case str_find spec (fst kvp) 0 of
       None \<Rightarrow> spec
     | Some pos \<Rightarrow> take pos spec @ alias_tag (snd kvp) @ drop (pos + length (fst kvp)) spec)"

definition expandAliases :: "TagAliasRegistry \<Rightarrow> string \<Rightarrow> string" where
  "expandAliases registry unexpandedTestSpec = fold expand_one registry unexpandedTestSpec"

text \<open>\<open>std::string\<close> compares like \<open>StringRef\<close>, but without stopping at a zero byte.\<close>

fun string_less :: "string \<Rightarrow> string \<Rightarrow> bool" where
  "string_less s [] = False"
| "string_less [] (b # t) = True"
| "string_less (a # s) (b # t) =
     (of_char a < (of_char b :: nat) \<or> a = b \<and> string_less s t)"

fun map_insert :: "string \<Rightarrow> TagAlias \<Rightarrow> TagAliasRegistry \<Rightarrow> TagAliasRegistry" where
  "map_insert k v [] = [(k, v)]"
| "map_insert k v ((k', v') # r) = (if string_less k k' then (k, v) # (k', v') # r
     else (k', v') # map_insert k v r)"

definition alias_add :: "string \<Rightarrow> string \<Rightarrow> string \<Rightarrow> TagAliasRegistry \<Rightarrow> TagAliasRegistry res" where
  "alias_add alias tag lineInfo registry =
     (if \<not> (startsWith alias ''[@'' \<and> endsWith_char alias (CHR '']'')) then Inl Domain_Error
      else if alias_find registry alias \<noteq> None then Inl Domain_Error
      else Inr (map_insert alias \<lparr>alias_tag = tag, alias_line = lineInfo\<rparr> registry))"

subsection \<open>Orders on text\<close>

lemma string_less_irrefl [simp]: "\<not> string_less s s"
  by (induction s) auto

lemma string_less_trans: "string_less s t \<Longrightarrow> string_less t u \<Longrightarrow> string_less s u"
proof (induction s t arbitrary: u rule: string_less.induct)
  case (2 b t)
  then show ?case by (cases u) auto
next
  case (3 a s b t)
  then show ?case by (cases u) auto
qed simp

lemma string_less_total: "s \<noteq> t \<Longrightarrow> string_less s t \<or> string_less t s"
proof (induction s t rule: string_less.induct)
  case (1 s)
  then show ?case by (cases s) auto
next
  case (3 a s b t)
  then show ?case by (metis linorder_neqE_nat list.inject of_char_eq_iff string_less.simps(3))
qed simp

lemma of_char_less_int: "(of_char a :: int) < of_char b \<longleftrightarrow> (of_char a :: nat) < of_char b"
proof -
  have "(of_char a :: int) = int (of_char a)" "(of_char b :: int) = int (of_char b)" by (simp_all only: of_nat_of_char)
  then show ?thesis by (simp only: of_nat_less_iff)
qed

lemma strncmp_min:
  assumes "CHR 0x00 \<notin> set s" and "CHR 0x00 \<notin> set t" and "length s \<ge> n" and "length t \<ge> n"
  shows "strncmp n s t < 0 \<longleftrightarrow> string_less (take n s) (take n t)"
    and "strncmp n s t = 0 \<longleftrightarrow> take n s = take n t"
  using assms by (induction n s t rule: strncmp.induct) (auto simp: of_char_less_int)

lemma string_less_append: "length s = length s' \<Longrightarrow>
  string_less (s @ u) (s' @ v) \<longleftrightarrow> string_less s s' \<or> s = s' \<and> string_less u v"
  by (induction s s' rule: list_induct2) auto

lemma string_less_take:
  assumes "n \<le> length s" and "n \<le> length t"
  shows "string_less s t \<longleftrightarrow>
    string_less (take n s) (take n t) \<or> take n s = take n t \<and> string_less (drop n s) (drop n t)"
  using string_less_append [of "take n s" "take n t" "drop n s" "drop n t"] assms by simp

lemma StringRef_less_bytes:
  assumes "CHR 0x00 \<notin> set s" and "CHR 0x00 \<notin> set t"
  shows "StringRef_less s t = string_less s t"
proof (cases "length s < length t")
  case True
  note c = strncmp_min [OF assms, of "length s"]
  from True have "drop (length s) t \<noteq> []" by simp
  then obtain b u where "drop (length s) t = b # u" by (cases "drop (length s) t") auto
  with True c show ?thesis
    by (auto simp: StringRef_less_def string_less_take [of "length s" s t] order_le_less)
next
  case False
  note c = strncmp_min [OF assms, of "length t"]
  from False show ?thesis
    by (simp add: StringRef_less_def string_less_take [of "length t" s t] c)
qed

lemma string_less_lexord:
  "string_less s t \<longleftrightarrow> (map of_char s, map of_char t) \<in> lexord {(m, n :: nat). m < n}"
  by (induction s t rule: string_less.induct) auto

text \<open>
  Comparing references. On texts without a zero byte the comparison of \<open>StringRef\<close> with its two
  cases on the lengths is the lexicographic order on unsigned bytes, so it is a strict total order.
\<close>

theorem StringRef_less_lexicographic:
  assumes "CHR 0x00 \<notin> set s" and "CHR 0x00 \<notin> set t"
  shows "StringRef_less s t \<longleftrightarrow>
    (map of_char s, map of_char t) \<in> lexord {(m, n :: nat). m < n}"
  by (simp add: StringRef_less_bytes [OF assms] string_less_lexord)

theorem StringRef_less_lexicographic_witness:
  "StringRef_less [CHR ''a'', CHR 0xE9] [CHR ''b''] \<longleftrightarrow>
    (map of_char [CHR ''a'', CHR 0xE9], map of_char [CHR ''b'']) \<in> lexord {(m, n :: nat). m < n}"
  by (rule StringRef_less_lexicographic) simp_all

subsection \<open>The two forms of \<open>trim\<close>\<close>

lemma is_ws_trim_space: "is_ws c \<longleftrightarrow> c \<in> trim_space"
  by (auto simp: is_ws_def trim_space_def)

lemma real_begin_first:
  assumes "i \<le> b" and "b < length ref" and "\<And>j. j < b \<Longrightarrow> is_ws (ref ! j)" and "\<not> is_ws (ref ! b)"
  shows "real_begin ref i = b"
  using assms(1)
proof (induction "b - i" arbitrary: i)
  case 0
  with assms(4) show ?case by (simp add: real_begin.simps)
next
  case (Suc n)
  with assms(2,3) show ?case by (simp add: real_begin.simps [of ref i])
qed

lemma real_begin_all:
  assumes "i \<le> length ref" and "\<And>j. j < length ref \<Longrightarrow> is_ws (ref ! j)"
  shows "real_begin ref i = length ref"
  using assms(1)
proof (induction "length ref - i" arbitrary: i)
  case 0
  then show ?case by (simp add: real_begin.simps)
next
  case (Suc n)
  with assms(2) show ?case by (simp add: real_begin.simps [of ref i])
qed

lemma real_end_last:
  assumes "Suc k \<le> e" and "b \<le> k" and "\<And>j. k < j \<Longrightarrow> j < e \<Longrightarrow> is_ws (ref ! j)" and "\<not> is_ws (ref ! k)"
  shows "real_end ref b e = Suc k"
  using assms(1,3)
proof (induction "e - Suc k" arbitrary: e)
  case 0
  with assms(4) show ?case by (simp add: real_end.simps)
next
  case (Suc n)
  then have "is_ws (ref ! (e - 1))" by simp
  moreover have "real_end ref b (e - 1) = Suc k"
    using Suc.hyps Suc.prems by (intro Suc.hyps(1)) auto
  ultimately show ?case using Suc.hyps(2) assms(2) by (simp add: real_end.simps [of ref b e])
qed

lemma first_last_not_of:
  assumes "find_first_not_of cs s = Some b"
  obtains e where "find_last_not_of cs s = Some e" and "b \<le> e" and "e < length s"
    and "s ! b \<notin> cs" and "s ! e \<notin> cs" and "\<And>j. j < b \<Longrightarrow> s ! j \<in> cs"
    and "\<And>j. e < j \<Longrightarrow> j < length s \<Longrightarrow> s ! j \<in> cs"
proof -
  from assms have b: "b < length s" "s ! b \<notin> cs" "\<And>j. j < b \<Longrightarrow> s ! j \<in> cs"
    by (auto simp: find_first_not_of_def find_upt_Some)
  have "find_last_not_of cs s \<noteq> None"
    using b by (auto simp: find_last_not_of_def find_None_iff)
  then obtain e where e: "find_last_not_of cs s = Some e" by blast
  then obtain i where i: "i < length s" "s ! (rev [0..<length s] ! i) \<notin> cs" "e = rev [0..<length s] ! i"
    "\<And>j. j < i \<Longrightarrow> s ! (rev [0..<length s] ! j) \<in> cs"
    by (auto simp: find_last_not_of_def find_Some_iff)
  then have ei: "e = length s - Suc i" "s ! e \<notin> cs" by (simp_all add: rev_nth)
  have after: "s ! j \<in> cs" if "e < j" "j < length s" for j
  proof -
    have "length s - Suc j < i" using that ei(1) i(1) by linarith
    from i(4) [OF this] that show ?thesis by (simp add: rev_nth)
  qed
  have "b \<le> e" using after [of b] b(1,2) by force
  moreover have "e < length s" using ei(1) i(1) by simp
  ultimately show thesis using that [OF e _ _ b(2) ei(2) b(3) after] by blast
qed

lemma trim_versions_ends:
  "trim s = trim_ref s \<and> (trim s \<noteq> [] \<longrightarrow> \<not> is_ws (hd (trim s)) \<and> \<not> is_ws (last (trim s)))"
proof (cases "find_first_not_of trim_space s")
  case None
  then have "\<And>j. j < length s \<Longrightarrow> is_ws (s ! j)"
    by (auto simp: find_first_not_of_def find_None_iff is_ws_trim_space)
  from real_begin_all [OF _ this] have "real_begin s 0 = length s" by simp
  with None show ?thesis by (simp add: trim_def trim_ref_def Let_def)
next
  case (Some b)
  from first_last_not_of [OF Some] obtain e where e: "find_last_not_of trim_space s = Some e" "b \<le> e"
    "e < length s" "\<not> is_ws (s ! b)" "\<not> is_ws (s ! e)" "\<And>j. j < b \<Longrightarrow> is_ws (s ! j)"
    "\<And>j. e < j \<Longrightarrow> j < length s \<Longrightarrow> is_ws (s ! j)"
    unfolding is_ws_trim_space by metis
  have "real_begin s 0 = b" using e by (intro real_begin_first) auto
  moreover have "real_end s b (length s) = Suc e" using e by (intro real_end_last) auto
  moreover have t: "trim s = take (1 + e - b) (drop b s)" using Some e(1) by (simp add: trim_def)
  ultimately have "trim s = trim_ref s" by (simp add: trim_ref_def)
  moreover have "trim s \<noteq> []" "hd (trim s) = s ! b" "last (trim s) = s ! e"
    using e(2,3) by (auto simp: t hd_drop_conv_nth last_conv_nth hd_conv_nth)
  ultimately show ?thesis using e(4,5) by simp
qed

text \<open>
  The two forms of trimming agree. The \<open>std::string\<close> version, which searches for the first and
  the last character that is no white space, and the \<open>StringRef\<close> version, which moves two indices,
  give the same text; it starts and ends with no white space.
\<close>

theorem trim_versions_agree:
  "trim s = trim_ref s \<and> (trim s \<noteq> [] \<longrightarrow> \<not> is_ws (hd (trim s)) \<and> \<not> is_ws (last (trim s)))"
  by (rule trim_versions_ends)

theorem trim_versions_agree_witness: "trim '' a b  '' = ''a b'' \<and> trim_ref '' a b  '' = ''a b''"
  by code_simp

subsection \<open>Replacing\<close>

text \<open>What \<open>replaceInPlace\<close> means to do: replace every occurrence, from left to right.\<close>

function replace_all :: "string \<Rightarrow> string \<Rightarrow> string \<Rightarrow> string" where
  "replace_all t w s =
     (if t = [] \<or> s = [] then s
      else if take (length t) s = t then w @ replace_all t w (drop (length t) s)
      else hd s # replace_all t w (tl s))"
  by auto
termination by (relation "measure (\<lambda>(t, w, s). length s)") auto

declare replace_all.simps [simp del]

lemma replace_all_skip:
  assumes "\<And>j. j < i \<Longrightarrow> \<not> occurs_at s t j" and "i \<le> length s"
  shows "replace_all t w s = take i s @ replace_all t w (drop i s)"
  using assms
proof (induction i arbitrary: s)
  case (Suc i)
  show ?case
  proof (cases "t = []")
    case True
    with Suc.prems show ?thesis by (auto simp: replace_all.simps)
  next
    case False
    from Suc.prems(2) obtain c r where s: "s = c # r" by (cases s) auto
    have "take (length t) s \<noteq> t"
    proof
      assume "take (length t) s = t"
      then have "occurs_at s t 0" by (auto simp: occurs_at_def) (metis length_take linorder_linear min.absorb_iff2)
      with Suc.prems(1) [of 0] show False by simp
    qed
    then have "replace_all t w s = c # replace_all t w r"
      using False by (subst replace_all.simps) (simp add: s)
    moreover have "replace_all t w r = take i r @ replace_all t w (drop i r)"
    proof (rule Suc.IH)
      show "\<not> occurs_at r t j" if "j < i" for j
        using Suc.prems(1) [of "Suc j"] that by (simp add: s occurs_at_def)
      show "i \<le> length r" using Suc.prems(2) s by simp
    qed
    ultimately show ?thesis by (simp add: s)
  qed
qed simp

lemma replace_all_none: "\<forall>j. \<not> occurs_at s t j \<Longrightarrow> replace_all t w s = s"
  using replace_all_skip [of "length s" s t w] by (simp add: replace_all.simps)

lemma replace_all_first:
  assumes "str_find s t 0 = Some i" and "t \<noteq> []"
  shows "replace_all t w s = take i s @ w @ replace_all t w (drop (i + length t) s)"
proof -
  from assms(1) have i: "occurs_at s t i" "\<And>j. j < i \<Longrightarrow> \<not> occurs_at s t j"
    by (simp_all add: str_find_Some)
  then have "take (length t) (drop i s) = t" "i \<le> length s" by (simp_all add: occurs_at_def)
  moreover from this assms(2) have "drop i s \<noteq> []" by auto
  ultimately have "replace_all t w (drop i s) = w @ replace_all t w (drop (i + length t) s)"
    using assms(2) by (simp add: replace_all.simps [of t w "drop i s"] add.commute)
  with replace_all_skip [of i s t w] i(2) \<open>i \<le> length s\<close> show ?thesis by simp
qed

lemma replace_loop_result:
  assumes "t \<noteq> []" and "p \<le> length s"
  shows "replace_loop t w (str_find s t p) s = Some (take p s @ replace_all t w (drop p s))"
  using assms(2)
proof (induction "length s - p" arbitrary: s p rule: less_induct)
  case less
  show ?case
  proof (cases "str_find (drop p s) t 0")
    case None
    then have "str_find s t p = None" "replace_all t w (drop p s) = drop p s"
      using less.prems by (simp_all add: str_find_drop [of p s] str_find_None replace_all_none)
    then show ?thesis by (simp add: replace_loop.simps)
  next
    case (Some k)
    define i where "i = p + k"
    define s' where "s' = take i s @ w @ drop (i + length t) s"
    have f: "str_find s t p = Some i" using Some less.prems by (simp add: str_find_drop [of p s] i_def)
    have len: "i + length t \<le> length s" using f by (simp add: str_find_Some occurs_at_def)
    then have s'_len: "length s' = length s - length t + length w" by (simp add: s'_def)
    have all: "take p s @ replace_all t w (drop p s) = take i s @ w @ replace_all t w (drop (i + length t) s)"
    proof -
      have "drop (k + length t) (drop p s) = drop (i + length t) s" by (simp add: i_def ac_simps)
      then show ?thesis using replace_all_first [OF Some assms(1), of w] by (simp add: i_def take_add)
    qed
    have step: "replace_loop t w (Some i) s =
        replace_loop t w (if i < length s' - length w then str_find s' t (i + length w) else None) s'"
      by (subst replace_loop.simps) (simp add: s'_def [symmetric] Let_def)
    have parts: "take (i + length w) s' = take i s @ w" "drop (i + length w) s' = drop (i + length t) s"
      using len by (simp_all add: s'_def)
    show ?thesis
    proof (cases "i < length s' - length w")
      case True
      have "length s' - (i + length w) < length s - p"
        using True s'_len len assms(1) by (simp add: i_def) (cases t, auto)
      moreover have "i + length w \<le> length s'" using True by simp
      ultimately show ?thesis
        using less.hyps [of s' "i + length w"] True by (simp add: f step all parts)
    next
      case False
      with s'_len len have "drop (i + length t) s = []" by simp
      moreover have "replace_loop t w None s' = Some s'" by (simp add: replace_loop.simps)
      moreover have "replace_all t w [] = []" by (simp add: replace_all.simps)
      ultimately show ?thesis using False by (simp add: f step all) (simp add: s'_def)
    qed
  qed
qed

lemma replace_loop_empty:
  assumes "replace_loop t w i s = Some r"
  shows "t = [] \<longrightarrow> \<not> (\<exists>k < length s. i = Some k)"
proof (rule replace_loop.raw_induct [OF _ assms], intro impI notI)
  fix f t w i s r
  assume ih: "\<And>t w i s r. f t w i s = Some r \<Longrightarrow> t = [] \<longrightarrow> \<not> (\<exists>k < length s. i = Some k)"
    and run: "(case i of None \<Rightarrow> Some s | Some i \<Rightarrow>
         (let str' = take i s @ w @ drop (i + length t) s
          in f t w (if i < length str' - length w then str_find str' t (i + length w) else None) str')) = Some r"
    and "t = []" "\<exists>k < length s. i = Some k"
  then obtain k where k: "k < length s" "i = Some k" "t = []" by blast
  have "occurs_at u [] j \<longleftrightarrow> j \<le> length u" for u j by (simp add: occurs_at_def)
  then have e: "str_find u [] j = Some j" if "j \<le> length u" for u j
    using that by (simp add: str_find_Some)
  let ?s = "take k s @ w @ drop k s"
  have "f [] w (Some (k + length w)) ?s = Some r"
    using run k e by (simp add: Let_def)
  with ih [of "[]" w "Some (k + length w)" ?s r] k(1) show False by simp
qed

text \<open>
  Replacing. For a non-empty pattern \<open>replaceInPlace\<close> returns, with every occurrence replaced from
  left to right, and says whether there was one; what it puts in is not searched again. For the empty
  pattern it never returns, unless the text is empty too.
\<close>

theorem replaceInPlace_replaces:
  "(t \<noteq> [] \<longrightarrow> replaceInPlace s t w = Some (replace_all t w s, str_contains s t)) \<and>
   (s \<noteq> [] \<longrightarrow> replaceInPlace s [] w = None)"
proof (intro conjI impI)
  assume "t \<noteq> []"
  from replace_loop_result [OF this, of 0 s w]
  show "replaceInPlace s t w = Some (replace_all t w s, str_contains s t)"
    by (simp add: replaceInPlace_def str_contains_def)
next
  assume "s \<noteq> []"
  have "str_find s [] 0 = Some 0" by (simp add: str_find_Some occurs_at_def)
  moreover have "replace_loop [] w (Some 0) s \<noteq> Some r" for r
    using replace_loop_empty [of "[]" w "Some 0" s r] \<open>s \<noteq> []\<close> by auto
  ultimately show "replaceInPlace s [] w = None"
    by (cases "replace_loop [] w (Some 0) s") (auto simp: replaceInPlace_def)
qed

theorem replaceInPlace_replaces_witness:
  "replaceInPlace ''a-b-c'' ''-'' ''--'' = Some (''a--b--c'', True) \<and> replaceInPlace ''ab'' [] ''x'' = None"
proof -
  have "replace_all ''-'' ''--'' ''a-b-c'' = ''a--b--c'' \<and> str_contains ''a-b-c'' ''-''"
    by code_simp
  with replaceInPlace_replaces [of "''-''" "''a-b-c''" "''--''"] replaceInPlace_replaces [of "''-''" "''ab''" "''x''"]
  show ?thesis by simp
qed

subsection \<open>Splitting\<close>

text \<open>The pieces between delimiters, empty ones included.\<close>

fun pieces :: "char \<Rightarrow> string \<Rightarrow> string list" where
  "pieces d [] = [[]]"
| "pieces d (c # s) = (if c = d then [] # pieces d s else (c # hd (pieces d s)) # tl (pieces d s))"

lemma pieces_nonempty [simp]: "pieces d s \<noteq> []"
  by (cases s) auto

lemma pieces_snoc: "pieces d (s @ [c]) =
    (if c = d then pieces d s @ [[]] else butlast (pieces d s) @ [last (pieces d s) @ [c]])"
proof (induction s)
  case (Cons x s)
  obtain p ps where "pieces d s = p # ps" by (cases "pieces d s") auto
  with Cons show ?case by (cases ps) auto
qed simp

lemma split_fold:
  assumes "n \<le> length s"
  shows "\<exists>start. foldl (split_step s d) (0, []) [0..<n] =
      (start, filter (\<lambda>p. length p > 1) (butlast (pieces d (take n s)))) \<and>
    start \<le> n \<and> last (pieces d (take n s)) = take (n - start) (drop start s)"
  using assms
proof (induction n)
  case (Suc n)
  then obtain start where st: "foldl (split_step s d) (0, []) [0..<n] =
      (start, filter (\<lambda>p. length p > 1) (butlast (pieces d (take n s))))"
    "start \<le> n" "last (pieces d (take n s)) = take (n - start) (drop start s)" by auto
  have t: "take (Suc n) s = take n s @ [s ! n]" using Suc.prems by (simp add: take_Suc_conv_app_nth)
  have len: "length (take (n - start) (drop start s)) = n - start" using Suc.prems st(2) by simp
  have more: "take (Suc n - start) (drop start s) = take (n - start) (drop start s) @ [s ! n]"
    using Suc.prems st(2) by (simp add: Suc_diff_le take_Suc_conv_app_nth)
  have ap: "pieces d (take n s) = butlast (pieces d (take n s)) @ [take (n - start) (drop start s)]"
    using st(3) by (metis append_butlast_last_id pieces_nonempty)
  show ?case
  proof (cases "s ! n = d")
    case True
    have "filter (\<lambda>p. length p > 1) (pieces d (take n s)) =
        filter (\<lambda>p. length p > 1) (butlast (pieces d (take n s))) @
        (if n - start > 1 then [take (n - start) (drop start s)] else [])"
      using len by (subst ap) (simp del: length_take length_drop)
    with True st show ?thesis by (auto simp: t pieces_snoc split_step_def [of s d "(_, _)"])
  next
    case False
    with st more show ?thesis
      by (intro exI [of _ start]) (simp add: t pieces_snoc split_step_def [of s d "(_, _)"])
  qed
qed simp

text \<open>
  Splitting. \<open>splitStringRef\<close> gives the pieces between the delimiters in order, but leaves out
  every piece of a single character, unless it is the last one: the test before the delimiter asks for
  more than one character, the one after the loop for at least one.
\<close>

theorem splitStringRef_pieces:
  "splitStringRef s d = filter (\<lambda>p. length p > 1) (butlast (pieces d s)) @
     filter (\<lambda>p. p \<noteq> []) [last (pieces d s)]"
  using split_fold [of "length s" s d] by (auto simp: splitStringRef_def)

subsection \<open>The registry of aliases\<close>

lemma map_of_map_insert:
  "map_of r k = None \<Longrightarrow> map_of (map_insert k v r) x = (if x = k then Some v else map_of r x)"
  by (induction k v r rule: map_insert.induct) (auto split: if_splits)

lemma set_map_insert: "set (map_insert k v r) = insert (k, v) (set r)"
  by (induction k v r rule: map_insert.induct) auto

lemma map_insert_sorted:
  assumes "sorted_wrt (\<lambda>x y. string_less (fst x) (fst y)) r" and "map_of r k = None"
  shows "sorted_wrt (\<lambda>x y. string_less (fst x) (fst y)) (map_insert k v r)"
  using assms
proof (induction k v r rule: map_insert.induct)
  case (2 k v k' v' r)
  then have "k \<noteq> k'" by (auto split: if_splits)
  then have "\<not> string_less k k' \<Longrightarrow> string_less k' k" using string_less_total by blast
  with 2 show ?case by (auto simp: set_map_insert split: if_splits intro: string_less_trans)
qed simp

definition aliases_ok :: "TagAliasRegistry \<Rightarrow> bool" where
  "aliases_ok registry \<longleftrightarrow> sorted_wrt (\<lambda>x y. string_less (fst x) (fst y)) registry \<and>
     (\<forall>x \<in> set registry. startsWith (fst x) ''[@'' \<and> endsWith_char (fst x) (CHR '']''))"

lemma expand_none: "(\<And>x. x \<in> set registry \<Longrightarrow> \<not> str_contains spec (fst x)) \<Longrightarrow>
    fold expand_one registry spec = spec"
proof (induction registry)
  case (Cons x registry)
  from Cons.prems [of x] have "expand_one x spec = spec"
    by (simp add: expand_one_def str_contains_def)
  with Cons show ?case by simp
qed simp

text \<open>
  Registering an alias. A successful registration keeps the registry ordered and free of names of
  another form; it adds the alias and changes no other. It fails exactly for a name of another form
  and for one that is there. A specification in which no alias occurs is left alone.
\<close>

theorem alias_add_registers:
  assumes "aliases_ok registry"
  shows "(\<forall>registry'. alias_add alias tag line registry = Inr registry' \<longrightarrow> aliases_ok registry' \<and>
       (\<forall>x. alias_find registry' x =
          (if x = alias then Some \<lparr>alias_tag = tag, alias_line = line\<rparr> else alias_find registry x))) \<and>
    ((\<exists>err. alias_add alias tag line registry = Inl err) \<longleftrightarrow>
       \<not> startsWith alias ''[@'' \<or> \<not> endsWith_char alias (CHR '']'') \<or> alias_find registry alias \<noteq> None) \<and>
    ((\<forall>x \<in> set registry. \<not> str_contains spec (fst x)) \<longrightarrow> expandAliases registry spec = spec)"
  using assms expand_none [of registry spec]
  by (auto simp: alias_add_def aliases_ok_def alias_find_def map_of_map_insert map_insert_sorted
      set_map_insert expandAliases_def)

theorem alias_add_registers_witness:
  "\<exists>r r'. alias_add ''[@a]'' ''[x]'' ''f:1'' [] = Inr r \<and> aliases_ok r \<and>
    alias_add ''[@b]'' ''[y],[z]'' ''f:2'' r = Inr r' \<and> expandAliases r' ''[@b]~[@a]'' = ''[y],[z]~[x]''"
proof -
  have "aliases_ok []" by (simp add: aliases_ok_def)
  from alias_add_registers [OF this, of "''[@a]''" "''[x]''" "''f:1''"]
  have "aliases_ok (projr (alias_add ''[@a]'' ''[x]'' ''f:1'' []))"
    by (auto simp: alias_add_def alias_find_def startsWith_def endsWith_char_def)
  moreover have "\<exists>r. alias_add ''[@a]'' ''[x]'' ''f:1'' [] = Inr r \<and>
      (\<exists>r'. alias_add ''[@b]'' ''[y],[z]'' ''f:2'' r = Inr r' \<and> expandAliases r' ''[@b]~[@a]'' = ''[y],[z]~[x]'')"
    by (auto simp: alias_add_def alias_find_def startsWith_def endsWith_char_def expandAliases_def
        expand_one_def str_find_def occurs_at_def upt_rec)
  ultimately show ?thesis by auto
qed

end
