(* ===== verification/Catch_Test_Case.thy ===== *)
theory Catch_Test_Case
  imports Catch_Strings Std_Algorithms
begin

section \<open>Test cases of the test framework\<close>

text \<open>
  \<open>TestCaseInfo\<close> of Catch2: the name of a test case, its source line and its tags. A tag refers into
  two buffers of the object, one with the tags as written and one in lower case, here by its offset
  and its length. The references stay valid only as long as the buffers do not outgrow what the
  constructor reserved, which \<open>ti_reserved\<close> records. \<open>std::sort\<close> is a parameter, of which the
  properties use that it returns an ordered permutation. A failed assertion is \<open>Assert_Failed\<close>.
\<close>

unbundle bit_operations_syntax

type_synonym TestCaseProperties = "8 word"

definition TCP_None :: TestCaseProperties where "TCP_None = 0"
definition TCP_IsHidden :: TestCaseProperties where "TCP_IsHidden = 2"
definition TCP_ShouldFail :: TestCaseProperties where "TCP_ShouldFail = 4"
definition TCP_MayFail :: TestCaseProperties where "TCP_MayFail = 8"
definition TCP_Throws :: TestCaseProperties where "TCP_Throws = 16"
definition TCP_NonPortable :: TestCaseProperties where "TCP_NonPortable = 32"
definition TCP_Benchmark :: TestCaseProperties where "TCP_Benchmark = 64"

lemmas TCP_defs = TCP_None_def TCP_IsHidden_def TCP_ShouldFail_def TCP_MayFail_def TCP_Throws_def
  TCP_NonPortable_def TCP_Benchmark_def

definition tcp_applies :: "TestCaseProperties \<Rightarrow> bool" where
  "tcp_applies tcp \<longleftrightarrow> tcp \<noteq> TCP_None"

definition parseSpecialTag :: "string \<Rightarrow> TestCaseProperties" where
  "parseSpecialTag tag =
     (if tag \<noteq> [] \<and> tag ! 0 = CHR ''.'' then TCP_IsHidden
      else if StringRef_eq tag ''!throws'' then TCP_Throws
      else if StringRef_eq tag ''!shouldfail'' then TCP_ShouldFail
      else if StringRef_eq tag ''!mayfail'' then TCP_MayFail
      else if StringRef_eq tag ''!nonportable'' then TCP_NonPortable
      else if StringRef_eq tag ''!benchmark'' then TCP_Benchmark OR TCP_IsHidden
      else TCP_None)"

definition isalnum :: "char \<Rightarrow> bool" where
  "isalnum c = (let n = of_char c :: nat in
     48 \<le> n \<and> n \<le> 57 \<or> 65 \<le> n \<and> n \<le> 90 \<or> 97 \<le> n \<and> n \<le> 122)"

definition isReservedTag :: "string \<Rightarrow> bool" where
  "isReservedTag tag \<longleftrightarrow> parseSpecialTag tag = TCP_None \<and> length tag > 0 \<and> \<not> isalnum (tag ! 0)"

definition enforceNotReservedTag :: "string \<Rightarrow> unit res" where
  "enforceNotReservedTag tag = (if isReservedTag tag then Inl Domain_Error else Inr ())"

text \<open>The counter is a static variable of the function.\<close>

definition makeDefaultName :: "nat \<Rightarrow> string \<times> nat" where
  "makeDefaultName counter = (''Anonymous test case '' @ digits (counter + 1), counter + 1)"

text \<open>
  \<open>StringRef::substr\<close>. When a file name has no dot, \<open>lastDot\<close> goes below zero and the next read is
  out of bounds.
\<close>

definition ref_substr :: "string \<Rightarrow> nat \<Rightarrow> nat \<Rightarrow> string" where
  "ref_substr s start len = (if start < length s
     then take (if length s - start < len then length s - start else len) (drop start s) else [])"

fun back_to_dot :: "string \<Rightarrow> nat \<Rightarrow> nat" where
  "back_to_dot filename 0 = 0"
| "back_to_dot filename (Suc n) = (if filename ! n \<noteq> CHR ''.'' then back_to_dot filename n else Suc n)"

fun back_to_slash :: "string \<Rightarrow> nat \<Rightarrow> nat" where
  "back_to_slash filename 0 = 0"
| "back_to_slash filename (Suc n) =
     (if filename ! n \<noteq> CHR ''/'' \<and> filename ! n \<noteq> CHR 0x5C then back_to_slash filename n else Suc n)"

definition extractFilenamePart :: "string \<Rightarrow> string res" where
  "extractFilenamePart filename =
     (case back_to_dot filename (length filename) of
        0 \<Rightarrow> Inl Assert_Failed
      | Suc lastDot \<Rightarrow>
          (let nameStart = back_to_slash filename lastDot
           in Inr (ref_substr filename nameStart (lastDot - nameStart))))"

definition sizeOfExtraTags :: "string \<Rightarrow> nat res" where
  "sizeOfExtraTags filepath =
     bindE (extractFilenamePart filepath) (\<lambda>f. Inr (length f + (3 + 3)))"

subsection \<open>The test case\<close>

record SourceLineInfo =
  li_file :: string
  li_line :: nat

record tag_ref =
  tr_start :: nat
  tr_len :: nat

record TestCaseInfo =
  ti_name :: string
  ti_className :: string
  backingTags :: string
  backingLCaseTags :: string
  ti_tags :: "tag_ref list"
  ti_lineInfo :: SourceLineInfo
  ti_properties :: TestCaseProperties
  ti_reserved :: nat

definition tag_original :: "TestCaseInfo \<Rightarrow> tag_ref \<Rightarrow> string" where
  "tag_original info t = take (tr_len t) (drop (tr_start t) (backingTags info))"

definition tag_lowerCased :: "TestCaseInfo \<Rightarrow> tag_ref \<Rightarrow> string" where
  "tag_lowerCased info t = take (tr_len t) (drop (tr_start t) (backingLCaseTags info))"

definition isHidden :: "TestCaseInfo \<Rightarrow> bool" where
  "isHidden info = tcp_applies (ti_properties info AND TCP_IsHidden)"

definition ti_throws :: "TestCaseInfo \<Rightarrow> bool" where
  "ti_throws info = tcp_applies (ti_properties info AND TCP_Throws)"

definition okToFail :: "TestCaseInfo \<Rightarrow> bool" where
  "okToFail info = tcp_applies (ti_properties info AND (TCP_ShouldFail OR TCP_MayFail))"

definition expectedToFail :: "TestCaseInfo \<Rightarrow> bool" where
  "expectedToFail info = tcp_applies (ti_properties info AND TCP_ShouldFail)"

definition internalAppendTag :: "string \<Rightarrow> TestCaseInfo \<Rightarrow> TestCaseInfo" where
  "internalAppendTag tagStr info =
     (let tags1 = backingTags info @ ''['';
          backingStart = length tags1;
          tags2 = tags1 @ tagStr;
          backingEnd = length tags2;
          tags3 = tags2 @ '']'';
          lcase1 = backingLCaseTags info @ ''['';
          lcase2 = lcase1 @ tagStr;
          lcase3 = lcase2 @ '']''
      in info\<lparr>backingTags := tags3, backingLCaseTags := lcase3,
           ti_tags := ti_tags info @ [\<lparr>tr_start = backingStart, tr_len = backingEnd - backingStart\<rparr>]\<rparr>)"

text \<open>One round of the loop of the constructor, at an index of the tags as written.\<close>

type_synonym tag_state = "bool \<times> nat \<times> TestCaseInfo"  \<comment> \<open>\<open>inTag\<close>, \<open>tagStart\<close>, the object\<close>

definition add_tag :: "string \<Rightarrow> TestCaseInfo \<Rightarrow> TestCaseInfo res" where
  "add_tag tagStr info =
     bindE (enforceNotReservedTag tagStr) (\<lambda>_.
       let info1 = info\<lparr>ti_properties := ti_properties info OR parseSpecialTag tagStr\<rparr>;
           tagStr1 = (if length tagStr > 1 \<and> tagStr ! 0 = CHR ''.''
             then ref_substr tagStr 1 (length tagStr - 1) else tagStr)
       in Inr (internalAppendTag tagStr1 info1))"

definition tag_step :: "string \<Rightarrow> nat \<Rightarrow> tag_state \<Rightarrow> tag_state res" where
  "tag_step originalTags idx st =
     (let (inTag, tagStart, info) = st; c = originalTags ! idx
      in bindE
           (if c = CHR ''['' then if inTag then Inl Assert_Failed else Inr (True, idx)
            else Inr (inTag, tagStart)) (\<lambda>(inTag1, tagStart1).
         if c = CHR '']'' then
           if \<not> inTag1 then Inl Assert_Failed
           else if \<not> tagStart1 < idx then Inl Assert_Failed
           else bindE (add_tag (ref_substr originalTags (tagStart1 + 1) (idx - tagStart1 - 1)) info)
                  (\<lambda>info1. Inr (False, tagStart1, info1))
         else Inr (inTag1, tagStart1, info)))"

definition sort_tags :: "tag_ref sorter \<Rightarrow> TestCaseInfo \<Rightarrow> TestCaseInfo" where
  "sort_tags srt info =
     (let sorted = srt (\<lambda>lhs rhs. StringRef_less (tag_lowerCased info lhs) (tag_lowerCased info rhs)) (ti_tags info)
      in info\<lparr>ti_tags := std_unique
           (\<lambda>lhs rhs. StringRef_eq (tag_lowerCased info lhs) (tag_lowerCased info rhs)) sorted\<rparr>)"

definition new_TestCaseInfo :: "tag_ref sorter \<Rightarrow> nat \<Rightarrow> string \<Rightarrow> string \<times> string \<Rightarrow> SourceLineInfo \<Rightarrow>
    (TestCaseInfo \<times> nat) res" where
  "new_TestCaseInfo srt counter className nameAndTags lineInfo =
     (let (name, counter1) = (if fst nameAndTags = '''' then makeDefaultName counter
            else (fst nameAndTags, counter));
          originalTags = snd nameAndTags
      in bindE (sizeOfExtraTags (li_file lineInfo)) (\<lambda>extra.
         let info = \<lparr>ti_name = name, ti_className = className, backingTags = [], backingLCaseTags = [],
               ti_tags = [], ti_lineInfo = lineInfo, ti_properties = TCP_None,
               ti_reserved = length originalTags + extra\<rparr>
         in bindE (foldE (tag_step originalTags) [0..<length originalTags] (False, 0, info))
              (\<lambda>(inTag, tagStart, info1).
                let info2 = (if isHidden info1 then internalAppendTag ''.'' info1 else info1);
                    info3 = info2\<lparr>backingLCaseTags := toLower (backingLCaseTags info2)\<rparr>
                in Inr (sort_tags srt info3, counter1))))"

definition addFilenameTag :: "TestCaseInfo \<Rightarrow> TestCaseInfo res" where
  "addFilenameTag info =
     bindE (extractFilenamePart (li_file (ti_lineInfo info))) (\<lambda>f.
       Inr (internalAppendTag (StringRef_append ''#'' f) info))"

definition tagsAsString :: "TestCaseInfo \<Rightarrow> string" where
  "tagsAsString info =
     foldl (\<lambda>ret tag. ((ret @ ''['') @ tag_original info tag) @ '']'') [] (ti_tags info)"

subsection \<open>What the constructor builds\<close>

definition bracket :: "string \<Rightarrow> string" where
  "bracket t = ''['' @ t @ '']''"

text \<open>The object while its two buffers still agree, and the texts of its tags.\<close>

definition buffers :: "TestCaseInfo \<Rightarrow> string list \<Rightarrow> bool" where
  "buffers info ts \<longleftrightarrow> backingTags info = concat (map bracket ts) \<and>
     backingLCaseTags info = backingTags info \<and>
     map (tag_original info) (ti_tags info) = ts \<and>
     (\<forall>t \<in> set (ti_tags info). tr_start t + tr_len t \<le> length (backingTags info))"

lemma buffers_append:
  assumes "buffers info ts"
  shows "buffers (internalAppendTag t info) (ts @ [t])"
proof -
  have old: "tag_original (internalAppendTag t info) x = tag_original info x" if "x \<in> set (ti_tags info)" for x
    using assms that by (auto simp: buffers_def tag_original_def internalAppendTag_def Let_def)
  then have "map (tag_original (internalAppendTag t info)) (ti_tags info) = ts"
    using assms by (simp add: buffers_def cong: map_cong)
  with assms show ?thesis
    by (auto simp: buffers_def internalAppendTag_def Let_def bracket_def tag_original_def)
qed

lemma append_keeps:
  "ti_properties (internalAppendTag t info) = ti_properties info"
  "ti_reserved (internalAppendTag t info) = ti_reserved info"
  "ti_lineInfo (internalAppendTag t info) = ti_lineInfo info"
  "ti_name (internalAppendTag t info) = ti_name info"
  by (simp_all add: internalAppendTag_def Let_def)

definition norm_tag :: "string \<Rightarrow> string" where
  "norm_tag t = (if length t > 1 \<and> t ! 0 = CHR ''.'' then tl t else t)"

definition add_tags :: "string list \<Rightarrow> TestCaseInfo \<Rightarrow> TestCaseInfo" where
  "add_tags ts info = fold (\<lambda>t i. internalAppendTag (norm_tag t)
     (i\<lparr>ti_properties := ti_properties i OR parseSpecialTag t\<rparr>)) ts info"

lemma add_tag_ok:
  "\<not> isReservedTag t \<Longrightarrow> add_tag t info = Inr (internalAppendTag (norm_tag t)
     (info\<lparr>ti_properties := ti_properties info OR parseSpecialTag t\<rparr>))"
  by (cases t) (auto simp: add_tag_def enforceNotReservedTag_def norm_tag_def ref_substr_def Let_def)

text \<open>The loop, over tags without brackets in them.\<close>

lemma foldE_upt_split: "a \<le> b \<Longrightarrow> b \<le> c \<Longrightarrow> foldE f [a..<c] s = bindE (foldE f [a..<b] s) (foldE f [b..<c])"
  by (metis foldE_append le_add_diff_inverse upt_add_eq_append)

lemma inside_tag:
  assumes "\<And>i. a \<le> i \<Longrightarrow> i < b \<Longrightarrow> s ! i \<noteq> CHR ''['' \<and> s ! i \<noteq> CHR '']''" and "a \<le> b"
  shows "foldE (tag_step s) [a..<b] (True, k, info) = Inr (True, k, info)"
  using assms
proof (induction "b - a" arbitrary: a)
  case (Suc n)
  then have "[a..<b] = a # [Suc a..<b]" by (simp add: upt_rec)
  moreover have "tag_step s a (True, k, info) = Inr (True, k, info)"
    using Suc.prems(1) [of a] Suc.hyps(2) by (simp add: tag_step_def)
  moreover have "foldE (tag_step s) [Suc a..<b] (True, k, info) = Inr (True, k, info)"
    using Suc.hyps Suc.prems by (intro Suc.hyps(1)) auto
  ultimately show ?case by simp
qed simp

lemma one_tag:
  assumes "s = pre @ bracket t @ post" and "CHR ''['' \<notin> set t" and "CHR '']'' \<notin> set t"
    and "\<not> isReservedTag t"
  shows "foldE (tag_step s) [length pre..<length (pre @ bracket t)] (False, k, info) =
    bindE (add_tag t info) (\<lambda>i. Inr (False, length pre, i))"
proof -
  let ?a = "length pre" and ?b = "length pre + 1 + length t"
  have mid: "s ! i \<noteq> CHR ''['' \<and> s ! i \<noteq> CHR '']''" if "Suc ?a \<le> i" "i < ?b" for i
  proof -
    have "i - Suc ?a < length t" using that by linarith
    then have "t ! (i - Suc ?a) \<in> set t" "s ! i = t ! (i - Suc ?a)"
      using that by (simp_all add: assms(1) bracket_def nth_append)
    then show ?thesis using assms(2,3) by metis
  qed
  have split: "[?a..<length (pre @ bracket t)] = ?a # [Suc ?a..<?b] @ [?b]"
    using upt_conv_Cons [of ?a "Suc ?b"] upt_Suc_append [of "Suc ?a" ?b] by (simp add: bracket_def)
  have open_tag: "tag_step s ?a (False, k, info) = Inr (True, ?a, info)"
    by (simp add: tag_step_def assms(1) bracket_def nth_append)
  have inner: "foldE (tag_step s) [Suc ?a..<?b] (True, ?a, info) = Inr (True, ?a, info)"
    by (rule inside_tag) (use mid in auto)
  have "s ! ?b = CHR '']''" by (simp add: assms(1) bracket_def nth_append)
  moreover have "ref_substr s (?a + 1) (?b - ?a - 1) = t"
    by (cases t) (simp_all add: ref_substr_def assms(1) bracket_def)
  ultimately have last: "tag_step s ?b (True, ?a, info) = bindE (add_tag t info) (\<lambda>i. Inr (False, length pre, i))"
    by (simp add: tag_step_def)
  have nil: "foldE (tag_step s) [] = Inr" by (simp add: fun_eq_iff)
  show ?thesis
    unfolding split foldE_append foldE.simps(2) open_tag inner bindE.simps last nil
    by (cases "add_tag t info") auto
qed

lemma all_tags:
  assumes "\<And>t. t \<in> set ts \<Longrightarrow> CHR ''['' \<notin> set t \<and> CHR '']'' \<notin> set t \<and> \<not> isReservedTag t"
    and "s = pre @ concat (map bracket ts)"
  shows "\<exists>k'. foldE (tag_step s) [length pre..<length s] (False, k, info) = Inr (False, k', add_tags ts info)"
  using assms
proof (induction ts arbitrary: pre k info)
  case Nil
  then show ?case by (simp add: add_tags_def)
next
  case (Cons t ts)
  have s: "s = (pre @ bracket t) @ concat (map bracket ts)" using Cons.prems(2) by simp
  let ?i = "internalAppendTag (norm_tag t) (info\<lparr>ti_properties := ti_properties info OR parseSpecialTag t\<rparr>)"
  have "foldE (tag_step s) [length pre..<length (pre @ bracket t)] (False, k, info) = Inr (False, length pre, ?i)"
    using Cons.prems(1) [of t] by (subst one_tag [OF Cons.prems(2) [simplified]]) (auto simp: add_tag_ok)
  moreover obtain k' where "foldE (tag_step s) [length (pre @ bracket t)..<length s] (False, length pre, ?i) =
      Inr (False, k', add_tags ts ?i)"
    using Cons.IH [OF _ s] Cons.prems(1) by force
  ultimately show ?case
    using foldE_upt_split [of "length pre" "length (pre @ bracket t)" "length s" "tag_step s"] s
    by (auto simp: add_tags_def)
qed

lemma add_tags_spec:
  assumes "buffers info us"
  shows "buffers (add_tags ts info) (us @ map norm_tag ts) \<and>
    ti_properties (add_tags ts info) = fold (\<lambda>t p. p OR parseSpecialTag t) ts (ti_properties info) \<and>
    ti_reserved (add_tags ts info) = ti_reserved info \<and> ti_lineInfo (add_tags ts info) = ti_lineInfo info \<and>
    ti_name (add_tags ts info) = ti_name info"
  using assms
proof (induction ts arbitrary: info us)
  case (Cons t ts)
  let ?i = "info\<lparr>ti_properties := ti_properties info OR parseSpecialTag t\<rparr>"
  have "tag_original ?i = tag_original info" by (simp add: fun_eq_iff tag_original_def)
  then have "buffers ?i us = buffers info us" by (simp add: buffers_def)
  with Cons.prems have "buffers ?i us" by blast
  from Cons.IH [OF buffers_append [OF this, of "norm_tag t"]] show ?case
    by (simp add: add_tags_def append_keeps)
qed (simp add: add_tags_def)

lemma StringRef_eq_iff: "StringRef_eq s t \<longleftrightarrow> s = t"
  by (auto simp: StringRef_eq_def)

lemma toLowerCh_code: "of_char (toLowerCh c) = (let n = of_char c :: nat in if 65 \<le> n \<and> n \<le> 90 then n + 32 else n)"
  by (simp add: toLowerCh_def Let_def)

lemma special_tag_hidden: "parseSpecialTag t AND TCP_IsHidden \<noteq> 0 \<longleftrightarrow>
    (t \<noteq> [] \<and> t ! 0 = CHR ''.'') \<or> t = ''!benchmark''"
  by (simp add: parseSpecialTag_def TCP_defs StringRef_eq_iff)

lemma fold_hidden: "fold (\<lambda>t p. p OR parseSpecialTag t) ts p AND TCP_IsHidden \<noteq> 0 \<longleftrightarrow>
    p AND TCP_IsHidden \<noteq> 0 \<or> (\<exists>t \<in> set ts. parseSpecialTag t AND TCP_IsHidden \<noteq> 0)"
proof (induction ts arbitrary: p)
  case (Cons t ts)
  have "(p OR parseSpecialTag t) AND TCP_IsHidden \<noteq> 0 \<longleftrightarrow>
      p AND TCP_IsHidden \<noteq> 0 \<or> parseSpecialTag t AND TCP_IsHidden \<noteq> 0"
    by (simp add: bit.conj_disj_distrib2 or_eq_0_iff)
  with Cons show ?case by auto
qed simp

lemma toLower_nul: "CHR 0x00 \<in> set (toLower s) \<longleftrightarrow> CHR 0x00 \<in> set s"
proof -
  have "CHR 0x00 = toLowerCh c \<longleftrightarrow> c = CHR 0x00" for c
  proof -
    have "(of_char (toLowerCh c) :: nat) = 0 \<longleftrightarrow> (of_char c :: nat) = 0"
      by (simp add: toLowerCh_code Let_def)
    moreover have z: "(of_char d :: nat) = 0 \<longleftrightarrow> d = CHR 0x00" for d
      using of_char_eq_iff [of d "CHR 0x00", where 'a = nat] by simp
    ultimately have "toLowerCh c = CHR 0x00 \<longleftrightarrow> c = CHR 0x00"
      using z [of c] z [of "toLowerCh c"] by simp
    then show ?thesis by auto
  qed
  then show ?thesis by (simp add: toLower_def image_iff)
qed

lemma concat_bracket_length: "length (concat (map bracket ts)) = sum_list (map length ts) + 2 * length ts"
  by (induction ts) (auto simp: bracket_def)

lemma norm_tag_shorter: "sum_list (map length (map norm_tag ts)) \<le> sum_list (map length ts)"
  by (induction ts) (auto simp: norm_tag_def)

lemma norm_tag_set: "set (norm_tag t) \<subseteq> set t"
  by (cases t) (auto simp: norm_tag_def)

lemma lower_buffers:
  assumes "buffers info us"
  shows "map (tag_lowerCased (info\<lparr>backingLCaseTags := toLower (backingLCaseTags info)\<rparr>)) (ti_tags info) =
    map toLower us"
proof -
  have b: "backingLCaseTags info = backingTags info" and us: "map (tag_original info) (ti_tags info) = us"
    using assms by (simp_all only: buffers_def)
  have "tag_lowerCased (info\<lparr>backingLCaseTags := toLower (backingLCaseTags info)\<rparr>) =
      toLower \<circ> tag_original info"
    by (simp add: fun_eq_iff tag_lowerCased_def tag_original_def toLower_def take_map drop_map b)
  then show ?thesis unfolding us [symmetric] by simp
qed

lemma sort_tags_spec:
  assumes "std_sort srt" and "\<And>t. t \<in> set (ti_tags info) \<Longrightarrow> CHR 0x00 \<notin> set (tag_lowerCased info t)"
  shows "sorted_wrt string_less (map (tag_lowerCased (sort_tags srt info)) (ti_tags (sort_tags srt info))) \<and>
    set (map (tag_lowerCased (sort_tags srt info)) (ti_tags (sort_tags srt info))) =
      set (map (tag_lowerCased info) (ti_tags info))"
proof -
  let ?k = "tag_lowerCased info" and ?T = "ti_tags info"
  let ?lt = "\<lambda>x y. StringRef_less (?k x) (?k y)"
  have lex: "?lt x y \<longleftrightarrow> string_less (?k x) (?k y)" if "x \<in> set ?T" "y \<in> set ?T" for x y
    using StringRef_less_bytes assms(2) that by blast
  have "weak_order_on ?lt (set ?T)"
    unfolding weak_order_on_def
    by (auto simp: lex intro: string_less_trans) (metis string_less_total string_less_trans)
  with assms(1) have srt: "mset (srt ?lt ?T) = mset ?T" "sorted_wrt (\<lambda>x y. \<not> ?lt y x) (srt ?lt ?T)"
    by (simp_all add: std_sort_def)
  from srt(1) have set: "set (srt ?lt ?T) = set ?T" by (metis set_mset_mset)
  have sorted: "sorted_wrt (\<lambda>x y. \<not> string_less (?k y) (?k x)) (srt ?lt ?T)"
    by (rule sorted_wrt_mono_rel [OF _ srt(2)]) (simp add: set lex)
  have "sorted_wrt (\<lambda>x y. string_less (?k x) (?k y)) (std_unique (\<lambda>x y. ?k x = ?k y) (srt ?lt ?T)) \<and>
      ?k ` set (std_unique (\<lambda>x y. ?k x = ?k y) (srt ?lt ?T)) = ?k ` set (srt ?lt ?T) \<and>
      set (std_unique (\<lambda>x y. ?k x = ?k y) (srt ?lt ?T)) \<subseteq> set (srt ?lt ?T)"
    by (rule std_unique_keys [where lt = string_less and k = ?k, OF sorted])
      (use string_less_total string_less_trans string_less_irrefl in blast)+
  moreover have "tag_lowerCased (sort_tags srt info) = ?k"
    by (simp add: fun_eq_iff tag_lowerCased_def sort_tags_def Let_def)
  moreover have "ti_tags (sort_tags srt info) = std_unique (\<lambda>x y. ?k x = ?k y) (srt ?lt ?T)"
    by (simp add: sort_tags_def Let_def StringRef_eq_iff)
  ultimately show ?thesis by (simp add: sorted_wrt_map set)
qed

definition tag_text_ok :: "string \<Rightarrow> bool" where
  "tag_text_ok t \<longleftrightarrow> CHR ''['' \<notin> set t \<and> CHR '']'' \<notin> set t \<and> CHR 0x00 \<notin> set t \<and> \<not> isReservedTag t"



end
