(* ===== verification/Catch_Test_Spec.thy ===== *)
theory Catch_Test_Spec
  imports Catch_Test_Case
begin

section \<open>Test specifications of the test framework\<close>

text \<open>
  Which tests to run: the wildcard patterns, the filters of a \<open>TestSpec\<close>, and \<open>TestSpecParser\<close>, the
  state machine that reads a specification character by character. The parser's members are the record
  \<open>TestSpecParser\<close>; \<open>substr\<close> past the end of a text throws \<open>out_of_range\<close>.
\<close>

datatype CaseSensitive = Case_Yes | Case_No

datatype WildcardPosition = NoWildcard | WildcardAtStart | WildcardAtEnd | WildcardAtBothEnds

record WildcardPattern =
  wp_caseSensitivity :: CaseSensitive
  wp_wildcard :: WildcardPosition
  wp_pattern :: string

definition normaliseString :: "CaseSensitive \<Rightarrow> string \<Rightarrow> string" where
  "normaliseString cs str = trim (if cs = Case_No then toLower str else str)"

fun with_end :: "WildcardPosition \<Rightarrow> WildcardPosition" where
  "with_end NoWildcard = WildcardAtEnd"
| "with_end WildcardAtStart = WildcardAtBothEnds"
| "with_end w = w"

definition new_WildcardPattern :: "string \<Rightarrow> CaseSensitive \<Rightarrow> WildcardPattern" where
  "new_WildcardPattern pattern cs =
     (let p0 = normaliseString cs pattern;
          (p1, w1) = (if startsWith_char p0 (CHR ''*'') then (drop 1 p0, WildcardAtStart) else (p0, NoWildcard));
          (p2, w2) = (if endsWith_char p1 (CHR ''*'') then (take (length p1 - 1) p1, with_end w1) else (p1, w1))
      in \<lparr>wp_caseSensitivity = cs, wp_wildcard = w2, wp_pattern = p2\<rparr>)"

definition wildcard_matches :: "WildcardPattern \<Rightarrow> string \<Rightarrow> bool" where
  "wildcard_matches wp str = (let s = normaliseString (wp_caseSensitivity wp) str; p = wp_pattern wp
     in case wp_wildcard wp of
          NoWildcard \<Rightarrow> p = s
        | WildcardAtStart \<Rightarrow> endsWith s p
        | WildcardAtEnd \<Rightarrow> startsWith s p
        | WildcardAtBothEnds \<Rightarrow> str_contains s p)"

subsection \<open>Patterns and filters\<close>

text \<open>The first argument of a pattern is its name, the text it was read from.\<close>

datatype spec_pattern = NamePattern string WildcardPattern | TagPattern string string

definition new_NamePattern :: "string \<Rightarrow> string \<Rightarrow> spec_pattern" where
  "new_NamePattern name filterString =
     NamePattern filterString (new_WildcardPattern (toLower name) Case_No)"

definition new_TagPattern :: "string \<Rightarrow> string \<Rightarrow> spec_pattern" where
  "new_TagPattern tag filterString = TagPattern filterString (toLower tag)"

fun pattern_name :: "spec_pattern \<Rightarrow> string" where
  "pattern_name (NamePattern nm _) = nm"
| "pattern_name (TagPattern nm _) = nm"

fun pattern_matches :: "spec_pattern \<Rightarrow> TestCaseInfo \<Rightarrow> bool" where
  "pattern_matches (NamePattern _ wp) testCase = wildcard_matches wp (ti_name testCase)"
| "pattern_matches (TagPattern _ m_tag) testCase =
     (find_if (\<lambda>tag. StringRef_eq (tag_lowerCased testCase tag) m_tag) (ti_tags testCase) \<noteq>
      length (ti_tags testCase))"

record spec_filter =
  m_required :: "spec_pattern list"
  m_forbidden :: "spec_pattern list"

fun no_forbidden :: "spec_pattern list \<Rightarrow> TestCaseInfo \<Rightarrow> bool \<Rightarrow> bool" where
  "no_forbidden [] testCase should_use = should_use"
| "no_forbidden (p # ps) testCase should_use =
     (if pattern_matches p testCase then False else no_forbidden ps testCase should_use)"

fun all_required :: "spec_pattern list \<Rightarrow> spec_pattern list \<Rightarrow> TestCaseInfo \<Rightarrow> bool \<Rightarrow> bool" where
  "all_required [] forbidden testCase should_use = no_forbidden forbidden testCase should_use"
| "all_required (p # ps) forbidden testCase should_use =
     (if \<not> pattern_matches p testCase then False else all_required ps forbidden testCase True)"

definition filter_matches :: "spec_filter \<Rightarrow> TestCaseInfo \<Rightarrow> bool" where
  "filter_matches f testCase = all_required (m_required f) (m_forbidden f) testCase (\<not> isHidden testCase)"

definition filter_name :: "spec_filter \<Rightarrow> string" where
  "filter_name f = foldl (\<lambda>name p. name @ pattern_name p)
     (foldl (\<lambda>name p. name @ pattern_name p) [] (m_required f)) (m_forbidden f)"

record TestSpec =
  m_filters :: "spec_filter list"
  m_invalidArgs :: "string list"

definition hasFilters :: "TestSpec \<Rightarrow> bool" where
  "hasFilters spec \<longleftrightarrow> m_filters spec \<noteq> []"

definition spec_matches :: "TestSpec \<Rightarrow> TestCaseInfo \<Rightarrow> bool" where
  "spec_matches spec testCase \<longleftrightarrow> list_ex (\<lambda>f. filter_matches f testCase) (m_filters spec)"

subsection \<open>The parser\<close>

datatype Mode = Mode_None | Mode_Name | Mode_QuotedName | Mode_Tag | Mode_EscapedName

record TestSpecParser =
  m_mode :: Mode
  lastMode :: Mode
  m_exclusion :: bool
  m_realPatternPos :: nat
  m_substring :: string
  m_patternName :: string
  m_escapeChars :: "nat list"
  m_currentFilter :: spec_filter
  m_testSpec :: TestSpec
  m_tagAliases :: TagAliasRegistry

definition empty_filter :: spec_filter where
  "empty_filter = \<lparr>m_required = [], m_forbidden = []\<rparr>"

definition new_TestSpecParser :: "TagAliasRegistry \<Rightarrow> TestSpecParser" where
  "new_TestSpecParser tagAliases = \<lparr>m_mode = Mode_None, lastMode = Mode_None, m_exclusion = False,
     m_realPatternPos = 0, m_substring = [], m_patternName = [], m_escapeChars = [],
     m_currentFilter = empty_filter, m_testSpec = \<lparr>m_filters = [], m_invalidArgs = []\<rparr>,
     m_tagAliases = tagAliases\<rparr>"

definition addCharToPattern :: "char \<Rightarrow> TestSpecParser \<Rightarrow> TestSpecParser" where
  "addCharToPattern c p = p\<lparr>m_substring := m_substring p @ [c], m_patternName := m_patternName p @ [c],
     m_realPatternPos := m_realPatternPos p + 1\<rparr>"

definition startNewMode :: "Mode \<Rightarrow> TestSpecParser \<Rightarrow> TestSpecParser" where
  "startNewMode md p = p\<lparr>m_mode := md\<rparr>"

fun isControlChar :: "Mode \<Rightarrow> char \<Rightarrow> bool" where
  "isControlChar Mode_None c = (c = CHR ''~'')"
| "isControlChar Mode_Name c = (c = CHR ''['')"
| "isControlChar Mode_EscapedName c = True"
| "isControlChar Mode_QuotedName c = (c = CHR 0x22)"
| "isControlChar Mode_Tag c = (c = CHR ''['' \<or> c = CHR '']'')"

definition saveLastMode :: "TestSpecParser \<Rightarrow> TestSpecParser" where
  "saveLastMode p = p\<lparr>lastMode := m_mode p\<rparr>"

definition revertBackToLastMode :: "TestSpecParser \<Rightarrow> TestSpecParser" where
  "revertBackToLastMode p = p\<lparr>m_mode := lastMode p\<rparr>"

definition parser_escape :: "TestSpecParser \<Rightarrow> TestSpecParser" where
  "parser_escape p = (let p1 = saveLastMode p
     in p1\<lparr>m_mode := Mode_EscapedName, m_escapeChars := m_escapeChars p1 @ [m_realPatternPos p1]\<rparr>)"

definition addFilter :: "TestSpecParser \<Rightarrow> TestSpecParser" where
  "addFilter p =
     (if m_required (m_currentFilter p) \<noteq> [] \<or> m_forbidden (m_currentFilter p) \<noteq> []
      then p\<lparr>m_testSpec := (m_testSpec p)\<lparr>m_filters := m_filters (m_testSpec p) @ [m_currentFilter p]\<rparr>,
             m_currentFilter := empty_filter\<rparr>
      else p)"

text \<open>The loop over \<open>m_escapeChars\<close>, which takes the backslashes out.\<close>

fun remove_escapes :: "nat \<Rightarrow> nat list \<Rightarrow> string \<Rightarrow> string res" where
  "remove_escapes i [] token = Inr token"
| "remove_escapes i (e # es) token =
     (if e - i + 1 > length token then Inl Out_Of_Range
      else remove_escapes (i + 1) es (take (e - i) token @ drop (e - i + 1) token))"

definition preprocessPattern :: "TestSpecParser \<Rightarrow> (string \<times> TestSpecParser) res" where
  "preprocessPattern p =
     bindE (remove_escapes 0 (m_escapeChars p) (m_patternName p)) (\<lambda>token.
       let p1 = p\<lparr>m_escapeChars := []\<rparr>;
           (token1, p2) = (if startsWith token ''exclude:'' then (drop 8 token, p1\<lparr>m_exclusion := True\<rparr>)
             else (token, p1))
       in Inr (token1, p2\<lparr>m_patternName := [], m_realPatternPos := 0\<rparr>))"

definition add_pattern :: "spec_pattern \<Rightarrow> TestSpecParser \<Rightarrow> TestSpecParser" where
  "add_pattern x p = p\<lparr>m_currentFilter :=
     (if m_exclusion p
      then (m_currentFilter p)\<lparr>m_forbidden := m_forbidden (m_currentFilter p) @ [x]\<rparr>
      else (m_currentFilter p)\<lparr>m_required := m_required (m_currentFilter p) @ [x]\<rparr>)\<rparr>"

definition end_pattern :: "TestSpecParser \<Rightarrow> TestSpecParser" where
  "end_pattern p = p\<lparr>m_substring := [], m_exclusion := False, m_mode := Mode_None\<rparr>"

definition addNamePattern :: "TestSpecParser \<Rightarrow> TestSpecParser res" where
  "addNamePattern p =
     bindE (preprocessPattern p) (\<lambda>(token, p1).
       Inr (end_pattern (if token \<noteq> [] then add_pattern (new_NamePattern token (m_substring p1)) p1 else p1)))"

definition addTagPattern :: "TestSpecParser \<Rightarrow> TestSpecParser res" where
  "addTagPattern p =
     bindE (preprocessPattern p) (\<lambda>(token, p1).
       Inr (end_pattern
         (if token \<noteq> [] then
            let (token1, p2) =
                  (if length token > 1 \<and> token ! 0 = CHR ''.'' then
                     let t = drop 1 token
                     in (t, add_pattern (new_TagPattern t (m_substring p1))
                              (add_pattern (new_TagPattern ''.'' (m_substring p1)) p1))
                   else (token, p1))
            in add_pattern (new_TagPattern token1 (m_substring p2)) p2
          else p1)))"

definition endMode :: "TestSpecParser \<Rightarrow> TestSpecParser res" where
  "endMode p = (case m_mode p of
       Mode_Name \<Rightarrow> addNamePattern p
     | Mode_QuotedName \<Rightarrow> addNamePattern p
     | Mode_Tag \<Rightarrow> addTagPattern p
     | Mode_EscapedName \<Rightarrow> Inr (revertBackToLastMode p)
     | Mode_None \<Rightarrow> Inr (startNewMode Mode_None p))"

definition separate :: "TestSpecParser \<Rightarrow> (bool \<times> TestSpecParser) res" where
  "separate p =
     (if m_mode p = Mode_QuotedName \<or> m_mode p = Mode_Tag then
        Inr (False, p\<lparr>m_mode := Mode_None, m_substring := [], m_patternName := [], m_realPatternPos := 0\<rparr>)
      else bindE (endMode p) (\<lambda>p1. Inr (True, addFilter p1)))"

definition processNoneChar :: "char \<Rightarrow> TestSpecParser \<Rightarrow> bool \<times> TestSpecParser" where
  "processNoneChar c p =
     (if c = CHR '' '' then (True, p)
      else if c = CHR ''~'' then (False, p\<lparr>m_exclusion := True\<rparr>)
      else if c = CHR ''['' then (False, startNewMode Mode_Tag p)
      else if c = CHR 0x22 then (False, startNewMode Mode_QuotedName p)
      else (False, startNewMode Mode_Name p))"

definition processNameChar :: "char \<Rightarrow> TestSpecParser \<Rightarrow> TestSpecParser res" where
  "processNameChar c p =
     (if c = CHR ''['' then
        bindE (if m_substring p = ''exclude:'' then Inr (p\<lparr>m_exclusion := True\<rparr>) else endMode p)
          (\<lambda>p1. Inr (startNewMode Mode_Tag p1))
      else Inr p)"

definition processOtherChar :: "char \<Rightarrow> TestSpecParser \<Rightarrow> (bool \<times> TestSpecParser) res" where
  "processOtherChar c p =
     (if \<not> isControlChar (m_mode p) c then Inr (False, p)
      else bindE (endMode (p\<lparr>m_substring := m_substring p @ [c]\<rparr>)) (\<lambda>p1. Inr (True, p1)))"

definition visit_rest :: "char \<Rightarrow> TestSpecParser \<Rightarrow> TestSpecParser" where
  "visit_rest c p = (let p1 = p\<lparr>m_substring := m_substring p @ [c]\<rparr>
     in if \<not> isControlChar (m_mode p1) c
        then p1\<lparr>m_patternName := m_patternName p1 @ [c], m_realPatternPos := m_realPatternPos p1 + 1\<rparr>
        else p1)"

definition visitChar :: "char \<Rightarrow> TestSpecParser \<Rightarrow> (bool \<times> TestSpecParser) res" where
  "visitChar c p =
     (if m_mode p \<noteq> Mode_EscapedName \<and> c = CHR 0x5C then Inr (True, addCharToPattern c (parser_escape p))
      else if m_mode p \<noteq> Mode_EscapedName \<and> c = CHR '','' then separate p
      else case m_mode p of
          Mode_None \<Rightarrow> (let (done, p1) = processNoneChar c p
             in Inr (True, if done then p1 else visit_rest c p1))
        | Mode_Name \<Rightarrow> bindE (processNameChar c p) (\<lambda>p1. Inr (True, visit_rest c p1))
        | Mode_EscapedName \<Rightarrow> bindE (endMode p) (\<lambda>p1. Inr (True, addCharToPattern c p1))
        | _ \<Rightarrow> bindE (processOtherChar c p) (\<lambda>(done, p1).
             Inr (True, if done then p1 else visit_rest c p1)))"

text \<open>The loop of \<open>parse\<close>; a character that fails ends it.\<close>

fun visit_all :: "string \<Rightarrow> string \<Rightarrow> TestSpecParser \<Rightarrow> TestSpecParser res" where
  "visit_all arg [] p = Inr p"
| "visit_all arg (c # cs) p =
     bindE (visitChar c p) (\<lambda>(ok, p1).
       if ok then visit_all arg cs p1
       else Inr (p1\<lparr>m_testSpec := (m_testSpec p1)\<lparr>m_invalidArgs := m_invalidArgs (m_testSpec p1) @ [arg]\<rparr>\<rparr>))"

definition parser_parse :: "string \<Rightarrow> TestSpecParser \<Rightarrow> TestSpecParser res" where
  "parser_parse arg p =
     (let m_arg = expandAliases (m_tagAliases p) arg;
          p1 = p\<lparr>m_mode := Mode_None, m_exclusion := False, m_escapeChars := [], m_realPatternPos := 0\<rparr>
      in bindE (visit_all arg m_arg p1) endMode)"

definition parser_testSpec :: "TestSpecParser \<Rightarrow> TestSpec" where
  "parser_testSpec p = m_testSpec (addFilter p)"

definition parseTestSpec :: "TagAliasRegistry \<Rightarrow> string \<Rightarrow> TestSpec res" where
  "parseTestSpec aliases arg =
     bindE (parser_parse arg (new_TestSpecParser aliases)) (\<lambda>p. Inr (parser_testSpec p))"

subsection \<open>Lower case and white space\<close>

lemma toLowerCh_fixed: "\<not> (65 \<le> (of_char c :: nat) \<and> (of_char c :: nat) \<le> 90) \<Longrightarrow> toLowerCh c = c"
  by (auto simp: toLowerCh_def Let_def)

lemma toLowerCh_eq:
  assumes "\<not> (65 \<le> (of_char d :: nat) \<and> (of_char d :: nat) \<le> 90)"
    and "\<not> (97 \<le> (of_char d :: nat) \<and> (of_char d :: nat) \<le> 122)"
  shows "toLowerCh c = d \<longleftrightarrow> c = d"
proof
  assume "toLowerCh c = d"
  then have "(of_char d :: nat) = (let n = of_char c in if 65 \<le> n \<and> n \<le> 90 then n + 32 else n)"
    using toLowerCh_code [of c] by simp
  with assms have "(of_char d :: nat) = of_char c" by (auto simp: Let_def split: if_splits)
  then show "c = d" by simp
qed (simp add: toLowerCh_fixed assms)

lemma toLowerCh_idem: "toLowerCh (toLowerCh c) = toLowerCh c"
  by (rule toLowerCh_fixed) (auto simp: toLowerCh_code Let_def split: if_splits)

lemma toLower_idem [simp]: "toLower (toLower s) = toLower s"
  by (simp add: toLower_def toLowerCh_idem)

lemma toLower_length [simp]: "length (toLower s) = length s"
  by (simp add: toLower_def)

lemma toLower_Nil [simp]: "toLower s = [] \<longleftrightarrow> s = []"
  by (simp add: toLower_def)

lemma toLower_space: "toLowerCh c \<in> trim_space \<longleftrightarrow> c \<in> trim_space"
  by (simp add: trim_space_def toLowerCh_eq)

lemma find_not_of_toLower:
  "find_first_not_of trim_space (toLower s) = find_first_not_of trim_space s"
  "find_last_not_of trim_space (toLower s) = find_last_not_of trim_space s"
  unfolding find_first_not_of_def find_last_not_of_def toLower_length
  by (rule find_cong; auto simp: toLower_def toLower_space)+

lemma trim_toLower: "trim (toLower s) = toLower (trim s)"
  unfolding trim_def find_not_of_toLower
  by (auto simp: toLower_def take_map drop_map split: option.splits)

lemma char_toLower:
  "startsWith_char (toLower s) (CHR ''*'') = startsWith_char s (CHR ''*'')"
  "endsWith_char (toLower s) (CHR ''*'') = endsWith_char s (CHR ''*'')"
  by (cases s; auto simp: startsWith_char_def toLower_def toLowerCh_eq)
    (cases s rule: rev_cases; auto simp: endsWith_char_def toLower_def toLowerCh_eq nth_append)

subsection \<open>Wildcards\<close>

text \<open>A word is a text a pattern can be made of: trimmed, and without a wildcard at its ends.\<close>

definition word_ok :: "string \<Rightarrow> bool" where
  "word_ok w \<longleftrightarrow> w \<noteq> [] \<and> trim w = w \<and> \<not> startsWith_char w (CHR ''*'') \<and> \<not> endsWith_char w (CHR ''*'')"

lemma trim_ends_fixed:
  assumes "s \<noteq> []" and "\<not> is_ws (hd s)" and "\<not> is_ws (last s)"
  shows "trim s = s"
proof -
  have "find_first_not_of trim_space s = Some 0"
    using assms(1,2) by (auto simp: find_first_not_of_def find_upt_Some is_ws_trim_space hd_conv_nth)
  moreover have "find_last_not_of trim_space s = Some (length s - 1)"
  proof -
    from assms(1) obtain t x where "s = t @ [x]" by (cases s rule: rev_cases) auto
    with assms(3) show ?thesis by (simp add: find_last_not_of_def is_ws_trim_space)
  qed
  ultimately show ?thesis using assms(1) by (simp add: trim_def)
qed

lemma word_ok_ends: "word_ok w \<Longrightarrow> \<not> is_ws (hd w) \<and> \<not> is_ws (last w)"
  unfolding word_ok_def by (metis trim_versions_ends)

lemma trim_star:
  assumes "word_ok w"
  shows "trim (CHR ''*'' # w) = CHR ''*'' # w" and "trim (w @ ''*'') = w @ ''*''"
    and "trim (CHR ''*'' # w @ ''*'') = CHR ''*'' # w @ ''*''"
proof -
  have w: "w \<noteq> []" "\<not> is_ws (hd w)" "\<not> is_ws (last w)"
    using assms word_ok_ends [OF assms] by (auto simp: word_ok_def)
  have star: "\<not> is_ws (CHR ''*'')" by (simp add: is_ws_def)
  show "trim (CHR ''*'' # w) = CHR ''*'' # w" by (rule trim_ends_fixed) (use w star in auto)
  show "trim (w @ ''*'') = w @ ''*''" by (rule trim_ends_fixed) (use w star in auto)
  show "trim (CHR ''*'' # w @ ''*'') = CHR ''*'' # w @ ''*''" by (rule trim_ends_fixed) (use star in auto)
qed

lemma infix_iff:
  "startsWith s p \<longleftrightarrow> (\<exists>v. s = p @ v)" "endsWith s p \<longleftrightarrow> (\<exists>u. s = u @ p)"
  "str_contains s p \<longleftrightarrow> (\<exists>u v. s = u @ p @ v)"
proof -
  show "startsWith s p \<longleftrightarrow> (\<exists>v. s = p @ v)"
    unfolding startsWith_def by (metis append_eq_conv_conj append_take_drop_id le_add1 length_append)
  show "endsWith s p \<longleftrightarrow> (\<exists>u. s = u @ p)"
  proof
    assume "endsWith s p"
    then have "rev s = rev p @ drop (length p) (rev s)"
      unfolding endsWith_def by (metis append_take_drop_id)
    then show "\<exists>u. s = u @ p" by (metis rev_append rev_rev_ident)
  qed (auto simp: endsWith_def)
  show "str_contains s p \<longleftrightarrow> (\<exists>u v. s = u @ p @ v)"
    by (auto simp: str_contains_def str_find_None occurs_at_split)
qed

lemma word_ok_toLower: "word_ok w \<Longrightarrow> word_ok (toLower w)"
  unfolding word_ok_def char_toLower by (simp add: trim_toLower)

lemma toLower_star: "toLower (CHR ''*'' # s) = CHR ''*'' # toLower s" "toLower (s @ ''*'') = toLower s @ ''*''"
  by (simp_all add: toLower_def toLowerCh_eq)

lemma new_WildcardPattern_word:
  assumes "word_ok w"
  shows "new_WildcardPattern w Case_No =
      \<lparr>wp_caseSensitivity = Case_No, wp_wildcard = NoWildcard, wp_pattern = toLower w\<rparr>"
    and "new_WildcardPattern (CHR ''*'' # w) Case_No =
      \<lparr>wp_caseSensitivity = Case_No, wp_wildcard = WildcardAtStart, wp_pattern = toLower w\<rparr>"
    and "new_WildcardPattern (w @ ''*'') Case_No =
      \<lparr>wp_caseSensitivity = Case_No, wp_wildcard = WildcardAtEnd, wp_pattern = toLower w\<rparr>"
    and "new_WildcardPattern (CHR ''*'' # w @ ''*'') Case_No =
      \<lparr>wp_caseSensitivity = Case_No, wp_wildcard = WildcardAtBothEnds, wp_pattern = toLower w\<rparr>"
proof -
  have ok: "word_ok (toLower w)" by (rule word_ok_toLower [OF assms])
  then have w: "toLower w \<noteq> []" "trim (toLower w) = toLower w" "\<not> startsWith_char (toLower w) (CHR ''*'')"
    "\<not> endsWith_char (toLower w) (CHR ''*'')" by (simp_all add: word_ok_def)
  from w(3,1) have s: "\<not> startsWith_char (toLower w @ ''*'') (CHR ''*'')"
    by (simp add: startsWith_char_def nth_append)
  have e: "endsWith_char (u @ ''*'') (CHR ''*'')" for u by (simp add: endsWith_char_def)
  note T = trim_star [OF ok] and D = new_WildcardPattern_def normaliseString_def toLower_star
  have sc: "startsWith_char (CHR ''*'' # u) (CHR ''*'')" for u by (simp add: startsWith_char_def)
  show "new_WildcardPattern w Case_No =
      \<lparr>wp_caseSensitivity = Case_No, wp_wildcard = NoWildcard, wp_pattern = toLower w\<rparr>"
    by (simp add: D w)
  show "new_WildcardPattern (CHR ''*'' # w) Case_No =
      \<lparr>wp_caseSensitivity = Case_No, wp_wildcard = WildcardAtStart, wp_pattern = toLower w\<rparr>"
    by (simp add: D w T sc)
  show "new_WildcardPattern (w @ ''*'') Case_No =
      \<lparr>wp_caseSensitivity = Case_No, wp_wildcard = WildcardAtEnd, wp_pattern = toLower w\<rparr>"
    by (simp add: D w T s e)
  have "toLower (CHR ''*'' # w @ ''*'') = CHR ''*'' # toLower w @ ''*''" by (simp add: toLower_star)
  then show "new_WildcardPattern (CHR ''*'' # w @ ''*'') Case_No =
      \<lparr>wp_caseSensitivity = Case_No, wp_wildcard = WildcardAtBothEnds, wp_pattern = toLower w\<rparr>"
    by (simp add: new_WildcardPattern_def normaliseString_def T sc e)
qed

text \<open>
  Wildcards. A pattern made of a word and a star at neither, one or both of its ends matches a
  text, with case and outer white space left aside, exactly when the word is the text, ends it,
  begins it, or occurs in it.
\<close>

theorem wildcard_kinds:
  assumes "word_ok w"
  defines "s \<equiv> (\<lambda>text. toLower (trim text))"
  shows "wildcard_matches (new_WildcardPattern w Case_No) text \<longleftrightarrow> s text = toLower w"
    and "wildcard_matches (new_WildcardPattern (CHR ''*'' # w) Case_No) text \<longleftrightarrow> (\<exists>u. s text = u @ toLower w)"
    and "wildcard_matches (new_WildcardPattern (w @ ''*'') Case_No) text \<longleftrightarrow> (\<exists>v. s text = toLower w @ v)"
    and "wildcard_matches (new_WildcardPattern (CHR ''*'' # w @ ''*'') Case_No) text \<longleftrightarrow>
      (\<exists>u v. s text = u @ toLower w @ v)"
  unfolding new_WildcardPattern_word [OF assms(1)] s_def
  by (auto simp: wildcard_matches_def normaliseString_def trim_toLower infix_iff)

theorem wildcard_kinds_witness:
  "wildcard_matches (new_WildcardPattern ''*book*'' Case_No) '' the Order Book test'' = True"
proof -
  have "trim ''book'' = ''book''" by code_simp
  then have "word_ok ''book''" by (simp add: word_ok_def startsWith_char_def endsWith_char_def)
  from wildcard_kinds(4) [OF this, of "'' the Order Book test''"]
  have "wildcard_matches (new_WildcardPattern ''*book*'' Case_No) '' the Order Book test'' \<longleftrightarrow>
    (\<exists>u v. toLower (trim '' the Order Book test'') = u @ toLower ''book'' @ v)" by simp
  moreover have "toLower (trim '' the Order Book test'') = ''the order '' @ toLower ''book'' @ '' test''"
    by code_simp
  ultimately show ?thesis by blast
qed

lemma no_forbidden_iff: "no_forbidden ps tc b \<longleftrightarrow> b \<and> (\<forall>p \<in> set ps. \<not> pattern_matches p tc)"
  by (induction ps) auto

lemma all_required_iff: "all_required ps qs tc b \<longleftrightarrow> (ps \<noteq> [] \<or> b) \<and>
    (\<forall>p \<in> set ps. pattern_matches p tc) \<and> (\<forall>p \<in> set qs. \<not> pattern_matches p tc)"
  by (induction ps arbitrary: b) (auto simp: no_forbidden_iff)

text \<open>
  Filters. A filter takes a test exactly when all its required patterns match, no forbidden one
  does, and the test is not hidden or something is required: a hidden test is only run when asked for.
\<close>

theorem filter_takes:
  "filter_matches f tc \<longleftrightarrow> (m_required f \<noteq> [] \<or> \<not> isHidden tc) \<and>
     (\<forall>p \<in> set (m_required f). pattern_matches p tc) \<and> \<not> (\<exists>p \<in> set (m_forbidden f). pattern_matches p tc)"
  by (auto simp: filter_matches_def all_required_iff)

theorem filter_takes_witness:
  "filter_matches \<lparr>m_required = [], m_forbidden = []\<rparr> tc = (\<not> isHidden tc)"
  using filter_takes [of "\<lparr>m_required = [], m_forbidden = []\<rparr>" tc] by simp

subsection \<open>Reading a name back\<close>

text \<open>A test name as it is written on the command line, with its special characters escaped.\<close>

definition spec_special :: "char \<Rightarrow> bool" where
  "spec_special c \<longleftrightarrow> c = CHR 0x5C \<or> c = CHR '','' \<or> c = CHR ''[''"

fun escape_name :: "string \<Rightarrow> string" where
  "escape_name [] = []"
| "escape_name (c # cs) = (if spec_special c then CHR 0x5C # c # escape_name cs else c # escape_name cs)"

fun escape_at :: "nat \<Rightarrow> string \<Rightarrow> nat list" where
  "escape_at k [] = []"
| "escape_at k (c # cs) = (if spec_special c then k # escape_at (k + 2) cs else escape_at (k + 1) cs)"

lemma escape_name_append: "escape_name (u @ v) = escape_name u @ escape_name v"
  by (induction u) auto

lemma escape_at_append: "escape_at k (u @ v) = escape_at k u @ escape_at (k + length (escape_name u)) v"
  by (induction u arbitrary: k) auto

lemma remove_escapes_escaped:
  "remove_escapes i (escape_at (length v + i) u) (v @ escape_name u) = Inr (v @ u)"
proof (induction u arbitrary: v i)
  case (Cons c u)
  from Cons.IH [where v = "v @ [c]" and i = i] Cons.IH [where v = "v @ [c]" and i = "i + 1"]
  show ?case by simp
qed simp

text \<open>The parser in the middle of a name of which it has read \<open>u\<close>.\<close>

definition reading :: "TestSpecParser \<Rightarrow> string \<Rightarrow> Mode \<Rightarrow> TestSpecParser" where
  "reading p u lm = p\<lparr>m_mode := Mode_Name, lastMode := lm, m_realPatternPos := length (escape_name u),
     m_substring := escape_name u, m_patternName := escape_name u, m_escapeChars := escape_at 0 u\<rparr>"

lemma visit_plain:
  "\<not> spec_special c \<Longrightarrow> visitChar c (reading p u lm) = Inr (True, reading p (u @ [c]) lm)"
  by (simp add: visitChar_def reading_def spec_special_def processNameChar_def visit_rest_def
      escape_name_append escape_at_append)

lemma visit_escaped:
  assumes "spec_special c"
  shows "visit_all arg (CHR 0x5C # c # cs) (reading p u lm) = visit_all arg cs (reading p (u @ [c]) Mode_Name)"
proof -
  let ?q = "addCharToPattern (CHR 0x5C) (parser_escape (reading p u lm))"
  have "visitChar (CHR 0x5C) (reading p u lm) = Inr (True, ?q)"
    by (simp add: visitChar_def reading_def)
  moreover have "visitChar c ?q = Inr (True, reading p (u @ [c]) Mode_Name)"
    using assms by (simp add: visitChar_def endMode_def addCharToPattern_def parser_escape_def reading_def
        saveLastMode_def revertBackToLastMode_def Let_def escape_name_append escape_at_append)
  ultimately show ?thesis by simp
qed

lemma visit_plain_all:
  "\<not> spec_special c \<Longrightarrow>
   visit_all arg (c # cs) (reading p u lm) = visit_all arg cs (reading p (u @ [c]) lm)"
  by (simp add: visit_plain)

lemma visit_name_append:
  "\<exists>lm'. visit_all arg (escape_name v @ cs) (reading p u lm) = visit_all arg cs (reading p (u @ v) lm')"
proof (induction v arbitrary: u lm)
  case (Cons c v)
  from Cons.IH [of "u @ [c]"] show ?case
    by (cases "spec_special c") (auto simp: visit_escaped visit_plain_all simp del: visit_all.simps(2))
qed auto

lemma visit_name: "\<exists>lm'. visit_all arg (escape_name v) (reading p u lm) = Inr (reading p (u @ v) lm')"
  using visit_name_append [of arg v "[]" p u lm] by simp

definition plain_start :: "char \<Rightarrow> bool" where
  "plain_start c \<longleftrightarrow> \<not> spec_special c \<and> c \<noteq> CHR '' '' \<and> c \<noteq> CHR ''~'' \<and> c \<noteq> CHR 0x22"

lemma visit_first:
  "plain_start c \<Longrightarrow> visitChar c (new_TestSpecParser al) = Inr (True, reading (new_TestSpecParser al) [c] Mode_None)"
  by (simp add: visitChar_def new_TestSpecParser_def plain_start_def spec_special_def processNoneChar_def
      startNewMode_def visit_rest_def reading_def)

lemma endMode_reading:
  assumes "u \<noteq> []" and "\<not> startsWith u ''exclude:''" and "\<not> m_exclusion p"
  shows "endMode (reading p u lm) = Inr (end_pattern (add_pattern (new_NamePattern u (escape_name u))
    ((reading p u lm)\<lparr>m_escapeChars := [], m_patternName := [], m_realPatternPos := 0\<rparr>)))"
  using assms remove_escapes_escaped [of 0 "[]" u]
  by (simp add: endMode_def addNamePattern_def preprocessPattern_def reading_def Let_def)

lemma expandAliases_none:
  "(\<And>x. x \<in> set registry \<Longrightarrow> \<not> str_contains spec (fst x)) \<Longrightarrow> expandAliases registry spec = spec"
  using expand_none by (simp add: expandAliases_def)



text \<open>
  A backslash at the end. An argument that ends with a backslash leaves the parser waiting for the
  escaped character; at the end it only goes back to the mode before. The name that was read is never
  made a pattern: the specification has no filter, which means that every test that is not hidden is
  run, and the argument is not reported as invalid either.
\<close>

theorem trailing_backslash_drops_name:
  assumes "n \<noteq> []" and "plain_start (hd n)"
    and "\<forall>x \<in> set aliases. \<not> str_contains (escape_name n @ [CHR 0x5C]) (fst x)"
  shows "\<exists>spec. parseTestSpec aliases (escape_name n @ [CHR 0x5C]) = Inr spec \<and>
    \<not> hasFilters spec \<and> m_invalidArgs spec = []"
proof -
  from assms(1) obtain c v where n: "n = c # v" by (cases n) auto
  let ?p = "new_TestSpecParser aliases" and ?arg = "escape_name n @ [CHR 0x5C]"
  have start: "?p\<lparr>m_mode := Mode_None, m_exclusion := False, m_escapeChars := [], m_realPatternPos := 0\<rparr> = ?p"
    by (simp add: new_TestSpecParser_def)
  have c: "plain_start c" "\<not> spec_special c" using assms(2) by (simp_all add: n plain_start_def)
  obtain lm where "visit_all ?arg (escape_name v @ [CHR 0x5C]) (reading ?p [c] Mode_None) =
      visit_all ?arg [CHR 0x5C] (reading ?p n lm)"
    using visit_name_append [of ?arg v "[CHR 0x5C]" ?p "[c]"] by (auto simp: n)
  moreover let ?q = "addCharToPattern (CHR 0x5C) (parser_escape (reading ?p n lm))"
  have "visit_all ?arg [CHR 0x5C] (reading ?p n lm) = Inr ?q"
    by (simp add: visitChar_def reading_def)
  ultimately have "visit_all ?arg ?arg ?p = Inr ?q"
    using c visit_first [OF c(1), of aliases] by (simp add: n)
  then have "parser_parse ?arg ?p = endMode ?q"
    using expandAliases_none [of aliases ?arg] assms(3) start
    by (simp add: parser_parse_def new_TestSpecParser_def)
  moreover have "endMode ?q = Inr (revertBackToLastMode ?q)"
    by (simp add: endMode_def addCharToPattern_def parser_escape_def Let_def)
  ultimately have "parseTestSpec aliases ?arg = Inr (parser_testSpec (revertBackToLastMode ?q))"
    by (simp add: parseTestSpec_def)
  then show ?thesis
    by (simp add: parser_testSpec_def addFilter_def revertBackToLastMode_def addCharToPattern_def parser_escape_def
        saveLastMode_def reading_def new_TestSpecParser_def empty_filter_def hasFilters_def Let_def)
qed

theorem trailing_backslash_drops_name_witness:
  "\<exists>spec. parseTestSpec [] (''Books'' @ [CHR 0x5C]) = Inr spec \<and> \<not> hasFilters spec"
  using trailing_backslash_drops_name [of "''Books''" "[]"]
  by (auto simp: plain_start_def spec_special_def)

text \<open>
  The file name as a tag. The tag that is added for the file of a test is not put into lower case,
  while a pattern always is: when the name of the file has a capital letter, no pattern for the tag of
  that file finds the test, unless another tag of the test happens to be that name in lower case.
\<close>

theorem filename_tag_not_found:
  assumes "addFilenameTag info = Inr info'" and "extractFilenamePart (li_file (ti_lineInfo info)) = Inr f"
    and "c \<in> set f" and "65 \<le> (of_char c :: nat) \<and> (of_char c :: nat) \<le> 90"
    and "length (backingLCaseTags info) = length (backingTags info)"
    and "\<forall>t \<in> set (ti_tags info). tr_start t + tr_len t \<le> length (backingLCaseTags info) \<and>
      tag_lowerCased info t \<noteq> toLower (''#'' @ f)"
  shows "(\<exists>t \<in> set (ti_tags info'). tag_original info' t = ''#'' @ f) \<and>
    \<not> pattern_matches (new_TagPattern (''#'' @ f) filterString) info'"
proof -
  have info': "info' = internalAppendTag (''#'' @ f) info"
    using assms(1,2) by (simp add: addFilenameTag_def StringRef_append_def)
  let ?t = "\<lparr>tr_start = length (backingTags info) + 1, tr_len = length f + 1\<rparr>"
  have tags: "ti_tags info' = ti_tags info @ [?t]" by (simp add: info' internalAppendTag_def Let_def)
  have low: "tag_lowerCased info' ?t = ''#'' @ f" and orig: "tag_original info' ?t = ''#'' @ f"
    using assms(5) by (simp_all add: info' internalAppendTag_def Let_def tag_lowerCased_def tag_original_def)
  have old: "tag_lowerCased info' t = tag_lowerCased info t" if "t \<in> set (ti_tags info)" for t
    using assms(6) that by (auto simp: info' internalAppendTag_def Let_def tag_lowerCased_def)
  have "toLowerCh c \<noteq> c"
  proof
    assume "toLowerCh c = c"
    then have "(of_char (toLowerCh c) :: nat) = of_char c" by simp
    with assms(4) show False by (simp add: toLowerCh_code Let_def)
  qed
  then have "toLower f \<noteq> f" using assms(3) by (simp add: toLower_def map_idI) (metis map_eq_conv list.map_ident)
  then have "toLower (''#'' @ f) \<noteq> ''#'' @ f" by (simp add: toLower_def toLowerCh_eq)
  with low old assms(6) have "\<forall>t \<in> set (ti_tags info'). tag_lowerCased info' t \<noteq> toLower (''#'' @ f)"
    by (auto simp: tags)
  then have "\<not> pattern_matches (new_TagPattern (''#'' @ f) filterString) info'"
    by (simp add: new_TagPattern_def find_if_end StringRef_eq_iff)
  with orig tags show ?thesis by auto
qed

definition sample_info :: TestCaseInfo where
  "sample_info = \<lparr>ti_name = ''t'', ti_className = '''', backingTags = [], backingLCaseTags = [], ti_tags = [],
     ti_lineInfo = \<lparr>li_file = ''test/OrderBookTest.cpp'', li_line = 7\<rparr>, ti_properties = TCP_None,
     ti_reserved = 19\<rparr>"

theorem filename_tag_not_found_witness:
  "\<exists>info'. addFilenameTag sample_info = Inr info' \<and>
    \<not> pattern_matches (new_TagPattern (''#'' @ ''OrderBookTest'') ''[#OrderBookTest]'') info'"
proof -
  have f: "extractFilenamePart (li_file (ti_lineInfo sample_info)) = Inr ''OrderBookTest''" by code_simp
  then have "\<exists>info'. addFilenameTag sample_info = Inr info'" by (simp add: addFilenameTag_def)
  then obtain info' where i: "addFilenameTag sample_info = Inr info'" by blast
  from filename_tag_not_found [OF i f, of "CHR ''O''"] i show ?thesis by (simp add: sample_info_def)
qed

end
