(* ===== verification/Catch_Registry.thy ===== *)
theory Catch_Registry
  imports Catch_Test_Spec
begin

section \<open>The registry of tests\<close>

text \<open>
  The random number generator of Catch2, and the registry of test cases: sorting, duplicates,
  selection. A handle has the test case and a number for its invoker, the pointer the code compares.
  The part of the configuration that is used here is the record \<open>run_config\<close>.
\<close>

subsection \<open>\<open>SimplePcg32\<close>\<close>

type_synonym u32 = "32 word"

definition rotate_right :: "u32 \<Rightarrow> u32 \<Rightarrow> u32" where
  "rotate_right val cnt =
     (let mask = 31 :: u32; c = cnt AND mask
      in drop_bit (unat c) val OR push_bit (unat (- c AND mask)) val)"

definition s_inc :: u64 where
  "s_inc = push_bit 1 (0x13ed0cc53f939476 :: u64) OR 1"

text \<open>The call operator: the output and the new state.\<close>

definition pcg_next :: "u64 \<Rightarrow> u32 \<times> u64" where
  "pcg_next m_state =
     (let xorshifted = ucast (drop_bit 27 (drop_bit 18 m_state XOR m_state)) :: u32;
          output = rotate_right xorshifted (ucast (drop_bit 59 m_state))
      in (output, m_state * 6364136223846793005 + s_inc))"

definition pcg_seed :: "u32 \<Rightarrow> u64" where
  "pcg_seed sd =
     (let (_, s1) = pcg_next 0;
          s2 = s1 + ucast sd;
          (_, s3) = pcg_next s2
      in s3)"

fun pcg_discard :: "nat \<Rightarrow> u64 \<Rightarrow> u64" where
  "pcg_discard 0 m_state = m_state"
| "pcg_discard (Suc skip) m_state = pcg_discard skip (snd (pcg_next m_state))"

subsection \<open>Test cases and their order\<close>

record TestCaseHandle =
  th_info :: TestCaseInfo
  th_invoker :: nat

definition handle_eq :: "TestCaseHandle \<Rightarrow> TestCaseHandle \<Rightarrow> bool" where
  "handle_eq lhs rhs \<longleftrightarrow> th_invoker lhs = th_invoker rhs \<and>
     ti_name (th_info lhs) = ti_name (th_info rhs) \<and> ti_className (th_info lhs) = ti_className (th_info rhs)"

definition handle_less :: "TestCaseHandle \<Rightarrow> TestCaseHandle \<Rightarrow> bool" where
  "handle_less lhs rhs = string_less (ti_name (th_info lhs)) (ti_name (th_info rhs))"

datatype TestRunOrder = Declared | LexicographicallySorted | Randomized

record run_config =
  cf_runOrder :: TestRunOrder
  cf_rngSeed :: u32
  cf_allowThrows :: bool

definition seedRng :: "run_config \<Rightarrow> u64 \<Rightarrow> u64" where
  "seedRng config rng = (if cf_rngSeed config \<noteq> 0 then pcg_seed (cf_rngSeed config) else rng)"

definition new_HashTest :: "u64 \<Rightarrow> u64 \<times> u64" where
  "new_HashTest rng =
     (let (r1, rng1) = pcg_next rng;
          basis1 = push_bit 32 (ucast r1 :: u64);
          (r2, rng2) = pcg_next rng1
      in (basis1 OR ucast r2, rng2))"

text \<open>\<open>hash ^= c\<close> with a signed \<open>char\<close>, which is sign extended.\<close>

definition hash_test :: "u64 \<Rightarrow> TestCaseInfo \<Rightarrow> u64" where
  "hash_test basis t =
     foldl (\<lambda>hash c. (hash XOR scast (word_of_nat (of_char c) :: 8 word)) * 1099511628211) basis (ti_name t)"

text \<open>\<open>std::pair\<close> compares its first components, then its second ones.\<close>

definition hashed_less :: "u64 \<times> TestCaseHandle \<Rightarrow> u64 \<times> TestCaseHandle \<Rightarrow> bool" where
  "hashed_less x y \<longleftrightarrow> fst x < fst y \<or> (\<not> fst y < fst x \<and> handle_less (snd x) (snd y))"

text \<open>The two instances of \<open>std::sort\<close> are parameters; the random number generator is a global object.\<close>

definition sortTests :: "TestCaseHandle sorter \<Rightarrow> (u64 \<times> TestCaseHandle) sorter \<Rightarrow> run_config \<Rightarrow>
    TestCaseHandle list \<Rightarrow> u64 \<Rightarrow> TestCaseHandle list \<times> u64" where
  "sortTests srt psrt config unsortedTestCases rng = (case cf_runOrder config of
       Declared \<Rightarrow> (unsortedTestCases, rng)
     | LexicographicallySorted \<Rightarrow> (srt handle_less unsortedTestCases, rng)
     | Randomized \<Rightarrow>
         (let rng1 = seedRng config rng;
              (h, rng2) = new_HashTest rng1;
              indexed_tests = map (\<lambda>handle. (hash_test h (th_info handle), handle)) unsortedTestCases;
              sorted = psrt hashed_less indexed_tests
          in (map snd sorted, rng2)))"

definition isThrowSafe :: "TestCaseHandle \<Rightarrow> run_config \<Rightarrow> bool" where
  "isThrowSafe testCase config \<longleftrightarrow> \<not> ti_throws (th_info testCase) \<or> cf_allowThrows config"

definition matchTest :: "TestCaseHandle \<Rightarrow> TestSpec \<Rightarrow> run_config \<Rightarrow> bool" where
  "matchTest testCase testSpec config \<longleftrightarrow> spec_matches testSpec (th_info testCase) \<and> isThrowSafe testCase config"

text \<open>A \<open>std::set\<close> of handles takes an element when none in it is equivalent under \<open><\<close>.\<close>

fun enforce_loop :: "TestCaseHandle list \<Rightarrow> TestCaseHandle list \<Rightarrow> unit res" where
  "enforce_loop seen [] = Inr ()"
| "enforce_loop seen (f # fs) =
     (if list_ex (\<lambda>g. \<not> handle_less f g \<and> \<not> handle_less g f) seen then Inl Domain_Error
      else enforce_loop (f # seen) fs)"

definition enforceNoDuplicateTestCases :: "TestCaseHandle list \<Rightarrow> unit res" where
  "enforceNoDuplicateTestCases functions = enforce_loop [] functions"

definition filterTests :: "TestCaseHandle list \<Rightarrow> TestSpec \<Rightarrow> run_config \<Rightarrow> TestCaseHandle list" where
  "filterTests testCases testSpec config =
     foldl (\<lambda>filtered testCase.
       if (\<not> hasFilters testSpec \<and> \<not> isHidden (th_info testCase)) \<or>
          (hasFilters testSpec \<and> matchTest testCase testSpec config)
       then filtered @ [testCase] else filtered) [] testCases"

text \<open>A \<open>FilterMatch\<close>: the name of a filter and the tests it takes.\<close>

definition matchesByFilter :: "TestSpec \<Rightarrow> TestCaseHandle list \<Rightarrow> run_config \<Rightarrow>
    (string \<times> TestCaseHandle list) list" where
  "matchesByFilter spec testCases config =
     map (\<lambda>f. (filter_name f,
       foldl (\<lambda>currentMatches test. if isThrowSafe test config \<and> filter_matches f (th_info test)
         then currentMatches @ [test] else currentMatches) [] testCases)) (m_filters spec)"

subsection \<open>The registry\<close>

record TestRegistry =
  m_viewed_test_infos :: "TestCaseInfo list"
  m_invokers :: "nat list"
  m_handles :: "TestCaseHandle list"
  m_currentSortOrder :: TestRunOrder
  m_sortedFunctions :: "TestCaseHandle list"

definition new_TestRegistry :: TestRegistry where
  "new_TestRegistry = \<lparr>m_viewed_test_infos = [], m_invokers = [], m_handles = [],
     m_currentSortOrder = Declared, m_sortedFunctions = []\<rparr>"

definition registerTest :: "TestCaseInfo \<Rightarrow> nat \<Rightarrow> TestRegistry \<Rightarrow> TestRegistry" where
  "registerTest testInfo testInvoker r =
     r\<lparr>m_handles := m_handles r @ [\<lparr>th_info = testInfo, th_invoker = testInvoker\<rparr>],
       m_viewed_test_infos := m_viewed_test_infos r @ [testInfo],
       m_invokers := m_invokers r @ [testInvoker]\<rparr>"

definition getAllTestsSorted :: "TestCaseHandle sorter \<Rightarrow> (u64 \<times> TestCaseHandle) sorter \<Rightarrow> run_config \<Rightarrow>
    TestRegistry \<Rightarrow> u64 \<Rightarrow> (TestCaseHandle list \<times> TestRegistry \<times> u64) res" where
  "getAllTestsSorted srt psrt config r rng =
     bindE (if m_sortedFunctions r = [] then enforceNoDuplicateTestCases (m_handles r) else Inr ()) (\<lambda>_.
       let (r1, rng1) =
             (if m_currentSortOrder r \<noteq> cf_runOrder config \<or> m_sortedFunctions r = [] then
                let (sorted, rng') = sortTests srt psrt config (m_handles r) rng
                in (r\<lparr>m_sortedFunctions := sorted, m_currentSortOrder := cf_runOrder config\<rparr>, rng')
              else (r, rng))
       in Inr (m_sortedFunctions r1, r1, rng1))"

text \<open>
  The name of the class of a test method. \<open>rfind\<close> from a position looks for the last occurrence that
  starts there or before; \<open>npos\<close> is \<open>None\<close>, and \<open>lastColons - 1\<close> of \<open>npos\<close> or of zero is beyond the text.
\<close>

definition str_rfind :: "string \<Rightarrow> string \<Rightarrow> nat option \<Rightarrow> nat option" where
  "str_rfind s t pos = List.find (occurs_at s t)
     (rev [0..<Suc (case pos of None \<Rightarrow> length s | Some p \<Rightarrow> min p (length s))])"

definition extractClassName :: "string \<Rightarrow> string" where
  "extractClassName classOrQualifiedMethodName =
     (let className = classOrQualifiedMethodName
      in if startsWith_char className (CHR ''&'') then
           let lastColons = str_rfind className ''::'' None;
               penultimateColons = str_rfind className ''::''
                 (case lastColons of None \<Rightarrow> None | Some n \<Rightarrow> if n = 0 then None else Some (n - 1));
               from = (case penultimateColons of None \<Rightarrow> 1 | Some n \<Rightarrow> n)
           in (case lastColons of
                 None \<Rightarrow> drop from className
               | Some n \<Rightarrow> if from \<le> n then take (n - from) (drop from className) else drop from className)
         else className)"

subsection \<open>Rotation\<close>

lemma unat_and_31: "unat (c AND 31 :: u32) = unat c mod 32"
proof -
  have "c AND 31 = take_bit 5 c" by (simp add: take_bit_eq_mask mask_eq_exp_minus_1)
  then have "unat (c AND 31) = take_bit 5 (unat c)" by (simp only: unsigned_take_bit_eq)
  then show ?thesis by (simp only: take_bit_eq_mod) simp
qed

lemma unat_neg_and_31: "unat (- (c AND 31) AND 31 :: u32) = (32 - unat c mod 32) mod 32"
proof -
  let ?c = "c AND 31"
  have c: "unat ?c = unat c mod 32" by (rule unat_and_31)
  have "unat (- ?c AND 31) = unat (- ?c) mod 32" by (rule unat_and_31)
  also have "\<dots> = (32 - unat c mod 32) mod 32"
  proof (cases "unat ?c = 0")
    case True
    then have "?c = 0" by (simp only: unat_eq_0)
    then have "- ?c = 0" by (simp only: minus_zero)
    moreover from c True have "unat c mod 32 = 0" by linarith
    ultimately show ?thesis by (simp only: unat_0) simp
  next
    case False
    have "unat (- ?c) + unat ?c = 2 ^ 32 \<or> unat (- ?c) + unat ?c = 0"
    proof -
      have "of_nat (unat (- ?c) + unat ?c) = (0 :: u32)" by (simp add: of_nat_add)
      then have "(2 ^ 32) dvd (unat (- ?c) + unat ?c)" by (simp only: word_of_nat_eq_0_iff) simp
      then obtain q where q: "unat (- ?c) + unat ?c = 2 ^ 32 * q" by (rule dvdE)
      have "unat (- ?c) < 2 ^ 32" "unat ?c < 2 ^ 32" using unsigned_less [of "- ?c"] unsigned_less [of ?c] by auto
      with q have "q < 2" by auto
      with q show ?thesis by (cases q) auto
    qed
    with False have "unat (- ?c) = 32 * (2 ^ 27 - 1) + (32 - unat c mod 32)" using c by auto
    then show ?thesis by (simp only: mod_mult_self4)
  qed
  finally show ?thesis .
qed

lemma rotation_bit:
  fixes val :: u32
  assumes n: "n < 32" and k: "k < 32"
  shows "bit val (n + k) \<or> (32 - k) mod 32 \<le> n \<and> bit val (n - (32 - k) mod 32) \<longleftrightarrow> bit val ((n + k) mod 32)"
proof (cases "k = 0")
  case True
  with n bit_imp_le_length [of val n] show ?thesis by simp
next
  case False
  with k have m: "(32 - k) mod 32 = 32 - k" by simp
  show ?thesis
  proof (cases "n + k < 32")
    case True
    then have "\<not> 32 - k \<le> n" by linarith
    with True show ?thesis by (simp add: m)
  next
    case False
    then have "\<not> bit val (n + k)" using bit_imp_le_length [of val "n + k"] by auto
    moreover have "(n + k) mod 32 = n - (32 - k)" using False k n by (simp add: mod_if)
    moreover have "32 - k \<le> n" using False by linarith
    ultimately show ?thesis by (simp only: m) simp
  qed
qed

text \<open>
  Rotation. The shifts of \<open>rotate_right\<close>, written so that no shift is by the width of the word,
  are the rotation to the right by the count modulo 32, for every count.
\<close>

theorem rotate_right_rotates: "rotate_right val cnt = word_rotr (unat cnt mod 32) val"
proof (rule bit_word_eqI)
  fix n assume "n < LENGTH(32)"
  then have n: "n < 32" by simp
  let ?k = "unat cnt mod 32"
  have rr: "rotate_right val cnt = drop_bit ?k val OR push_bit ((32 - ?k) mod 32) val"
    by (simp only: rotate_right_def Let_def unat_and_31 [of cnt] unat_neg_and_31 [of cnt])
  have "bit (rotate_right val cnt) n \<longleftrightarrow> bit val (n + ?k) \<or>
      ((32 - ?k) mod 32 \<le> n \<and> bit val (n - (32 - ?k) mod 32))"
    using n by (simp add: rr bit_or_iff bit_drop_bit_eq bit_push_bit_iff add.commute)
  also have "\<dots> \<longleftrightarrow> bit val ((n + ?k) mod 32)" by (rule rotation_bit) (simp_all add: n)
  finally show "bit (rotate_right val cnt) n = bit (word_rotr ?k val) n"
    using n by (simp add: bit_word_rotr_iff)
qed

subsection \<open>The order and the choice of tests\<close>

lemma handle_less_weak: "weak_order_on handle_less A"
proof -
  have "\<not> handle_less x x" for x by (simp add: handle_less_def)
  moreover have "handle_less x z" if "handle_less x y" "handle_less y z" for x y z
    using that string_less_trans unfolding handle_less_def by blast
  moreover have "\<not> handle_less x z" if "\<not> handle_less x y" "\<not> handle_less y z" for x y z
  proof
    assume xz: "handle_less x z"
    from that(1) consider "ti_name (th_info x) = ti_name (th_info y)" | "handle_less y x"
      unfolding handle_less_def using string_less_total by blast
    then show False
    proof cases
      case 1
      with xz that(2) show ?thesis by (simp add: handle_less_def)
    next
      case 2
      with xz that(2) string_less_trans show ?thesis unfolding handle_less_def by blast
    qed
  qed
  ultimately show ?thesis unfolding weak_order_on_def by blast
qed

lemma hashed_less_weak: "weak_order_on hashed_less A"
proof -
  have hw: "weak_order_on handle_less UNIV" by (rule handle_less_weak)
  have "\<not> hashed_less x x" for x by (simp add: hashed_less_def handle_less_def)
  moreover have "hashed_less x z" if "hashed_less x y" "hashed_less y z" for x y z
  proof -
    have "handle_less (snd x) (snd y) \<Longrightarrow> handle_less (snd y) (snd z) \<Longrightarrow> handle_less (snd x) (snd z)"
      using hw unfolding weak_order_on_def by blast
    with that show ?thesis unfolding hashed_less_def by (auto dest: less_trans)
  qed
  moreover have "\<not> hashed_less x z" if "\<not> hashed_less x y" "\<not> hashed_less y z" for x y z
  proof -
    have "\<not> handle_less (snd x) (snd y) \<Longrightarrow> \<not> handle_less (snd y) (snd z) \<Longrightarrow> \<not> handle_less (snd x) (snd z)"
      using hw unfolding weak_order_on_def by blast
    with that show ?thesis unfolding hashed_less_def by (auto dest: less_trans)
  qed
  ultimately show ?thesis unfolding weak_order_on_def by blast
qed

lemma sortTests_mset:
  assumes "std_sort srt" and "std_sort psrt"
  shows "mset (fst (sortTests srt psrt config tests rng)) = mset tests"
proof (cases "cf_runOrder config")
  case LexicographicallySorted
  then show ?thesis using assms(1) handle_less_weak by (simp add: sortTests_def std_sort_def)
next
  case Randomized
  have "mset (psrt hashed_less ps) = mset ps" for ps
    using assms(2) hashed_less_weak by (simp add: std_sort_def)
  then have "image_mset snd (mset (psrt hashed_less (map (\<lambda>h. (f h, h)) tests))) = mset tests" for f
    by (simp add: multiset.map_comp comp_def)
  with Randomized show ?thesis by (simp add: sortTests_def split: prod.splits)
qed (simp add: sortTests_def)

definition handle_name :: "TestCaseHandle \<Rightarrow> string" where
  "handle_name f = ti_name (th_info f)"

lemma enforce_loop_iff:
  "enforce_loop seen fs = Inr () \<longleftrightarrow> distinct (map handle_name fs) \<and>
     (\<forall>g \<in> set seen. \<forall>f \<in> set fs. handle_name f \<noteq> handle_name g)"
proof (induction fs arbitrary: seen)
  case (Cons f fs)
  have "\<not> handle_less f g \<and> \<not> handle_less g f \<longleftrightarrow> handle_name f = handle_name g" for g
    unfolding handle_less_def handle_name_def using string_less_total string_less_irrefl by metis
  then have "enforce_loop seen (f # fs) = Inr () \<longleftrightarrow>
      (\<forall>g \<in> set seen. handle_name f \<noteq> handle_name g) \<and> enforce_loop (f # seen) fs = Inr ()"
    by (auto simp: list_ex_iff)
  moreover have "handle_name f \<notin> handle_name ` set fs \<longleftrightarrow> (\<forall>f' \<in> set fs. handle_name f' \<noteq> handle_name f)"
    by (metis image_iff)
  ultimately show ?case unfolding Cons.IH [of "f # seen"] by fastforce
qed simp

text \<open>
  Every test runs once. For tests registered one by one, in any run order, asking for the sorted
  tests for the first time succeeds exactly when no two of them share their name; then it gives every
  registered test exactly once, and in lexicographic order they are ordered by name. A second request
  for the same order gives the same tests.
\<close>

theorem sorted_tests_complete:
  fixes tests :: "(TestCaseInfo \<times> nat) list"
  assumes "std_sort srt" and "std_sort psrt"
  defines "r \<equiv> fold (\<lambda>(info, inv). registerTest info inv) tests new_TestRegistry"
  shows "((\<exists>e. getAllTestsSorted srt psrt config r rng = Inl e) \<longleftrightarrow> \<not> distinct (map (ti_name \<circ> fst) tests)) \<and>
    (\<forall>fs r1 rng1. getAllTestsSorted srt psrt config r rng = Inr (fs, r1, rng1) \<longrightarrow>
       mset (map (\<lambda>f. (th_info f, th_invoker f)) fs) = mset tests \<and>
       (cf_runOrder config = LexicographicallySorted \<longrightarrow>
          sorted_wrt (\<lambda>f g. \<not> string_less (handle_name g) (handle_name f)) fs) \<and>
       (getAllTestsSorted srt psrt config r1 rng1 = Inr (fs, r1, rng1) \<or> fs = []))"
proof -
  have reg: "m_handles (fold (\<lambda>(info, inv). registerTest info inv) ts r0) =
      m_handles r0 @ map (\<lambda>(info, inv). \<lparr>th_info = info, th_invoker = inv\<rparr>) ts \<and>
      m_sortedFunctions (fold (\<lambda>(info, inv). registerTest info inv) ts r0) = m_sortedFunctions r0" for ts r0
    by (induction ts arbitrary: r0) (auto simp: registerTest_def)
  then have h: "m_handles r = map (\<lambda>(info, inv). \<lparr>th_info = info, th_invoker = inv\<rparr>) tests"
    and s: "m_sortedFunctions r = []" by (simp_all add: r_def new_TestRegistry_def)
  have names: "map handle_name (m_handles r) = map (ti_name \<circ> fst) tests"
    by (simp add: h handle_name_def case_prod_unfold)
  have dup: "(\<exists>e. enforceNoDuplicateTestCases (m_handles r) = Inl e) \<longleftrightarrow> \<not> distinct (map (ti_name \<circ> fst) tests)"
    using enforce_loop_iff [of "[]" "m_handles r"] names
    by (cases "enforce_loop [] (m_handles r)") (auto simp: enforceNoDuplicateTestCases_def)
  have err: "(\<exists>e. getAllTestsSorted srt psrt config r rng = Inl e) \<longleftrightarrow>
      (\<exists>e. enforceNoDuplicateTestCases (m_handles r) = Inl e)"
    by (cases "enforceNoDuplicateTestCases (m_handles r)") (simp_all add: getAllTestsSorted_def s split: prod.splits)
  have ok: "mset (map (\<lambda>f. (th_info f, th_invoker f)) fs) = mset tests \<and>
      (cf_runOrder config = LexicographicallySorted \<longrightarrow>
         sorted_wrt (\<lambda>f g. \<not> string_less (handle_name g) (handle_name f)) fs) \<and>
      (getAllTestsSorted srt psrt config r1 rng1 = Inr (fs, r1, rng1) \<or> fs = [])"
    if "getAllTestsSorted srt psrt config r rng = Inr (fs, r1, rng1)" for fs r1 rng1
  proof -
    from that have fs: "sortTests srt psrt config (m_handles r) rng = (fs, rng1)"
      and r1: "r1 = r\<lparr>m_sortedFunctions := fs, m_currentSortOrder := cf_runOrder config\<rparr>"
      by (auto simp: getAllTestsSorted_def s bindE_eq_Inr split: prod.splits)
    from sortTests_mset [OF assms(1,2), of config "m_handles r" rng] fs
    have "mset fs = mset (m_handles r)" by simp
    then have "image_mset (\<lambda>f. (th_info f, th_invoker f)) (mset fs) =
        image_mset (\<lambda>f. (th_info f, th_invoker f)) (mset (m_handles r))" by simp
    then have "mset (map (\<lambda>f. (th_info f, th_invoker f)) fs) = mset tests"
      by (simp add: h multiset.map_comp comp_def case_prod_unfold)
    moreover have "sorted_wrt (\<lambda>f g. \<not> string_less (handle_name g) (handle_name f)) fs"
      if "cf_runOrder config = LexicographicallySorted"
      using fs that assms(1) handle_less_weak
      by (auto simp: sortTests_def std_sort_def handle_name_def handle_less_def [abs_def])
    moreover have "getAllTestsSorted srt psrt config r1 rng1 = Inr (fs, r1, rng1) \<or> fs = []"
      by (simp add: getAllTestsSorted_def r1)
    ultimately show ?thesis by blast
  qed
  from dup err ok show ?thesis by blast
qed

text \<open>A test case with a name and nothing else, for examples.\<close>

definition named_test :: "string \<Rightarrow> TestCaseInfo" where
  "named_test nm = \<lparr>ti_name = nm, ti_className = [], backingTags = [], backingLCaseTags = [],
     ti_tags = [], ti_lineInfo = \<lparr>li_file = ''t.cpp'', li_line = 1\<rparr>, ti_properties = TCP_None, ti_reserved = 0\<rparr>"

theorem sorted_tests_complete_witness:
  "\<exists>fs r1. getAllTestsSorted insertion_sort insertion_sort
      \<lparr>cf_runOrder = LexicographicallySorted, cf_rngSeed = 0, cf_allowThrows = True\<rparr>
      (fold (\<lambda>(info, inv). registerTest info inv) [(named_test ''sends'', 1), (named_test ''reads'', 2)]
        new_TestRegistry) 0 = Inr (fs, r1, 0) \<and>
    mset (map (\<lambda>f. (th_info f, th_invoker f)) fs) = mset [(named_test ''sends'', 1), (named_test ''reads'', 2)]"
proof -
  let ?c = "\<lparr>cf_runOrder = LexicographicallySorted, cf_rngSeed = 0, cf_allowThrows = True\<rparr>"
  let ?ts = "[(named_test ''sends'', 1), (named_test ''reads'', 2)]"
  let ?r = "fold (\<lambda>(info, inv). registerTest info inv) ?ts new_TestRegistry"
  let ?g = "getAllTestsSorted insertion_sort insertion_sort ?c ?r 0"
  note all = sorted_tests_complete [OF insertion_sort_std insertion_sort_std, of ?c ?ts 0]
  from all have "\<not> (\<exists>e. ?g = Inl e)" by (simp add: named_test_def)
  then obtain fs r1 rng1 where g: "?g = Inr (fs, r1, rng1)" by (cases ?g) auto
  then have "rng1 = 0"
    by (auto simp: getAllTestsSorted_def sortTests_def registerTest_def new_TestRegistry_def bindE_eq_Inr)
  moreover have "mset (map (\<lambda>f. (th_info f, th_invoker f)) fs) = mset ?ts" using all g by blast
  ultimately show ?thesis using g by blast
qed

text \<open>Both loops over the tests are filters.\<close>

lemma foldl_filter: "foldl (\<lambda>acc x. if P x then acc @ [x] else acc) ys xs = ys @ filter P xs"
  by (induction xs arbitrary: ys) auto

lemma filterTests_filter: "filterTests tests spec config =
    filter (\<lambda>t. if hasFilters spec then matchTest t spec config else \<not> isHidden (th_info t)) tests"
  unfolding filterTests_def foldl_filter by (auto intro: filter_cong)

text \<open>
  Selection. With filters given, the tests that run are those that some group of
  \<open>matchesByFilter\<close> lists, in the order of registration, and no group lists a test that does not
  run; without filters no group is listed and every test runs that is not hidden.
\<close>

theorem selection_agrees:
  "(hasFilters spec \<longrightarrow> filterTests tests spec config =
      filter (\<lambda>t. \<exists>(nm, ts) \<in> set (matchesByFilter spec tests config). t \<in> set ts) tests) \<and>
   (\<forall>(nm, ts) \<in> set (matchesByFilter spec tests config). set ts \<subseteq> set (filterTests tests spec config)) \<and>
   (\<not> hasFilters spec \<longrightarrow> matchesByFilter spec tests config = [] \<and>
      filterTests tests spec config = filter (\<lambda>t. \<not> isHidden (th_info t)) tests)"
proof -
  have groups: "matchesByFilter spec tests config = map (\<lambda>f. (filter_name f,
      filter (\<lambda>t. isThrowSafe t config \<and> filter_matches f (th_info t)) tests)) (m_filters spec)"
    by (simp add: matchesByFilter_def foldl_filter)
  show ?thesis
    by (auto simp: filterTests_filter groups matchTest_def spec_matches_def hasFilters_def list_ex_iff
        intro!: filter_cong)
qed

theorem selection_agrees_witness:
  "\<exists>spec config. hasFilters spec \<and>
     filterTests [\<lparr>th_info = named_test ''book'', th_invoker = 1\<rparr>, \<lparr>th_info = named_test ''trades'', th_invoker = 2\<rparr>] spec config =
       [\<lparr>th_info = named_test ''book'', th_invoker = 1\<rparr>]"
proof -
  let ?f = "\<lparr>m_required = [new_NamePattern ''bo*'' ''bo*''], m_forbidden = []\<rparr>"
  let ?spec = "\<lparr>m_filters = [?f], m_invalidArgs = []\<rparr>"
  let ?config = "\<lparr>cf_runOrder = Declared, cf_rngSeed = 0, cf_allowThrows = True\<rparr>"
  let ?a = "\<lparr>th_info = named_test ''book'', th_invoker = 1\<rparr>" and ?b = "\<lparr>th_info = named_test ''trades'', th_invoker = 2\<rparr>"
  have has: "hasFilters ?spec" by (simp add: hasFilters_def)
  have a: "filter_matches ?f (named_test ''book'')" and b: "\<not> filter_matches ?f (named_test ''trades'')"
    by code_simp+
  have "matchesByFilter ?spec [?a, ?b] ?config = [(filter_name ?f, [?a])]"
    using a b by (simp add: matchesByFilter_def isThrowSafe_def)
  with has selection_agrees [of ?spec "[?a, ?b]" ?config] have "filterTests [?a, ?b] ?spec ?config = [?a]"
    by (simp add: named_test_def)
  with has show ?thesis by blast
qed

end
