(* ===== verification/Catch_Tracker.thy ===== *)
theory Catch_Tracker
  imports Catch_Test_Case "HOL-Library.Sublist"
begin

section \<open>Tracking the sections of a test\<close>

text \<open>
  \<open>TestCaseTracking\<close> of Catch2 and the generator trackers: which sections of a test case have run, and
  which one runs next. Trackers form a tree. The address of a tracker is the list of positions that
  leads to it from the root, so the address of its parent is the same list without its last position;
  the trackers are kept in a store from addresses to records, and the children of a tracker are the
  positions below the number in its record. A virtual call is a case distinction on the kind of the
  tracker. A null pointer that is dereferenced is \<open>Undefined\<close>. The generator of a generator tracker is
  of any type, and what its \<open>next\<close> does is the parameter \<open>nxt\<close>.
\<close>

subsection \<open>The trackers\<close>

record NameAndLocation =
  nl_name :: string
  nl_location :: SourceLineInfo

datatype CycleState = NotStarted | Executing | ExecutingChildren | NeedsAnotherRun | CompletedSuccessfully | CycleFailed

datatype 'g tracker_kind =
    SectionTracker (m_filters: "string list") (m_trimmed_name: string)
  | GeneratorTracker (m_generator: "'g option")

record 'g tracker =
  tk_nl :: NameAndLocation
  tk_children :: nat
  tk_runState :: CycleState
  tk_kind :: "'g tracker_kind"

type_synonym addr = "nat list"

datatype RunState = Run_NotStarted | Run_Executing | Run_CompletedCycle

record 'g TrackerContext =
  cx_store :: "addr \<Rightarrow> 'g tracker option"
  m_currentTracker :: "addr option"
  cx_runState :: RunState

definition tracker_at :: "addr \<Rightarrow> 'g TrackerContext \<Rightarrow> 'g tracker res" where
  "tracker_at p cx = (case cx_store cx p of None \<Rightarrow> Inl Undefined | Some t \<Rightarrow> Inr t)"

definition set_tracker :: "addr \<Rightarrow> 'g tracker \<Rightarrow> 'g TrackerContext \<Rightarrow> 'g TrackerContext" where
  "set_tracker p t cx = cx\<lparr>cx_store := (cx_store cx)(p \<mapsto> t)\<rparr>"

subsection \<open>The context\<close>

definition new_TrackerContext :: "'g TrackerContext" where
  "new_TrackerContext = \<lparr>cx_store = Map.empty, m_currentTracker = None, cx_runState = Run_NotStarted\<rparr>"

definition new_TrackerBase :: "NameAndLocation \<Rightarrow> 'g tracker_kind \<Rightarrow> 'g tracker" where
  "new_TrackerBase nameAndLocation kind =
     \<lparr>tk_nl = nameAndLocation, tk_children = 0, tk_runState = NotStarted, tk_kind = kind\<rparr>"

definition startRun :: "SourceLineInfo \<Rightarrow> 'g TrackerContext \<Rightarrow> 'g TrackerContext" where
  "startRun here cx =
     \<lparr>cx_store = [[] \<mapsto> new_TrackerBase \<lparr>nl_name = ''{root}'', nl_location = here\<rparr> (SectionTracker [] (trim ''{root}''))],
      m_currentTracker = None, cx_runState = Run_Executing\<rparr>"

definition endRun :: "'g TrackerContext \<Rightarrow> 'g TrackerContext" where
  "endRun cx = cx\<lparr>cx_store := Map.empty, m_currentTracker := None, cx_runState := Run_NotStarted\<rparr>"

definition startCycle :: "'g TrackerContext \<Rightarrow> 'g TrackerContext" where
  "startCycle cx = cx\<lparr>m_currentTracker := (if cx_store cx [] = None then None else Some []), cx_runState := Run_Executing\<rparr>"

definition completeCycle :: "'g TrackerContext \<Rightarrow> 'g TrackerContext" where
  "completeCycle cx = cx\<lparr>cx_runState := Run_CompletedCycle\<rparr>"

definition completedCycle :: "'g TrackerContext \<Rightarrow> bool" where
  "completedCycle cx \<longleftrightarrow> cx_runState cx = Run_CompletedCycle"

definition currentTracker :: "'g TrackerContext \<Rightarrow> addr res" where
  "currentTracker cx = (case m_currentTracker cx of None \<Rightarrow> Inl Undefined | Some p \<Rightarrow> Inr p)"

definition setCurrentTracker :: "addr \<Rightarrow> 'g TrackerContext \<Rightarrow> 'g TrackerContext" where
  "setCurrentTracker p cx = cx\<lparr>m_currentTracker := Some p\<rparr>"

subsection \<open>Questions\<close>

definition isSectionTracker :: "'g tracker \<Rightarrow> bool" where
  "isSectionTracker t = (case tk_kind t of SectionTracker _ _ \<Rightarrow> True | GeneratorTracker _ \<Rightarrow> False)"

definition isGeneratorTracker :: "'g tracker \<Rightarrow> bool" where
  "isGeneratorTracker t = (case tk_kind t of SectionTracker _ _ \<Rightarrow> False | GeneratorTracker _ \<Rightarrow> True)"

definition base_isComplete :: "'g tracker \<Rightarrow> bool" where
  "base_isComplete t \<longleftrightarrow> tk_runState t = CompletedSuccessfully \<or> tk_runState t = CycleFailed"

definition isComplete :: "'g tracker \<Rightarrow> bool" where
  "isComplete t = (case tk_kind t of
       SectionTracker fs trimmed \<Rightarrow>
         (if fs = [] \<or> fs ! 0 = [] \<or> trimmed \<in> set fs then base_isComplete t else True)
     | GeneratorTracker _ \<Rightarrow> base_isComplete t)"

definition isSuccessfullyCompleted :: "'g tracker \<Rightarrow> bool" where
  "isSuccessfullyCompleted t \<longleftrightarrow> tk_runState t = CompletedSuccessfully"

definition isOpen :: "'g tracker \<Rightarrow> bool" where
  "isOpen t \<longleftrightarrow> tk_runState t \<noteq> NotStarted \<and> \<not> isComplete t"

definition hasStarted :: "'g tracker \<Rightarrow> bool" where
  "hasStarted t \<longleftrightarrow> tk_runState t \<noteq> NotStarted"

definition hasChildren :: "'g tracker \<Rightarrow> bool" where
  "hasChildren t \<longleftrightarrow> tk_children t \<noteq> 0"

text \<open>The children of a tracker, and the first of them with a name and a location.\<close>

definition children_of :: "addr \<Rightarrow> 'g TrackerContext \<Rightarrow> 'g tracker list res" where
  "children_of p cx = bindE (tracker_at p cx) (\<lambda>t. mapE (\<lambda>i. tracker_at (p @ [i]) cx) [0..<tk_children t])"

definition findChild :: "NameAndLocation \<Rightarrow> addr \<Rightarrow> 'g TrackerContext \<Rightarrow> addr option res" where
  "findChild nameAndLocation p cx = bindE (children_of p cx) (\<lambda>ts.
     Inr (map_option (\<lambda>i. p @ [i]) (List.find (\<lambda>i. tk_nl (ts ! i) = nameAndLocation) [0..<length ts])))"

definition addChild :: "'g tracker \<Rightarrow> addr \<Rightarrow> 'g TrackerContext \<Rightarrow> (addr \<times> 'g TrackerContext) res" where
  "addChild child p cx = bindE (tracker_at p cx) (\<lambda>t.
     let a = p @ [tk_children t]
     in Inr (a, set_tracker a child (set_tracker p (t\<lparr>tk_children := tk_children t + 1\<rparr>) cx)))"

definition parent :: "addr \<Rightarrow> addr res" where
  "parent p = (if p = [] then Inl Assert_Failed else Inr (butlast p))"

subsection \<open>Opening and closing\<close>

function openChild :: "addr \<Rightarrow> 'g TrackerContext \<Rightarrow> 'g TrackerContext res" where
  "openChild p cx = bindE (tracker_at p cx) (\<lambda>t.
     if tk_runState t \<noteq> ExecutingChildren then
       (let cx1 = set_tracker p (t\<lparr>tk_runState := ExecutingChildren\<rparr>) cx
        in if p \<noteq> [] then openChild (butlast p) cx1 else Inr cx1)
     else Inr cx)"
  by pat_completeness auto
termination by (relation "measure (\<lambda>(p, _). length p)") auto

declare openChild.simps [simp del]

definition moveToParent :: "addr \<Rightarrow> 'g TrackerContext \<Rightarrow> 'g TrackerContext res" where
  "moveToParent p cx = bindE (parent p) (\<lambda>q. Inr (setCurrentTracker q cx))"

definition tracker_open :: "addr \<Rightarrow> 'g TrackerContext \<Rightarrow> 'g TrackerContext res" where
  "tracker_open p cx = bindE (tracker_at p cx) (\<lambda>t.
     let cx1 = setCurrentTracker p (set_tracker p (t\<lparr>tk_runState := Executing\<rparr>) cx)
     in if p \<noteq> [] then openChild (butlast p) cx1 else Inr cx1)"

text \<open>\<open>TrackerBase::close\<close> once this tracker is the current one.\<close>

definition base_close :: "addr \<Rightarrow> 'g TrackerContext \<Rightarrow> 'g TrackerContext res" where
  "base_close p cx = bindE (tracker_at p cx) (\<lambda>t.
     bindE (case tk_runState t of
         NeedsAnotherRun \<Rightarrow> Inr cx
       | Executing \<Rightarrow> Inr (set_tracker p (t\<lparr>tk_runState := CompletedSuccessfully\<rparr>) cx)
       | ExecutingChildren \<Rightarrow> bindE (children_of p cx) (\<lambda>ts.
           if list_all isComplete ts then Inr (set_tracker p (t\<lparr>tk_runState := CompletedSuccessfully\<rparr>) cx) else Inr cx)
       | _ \<Rightarrow> Inl Logic_Error) (\<lambda>cx1.
     bindE (moveToParent p cx1) (\<lambda>cx2. Inr (completeCycle cx2))))"

text \<open>What \<open>GeneratorTracker::close\<close> does after that.\<close>

definition generator_close :: "('g \<Rightarrow> bool \<times> 'g) \<Rightarrow> addr \<Rightarrow> 'g TrackerContext \<Rightarrow> 'g TrackerContext res" where
  "generator_close nxt p cx = bindE (tracker_at p cx) (\<lambda>t.
     bindE (children_of p cx) (\<lambda>ts.
       let again = (\<lambda>t1. set_tracker p (t1\<lparr>tk_children := 0, tk_runState := Executing\<rparr>) cx)
       in if ts \<noteq> [] \<and> list_all (\<lambda>c. \<not> hasStarted c) ts then Inr (again t)
          else if tk_runState t = CompletedSuccessfully then
            (case m_generator (tk_kind t) of
               None \<Rightarrow> Inl Undefined
             | Some g \<Rightarrow>
                 (let (more, g1) = nxt g; t1 = t\<lparr>tk_kind := GeneratorTracker (Some g1)\<rparr>
                  in Inr (if more then again t1 else set_tracker p t1 cx)))
          else Inr cx))"

text \<open>The current tracker closes itself.\<close>

definition close_current :: "('g \<Rightarrow> bool \<times> 'g) \<Rightarrow> addr \<Rightarrow> 'g TrackerContext \<Rightarrow> 'g TrackerContext res" where
  "close_current nxt p cx = bindE (tracker_at p cx) (\<lambda>t.
     bindE (base_close p cx) (\<lambda>cx1. if isGeneratorTracker t then generator_close nxt p cx1 else Inr cx1))"

lemma bindE_InrE: "bindE m k = Inr y \<Longrightarrow> (\<And>x. m = Inr x \<Longrightarrow> k x = Inr y \<Longrightarrow> P) \<Longrightarrow> P"
  by (cases m) auto

lemma base_close_moves:
  assumes "base_close p cx = Inr cx1"
  shows "p \<noteq> [] \<and> m_currentTracker cx1 = Some (butlast p)"
proof -
  from assms obtain cx' cx2 where "moveToParent p cx' = Inr cx2" "cx1 = completeCycle cx2"
    unfolding base_close_def by (elim bindE_InrE) simp
  then show ?thesis
    by (auto simp: moveToParent_def parent_def setCurrentTracker_def completeCycle_def split: if_splits)
qed

lemma generator_close_current:
  assumes "generator_close nxt p cx = Inr cx1"
  shows "m_currentTracker cx1 = m_currentTracker cx"
proof -
  have keep: "m_currentTracker (set_tracker p t cx) = m_currentTracker cx" for t by (simp add: set_tracker_def)
  from assms show ?thesis
    unfolding generator_close_def
    by (elim bindE_InrE) (auto simp: keep Let_def split: if_splits option.splits prod.splits)
qed

lemma close_current_moves:
  assumes "close_current nxt p cx = Inr cx1"
  shows "p \<noteq> [] \<and> m_currentTracker cx1 = Some (butlast p)"
proof -
  from assms obtain t cx' where "base_close p cx = Inr cx'"
    and "cx1 = cx' \<or> generator_close nxt p cx' = Inr cx1"
    unfolding close_current_def by (elim bindE_InrE) (simp split: if_splits)
  with base_close_moves [of p cx cx'] generator_close_current [of nxt p cx' cx1] show ?thesis by auto
qed

text \<open>The virtual \<open>close\<close>: it first closes what is open below.\<close>

function tracker_close :: "('g \<Rightarrow> bool \<times> 'g) \<Rightarrow> addr \<Rightarrow> 'g TrackerContext \<Rightarrow> 'g TrackerContext res" where
  "tracker_close nxt p cx = (case m_currentTracker cx of
       None \<Rightarrow> Inl Undefined
     | Some q \<Rightarrow> if q = p then close_current nxt p cx
         else bindE (close_current nxt q cx) (\<lambda>cx1. tracker_close nxt p cx1))"
  by pat_completeness auto
termination
proof (relation "measure (\<lambda>(_, _, cx). case m_currentTracker cx of None \<Rightarrow> 0 | Some q \<Rightarrow> length q)", goal_cases)
  case (2 nxt p cx q cx1)
  then have "q \<noteq> [] \<and> m_currentTracker cx1 = Some (butlast q)" by (intro close_current_moves)
  with 2(1) show ?case by (cases q) auto
qed simp

declare tracker_close.simps [simp del]

definition markAsNeedingAnotherRun :: "addr \<Rightarrow> 'g TrackerContext \<Rightarrow> 'g TrackerContext res" where
  "markAsNeedingAnotherRun p cx = bindE (tracker_at p cx) (\<lambda>t. Inr (set_tracker p (t\<lparr>tk_runState := NeedsAnotherRun\<rparr>) cx))"

definition tracker_fail :: "addr \<Rightarrow> 'g TrackerContext \<Rightarrow> 'g TrackerContext res" where
  "tracker_fail p cx = bindE (tracker_at p cx) (\<lambda>t.
     bindE (let cx1 = set_tracker p (t\<lparr>tk_runState := CycleFailed\<rparr>) cx
            in if p \<noteq> [] then markAsNeedingAnotherRun (butlast p) cx1 else Inr cx1) (\<lambda>cx2.
     bindE (moveToParent p cx2) (\<lambda>cx3. Inr (completeCycle cx3))))"

subsection \<open>Sections and generators\<close>

definition addInitialFilters :: "string list \<Rightarrow> 'g tracker \<Rightarrow> 'g tracker" where
  "addInitialFilters filters t = (if filters \<noteq> []
     then t\<lparr>tk_kind := SectionTracker (m_filters (tk_kind t) @ [[], []] @ filters) (m_trimmed_name (tk_kind t))\<rparr> else t)"

definition addNextFilters :: "string list \<Rightarrow> 'g tracker \<Rightarrow> 'g tracker" where
  "addNextFilters filters t = (if length filters > 1
     then t\<lparr>tk_kind := SectionTracker (m_filters (tk_kind t) @ drop 1 filters) (m_trimmed_name (tk_kind t))\<rparr> else t)"

text \<open>The nearest section at or above an address.\<close>

function section_above :: "addr \<Rightarrow> 'g TrackerContext \<Rightarrow> 'g tracker res" where
  "section_above p cx = bindE (tracker_at p cx) (\<lambda>t.
     if \<not> isSectionTracker t then (if p = [] then Inl Assert_Failed else section_above (butlast p) cx) else Inr t)"
  by pat_completeness auto
termination by (relation "measure (\<lambda>(p, _). length p)") auto

declare section_above.simps [simp del]

definition new_SectionTracker :: "NameAndLocation \<Rightarrow> addr \<Rightarrow> 'g TrackerContext \<Rightarrow> 'g tracker res" where
  "new_SectionTracker nameAndLocation par cx = bindE (section_above par cx) (\<lambda>parentSection.
     Inr (addNextFilters (m_filters (tk_kind parentSection))
       (new_TrackerBase nameAndLocation (SectionTracker [] (trim (nl_name nameAndLocation))))))"

definition tryOpen :: "addr \<Rightarrow> 'g TrackerContext \<Rightarrow> 'g TrackerContext res" where
  "tryOpen p cx = bindE (tracker_at p cx) (\<lambda>t. if \<not> isComplete t then tracker_open p cx else Inr cx)"

definition acquire_section :: "NameAndLocation \<Rightarrow> 'g TrackerContext \<Rightarrow> (addr \<times> 'g TrackerContext) res" where
  "acquire_section nameAndLocation cx = bindE (currentTracker cx) (\<lambda>cur.
     bindE (findChild nameAndLocation cur cx) (\<lambda>found.
     bindE (case found of
         Some p \<Rightarrow> bindE (tracker_at p cx) (\<lambda>t. if isSectionTracker t then Inr (p, cx) else Inl Assert_Failed)
       | None \<Rightarrow> bindE (new_SectionTracker nameAndLocation cur cx) (\<lambda>t. addChild t cur cx)) (\<lambda>(p, cx1).
     bindE (if \<not> completedCycle cx1 then tryOpen p cx1 else Inr cx1) (\<lambda>cx2. Inr (p, cx2)))))"

definition acquire_generator :: "NameAndLocation \<Rightarrow> 'g TrackerContext \<Rightarrow> (addr \<times> 'g TrackerContext) res" where
  "acquire_generator nameAndLocation cx = bindE (currentTracker cx) (\<lambda>cur.
     bindE (tracker_at cur cx) (\<lambda>ct.
     bindE (if tk_nl ct = nameAndLocation then
              bindE (parent cur) (\<lambda>q. bindE (findChild nameAndLocation q cx) (\<lambda>found.
                case found of None \<Rightarrow> Inl Assert_Failed | Some p \<Rightarrow> Inr (Some p)))
            else findChild nameAndLocation cur cx) (\<lambda>found.
     bindE (case found of
         Some p \<Rightarrow> bindE (tracker_at p cx) (\<lambda>t. if isGeneratorTracker t then Inr (p, cx) else Inl Assert_Failed)
       | None \<Rightarrow> addChild (new_TrackerBase nameAndLocation (GeneratorTracker None)) cur cx) (\<lambda>(p, cx1).
     bindE (tracker_at p cx1) (\<lambda>t.
     bindE (if \<not> isComplete t then tracker_open p cx1 else Inr cx1) (\<lambda>cx2. Inr (p, cx2)))))))"

definition setGenerator :: "'g \<Rightarrow> addr \<Rightarrow> 'g TrackerContext \<Rightarrow> 'g TrackerContext res" where
  "setGenerator g p cx = bindE (tracker_at p cx) (\<lambda>t. Inr (set_tracker p (t\<lparr>tk_kind := GeneratorTracker (Some g)\<rparr>) cx))"

subsection \<open>Running nested sections\<close>

text \<open>
  A test body made of nested sections. A section is what the macro \<open>SECTION\<close> makes of it: its
  constructor acquires a tracker and its body runs when that is open, and its destructor closes it.
  The trace is the list of the sections entered.
\<close>

datatype block = Block (block_nl: NameAndLocation) (block_body: "block list")

fun run_section :: "('g \<Rightarrow> bool \<times> 'g) \<Rightarrow> block \<Rightarrow> 'g TrackerContext \<Rightarrow> (NameAndLocation list \<times> 'g TrackerContext) res"
  and run_sections :: "('g \<Rightarrow> bool \<times> 'g) \<Rightarrow> block list \<Rightarrow> 'g TrackerContext \<Rightarrow> (NameAndLocation list \<times> 'g TrackerContext) res" where
  "run_section nxt (Block n bs) cx = bindE (acquire_section n cx) (\<lambda>(p, cx1).
     bindE (tracker_at p cx1) (\<lambda>t.
       if \<not> isOpen t then Inr ([], cx1)
       else bindE (run_sections nxt bs cx1) (\<lambda>(tr, cx2). bindE (tracker_close nxt p cx2) (\<lambda>cx3. Inr (n # tr, cx3)))))"
| "run_sections nxt [] cx = Inr ([], cx)"
| "run_sections nxt (b # bs) cx = bindE (run_section nxt b cx) (\<lambda>(tr1, cx1).
     bindE (run_sections nxt bs cx1) (\<lambda>(tr2, cx2). Inr (tr1 @ tr2, cx2)))"

text \<open>The number of ways through a section, and the sections entered on the way with a number.\<close>

fun leaves :: "block \<Rightarrow> nat"
  and leaves_all :: "block list \<Rightarrow> nat" where
  "leaves (Block n bs) = (if bs = [] then 1 else leaves_all bs)"
| "leaves_all [] = 0"
| "leaves_all (b # bs) = leaves b + leaves_all bs"

fun way :: "block \<Rightarrow> nat \<Rightarrow> NameAndLocation list"
  and way_all :: "block list \<Rightarrow> nat \<Rightarrow> NameAndLocation list" where
  "way (Block n bs) k = n # way_all bs k"
| "way_all [] k = []"
| "way_all (b # bs) k = (if k < leaves b then way b k else way_all bs (k - leaves b))"

fun good_block :: "block \<Rightarrow> bool" where
  "good_block (Block n bs) \<longleftrightarrow> distinct (map block_nl bs) \<and> list_all good_block bs"

definition sec_node :: "NameAndLocation \<Rightarrow> CycleState \<Rightarrow> nat \<Rightarrow> 'g tracker" where
  "sec_node n s m = \<lparr>tk_nl = n, tk_children = m, tk_runState = s, tk_kind = SectionTracker [] (trim (nl_name n))\<rparr>"

text \<open>The trackers at an address say that the first \<open>k\<close> ways through a section have run.\<close>

fun ran :: "(addr \<Rightarrow> 'g tracker option) \<Rightarrow> addr \<Rightarrow> block \<Rightarrow> nat \<Rightarrow> bool"
  and ran_all :: "(addr \<Rightarrow> 'g tracker option) \<Rightarrow> addr \<Rightarrow> nat \<Rightarrow> block list \<Rightarrow> nat \<Rightarrow> bool" where
  "ran st p (Block n bs) k \<longleftrightarrow>
     st p = Some (sec_node n
       (if k = 0 then NotStarted else if k < leaves (Block n bs) then ExecutingChildren else CompletedSuccessfully)
       (if k = 0 then 0 else length bs)) \<and>
     (0 < k \<longrightarrow> ran_all st p 0 bs k)"
| "ran_all st p i [] k \<longleftrightarrow> True"
| "ran_all st p i (b # bs) k \<longleftrightarrow> ran st (p @ [i]) b (min k (leaves b)) \<and> ran_all st p (Suc i) bs (k - leaves b)"

lemma leaves_pos: "0 < leaves b"
proof (induction b)
  case (Block n bs)
  then show ?case by (cases bs) auto
qed

lemma ran_cong: "(\<And>x. st' (p @ x) = st (p @ x)) \<Longrightarrow> ran st' p b k = ran st p b k"
  and ran_all_cong: "(\<And>j x. i \<le> j \<Longrightarrow> st' (p @ j # x) = st (p @ j # x)) \<Longrightarrow> ran_all st' p i bs k = ran_all st p i bs k"
proof (induction st p b k and st p i bs k arbitrary: st' and st' rule: ran_ran_all.induct)
  case (1 st p n bs k)
  have "st' p = st p" using "1.prems" [of "[]"] by simp
  moreover have "0 < k \<Longrightarrow> ran_all st' p 0 bs k = ran_all st p 0 bs k"
    by (rule "1.IH") (use "1.prems" in auto)
  ultimately show ?case by auto
next
  case (3 st p i b bs k)
  have "ran st' (p @ [i]) b (min k (leaves b)) = ran st (p @ [i]) b (min k (leaves b))"
    by (rule "3.IH") (use "3.prems" [of i] in auto)
  moreover have "ran_all st' p (Suc i) bs (k - leaves b) = ran_all st p (Suc i) bs (k - leaves b)"
    by (rule "3.IH") (use "3.prems" in auto)
  ultimately show ?case by simp
qed simp

lemma sec_node_simps [simp]: "tk_nl (sec_node n s m) = n" "tk_children (sec_node n s m) = m"
  "tk_runState (sec_node n s m) = s" "isSectionTracker (sec_node n s m)" "\<not> isGeneratorTracker (sec_node n s m)"
  "m_filters (tk_kind (sec_node n s m)) = []"
  by (simp_all add: sec_node_def isSectionTracker_def isGeneratorTracker_def)

lemma sec_node_update [simp]: "(sec_node n s m)\<lparr>tk_runState := s'\<rparr> = sec_node n s' m"
  "(sec_node n s m)\<lparr>tk_children := m'\<rparr> = sec_node n s m'"
  by (simp_all add: sec_node_def)

lemma sec_node_complete [simp]: "isComplete (sec_node n s m) \<longleftrightarrow> s = CompletedSuccessfully \<or> s = CycleFailed"
  by (simp add: isComplete_def base_isComplete_def sec_node_def)

lemma tracker_at_simps: "cx_store cx p = Some t \<Longrightarrow> tracker_at p cx = Inr t"
  by (simp add: tracker_at_def)

lemma set_tracker_simps [simp]: "cx_store (set_tracker p t cx) = (cx_store cx)(p \<mapsto> t)"
  "m_currentTracker (set_tracker p t cx) = m_currentTracker cx" "cx_runState (set_tracker p t cx) = cx_runState cx"
  "cx_store (setCurrentTracker p cx) = cx_store cx" "m_currentTracker (setCurrentTracker p cx) = Some p"
  "cx_runState (setCurrentTracker p cx) = cx_runState cx"
  "cx_store (completeCycle cx) = cx_store cx" "m_currentTracker (completeCycle cx) = m_currentTracker cx"
  "completedCycle (completeCycle cx)"
  by (simp_all add: set_tracker_def setCurrentTracker_def completeCycle_def completedCycle_def)

text \<open>The children registered so far, below a number, are those of a list of names.\<close>

definition registered :: "(addr \<Rightarrow> 'g tracker option) \<Rightarrow> addr \<Rightarrow> nat \<Rightarrow> NameAndLocation list \<Rightarrow> bool" where
  "registered st p m ns \<longleftrightarrow> m \<le> length ns \<and> (\<forall>j < m. \<exists>t. st (p @ [j]) = Some t \<and> tk_nl t = ns ! j)"

lemma children_registered:
  assumes "cx_store cx p = Some t" and "\<And>j. j < tk_children t \<Longrightarrow> \<exists>u. cx_store cx (p @ [j]) = Some u"
  shows "children_of p cx = Inr (map (\<lambda>j. the (cx_store cx (p @ [j]))) [0..<tk_children t])"
proof -
  have "mapE (\<lambda>i. tracker_at (p @ [i]) cx) js = Inr (map (\<lambda>j. the (cx_store cx (p @ [j]))) js)"
    if "\<And>j. j \<in> set js \<Longrightarrow> j < tk_children t" for js
    using that
  proof (induction js)
    case (Cons j js)
    from Cons.prems have "j < tk_children t" by simp
    with assms(2) obtain u where "cx_store cx (p @ [j]) = Some u" by blast
    with Cons show ?case by (simp add: tracker_at_def)
  qed simp
  from this [of "[0..<tk_children t]"] assms(1) show ?thesis by (simp add: children_of_def tracker_at_simps)
qed

lemma find_upt: "P i \<Longrightarrow> i < m \<Longrightarrow> (\<And>j. j < i \<Longrightarrow> \<not> P j) \<Longrightarrow> List.find P [0..<m] = Some i"
  by (auto simp: find_Some_iff)

lemma findChild_registered:
  assumes "cx_store cx p = Some (sec_node np s m)" and "registered (cx_store cx) p m ns"
    and "distinct ns" and "i < length ns"
  shows "findChild (ns ! i) p cx = Inr (if i < m then Some (p @ [i]) else None)"
proof -
  let ?ts = "map (\<lambda>j. the (cx_store cx (p @ [j]))) [0..<m]"
  from assms(2) have m: "m \<le> length ns" by (simp add: registered_def)
  have "\<exists>u. cx_store cx (p @ [j]) = Some u" if "j < tk_children (sec_node np s m :: 'a tracker)" for j
    using assms(2) that by (auto simp: registered_def)
  from children_registered [OF assms(1) this] have ts: "children_of p cx = Inr ?ts" by simp
  have nth: "tk_nl (?ts ! j) = ns ! j" if "j < m" for j
    using assms(2) that by (auto simp: registered_def)
  have eq: "ns ! j = ns ! i \<longleftrightarrow> j = i" if "j < m" for j
    using assms(3,4) m that by (simp add: nth_eq_iff_index_eq)
  have "List.find (\<lambda>j. tk_nl (?ts ! j) = ns ! i) [0..<m] = (if i < m then Some i else None)"
  proof (cases "i < m")
    case True
    have "List.find (\<lambda>j. tk_nl (?ts ! j) = ns ! i) [0..<m] = Some i"
      by (rule find_upt) (use nth eq True in auto)
    with True show ?thesis by simp
  next
    case False
    with nth eq show ?thesis by (auto simp: find_None_iff)
  qed
  then show ?thesis by (simp add: findChild_def ts)
qed

text \<open>Acquiring the section at a position: it is there, or it is added as the last child.\<close>

definition register_child :: "addr \<Rightarrow> nat \<Rightarrow> NameAndLocation \<Rightarrow> 'g TrackerContext \<Rightarrow> 'g TrackerContext" where
  "register_child p i n cx = (case cx_store cx p of
       None \<Rightarrow> cx
     | Some t \<Rightarrow> if i < tk_children t then cx
         else set_tracker (p @ [i]) (sec_node n NotStarted 0) (set_tracker p (t\<lparr>tk_children := i + 1\<rparr>) cx))"

lemma acquire_registered:
  assumes "m_currentTracker cx = Some p" and "cx_store cx p = Some (sec_node np s m)"
    and "registered (cx_store cx) p m ns" and "distinct ns" and "i < length ns" and "i \<le> m"
    and "i < m \<Longrightarrow> \<exists>s' m'. cx_store cx (p @ [i]) = Some (sec_node (ns ! i) s' m')"
  shows "acquire_section (ns ! i) cx = (let cx1 = register_child p i (ns ! i) cx in
    bindE (if \<not> completedCycle cx1 then tryOpen (p @ [i]) cx1 else Inr cx1) (\<lambda>cx2. Inr (p @ [i], cx2)))"
proof (cases "i < m")
  case True
  with assms(7) obtain s' m' where "cx_store cx (p @ [i]) = Some (sec_node (ns ! i) s' m')" by blast
  with True assms(1,2) findChild_registered [OF assms(2-5)] show ?thesis
    by (simp add: acquire_section_def currentTracker_def register_child_def tracker_at_def)
next
  case False
  with assms(6) have i: "i = m" by simp
  have "new_SectionTracker (ns ! i) p cx = Inr (sec_node (ns ! i) NotStarted 0)"
    using assms(2) by (simp add: new_SectionTracker_def section_above.simps tracker_at_def addNextFilters_def
        new_TrackerBase_def sec_node_def isSectionTracker_def)
  with False i assms(1,2) findChild_registered [OF assms(2-5)] show ?thesis
    by (simp add: acquire_section_def currentTracker_def register_child_def addChild_def tracker_at_def Let_def)
qed

lemma register_child_facts:
  fixes n :: NameAndLocation
  assumes "cx_store cx p = Some (sec_node np s m)" and "i \<le> m"
  defines "cx1 \<equiv> register_child p i n cx"
  shows "cx_store cx1 p = Some (sec_node np s (max m (i + 1)))"
    and "x \<noteq> p \<Longrightarrow> x \<noteq> p @ [i] \<Longrightarrow> cx_store cx1 x = cx_store cx x"
    and "cx_store cx1 (p @ [i]) = (if i < m then cx_store cx (p @ [i]) else Some (sec_node n NotStarted 0))"
    and "m_currentTracker cx1 = m_currentTracker cx" and "cx_runState cx1 = cx_runState cx"
proof -
  have "i < m \<Longrightarrow> max m (i + 1) = m" "\<not> i < m \<Longrightarrow> max m (i + 1) = i + 1" by simp_all
  with assms(1,2) show "cx_store cx1 p = Some (sec_node np s (max m (i + 1)))"
    and "x \<noteq> p \<Longrightarrow> x \<noteq> p @ [i] \<Longrightarrow> cx_store cx1 x = cx_store cx x"
    and "cx_store cx1 (p @ [i]) = (if i < m then cx_store cx (p @ [i]) else Some (sec_node n NotStarted 0))"
    and "m_currentTracker cx1 = m_currentTracker cx" and "cx_runState cx1 = cx_runState cx"
    by (auto simp: cx1_def register_child_def)
qed

text \<open>Opening a section marks its parent; above it every tracker is marked already.\<close>

definition marked_above :: "(addr \<Rightarrow> 'g tracker option) \<Rightarrow> addr \<Rightarrow> bool" where
  "marked_above st p \<longleftrightarrow> (\<forall>q. strict_prefix q p \<longrightarrow> (\<exists>t. st q = Some t \<and> tk_runState t = ExecutingChildren))"

lemma openChild_marks:
  assumes "cx_store cx p = Some t" and "marked_above (cx_store cx) p"
  shows "\<exists>cx'. openChild p cx = Inr cx' \<and> cx_store cx' = (cx_store cx)(p \<mapsto> t\<lparr>tk_runState := ExecutingChildren\<rparr>) \<and>
    m_currentTracker cx' = m_currentTracker cx \<and> cx_runState cx' = cx_runState cx"
proof (cases "tk_runState t = ExecutingChildren")
  case True
  then have "t\<lparr>tk_runState := ExecutingChildren\<rparr> = t" by simp
  with True assms(1) show ?thesis by (auto simp: openChild.simps [of p] tracker_at_def)
next
  case False
  show ?thesis
  proof (cases p rule: rev_cases)
    case Nil
    with False assms(1) show ?thesis by (auto simp: openChild.simps tracker_at_def)
  next
    case (snoc q i)
    then have "strict_prefix q p" "q \<noteq> p" by (simp_all add: strict_prefix_def)
    with assms(2) obtain u where u: "cx_store cx q = Some u" "tk_runState u = ExecutingChildren"
      by (auto simp: marked_above_def)
    from u \<open>q \<noteq> p\<close> have "openChild q (set_tracker p (t\<lparr>tk_runState := ExecutingChildren\<rparr>) cx) =
        Inr (set_tracker p (t\<lparr>tk_runState := ExecutingChildren\<rparr>) cx)"
      by (simp add: openChild.simps [of q] tracker_at_def)
    with False snoc assms(1) show ?thesis by (subst openChild.simps) (simp add: tracker_at_def)
  qed
qed

lemma tracker_open_section:
  assumes "cx_store cx (p @ [i]) = Some (sec_node n s m)" and "cx_store cx p = Some t" and "marked_above (cx_store cx) p"
  shows "\<exists>cx'. tracker_open (p @ [i]) cx = Inr cx' \<and>
    cx_store cx' = (cx_store cx)(p @ [i] \<mapsto> sec_node n Executing m, p \<mapsto> t\<lparr>tk_runState := ExecutingChildren\<rparr>) \<and>
    m_currentTracker cx' = Some (p @ [i]) \<and> cx_runState cx' = cx_runState cx"
proof -
  let ?a = "p @ [i]"
  let ?cx = "setCurrentTracker ?a (set_tracker ?a (sec_node n Executing m) cx)"
  have "cx_store ?cx p = Some t" using assms(2) by simp
  moreover have "marked_above (cx_store ?cx) p"
    using assms(3) by (auto simp: marked_above_def strict_prefix_def prefix_def)
  ultimately obtain cx' where "openChild p ?cx = Inr cx'"
    "cx_store cx' = (cx_store ?cx)(p \<mapsto> t\<lparr>tk_runState := ExecutingChildren\<rparr>)"
    "m_currentTracker cx' = m_currentTracker ?cx" "cx_runState cx' = cx_runState ?cx"
    using openChild_marks [of ?cx p t] by blast
  with assms(1) show ?thesis by (simp add: tracker_open_def tracker_at_simps)
qed

text \<open>The sections of a list that follow one that ran in this cycle are only registered.\<close>

lemma ran_all_names:
  assumes "ran_all st p i bs k" and "j < length bs"
  shows "\<exists>s m. st (p @ [i + j]) = Some (sec_node (block_nl (bs ! j)) s m)"
  using assms
proof (induction bs arbitrary: i j k)
  case (Cons b bs)
  show ?case
  proof (cases j)
    case 0
    with Cons.prems show ?thesis by (cases b) auto
  next
    case (Suc j')
    with Cons.prems Cons.IH [of "Suc i" "k - leaves b" j'] show ?thesis by auto
  qed
qed simp

lemma ran_0: "ran st p b 0 \<longleftrightarrow> st p = Some (sec_node (block_nl b) NotStarted 0)"
  by (cases b) simp

lemma ran_node: "ran st p b k \<Longrightarrow> \<exists>s m. st p = Some (sec_node (block_nl b) s m)"
  by (cases b) auto

definition siblings :: "(addr \<Rightarrow> 'g tracker option) \<Rightarrow> addr \<Rightarrow> nat \<Rightarrow> block list \<Rightarrow> nat \<Rightarrow> nat \<Rightarrow> bool" where
  "siblings st p m bs i k \<longleftrightarrow> registered st p m (map block_nl bs) \<and>
     (m = i \<and> k = 0 \<or> m = length bs) \<and> i \<le> length bs \<and> (m = length bs \<longrightarrow> ran_all st p i (drop i bs) k)"

lemma register_section:
  fixes cx :: "'g TrackerContext"
  assumes "m_currentTracker cx = Some p" and "cx_store cx p = Some (sec_node np s m)"
    and "siblings (cx_store cx) p m bs i k" and "distinct (map block_nl bs)" and "i < length bs"
  defines "cx1 \<equiv> register_child p i (block_nl (bs ! i)) cx"
  shows "acquire_section (block_nl (bs ! i)) cx =
      bindE (if \<not> completedCycle cx1 then tryOpen (p @ [i]) cx1 else Inr cx1) (\<lambda>cx2. Inr (p @ [i], cx2))"
    and "siblings (cx_store cx1) p (max m (i + 1)) bs (i + 1) (k - leaves (bs ! i))"
    and "ran (cx_store cx1) (p @ [i]) (bs ! i) (min k (leaves (bs ! i)))"
proof -
  let ?b = "bs ! i" and ?a = "p @ [i]"
  let ?n = "block_nl ?b"
  from assms(3) have reg: "registered (cx_store cx) p m (map block_nl bs)" and im: "i \<le> m" "m \<le> length bs"
    and mk: "m = i \<and> k = 0 \<or> m = length bs"
    and ran: "m = length bs \<Longrightarrow> ran_all (cx_store cx) p i (drop i bs) k"
    using assms(5) by (auto simp: siblings_def registered_def)
  have drop: "drop i bs = ?b # drop (Suc i) bs" using assms(5) by (simp add: Cons_nth_drop_Suc)
  note f = register_child_facts [OF assms(2) im(1), where n = ?n, folded cx1_def]
  have here: "i < m \<Longrightarrow> ran (cx_store cx) ?a ?b (min k (leaves ?b))"
    using mk ran by (auto simp: drop)
  show ran1: "ran (cx_store cx1) ?a ?b (min k (leaves ?b))"
  proof (cases "i < m")
    case True
    then have "cx1 = cx" using assms(2) by (simp add: cx1_def register_child_def)
    with here True show ?thesis by simp
  next
    case False
    with mk assms(5) have "k = 0" by auto
    with False f(3) show ?thesis by (simp add: ran_0)
  qed
  have node: "i < m \<Longrightarrow> \<exists>s' m'. cx_store cx ?a = Some (sec_node (map block_nl bs ! i) s' m')"
    using here ran_node assms(5) by fastforce
  show "acquire_section ?n cx =
      bindE (if \<not> completedCycle cx1 then tryOpen ?a cx1 else Inr cx1) (\<lambda>cx2. Inr (?a, cx2))"
    using acquire_registered [OF assms(1,2) reg assms(4) _ im(1) node] assms(5) by (simp add: cx1_def Let_def)
  have "registered (cx_store cx1) p (max m (i + 1)) (map block_nl bs)"
    unfolding registered_def
  proof (intro conjI allI impI)
    show "max m (i + 1) \<le> length (map block_nl bs)" using im assms(5) by simp
    fix j assume "j < max m (i + 1)"
    then show "\<exists>t. cx_store cx1 (p @ [j]) = Some t \<and> tk_nl t = map block_nl bs ! j"
      using f(2) [of "p @ [j]"] reg ran_node [OF ran1] im assms(5)
      by (cases "j = i") (auto simp: registered_def)
  qed
  moreover have "max m (i + 1) = i + 1 \<and> k - leaves ?b = 0 \<or> max m (i + 1) = length bs" using mk im assms(5) by auto
  moreover have "ran_all (cx_store cx1) p (i + 1) (drop (i + 1) bs) (k - leaves ?b)" if "max m (i + 1) = length bs"
  proof (cases "m = length bs")
    case True
    then have "cx1 = cx" using assms(2,5) by (simp add: cx1_def register_child_def)
    with ran [OF True] show ?thesis by (simp add: drop)
  next
    case False
    with that im have "i + 1 = length bs" by auto
    then show ?thesis by simp
  qed
  ultimately show "siblings (cx_store cx1) p (max m (i + 1)) bs (i + 1) (k - leaves ?b)"
    using assms(5) by (simp add: siblings_def)
qed

lemma skip_section:
  fixes cx :: "'g TrackerContext"
  assumes "m_currentTracker cx = Some p" and "cx_store cx p = Some (sec_node np s m)"
    and "siblings (cx_store cx) p m bs i k" and "distinct (map block_nl bs)" and "i < length bs"
    and "completedCycle cx \<and> k = 0 \<or> leaves (bs ! i) \<le> k"
  shows "run_section nxt (bs ! i) cx = Inr ([], register_child p i (block_nl (bs ! i)) cx)"
proof -
  let ?b = "bs ! i" and ?a = "p @ [i]"
  let ?cx = "register_child p i (block_nl ?b) cx"
  note r = register_section [OF assms(1-5)]
  obtain n' bs' where b: "?b = Block n' bs'" by (cases ?b)
  have "i \<le> m" using assms(3,5) by (auto simp: siblings_def registered_def)
  from register_child_facts(5) [OF assms(2) this]
  have "completedCycle ?cx = completedCycle cx" by (simp add: completedCycle_def)
  moreover have "leaves ?b \<le> k \<Longrightarrow> \<exists>m'. cx_store ?cx ?a = Some (sec_node n' CompletedSuccessfully m')"
    using r(3) leaves_pos [of ?b] by (auto simp: b min_def split: if_splits)
  moreover have "k = 0 \<Longrightarrow> cx_store ?cx ?a = Some (sec_node n' NotStarted 0)"
    using r(3) by (simp add: b)
  ultimately show ?thesis using assms(6) r(1) by (auto simp: b tryOpen_def tracker_at_simps isOpen_def)
qed

text \<open>Nothing outside a section and nothing in its children before a position changes.\<close>

definition framed :: "addr \<Rightarrow> nat \<Rightarrow> (addr \<Rightarrow> 'g tracker option) \<Rightarrow> (addr \<Rightarrow> 'g tracker option) \<Rightarrow> bool" where
  "framed p i st st' \<longleftrightarrow> (\<forall>x. \<not> prefix p x \<longrightarrow> st' x = st x) \<and> (\<forall>j x. j < i \<longrightarrow> st' (p @ j # x) = st (p @ j # x))"

lemma framed_refl: "framed p i st st"
  by (simp add: framed_def)

lemma framed_trans: "framed p i st st1 \<Longrightarrow> framed p j st1 st2 \<Longrightarrow> i \<le> j \<Longrightarrow> framed p i st st2"
  by (auto simp: framed_def)

lemma framed_marked: "framed p i st st' \<Longrightarrow> marked_above st p \<Longrightarrow> marked_above st' p"
  unfolding framed_def marked_above_def strict_prefix_def by (metis prefix_order.antisym)

lemma framed_ran: "framed p (Suc i) st st' \<Longrightarrow> ran st' (p @ [i]) b k = ran st (p @ [i]) b k"
  by (rule ran_cong) (simp add: framed_def)

lemma framed_below:
  assumes "\<And>x. x \<noteq> p \<Longrightarrow> \<not> prefix (p @ [i]) x \<Longrightarrow> st' x = st x"
  shows "framed p i st st'"
  unfolding framed_def
proof (intro conjI allI impI)
  fix x assume "\<not> prefix p x"
  then have "x \<noteq> p" "\<not> prefix (p @ [i]) x" by (auto dest: append_prefixD)
  then show "st' x = st x" by (rule assms)
next
  fix j x assume "j < i"
  then show "st' (p @ j # x) = st (p @ j # x)" by (intro assms) auto
qed

lemma register_framed:
  assumes "cx_store cx p = Some (sec_node np s m)" and "i \<le> m"
  shows "framed p i (cx_store cx) (cx_store (register_child p i n cx))"
proof -
  show ?thesis
  proof (rule framed_below)
    fix x assume "x \<noteq> p" "\<not> prefix (p @ [i]) x"
    then show "cx_store (register_child p i n cx) x = cx_store cx x"
      by (intro register_child_facts(2) [OF assms]) auto
  qed
qed

lemma skip_sections:
  assumes "m_currentTracker cx = Some p" and "cx_store cx p = Some (sec_node np s m)"
    and "siblings (cx_store cx) p m bs i 0" and "distinct (map block_nl bs)" and "completedCycle cx"
  shows "\<exists>cx'. run_sections nxt (drop i bs) cx = Inr ([], cx') \<and> m_currentTracker cx' = Some p \<and> completedCycle cx' \<and>
    cx_store cx' p = Some (sec_node np s (length bs)) \<and> ran_all (cx_store cx') p i (drop i bs) 0 \<and>
    framed p i (cx_store cx) (cx_store cx')"
  using assms
proof (induction "length bs - i" arbitrary: i cx m)
  case 0
  then have "i = length bs" "m = length bs" by (auto simp: siblings_def)
  with 0 show ?case by (auto simp: framed_refl)
next
  case (Suc d)
  then have i: "i < length bs" and im: "i \<le> m" by (auto simp: siblings_def)
  let ?b = "bs ! i" and ?cx = "register_child p i (block_nl (bs ! i)) cx"
  have drop: "drop i bs = ?b # drop (Suc i) bs" using i by (simp add: Cons_nth_drop_Suc)
  note f = register_child_facts [OF Suc.prems(2) im, where n = "block_nl ?b"]
  note fr = register_framed [OF Suc.prems(2) im, where n = "block_nl ?b"]
  have "completedCycle cx \<and> (0::nat) = 0 \<or> leaves ?b \<le> 0" using Suc.prems(5) by simp
  note run = skip_section [OF Suc.prems(1-4) i this]
  note sk = register_section [OF Suc.prems(1-4) i]
  have "\<exists>cx'. run_sections nxt (drop (Suc i) bs) ?cx = Inr ([], cx') \<and> m_currentTracker cx' = Some p \<and> completedCycle cx' \<and>
    cx_store cx' p = Some (sec_node np s (length bs)) \<and> ran_all (cx_store cx') p (Suc i) (drop (Suc i) bs) 0 \<and>
    framed p (Suc i) (cx_store ?cx) (cx_store cx')"
  proof (rule Suc.hyps(1))
    show "d = length bs - Suc i" using Suc.hyps(2) by simp
    show "m_currentTracker ?cx = Some p" using f(4) Suc.prems(1) by simp
    show "cx_store ?cx p = Some (sec_node np s (max m (i + 1)))" by (rule f(1))
    show "siblings (cx_store ?cx) p (max m (i + 1)) bs (Suc i) 0" using sk(2) by simp
    show "distinct (map block_nl bs)" by (rule Suc.prems(4))
    show "completedCycle ?cx" using f(5) Suc.prems(5) by (simp add: completedCycle_def)
  qed
  then obtain cx' where r: "run_sections nxt (drop (Suc i) bs) ?cx = Inr ([], cx')" "m_currentTracker cx' = Some p"
    "completedCycle cx'" "cx_store cx' p = Some (sec_node np s (length bs))"
    "ran_all (cx_store cx') p (Suc i) (drop (Suc i) bs) 0" "framed p (Suc i) (cx_store ?cx) (cx_store cx')" by blast
  have "ran (cx_store cx') (p @ [i]) ?b 0" using framed_ran [OF r(6)] sk(3) by simp
  moreover have "framed p i (cx_store cx) (cx_store cx')" using framed_trans [OF fr r(6)] by simp
  ultimately show ?case using r run by (auto simp: drop)
qed

lemma run_section_acquired:
  "run_section nxt b cx = bindE (acquire_section (block_nl b) cx) (\<lambda>(p, cx1).
     bindE (tracker_at p cx1) (\<lambda>t.
       if \<not> isOpen t then Inr ([], cx1)
       else bindE (run_sections nxt (block_body b) cx1) (\<lambda>(tr, cx2).
         bindE (tracker_close nxt p cx2) (\<lambda>cx3. Inr (block_nl b # tr, cx3)))))"
  by (cases b) (simp only: run_section.simps block.sel)

text \<open>What running a section that is next means for its trackers.\<close>

definition section_runs :: "('g \<Rightarrow> bool \<times> 'g) \<Rightarrow> block \<Rightarrow> bool" where
  "section_runs nxt b \<longleftrightarrow> (\<forall>cx p i t k.
     m_currentTracker cx = Some p \<longrightarrow> \<not> completedCycle cx \<longrightarrow> cx_store cx p = Some t \<longrightarrow>
     marked_above (cx_store cx) p \<longrightarrow> ran (cx_store cx) (p @ [i]) b k \<longrightarrow> k < leaves b \<longrightarrow>
     (\<exists>cx1 cx'. tryOpen (p @ [i]) cx = Inr cx1 \<and>
       bindE (tracker_at (p @ [i]) cx1) (\<lambda>t.
         if \<not> isOpen t then Inr ([], cx1)
         else bindE (run_sections nxt (block_body b) cx1) (\<lambda>(tr, cx2).
           bindE (tracker_close nxt (p @ [i]) cx2) (\<lambda>cx3. Inr (block_nl b # tr, cx3)))) = Inr (way b k, cx') \<and>
       m_currentTracker cx' = Some p \<and> completedCycle cx' \<and> ran (cx_store cx') (p @ [i]) b (k + 1) \<and>
       cx_store cx' p = Some (t\<lparr>tk_runState := ExecutingChildren\<rparr>) \<and>
       (\<forall>x. x \<noteq> p \<longrightarrow> \<not> prefix (p @ [i]) x \<longrightarrow> cx_store cx' x = cx_store cx x)))"

lemma section_runsE:
  assumes "section_runs nxt b" and "m_currentTracker cx = Some p" and "\<not> completedCycle cx"
    and "cx_store cx p = Some (sec_node np s m)" and "marked_above (cx_store cx) p"
    and "ran (cx_store cx) (p @ [i]) b k" and "k < leaves b"
  obtains cx1 cx' where "tryOpen (p @ [i]) cx = Inr cx1"
    and "bindE (tracker_at (p @ [i]) cx1) (\<lambda>t.
         if \<not> isOpen t then Inr ([], cx1)
         else bindE (run_sections nxt (block_body b) cx1) (\<lambda>(tr, cx2).
           bindE (tracker_close nxt (p @ [i]) cx2) (\<lambda>cx3. Inr (block_nl b # tr, cx3)))) = Inr (way b k, cx')"
    and "m_currentTracker cx' = Some p" and "completedCycle cx'" and "ran (cx_store cx') (p @ [i]) b (k + 1)"
    and "cx_store cx' p = Some (sec_node np ExecutingChildren m)"
    and "\<forall>x. x \<noteq> p \<longrightarrow> \<not> prefix (p @ [i]) x \<longrightarrow> cx_store cx' x = cx_store cx x"
proof -
  note inst = assms(1) [unfolded section_runs_def, rule_format, OF assms(2-7)]
  from inst obtain cx1 cx' where "tryOpen (p @ [i]) cx = Inr cx1"
    "bindE (tracker_at (p @ [i]) cx1) (\<lambda>t.
         if \<not> isOpen t then Inr ([], cx1)
         else bindE (run_sections nxt (block_body b) cx1) (\<lambda>(tr, cx2).
           bindE (tracker_close nxt (p @ [i]) cx2) (\<lambda>cx3. Inr (block_nl b # tr, cx3)))) = Inr (way b k, cx')"
    "m_currentTracker cx' = Some p" "completedCycle cx'" "ran (cx_store cx') (p @ [i]) b (k + 1)"
    "cx_store cx' p = Some ((sec_node np s m)\<lparr>tk_runState := ExecutingChildren\<rparr>)"
    "\<forall>x. x \<noteq> p \<longrightarrow> \<not> prefix (p @ [i]) x \<longrightarrow> cx_store cx' x = cx_store cx x" by (elim exE conjE)
  then show ?thesis using that by simp
qed

lemma siblings_kept:
  assumes "siblings st p m bs i k" and "\<And>j x. j \<noteq> i' \<Longrightarrow> st' (p @ j # x) = st (p @ j # x)" and "i' < i"
    and "\<exists>s m'. st' (p @ [i']) = Some (sec_node (block_nl (bs ! i')) s m')"
  shows "siblings st' p m bs i k"
proof -
  have im: "i \<le> m" "m \<le> length bs" using assms(1) by (auto simp: siblings_def registered_def)
  have "\<exists>t. st' (p @ [j]) = Some t \<and> tk_nl t = map block_nl bs ! j" if "j < m" for j
    using assms(1) assms(2) [of j "[]"] assms(4) that im assms(3)
    by (cases "j = i'") (auto simp: siblings_def registered_def)
  then have "registered st' p m (map block_nl bs)" using im by (simp add: registered_def)
  moreover have "ran_all st' p i (drop i bs) k = ran_all st p i (drop i bs) k"
    by (rule ran_all_cong) (use assms(2,3) in auto)
  ultimately show ?thesis using assms(1) by (simp add: siblings_def)
qed

lemma run_next_section:
  assumes "\<And>b. b \<in> set bs \<Longrightarrow> section_runs nxt b" and "distinct (map block_nl bs)"
    and "m_currentTracker cx = Some p" and "cx_store cx p = Some (sec_node np s m)"
    and "siblings (cx_store cx) p m bs i k" and "marked_above (cx_store cx) p" and "\<not> completedCycle cx"
    and "k < leaves_all (drop i bs)"
  shows "\<exists>cx'. run_sections nxt (drop i bs) cx = Inr (way_all (drop i bs) k, cx') \<and> m_currentTracker cx' = Some p \<and>
    completedCycle cx' \<and> cx_store cx' p = Some (sec_node np ExecutingChildren (length bs)) \<and>
    ran_all (cx_store cx') p i (drop i bs) (k + 1) \<and> framed p i (cx_store cx) (cx_store cx')"
  using assms(3-)
proof (induction "length bs - i" arbitrary: i cx m k s)
  case 0
  then have "i = length bs" by (auto simp: siblings_def)
  with 0 show ?case by simp
next
  case (Suc d)
  then have i: "i < length bs" and im: "i \<le> m" by (auto simp: siblings_def registered_def)
  let ?b = "bs ! i" and ?a = "p @ [i]"
  let ?cx = "register_child p i (block_nl ?b) cx"
  have drop: "drop i bs = ?b # drop (Suc i) bs" using i by (simp add: Cons_nth_drop_Suc)
  note f = register_child_facts [OF Suc.prems(2) im, where n = "block_nl ?b"]
  note fr = register_framed [OF Suc.prems(2) im, where n = "block_nl ?b"]
  show ?case
  proof (cases "leaves ?b \<le> k")
    case True
    then have "completedCycle cx \<and> k = 0 \<or> leaves ?b \<le> k" by simp
    note run = skip_section [OF Suc.prems(1-3) assms(2) i this]
    note sk = register_section [OF Suc.prems(1-3) assms(2) i]
    have "\<exists>cx'. run_sections nxt (drop (Suc i) bs) ?cx = Inr (way_all (drop (Suc i) bs) (k - leaves ?b), cx') \<and>
      m_currentTracker cx' = Some p \<and> completedCycle cx' \<and>
      cx_store cx' p = Some (sec_node np ExecutingChildren (length bs)) \<and>
      ran_all (cx_store cx') p (Suc i) (drop (Suc i) bs) (k - leaves ?b + 1) \<and>
      framed p (Suc i) (cx_store ?cx) (cx_store cx')"
    proof (rule Suc.hyps(1))
      show "d = length bs - Suc i" using Suc.hyps(2) by simp
      show "m_currentTracker ?cx = Some p" using f(4) Suc.prems(1) by simp
      show "cx_store ?cx p = Some (sec_node np s (max m (i + 1)))" by (rule f(1))
      show "siblings (cx_store ?cx) p (max m (i + 1)) bs (Suc i) (k - leaves ?b)" using sk(2) by simp
      show "marked_above (cx_store ?cx) p" by (rule framed_marked [OF fr Suc.prems(4)])
      show "\<not> completedCycle ?cx" using f(5) Suc.prems(5) by (simp add: completedCycle_def)
      show "k - leaves ?b < leaves_all (drop (Suc i) bs)" using Suc.prems(6) True by (simp add: drop)
    qed
    then obtain cx' where r: "run_sections nxt (drop (Suc i) bs) ?cx = Inr (way_all (drop (Suc i) bs) (k - leaves ?b), cx')"
      "m_currentTracker cx' = Some p" "completedCycle cx'" "cx_store cx' p = Some (sec_node np ExecutingChildren (length bs))"
      "ran_all (cx_store cx') p (Suc i) (drop (Suc i) bs) (k - leaves ?b + 1)"
      "framed p (Suc i) (cx_store ?cx) (cx_store cx')" by blast
    have "min k (leaves ?b) = min (k + 1) (leaves ?b)" using True by simp
    then have "ran (cx_store cx') ?a ?b (min (k + 1) (leaves ?b))" using framed_ran [OF r(6)] sk(3) by simp
    moreover have "k + 1 - leaves ?b = k - leaves ?b + 1" using True by simp
    moreover have "framed p i (cx_store cx) (cx_store cx')" using framed_trans [OF fr r(6)] by simp
    ultimately show ?thesis using r run True by (auto simp: drop)
  next
    case False
    note reg = register_section [OF Suc.prems(1-3) assms(2) i]
    have kb: "min k (leaves ?b) = k" "k - leaves ?b = 0" using False by simp_all
    have ok: "section_runs nxt ?b" using assms(1) i by simp
    have cur: "m_currentTracker ?cx = Some p" using f(4) Suc.prems(1) by simp
    have open1: "\<not> completedCycle ?cx" using f(5) Suc.prems(5) by (simp add: completedCycle_def)
    have ran1: "ran (cx_store ?cx) ?a ?b k" using reg(3) kb by simp
    from False have "k < leaves ?b" by simp
    from section_runsE [OF ok cur open1 f(1) framed_marked [OF fr Suc.prems(4)] ran1 this] obtain cx1 cx2 where
      o: "tryOpen ?a ?cx = Inr cx1"
      and ent: "bindE (tracker_at ?a cx1) (\<lambda>t. if \<not> isOpen t then Inr ([], cx1)
         else bindE (run_sections nxt (block_body ?b) cx1) (\<lambda>(tr, cx2).
           bindE (tracker_close nxt ?a cx2) (\<lambda>cx3. Inr (block_nl ?b # tr, cx3)))) = Inr (way ?b k, cx2)"
      and c2: "m_currentTracker cx2 = Some p" "completedCycle cx2" "ran (cx_store cx2) ?a ?b (k + 1)"
      and p2: "cx_store cx2 p = Some (sec_node np ExecutingChildren (max m (i + 1)))"
      and fr2: "\<forall>x. x \<noteq> p \<longrightarrow> \<not> prefix ?a x \<longrightarrow> cx_store cx2 x = cx_store ?cx x" by blast
    have "run_section nxt ?b cx = Inr (way ?b k, cx2)"
      using ent o open1 by (simp only: run_section_acquired reg(1)) simp
    have "siblings (cx_store cx2) p (max m (i + 1)) bs (Suc i) 0"
    proof (rule siblings_kept [where i' = i])
      show "siblings (cx_store ?cx) p (max m (i + 1)) bs (Suc i) 0" using reg(2) kb by simp
      show "cx_store cx2 (p @ j # x) = cx_store ?cx (p @ j # x)" if "j \<noteq> i" for j x
        using that by (intro fr2 [rule_format]) auto
      show "\<exists>s m'. cx_store cx2 (p @ [i]) = Some (sec_node (block_nl (bs ! i)) s m')" using ran_node [OF c2(3)] .
    qed simp
    from skip_sections [OF c2(1) p2 this assms(2) c2(2)] obtain cx' where
      r: "run_sections nxt (drop (Suc i) bs) cx2 = Inr ([], cx')" "m_currentTracker cx' = Some p" "completedCycle cx'"
      "cx_store cx' p = Some (sec_node np ExecutingChildren (length bs))"
      "ran_all (cx_store cx') p (Suc i) (drop (Suc i) bs) 0" "framed p (Suc i) (cx_store cx2) (cx_store cx')" by blast
    have "ran (cx_store cx') ?a ?b (k + 1)" using framed_ran [OF r(6)] c2(3) by simp
    moreover have "min (k + 1) (leaves ?b) = k + 1" "k + 1 - leaves ?b = 0" using False by simp_all
    moreover have "framed p i (cx_store ?cx) (cx_store cx2)" by (rule framed_below) (use fr2 in blast)
    then have "framed p i (cx_store cx) (cx_store cx')"
      using framed_trans [OF framed_trans [OF fr] r(6)] by simp
    ultimately show ?thesis using r \<open>run_section nxt ?b cx = _\<close> False by (auto simp: drop)
  qed
qed

lemma ran_state: "ran st p b k \<Longrightarrow> \<exists>m. st p = Some (sec_node (block_nl b)
    (if k = 0 then NotStarted else if k < leaves b then ExecutingChildren else CompletedSuccessfully) m)"
  by (cases b) (simp only: ran.simps block.sel, blast)

lemma ran_complete: "ran st p b (min k (leaves b)) \<Longrightarrow> isComplete (the (st p)) \<longleftrightarrow> leaves b \<le> k"
  using ran_state [of st p b "min k (leaves b)"] leaves_pos [of b] by (auto simp: min_def split: if_splits)

lemma ran_all_complete:
  "ran_all st p i bs k \<Longrightarrow> (\<forall>j < length bs. isComplete (the (st (p @ [i + j])))) \<longleftrightarrow> leaves_all bs \<le> k"
proof (induction bs arbitrary: i k)
  case (Cons b bs)
  have "(\<forall>j < length (b # bs). isComplete (the (st (p @ [i + j])))) \<longleftrightarrow>
      isComplete (the (st (p @ [i]))) \<and> (\<forall>j < length bs. isComplete (the (st (p @ [Suc i + j]))))"
    by (auto simp: less_Suc_eq_0_disj)
  also have "\<dots> \<longleftrightarrow> leaves b \<le> k \<and> leaves_all bs \<le> k - leaves b"
    using Cons.prems ran_complete [of st "p @ [i]" b k] Cons.IH [of "Suc i" "k - leaves b"] by simp
  finally show ?case by auto
qed simp

lemma close_section:
  fixes cx :: "'g TrackerContext"
  assumes "m_currentTracker cx = Some a" and "a = p @ [i]" and "cx_store cx a = Some (sec_node n s m)"
    and "s = Executing \<and> done \<or> s = ExecutingChildren \<and> (\<forall>j < m. \<exists>u. cx_store cx (a @ [j]) = Some u) \<and>
      (done \<longleftrightarrow> (\<forall>j < m. isComplete (the (cx_store cx (a @ [j])))))"
  shows "\<exists>cx'. tracker_close nxt a cx = Inr cx' \<and> m_currentTracker cx' = Some p \<and> completedCycle cx' \<and>
    cx_store cx' = (if done then (cx_store cx)(a \<mapsto> sec_node n CompletedSuccessfully m) else cx_store cx)"
proof -
  have "\<exists>cx1. base_close a cx = Inr cx1 \<and> m_currentTracker cx1 = Some p \<and> completedCycle cx1 \<and>
    cx_store cx1 = (if done then (cx_store cx)(a \<mapsto> sec_node n CompletedSuccessfully m) else cx_store cx)"
    using assms(4)
  proof (elim disjE conjE)
    assume "s = Executing" "done"
    with assms(2,3) show ?thesis by (simp add: base_close_def tracker_at_simps moveToParent_def parent_def)
  next
    assume s: "s = ExecutingChildren" and ex: "\<forall>j < m. \<exists>u. cx_store cx (a @ [j]) = Some u"
      and d: "done \<longleftrightarrow> (\<forall>j < m. isComplete (the (cx_store cx (a @ [j]))))"
    have "\<exists>u. cx_store cx (a @ [j]) = Some u" if "j < tk_children (sec_node n s m :: 'g tracker)" for j
      using ex that by simp
    from children_registered [OF assms(3) this]
    have "children_of a cx = Inr (map (\<lambda>j. the (cx_store cx (a @ [j]))) [0..<m])" by simp
    moreover have "list_all isComplete (map (\<lambda>j. the (cx_store cx (a @ [j]))) [0..<m]) \<longleftrightarrow> done"
      using d by (auto simp: list_all_iff)
    ultimately show ?thesis using assms(2,3) s
      by (simp add: base_close_def tracker_at_simps moveToParent_def parent_def)
  qed
  with assms(1,3) show ?thesis by (auto simp: tracker_close.simps close_current_def tracker_at_simps)
qed

lemma marked_step:
  assumes "marked_above st p" and "\<And>q. q \<noteq> p \<Longrightarrow> q \<noteq> p @ [i] \<Longrightarrow> st' q = st q"
    and "st' p = Some t" and "tk_runState t = ExecutingChildren"
  shows "marked_above st' (p @ [i])"
  unfolding marked_above_def
proof (intro allI impI)
  fix q assume q: "strict_prefix q (p @ [i])"
  show "\<exists>t. st' q = Some t \<and> tk_runState t = ExecutingChildren"
  proof (cases "q = p")
    case False
    with q have "strict_prefix q p" "q \<noteq> p @ [i]" by (auto simp: strict_prefix_def)
    with assms(1,2) False show ?thesis by (auto simp: marked_above_def)
  qed (use assms(3,4) in simp)
qed

lemma section_runs_all:
  fixes nxt :: "'g \<Rightarrow> bool \<times> 'g"
  shows "good_block b \<Longrightarrow> section_runs nxt b"
proof (induction b)
  case (Block n bs)
  have sub: "\<And>b. b \<in> set bs \<Longrightarrow> section_runs nxt b" and dist: "distinct (map block_nl bs)"
    using Block by (auto simp: list_all_iff)
  let ?b = "Block n bs"
  show ?case
    unfolding section_runs_def
  proof (intro allI impI)
    fix cx :: "'g TrackerContext" and p :: addr and i t k
    let ?a = "p @ [i]"
    assume cur: "m_currentTracker cx = Some p" and opn: "\<not> completedCycle cx" and pt: "cx_store cx p = Some t"
      and mk: "marked_above (cx_store cx) p" and ran: "ran (cx_store cx) ?a ?b k" and k: "k < leaves ?b"
    define m where "m = (if k = 0 then 0 else length bs)"
    define s where "s = (if k = 0 then NotStarted else ExecutingChildren)"
    have node: "cx_store cx ?a = Some (sec_node n s m)" and kids: "0 < k \<Longrightarrow> ran_all (cx_store cx) ?a 0 bs k"
      using ran k by (auto simp: m_def s_def)
    from tracker_open_section [OF node pt mk] obtain cx1 where o: "tracker_open ?a cx = Inr cx1"
      and st1: "cx_store cx1 = (cx_store cx)(?a \<mapsto> sec_node n Executing m, p \<mapsto> t\<lparr>tk_runState := ExecutingChildren\<rparr>)"
      and c1: "m_currentTracker cx1 = Some ?a" "cx_runState cx1 = cx_runState cx" by blast
    have tryo: "tryOpen ?a cx = Inr cx1" using o node by (simp add: tryOpen_def tracker_at_simps s_def)
    have node1: "cx_store cx1 ?a = Some (sec_node n Executing m)" using st1 by simp
    have "\<exists>cx2 cx'. run_sections nxt bs cx1 = Inr (way_all bs k, cx2) \<and> tracker_close nxt ?a cx2 = Inr cx' \<and>
      m_currentTracker cx' = Some p \<and> completedCycle cx' \<and> ran (cx_store cx') ?a ?b (k + 1) \<and>
      (\<forall>x. \<not> prefix ?a x \<longrightarrow> cx_store cx' x = cx_store cx1 x)"
    proof (cases "bs = []")
      case True
      with k have "k = 0" by simp
      then have m: "m = 0" by (simp add: m_def)
      from close_section [OF c1(1) refl node1, of True nxt] obtain cx' where "tracker_close nxt ?a cx1 = Inr cx'"
        "m_currentTracker cx' = Some p" "completedCycle cx'"
        "cx_store cx' = (cx_store cx1)(?a \<mapsto> sec_node n CompletedSuccessfully m)" by auto
      then show ?thesis using True \<open>k = 0\<close> m by auto
    next
      case False
      with k have kl: "k < leaves_all bs" by simp
      have "ran_all (cx_store cx1) ?a 0 bs k = ran_all (cx_store cx) ?a 0 bs k"
        by (rule ran_all_cong) (simp add: st1)
      then have all1: "m = length bs \<Longrightarrow> ran_all (cx_store cx1) ?a 0 bs k"
        using kids False by (auto simp: m_def split: if_splits)
      have "registered (cx_store cx1) ?a m (map block_nl bs)"
        using all1 ran_all_names [of "cx_store cx1" ?a 0 bs k]
        by (cases "k = 0") (fastforce simp: registered_def m_def)+
      then have sib: "siblings (cx_store cx1) ?a m bs 0 k"
        using all1 by (auto simp: siblings_def m_def)
      have mk1: "marked_above (cx_store cx1) ?a" by (rule marked_step [OF mk]) (use st1 in auto)
      have opn1: "\<not> completedCycle cx1" using opn c1(2) by (simp add: completedCycle_def)
      from run_next_section [OF sub dist c1(1) node1 sib mk1 opn1] kl obtain cx2 where
        r: "run_sections nxt bs cx1 = Inr (way_all bs k, cx2)" "m_currentTracker cx2 = Some ?a"
        "cx_store cx2 ?a = Some (sec_node n ExecutingChildren (length bs))"
        "ran_all (cx_store cx2) ?a 0 bs (k + 1)" "framed ?a 0 (cx_store cx1) (cx_store cx2)"
        by (auto simp: drop_0)
      have "\<forall>j < length bs. \<exists>u. cx_store cx2 (?a @ [j]) = Some u"
        using ran_all_names [OF r(4)] by fastforce
      moreover have "leaves_all bs \<le> k + 1 \<longleftrightarrow> (\<forall>j < length bs. isComplete (the (cx_store cx2 (?a @ [j]))))"
        using ran_all_complete [OF r(4)] by simp
      ultimately obtain cx' where c: "tracker_close nxt ?a cx2 = Inr cx'" "m_currentTracker cx' = Some p" "completedCycle cx'"
        "cx_store cx' = (if leaves_all bs \<le> k + 1 then (cx_store cx2)(?a \<mapsto> sec_node n CompletedSuccessfully (length bs))
          else cx_store cx2)"
        using close_section [OF r(2) refl r(3), of "leaves_all bs \<le> k + 1" nxt] by blast
      have "ran_all (cx_store cx') ?a 0 bs (k + 1) = ran_all (cx_store cx2) ?a 0 bs (k + 1)"
        by (rule ran_all_cong) (simp add: c(4))
      then have "ran_all (cx_store cx') ?a 0 bs (k + 1)" using r(4) by simp
      moreover have "cx_store cx' ?a = Some (sec_node n (if k + 1 < leaves_all bs then ExecutingChildren else CompletedSuccessfully) (length bs))"
        using c(4) r(3) by auto
      ultimately have "ran (cx_store cx') ?a ?b (k + 1)" using False by simp
      moreover have "cx_store cx' x = cx_store cx1 x" if "\<not> prefix ?a x" for x
        using c(4) r(5) that by (auto simp: framed_def)
      ultimately show ?thesis using r(1) c(1-3) by blast
    qed
    then obtain cx2 cx' where r: "run_sections nxt bs cx1 = Inr (way_all bs k, cx2)" "tracker_close nxt ?a cx2 = Inr cx'"
      "m_currentTracker cx' = Some p" "completedCycle cx'" "ran (cx_store cx') ?a ?b (k + 1)"
      "\<And>x. \<not> prefix ?a x \<Longrightarrow> cx_store cx' x = cx_store cx1 x" by blast
    have "cx_store cx' p = Some (t\<lparr>tk_runState := ExecutingChildren\<rparr>)" using r(6) [of p] st1 by simp
    moreover have "\<forall>x. x \<noteq> p \<longrightarrow> \<not> prefix ?a x \<longrightarrow> cx_store cx' x = cx_store cx x" using r(6) st1 by auto
    moreover have "bindE (tracker_at ?a cx1) (\<lambda>t. if \<not> isOpen t then Inr ([], cx1)
         else bindE (run_sections nxt (block_body ?b) cx1) (\<lambda>(tr, cx2).
           bindE (tracker_close nxt ?a cx2) (\<lambda>cx3. Inr (block_nl ?b # tr, cx3)))) = Inr (way ?b k, cx')"
      using node1 r(1,2) by (simp add: tracker_at_simps isOpen_def)
    ultimately show "\<exists>cx1 cx'. tryOpen ?a cx = Inr cx1 \<and>
       bindE (tracker_at ?a cx1) (\<lambda>t. if \<not> isOpen t then Inr ([], cx1)
         else bindE (run_sections nxt (block_body ?b) cx1) (\<lambda>(tr, cx2).
           bindE (tracker_close nxt ?a cx2) (\<lambda>cx3. Inr (block_nl ?b # tr, cx3)))) = Inr (way ?b k, cx') \<and>
       m_currentTracker cx' = Some p \<and> completedCycle cx' \<and> ran (cx_store cx') ?a ?b (k + 1) \<and>
       cx_store cx' p = Some (t\<lparr>tk_runState := ExecutingChildren\<rparr>) \<and>
       (\<forall>x. x \<noteq> p \<longrightarrow> \<not> prefix ?a x \<longrightarrow> cx_store cx' x = cx_store cx x)"
      using tryo r(3-5) by blast
  qed
qed

subsection \<open>The loop over a test\<close>

text \<open>
  The loop of \<open>RunContext::runTest\<close> over a test: a cycle runs the test once, and cycles follow one
  another until the tracker of the test has completed. Aborting after failures is left out.
\<close>

definition test_cycle :: "('g \<Rightarrow> bool \<times> 'g) \<Rightarrow> NameAndLocation \<Rightarrow> block list \<Rightarrow> 'g TrackerContext \<Rightarrow>
    (NameAndLocation list \<times> bool \<times> 'g TrackerContext) res" where
  "test_cycle nxt n bs cx = bindE (acquire_section n (startCycle cx)) (\<lambda>(p, cx1).
     bindE (run_sections nxt bs cx1) (\<lambda>(tr, cx2).
     bindE (tracker_close nxt p cx2) (\<lambda>cx3.
     bindE (tracker_at p cx3) (\<lambda>t. Inr (tr, isSuccessfullyCompleted t, cx3)))))"

partial_function (option) test_cycles :: "('g \<Rightarrow> bool \<times> 'g) \<Rightarrow> NameAndLocation \<Rightarrow> block list \<Rightarrow> 'g TrackerContext \<Rightarrow>
    NameAndLocation list list res option" where
  "test_cycles nxt n bs cx = (case test_cycle nxt n bs cx of
       Inl e \<Rightarrow> Some (Inl e)
     | Inr (tr, done, cx1) \<Rightarrow>
         if done then Some (Inr [tr])
         else Option.bind (test_cycles nxt n bs cx1) (\<lambda>r. Some (bindE r (\<lambda>trs. Inr (tr # trs)))))"

text \<open>The trackers between two cycles, after the first \<open>k\<close> ways through the test.\<close>

definition between_cycles :: "block \<Rightarrow> nat \<Rightarrow> 'g TrackerContext \<Rightarrow> bool" where
  "between_cycles b k cx \<longleftrightarrow> (\<exists>r s. cx_store cx [] = Some (sec_node r s (if k = 0 then 0 else 1))) \<and>
     (0 < k \<longrightarrow> ran (cx_store cx) [0] b k)"

lemma test_cycle_runs:
  fixes cx :: "'g TrackerContext"
  assumes "good_block (Block n bs)" and "between_cycles (Block n bs) k cx" and "k < leaves (Block n bs)"
  shows "\<exists>cx'. test_cycle nxt n bs cx = Inr (way_all bs k, leaves (Block n bs) \<le> k + 1, cx') \<and>
    between_cycles (Block n bs) (k + 1) cx'"
proof -
  let ?b = "Block n bs" and ?cx = "startCycle cx"
  let ?m = "if k = 0 then 0 else 1 :: nat"
  obtain r s where root: "cx_store cx [] = Some (sec_node r s ?m)" and kid: "0 < k \<Longrightarrow> ran (cx_store cx) [0] ?b k"
    using assms(2) by (auto simp: between_cycles_def)
  have cur: "m_currentTracker ?cx = Some []" and st: "cx_store ?cx = cx_store cx" and opn: "\<not> completedCycle ?cx"
    using root by (simp_all add: startCycle_def completedCycle_def)
  have root': "cx_store ?cx [] = Some (sec_node r s ?m)" using root st by simp
  have sib: "siblings (cx_store ?cx) [] ?m [?b] 0 k"
    using kid ran_node [of "cx_store cx" "[0]" ?b k] leaves_pos [of ?b] assms(3)
    by (auto simp: siblings_def registered_def st min_def simp del: ran.simps leaves.simps)
  have dist: "distinct (map block_nl [?b])" by simp
  have i0: "0 < length [?b]" by simp
  note reg = register_section [OF cur root' sib dist i0]
  have acq: "acquire_section n ?cx = bindE (if \<not> completedCycle (register_child [] 0 n ?cx)
      then tryOpen [0] (register_child [] 0 n ?cx) else Inr (register_child [] 0 n ?cx)) (\<lambda>cx2. Inr ([0], cx2))"
    using reg(1) by simp
  have nth: "[?b] ! 0 = ?b" "block_nl ?b = n" by simp_all
  have mn: "min k (leaves ?b) = k" using assms(3) by (simp del: leaves.simps)
  let ?cx1 = "register_child [] 0 n ?cx"
  have f: "cx_store ?cx1 [] = Some (sec_node r s (max ?m 1))" "m_currentTracker ?cx1 = Some []" "\<not> completedCycle ?cx1"
    using register_child_facts(1,4,5) [OF root', where n = n and i = 0] cur opn by (simp_all add: completedCycle_def)
  have ran1: "ran (cx_store ?cx1) ([] @ [0]) ?b k"
    using reg(3) unfolding nth mn .
  have mk: "marked_above (cx_store ?cx1) []" by (simp add: marked_above_def)
  from section_runsE [OF section_runs_all [OF assms(1)] f(2,3,1) mk ran1 assms(3), where nxt = nxt] obtain cx1 cx' where t: "tryOpen ([] @ [0]) ?cx1 = Inr cx1"
    and run: "bindE (tracker_at ([] @ [0]) cx1) (\<lambda>t. if \<not> isOpen t then Inr ([], cx1)
         else bindE (run_sections nxt (block_body ?b) cx1) (\<lambda>(tr, cx2).
           bindE (tracker_close nxt ([] @ [0]) cx2) (\<lambda>cx3. Inr (block_nl ?b # tr, cx3)))) = Inr (way ?b k, cx')"
    and fin: "ran (cx_store cx') ([] @ [0]) ?b (k + 1)" "cx_store cx' [] = Some (sec_node r ExecutingChildren (max ?m 1))"
    by blast
  from run have body: "bindE (run_sections nxt bs cx1) (\<lambda>(tr, cx2).
      bindE (tracker_close nxt [0] cx2) (\<lambda>cx3. Inr (n # tr, cx3))) = Inr (n # way_all bs k, cx')"
    by (auto simp: bindE_eq_Inr split: if_splits)
  then obtain cx2 where "run_sections nxt bs cx1 = Inr (way_all bs k, cx2)" "tracker_close nxt [0] cx2 = Inr cx'"
    by (auto simp: bindE_eq_Inr)
  moreover from ran_state [OF fin(1)] obtain m where "cx_store cx' [0] =
      Some (sec_node n (if k + 1 < leaves ?b then ExecutingChildren else CompletedSuccessfully) m)" by auto
  ultimately have "test_cycle nxt n bs cx = Inr (way_all bs k, leaves ?b \<le> k + 1, cx')"
    using acq t f(3) by (auto simp: test_cycle_def tracker_at_simps isSuccessfullyCompleted_def simp del: leaves.simps)
  moreover have "between_cycles ?b (k + 1) cx'"
    using fin by (auto simp: between_cycles_def max_def simp del: ran.simps)
  ultimately show ?thesis by blast
qed

lemma test_cycles_run:
  assumes "good_block (Block n bs)"
  shows "between_cycles (Block n bs) k cx \<Longrightarrow> k < leaves (Block n bs) \<Longrightarrow>
    test_cycles nxt n bs cx = Some (Inr (map (way_all bs) [k..<leaves (Block n bs)]))"
proof (induction "leaves (Block n bs) - k" arbitrary: k cx)
  case (Suc d)
  from test_cycle_runs [OF assms Suc.prems] obtain cx' where
    c: "test_cycle nxt n bs cx = Inr (way_all bs k, leaves (Block n bs) \<le> k + 1, cx')"
    and b: "between_cycles (Block n bs) (k + 1) cx'" by blast
  show ?case
  proof (cases "leaves (Block n bs) \<le> k + 1")
    case True
    with Suc.prems(2) have "[k..<leaves (Block n bs)] = [k]" by (simp add: upt_rec del: leaves.simps)
    with c True show ?thesis by (subst test_cycles.simps) (simp del: leaves.simps)
  next
    case False
    have "d = leaves (Block n bs) - (k + 1)" using Suc.hyps(2) by simp
    from Suc.hyps(1) [OF this b] False
    have "test_cycles nxt n bs cx' = Some (Inr (map (way_all bs) [k + 1..<leaves (Block n bs)]))" by simp
    moreover have "[k..<leaves (Block n bs)] = k # [k + 1..<leaves (Block n bs)]"
      using Suc.prems(2) by (simp add: upt_conv_Cons del: leaves.simps)
    ultimately show ?thesis using c False by (subst test_cycles.simps) (simp del: leaves.simps)
  qed
qed simp

text \<open>
  C11: Every way through a test runs once. For a test made of nested sections, where the sections next
  to each other have different names or locations, the runner stops after exactly as many cycles as
  there are innermost sections (one if there is none), and in the cycles it enters the sections on the
  way to the first, the second, and so on, in the order of the source; no assertion of the trackers
  fails and no pointer is null.
\<close>

theorem sections_run_once:
  assumes "good_block (Block n bs)"
  shows "test_cycles nxt n bs (startRun here cx) = Some (Inr (map (way_all bs) [0..<leaves (Block n bs)]))"
proof (rule test_cycles_run [OF assms])
  show "between_cycles (Block n bs) 0 (startRun here cx)"
    by (auto simp: between_cycles_def startRun_def sec_node_def new_TrackerBase_def)
  show "0 < leaves (Block n bs)" by (rule leaves_pos)
qed

definition sec :: "string \<Rightarrow> block list \<Rightarrow> block" where
  "sec nm = Block \<lparr>nl_name = nm, nl_location = \<lparr>li_file = ''book.cpp'', li_line = 1\<rparr>\<rparr>"

theorem sections_run_once_witness:
  "\<exists>a b c d. [a, b, c, d] = map (\<lambda>nm. \<lparr>nl_name = nm, nl_location = \<lparr>li_file = ''book.cpp'', li_line = 1\<rparr>\<rparr>)
       [''asks'', ''add'', ''remove'', ''bids''] \<and>
     test_cycles (\<lambda>g::unit. (False, g)) \<lparr>nl_name = ''book'', nl_location = \<lparr>li_file = ''book.cpp'', li_line = 1\<rparr>\<rparr>
       [sec ''asks'' [sec ''add'' [], sec ''remove'' []], sec ''bids'' []]
       (startRun \<lparr>li_file = ''catch.cpp'', li_line = 2\<rparr> new_TrackerContext) = Some (Inr [[a, b], [a, c], [d]])"
proof -
  let ?n = "\<lparr>nl_name = ''book'', nl_location = \<lparr>li_file = ''book.cpp'', li_line = 1\<rparr>\<rparr>"
  let ?bs = "[sec ''asks'' [sec ''add'' [], sec ''remove'' []], sec ''bids'' []]"
  have "good_block (Block ?n ?bs)" by (simp add: sec_def)
  from sections_run_once [OF this, of "\<lambda>g::unit. (False, g)"] show ?thesis
    by (simp add: sec_def upt_rec)
qed

end
