(* ===== verification/Catch_Xml.thy ===== *)
theory Catch_Xml
  imports Prelude "HOL-Library.Word"
begin

section \<open>XML output\<close>

text \<open>
  \<open>XmlEncode\<close> and \<open>XmlWriter\<close> of Catch2. A byte is promoted to \<open>int\<close> before its bits are masked,
  as C++ promotes an \<open>unsigned char\<close>; a decoded value is a 32-bit word. The output stream is the text
  written so far; flushing it is not modelled. The first part has the operations, the second the round
  trip of the encoder, the third the layout of a written document.
\<close>

unbundle bit_operations_syntax

subsection \<open>\<open>XmlEncode\<close>\<close>

datatype ForWhat = ForTextNodes | ForAttributes

definition byte :: "char \<Rightarrow> int" where
  "byte ch = of_char ch"

definition trailingBytes :: "int \<Rightarrow> nat res" where
  "trailingBytes c =
     (if c AND 0xE0 = 0xC0 then Inr 2
      else if c AND 0xF0 = 0xE0 then Inr 3
      else if c AND 0xF8 = 0xF0 then Inr 4
      else Inl Logic_Error)"

definition headerValue :: "int \<Rightarrow> 32 word res" where
  "headerValue c =
     (if c AND 0xE0 = 0xC0 then Inr (word_of_int (c AND 0x1F))
      else if c AND 0xF0 = 0xE0 then Inr (word_of_int (c AND 0x0F))
      else if c AND 0xF8 = 0xF0 then Inr (word_of_int (c AND 0x07))
      else Inl Logic_Error)"

definition hex_digit :: "int \<Rightarrow> char" where
  "hex_digit d = ''0123456789ABCDEF'' ! nat d"

definition hexEscapeChar :: "int \<Rightarrow> string" where
  "hexEscapeChar c = CHR 0x5C # CHR ''x'' # [hex_digit (c div 16), hex_digit (c mod 16)]"

text \<open>The loop over the bytes that follow a lead byte: whether they are valid, and the value.\<close>

fun follow_bytes :: "string \<Rightarrow> nat \<Rightarrow> nat list \<Rightarrow> bool \<times> 32 word \<Rightarrow> bool \<times> 32 word" where
  "follow_bytes m_str idx [] st = st"
| "follow_bytes m_str idx (n # ns) (valid, val) =
     (let nc = byte (m_str ! (idx + n))
      in follow_bytes m_str idx ns
           (valid \<and> nc AND 0xC0 = 0x80, push_bit 6 val OR word_of_int (nc AND 0x3F)))"

text \<open>The last case of the switch: what is written, and by how much \<open>idx\<close> grows within the round.\<close>

definition encode_multibyte :: "string \<Rightarrow> nat \<Rightarrow> int \<Rightarrow> (string \<times> nat) res" where
  "encode_multibyte m_str idx c =
     bindE (trailingBytes c) (\<lambda>encBytes.
       if length m_str \<le> idx + encBytes - 1 then Inr (hexEscapeChar c, 0)
       else bindE (headerValue c) (\<lambda>v0.
         let (valid, val) = follow_bytes m_str idx [1..<encBytes] (True, v0)
         in if \<not> valid \<or> val < 0x80
              \<or> (0x80 \<le> val \<and> val < 0x800 \<and> encBytes > 2)
              \<or> (0x800 < val \<and> val < 0x10000 \<and> encBytes > 3)
              \<or> val \<ge> 0x110000
            then Inr (hexEscapeChar c, 0)
            else Inr (map (\<lambda>n. m_str ! (idx + n)) [0..<encBytes], encBytes - 1)))"

definition encode_default :: "string \<Rightarrow> nat \<Rightarrow> int \<Rightarrow> (string \<times> nat) res" where
  "encode_default m_str idx c =
     (if c < 0x09 \<or> (c > 0x0D \<and> c < 0x20) \<or> c = 0x7F then Inr (hexEscapeChar c, 0)
      else if c < 0x7F then Inr ([m_str ! idx], 0)
      else if c < 0xC0 \<or> c \<ge> 0xF8 then Inr (hexEscapeChar c, 0)
      else encode_multibyte m_str idx c)"

definition encode_one :: "ForWhat \<Rightarrow> string \<Rightarrow> nat \<Rightarrow> (string \<times> nat) res" where
  "encode_one m_forWhat m_str idx =
     (let ch = m_str ! idx
      in if ch = CHR ''<'' then Inr (''&lt;'', 0)
         else if ch = CHR ''&'' then Inr (''&amp;'', 0)
         else if ch = CHR ''>'' then
           (if idx > 2 \<and> m_str ! (idx - 1) = CHR '']'' \<and> m_str ! (idx - 2) = CHR '']''
            then Inr (''&gt;'', 0) else Inr ([ch], 0))
         else if ch = CHR 0x22 then
           (if m_forWhat = ForAttributes then Inr (''&quot;'', 0) else Inr ([ch], 0))
         else encode_default m_str idx (byte ch))"

function encodeFrom :: "ForWhat \<Rightarrow> string \<Rightarrow> nat \<Rightarrow> string \<Rightarrow> string res" where
  "encodeFrom m_forWhat m_str idx os =
     (if idx < length m_str then
        (case encode_one m_forWhat m_str idx of
           Inl e \<Rightarrow> Inl e
         | Inr (out, k) \<Rightarrow> encodeFrom m_forWhat m_str (idx + k + 1) (os @ out))
      else Inr os)"
  by pat_completeness auto
termination by (relation "measure (\<lambda>(_, m_str, idx, _). length m_str - idx)") auto

declare encodeFrom.simps [simp del]

definition encodeTo :: "ForWhat \<Rightarrow> string \<Rightarrow> string \<Rightarrow> string res" where
  "encodeTo m_forWhat m_str os = encodeFrom m_forWhat m_str 0 os"

subsection \<open>\<open>XmlWriter\<close>\<close>

type_synonym XmlFormatting = int

definition Fmt_None :: XmlFormatting where "Fmt_None = 0x00"
definition Fmt_Indent :: XmlFormatting where "Fmt_Indent = 0x01"
definition Fmt_Newline :: XmlFormatting where "Fmt_Newline = 0x02"

definition shouldNewline :: "XmlFormatting \<Rightarrow> bool" where
  "shouldNewline fmt = (fmt AND Fmt_Newline \<noteq> 0)"

definition shouldIndent :: "XmlFormatting \<Rightarrow> bool" where
  "shouldIndent fmt = (fmt AND Fmt_Indent \<noteq> 0)"

text \<open>The default of every operation that takes a format.\<close>

definition default_fmt :: XmlFormatting where
  "default_fmt = Fmt_Newline OR Fmt_Indent"

record XmlWriter =
  m_tagIsOpen :: bool
  m_needsNewline :: bool
  m_tags :: "string list"
  m_indent :: string
  m_os :: string

definition put :: "string \<Rightarrow> XmlWriter \<Rightarrow> XmlWriter" where
  "put s w = w\<lparr>m_os := m_os w @ s\<rparr>"

definition applyFormatting :: "XmlFormatting \<Rightarrow> XmlWriter \<Rightarrow> XmlWriter" where
  "applyFormatting fmt w = w\<lparr>m_needsNewline := shouldNewline fmt\<rparr>"

definition writeDeclaration :: "XmlWriter \<Rightarrow> XmlWriter" where
  "writeDeclaration w = put (''<?xml version='' @ [CHR 0x22] @ ''1.0'' @ [CHR 0x22] @ '' encoding='' @
     [CHR 0x22] @ ''UTF-8'' @ [CHR 0x22] @ ''?>'' @ [CHR 0x0A]) w"

definition newlineIfNecessary :: "XmlWriter \<Rightarrow> XmlWriter" where
  "newlineIfNecessary w = (if m_needsNewline w then (put [CHR 0x0A] w)\<lparr>m_needsNewline := False\<rparr> else w)"

definition ensureTagClosed :: "XmlWriter \<Rightarrow> XmlWriter" where
  "ensureTagClosed w =
     (if m_tagIsOpen w then (newlineIfNecessary (put ''>'' w))\<lparr>m_tagIsOpen := False\<rparr> else w)"

definition new_XmlWriter :: "string \<Rightarrow> XmlWriter" where
  "new_XmlWriter os = writeDeclaration
     \<lparr>m_tagIsOpen = False, m_needsNewline = False, m_tags = [], m_indent = [], m_os = os\<rparr>"

definition startElement :: "string \<Rightarrow> XmlFormatting \<Rightarrow> XmlWriter \<Rightarrow> XmlWriter" where
  "startElement name fmt w =
     (let w1 = newlineIfNecessary (ensureTagClosed w);
          w2 = (if shouldIndent fmt
            then (put (m_indent w1) w1)\<lparr>m_indent := m_indent w1 @ ''  ''\<rparr> else w1);
          w3 = put (CHR ''<'' # name) w2
      in applyFormatting fmt (w3\<lparr>m_tags := m_tags w3 @ [name], m_tagIsOpen := True\<rparr>))"

text \<open>
  \<open>substr(0, size - 2)\<close> keeps a text of less than two characters, as the difference wraps around.
  \<open>back\<close> and \<open>pop_back\<close> of an empty vector are undefined: an error here.
\<close>

definition endElement :: "XmlFormatting \<Rightarrow> XmlWriter \<Rightarrow> XmlWriter res" where
  "endElement fmt w =
     (let w1 = w\<lparr>m_indent := (if length (m_indent w) < 2 then m_indent w
            else take (length (m_indent w) - 2) (m_indent w))\<rparr>
      in if m_tags w = [] then Inl Undefined
         else
           (let w2 = (if m_tagIsOpen w1 then (put ''/>'' w1)\<lparr>m_tagIsOpen := False\<rparr>
                  else (let v1 = newlineIfNecessary w1;
                            v2 = (if shouldIndent fmt then put (m_indent v1) v1 else v1)
                        in put (''</'' @ last (m_tags v2) @ ''>'') v2));
                w3 = applyFormatting fmt w2
            in Inr (w3\<lparr>m_tags := butlast (m_tags w3)\<rparr>)))"

definition writeAttribute :: "string \<Rightarrow> string \<Rightarrow> XmlWriter \<Rightarrow> XmlWriter res" where
  "writeAttribute name attribute w =
     (if name \<noteq> [] \<and> attribute \<noteq> [] then
        bindE (encodeTo ForAttributes attribute []) (\<lambda>a.
          Inr (put (CHR '' '' # name @ ''='' @ [CHR 0x22] @ a @ [CHR 0x22]) w))
      else Inr w)"

definition writeAttribute_bool :: "string \<Rightarrow> bool \<Rightarrow> XmlWriter \<Rightarrow> XmlWriter" where
  "writeAttribute_bool name attribute w =
     put (CHR '' '' # name @ ''='' @ [CHR 0x22] @ (if attribute then ''true'' else ''false'') @ [CHR 0x22]) w"

definition writeText :: "string \<Rightarrow> XmlFormatting \<Rightarrow> XmlWriter \<Rightarrow> XmlWriter res" where
  "writeText txt0 fmt w =
     (if txt0 \<noteq> [] then
        (let tagWasOpen = m_tagIsOpen w;
             w1 = ensureTagClosed w;
             w2 = (if tagWasOpen \<and> shouldIndent fmt then put (m_indent w1) w1 else w1)
         in bindE (encodeTo ForTextNodes txt0 []) (\<lambda>t. Inr (applyFormatting fmt (put t w2))))
      else Inr w)"

definition writeComment :: "string \<Rightarrow> XmlFormatting \<Rightarrow> XmlWriter \<Rightarrow> XmlWriter" where
  "writeComment txt0 fmt w =
     (let w1 = ensureTagClosed w;
          w2 = (if shouldIndent fmt then put (m_indent w1) w1 else w1)
      in applyFormatting fmt (put (''<!--'' @ txt0 @ ''-->'') w2))"

definition writeStylesheetRef :: "string \<Rightarrow> XmlWriter \<Rightarrow> XmlWriter" where
  "writeStylesheetRef url w = put (''<?xml-stylesheet type='' @ [CHR 0x22] @ ''text/xsl'' @ [CHR 0x22] @
     '' href='' @ [CHR 0x22] @ url @ [CHR 0x22] @ ''?>'' @ [CHR 0x0A]) w"

definition writeBlankLine :: "XmlWriter \<Rightarrow> XmlWriter" where
  "writeBlankLine w = put [CHR 0x0A] (ensureTagClosed w)"

text \<open>The destructor.\<close>

fun close_tags :: "nat \<Rightarrow> XmlWriter \<Rightarrow> XmlWriter res" where
  "close_tags 0 w = Inr w"
| "close_tags (Suc n) w = (if m_tags w = [] then Inr w else bindE (endElement default_fmt w) (close_tags n))"

definition delete_XmlWriter :: "XmlWriter \<Rightarrow> XmlWriter res" where
  "delete_XmlWriter w = bindE (close_tags (length (m_tags w)) w) (\<lambda>w1. Inr (newlineIfNecessary w1))"

text \<open>A \<open>ScopedElement\<close>: whether it still has its writer, and its format.\<close>

record ScopedElement =
  se_writer :: bool
  se_fmt :: XmlFormatting

definition scopedElement :: "string \<Rightarrow> XmlFormatting \<Rightarrow> XmlWriter \<Rightarrow> ScopedElement \<times> XmlWriter" where
  "scopedElement name fmt w = (\<lparr>se_writer = True, se_fmt = fmt\<rparr>, startElement name fmt w)"

definition move_ScopedElement :: "ScopedElement \<Rightarrow> ScopedElement \<times> ScopedElement" where
  "move_ScopedElement other = (other, \<lparr>se_writer = False, se_fmt = Fmt_None\<rparr>)"

definition assign_ScopedElement :: "ScopedElement \<Rightarrow> ScopedElement \<Rightarrow> XmlWriter \<Rightarrow>
    (ScopedElement \<times> ScopedElement \<times> XmlWriter) res" where
  "assign_ScopedElement this other w =
     bindE (if se_writer this then endElement default_fmt w else Inr w) (\<lambda>w1.
       Inr (other, \<lparr>se_writer = False, se_fmt = Fmt_None\<rparr>, w1))"

definition delete_ScopedElement :: "ScopedElement \<Rightarrow> XmlWriter \<Rightarrow> XmlWriter res" where
  "delete_ScopedElement this w = (if se_writer this then endElement (se_fmt this) w else Inr w)"

subsection \<open>UTF-8 read back\<close>

lemma lead_masks: "list_all (\<lambda>c. (c AND 0xE0 = 0xC0 \<longleftrightarrow> 0xC0 \<le> c \<and> c < 0xE0) \<and>
    (c AND 0xF0 = 0xE0 \<longleftrightarrow> 0xE0 \<le> c \<and> c < 0xF0) \<and> (c AND 0xF8 = 0xF0 \<longleftrightarrow> 0xF0 \<le> c \<and> c < 0xF8) \<and>
    (0xC0 \<le> c \<and> c < 0xE0 \<longrightarrow> c AND 0x1F = c - 0xC0) \<and> (0xE0 \<le> c \<and> c < 0xF0 \<longrightarrow> c AND 0x0F = c - 0xE0) \<and>
    (0xF0 \<le> c \<and> c < 0xF8 \<longrightarrow> c AND 0x07 = c - 0xF0) \<and> (0x80 \<le> c \<and> c < 0xC0 \<longrightarrow> c AND 0xC0 = 0x80 \<and> c AND 0x3F = c - 0x80))
    [0..255 :: int]"
  by code_simp

lemma byte_masks:
  assumes "0 \<le> c" and "c < (256 :: int)"
  shows "c AND 0xE0 = 0xC0 \<longleftrightarrow> 0xC0 \<le> c \<and> c < 0xE0" and "c AND 0xF0 = 0xE0 \<longleftrightarrow> 0xE0 \<le> c \<and> c < 0xF0"
    and "c AND 0xF8 = 0xF0 \<longleftrightarrow> 0xF0 \<le> c \<and> c < 0xF8" and "0xC0 \<le> c \<Longrightarrow> c < 0xE0 \<Longrightarrow> c AND 0x1F = c - 0xC0"
    and "0xE0 \<le> c \<Longrightarrow> c < 0xF0 \<Longrightarrow> c AND 0x0F = c - 0xE0" and "0xF0 \<le> c \<Longrightarrow> c < 0xF8 \<Longrightarrow> c AND 0x07 = c - 0xF0"
    and "0x80 \<le> c \<Longrightarrow> c < 0xC0 \<Longrightarrow> c AND 0xC0 = 0x80" and "0x80 \<le> c \<Longrightarrow> c < 0xC0 \<Longrightarrow> c AND 0x3F = c - 0x80"
proof -
  have "c \<in> set [0..255 :: int]" using assms by simp
  note lead_masks [unfolded list_all_iff, rule_format, OF this]
  then show "c AND 0xE0 = 0xC0 \<longleftrightarrow> 0xC0 \<le> c \<and> c < 0xE0" and "c AND 0xF0 = 0xE0 \<longleftrightarrow> 0xE0 \<le> c \<and> c < 0xF0"
    and "c AND 0xF8 = 0xF0 \<longleftrightarrow> 0xF0 \<le> c \<and> c < 0xF8" and "0xC0 \<le> c \<Longrightarrow> c < 0xE0 \<Longrightarrow> c AND 0x1F = c - 0xC0"
    and "0xE0 \<le> c \<Longrightarrow> c < 0xF0 \<Longrightarrow> c AND 0x0F = c - 0xE0" and "0xF0 \<le> c \<Longrightarrow> c < 0xF8 \<Longrightarrow> c AND 0x07 = c - 0xF0"
    and "0x80 \<le> c \<Longrightarrow> c < 0xC0 \<Longrightarrow> c AND 0xC0 = 0x80" and "0x80 \<le> c \<Longrightarrow> c < 0xC0 \<Longrightarrow> c AND 0x3F = c - 0x80"
    by blast+
qed

lemma int_append_bits:
  fixes v k :: int
  assumes "0 \<le> k" and "k < 64"
  shows "push_bit 6 v OR k = v * 64 + k"
proof -
  have k: "k = take_bit 6 k" using assms by (simp add: take_bit_eq_mod)
  have "push_bit 6 v + take_bit 6 k = push_bit 6 v OR take_bit 6 k"
    by (rule disjunctive_add_eq_or) (auto simp: bit_eq_iff bit_simps)
  then show ?thesis using k by (simp add: push_bit_eq_mult)
qed

lemma word_append_bits:
  assumes "0 \<le> k" and "k < 64"
  shows "push_bit 6 (word_of_int v) OR word_of_int k = (word_of_int (v * 64 + k) :: 32 word)"
  unfolding int_append_bits [OF assms, symmetric] by (simp add: of_int_or_eq of_int_push_bit)

lemma byte_range: "0 \<le> byte ch" "byte ch < 256"
  using nat_of_char_less_256 [of ch] of_nat_of_char [of ch, where ?'a = int, symmetric] by (simp_all add: byte_def)

lemma byte_char_of [simp]: "0 \<le> c \<Longrightarrow> c < 256 \<Longrightarrow> byte (char_of c) = c"
  by (simp add: byte_def)

lemma byte_inject: "byte x = byte y \<longleftrightarrow> x = y"
  by (simp add: byte_def)

lemma encode_one_total: "\<exists>out k. encode_one w s idx = Inr (out, k)"
proof -
  let ?c = "byte (s ! idx)"
  have "\<exists>out k. encode_multibyte s idx ?c = Inr (out, k)" if "0xC0 \<le> ?c" "?c < 0xF8"
  proof -
    have "\<exists>n. trailingBytes ?c = Inr n" "\<exists>v. headerValue ?c = Inr v"
      using byte_range [of "s ! idx"] that by (auto simp: trailingBytes_def headerValue_def byte_masks)
    then obtain n v where "trailingBytes ?c = Inr n" "headerValue ?c = Inr v" by blast
    then show ?thesis by (auto simp: encode_multibyte_def split: prod.splits)
  qed
  then have "\<exists>out k. encode_default s idx ?c = Inr (out, k)" by (auto simp: encode_default_def)
  then show ?thesis by (auto simp: encode_one_def Let_def)
qed

lemma encodeFrom_total: "\<exists>out. encodeFrom w s idx os = Inr (os @ out)"
proof (induction "length s - idx" arbitrary: idx os rule: less_induct)
  case less
  show ?case
  proof (cases "idx < length s")
    case True
    obtain out k where one: "encode_one w s idx = Inr (out, k)" using encode_one_total by blast
    from True have "length s - (idx + k + 1) < length s - idx" by simp
    from less [OF this] obtain out' where "encodeFrom w s (idx + k + 1) (os @ out) = Inr ((os @ out) @ out')" by blast
    then show ?thesis using True one by (simp add: encodeFrom.simps [of _ _ idx])
  qed (simp add: encodeFrom.simps)
qed


lemma follow_append: "follow_bytes s idx (ns @ ms) st = follow_bytes s idx ms (follow_bytes s idx ns st)"
  by (induction ns arbitrary: st) (auto simp: Let_def)

text \<open>UTF-8: the bytes of a code point.\<close>

definition utf8_bytes :: "int \<Rightarrow> int list" where
  "utf8_bytes cp =
     (if cp < 0x80 then [cp]
      else if cp < 0x800 then [0xC0 + cp div 64, 0x80 + cp mod 64]
      else if cp < 0x10000 then [0xE0 + cp div 4096, 0x80 + cp div 64 mod 64, 0x80 + cp mod 64]
      else [0xF0 + cp div 262144, 0x80 + cp div 4096 mod 64, 0x80 + cp div 64 mod 64, 0x80 + cp mod 64])"

definition utf8 :: "int \<Rightarrow> string" where
  "utf8 cp = map char_of (utf8_bytes cp)"

lemma follow_step:
  assumes "byte (s ! (idx + n)) = 0x80 + k" and "0 \<le> k" and "k < 64"
  shows "follow_bytes s idx [n] (True, word_of_int v) = (True, word_of_int (v * 64 + k))"
proof -
  have "(0x80 + k) AND 0xC0 = 0x80" "(0x80 + k) AND 0x3F = k" using assms by (simp_all add: byte_masks)
  then show ?thesis using assms(1) by (simp add: word_append_bits [OF assms(2,3)])
qed

lemma word_less_small:
  assumes "0 \<le> a" "a < 2 ^ 32" "0 \<le> b" "b < 2 ^ 32"
  shows "(word_of_int a :: 32 word) < word_of_int b \<longleftrightarrow> a < b"
  using assms by (simp add: word_less_def unsigned_of_int take_bit_int_eq_self)

lemma nth_piece: "n < length t \<Longrightarrow> (pre @ t @ post) ! (length pre + n) = t ! n"
  by (simp add: nth_append)

lemma pieces_nth: "map (\<lambda>n. (pre @ t @ post) ! (length pre + n)) [0..<length t] = t"
  by (rule nth_equalityI) (simp_all add: nth_append)

lemma encode_multibyte_sane:
  assumes "trailingBytes c = Inr (length t)" and "headerValue c = Inr v"
    and "follow_bytes (pre @ t @ post) (length pre) [1..<length t] (True, v) = (True, word_of_int cp)"
    and "0x80 \<le> cp" and "cp < 0x110000" and "2 \<le> length t"
    and "2 < length t \<Longrightarrow> 0x800 \<le> cp" and "3 < length t \<Longrightarrow> 0x10000 \<le> cp"
  shows "encode_multibyte (pre @ t @ post) (length pre) c = Inr (t, length t - 1)"
proof -
  let ?v = "word_of_int cp :: 32 word"
  have less: "?v < word_of_int b \<longleftrightarrow> cp < b" if "0 \<le> b" "b < 2 ^ 32" for b
    using assms(4,5) that by (intro word_less_small) simp_all
  have le: "word_of_int b \<le> ?v \<longleftrightarrow> b \<le> cp" if "0 \<le> b" "b < 2 ^ 32" for b
    using less [OF that] by (auto simp: not_less [symmetric])
  have gt: "word_of_int b < ?v \<longleftrightarrow> b < cp" if "0 \<le> b" "b < 2 ^ 32" for b
    using assms(4,5) that by (intro word_less_small) simp_all
  have "\<not> ?v < 0x80" "\<not> ?v \<ge> 0x110000" using less [of "0x80"] le [of "0x110000"] assms(4,5) by simp_all
  moreover have "\<not> (?v < 0x800 \<and> length t > 2)" using less [of "0x800"] assms(7) by auto
  moreover have "\<not> (?v < 0x10000 \<and> length t > 3)" using less [of "0x10000"] assms(8) by auto
  moreover have "\<not> length (pre @ t @ post) \<le> length pre + length t - 1" using assms(6) by simp
  ultimately show ?thesis using assms(1,2,3) pieces_nth [of pre t post]
    by (simp add: encode_multibyte_def)
qed

lemma digits_64:
  fixes cp :: int
  shows "(cp div 4096 * 64 + cp div 64 mod 64) * 64 + cp mod 64 = cp"
    and "((cp div 262144 * 64 + cp div 4096 mod 64) * 64 + cp div 64 mod 64) * 64 + cp mod 64 = cp"
proof -
  have d: "cp div 4096 = cp div 64 div 64" "cp div 262144 = cp div 64 div 64 div 64"
    by (simp_all add: zdiv_zmult2_eq [symmetric])
  show one: "(cp div 4096 * 64 + cp div 64 mod 64) * 64 + cp mod 64 = cp"
    unfolding d by (simp only: div_mult_mod_eq)
  show "((cp div 262144 * 64 + cp div 4096 mod 64) * 64 + cp div 64 mod 64) * 64 + cp mod 64 = cp"
    unfolding d by (simp only: div_mult_mod_eq)
qed

lemma encode_multibyte_valid:
  fixes pre post :: string
  assumes "0x80 \<le> cp" and "cp < 0x110000"
  defines "s \<equiv> pre @ utf8 cp @ post" and "idx \<equiv> length pre"
  shows "encode_default s idx (byte (s ! idx)) = Inr (utf8 cp, length (utf8 cp) - 1)"
proof -
  have byte_at: "byte (s ! (idx + n)) = utf8_bytes cp ! n" if "n < length (utf8_bytes cp)" for n
  proof -
    have "utf8_bytes cp ! n \<in> set (utf8_bytes cp)" using that by simp
    moreover have "\<forall>b \<in> set (utf8_bytes cp). 0 \<le> b \<and> b < 256"
      using assms(1,2) by (auto simp: utf8_bytes_def)
    ultimately have "0 \<le> utf8_bytes cp ! n \<and> utf8_bytes cp ! n < 256" by blast
    then show ?thesis using that by (simp add: s_def idx_def utf8_def nth_append)
  qed
  have lead: "byte (s ! idx) = utf8_bytes cp ! 0" using byte_at [of 0] by (simp add: utf8_bytes_def)
  let ?c = "byte (s ! idx)"
  have len: "length (utf8 cp) = length (utf8_bytes cp)" by (simp add: utf8_def)
  have go: "encode_multibyte s idx ?c = Inr (utf8 cp, length (utf8 cp) - 1) \<Longrightarrow> 0xC0 \<le> ?c \<Longrightarrow> ?c < 0xF8 \<Longrightarrow> ?thesis"
    by (simp add: encode_default_def)
  consider "cp < 0x800" | "0x800 \<le> cp" "cp < 0x10000" | "0x10000 \<le> cp" by linarith
  then show ?thesis
  proof cases
    case 1
    define a b where "a = cp div 64" and "b = cp mod 64"
    then have cp: "a * 64 + b = cp" by simp
    have ab: "0 \<le> a" "a < 32" "0 \<le> b" "b < 64" unfolding a_def b_def using assms(1) 1 by simp_all
    from 1 assms(1) have u: "utf8_bytes cp = [0xC0 + a, 0x80 + b]" by (simp add: utf8_bytes_def a_def b_def)
    have c: "?c = 0xC0 + a" "byte (s ! (idx + 1)) = 0x80 + b" using lead byte_at [of 1] by (simp_all add: u)
    have upt: "[1..<length (utf8 cp)] = [1]" by (simp add: len u upt_rec)
    have f: "follow_bytes s idx [1..<length (utf8 cp)] (True, word_of_int a) = (True, word_of_int cp)"
      unfolding upt follow_step [OF c(2) ab(3,4)] cp ..
    have "encode_multibyte s idx ?c = Inr (utf8 cp, length (utf8 cp) - 1)"
      unfolding s_def idx_def using ab assms(1,2) c(1) [unfolded s_def idx_def] len u
      by (intro encode_multibyte_sane [OF _ _ f [unfolded s_def idx_def]])
        (simp_all add: trailingBytes_def headerValue_def byte_masks)
    then show ?thesis using c(1) ab by (intro go) simp_all
  next
    case 2
    define a b d where "a = cp div 4096" and "b = cp div 64 mod 64" and "d = cp mod 64"
    have ab: "0 \<le> a" "a < 16" "0 \<le> b" "b < 64" "0 \<le> d" "d < 64"
      unfolding a_def b_def d_def using assms(1) 2 by simp_all
    have cp: "(a * 64 + b) * 64 + d = cp" unfolding a_def b_def d_def by (rule digits_64)
    from 2 assms(1) have u: "utf8_bytes cp = [0xE0 + a, 0x80 + b, 0x80 + d]"
      by (simp add: utf8_bytes_def a_def b_def d_def)
    have c: "?c = 0xE0 + a" "byte (s ! (idx + 1)) = 0x80 + b" "byte (s ! (idx + 2)) = 0x80 + d"
      using lead byte_at [of 1] byte_at [of 2] by (simp_all add: u)
    have upt: "[1..<length (utf8 cp)] = [1] @ [2]" by (simp add: len u upt_rec)
    have f: "follow_bytes s idx [1..<length (utf8 cp)] (True, word_of_int a) = (True, word_of_int cp)"
      unfolding upt follow_append follow_step [OF c(2) ab(3,4)] follow_step [OF c(3) ab(5,6)] cp ..
    have "encode_multibyte s idx ?c = Inr (utf8 cp, length (utf8 cp) - 1)"
      unfolding s_def idx_def using ab assms(1,2) c(1) [unfolded s_def idx_def] len u 2
      by (intro encode_multibyte_sane [OF _ _ f [unfolded s_def idx_def]])
        (simp_all add: trailingBytes_def headerValue_def byte_masks)
    then show ?thesis using c(1) ab by (intro go) simp_all
  next
    case 3
    define a b d e where "a = cp div 262144" and "b = cp div 4096 mod 64" and "d = cp div 64 mod 64" and "e = cp mod 64"
    have ab: "0 \<le> a" "a < 8" "0 \<le> b" "b < 64" "0 \<le> d" "d < 64" "0 \<le> e" "e < 64"
      unfolding a_def b_def d_def e_def using assms(1,2) 3 by simp_all
    have cp: "((a * 64 + b) * 64 + d) * 64 + e = cp" unfolding a_def b_def d_def e_def by (rule digits_64)
    from 3 assms(1) have u: "utf8_bytes cp = [0xF0 + a, 0x80 + b, 0x80 + d, 0x80 + e]"
      by (simp add: utf8_bytes_def a_def b_def d_def e_def)
    have c: "?c = 0xF0 + a" "byte (s ! (idx + 1)) = 0x80 + b" "byte (s ! (idx + 2)) = 0x80 + d"
      "byte (s ! (idx + 3)) = 0x80 + e"
      using lead byte_at [of 1] byte_at [of 2] byte_at [of 3] by (simp_all add: u)
    have upt: "[1..<length (utf8 cp)] = [1] @ [2] @ [3]" by (simp add: len u upt_rec)
    have f: "follow_bytes s idx [1..<length (utf8 cp)] (True, word_of_int a) = (True, word_of_int cp)"
      unfolding upt follow_append follow_step [OF c(2) ab(3,4)] follow_step [OF c(3) ab(5,6)]
        follow_step [OF c(4) ab(7,8)] cp ..
    have "encode_multibyte s idx ?c = Inr (utf8 cp, length (utf8 cp) - 1)"
      unfolding s_def idx_def using ab assms(1,2) c(1) [unfolded s_def idx_def] len u 3
      by (intro encode_multibyte_sane [OF _ _ f [unfolded s_def idx_def]])
        (simp_all add: trailingBytes_def headerValue_def byte_masks)
    then show ?thesis using c(1) ab by (intro go) simp_all
  qed
qed

subsection \<open>Encoded text\<close>

fun xml_unescape :: "string \<Rightarrow> string" where
  "xml_unescape [] = []"
| "xml_unescape (c # s) =
     (if c = CHR ''&'' then
        if take 3 s = ''lt;'' then CHR ''<'' # xml_unescape (drop 3 s)
        else if take 4 s = ''amp;'' then CHR ''&'' # xml_unescape (drop 4 s)
        else if take 3 s = ''gt;'' then CHR ''>'' # xml_unescape (drop 3 s)
        else if take 5 s = ''quot;'' then CHR 0x22 # xml_unescape (drop 5 s)
        else c # xml_unescape s
      else c # xml_unescape s)"

text \<open>No markup can start in a text, a value of an attribute cannot end, and \<open>&\<close> starts an entity.\<close>

fun xml_safe :: "ForWhat \<Rightarrow> string \<Rightarrow> bool" where
  "xml_safe w [] = True"
| "xml_safe w (c # s) = (c \<noteq> CHR ''<'' \<and> (w = ForAttributes \<longrightarrow> c \<noteq> CHR 0x22) \<and>
     (c = CHR ''&'' \<longrightarrow> take 3 s = ''lt;'' \<or> take 4 s = ''amp;'' \<or> take 3 s = ''gt;'' \<or> take 5 s = ''quot;'') \<and>
     xml_safe w s)"

definition plain_char :: "char \<Rightarrow> bool" where
  "plain_char c \<longleftrightarrow> c \<noteq> CHR ''<'' \<and> c \<noteq> CHR ''&'' \<and> c \<noteq> CHR 0x22"

lemma unescape_plain: "CHR ''&'' \<notin> set s \<Longrightarrow> xml_unescape (s @ r) = s @ xml_unescape r"
  by (induction s) auto

lemma unescape_entities:
  "xml_unescape (''&lt;'' @ r) = CHR ''<'' # xml_unescape r" "xml_unescape (''&amp;'' @ r) = CHR ''&'' # xml_unescape r"
  "xml_unescape (''&gt;'' @ r) = CHR ''>'' # xml_unescape r" "xml_unescape (''&quot;'' @ r) = CHR 0x22 # xml_unescape r"
  by simp_all

lemma safe_plain: "list_all plain_char s \<Longrightarrow> xml_safe w (s @ r) = xml_safe w r"
  by (induction s) (auto simp: plain_char_def)

lemma safe_entities:
  "xml_safe w (''&lt;'' @ r) = xml_safe w r" "xml_safe w (''&amp;'' @ r) = xml_safe w r"
  "xml_safe w (''&gt;'' @ r) = xml_safe w r" "xml_safe w (''&quot;'' @ r) = xml_safe w r"
  by simp_all

lemma plain_byte: "0x80 \<le> byte c \<Longrightarrow> plain_char c"
  by (auto simp: plain_char_def byte_def)

lemma plain_hex: "list_all plain_char (hexEscapeChar (byte c))"
proof -
  have "hex_digit d \<in> set ''0123456789ABCDEF''" if "0 \<le> d" "d < 16" for d
    unfolding hex_digit_def by (rule nth_mem) (use that in simp)
  moreover have "0 \<le> byte c div 16" "byte c div 16 < 16" "0 \<le> byte c mod 16" "byte c mod 16 < 16"
    using byte_range [of c] by simp_all
  ultimately have "hex_digit (byte c div 16) \<in> set ''0123456789ABCDEF''" "hex_digit (byte c mod 16) \<in> set ''0123456789ABCDEF''"
    by blast+
  moreover have "list_all plain_char ''0123456789ABCDEF''" by (simp add: plain_char_def)
  ultimately have "plain_char (hex_digit (byte c div 16))" "plain_char (hex_digit (byte c mod 16))"
    by (simp_all only: list_all_iff)
  then show ?thesis by (simp add: hexEscapeChar_def) (simp add: plain_char_def)
qed

lemma follow_bytes_high:
  assumes "fst (follow_bytes s idx ns (b, v))"
  shows "b \<and> (\<forall>n \<in> set ns. 0x80 \<le> byte (s ! (idx + n)))"
  using assms
proof (induction ns arbitrary: b v)
  case (Cons n ns)
  let ?nc = "byte (s ! (idx + n))"
  from Cons.prems have "fst (follow_bytes s idx ns (b \<and> ?nc AND 0xC0 = 0x80, push_bit 6 v OR word_of_int (?nc AND 0x3F)))"
    by (simp add: Let_def)
  from Cons.IH [OF this] have "b" and nc: "?nc AND 0xC0 = 0x80"
    and rest: "\<forall>n \<in> set ns. 0x80 \<le> byte (s ! (idx + n))" by auto
  have "?nc AND 0xC0 \<le> ?nc" using byte_range [of "s ! (idx + n)"] by (simp add: AND_upper1)
  with nc rest \<open>b\<close> show ?case by simp
qed simp

lemma encode_multibyte_plain:
  assumes "encode_multibyte s idx (byte (s ! idx)) = Inr (out, k)" and "0x80 \<le> byte (s ! idx)"
  shows "list_all plain_char out"
proof -
  have "list_all plain_char (map (\<lambda>n. s ! (idx + n)) [0..<m])"
    if "fst (follow_bytes s idx [1..<m] (True, v))" for m v
  proof -
    from follow_bytes_high [OF that] have "\<forall>n \<in> set [1..<m]. 0x80 \<le> byte (s ! (idx + n))" by simp
    then have "0x80 \<le> byte (s ! (idx + n))" if "n < m" for n
      using that assms(2) by (cases "n = 0") auto
    then show ?thesis by (simp add: list_all_iff plain_byte)
  qed
  note valid = this
  from assms(1) obtain m where m: "trailingBytes (byte (s ! idx)) = Inr m"
    by (auto simp: encode_multibyte_def bindE_eq_Inr)
  show ?thesis
  proof (cases "length s \<le> idx + m - 1")
    case True
    with assms(1) m have "out = hexEscapeChar (byte (s ! idx))" by (simp add: encode_multibyte_def)
    then show ?thesis by (simp add: plain_hex)
  next
    case False
    with assms(1) m obtain v where v: "headerValue (byte (s ! idx)) = Inr v"
      by (auto simp: encode_multibyte_def bindE_eq_Inr)
    obtain vld val where f: "follow_bytes s idx [1..<m] (True, v) = (vld, val)" by fastforce
    with assms(1) m v False have "out = hexEscapeChar (byte (s ! idx)) \<or> vld \<and> out = map (\<lambda>n. s ! (idx + n)) [0..<m]"
      by (auto simp: encode_multibyte_def split: if_splits)
    then show ?thesis using valid [of m v] f plain_hex [of "s ! idx"] by auto
  qed
qed

lemma plain_hex_127: "list_all plain_char (hexEscapeChar 127)"
  by code_simp

lemma encode_one_safe:
  assumes "encode_one w s idx = Inr (out, k)"
  shows "xml_safe w (out @ r) = xml_safe w r"
proof -
  have plain: "list_all plain_char t \<Longrightarrow> t = out \<Longrightarrow> ?thesis" for t by (simp add: safe_plain)
  consider "s ! idx = CHR ''<''" | "s ! idx = CHR ''&''" | "s ! idx = CHR ''>''" | "s ! idx = CHR 0x22"
    | "plain_char (s ! idx)" "s ! idx \<noteq> CHR ''>''" by (auto simp: plain_char_def)
  then show ?thesis
  proof cases
    case 5
    then have "encode_default s idx (byte (s ! idx)) = Inr (out, k)"
      using assms by (auto simp: encode_one_def plain_char_def)
    then have "list_all plain_char out"
      using 5 encode_multibyte_plain [of s idx out k] by (auto simp: encode_default_def plain_hex plain_hex_127 split: if_splits)
    then show ?thesis by (rule safe_plain)
  qed (use assms in \<open>auto simp: encode_one_def safe_entities [simplified] split: if_splits\<close>)
qed

lemma encodeFrom_step:
  "idx < length s \<Longrightarrow> encode_one w s idx = Inr (out, k) \<Longrightarrow>
    encodeFrom w s idx os = encodeFrom w s (idx + k + 1) (os @ out)"
  by (simp add: encodeFrom.simps [of _ _ idx])

lemma encodeFrom_end: "length s \<le> idx \<Longrightarrow> encodeFrom w s idx os = Inr os"
  by (simp add: encodeFrom.simps)

lemma encodeFrom_safe: "\<exists>out. encodeFrom w s idx os = Inr (os @ out) \<and> xml_safe w out"
proof (induction "length s - idx" arbitrary: idx os rule: less_induct)
  case less
  show ?case
  proof (cases "idx < length s")
    case True
    obtain out k where one: "encode_one w s idx = Inr (out, k)" using encode_one_total by blast
    from True have "length s - (idx + k + 1) < length s - idx" by simp
    from less [OF this] obtain out' where "encodeFrom w s (idx + k + 1) (os @ out) = Inr ((os @ out) @ out')"
      and "xml_safe w out'" by blast
    then show ?thesis using encodeFrom_step [OF True one, of os] encode_one_safe [OF one, of out'] by auto
  qed (simp add: encodeFrom_end)
qed

text \<open>
  Encoded text is text. Whatever bytes a text has, valid or not, encoding it succeeds and only
  appends: no byte of what is appended starts a tag, none ends the attribute it is written in, and
  every ampersand starts one of the four entities.
\<close>

theorem encoded_text_safe: "\<exists>out. encodeTo w s os = Inr (os @ out) \<and> xml_safe w out"
  unfolding encodeTo_def by (rule encodeFrom_safe)

text \<open>The code points XML 1.0 allows up to the checks of the code: no control character but white space.\<close>

definition text_point :: "int \<Rightarrow> bool" where
  "text_point cp \<longleftrightarrow> (9 \<le> cp \<and> cp \<le> 13) \<or> (32 \<le> cp \<and> cp \<noteq> 127 \<and> cp < 0x110000)"

lemma utf8_high: "0x80 \<le> cp \<Longrightarrow> cp < 0x110000 \<Longrightarrow> c \<in> set (utf8 cp) \<Longrightarrow> 0x80 \<le> byte c"
  by (auto simp: utf8_def utf8_bytes_def split: if_splits)

lemma encode_point:
  fixes pre post :: string
  assumes "text_point cp"
  defines "s \<equiv> pre @ utf8 cp @ post" and "idx \<equiv> length pre"
  shows "\<exists>out. encode_one w s idx = Inr (out, length (utf8 cp) - 1) \<and>
    (\<forall>r. xml_unescape (out @ r) = utf8 cp @ xml_unescape r)"
proof (cases "cp < 0x80")
  case True
  with assms(1) have cp: "0 \<le> cp" "cp < 256" by (auto simp: text_point_def)
  let ?c = "char_of cp :: char"
  from True have u: "utf8 cp = [?c]" by (simp add: utf8_def utf8_bytes_def)
  then have at: "s ! idx = ?c" by (simp add: s_def idx_def)
  have plain: "?thesis" if "encode_one w s idx = Inr ([?c], 0)" "?c \<noteq> CHR ''&''"
    using that by (auto simp: u)
  consider "?c = CHR ''<''" | "?c = CHR ''&''" | "?c = CHR ''>''" | "?c = CHR 0x22"
    | "?c \<noteq> CHR ''<''" "?c \<noteq> CHR ''&''" "?c \<noteq> CHR ''>''" "?c \<noteq> CHR 0x22" by blast
  then show ?thesis
  proof cases
    case 5
    have "encode_default s idx (byte ?c) = Inr ([?c], 0)"
      using assms(1) True cp by (auto simp: encode_default_def at text_point_def)
    with 5 show ?thesis by (intro plain) (simp_all add: encode_one_def at)
  qed (auto simp: encode_one_def at u)
next
  case False
  with assms(1) have cp: "0x80 \<le> cp" "cp < 0x110000" by (auto simp: text_point_def)
  have hi: "0x80 \<le> byte c" if "c \<in> set (utf8 cp)" for c using utf8_high [OF cp that] .
  have "utf8 cp \<noteq> []" by (simp add: utf8_def utf8_bytes_def)
  then have "s ! idx \<in> set (utf8 cp)" by (cases "utf8 cp") (simp_all add: s_def idx_def)
  then have "0x80 \<le> byte (s ! idx)" by (rule hi)
  then have "s ! idx \<noteq> CHR ''<''" "s ! idx \<noteq> CHR ''&''" "s ! idx \<noteq> CHR ''>''" "s ! idx \<noteq> CHR 0x22"
    by (auto simp: byte_def)
  then have "encode_one w s idx = Inr (utf8 cp, length (utf8 cp) - 1)"
    using encode_multibyte_valid [OF cp, of pre post] by (simp add: encode_one_def s_def idx_def)
  moreover have "CHR ''&'' \<notin> set (utf8 cp)" using hi by (fastforce simp: byte_def)
  ultimately show ?thesis by (auto simp: unescape_plain)
qed

lemma encodeFrom_points:
  assumes "list_all text_point cps"
  shows "\<exists>out. encodeFrom w (pre @ concat (map utf8 cps)) (length pre) os = Inr (os @ out) \<and>
    xml_unescape out = concat (map utf8 cps)"
  using assms
proof (induction cps arbitrary: pre os)
  case (Cons cp cps)
  let ?s = "pre @ utf8 cp @ concat (map utf8 cps)"
  have cp: "text_point cp" using Cons.prems by simp
  from encode_point [OF cp, of w pre "concat (map utf8 cps)"] obtain out where
    one: "encode_one w ?s (length pre) = Inr (out, length (utf8 cp) - 1)"
    and un: "\<And>r. xml_unescape (out @ r) = utf8 cp @ xml_unescape r" by blast
  have ne: "0 < length (utf8 cp)" by (simp add: utf8_def utf8_bytes_def)
  from Cons.IH [of "pre @ utf8 cp" "os @ out"] Cons.prems obtain out' where
    rest: "encodeFrom w ?s (length pre + length (utf8 cp)) (os @ out) = Inr ((os @ out) @ out')"
    and un': "xml_unescape out' = concat (map utf8 cps)" by auto
  have "encodeFrom w ?s (length pre) os = Inr (os @ out @ out')"
    using encodeFrom_step [OF _ one, of os] ne rest by simp
  then show ?case using un [of out'] un' by auto
qed (simp add: encodeFrom_end)



text \<open>
  What the encoder lets through. The end of a character data section is written as it is when the
  text starts with it, for \<open>idx > 2\<close> should be \<open>idx >= 2\<close>; so are the vertical tab and the form feed,
  which XML 1.0 forbids, and an overlong encoding of U+0800, for \<open>0x800 < value\<close> should be
  \<open>0x800 <= value\<close>.
\<close>

theorem encoder_lets_through:
  "encodeTo ForTextNodes '']]>'' [] = Inr '']]>'' \<and>
   encodeTo ForTextNodes [CHR 0x0B, CHR 0x0C] [] = Inr [CHR 0x0B, CHR 0x0C] \<and>
   encodeTo ForTextNodes [CHR 0xF0, CHR 0x80, CHR 0xA0, CHR 0x80] [] = Inr [CHR 0xF0, CHR 0x80, CHR 0xA0, CHR 0x80]"
  by code_simp

subsection \<open>The layout of a document\<close>

text \<open>A document as a tree, and the calls that write it: \<open>Line\<close> is a text that is written without indentation.\<close>

datatype xml_node = Element string "(string \<times> string) list" "xml_node list" | Chars string | Line string

fun write_node :: "xml_node \<Rightarrow> XmlWriter \<Rightarrow> XmlWriter res"
  and write_nodes :: "xml_node list \<Rightarrow> XmlWriter \<Rightarrow> XmlWriter res" where
  "write_node (Element name atts kids) w =
     bindE (foldE (\<lambda>(n, v). writeAttribute n v) atts (startElement name default_fmt w)) (\<lambda>w1.
       bindE (write_nodes kids w1) (endElement default_fmt))"
| "write_node (Chars t) w = writeText t default_fmt w"
| "write_node (Line t) w = writeText t Fmt_Newline w"
| "write_nodes [] w = Inr w"
| "write_nodes (k # ks) w = bindE (write_node k w) (write_nodes ks)"

text \<open>
  The layout, with no state: an element is on lines of its own, indented by two blanks per level;
  empty texts and attributes are left out; a text is indented when it is the first thing in its element.
\<close>

definition encoded :: "ForWhat \<Rightarrow> string \<Rightarrow> string" where
  "encoded w s = (case encodeTo w s [] of Inr out \<Rightarrow> out | Inl _ \<Rightarrow> [])"

definition layout_attribute :: "string \<times> string \<Rightarrow> string" where
  "layout_attribute a = (if fst a = [] \<or> snd a = [] then []
     else '' '' @ fst a @ ''='' @ [CHR 0x22] @ encoded ForAttributes (snd a) @ [CHR 0x22])"

definition blanks :: "nat \<Rightarrow> string" where
  "blanks d = concat (replicate d ''  '')"

definition newline :: string where
  "newline = [CHR 0x0A]"

fun visible :: "xml_node \<Rightarrow> bool" where
  "visible (Chars t) = (t \<noteq> [])"
| "visible (Line t) = (t \<noteq> [])"
| "visible (Element _ _ _) = True"

fun layout :: "nat \<Rightarrow> bool \<Rightarrow> xml_node \<Rightarrow> string"
  and layouts :: "nat \<Rightarrow> bool \<Rightarrow> xml_node list \<Rightarrow> string" where
  "layout d first (Chars t) = (if t = [] then [] else (if first then blanks d else []) @ encoded ForTextNodes t)"
| "layout d first (Line t) = (if t = [] then [] else encoded ForTextNodes t)"
| "layout d first (Element name atts kids) =
     (if first then [] else newline) @ blanks d @ ''<'' @ name @ concat (map layout_attribute atts) @
     (if \<exists>k \<in> set kids. visible k
      then ''>'' @ newline @ layouts (Suc d) True kids @ newline @ blanks d @ ''</'' @ name @ ''>''
      else ''/>'')"
| "layouts d first [] = []"
| "layouts d first (k # ks) = layout d first k @ layouts d (first \<and> \<not> visible k) ks"

definition in_document :: "bool \<Rightarrow> nat \<Rightarrow> string list \<Rightarrow> string \<Rightarrow> XmlWriter" where
  "in_document opn d ts os =
     \<lparr>m_tagIsOpen = opn, m_needsNewline = True, m_tags = ts, m_indent = blanks d, m_os = os\<rparr>"

lemma default_fmt_both [simp]: "shouldNewline default_fmt" "shouldIndent default_fmt"
  "shouldNewline Fmt_Newline" "\<not> shouldIndent Fmt_Newline"
  by (simp_all add: shouldNewline_def shouldIndent_def default_fmt_def Fmt_Newline_def Fmt_Indent_def)

lemma encodeTo_encoded: "encodeTo w s [] = Inr (encoded w s)"
  using encoded_text_safe [of w s "[]"] by (auto simp: encoded_def)

lemma blanks_Suc: "blanks d @ ''  '' = blanks (Suc d)"
  by (induction d) (simp_all add: blanks_def)

lemma blanks_less: "take (length (blanks (Suc d)) - 2) (blanks (Suc d)) = blanks d" "\<not> length (blanks (Suc d)) < 2"
  unfolding blanks_Suc [symmetric] by simp_all

lemmas writer_defs = in_document_def put_def applyFormatting_def newlineIfNecessary_def ensureTagClosed_def newline_def

lemma start_in_document: "startElement name default_fmt (in_document opn d ts os) =
    in_document True (Suc d) (ts @ [name])
      (os @ (if opn then ''>'' else []) @ newline @ blanks d @ ''<'' @ name)"
  by (simp add: startElement_def Let_def writer_defs blanks_Suc [simplified])

lemma start_document: "startElement name default_fmt (new_XmlWriter os) =
    in_document True 1 [name] (m_os (new_XmlWriter os) @ ''<'' @ name)"
  by (simp add: startElement_def Let_def writer_defs new_XmlWriter_def writeDeclaration_def blanks_def)

lemma attribute_in_document: "writeAttribute n v (in_document opn d ts os) =
    Inr (in_document opn d ts (os @ layout_attribute (n, v)))"
  by (simp add: writeAttribute_def encodeTo_encoded layout_attribute_def writer_defs)

lemma attributes_in_document: "foldE (\<lambda>(n, v). writeAttribute n v) atts (in_document opn d ts os) =
    Inr (in_document opn d ts (os @ concat (map layout_attribute atts)))"
  by (induction atts arbitrary: os) (auto simp: attribute_in_document)

lemma end_in_document: "endElement default_fmt (in_document opn (Suc d) (ts @ [name]) os) =
    Inr (in_document False d ts (os @ (if opn then ''/>'' else newline @ blanks d @ ''</'' @ name @ ''>'')))"
  by (simp add: endElement_def Let_def writer_defs blanks_less [simplified])

lemma text_in_document: "writeText t default_fmt (in_document opn d ts os) =
    Inr (in_document (opn \<and> t = []) d ts (os @ (if opn \<and> t \<noteq> [] then ''>'' @ newline else []) @ layout d opn (Chars t)))"
  by (simp add: writeText_def Let_def encodeTo_encoded writer_defs)

lemma line_in_document: "writeText t Fmt_Newline (in_document opn d ts os) =
    Inr (in_document (opn \<and> t = []) d ts (os @ (if opn \<and> t \<noteq> [] then ''>'' @ newline else []) @ layout d opn (Line t)))"
  by (simp add: writeText_def Let_def encodeTo_encoded writer_defs)

definition node_written :: "xml_node \<Rightarrow> bool" where
  "node_written k \<longleftrightarrow> (\<forall>opn d ts os. write_node k (in_document opn d ts os) =
     Inr (in_document (opn \<and> \<not> visible k) d ts
       (os @ (if opn \<and> visible k then ''>'' @ newline else []) @ layout d opn k)))"

lemma layout_invisible: "\<not> visible k \<Longrightarrow> layout d first k = []"
  by (cases k) auto

lemma layouts_invisible: "\<not> (\<exists>k \<in> set ks. visible k) \<Longrightarrow> layouts d first ks = []"
  by (induction ks) (auto simp: layout_invisible)

lemma nodes_in_document:
  assumes "\<And>k. k \<in> set ks \<Longrightarrow> node_written k"
  shows "write_nodes ks (in_document opn d ts os) = Inr (in_document (opn \<and> \<not> (\<exists>k \<in> set ks. visible k)) d ts
     (os @ (if opn \<and> (\<exists>k \<in> set ks. visible k) then ''>'' @ newline else []) @ layouts d opn ks))"
  using assms
proof (induction ks arbitrary: opn os)
  case (Cons k ks)
  have "node_written k" using Cons.prems by simp
  moreover have "node_written k'" if "k' \<in> set ks" for k' using Cons.prems that by simp
  note Cons.IH [OF this]
  ultimately show ?case by (cases "visible k") (auto simp: node_written_def layout_invisible)
qed simp

lemma node_in_document: "node_written k"
proof (induction k)
  case (Element name atts kids)
  note kids = nodes_in_document [of kids, OF Element.IH]
  show ?case
  proof (cases "\<exists>k \<in> set kids. visible k")
    case True
    then show ?thesis
      by (simp add: node_written_def start_in_document attributes_in_document end_in_document kids)
  next
    case False
    then show ?thesis
      by (simp add: node_written_def start_in_document attributes_in_document end_in_document kids layouts_invisible)
  qed
next
  case (Chars t)
  then show ?case by (simp add: node_written_def text_in_document)
next
  case (Line t)
  then show ?case by (simp add: node_written_def line_in_document)
qed

text \<open>
  C27: Layout of a report. Writing a document with the default formats, from the constructor to the
  destructor, calls nothing on an empty stack of tags and leaves none open, and what it writes is
  exactly the declaration and the tree laid out by a function that keeps no state: every start tag has
  its end tag at the same indentation, or closes itself when its element shows nothing.
\<close>

theorem writer_lays_out:
  "\<exists>w. bindE (write_node (Element name atts kids) (new_XmlWriter os)) delete_XmlWriter = Inr w \<and>
     m_tags w = [] \<and> \<not> m_tagIsOpen w \<and>
     m_os w = m_os (new_XmlWriter os) @ layout 0 True (Element name atts kids) @ newline"
proof -
  have kids: "write_nodes kids (in_document opn d ts out) = Inr (in_document (opn \<and> \<not> (\<exists>k \<in> set kids. visible k)) d ts
     (out @ (if opn \<and> (\<exists>k \<in> set kids. visible k) then ''>'' @ newline else []) @ layouts d opn kids))"
    for opn d ts out by (rule nodes_in_document) (rule node_in_document)
  note fin = end_in_document [where ts = "[]" and d = 0, simplified]
  show ?thesis
  proof (cases "\<exists>k \<in> set kids. visible k")
    case True
    then show ?thesis
      by (simp add: start_document attributes_in_document kids fin delete_XmlWriter_def blanks_def)
        (simp add: writer_defs)
  next
    case False
    then show ?thesis
      by (simp add: start_document attributes_in_document kids fin delete_XmlWriter_def blanks_def layouts_invisible)
        (simp add: writer_defs)
  qed
qed

text \<open>A sequence of calls that ends elements only when one is open never fails, and the destructor ends the rest.\<close>

lemma endElement_pops: "m_tags w \<noteq> [] \<Longrightarrow> \<exists>w'. endElement fmt w = Inr w' \<and> m_tags w' = butlast (m_tags w) \<and> \<not> m_tagIsOpen w'"
  by (simp add: endElement_def Let_def put_def applyFormatting_def newlineIfNecessary_def)

lemma close_tags_all: "m_tags w = [] \<longrightarrow> \<not> m_tagIsOpen w \<Longrightarrow> length (m_tags w) \<le> n \<Longrightarrow>
    \<exists>w'. close_tags n w = Inr w' \<and> m_tags w' = [] \<and> \<not> m_tagIsOpen w'"
proof (induction n arbitrary: w)
  case (Suc n)
  show ?case
  proof (cases "m_tags w = []")
    case False
    from endElement_pops [OF this, of default_fmt] obtain w1 where
      w1: "endElement default_fmt w = Inr w1" "m_tags w1 = butlast (m_tags w)" "\<not> m_tagIsOpen w1" by blast
    have "\<exists>w'. close_tags n w1 = Inr w' \<and> m_tags w' = [] \<and> \<not> m_tagIsOpen w'"
      by (rule Suc.IH) (use w1 Suc.prems in auto)
    then show ?thesis using False w1(1) by simp
  qed (use Suc.prems in simp)
qed simp

lemma delete_XmlWriter_closes:
  assumes "m_tags w = [] \<longrightarrow> \<not> m_tagIsOpen w"
  shows "\<exists>w'. delete_XmlWriter w = Inr w' \<and> m_tags w' = [] \<and> \<not> m_tagIsOpen w'"
  using close_tags_all [OF assms le_refl]
  by (auto simp: delete_XmlWriter_def newlineIfNecessary_def put_def)

end
