(* ===== verification/Catch_Text_Flow.thy ===== *)
theory Catch_Text_Flow
  imports Prelude
begin

section \<open>Text in columns\<close>

text \<open>
  \<open>Column\<close> and \<open>Columns\<close> of Catch2, which break a text into lines of a given width. An iterator is
  the record of its members; the column it refers to does not change while it exists and is an
  argument. A failed assertion is an error. The loops that print are partial functions: \<open>None\<close> is a
  loop that does not end. \<open>size_t\<close> is \<open>nat\<close>, as the assertions of the constructor keep the only
  subtraction from wrapping, and \<open>npos\<close> as an initial indentation is \<open>None\<close>.
\<close>

subsection \<open>Where a line may be broken\<close>

definition isWhitespace :: "char \<Rightarrow> bool" where
  "isWhitespace c \<longleftrightarrow> c = CHR '' '' \<or> c = CHR 0x09 \<or> c = CHR 0x0A \<or> c = CHR 0x0D"

definition isBreakableBefore :: "char \<Rightarrow> bool" where
  "isBreakableBefore c \<longleftrightarrow> c \<in> set ''[({<|''"

definition isBreakableAfter :: "char \<Rightarrow> bool" where
  "isBreakableAfter c \<longleftrightarrow> c \<in> set (''])}>.,:;*+-=&/'' @ [CHR 0x5C])"

text \<open>A text may be indexed at its length, where it has the null character.\<close>

definition char_at :: "string \<Rightarrow> nat \<Rightarrow> char" where
  "char_at s i = (if i < length s then s ! i else CHR 0x00)"

definition isBoundary :: "string \<Rightarrow> nat \<Rightarrow> bool" where
  "isBoundary line i \<longleftrightarrow> i = length line \<or>
     (isWhitespace (char_at line i) \<and> \<not> isWhitespace (char_at line (i - 1))) \<or>
     isBreakableBefore (char_at line i) \<or> isBreakableAfter (char_at line (i - 1))"

subsection \<open>A column\<close>

record Column =
  c_string :: string
  c_width :: nat
  c_indent :: nat
  c_initialIndent :: "nat option"

definition new_Column :: "string \<Rightarrow> Column" where
  "new_Column t = \<lparr>c_string = t, c_width = 80 - 1, c_indent = 0, c_initialIndent = None\<rparr>"

definition Column_width :: "nat \<Rightarrow> Column \<Rightarrow> Column res" where
  "Column_width newWidth col = (if newWidth > 0 then Inr (col\<lparr>c_width := newWidth\<rparr>) else Inl Assert_Failed)"

definition Column_indent :: "nat \<Rightarrow> Column \<Rightarrow> Column" where
  "Column_indent newIndent col = col\<lparr>c_indent := newIndent\<rparr>"

definition Column_initialIndent :: "nat \<Rightarrow> Column \<Rightarrow> Column" where
  "Column_initialIndent newIndent col = col\<lparr>c_initialIndent := Some newIndent\<rparr>"

definition Spacer :: "nat \<Rightarrow> Column res" where
  "Spacer spaceWidth = Column_width spaceWidth (new_Column [])"

record col_iter =
  it_pos :: nat
  it_len :: nat
  it_end :: nat
  it_suffix :: bool

definition iter_indent :: "Column \<Rightarrow> nat \<Rightarrow> nat" where
  "iter_indent m_column m_pos =
     (let initial = (if m_pos = 0 then c_initialIndent m_column else None)
      in case initial of None \<Rightarrow> c_indent m_column | Some i \<Rightarrow> i)"

text \<open>The three loops of \<open>calcLength\<close>.\<close>

function find_end :: "string \<Rightarrow> nat \<Rightarrow> nat" where
  "find_end current_line m_end =
     (if m_end < length current_line \<and> current_line ! m_end \<noteq> CHR 0x0A
      then find_end current_line (Suc m_end) else m_end)"
  by pat_completeness auto
termination by (relation "measure (\<lambda>(s, n). length s - n)") auto

fun back_to_boundary :: "string \<Rightarrow> nat \<Rightarrow> nat \<Rightarrow> nat" where
  "back_to_boundary current_line m_pos 0 = 0"
| "back_to_boundary current_line m_pos (Suc len) =
     (if \<not> isBoundary current_line (m_pos + Suc len) then back_to_boundary current_line m_pos len else Suc len)"

fun back_over_white :: "string \<Rightarrow> nat \<Rightarrow> nat \<Rightarrow> nat" where
  "back_over_white current_line m_pos 0 = 0"
| "back_over_white current_line m_pos (Suc len) =
     (if isWhitespace (char_at current_line (m_pos + len)) then back_over_white current_line m_pos len else Suc len)"

definition calcLength :: "Column \<Rightarrow> col_iter \<Rightarrow> col_iter" where
  "calcLength m_column it =
     (let m_pos = it_pos it;
          width = c_width m_column - iter_indent m_column m_pos;
          current_line = c_string m_column;
          m_end = find_end current_line (if char_at current_line m_pos = CHR 0x0A then Suc m_pos else m_pos)
      in if m_end < m_pos + width then it\<lparr>it_suffix := False, it_end := m_end, it_len := m_end - m_pos\<rparr>
         else
           let len = back_over_white current_line m_pos (back_to_boundary current_line m_pos width)
           in if len > 0 then it\<lparr>it_suffix := False, it_end := m_end, it_len := len\<rparr>
              else it\<lparr>it_suffix := True, it_end := m_end, it_len := width - 1\<rparr>)"

definition addIndentAndSuffix :: "Column \<Rightarrow> col_iter \<Rightarrow> nat \<Rightarrow> nat \<Rightarrow> string" where
  "addIndentAndSuffix m_column it position len =
     replicate (iter_indent m_column (it_pos it)) (CHR '' '') @
     take len (drop position (c_string m_column)) @ (if it_suffix it then ''-'' else [])"

definition Column_end :: "Column \<Rightarrow> col_iter" where
  "Column_end m_column = \<lparr>it_pos = length (c_string m_column), it_len = 0, it_end = 0, it_suffix = False\<rparr>"

definition Column_begin :: "Column \<Rightarrow> col_iter res" where
  "Column_begin m_column =
     (if \<not> c_width m_column > c_indent m_column then Inl Assert_Failed
      else if \<not> (case c_initialIndent m_column of None \<Rightarrow> True | Some i \<Rightarrow> c_width m_column > i) then Inl Assert_Failed
      else (let it = calcLength m_column \<lparr>it_pos = 0, it_len = 0, it_end = 0, it_suffix = False\<rparr>
            in Inr (if it_len it = 0 then it\<lparr>it_pos := length (c_string m_column)\<rparr> else it)))"

definition iter_eq :: "col_iter \<Rightarrow> col_iter \<Rightarrow> bool" where
  "iter_eq it other \<longleftrightarrow> it_pos it = it_pos other"

definition iter_deref :: "Column \<Rightarrow> col_iter \<Rightarrow> string res" where
  "iter_deref m_column it =
     (if it_pos it \<le> it_end it then Inr (addIndentAndSuffix m_column it (it_pos it) (it_len it))
      else Inl Assert_Failed)"

function skip_white :: "string \<Rightarrow> nat \<Rightarrow> nat" where
  "skip_white current_line m_pos =
     (if m_pos < length current_line \<and> isWhitespace (current_line ! m_pos)
      then skip_white current_line (Suc m_pos) else m_pos)"
  by pat_completeness auto
termination by (relation "measure (\<lambda>(s, n). length s - n)") auto

declare find_end.simps [simp del] skip_white.simps [simp del]

definition iter_incr :: "Column \<Rightarrow> col_iter \<Rightarrow> col_iter" where
  "iter_incr m_column it =
     (let current_line = c_string m_column;
          p = it_pos it + it_len it;
          m_pos = (if p < length current_line \<and> current_line ! p = CHR 0x0A then p + 1
            else skip_white current_line p);
          it1 = it\<lparr>it_pos := m_pos\<rparr>
      in if m_pos \<noteq> length current_line then calcLength m_column it1 else it1)"

text \<open>Printing: a newline before every line but the first.\<close>

partial_function (option) column_lines :: "Column \<Rightarrow> col_iter \<Rightarrow> string list res option" where
  "column_lines col it =
     (if iter_eq it (Column_end col) then Some (Inr [])
      else (case iter_deref col it of
              Inl e \<Rightarrow> Some (Inl e)
            | Inr line \<Rightarrow> Option.bind (column_lines col (iter_incr col it))
                (\<lambda>r. Some (bindE r (\<lambda>ls. Inr (line # ls))))))"

fun emit_lines :: "bool \<Rightarrow> string list \<Rightarrow> string \<Rightarrow> string" where
  "emit_lines first [] os = os"
| "emit_lines first (line # ls) os = emit_lines False ls ((if first then os else os @ [CHR 0x0A]) @ line)"

definition print_Column :: "Column \<Rightarrow> string \<Rightarrow> string res option" where
  "print_Column col os = (case Column_begin col of
       Inl e \<Rightarrow> Some (Inl e)
     | Inr it \<Rightarrow> Option.bind (column_lines col it) (\<lambda>r. Some (bindE r (\<lambda>ls. Inr (emit_lines True ls os)))))"

subsection \<open>Columns side by side\<close>

type_synonym Columns = "Column list"

definition Column_plus :: "Column \<Rightarrow> Column \<Rightarrow> Columns" where
  "Column_plus this other = ([] @ [this]) @ [other]"

definition Columns_add :: "Columns \<Rightarrow> Column \<Rightarrow> Columns" where
  "Columns_add m_columns col = m_columns @ [col]"

definition Columns_plus :: "Columns \<Rightarrow> Column \<Rightarrow> Columns" where
  "Columns_plus this col = Columns_add this col"

definition Columns_begin :: "Columns \<Rightarrow> col_iter list res" where
  "Columns_begin m_columns = mapE Column_begin m_columns"

definition Columns_end :: "Columns \<Rightarrow> col_iter list" where
  "Columns_end m_columns = map Column_end m_columns"

definition row_step :: "Column \<times> col_iter \<Rightarrow> string \<times> string \<Rightarrow> (string \<times> string) res" where
  "row_step ci st =
     (let (m_column, it) = ci; (row, padding) = st; width = c_width m_column
      in if \<not> iter_eq it (Column_end m_column) then
           bindE (iter_deref m_column it) (\<lambda>col.
             Inr (row @ padding @ col, if length col < width then replicate (width - length col) (CHR '' '') else []))
         else Inr (row, padding @ replicate width (CHR '' '')))"

definition Columns_deref :: "Columns \<Rightarrow> col_iter list \<Rightarrow> string res" where
  "Columns_deref m_columns m_iterators =
     bindE (foldE row_step (zip m_columns m_iterators) ([], [])) (\<lambda>(row, padding). Inr row)"

definition Columns_incr :: "Columns \<Rightarrow> col_iter list \<Rightarrow> col_iter list" where
  "Columns_incr m_columns m_iterators =
     map (\<lambda>(m_column, it). if \<not> iter_eq it (Column_end m_column) then iter_incr m_column it else it)
       (zip m_columns m_iterators)"

partial_function (option) columns_lines :: "Columns \<Rightarrow> col_iter list \<Rightarrow> string list res option" where
  "columns_lines cols its =
     (if list_all2 iter_eq its (Columns_end cols) then Some (Inr [])
      else (case Columns_deref cols its of
              Inl e \<Rightarrow> Some (Inl e)
            | Inr line \<Rightarrow> Option.bind (columns_lines cols (Columns_incr cols its))
                (\<lambda>r. Some (bindE r (\<lambda>ls. Inr (line # ls))))))"

definition print_Columns :: "Columns \<Rightarrow> string \<Rightarrow> string res option" where
  "print_Columns cols os = (case Columns_begin cols of
       Inl e \<Rightarrow> Some (Inl e)
     | Inr its \<Rightarrow> Option.bind (columns_lines cols its) (\<lambda>r. Some (bindE r (\<lambda>ls. Inr (emit_lines True ls os)))))"

subsection \<open>The lines of a column\<close>

text \<open>At least two characters of text fit beside the indentation.\<close>

definition col_wide :: "Column \<Rightarrow> bool" where
  "col_wide col \<longleftrightarrow> (\<forall>p. iter_indent col p + 2 \<le> c_width col)"

text \<open>What holds of an iterator from its construction on.\<close>

definition good_iter :: "Column \<Rightarrow> col_iter \<Rightarrow> bool" where
  "good_iter col it \<longleftrightarrow> it_pos it \<le> length (c_string col) \<and>
     (it_pos it < length (c_string col) \<longrightarrow> calcLength col it = it)"

lemma find_end_bounds: "n \<le> length s \<Longrightarrow> n \<le> find_end s n \<and> find_end s n \<le> length s"
  by (induction s n rule: find_end.induct) (subst (1 2) find_end.simps, auto)

lemma find_end_more: "n < length s \<Longrightarrow> s ! n \<noteq> CHR 0x0A \<Longrightarrow> n < find_end s n"
  using find_end_bounds [of "Suc n" s] by (subst find_end.simps) simp

lemma back_to_boundary_le: "back_to_boundary s p n \<le> n"
  by (induction s p n rule: back_to_boundary.induct) auto

lemma back_over_white_le: "back_over_white s p n \<le> n"
  by (induction s p n rule: back_over_white.induct) auto

lemma calcLength_pos [simp]: "it_pos (calcLength col it) = it_pos it"
  by (simp add: calcLength_def Let_def)

lemma calcLength_again [simp]: "calcLength col (calcLength col it) = calcLength col it"
  by (simp add: calcLength_def Let_def)

lemma calcLength_bounds:
  assumes "col_wide col" and "it_pos it < length (c_string col)"
  defines "it1 \<equiv> calcLength col it"
  shows "0 < it_len it1" and "it_pos it + it_len it1 \<le> length (c_string col)" and "it_pos it \<le> it_end it1"
    and "iter_indent col (it_pos it) + it_len it1 + (if it_suffix it1 then 1 else 0) \<le> c_width col"
proof -
  let ?s = "c_string col" and ?p = "it_pos it"
  let ?from = "if char_at ?s ?p = CHR 0x0A then Suc ?p else ?p"
  define w where "w = c_width col - iter_indent col ?p"
  define e where "e = find_end ?s ?from"
  define n where "n = back_over_white ?s ?p (back_to_boundary ?s ?p w)"
  have it1: "it_len it1 = (if e < ?p + w then e - ?p else if 0 < n then n else w - 1)"
    "it_suffix it1 \<longleftrightarrow> \<not> e < ?p + w \<and> n = 0" "it_end it1 = e"
    unfolding it1_def calcLength_def Let_def w_def [symmetric] e_def [symmetric] n_def [symmetric] by simp_all
  have w: "2 \<le> w" "iter_indent col ?p + w = c_width col"
    using assms(1) by (auto simp: col_wide_def w_def dest: spec [of _ ?p])
  have e: "?p < e" "e \<le> length ?s"
    using assms(2) find_end_bounds [of ?from ?s] find_end_more [of ?p ?s] by (auto simp: char_at_def e_def)
  have n: "n \<le> w" unfolding n_def using back_over_white_le back_to_boundary_le by (rule order_trans)
  show "0 < it_len it1" "?p + it_len it1 \<le> length ?s" "?p \<le> it_end it1"
    "iter_indent col ?p + it_len it1 + (if it_suffix it1 then 1 else 0) \<le> c_width col"
    unfolding it1 using w e n by auto
qed

lemma good_iter_bounds:
  assumes "col_wide col" and "good_iter col it" and "it_pos it < length (c_string col)"
  shows "0 < it_len it" and "it_pos it + it_len it \<le> length (c_string col)" and "it_pos it \<le> it_end it"
    and "iter_indent col (it_pos it) + it_len it + (if it_suffix it then 1 else 0) \<le> c_width col"
  using calcLength_bounds [OF assms(1,3)] assms(2,3) by (simp_all add: good_iter_def)

lemma skip_white_bounds: "n \<le> length s \<Longrightarrow> n \<le> skip_white s n \<and> skip_white s n \<le> length s"
  by (induction s n rule: skip_white.induct) (subst (1 2) skip_white.simps, auto)

definition visible_text :: "string \<Rightarrow> string" where
  "visible_text s = filter (\<lambda>c. \<not> isWhitespace c) s"

lemma visible_append [simp]: "visible_text (s @ t) = visible_text s @ visible_text t"
  by (simp add: visible_text_def)

lemma visible_skip: "n < length s \<Longrightarrow> isWhitespace (s ! n) \<Longrightarrow> visible_text (drop (Suc n) s) = visible_text (drop n s)"
  by (simp add: visible_text_def Cons_nth_drop_Suc [symmetric])

lemma skip_white_visible: "visible_text (drop (skip_white s n) s) = visible_text (drop n s)"
  by (induction s n rule: skip_white.induct) (subst skip_white.simps, auto simp: visible_skip)

lemma iter_incr_good:
  assumes "col_wide col" and "good_iter col it" and "it_pos it < length (c_string col)"
  shows "good_iter col (iter_incr col it)" and "it_pos it < it_pos (iter_incr col it)"
    and "visible_text (drop (it_pos (iter_incr col it)) (c_string col)) =
      visible_text (drop (it_pos it + it_len it) (c_string col))"
proof -
  let ?s = "c_string col" and ?p = "it_pos it + it_len it"
  note b = good_iter_bounds [OF assms]
  have pos: "it_pos (iter_incr col it) = (if ?p < length ?s \<and> ?s ! ?p = CHR 0x0A then ?p + 1 else skip_white ?s ?p)"
    by (simp add: iter_incr_def Let_def)
  show "it_pos it < it_pos (iter_incr col it)"
    unfolding pos using b(1,2) skip_white_bounds [of ?p ?s] by auto
  show "visible_text (drop (it_pos (iter_incr col it)) ?s) = visible_text (drop ?p ?s)"
    unfolding pos using visible_skip [of ?p ?s] skip_white_visible [of ?s ?p] by (simp add: isWhitespace_def)
  have "it_pos (iter_incr col it) \<le> length ?s"
    unfolding pos using b(2) skip_white_bounds [of ?p ?s] by auto
  then show "good_iter col (iter_incr col it)"
    by (simp add: good_iter_def) (auto simp: iter_incr_def Let_def)
qed

text \<open>A printed line: its indentation, its piece of the text, and whether a word is cut in it.\<close>

definition line_of :: "nat \<times> string \<times> bool \<Rightarrow> string" where
  "line_of l = (case l of (ind, piece, hyphen) \<Rightarrow> replicate ind (CHR '' '') @ piece @ (if hyphen then ''-'' else []))"

lemma column_lines_spec:
  assumes "col_wide col" and "good_iter col it"
  shows "\<exists>ps. column_lines col it = Some (Inr (map line_of ps)) \<and>
    (\<forall>p \<in> set ps. length (line_of p) \<le> c_width col \<and> fst (snd p) \<noteq> []) \<and>
    visible_text (concat (map (fst \<circ> snd) ps)) = visible_text (drop (it_pos it) (c_string col))"
  using assms(2)
proof (induction "length (c_string col) - it_pos it" arbitrary: it rule: less_induct)
  case less
  let ?s = "c_string col"
  show ?case
  proof (cases "it_pos it < length ?s")
    case True
    note b = good_iter_bounds [OF assms(1) less.prems True]
    note i = iter_incr_good [OF assms(1) less.prems True]
    let ?piece = "take (it_len it) (drop (it_pos it) ?s)"
    let ?line = "(iter_indent col (it_pos it), ?piece, it_suffix it)"
    have "length ?s - it_pos (iter_incr col it) < length ?s - it_pos it" using i(2) True by simp
    from less.hyps [OF this i(1)] obtain ps where
      ps: "column_lines col (iter_incr col it) = Some (Inr (map line_of ps))"
      "\<forall>p \<in> set ps. length (line_of p) \<le> c_width col \<and> fst (snd p) \<noteq> []"
      "visible_text (concat (map (fst \<circ> snd) ps)) = visible_text (drop (it_pos (iter_incr col it)) ?s)" by blast
    have line: "iter_deref col it = Inr (line_of ?line)"
      using b(3) by (simp add: iter_deref_def addIndentAndSuffix_def line_of_def)
    have "column_lines col it = Some (Inr (map line_of (?line # ps)))"
      using True by (subst column_lines.simps) (simp add: iter_eq_def Column_end_def line ps(1))
    moreover have "length (line_of ?line) \<le> c_width col" using b by (simp add: line_of_def split: if_splits)
    moreover have "?piece \<noteq> []" using b(1) True by simp
    moreover have "visible_text ?piece @ visible_text (drop (it_pos it + it_len it) ?s) = visible_text (drop (it_pos it) ?s)"
      unfolding visible_append [symmetric] by (metis append_take_drop_id add.commute drop_drop)
    ultimately show ?thesis using ps(2,3) i(3) by (intro exI [of _ "?line # ps"]) auto
  next
    case False
    with less.prems have "it_pos it = length ?s" by (simp add: good_iter_def)
    then show ?thesis
      by (intro exI [of _ "[]"]) (subst column_lines.simps, simp add: iter_eq_def Column_end_def)
  qed
qed

lemma Column_begin_good:
  assumes "col_wide col"
  shows "\<exists>it. Column_begin col = Inr it \<and> good_iter col it \<and> visible_text (drop (it_pos it) (c_string col)) = visible_text (c_string col)"
proof -
  let ?it = "calcLength col \<lparr>it_pos = 0, it_len = 0, it_end = 0, it_suffix = False\<rparr>"
  have w: "c_indent col < c_width col" "\<And>i. c_initialIndent col = Some i \<Longrightarrow> i < c_width col"
    using assms unfolding col_wide_def iter_indent_def by (force dest: spec [of _ 1], force dest: spec [of _ 0])
  show ?thesis
  proof (cases "c_string col = []")
    case True
    with w show ?thesis
      by (cases "it_len ?it = 0") (auto simp: Column_begin_def good_iter_def split: option.splits)
  next
    case False
    then have "0 < it_len ?it" using calcLength_bounds(1) [OF assms, of "\<lparr>it_pos = 0, it_len = 0, it_end = 0, it_suffix = False\<rparr>"]
      by simp
    with w show ?thesis by (auto simp: Column_begin_def good_iter_def split: option.splits)
  qed
qed



text \<open>An iterator that stays where it is, before the end, keeps the loop going for ever.\<close>

lemma column_lines_stuck:
  assumes "iter_incr col it = it" and "it_pos it \<noteq> length (c_string col)" and "it_pos it \<le> it_end it"
  shows "column_lines col it = None"
proof -
  have "\<not> (iter_incr col it = it \<and> it_pos it \<noteq> length (c_string col) \<and> it_pos it \<le> it_end it)"
    if "column_lines col it = Some r" for r
    using that
  proof (rule column_lines.raw_induct [rotated])
    fix f col it r
    assume IH: "\<And>col it r. f col it = Some r \<Longrightarrow>
        \<not> (iter_incr col it = it \<and> it_pos it \<noteq> length (c_string col) \<and> it_pos it \<le> it_end it)"
      and run: "(if iter_eq it (Column_end col) then Some (Inr [])
        else case iter_deref col it of Inl e \<Rightarrow> Some (Inl e)
             | Inr line \<Rightarrow> Option.bind (f col (iter_incr col it)) (\<lambda>r. Some (bindE r (\<lambda>ls. Inr (line # ls))))) = Some r"
    show "\<not> (iter_incr col it = it \<and> it_pos it \<noteq> length (c_string col) \<and> it_pos it \<le> it_end it)"
    proof
      assume "iter_incr col it = it \<and> it_pos it \<noteq> length (c_string col) \<and> it_pos it \<le> it_end it"
      moreover from this run have "\<exists>r'. f col it = Some r'"
        by (auto simp: iter_eq_def Column_end_def iter_deref_def bind_eq_Some_conv)
      ultimately show False using IH by blast
    qed
  qed
  with assms show ?thesis by (cases "column_lines col it") auto
qed

text \<open>
  A column of one character. With room for one character only, the code prints nothing when the
  first word has two, and does not return when a later one has: the iterator keeps its position, as a
  word that does not fit gives a length of \<open>width - 1\<close>. The assertions of the constructor allow this.
\<close>

theorem narrow_column_never_ends:
  "print_Column \<lparr>c_string = ''bid'', c_width = Suc i, c_indent = i, c_initialIndent = None\<rparr> os = Some (Inr os) \<and>
   print_Column \<lparr>c_string = ''a bid'', c_width = Suc i, c_indent = i, c_initialIndent = None\<rparr> os = None"
proof
  let ?c = "\<lparr>c_string = ''bid'', c_width = Suc i, c_indent = i, c_initialIndent = None\<rparr>"
  have "find_end ''bid'' 0 = 3" by code_simp
  moreover have "\<not> isBoundary ''bid'' (Suc 0)" by code_simp
  ultimately have "Column_begin ?c = Inr \<lparr>it_pos = 3, it_len = 0, it_end = 3, it_suffix = True\<rparr>"
    by (simp add: Column_begin_def calcLength_def iter_indent_def char_at_def Let_def)
  then show "print_Column ?c os = Some (Inr os)"
    by (simp add: print_Column_def column_lines.simps iter_eq_def Column_end_def)
next
  let ?c = "\<lparr>c_string = ''a bid'', c_width = Suc i, c_indent = i, c_initialIndent = None\<rparr>"
  have "find_end ''a bid'' 0 = 5" "find_end ''a bid'' 2 = 5" "isBoundary ''a bid'' (Suc 0)"
    "\<not> isBoundary ''a bid'' (Suc 2)" "skip_white ''a bid'' 1 = 2" "skip_white ''a bid'' 2 = 2" by code_simp+
  note facts = this
  let ?first = "\<lparr>it_pos = 0, it_len = 1, it_end = 5, it_suffix = False\<rparr>"
  let ?stuck = "\<lparr>it_pos = 2, it_len = 0, it_end = 5, it_suffix = True\<rparr>"
  have first: "Column_begin ?c = Inr ?first"
    using facts by (simp add: Column_begin_def calcLength_def iter_indent_def char_at_def isWhitespace_def Let_def)
  have nxt: "iter_incr ?c ?first = ?stuck" and stuck: "iter_incr ?c ?stuck = ?stuck"
    using facts by (simp_all add: iter_incr_def calcLength_def iter_indent_def char_at_def Let_def numeral_2_eq_2 [symmetric])
  have "column_lines ?c ?stuck = None" by (rule column_lines_stuck [OF stuck]) simp_all
  then have "column_lines ?c ?first = None"
    using nxt by (subst column_lines.simps) (simp add: iter_eq_def Column_end_def iter_deref_def)
  then show "print_Column ?c os = None"
    using first by (simp add: print_Column_def)
qed

text \<open>Columns: one round of the loop over the iterators, and the rows.\<close>

lemma good_deref:
  assumes "col_wide col" and "good_iter col it" and "\<not> iter_eq it (Column_end col)"
  shows "\<exists>line. iter_deref col it = Inr line \<and> length line \<le> c_width col"
proof -
  from assms(2,3) have p: "it_pos it < length (c_string col)" by (auto simp: good_iter_def iter_eq_def Column_end_def)
  note b = good_iter_bounds [OF assms(1,2) p]
  then show ?thesis by (auto simp: iter_deref_def addIndentAndSuffix_def split: if_splits)
qed

lemma row_fold:
  assumes "list_all2 (\<lambda>col it. col_wide col \<and> good_iter col it) cols its"
  shows "\<exists>row' padding'. foldE row_step (zip cols its) (row, padding) = Inr (row', padding') \<and>
    length row' + length padding' \<le> length row + length padding + sum_list (map c_width cols)"
  using assms
proof (induction cols its arbitrary: row padding rule: list_all2_induct)
  case (Cons col cols it its)
  have "\<exists>r p. row_step (col, it) (row, padding) = Inr (r, p) \<and>
      length r + length p \<le> length row + length padding + c_width col"
    using good_deref [of col it] Cons.hyps(1) by (auto simp: row_step_def Let_def)
  then obtain r p where rp: "row_step (col, it) (row, padding) = Inr (r, p)"
    "length r + length p \<le> length row + length padding + c_width col" by blast
  from Cons.IH [of r p] rp show ?case by fastforce
qed simp

lemma row_bounds:
  assumes "list_all2 (\<lambda>col it. col_wide col \<and> good_iter col it) cols its"
  shows "\<exists>row. Columns_deref cols its = Inr row \<and> length row \<le> sum_list (map c_width cols)"
  using row_fold [OF assms, of "[]" "[]"] by (auto simp: Columns_deref_def)

definition text_left :: "Columns \<Rightarrow> col_iter list \<Rightarrow> nat" where
  "text_left cols its = sum_list (map (\<lambda>(col, it). length (c_string col) - it_pos it) (zip cols its))"

lemma Columns_incr_good:
  assumes "list_all2 (\<lambda>col it. col_wide col \<and> good_iter col it) cols its"
  shows "list_all2 (\<lambda>col it. col_wide col \<and> good_iter col it) cols (Columns_incr cols its) \<and>
    text_left cols (Columns_incr cols its) \<le> text_left cols its \<and>
    (\<not> list_all2 iter_eq its (Columns_end cols) \<longrightarrow> text_left cols (Columns_incr cols its) < text_left cols its)"
  using assms
proof (induction cols its rule: list_all2_induct)
  case Nil
  then show ?case by (simp add: Columns_incr_def Columns_end_def)
next
  case (Cons col cols it its)
  show ?case
  proof (cases "iter_eq it (Column_end col)")
    case True
    then show ?thesis using Cons by (simp add: Columns_incr_def Columns_end_def text_left_def)
  next
    case False
    then have p: "it_pos it < length (c_string col)" using Cons.hyps(1)
      by (auto simp: good_iter_def iter_eq_def Column_end_def)
    have "col_wide col" "good_iter col it" using Cons.hyps(1) by simp_all
    note i = iter_incr_good(1,2) [OF this p]
    have inc: "Columns_incr (col # cols) (it # its) = iter_incr col it # Columns_incr cols its"
      using False by (simp add: Columns_incr_def)
    have left: "text_left (col # cols) (x # xs) = (length (c_string col) - it_pos x) + text_left cols xs" for x xs
      by (simp add: text_left_def)
    have "length (c_string col) - it_pos (iter_incr col it) < length (c_string col) - it_pos it" using i(2) p by simp
    moreover have "text_left cols (Columns_incr cols its) \<le> text_left cols its" using Cons.IH by blast
    ultimately have "text_left (col # cols) (Columns_incr (col # cols) (it # its)) < text_left (col # cols) (it # its)"
      unfolding inc left by linarith
    moreover have "list_all2 (\<lambda>col it. col_wide col \<and> good_iter col it) (col # cols) (Columns_incr (col # cols) (it # its))"
      unfolding inc using i(1) Cons by simp
    ultimately show ?thesis by simp
  qed
qed

lemma columns_lines_spec:
  assumes "list_all2 (\<lambda>col it. col_wide col \<and> good_iter col it) cols its"
  shows "\<exists>rows. columns_lines cols its = Some (Inr rows) \<and>
    (\<forall>row \<in> set rows. length row \<le> sum_list (map c_width cols)) \<and> length rows \<le> text_left cols its"
  using assms
proof (induction "text_left cols its" arbitrary: its rule: less_induct)
  case less
  show ?case
  proof (cases "list_all2 iter_eq its (Columns_end cols)")
    case True
    then show ?thesis by (subst columns_lines.simps) simp
  next
    case False
    note n = Columns_incr_good [OF less.prems]
    from row_bounds [OF less.prems] obtain row where
      row: "Columns_deref cols its = Inr row" "length row \<le> sum_list (map c_width cols)" by blast
    from n False have fewer: "text_left cols (Columns_incr cols its) < text_left cols its" by blast
    from less.hyps [OF this] n obtain rows where
      "columns_lines cols (Columns_incr cols its) = Some (Inr rows)"
      "\<forall>row \<in> set rows. length row \<le> sum_list (map c_width cols)"
      "length rows \<le> text_left cols (Columns_incr cols its)" by blast
    then show ?thesis using False row fewer
      by (subst columns_lines.simps) (auto intro!: exI [of _ "row # rows"])
  qed
qed

lemma Columns_begin_good:
  assumes "list_all col_wide cols"
  shows "\<exists>its. Columns_begin cols = Inr its \<and> list_all2 (\<lambda>col it. col_wide col \<and> good_iter col it) cols its"
  using assms unfolding Columns_begin_def
proof (induction cols)
  case (Cons col cols)
  then show ?case using Column_begin_good [of col] by auto
qed simp

text \<open>
  Columns side by side. When every column has room for two characters beside its indentation,
  printing them next to each other ends without a failed assertion, after at most as many rows as the
  texts have characters together, and no row is wider than the columns together.
\<close>

theorem columns_print:
  assumes "list_all col_wide cols"
  shows "\<exists>rows. print_Columns cols os = Some (Inr (emit_lines True rows os)) \<and>
    (\<forall>row \<in> set rows. length row \<le> sum_list (map c_width cols)) \<and>
    length rows \<le> sum_list (map (length \<circ> c_string) cols)"
proof -
  from Columns_begin_good [OF assms] obtain its where its: "Columns_begin cols = Inr its"
    "list_all2 (\<lambda>col it. col_wide col \<and> good_iter col it) cols its" by blast
  have "text_left cols its \<le> sum_list (map (length \<circ> c_string) cols)"
    using its(2) by (induction rule: list_all2_induct) (auto simp: text_left_def)
  with columns_lines_spec [OF its(2)] its(1) show ?thesis
    by (fastforce simp: print_Columns_def)
qed

theorem columns_print_witness:
  "\<exists>rows. print_Columns [\<lparr>c_string = ''--verbosity'', c_width = 20, c_indent = 2, c_initialIndent = None\<rparr>,
      \<lparr>c_string = ''set output verbosity'', c_width = 12, c_indent = 0, c_initialIndent = Some 1\<rparr>] [] =
      Some (Inr (emit_lines True rows [])) \<and> (\<forall>row \<in> set rows. length row \<le> 32)"
proof -
  let ?cs = "[\<lparr>c_string = ''--verbosity'', c_width = 20, c_indent = 2, c_initialIndent = None\<rparr>,
      \<lparr>c_string = ''set output verbosity'', c_width = 12, c_indent = 0, c_initialIndent = Some 1\<rparr>]"
  have "list_all col_wide ?cs" by (simp add: col_wide_def iter_indent_def)
  from columns_print [OF this, of "[]"] show ?thesis by auto
qed

end
