(* ===== verification/Catch_Result.thy ===== *)
theory Catch_Result
  imports Catch_Test_Case
begin

section \<open>Counts, results and messages\<close>

text \<open>
  The values the run of a test is made of: \<open>Counts\<close> and \<open>Totals\<close>, the result of an assertion and the
  messages that go with it, and \<open>Capturer\<close>, which takes the arguments of the macro \<open>CAPTURE\<close> apart.
  A count is a \<open>size_t\<close>, a word of 64 bits; with the operators of the code counts form a group.
\<close>

subsection \<open>Counts\<close>

datatype Counts = Counts (passed: u64) (failed: u64) (failedButOk: u64)

instantiation Counts :: ab_group_add
begin

definition zero_Counts :: Counts where
  "0 = Counts 0 0 0"

definition plus_Counts :: "Counts \<Rightarrow> Counts \<Rightarrow> Counts" where
  "c + other = Counts (passed c + passed other) (failed c + failed other) (failedButOk c + failedButOk other)"

definition minus_Counts :: "Counts \<Rightarrow> Counts \<Rightarrow> Counts" where
  "c - other = Counts (passed c - passed other) (failed c - failed other) (failedButOk c - failedButOk other)"

definition uminus_Counts :: "Counts \<Rightarrow> Counts" where
  "- c = Counts (- passed c) (- failed c) (- failedButOk c)"

instance
  by standard (simp_all add: zero_Counts_def plus_Counts_def minus_Counts_def uminus_Counts_def)

end

definition counts_total :: "Counts \<Rightarrow> u64" where
  "counts_total c = passed c + failed c + failedButOk c"

definition allPassed :: "Counts \<Rightarrow> bool" where
  "allPassed c \<longleftrightarrow> failed c = 0 \<and> failedButOk c = 0"

definition allOk :: "Counts \<Rightarrow> bool" where
  "allOk c \<longleftrightarrow> failed c = 0"

text \<open>The three increments, \<open>++counts.passed\<close> and so on.\<close>

abbreviation one_passed :: Counts where "one_passed \<equiv> Counts 1 0 0"
abbreviation one_failed :: Counts where "one_failed \<equiv> Counts 0 1 0"
abbreviation one_failedButOk :: Counts where "one_failedButOk \<equiv> Counts 0 0 1"

lemma counts_sel [simp]:
  "passed 0 = 0" "failed 0 = 0" "failedButOk 0 = 0"
  "passed (c + d) = passed c + passed d" "failed (c + d) = failed c + failed d"
  "failedButOk (c + d) = failedButOk c + failedButOk d"
  "passed (c - d) = passed c - passed d" "failed (c - d) = failed c - failed d"
  "failedButOk (c - d) = failedButOk c - failedButOk d"
  by (simp_all add: zero_Counts_def plus_Counts_def minus_Counts_def)

lemma counts_eqI: "passed c = passed d \<Longrightarrow> failed c = failed d \<Longrightarrow> failedButOk c = failedButOk d \<Longrightarrow> c = d"
  by (cases c; cases d) simp

lemma counts_total_hom [simp]:
  "counts_total 0 = 0" "counts_total (c + d) = counts_total c + counts_total d"
  "counts_total (c - d) = counts_total c - counts_total d"
  by (simp_all add: counts_total_def algebra_simps)

datatype Totals = Totals (error: int) (assertions: Counts) (testCases: Counts)

definition no_totals :: Totals where
  "no_totals = Totals 0 0 0"

definition totals_minus :: "Totals \<Rightarrow> Totals \<Rightarrow> Totals" where
  "totals_minus t other = Totals 0 (assertions t - assertions other) (testCases t - testCases other)"

definition totals_plus :: "Totals \<Rightarrow> Totals \<Rightarrow> Totals" where
  "totals_plus t other = Totals (error t) (assertions t + assertions other) (testCases t + testCases other)"

definition totals_delta :: "Totals \<Rightarrow> Totals \<Rightarrow> Totals" where
  "totals_delta t prevTotals = (let diff = totals_minus t prevTotals in
     if failed (assertions diff) > 0 then Totals (error diff) (assertions diff) (testCases diff + one_failed)
     else if failedButOk (assertions diff) > 0 then Totals (error diff) (assertions diff) (testCases diff + one_failedButOk)
     else Totals (error diff) (assertions diff) (testCases diff + one_passed))"

subsection \<open>The result of an assertion\<close>

type_synonym enum_bits = "32 word"

definition FailureBit :: enum_bits where "FailureBit = 0x10"
definition ExceptionBits :: enum_bits where "ExceptionBits = 0x100 OR FailureBit"

datatype ResultWas = RW_Unknown | RW_Ok | RW_Info | RW_Warning | ExpressionFailed | ExplicitFailure
  | ThrewException | DidntThrowException | FatalErrorCondition

fun rw_bits :: "ResultWas \<Rightarrow> enum_bits" where
  "rw_bits RW_Unknown = - 1"
| "rw_bits RW_Ok = 0"
| "rw_bits RW_Info = 1"
| "rw_bits RW_Warning = 2"
| "rw_bits ExpressionFailed = FailureBit OR 1"
| "rw_bits ExplicitFailure = FailureBit OR 2"
| "rw_bits ThrewException = ExceptionBits OR 1"
| "rw_bits DidntThrowException = ExceptionBits OR 2"
| "rw_bits FatalErrorCondition = 0x200 OR FailureBit"

definition rw_isOk :: "ResultWas \<Rightarrow> bool" where
  "rw_isOk resultType \<longleftrightarrow> rw_bits resultType AND FailureBit = 0"

definition isJustInfo :: "enum_bits \<Rightarrow> bool" where
  "isJustInfo flags \<longleftrightarrow> flags = rw_bits RW_Info"

type_synonym ResultDisposition = enum_bits

definition RD_Normal :: ResultDisposition where "RD_Normal = 0x01"
definition RD_ContinueOnFailure :: ResultDisposition where "RD_ContinueOnFailure = 0x02"
definition RD_FalseTest :: ResultDisposition where "RD_FalseTest = 0x04"
definition RD_SuppressFail :: ResultDisposition where "RD_SuppressFail = 0x08"

lemmas RD_defs = RD_Normal_def RD_ContinueOnFailure_def RD_FalseTest_def RD_SuppressFail_def

definition shouldContinueOnFailure :: "enum_bits \<Rightarrow> bool" where
  "shouldContinueOnFailure flags \<longleftrightarrow> flags AND RD_ContinueOnFailure \<noteq> 0"

definition isFalseTest :: "enum_bits \<Rightarrow> bool" where
  "isFalseTest flags \<longleftrightarrow> flags AND RD_FalseTest \<noteq> 0"

definition shouldSuppressFailure :: "enum_bits \<Rightarrow> bool" where
  "shouldSuppressFailure flags \<longleftrightarrow> flags AND RD_SuppressFail \<noteq> 0"

text \<open>An expression of an assertion: its value, and the text \<open>streamReconstructedExpression\<close> writes.\<close>

record ITransientExpression =
  m_isBinaryExpression :: bool
  m_result :: bool
  te_text :: string

definition formatReconstructedExpression :: "string \<Rightarrow> string \<Rightarrow> string \<Rightarrow> string" where
  "formatReconstructedExpression lhs oper rhs =
     (if length lhs + length rhs < 40 \<and> CHR 0x0A \<notin> set lhs \<and> CHR 0x0A \<notin> set rhs
      then lhs @ '' '' @ oper @ '' '' @ rhs
      else lhs @ [CHR 0x0A] @ oper @ [CHR 0x0A] @ rhs)"

record LazyExpression =
  m_transientExpression :: "ITransientExpression option"
  m_isNegated :: bool

definition lazy_text :: "LazyExpression \<Rightarrow> string" where
  "lazy_text lazyExpr = (if m_isNegated lazyExpr then ''!'' else []) @
     (case m_transientExpression lazyExpr of
        Some e \<Rightarrow> if m_isNegated lazyExpr \<and> m_isBinaryExpression e then ''('' @ te_text e @ '')'' else te_text e
      | None \<Rightarrow> ''{** error - unchecked empty expression requested **}'')"

record AssertionInfo =
  ai_macroName :: string
  ai_lineInfo :: SourceLineInfo
  capturedExpression :: string
  resultDisposition :: ResultDisposition

record AssertionResultData =
  ad_message :: string
  reconstructedExpression :: string
  lazyExpression :: LazyExpression
  resultType :: ResultWas

definition new_AssertionResultData :: "ResultWas \<Rightarrow> LazyExpression \<Rightarrow> AssertionResultData" where
  "new_AssertionResultData rt lazy =
     \<lparr>ad_message = [], reconstructedExpression = [], lazyExpression = lazy, resultType = rt\<rparr>"

text \<open>The text of the expression; the code keeps it in the mutable field for the next call.\<close>

definition reconstructExpression :: "AssertionResultData \<Rightarrow> string \<times> AssertionResultData" where
  "reconstructExpression d =
     (let d1 = (if reconstructedExpression d = [] \<and> m_transientExpression (lazyExpression d) \<noteq> None
                then d\<lparr>reconstructedExpression := lazy_text (lazyExpression d)\<rparr> else d)
      in (reconstructedExpression d1, d1))"

record AssertionResult =
  ar_info :: AssertionInfo
  ar_resultData :: AssertionResultData

definition ar_succeeded :: "AssertionResult \<Rightarrow> bool" where
  "ar_succeeded r = rw_isOk (resultType (ar_resultData r))"

definition ar_isOk :: "AssertionResult \<Rightarrow> bool" where
  "ar_isOk r \<longleftrightarrow> rw_isOk (resultType (ar_resultData r)) \<or> shouldSuppressFailure (resultDisposition (ar_info r))"

definition getResultType :: "AssertionResult \<Rightarrow> ResultWas" where
  "getResultType r = resultType (ar_resultData r)"

definition hasExpression :: "AssertionResult \<Rightarrow> bool" where
  "hasExpression r \<longleftrightarrow> capturedExpression (ar_info r) \<noteq> []"

definition hasMessage :: "AssertionResult \<Rightarrow> bool" where
  "hasMessage r \<longleftrightarrow> ad_message (ar_resultData r) \<noteq> []"

definition getExpression :: "AssertionResult \<Rightarrow> string" where
  "getExpression r = (if isFalseTest (resultDisposition (ar_info r)) then ''!('' else []) @
     capturedExpression (ar_info r) @ (if isFalseTest (resultDisposition (ar_info r)) then '')'' else [])"

definition getExpressionInMacro :: "AssertionResult \<Rightarrow> string" where
  "getExpressionInMacro r = (if ai_macroName (ar_info r) = [] then capturedExpression (ar_info r)
     else ai_macroName (ar_info r) @ ''( '' @ capturedExpression (ar_info r) @ '' )'')"

definition getExpandedExpression :: "AssertionResult \<Rightarrow> string" where
  "getExpandedExpression r = (let expr = fst (reconstructExpression (ar_resultData r))
     in if expr = [] then getExpression r else expr)"

definition hasExpandedExpression :: "AssertionResult \<Rightarrow> bool" where
  "hasExpandedExpression r \<longleftrightarrow> hasExpression r \<and> getExpandedExpression r \<noteq> getExpression r"

subsection \<open>Messages\<close>

text \<open>A message is numbered by a counter of the whole process, an \<open>unsigned int\<close>.\<close>

record MessageInfo =
  mi_macroName :: string
  mi_message :: string
  mi_lineInfo :: SourceLineInfo
  mi_type :: ResultWas
  mi_sequence :: "32 word"

definition new_MessageInfo :: "string \<Rightarrow> SourceLineInfo \<Rightarrow> ResultWas \<Rightarrow> 32 word \<Rightarrow> MessageInfo \<times> 32 word" where
  "new_MessageInfo macro line ty globalCount =
     (\<lparr>mi_macroName = macro, mi_message = [], mi_lineInfo = line, mi_type = ty, mi_sequence = globalCount + 1\<rparr>,
      globalCount + 1)"

definition message_eq :: "MessageInfo \<Rightarrow> MessageInfo \<Rightarrow> bool" where
  "message_eq m other \<longleftrightarrow> mi_sequence m = mi_sequence other"

definition message_less :: "MessageInfo \<Rightarrow> MessageInfo \<Rightarrow> bool" where
  "message_less m other \<longleftrightarrow> mi_sequence m < mi_sequence other"

end
