(* ===== verification/Catch_Messages.thy ===== *)
theory Catch_Messages
  imports Catch_Result
begin

section \<open>Messages of the macro CAPTURE\<close>

text \<open>
  \<open>Capturer\<close> gets the text of the arguments of \<open>CAPTURE\<close> and makes one message for every argument. It
  skips commas in brackets, strings and character literals. A text is read through the indices of the
  code; \<open>StringRef::operator[]\<close> asserts that they are in bounds, and a \<open>pop\<close> of the empty stack of
  brackets is undefined.
\<close>

subsection \<open>The functions of the constructor\<close>

definition blank :: "char \<Rightarrow> bool" where
  "blank c \<longleftrightarrow> c = CHR '','' \<or> isspace c"

function skip_blank :: "string \<Rightarrow> nat \<Rightarrow> nat res" where
  "skip_blank names start =
     (if start < length names then (if blank (names ! start) then skip_blank names (Suc start) else Inr start)
      else Inl Assert_Failed)"
  by pat_completeness auto
termination by (relation "measure (\<lambda>(names, start). length names - start)") auto

fun back_blank :: "string \<Rightarrow> nat \<Rightarrow> nat res" where
  "back_blank names 0 = (if blank (names ! 0) then Inl Assert_Failed else Inr 0)"
| "back_blank names (Suc e) = (if blank (names ! Suc e) then back_blank names e else Inr (Suc e))"

definition trimmed :: "string \<Rightarrow> nat \<Rightarrow> nat \<Rightarrow> string res" where
  "trimmed names start fin = bindE (skip_blank names start) (\<lambda>s.
     bindE (if fin < length names then back_blank names fin else Inl Assert_Failed) (\<lambda>e.
       Inr (ref_substr names s (if s \<le> Suc e then Suc e - s else 2 ^ 64 - (s - Suc e)))))"

function skipq :: "string \<Rightarrow> nat \<Rightarrow> char \<Rightarrow> nat res" where
  "skipq names i quote =
     (if i < length names then
        (if names ! i = quote then Inr i
         else skipq names (Suc (if names ! i = CHR 0x5C then Suc i else i)) quote)
      else Inl Logic_Error)"
  by pat_completeness auto
termination by (relation "measure (\<lambda>(names, i, _). length names - i)") auto

declare skip_blank.simps [simp del] skipq.simps [simp del]

lemma skipq_ge: "skipq names i quote = Inr p \<Longrightarrow> i \<le> p"
proof (induction names i quote rule: skipq.induct)
  case (1 names i quote)
  from 1(2) have "names ! i = quote \<and> p = i \<or>
      i < length names \<and> names ! i \<noteq> quote \<and> skipq names (Suc (if names ! i = CHR 0x5C then Suc i else i)) quote = Inr p"
    by (subst (asm) skipq.simps) (simp split: if_split_asm)
  with 1(1) show ?case by (auto split: if_split_asm dest: Suc_leD)
qed

text \<open>The loop over the text: the start of the argument, the open brackets and the messages so far.\<close>

function capture_from :: "string \<Rightarrow> nat \<Rightarrow> nat \<Rightarrow> string \<Rightarrow> string list \<Rightarrow> (nat \<times> string \<times> string list) res" where
  "capture_from names pos start openings msgs =
     (if pos < length names then
        (let c = names ! pos
         in if c \<in> set ''[{('' then capture_from names (Suc pos) start (c # openings) msgs
            else if c \<in> set '']})'' then
              (if openings = [] then Inl Undefined else capture_from names (Suc pos) start (tl openings) msgs)
            else if c = CHR 0x22 \<or> c = CHR 0x27 then
              bindE (skipq names (Suc pos) c) (\<lambda>p. capture_from names (Suc p) start openings msgs)
            else if c = CHR '','' \<and> start \<noteq> pos \<and> openings = [] then
              bindE (trimmed names start pos) (\<lambda>t. capture_from names (Suc pos) pos openings (msgs @ [t @ '' := '']))
            else capture_from names (Suc pos) start openings msgs)
      else Inr (start, openings, msgs))"
  by pat_completeness auto
termination
  by (relation "measure (\<lambda>(names, pos, _). length names - pos)") (auto dest!: skipq_ge)

declare capture_from.simps [simp del]

record Capturer =
  cap_messages :: "MessageInfo list"
  m_captured :: nat

text \<open>The messages get the numbers of the counter in turn.\<close>

fun number_messages :: "string \<Rightarrow> SourceLineInfo \<Rightarrow> ResultWas \<Rightarrow> 32 word \<Rightarrow> string list \<Rightarrow> MessageInfo list \<times> 32 word" where
  "number_messages macro line ty globalCount [] = ([], globalCount)"
| "number_messages macro line ty globalCount (t # ts) =
     (let (m, g1) = new_MessageInfo macro line ty globalCount;
          (ms, g2) = number_messages macro line ty g1 ts
      in (m\<lparr>mi_message := t\<rparr> # ms, g2))"

definition new_Capturer :: "string \<Rightarrow> SourceLineInfo \<Rightarrow> ResultWas \<Rightarrow> string \<Rightarrow> 32 word \<Rightarrow> (Capturer \<times> 32 word) res" where
  "new_Capturer macro line ty names globalCount =
     bindE (capture_from names 0 0 [] []) (\<lambda>(start, openings, msgs).
       if openings \<noteq> [] then Inl Assert_Failed
       else bindE (trimmed names start (length names - 1)) (\<lambda>t.
         let (ms, g) = number_messages macro line ty globalCount (msgs @ [t @ '' := ''])
         in Inr (\<lparr>cap_messages = ms, m_captured = 0\<rparr>, g)))"

subsection \<open>The arguments are found\<close>

text \<open>
  The arguments as a grammar: characters, literals in quotes, and groups in brackets. Inside a group a
  comma is a character like any other; the kinds of the two brackets of a group need not agree.
\<close>

datatype carg = Ch char | Quoted char string | Group char "carg list" char

fun render :: "carg \<Rightarrow> string" where
  "render (Ch c) = [c]"
| "render (Quoted q s) = q # s @ [q]"
| "render (Group a as b) = a # concat (map render as) @ [b]"

abbreviation render_all :: "carg list \<Rightarrow> string" where
  "render_all as \<equiv> concat (map render as)"

fun literal_ok :: "char \<Rightarrow> string \<Rightarrow> bool" where
  "literal_ok q [] \<longleftrightarrow> True"
| "literal_ok q (c # cs) \<longleftrightarrow> c \<noteq> q \<and>
     (if c = CHR 0x5C then cs \<noteq> [] \<and> literal_ok q (tl cs) else literal_ok q cs)"

fun carg_ok :: "bool \<Rightarrow> carg \<Rightarrow> bool" where
  "carg_ok inner (Ch c) \<longleftrightarrow> c \<notin> set ''[{()}]'' \<and> c \<noteq> CHR 0x22 \<and> c \<noteq> CHR 0x27 \<and> (c = CHR '','' \<longrightarrow> inner)"
| "carg_ok inner (Quoted q s) \<longleftrightarrow> (q = CHR 0x22 \<or> q = CHR 0x27) \<and> literal_ok q s"
| "carg_ok inner (Group a as b) \<longleftrightarrow> a \<in> set ''[{('' \<and> b \<in> set '']})'' \<and> list_all (carg_ok True) as"

lemma skipq_literal:
  assumes "literal_ok q s"
  shows "skipq (pre @ s @ q # post) (length pre) q = Inr (length pre + length s)"
  using assms
proof (induction q s arbitrary: pre rule: literal_ok.induct)
  case (1 q)
  then show ?case by (simp add: skipq.simps)
next
  case (2 q c cs)
  show ?case
  proof (cases "c = CHR 0x5C")
    case True
    with 2(3) obtain d ds where cs: "cs = d # ds" "literal_ok q ds" "c \<noteq> q" by (cases cs) auto
    with 2(1) [OF True, of "pre @ [c, d]"] True show ?thesis
      by (subst skipq.simps) (simp add: nth_append)
  next
    case False
    with 2(3) have "literal_ok q cs" "c \<noteq> q" by auto
    with 2(2) [OF False, of "pre @ [c]"] False show ?thesis
      by (subst skipq.simps) (simp add: nth_append)
  qed
qed

text \<open>The loop passes an argument and the brackets are as before.\<close>

lemma capture_passes:
  "carg_ok inner a \<Longrightarrow> inner = (openings \<noteq> []) \<Longrightarrow> names = pre @ render a @ post \<Longrightarrow>
     capture_from names (length pre) start openings msgs =
     capture_from names (length pre + length (render a)) start openings msgs"
proof (induction a arbitrary: inner pre post openings)
  case (Ch c)
  then show ?case by (subst capture_from.simps) (auto simp: Let_def)
next
  case (Quoted q s)
  then have "skipq names (Suc (length pre)) q = Inr (Suc (length pre) + length s)"
    using skipq_literal [of q s "pre @ [q]" post] by simp
  with Quoted show ?case by (subst capture_from.simps) (auto simp: Let_def)
next
  case (Group a as b)
  have all: "list_all (carg_ok True) bs \<Longrightarrow> set bs \<subseteq> set as \<Longrightarrow> names = p @ render_all bs @ q \<Longrightarrow>
      capture_from names (length p) start (a # openings) msgs =
      capture_from names (length p + length (render_all bs)) start (a # openings) msgs" for bs p q
  proof (induction bs arbitrary: p)
    case (Cons x bs)
    from Group.IH [of x True "a # openings" p "render_all bs @ q"] Cons.prems
    have "capture_from names (length p) start (a # openings) msgs =
        capture_from names (length p + length (render x)) start (a # openings) msgs" by simp
    also have "\<dots> = capture_from names (length p + length (render_all (x # bs))) start (a # openings) msgs"
      using Cons.IH [of "p @ render x"] Cons.prems by (simp add: algebra_simps)
    finally show ?case .
  qed simp
  have opn: "capture_from names (length pre) start openings msgs =
      capture_from names (Suc (length pre)) start (a # openings) msgs"
    using Group.prems by (subst capture_from.simps) (auto simp: Let_def)
  also have "\<dots> = capture_from names (Suc (length pre) + length (render_all as)) start (a # openings) msgs"
    using all [of as "pre @ [a]" "b # post"] Group.prems by simp
  also have "\<dots> = capture_from names (length pre + length (render (Group a as b))) start openings msgs"
  proof -
    have at: "names ! (Suc (length pre) + length (render_all as)) = b"
      using Group.prems(3) by (simp add: nth_append)
    show ?thesis using Group.prems at by (subst capture_from.simps) (auto simp: Let_def)
  qed
  finally show ?case .
qed

lemma capture_passes_all:
  assumes "list_all (carg_ok False) as" and "names = pre @ render_all as @ post"
  shows "capture_from names (length pre) start [] msgs =
    capture_from names (length pre + length (render_all as)) start [] msgs"
  using assms
proof (induction as arbitrary: pre)
  case (Cons x as)
  from capture_passes [of False x "[]" names pre "render_all as @ post"] Cons.prems
  have "capture_from names (length pre) start [] msgs =
      capture_from names (length pre + length (render x)) start [] msgs" by simp
  also have "\<dots> = capture_from names (length pre + length (render_all (x # as))) start [] msgs"
    using Cons.IH [of "pre @ render x"] Cons.prems by (simp add: algebra_simps)
  finally show ?case .
qed simp

lemma skip_blank_to:
  assumes "list_all blank w" and "body \<noteq> []" and "\<not> blank (hd body)"
  shows "skip_blank (pre @ w @ body @ rest) (length pre) = Inr (length pre + length w)"
  using assms
proof (induction w arbitrary: pre)
  case Nil
  then show ?case by (cases body) (simp_all add: skip_blank.simps)
next
  case (Cons c w)
  from Cons.IH [of "pre @ [c]"] Cons.prems show ?case by (subst skip_blank.simps) simp
qed

lemma back_blank_to:
  assumes "list_all blank w" and "xs \<noteq> []" and "\<not> blank (last xs)"
  shows "back_blank (xs @ w @ rest) (length xs + length w - 1) = Inr (length xs - 1)"
  using assms
proof (induction w arbitrary: rest rule: rev_induct)
  case Nil
  then obtain k where "length xs = Suc k" by (cases xs) auto
  with Nil show ?case by (cases k) (simp_all add: nth_append last_conv_nth)
next
  case (snoc c w)
  from snoc.IH [of "c # rest"] snoc.prems
  have "back_blank (xs @ w @ c # rest) (length xs + length w - 1) = Inr (length xs - 1)" by simp
  moreover obtain k where k: "length xs + length w = Suc k" using snoc.prems(2) by (cases xs) auto
  moreover have "(xs @ w @ c # rest) ! Suc k = c" unfolding k [symmetric]
    by (metis append_assoc length_append nth_append_length)
  ultimately show ?case using snoc.prems by simp
qed

lemma trimmed_to:
  assumes "list_all blank w" and "list_all blank w'" and "body \<noteq> []" and "\<not> blank (hd body)" and "\<not> blank (last body)"
  shows "trimmed (pre @ w @ body @ w' @ rest) (length pre) (length pre + length w + length body + length w' - 1) = Inr body"
proof -
  have "skip_blank (pre @ w @ body @ w' @ rest) (length pre) = Inr (length pre + length w)"
    using assms by (intro skip_blank_to)
  moreover have "back_blank ((pre @ w @ body) @ w' @ rest) (length (pre @ w @ body) + length w' - 1)
      = Inr (length (pre @ w @ body) - 1)"
    using assms by (intro back_blank_to) auto
  moreover obtain n where "length body = Suc n" using assms(3) by (cases body) auto
  ultimately show ?thesis by (simp add: trimmed_def ref_substr_def algebra_simps)
qed

text \<open>An argument with the spaces around it.\<close>

type_synonym capture_arg = "string \<times> carg list \<times> string"

fun arg_text :: "capture_arg \<Rightarrow> string" where
  "arg_text (w, as, w') = w @ render_all as @ w'"

fun arg_body :: "capture_arg \<Rightarrow> string" where
  "arg_body (w, as, w') = render_all as"

fun arg_ok :: "capture_arg \<Rightarrow> bool" where
  "arg_ok (w, as, w') \<longleftrightarrow> list_all isspace w \<and> list_all isspace w' \<and> list_all (carg_ok False) as \<and>
     as \<noteq> [] \<and> \<not> isspace (hd (render_all as)) \<and> \<not> isspace (last (render_all as))"

fun join_args :: "capture_arg list \<Rightarrow> string" where
  "join_args [] = []"
| "join_args [a] = arg_text a"
| "join_args (a # as) = arg_text a @ '','' @ join_args as"

lemma render_nonempty [simp]: "render a \<noteq> []"
  by (cases a) simp_all

lemma outer_ends: "carg_ok False a \<Longrightarrow> hd (render a) \<noteq> CHR '','' \<and> last (render a) \<noteq> CHR '',''"
  by (cases a) auto

lemma body_ends:
  assumes "list_all (carg_ok False) as" and "as \<noteq> []"
  shows "render_all as \<noteq> [] \<and> hd (render_all as) \<noteq> CHR '','' \<and> last (render_all as) \<noteq> CHR '',''"
proof -
  obtain x xs where 1: "as = x # xs" using assms(2) by (cases as) auto
  obtain y ys where 2: "as = ys @ [y]" using assms(2) by (cases as rule: rev_cases) auto
  have "hd (render_all as) = hd (render x)" using 1 by simp
  moreover have "last (render_all as) = last (render y)" using 2 by simp
  moreover have "carg_ok False x" "render_all as \<noteq> []" using assms(1) 1 by simp_all
  moreover have "carg_ok False y" using assms(1) 2 by simp
  ultimately show ?thesis using outer_ends [of x] outer_ends [of y] by simp
qed

lemma spaces_pass: "list_all isspace w \<Longrightarrow> list_all (carg_ok False) (map Ch w)"
  by (induction w) (auto simp: isspace_def)

lemma render_chars [simp]: "concat (map (render \<circ> Ch) w) = w"
  by (induction w) simp_all

lemma arg_passes:
  assumes "arg_ok a" and "names = pre @ arg_text a @ post"
  shows "capture_from names (length pre) start [] msgs =
    capture_from names (length pre + length (arg_text a)) start [] msgs"
proof -
  obtain w as w' where a: "a = (w, as, w')" by (cases a)
  have "list_all (carg_ok False) (map Ch w @ as @ map Ch w')" using assms(1) a by (auto intro: spaces_pass)
  from capture_passes_all [OF this, of names pre post] assms(2) a show ?thesis by simp
qed

lemma arg_trimmed:
  assumes "arg_ok a" and "list_all blank w" and "list_all blank w'"
    and "names = pre @ w @ arg_text a @ w' @ rest" and "fin = length pre + length w + length (arg_text a) + length w' - 1"
  shows "trimmed names (length pre) fin = Inr (arg_body a)"
proof -
  obtain v as v' where a: "a = (v, as, v')" by (cases a)
  have blanks: "list_all blank (w @ v)" "list_all blank (v' @ w')"
    using assms(1-3) a by (auto simp: blank_def elim: list.pred_mono_strong)
  have ends: "render_all as \<noteq> []" "\<not> blank (hd (render_all as))" "\<not> blank (last (render_all as))"
    using assms(1) body_ends [of as] a by (auto simp: blank_def)
  from trimmed_to [OF blanks ends, of pre rest] assms(4,5) a show ?thesis by (simp add: algebra_simps)
qed

lemma capture_args:
  assumes "list_all arg_ok as" and "as \<noteq> []" and "names = pre @ sep @ join_args as" and "sep = [] \<or> sep = '',''"
  shows "\<exists>start'. capture_from names (length pre + length sep) (length pre) [] msgs =
      Inr (start', [], msgs @ map (\<lambda>a. arg_body a @ '' := '') (butlast as)) \<and>
    trimmed names start' (length names - 1) = Inr (arg_body (last as))"
  using assms
proof (induction as arbitrary: pre sep msgs rule: join_args.induct)
  case (2 a)
  have sep: "list_all blank sep" using 2(4) by (auto simp: blank_def)
  have "capture_from names (length (pre @ sep)) (length pre) [] msgs =
      capture_from names (length (pre @ sep) + length (arg_text a)) (length pre) [] msgs"
    by (rule arg_passes [where post = "[]"]) (use 2 in auto)
  also have "\<dots> = Inr (length pre, [], msgs)" using 2(3) by (subst capture_from.simps) simp
  moreover have "trimmed names (length pre) (length names - 1) = Inr (arg_body a)"
    by (rule arg_trimmed [where w = sep and w' = "[]" and rest = "[]"]) (use 2 sep in auto)
  ultimately show ?case by simp
next
  case (3 a b as)
  have sep: "list_all blank sep" using 3(5) by (auto simp: blank_def)
  let ?pre = "pre @ sep @ arg_text a"
  have names: "names = ?pre @ '','' @ join_args (b # as)" using 3(4) by simp
  have "arg_text a \<noteq> []" using 3(2) body_ends by (cases a) auto
  then have ne: "length pre \<noteq> length ?pre" by simp
  have at: "names ! length ?pre = CHR '',''" unfolding names by (simp only: nth_append_length append_Cons)
  have "capture_from names (length pre + length sep) (length pre) [] msgs =
      capture_from names (length ?pre) (length pre) [] msgs"
    using arg_passes [of a names "pre @ sep" "'','' @ join_args (b # as)" "length pre" msgs] 3(2) names
    by (simp add: algebra_simps)
  also have "\<dots> = bindE (trimmed names (length pre) (length ?pre))
      (\<lambda>t. capture_from names (Suc (length ?pre)) (length ?pre) [] (msgs @ [t @ '' := '']))"
    using at ne names by (subst capture_from.simps) (simp add: Let_def)
  also have "trimmed names (length pre) (length ?pre) = Inr (arg_body a)"
    by (rule arg_trimmed [where w = sep and w' = "'',''" and rest = "join_args (b # as)"])
      (use 3 sep in \<open>auto simp: blank_def\<close>)
  finally have step: "capture_from names (length pre + length sep) (length pre) [] msgs =
      capture_from names (length ?pre + length '','') (length ?pre) [] (msgs @ [arg_body a @ '' := ''])" by simp
  from 3(1) [OF _ _ names, of "msgs @ [arg_body a @ '' := '']"] 3(2) obtain start' where
    "capture_from names (length ?pre + length '','') (length ?pre) [] (msgs @ [arg_body a @ '' := '']) =
      Inr (start', [], (msgs @ [arg_body a @ '' := '']) @ map (\<lambda>a. arg_body a @ '' := '') (butlast (b # as)))"
    "trimmed names start' (length names - 1) = Inr (arg_body (last (b # as)))" by auto
  with step show ?case by (intro exI [of _ start']) simp
qed simp

lemma number_messages_texts: "map mi_message (fst (number_messages macro line ty g ts)) = ts"
proof (induction ts arbitrary: g)
  case (Cons t ts)
  from Cons.IH [of "g + 1"] show ?case
    by (cases "number_messages macro line ty (g + 1) ts") (simp add: new_MessageInfo_def Let_def)
qed simp

text \<open>
  A list of arguments that may have commas in brackets, strings and character literals, and spaces
  around them, is taken apart into exactly these arguments: there is a message for every argument, in
  the order of the source, with the text of the argument.
\<close>

theorem capture_finds_arguments:
  assumes "list_all arg_ok as" and "as \<noteq> []"
  shows "\<exists>c g. new_Capturer macro line ty (join_args as) globalCount = Inr (c, g) \<and>
    map mi_message (cap_messages c) = map (\<lambda>a. arg_body a @ '' := '') as \<and> m_captured c = 0"
proof -
  from capture_args [OF assms, of "join_args as" "[]" "[]" "[]"] obtain start' where
    "capture_from (join_args as) 0 0 [] [] = Inr (start', [], map (\<lambda>a. arg_body a @ '' := '') (butlast as))"
    "trimmed (join_args as) start' (length (join_args as) - 1) = Inr (arg_body (last as))" by auto
  moreover have "map (\<lambda>a. arg_body a @ '' := '') (butlast as) @ [arg_body (last as) @ '' := ''] =
      map (\<lambda>a. arg_body a @ '' := '') as"
    using assms(2) by (metis (no_types, lifting) append_butlast_last_id list.simps(8) list.simps(9) map_append)
  ultimately show ?thesis
    using number_messages_texts [of macro line ty globalCount "map (\<lambda>a. arg_body a @ '' := '') as"]
    by (cases "number_messages macro line ty globalCount (map (\<lambda>a. arg_body a @ '' := '') as)")
      (simp add: new_Capturer_def)
qed

theorem capture_finds_arguments_witness:
  "\<exists>c g. new_Capturer ''CAPTURE'' \<lparr>li_file = ''t.cpp'', li_line = 1\<rparr> RW_Info ''f(a, b), c'' 0 = Inr (c, g) \<and>
    map mi_message (cap_messages c) = [''f(a, b) := '', ''c := '']"
proof -
  let ?as = "[([], [Ch (CHR ''f''), Group (CHR ''('') (map Ch ''a, b'') (CHR '')'')], []), ('' '', [Ch (CHR ''c'')], [])]"
  have "list_all arg_ok ?as" by (simp add: isspace_def)
  from capture_finds_arguments [OF this, of "''CAPTURE''" "\<lparr>li_file = ''t.cpp'', li_line = 1\<rparr>" RW_Info 0]
  show ?thesis by auto
qed

text \<open>A bracket that closes nothing, or an empty list of arguments, is not a message but a crash.\<close>

lemma capture_unbalanced: "new_Capturer macro line ty ''a)'' g = Inl Undefined"
  by (simp add: new_Capturer_def capture_from.simps)

lemma capture_nothing: "new_Capturer macro line ty [] g = Inl Assert_Failed"
  by (simp add: new_Capturer_def capture_from.simps trimmed_def skip_blank.simps)

end
