(* ===== verification/Catch_Config.thy ===== *)
theory Catch_Config
  imports Complex_Main Catch_Registry Catch_Result
begin

section \<open>The configuration\<close>

text \<open>
  \<open>ConfigData\<close> with its defaults, and \<open>Config\<close>, which trims the test specifications and sections it is
  given and parses the specifications. A \<open>double\<close> is a real number; the time of a benchmark is a number
  of milliseconds.
\<close>

datatype Verbosity = Quiet | Verbosity_Normal | High

type_synonym WarnAbout = "32 word"

definition WarnAbout_Nothing :: WarnAbout where "WarnAbout_Nothing = 0x00"
definition WarnAbout_NoAssertions :: WarnAbout where "WarnAbout_NoAssertions = 0x01"
definition WarnAbout_NoTests :: WarnAbout where "WarnAbout_NoTests = 0x02"

datatype ShowDurations = DefaultForReporter | Always | Durations_Never

datatype UseColour = Colour_Auto | Colour_Yes | Colour_No

type_synonym WaitForKeypress = "32 word"

definition Keypress_Never :: WaitForKeypress where "Keypress_Never = 0"
definition BeforeStart :: WaitForKeypress where "BeforeStart = 1"
definition BeforeExit :: WaitForKeypress where "BeforeExit = 2"
definition BeforeStartAndExit :: WaitForKeypress where "BeforeStartAndExit = BeforeStart OR BeforeExit"

record ConfigData =
  cd_listTests :: bool
  cd_listTags :: bool
  cd_listReporters :: bool
  showSuccessfulTests :: bool
  cd_shouldDebugBreak :: bool
  noThrow :: bool
  cd_showHelp :: bool
  cd_showInvisibles :: bool
  filenamesAsTags :: bool
  libIdentify :: bool
  cd_abortAfter :: int
  cd_rngSeed :: u32
  cd_benchmarkNoAnalysis :: bool
  cd_benchmarkSamples :: u32
  cd_benchmarkConfidenceInterval :: real
  cd_benchmarkResamples :: u32
  cd_benchmarkWarmupTime :: int
  cd_verbosity :: Verbosity
  cd_warnings :: WarnAbout
  cd_showDurations :: ShowDurations
  cd_minDuration :: real
  cd_runOrder :: TestRunOrder
  cd_useColour :: UseColour
  waitForKeypress :: WaitForKeypress
  outputFilename :: string
  cd_name :: string
  processName :: string
  reporterName :: string
  testsOrTags :: "string list"
  sectionsToRun :: "string list"

definition default_ConfigData :: ConfigData where
  "default_ConfigData = \<lparr>
     cd_listTests = False, cd_listTags = False, cd_listReporters = False,
     showSuccessfulTests = False, cd_shouldDebugBreak = False, noThrow = False, cd_showHelp = False,
     cd_showInvisibles = False, filenamesAsTags = False, libIdentify = False,
     cd_abortAfter = -1, cd_rngSeed = 0,
     cd_benchmarkNoAnalysis = False, cd_benchmarkSamples = 100, cd_benchmarkConfidenceInterval = 95 / 100,
     cd_benchmarkResamples = 100000, cd_benchmarkWarmupTime = 100,
     cd_verbosity = Verbosity_Normal, cd_warnings = WarnAbout_Nothing, cd_showDurations = DefaultForReporter,
     cd_minDuration = -1, cd_runOrder = Declared, cd_useColour = Colour_Auto, waitForKeypress = Keypress_Never,
     outputFilename = [], cd_name = [], processName = [], reporterName = ''console'',
     testsOrTags = [], sectionsToRun = []\<rparr>"

record Config =
  m_data :: ConfigData
  cf_testSpec :: TestSpec
  m_hasTestFilters :: bool

definition new_Config :: "TagAliasRegistry \<Rightarrow> ConfigData \<Rightarrow> Config res" where
  "new_Config aliases data =
     (let d = data\<lparr>testsOrTags := map trim (testsOrTags data), sectionsToRun := map trim (sectionsToRun data)\<rparr>
      in bindE (foldE parser_parse (testsOrTags d) (new_TestSpecParser aliases)) (\<lambda>parser.
           Inr \<lparr>m_data = d, cf_testSpec = parser_testSpec parser, m_hasTestFilters = (testsOrTags d \<noteq> [])\<rparr>))"

definition allowThrows :: "Config \<Rightarrow> bool" where
  "allowThrows c \<longleftrightarrow> \<not> noThrow (m_data c)"

definition config_name :: "Config \<Rightarrow> string" where
  "config_name c = (if cd_name (m_data c) = [] then processName (m_data c) else cd_name (m_data c))"

definition includeSuccessfulResults :: "Config \<Rightarrow> bool" where
  "includeSuccessfulResults c = showSuccessfulTests (m_data c)"

definition warnAboutMissingAssertions :: "Config \<Rightarrow> bool" where
  "warnAboutMissingAssertions c \<longleftrightarrow> cd_warnings (m_data c) AND WarnAbout_NoAssertions \<noteq> 0"

definition warnAboutNoTests :: "Config \<Rightarrow> bool" where
  "warnAboutNoTests c \<longleftrightarrow> cd_warnings (m_data c) AND WarnAbout_NoTests \<noteq> 0"

definition shouldDebugBreak :: "Config \<Rightarrow> bool" where
  "shouldDebugBreak c = cd_shouldDebugBreak (m_data c)"

definition abortAfter :: "Config \<Rightarrow> int" where
  "abortAfter c = cd_abortAfter (m_data c)"

definition getSectionsToRun :: "Config \<Rightarrow> string list" where
  "getSectionsToRun c = sectionsToRun (m_data c)"

text \<open>The part of the configuration the registry asks for.\<close>

definition registry_config :: "Config \<Rightarrow> run_config" where
  "registry_config c = \<lparr>cf_runOrder = cd_runOrder (m_data c), cf_rngSeed = cd_rngSeed (m_data c),
     cf_allowThrows = allowThrows c\<rparr>"

end
