(* ===== verification/Catch_Run_Context.thy ===== *)
theory Catch_Run_Context
  imports Catch_Config Catch_Messages Catch_Tracker
begin

section \<open>The run context\<close>

text \<open>
  \<open>RunContext\<close> runs the test cases: it drives the trackers, counts the assertions and tells the reporter
  what happens. The reporter is the list of the calls it got. The address of a tracker stands for the
  pointer to it. The body of a test is code of the user; here it is a list of statements, each of them
  what one of the macros of the test framework expands to. Time is left out.
\<close>

subsection \<open>What the reporter is told\<close>

record SectionInfo =
  si_name :: string
  si_lineInfo :: SourceLineInfo

record SectionEndInfo =
  se_sectionInfo :: SectionInfo
  prevAssertions :: Counts

record AssertionStats =
  as_assertionResult :: AssertionResult
  infoMessages :: "MessageInfo list"
  as_totals :: Totals

record SectionStats =
  ss_sectionInfo :: SectionInfo
  ss_assertions :: Counts
  missingAssertions :: bool

record TestCaseStats =
  tc_testInfo :: TestCaseInfo
  tc_totals :: Totals
  tc_stdOut :: string
  tc_stdErr :: string
  tc_aborting :: bool

record GroupInfo =
  gi_name :: string
  groupIndex :: nat
  groupsCounts :: nat

record TestGroupStats =
  tg_groupInfo :: GroupInfo
  tg_totals :: Totals
  tg_aborting :: bool

record TestRunStats =
  tr_runName :: string
  tr_totals :: Totals
  tr_aborting :: bool

datatype reporter_event =
    Ev_noMatchingTestCases string
  | Ev_reportInvalidArguments string
  | Ev_testRunStarting string
  | Ev_testGroupStarting GroupInfo
  | Ev_testCaseStarting TestCaseInfo
  | Ev_sectionStarting SectionInfo
  | Ev_benchmarkPreparing string
  | Ev_benchmarkFailed string
  | Ev_assertionStarting AssertionInfo
  | Ev_assertionEnded AssertionStats
  | Ev_sectionEnded SectionStats
  | Ev_testCaseEnded TestCaseStats
  | Ev_testGroupEnded TestGroupStats
  | Ev_testRunEnded TestRunStats
  | Ev_skipTest TestCaseInfo
  | Ev_fatalErrorEncountered string

subsection \<open>The state\<close>

record 'g RunContext =
  m_totals :: Totals
  m_trackerContext :: "'g TrackerContext"
  m_testCaseTracker :: "addr option"
  m_lastResult :: "AssertionResult option"
  m_activeTestCase :: "TestCaseInfo option"
  m_messages :: "MessageInfo list"
  m_messageScopes :: "MessageInfo list"
  m_lastAssertionInfo :: AssertionInfo
  m_unfinishedSections :: "SectionEndInfo list"
  m_activeSections :: "addr list"
  m_lastAssertionPassed :: bool
  m_shouldReportUnexpected :: bool
  m_includeSuccessfulResults :: bool
  m_reported :: "reporter_event list"
  globalCount :: "32 word"
  rc_rng :: u64

definition report :: "reporter_event \<Rightarrow> 'g RunContext \<Rightarrow> 'g RunContext" where
  "report e rc = rc\<lparr>m_reported := m_reported rc @ [e]\<rparr>"

definition new_RunContext :: "Config \<Rightarrow> bool \<Rightarrow> 32 word \<Rightarrow> u64 \<Rightarrow> 'g RunContext" where
  "new_RunContext config shouldReportAllAssertions messageCount rng = report (Ev_testRunStarting (config_name config))
     \<lparr>m_totals = no_totals, m_trackerContext = new_TrackerContext, m_testCaseTracker = None, m_lastResult = None,
      m_activeTestCase = None, m_messages = [], m_messageScopes = [],
      m_lastAssertionInfo = \<lparr>ai_macroName = [], ai_lineInfo = \<lparr>li_file = [], li_line = 0\<rparr>, capturedExpression = [],
        resultDisposition = RD_Normal\<rparr>,
      m_unfinishedSections = [], m_activeSections = [], m_lastAssertionPassed = False,
      m_shouldReportUnexpected = True,
      m_includeSuccessfulResults = (includeSuccessfulResults config \<or> shouldReportAllAssertions),
      m_reported = [], globalCount = messageCount, rc_rng = rng\<rparr>"

definition aborting :: "Config \<Rightarrow> 'g RunContext \<Rightarrow> bool" where
  "aborting config rc \<longleftrightarrow> failed (assertions (m_totals rc)) \<ge> word_of_int (abortAfter config)"

definition delete_RunContext :: "Config \<Rightarrow> 'g RunContext \<Rightarrow> 'g RunContext" where
  "delete_RunContext config rc = report (Ev_testRunEnded
     \<lparr>tr_runName = config_name config, tr_totals = m_totals rc, tr_aborting = aborting config rc\<rparr>) rc"

definition testGroupStarting :: "string \<Rightarrow> nat \<Rightarrow> nat \<Rightarrow> 'g RunContext \<Rightarrow> 'g RunContext" where
  "testGroupStarting testSpec gindex gcount rc =
     report (Ev_testGroupStarting \<lparr>gi_name = testSpec, groupIndex = gindex, groupsCounts = gcount\<rparr>) rc"

definition testGroupEnded :: "Config \<Rightarrow> string \<Rightarrow> Totals \<Rightarrow> nat \<Rightarrow> nat \<Rightarrow> 'g RunContext \<Rightarrow> 'g RunContext" where
  "testGroupEnded config testSpec totals gindex gcount rc =
     report (Ev_testGroupEnded \<lparr>tg_groupInfo = \<lparr>gi_name = testSpec, groupIndex = gindex, groupsCounts = gcount\<rparr>,
       tg_totals = totals, tg_aborting = aborting config rc\<rparr>) rc"

definition add_assertion :: "Counts \<Rightarrow> 'g RunContext \<Rightarrow> 'g RunContext" where
  "add_assertion c rc = rc\<lparr>m_totals := Totals (error (m_totals rc)) (assertions (m_totals rc) + c) (testCases (m_totals rc))\<rparr>"

definition activeTestInfo :: "'g RunContext \<Rightarrow> TestCaseInfo res" where
  "activeTestInfo rc = (case m_activeTestCase rc of None \<Rightarrow> Inl Undefined | Some t \<Rightarrow> Inr t)"

subsection \<open>Messages\<close>

definition pushScopedMessage :: "MessageInfo \<Rightarrow> 'g RunContext \<Rightarrow> 'g RunContext" where
  "pushScopedMessage message rc = rc\<lparr>m_messages := m_messages rc @ [message]\<rparr>"

definition popScopedMessage :: "MessageInfo \<Rightarrow> 'g RunContext \<Rightarrow> 'g RunContext" where
  "popScopedMessage message rc = rc\<lparr>m_messages := filter (\<lambda>m. \<not> message_eq m message) (m_messages rc)\<rparr>"

text \<open>A \<open>MessageBuilder\<close> with its text; it takes the next number.\<close>

definition build_message :: "string \<Rightarrow> SourceLineInfo \<Rightarrow> ResultWas \<Rightarrow> string \<Rightarrow> 'g RunContext \<Rightarrow>
    MessageInfo \<times> 'g RunContext" where
  "build_message macro line ty txt0 rc = (let (m, g) = new_MessageInfo macro line ty (globalCount rc)
     in (m\<lparr>mi_message := txt0\<rparr>, rc\<lparr>globalCount := g\<rparr>))"

definition emplaceUnscopedMessage :: "MessageInfo \<Rightarrow> 'g RunContext \<Rightarrow> 'g RunContext" where
  "emplaceUnscopedMessage message rc =
     pushScopedMessage message (rc\<lparr>m_messageScopes := m_messageScopes rc @ [message]\<rparr>)"

text \<open>The destructors of the unscoped messages take them from the list of messages.\<close>

definition clear_messageScopes :: "'g RunContext \<Rightarrow> 'g RunContext" where
  "clear_messageScopes rc = (fold popScopedMessage (m_messageScopes rc) rc)\<lparr>m_messageScopes := []\<rparr>"

subsection \<open>Assertions\<close>

definition resetAssertionInfo :: "'g RunContext \<Rightarrow> 'g RunContext" where
  "resetAssertionInfo rc = rc\<lparr>m_lastAssertionInfo := (m_lastAssertionInfo rc)\<lparr>ai_macroName := [],
     capturedExpression := ''{Unknown expression after the reported line}''\<rparr>\<rparr>"

definition new_AssertionStats :: "AssertionResult \<Rightarrow> 'g RunContext \<Rightarrow> AssertionStats \<times> 'g RunContext" where
  "new_AssertionStats result rc =
     (if hasMessage result then
        let (m, rc1) = build_message (ai_macroName (ar_info result)) (ai_lineInfo (ar_info result)) (getResultType result)
              (ad_message (ar_resultData result)) rc
        in (\<lparr>as_assertionResult = result, infoMessages = m_messages rc @ [m], as_totals = m_totals rc\<rparr>, rc1)
      else (\<lparr>as_assertionResult = result, infoMessages = m_messages rc, as_totals = m_totals rc\<rparr>, rc))"

definition count_result :: "AssertionResult \<Rightarrow> 'g RunContext \<Rightarrow> 'g RunContext res" where
  "count_result result rc =
     (if getResultType result = RW_Ok then Inr ((add_assertion one_passed rc)\<lparr>m_lastAssertionPassed := True\<rparr>)
      else if \<not> ar_isOk result then
        bindE (activeTestInfo rc) (\<lambda>info.
          Inr ((add_assertion (if okToFail info then one_failedButOk else one_failed) rc)\<lparr>m_lastAssertionPassed := False\<rparr>))
      else Inr (rc\<lparr>m_lastAssertionPassed := True\<rparr>))"

definition rc_assertionEnded :: "AssertionResult \<Rightarrow> 'g RunContext \<Rightarrow> 'g RunContext res" where
  "rc_assertionEnded result rc = bindE (count_result result rc) (\<lambda>rc1.
     let (stats, rc2) = new_AssertionStats result rc1;
         rc3 = report (Ev_assertionEnded stats) rc2;
         rc4 = (if getResultType result \<noteq> RW_Warning then clear_messageScopes rc3 else rc3)
     in Inr ((resetAssertionInfo rc4)\<lparr>m_lastResult := Some result\<rparr>))"

definition assertionPassed :: "'g RunContext \<Rightarrow> 'g RunContext" where
  "assertionPassed rc =
     clear_messageScopes (resetAssertionInfo (add_assertion one_passed (rc\<lparr>m_lastAssertionPassed := True\<rparr>)))"

record AssertionReaction =
  ra_shouldDebugBreak :: bool
  shouldThrow :: bool

definition no_reaction :: AssertionReaction where
  "no_reaction = \<lparr>ra_shouldDebugBreak = False, shouldThrow = False\<rparr>"

definition populateReaction :: "Config \<Rightarrow> 'g RunContext \<Rightarrow> AssertionReaction" where
  "populateReaction config rc = \<lparr>ra_shouldDebugBreak = shouldDebugBreak config,
     shouldThrow = (aborting config rc \<or> resultDisposition (m_lastAssertionInfo rc) AND RD_Normal \<noteq> 0)\<rparr>"

definition reportExpr :: "AssertionInfo \<Rightarrow> ResultWas \<Rightarrow> ITransientExpression \<Rightarrow> bool \<Rightarrow> 'g RunContext \<Rightarrow> 'g RunContext res" where
  "reportExpr info ty expr negated rc =
     rc_assertionEnded \<lparr>ar_info = info, ar_resultData = new_AssertionResultData ty
       \<lparr>m_transientExpression = Some expr, m_isNegated = negated\<rparr>\<rparr> (rc\<lparr>m_lastAssertionInfo := info\<rparr>)"

definition rc_handleExpr :: "Config \<Rightarrow> AssertionInfo \<Rightarrow> ITransientExpression \<Rightarrow> AssertionReaction \<Rightarrow> 'g RunContext \<Rightarrow>
    (AssertionReaction \<times> 'g RunContext) res" where
  "rc_handleExpr config info expr reaction rc =
     (let rc0 = report (Ev_assertionStarting info) rc;
          negated = isFalseTest (resultDisposition info)
      in if m_result expr \<noteq> negated then
           (if \<not> m_includeSuccessfulResults rc0 then Inr (reaction, assertionPassed rc0)
            else bindE (reportExpr info RW_Ok expr negated rc0) (\<lambda>rc1. Inr (reaction, rc1)))
         else bindE (reportExpr info ExpressionFailed expr negated rc0) (\<lambda>rc1. Inr (populateReaction config rc1, rc1)))"

text \<open>A result without an expression, with a message that may be empty.\<close>

definition plain_result :: "AssertionInfo \<Rightarrow> ResultWas \<Rightarrow> string \<Rightarrow> AssertionResult" where
  "plain_result info ty message = \<lparr>ar_info = info,
     ar_resultData = (new_AssertionResultData ty \<lparr>m_transientExpression = None, m_isNegated = False\<rparr>)\<lparr>ad_message := message\<rparr>\<rparr>"

definition rc_handleMessage :: "Config \<Rightarrow> AssertionInfo \<Rightarrow> ResultWas \<Rightarrow> string \<Rightarrow> AssertionReaction \<Rightarrow> 'g RunContext \<Rightarrow>
    (AssertionReaction \<times> 'g RunContext) res" where
  "rc_handleMessage config info ty message reaction rc =
     bindE (rc_assertionEnded (plain_result info ty message) ((report (Ev_assertionStarting info) rc)\<lparr>m_lastAssertionInfo := info\<rparr>)) (\<lambda>rc1.
       Inr (if \<not> ar_isOk (plain_result info ty message) then populateReaction config rc1 else reaction, rc1))"

definition handleNonExpr :: "Config \<Rightarrow> AssertionInfo \<Rightarrow> ResultWas \<Rightarrow> AssertionReaction \<Rightarrow> 'g RunContext \<Rightarrow>
    (AssertionReaction \<times> 'g RunContext) res" where
  "handleNonExpr config info ty reaction rc =
     bindE (rc_assertionEnded (plain_result info ty []) (rc\<lparr>m_lastAssertionInfo := info\<rparr>)) (\<lambda>rc1.
       Inr (if \<not> ar_isOk (plain_result info ty []) then populateReaction config rc1 else reaction, rc1))"

definition handleUnexpectedExceptionNotThrown :: "Config \<Rightarrow> AssertionInfo \<Rightarrow> AssertionReaction \<Rightarrow> 'g RunContext \<Rightarrow>
    (AssertionReaction \<times> 'g RunContext) res" where
  "handleUnexpectedExceptionNotThrown config info reaction rc = handleNonExpr config info DidntThrowException reaction rc"

definition handleUnexpectedInflightException :: "Config \<Rightarrow> AssertionInfo \<Rightarrow> string \<Rightarrow> 'g RunContext \<Rightarrow>
    (AssertionReaction \<times> 'g RunContext) res" where
  "handleUnexpectedInflightException config info message rc =
     bindE (rc_assertionEnded (plain_result info ThrewException message) (rc\<lparr>m_lastAssertionInfo := info\<rparr>)) (\<lambda>rc1.
       Inr (populateReaction config rc1, rc1))"

definition handleIncomplete :: "AssertionInfo \<Rightarrow> 'g RunContext \<Rightarrow> 'g RunContext res" where
  "handleIncomplete info rc = rc_assertionEnded (plain_result info ThrewException
     ''Exception translation was disabled by CATCH_CONFIG_FAST_COMPILE'') (rc\<lparr>m_lastAssertionInfo := info\<rparr>)"

subsection \<open>Sections\<close>

definition rc_tracker :: "('g TrackerContext \<Rightarrow> 'g TrackerContext res) \<Rightarrow> 'g RunContext \<Rightarrow> 'g RunContext res" where
  "rc_tracker f rc = bindE (f (m_trackerContext rc)) (\<lambda>cx. Inr (rc\<lparr>m_trackerContext := cx\<rparr>))"

definition sectionStarted :: "SectionInfo \<Rightarrow> 'g RunContext \<Rightarrow> (bool \<times> Counts \<times> 'g RunContext) res" where
  "sectionStarted sectionInfo rc =
     bindE (acquire_section \<lparr>nl_name = si_name sectionInfo, nl_location = si_lineInfo sectionInfo\<rparr> (m_trackerContext rc)) (\<lambda>(p, cx).
     bindE (tracker_at p cx) (\<lambda>t.
       let rc1 = rc\<lparr>m_trackerContext := cx\<rparr>
       in if \<not> isOpen t then Inr (False, 0, rc1)
          else let rc2 = rc1\<lparr>m_activeSections := m_activeSections rc1 @ [p],
                     m_lastAssertionInfo := (m_lastAssertionInfo rc1)\<lparr>ai_lineInfo := si_lineInfo sectionInfo\<rparr>\<rparr>
               in Inr (True, assertions (m_totals rc2), report (Ev_sectionStarting sectionInfo) rc2)))"

definition acquireGeneratorTracker :: "string \<Rightarrow> SourceLineInfo \<Rightarrow> 'g RunContext \<Rightarrow> (addr \<times> 'g RunContext) res" where
  "acquireGeneratorTracker generatorName lineInfo rc =
     bindE (acquire_generator \<lparr>nl_name = generatorName, nl_location = lineInfo\<rparr> (m_trackerContext rc)) (\<lambda>(p, cx).
       Inr (p, rc\<lparr>m_trackerContext := cx, m_lastAssertionInfo := (m_lastAssertionInfo rc)\<lparr>ai_lineInfo := lineInfo\<rparr>\<rparr>))"

text \<open>A section without an assertion counts as a failure when the user asked for that warning.\<close>

definition testForMissingAssertions :: "Config \<Rightarrow> Counts \<Rightarrow> 'g RunContext \<Rightarrow> (bool \<times> Counts \<times> 'g RunContext) res" where
  "testForMissingAssertions config c rc =
     (if counts_total c \<noteq> 0 then Inr (False, c, rc)
      else if \<not> warnAboutMissingAssertions config then Inr (False, c, rc)
      else bindE (currentTracker (m_trackerContext rc)) (\<lambda>p. bindE (tracker_at p (m_trackerContext rc)) (\<lambda>t.
        if hasChildren t then Inr (False, c, rc) else Inr (True, c + one_failed, add_assertion one_failed rc))))"

definition close_activeSection :: "('g \<Rightarrow> bool \<times> 'g) \<Rightarrow> 'g RunContext \<Rightarrow> 'g RunContext res" where
  "close_activeSection nxt rc = bindE (rc_tracker (tracker_close nxt (last (m_activeSections rc))) rc) (\<lambda>rc1.
     Inr (rc1\<lparr>m_activeSections := butlast (m_activeSections rc1)\<rparr>))"

definition clear_messages :: "'g RunContext \<Rightarrow> 'g RunContext" where
  "clear_messages rc = clear_messageScopes (rc\<lparr>m_messages := []\<rparr>)"

definition rc_sectionEnded :: "Config \<Rightarrow> ('g \<Rightarrow> bool \<times> 'g) \<Rightarrow> SectionEndInfo \<Rightarrow> 'g RunContext \<Rightarrow> 'g RunContext res" where
  "rc_sectionEnded config nxt endInfo rc =
     bindE (testForMissingAssertions config (assertions (m_totals rc) - prevAssertions endInfo) rc) (\<lambda>(missing, c, rc1).
     bindE (if m_activeSections rc1 \<noteq> [] then close_activeSection nxt rc1 else Inr rc1) (\<lambda>rc2.
       Inr (clear_messages (report (Ev_sectionEnded
         \<lparr>ss_sectionInfo = se_sectionInfo endInfo, ss_assertions = c, missingAssertions = missing\<rparr>) rc2))))"

definition sectionEndedEarly :: "('g \<Rightarrow> bool \<times> 'g) \<Rightarrow> SectionEndInfo \<Rightarrow> 'g RunContext \<Rightarrow> 'g RunContext res" where
  "sectionEndedEarly nxt endInfo rc =
     (if m_activeSections rc = [] then Inl Undefined
      else bindE (rc_tracker ((if m_unfinishedSections rc = [] then tracker_fail else tracker_close nxt)
          (last (m_activeSections rc))) rc) (\<lambda>rc1.
        Inr (rc1\<lparr>m_activeSections := butlast (m_activeSections rc1),
                  m_unfinishedSections := m_unfinishedSections rc1 @ [endInfo]\<rparr>)))"

definition handleUnfinishedSections :: "Config \<Rightarrow> ('g \<Rightarrow> bool \<times> 'g) \<Rightarrow> 'g RunContext \<Rightarrow> 'g RunContext res" where
  "handleUnfinishedSections config nxt rc =
     bindE (foldE (rc_sectionEnded config nxt) (rev (m_unfinishedSections rc)) rc) (\<lambda>rc1.
       Inr (rc1\<lparr>m_unfinishedSections := []\<rparr>))"

subsection \<open>Exceptions\<close>

text \<open>
  What is thrown: the exception of a failed assertion, and the kinds the translation tells apart. A
  registered translator takes the exceptions of its type and gives a text; the one that was registered
  last is asked first, since each runs the rest in a \<open>try\<close> block of its own.
\<close>

datatype cpp_exn = TestFailureException | Std_exception string | Thrown_string string | Thrown_chars string
  | Thrown_other

type_synonym translator = "cpp_exn \<Rightarrow> string option"

fun tryTranslators :: "translator list \<Rightarrow> cpp_exn \<Rightarrow> string option" where
  "tryTranslators [] e = None"
| "tryTranslators (t # ts) e = (case tryTranslators ts e of Some m \<Rightarrow> Some m | None \<Rightarrow> t e)"

definition translateActiveException :: "translator list \<Rightarrow> cpp_exn \<Rightarrow> cpp_exn + string" where
  "translateActiveException ts e = (case tryTranslators ts e of
       Some m \<Rightarrow> Inr m
     | None \<Rightarrow> (case e of
           TestFailureException \<Rightarrow> Inl TestFailureException
         | Std_exception m \<Rightarrow> Inr m
         | Thrown_string m \<Rightarrow> Inr m
         | Thrown_chars m \<Rightarrow> Inr m
         | Thrown_other \<Rightarrow> Inr ''Unknown exception''))"

subsection \<open>The body of a test\<close>

text \<open>
  The statements of a test: an expression of \<open>CHECK\<close> or \<open>REQUIRE\<close> that has a value or throws, \<open>NOTHROW\<close>,
  \<open>THROWS\<close> and \<open>THROWS_AS\<close> with what their expression throws (and whether it has the type), a message
  macro such as \<open>FAIL\<close> or \<open>WARN\<close>, \<open>INFO\<close> with the statements in its scope, \<open>UNSCOPED_INFO\<close>, a section, and
  code of the test that throws.
\<close>

datatype stmt =
    Check AssertionInfo "cpp_exn + ITransientExpression"
  | NoThrow AssertionInfo "cpp_exn option"
  | Throws AssertionInfo "cpp_exn option"
  | ThrowsAs AssertionInfo "(bool \<times> cpp_exn) option"
  | Message AssertionInfo ResultWas string
  | Info string SourceLineInfo string "stmt list"
  | UnscopedInfo string SourceLineInfo string
  | Section SectionInfo "stmt list"
  | Throw cpp_exn

datatype outcome = Finished | Thrown cpp_exn

record testing =
  ts_config :: Config
  ts_translators :: "translator list"

text \<open>\<open>AssertionHandler::complete\<close>.\<close>

definition react :: "AssertionReaction \<times> 'g RunContext \<Rightarrow> (outcome \<times> 'g RunContext) res" where
  "react = (\<lambda>(reaction, rc). Inr (if shouldThrow reaction then Thrown TestFailureException else Finished, rc))"

text \<open>
  The handler's \<open>handleUnexpectedInflightException\<close> translates the exception first. The exception of a
  failed assertion is thrown on, and the destructor of the handler reports an incomplete assertion;
  unscoped messages that are destroyed on the way stay in the list.
\<close>

definition unexpected :: "testing \<Rightarrow> AssertionInfo \<Rightarrow> cpp_exn \<Rightarrow> 'g RunContext \<Rightarrow> (outcome \<times> 'g RunContext) res" where
  "unexpected ts info e rc = (case translateActiveException (ts_translators ts) e of
       Inl e' \<Rightarrow> bindE (handleIncomplete info rc) (\<lambda>rc1. Inr (Thrown e', rc1\<lparr>m_messages := m_messages rc\<rparr>))
     | Inr message \<Rightarrow> bindE (handleUnexpectedInflightException (ts_config ts) info message rc) react)"

definition exec_throws :: "testing \<Rightarrow> AssertionInfo \<Rightarrow> (bool \<times> cpp_exn) option \<Rightarrow> 'g RunContext \<Rightarrow> (outcome \<times> 'g RunContext) res" where
  "exec_throws ts info thrown rc =
     (if \<not> allowThrows (ts_config ts) then bindE (handleNonExpr (ts_config ts) info RW_Ok no_reaction rc) react
      else (case thrown of
          None \<Rightarrow> bindE (handleUnexpectedExceptionNotThrown (ts_config ts) info no_reaction rc) react
        | Some (as_expected, e) \<Rightarrow>
            if as_expected then bindE (handleNonExpr (ts_config ts) info RW_Ok no_reaction rc) react
            else unexpected ts info e rc))"

text \<open>The destructor of a section, with or without an exception under way.\<close>

definition leave_section :: "testing \<Rightarrow> ('g \<Rightarrow> bool \<times> 'g) \<Rightarrow> SectionEndInfo \<Rightarrow> outcome \<times> 'g RunContext \<Rightarrow>
    (outcome \<times> 'g RunContext) res" where
  "leave_section ts nxt endInfo = (\<lambda>(out, rc).
     bindE (case out of Finished \<Rightarrow> rc_sectionEnded (ts_config ts) nxt endInfo rc | Thrown _ \<Rightarrow> sectionEndedEarly nxt endInfo rc) (\<lambda>rc1.
       Inr (out, rc1)))"

text \<open>The destructor of a scoped message does nothing while an exception is under way.\<close>

definition leave_scope :: "MessageInfo \<Rightarrow> outcome \<times> 'g RunContext \<Rightarrow> (outcome \<times> 'g RunContext) res" where
  "leave_scope m = (\<lambda>(out, rc). Inr (out, case out of Finished \<Rightarrow> popScopedMessage m rc | Thrown _ \<Rightarrow> rc))"

fun exec :: "testing \<Rightarrow> ('g \<Rightarrow> bool \<times> 'g) \<Rightarrow> stmt \<Rightarrow> 'g RunContext \<Rightarrow> (outcome \<times> 'g RunContext) res"
  and exec_all :: "testing \<Rightarrow> ('g \<Rightarrow> bool \<times> 'g) \<Rightarrow> stmt list \<Rightarrow> 'g RunContext \<Rightarrow> (outcome \<times> 'g RunContext) res" where
  "exec ts nxt (Check info (Inr expr)) rc = bindE (rc_handleExpr (ts_config ts) info expr no_reaction rc) react"
| "exec ts nxt (Check info (Inl e)) rc = unexpected ts info e rc"
| "exec ts nxt (NoThrow info None) rc = bindE (handleNonExpr (ts_config ts) info RW_Ok no_reaction rc) react"
| "exec ts nxt (NoThrow info (Some e)) rc = unexpected ts info e rc"
| "exec ts nxt (Throws info e) rc = exec_throws ts info (map_option (Pair True) e) rc"
| "exec ts nxt (ThrowsAs info e) rc = exec_throws ts info e rc"
| "exec ts nxt (Message info ty message) rc = bindE (rc_handleMessage (ts_config ts) info ty message no_reaction rc) react"
| "exec ts nxt (Info macro line message body) rc = (let (m, rc1) = build_message macro line RW_Info message rc
     in bindE (exec_all ts nxt body (pushScopedMessage m rc1)) (leave_scope m))"
| "exec ts nxt (UnscopedInfo macro line message) rc = (let (m, rc1) = build_message macro line RW_Info message rc
     in Inr (Finished, emplaceUnscopedMessage m rc1))"
| "exec ts nxt (Section info body) rc = bindE (sectionStarted info rc) (\<lambda>(included, prev, rc1).
     if \<not> included then Inr (Finished, rc1)
     else bindE (exec_all ts nxt body rc1) (leave_section ts nxt \<lparr>se_sectionInfo = info, prevAssertions = prev\<rparr>))"
| "exec ts nxt (Throw e) rc = Inr (Thrown e, rc)"
| "exec_all ts nxt [] rc = Inr (Finished, rc)"
| "exec_all ts nxt (s # ss) rc = bindE (exec ts nxt s rc) (\<lambda>(out, rc1).
     case out of Finished \<Rightarrow> exec_all ts nxt ss rc1 | Thrown e \<Rightarrow> Inr (Thrown e, rc1))"

subsection \<open>Running a test case\<close>

text \<open>What \<open>runCurrentTest\<close> makes of an exception that left the body.\<close>

definition handle_escaped :: "testing \<Rightarrow> outcome \<times> 'g RunContext \<Rightarrow> 'g RunContext res" where
  "handle_escaped ts = (\<lambda>(out, rc). case out of
       Finished \<Rightarrow> Inr rc
     | Thrown TestFailureException \<Rightarrow> Inr rc
     | Thrown e \<Rightarrow> if m_shouldReportUnexpected rc then
         (case translateActiveException (ts_translators ts) e of
            Inl _ \<Rightarrow> Inl Undefined
          | Inr message \<Rightarrow> bindE (handleUnexpectedInflightException (ts_config ts) (m_lastAssertionInfo rc) message rc)
              (\<lambda>(_, rc1). Inr rc1))
       else Inr rc)"

definition runCurrentTest :: "testing \<Rightarrow> ('g \<Rightarrow> bool \<times> 'g) \<Rightarrow> stmt list \<Rightarrow> 'g RunContext \<Rightarrow> 'g RunContext res" where
  "runCurrentTest ts nxt body rc = bindE (activeTestInfo rc) (\<lambda>info.
     let testCaseSection = \<lparr>si_name = ti_name info, si_lineInfo = ti_lineInfo info\<rparr>;
         rc0 = report (Ev_sectionStarting testCaseSection) rc;
         prev = assertions (m_totals rc0);
         rc1 = rc0\<lparr>m_shouldReportUnexpected := True,
           m_lastAssertionInfo := \<lparr>ai_macroName = ''TEST_CASE'', ai_lineInfo = ti_lineInfo info, capturedExpression = [],
             resultDisposition = RD_Normal\<rparr>,
           rc_rng := seedRng (registry_config (ts_config ts)) (rc_rng rc0)\<rparr>
     in bindE (bindE (exec_all ts nxt body rc1) (handle_escaped ts)) (\<lambda>rc2.
        bindE (testForMissingAssertions (ts_config ts) (assertions (m_totals rc2) - prev) rc2) (\<lambda>(missing, c, rc3).
        bindE (case m_testCaseTracker rc3 of None \<Rightarrow> Inl Undefined | Some p \<Rightarrow> rc_tracker (tracker_close nxt p) rc3) (\<lambda>rc4.
        bindE (handleUnfinishedSections (ts_config ts) nxt rc4) (\<lambda>rc5.
          Inr (report (Ev_sectionEnded \<lparr>ss_sectionInfo = testCaseSection, ss_assertions = c, missingAssertions = missing\<rparr>)
            (clear_messages rc5)))))))"

text \<open>One turn of the loop of \<open>runTest\<close>; it gives whether the loop ends.\<close>

definition run_cycle :: "testing \<Rightarrow> ('g \<Rightarrow> bool \<times> 'g) \<Rightarrow> TestCaseInfo \<Rightarrow> stmt list \<Rightarrow> 'g RunContext \<Rightarrow> (bool \<times> 'g RunContext) res" where
  "run_cycle ts nxt info body rc =
     bindE (acquire_section \<lparr>nl_name = ti_name info, nl_location = ti_lineInfo info\<rparr> (startCycle (m_trackerContext rc))) (\<lambda>(p, cx).
     bindE (runCurrentTest ts nxt body (rc\<lparr>m_trackerContext := cx, m_testCaseTracker := Some p\<rparr>)) (\<lambda>rc1.
     bindE (tracker_at p (m_trackerContext rc1)) (\<lambda>t.
       Inr (isSuccessfullyCompleted t \<or> aborting (ts_config ts) rc1, rc1))))"

partial_function (option) run_cycles :: "testing \<Rightarrow> ('g \<Rightarrow> bool \<times> 'g) \<Rightarrow> TestCaseInfo \<Rightarrow> stmt list \<Rightarrow> 'g RunContext \<Rightarrow>
    'g RunContext res option" where
  "run_cycles ts nxt info body rc = (case run_cycle ts nxt info body rc of
       Inl e \<Rightarrow> Some (Inl e)
     | Inr (finished, rc1) \<Rightarrow> if finished then Some (Inr rc1) else run_cycles ts nxt info body rc1)"

text \<open>A test that is tagged to fail fails when it passed.\<close>

definition expected_failure :: "TestCaseInfo \<Rightarrow> Totals \<Rightarrow> Totals" where
  "expected_failure info d = (if expectedToFail info \<and> passed (testCases d) > 0
     then Totals (error d) (assertions d + one_failed) (testCases d - one_passed + one_failed) else d)"

definition start_test :: "SourceLineInfo \<Rightarrow> Config \<Rightarrow> TestCaseInfo \<Rightarrow> 'g RunContext \<Rightarrow> 'g RunContext res" where
  "start_test here config info rc =
     bindE (tracker_at [] (startRun here (m_trackerContext rc))) (\<lambda>root.
       Inr ((report (Ev_testCaseStarting info) rc)\<lparr>m_activeTestCase := Some info,
         m_trackerContext := set_tracker [] (addInitialFilters (getSectionsToRun config) root)
           (startRun here (m_trackerContext rc))\<rparr>))"

definition finish_test :: "Config \<Rightarrow> TestCaseInfo \<Rightarrow> Totals \<Rightarrow> 'g RunContext \<Rightarrow> Totals \<times> 'g RunContext" where
  "finish_test config info prevTotals rc =
     (let deltaTotals = expected_failure info (totals_delta (m_totals rc) prevTotals);
          rc1 = rc\<lparr>m_totals := Totals (error (m_totals rc)) (assertions (m_totals rc)) (testCases (m_totals rc) + testCases deltaTotals)\<rparr>
      in (deltaTotals, (report (Ev_testCaseEnded \<lparr>tc_testInfo = info, tc_totals = deltaTotals, tc_stdOut = [], tc_stdErr = [],
            tc_aborting = aborting config rc1\<rparr>) rc1)\<lparr>m_activeTestCase := None, m_testCaseTracker := None\<rparr>))"

definition runTest :: "SourceLineInfo \<Rightarrow> testing \<Rightarrow> ('g \<Rightarrow> bool \<times> 'g) \<Rightarrow> TestCaseInfo \<Rightarrow> stmt list \<Rightarrow> 'g RunContext \<Rightarrow>
    (Totals \<times> 'g RunContext) res option" where
  "runTest here ts nxt info body rc = (case start_test here (ts_config ts) info rc of
       Inl e \<Rightarrow> Some (Inl e)
     | Inr rc0 \<Rightarrow> map_option (\<lambda>r. bindE r (\<lambda>rc1. Inr (finish_test (ts_config ts) info (m_totals rc) rc1)))
         (run_cycles ts nxt info body rc0))"

text \<open>Benchmarks only pass on what they are told.\<close>

definition benchmarkPreparing :: "string \<Rightarrow> 'g RunContext \<Rightarrow> 'g RunContext" where
  "benchmarkPreparing nm = report (Ev_benchmarkPreparing nm)"

definition benchmarkFailed :: "string \<Rightarrow> 'g RunContext \<Rightarrow> 'g RunContext" where
  "benchmarkFailed err = report (Ev_benchmarkFailed err)"

text \<open>A signal: the test case, the group and the run are ended for the reporter at once.\<close>

definition handleFatalErrorCondition :: "Config \<Rightarrow> ('g \<Rightarrow> bool \<times> 'g) \<Rightarrow> string \<Rightarrow> 'g RunContext \<Rightarrow> 'g RunContext res" where
  "handleFatalErrorCondition config nxt message rc =
     (let rc0 = report (Ev_fatalErrorEncountered message) rc
      in bindE (rc_assertionEnded (plain_result (m_lastAssertionInfo rc0) FatalErrorCondition message) rc0) (\<lambda>rc1.
         bindE (handleUnfinishedSections config nxt rc1) (\<lambda>rc2.
         bindE (activeTestInfo rc2) (\<lambda>info.
           let rc3 = report (Ev_sectionEnded \<lparr>ss_sectionInfo = \<lparr>si_name = ti_name info, si_lineInfo = ti_lineInfo info\<rparr>,
                 ss_assertions = one_failed, missingAssertions = False\<rparr>) rc2;
               rc4 = report (Ev_testCaseEnded \<lparr>tc_testInfo = info, tc_totals = Totals 0 one_failed one_failed,
                 tc_stdOut = [], tc_stdErr = [], tc_aborting = False\<rparr>) rc3;
               rc5 = rc4\<lparr>m_totals := Totals (error (m_totals rc4)) (assertions (m_totals rc4)) (testCases (m_totals rc4) + one_failed)\<rparr>
           in Inr (report (Ev_testRunEnded \<lparr>tr_runName = config_name config, tr_totals = m_totals rc5, tr_aborting = False\<rparr>)
                (testGroupEnded config [] (m_totals rc5) 1 1 rc5))))))"

subsection \<open>A sample\<close>

definition sample_config :: Config where
  "sample_config = \<lparr>m_data = default_ConfigData, cf_testSpec = parser_testSpec (new_TestSpecParser []), m_hasTestFilters = False\<rparr>"

definition sample_testing :: testing where
  "sample_testing = \<lparr>ts_config = sample_config, ts_translators = []\<rparr>"

definition sample_place :: SourceLineInfo where
  "sample_place = \<lparr>li_file = ''book.cpp'', li_line = 1\<rparr>"

definition check_that :: "ResultDisposition \<Rightarrow> bool \<Rightarrow> stmt" where
  "check_that disposition b = Check \<lparr>ai_macroName = ''CHECK'', ai_lineInfo = sample_place, capturedExpression = ''b'',
     resultDisposition = disposition\<rparr> (Inr \<lparr>m_isBinaryExpression = False, m_result = b, te_text = ''b''\<rparr>)"

definition in_section :: "string \<Rightarrow> stmt list \<Rightarrow> stmt" where
  "in_section nm = Section \<lparr>si_name = nm, si_lineInfo = sample_place\<rparr>"

text \<open>A test in progress: the tracker of the test is open, one section in another ends with an exception.\<close>

definition sample_run :: "unit RunContext res" where
  "sample_run = bindE (start_test sample_place sample_config (named_test ''book'')
       (new_RunContext sample_config False 0 0)) (\<lambda>rc.
     bindE (acquire_section \<lparr>nl_name = ''book'', nl_location = sample_place\<rparr> (startCycle (m_trackerContext rc))) (\<lambda>(p, cx).
       Inr (rc\<lparr>m_trackerContext := cx, m_testCaseTracker := Some p\<rparr>)))"

end
