(* ===== verification/Catch_Run_Report.thy ===== *)
theory Catch_Run_Report
  imports Catch_Run_Context
begin

section \<open>What a run reports\<close>

text \<open>
  Properties of the run context for every body of a test that returns: the counts are what the
  reporter was told, the sections of a cycle nest but for those an exception left, and the limit of
  failures holds.
\<close>

subsection \<open>What is counted is what is reported\<close>

text \<open>What an event of the reporter stands for in the counts.\<close>

fun event_counts :: "bool \<Rightarrow> reporter_event \<Rightarrow> Counts" where
  "event_counts ok (Ev_assertionEnded st) = (let r = as_assertionResult st
     in if getResultType r = RW_Ok then one_passed
        else if \<not> ar_isOk r then (if ok then one_failedButOk else one_failed) else 0)"
| "event_counts ok (Ev_sectionEnded st) = (if missingAssertions st then one_failed else 0)"
| "event_counts ok _ = 0"

definition events_counts :: "bool \<Rightarrow> reporter_event list \<Rightarrow> Counts" where
  "events_counts ok es = sum_list (map (event_counts ok) es)"

text \<open>
  Two states with the same test, the second reached from the first: what was counted is what was
  reported, but for assertions that passed and are not to be reported.
\<close>

definition counted :: "'g RunContext \<Rightarrow> 'g RunContext \<Rightarrow> bool" where
  "counted rc rc' \<longleftrightarrow> (\<exists>es n.
     m_reported rc' = m_reported rc @ es \<and> m_activeTestCase rc' = m_activeTestCase rc \<and>
     m_includeSuccessfulResults rc' = m_includeSuccessfulResults rc \<and> (m_includeSuccessfulResults rc \<longrightarrow> n = 0) \<and>
     m_totals rc' = Totals (error (m_totals rc)) (assertions (m_totals rc) +
       events_counts (\<exists>info. m_activeTestCase rc = Some info \<and> okToFail info) es + Counts n 0 0) (testCases (m_totals rc)))"

lemma events_counts_simps [simp]:
  "events_counts ok [] = 0" "events_counts ok (e # es) = event_counts ok e + events_counts ok es"
  "events_counts ok (es @ es') = events_counts ok es + events_counts ok es'"
  by (simp_all add: events_counts_def)

lemma no_silent [simp]: "Counts 0 0 0 = 0"
  by (simp add: zero_Counts_def)

lemma countedI:
  assumes "m_reported rc' = m_reported rc @ es" and "m_activeTestCase rc' = m_activeTestCase rc"
    and "m_includeSuccessfulResults rc' = m_includeSuccessfulResults rc"
    and "m_totals rc' = Totals (error (m_totals rc)) (assertions (m_totals rc) +
       events_counts (\<exists>info. m_activeTestCase rc = Some info \<and> okToFail info) es) (testCases (m_totals rc))"
  shows "counted rc rc'"
  unfolding counted_def using assms by (intro exI [of _ es] exI [of _ 0]) simp

lemma counted_refl [intro]: "counted rc rc"
  by (rule countedI [where es = "[]"]) simp_all

lemma counted_trans:
  assumes "counted rc rc1" and "counted rc1 rc2"
  shows "counted rc rc2"
proof -
  let ?ok = "\<exists>info. m_activeTestCase rc = Some info \<and> okToFail info"
  obtain es n where 1: "m_reported rc1 = m_reported rc @ es" "m_activeTestCase rc1 = m_activeTestCase rc"
    "m_includeSuccessfulResults rc1 = m_includeSuccessfulResults rc" "m_includeSuccessfulResults rc \<longrightarrow> n = 0"
    "m_totals rc1 = Totals (error (m_totals rc)) (assertions (m_totals rc) + events_counts ?ok es + Counts n 0 0)
      (testCases (m_totals rc))"
    using assms(1) by (auto simp: counted_def)
  obtain es' n' where 2: "m_reported rc2 = m_reported rc1 @ es'" "m_activeTestCase rc2 = m_activeTestCase rc1"
    "m_includeSuccessfulResults rc2 = m_includeSuccessfulResults rc1" "m_includeSuccessfulResults rc1 \<longrightarrow> n' = 0"
    "m_totals rc2 = Totals (error (m_totals rc1)) (assertions (m_totals rc1) + events_counts ?ok es' + Counts n' 0 0)
      (testCases (m_totals rc1))"
    using assms(2) 1(2) by (auto simp: counted_def)
  have "Counts (n + n') 0 0 = Counts n 0 0 + Counts n' 0 0" by (intro counts_eqI) simp_all
  then show ?thesis unfolding counted_def
    using 1 2 by (intro exI [of _ "es @ es'"] exI [of _ "n + n'"]) (simp add: algebra_simps)
qed

text \<open>Two states that differ in nothing the relation looks at.\<close>

definition same_counts :: "'g RunContext \<Rightarrow> 'g RunContext \<Rightarrow> bool" where
  "same_counts rc rc' \<longleftrightarrow> m_reported rc' = m_reported rc \<and> m_activeTestCase rc' = m_activeTestCase rc \<and>
     m_includeSuccessfulResults rc' = m_includeSuccessfulResults rc \<and> m_totals rc' = m_totals rc"

lemma same_counted: "same_counts rc rc' \<Longrightarrow> counted rc rc'"
  by (rule countedI [where es = "[]"]) (simp_all add: same_counts_def)

lemma fold_pop: "fold popScopedMessage ms rc =
    rc\<lparr>m_messages := filter (\<lambda>m. \<not> (\<exists>x \<in> set ms. message_eq m x)) (m_messages rc)\<rparr>"
proof (induction ms arbitrary: rc)
  case (Cons m ms)
  show ?case by (simp only: fold.simps o_apply Cons.IH) (simp add: popScopedMessage_def conj_commute)
qed simp

lemma clear_messageScopes_eq: "clear_messageScopes rc = rc\<lparr>m_messageScopes := [],
    m_messages := filter (\<lambda>m. \<not> (\<exists>x \<in> set (m_messageScopes rc). message_eq m x)) (m_messages rc)\<rparr>"
  by (simp add: clear_messageScopes_def fold_pop)

lemmas rc_quiet = clear_messageScopes_eq clear_messages_def resetAssertionInfo_def pushScopedMessage_def
  popScopedMessage_def emplaceUnscopedMessage_def build_message_def rc_tracker_def

lemma count_result_cases:
  assumes "count_result r rc = Inr rc1"
  shows "m_reported rc1 = m_reported rc \<and> m_activeTestCase rc1 = m_activeTestCase rc \<and>
    m_includeSuccessfulResults rc1 = m_includeSuccessfulResults rc \<and>
    m_totals rc1 = Totals (error (m_totals rc)) (assertions (m_totals rc) +
      (if getResultType r = RW_Ok then one_passed
       else if \<not> ar_isOk r then (if \<exists>info. m_activeTestCase rc = Some info \<and> okToFail info then one_failedButOk else one_failed)
       else 0)) (testCases (m_totals rc))"
proof (cases "getResultType r = RW_Ok \<or> ar_isOk r")
  case True
  with assms show ?thesis by (cases "m_totals rc") (auto simp: count_result_def add_assertion_def)
next
  case False
  with assms obtain info where "m_activeTestCase rc = Some info"
    by (auto simp: count_result_def activeTestInfo_def split: option.splits)
  with assms False show ?thesis by (auto simp: count_result_def activeTestInfo_def add_assertion_def)
qed

lemma assertionEnded_reports:
  assumes "rc_assertionEnded r rc = Inr rc'"
  shows "\<exists>st. m_reported rc' = m_reported rc @ [Ev_assertionEnded st] \<and> as_assertionResult st = r \<and>
    m_activeTestCase rc' = m_activeTestCase rc \<and> m_includeSuccessfulResults rc' = m_includeSuccessfulResults rc \<and>
    m_totals rc' = Totals (error (m_totals rc)) (assertions (m_totals rc) +
      event_counts (\<exists>info. m_activeTestCase rc = Some info \<and> okToFail info) (Ev_assertionEnded st)) (testCases (m_totals rc))"
proof -
  from assms obtain rc1 where c: "count_result r rc = Inr rc1"
    and rc': "rc' = (let (stats, rc2) = new_AssertionStats r rc1; rc3 = report (Ev_assertionEnded stats) rc2;
      rc4 = (if getResultType r \<noteq> RW_Warning then clear_messageScopes rc3 else rc3)
     in (resetAssertionInfo rc4)\<lparr>m_lastResult := Some r\<rparr>)"
    unfolding rc_assertionEnded_def by (elim bindE_InrE) (simp add: Let_def split: prod.splits)
  obtain st rc2 where n: "new_AssertionStats r rc1 = (st, rc2)" by (cases "new_AssertionStats r rc1")
  have st: "as_assertionResult st = r" "m_reported rc2 = m_reported rc1" "m_activeTestCase rc2 = m_activeTestCase rc1"
    "m_includeSuccessfulResults rc2 = m_includeSuccessfulResults rc1" "m_totals rc2 = m_totals rc1"
    using n by (auto simp: new_AssertionStats_def build_message_def new_MessageInfo_def Let_def split: if_splits)
  have "m_reported rc' = m_reported rc2 @ [Ev_assertionEnded st] \<and> m_activeTestCase rc' = m_activeTestCase rc2 \<and>
      m_includeSuccessfulResults rc' = m_includeSuccessfulResults rc2 \<and> m_totals rc' = m_totals rc2"
    by (simp add: rc' n Let_def report_def clear_messageScopes_eq resetAssertionInfo_def)
  with st count_result_cases [OF c] show ?thesis by (intro exI [of _ st]) (simp add: Let_def)
qed

lemma assertionEnded_counted: "rc_assertionEnded r rc = Inr rc' \<Longrightarrow> counted rc rc'"
  by (drule assertionEnded_reports, elim exE) (rule countedI [where es = "[Ev_assertionEnded _]"], auto)

lemma assertionEnded_counted_from:
  "rc_assertionEnded r rc0 = Inr rc' \<Longrightarrow> counted rc rc0 \<Longrightarrow> counted rc rc'"
  by (blast intro: counted_trans assertionEnded_counted)

lemma quiet_report:
  assumes "event_counts (\<exists>info. m_activeTestCase rc = Some info \<and> okToFail info) e = 0"
  shows "counted rc (report e rc)"
  by (rule countedI [where es = "[e]"]) (use assms in \<open>simp_all add: report_def\<close>)

lemma assertionPassed_counted:
  assumes "\<not> m_includeSuccessfulResults rc"
  shows "counted rc (assertionPassed rc)"
  unfolding counted_def using assms
  by (intro exI [of _ "[]"] exI [of _ 1]) (simp add: assertionPassed_def rc_quiet add_assertion_def)


lemma report_info_counted:
  assumes "counted (report (Ev_assertionStarting info) rc) rc'"
  shows "counted rc rc'"
  by (rule counted_trans [OF quiet_report assms]) simp

lemma lastInfo_counted [simp]: "counted (rc\<lparr>m_lastAssertionInfo := info\<rparr>) rc' = counted rc rc'"
  by (simp add: counted_def)

lemma handleExpr_counted:
  assumes "rc_handleExpr config info expr reaction rc = Inr (reaction', rc')"
  shows "counted rc rc'"
proof (rule report_info_counted)
  let ?rc = "report (Ev_assertionStarting info) rc"
  from assms consider "\<not> m_includeSuccessfulResults ?rc" "rc' = assertionPassed ?rc"
    | ty where "reportExpr info ty expr (isFalseTest (resultDisposition info)) ?rc = Inr rc'"
    by (auto simp: rc_handleExpr_def Let_def bindE_eq_Inr split: if_splits)
  then show "counted ?rc rc'"
  proof cases
    case 1
    then show ?thesis using assertionPassed_counted [of ?rc] by simp
  next
    case 2
    then show ?thesis unfolding reportExpr_def using assertionEnded_counted by fastforce
  qed
qed

lemma handleMessage_counted:
  assumes "rc_handleMessage config info ty message reaction rc = Inr (reaction', rc')"
  shows "counted rc rc'"
  using assms unfolding rc_handleMessage_def
  by (elim bindE_InrE) (auto dest!: assertionEnded_counted intro: report_info_counted)

lemma handleNonExpr_counted:
  assumes "handleNonExpr config info ty reaction rc = Inr (reaction', rc')"
  shows "counted rc rc'"
  using assms unfolding handleNonExpr_def
  by (elim bindE_InrE) (auto dest!: assertionEnded_counted)

lemma inflight_counted:
  assumes "handleUnexpectedInflightException config info message rc = Inr (reaction', rc')"
  shows "counted rc rc'"
  using assms unfolding handleUnexpectedInflightException_def
  by (elim bindE_InrE) (auto dest!: assertionEnded_counted)

lemma react_state [simp]: "react x = Inr (out, rc') \<longleftrightarrow>
    rc' = snd x \<and> out = (if shouldThrow (fst x) then Thrown TestFailureException else Finished)"
  by (cases x) (auto simp: react_def)

lemma messages_counted [simp]: "counted rc (rc'\<lparr>m_messages := ms\<rparr>) = counted rc rc'"
  by (simp add: counted_def)

lemma unexpected_counted:
  assumes "unexpected ts info e rc = Inr (out, rc')"
  shows "counted rc rc'"
proof (cases "translateActiveException (ts_translators ts) e")
  case (Inl e')
  with assms obtain rc1 where "handleIncomplete info rc = Inr rc1" "rc' = rc1\<lparr>m_messages := m_messages rc\<rparr>"
    unfolding unexpected_def by (auto elim!: bindE_InrE)
  then show ?thesis by (auto simp: handleIncomplete_def dest!: assertionEnded_counted)
next
  case (Inr m)
  with assms obtain x where "handleUnexpectedInflightException (ts_config ts) info m rc = Inr x" "rc' = snd x"
    unfolding unexpected_def by (auto elim!: bindE_InrE)
  then show ?thesis by (cases x) (auto dest!: inflight_counted)
qed

lemma exec_throws_counted:
  assumes "exec_throws ts info e rc = Inr (out, rc')"
  shows "counted rc rc'"
  using assms unfolding exec_throws_def handleUnexpectedExceptionNotThrown_def
  by (auto split: if_splits option.splits elim!: bindE_InrE dest!: handleNonExpr_counted unexpected_counted)

lemma sectionStartedE:
  assumes "sectionStarted info rc = Inr (inc, prev, rc')"
  obtains p cx t where
    "acquire_section \<lparr>nl_name = si_name info, nl_location = si_lineInfo info\<rparr> (m_trackerContext rc) = Inr (p, cx)"
    and "tracker_at p cx = Inr t" and "inc = isOpen t"
    and "rc' = (if inc then report (Ev_sectionStarting info) (rc\<lparr>m_trackerContext := cx,
           m_activeSections := m_activeSections rc @ [p],
           m_lastAssertionInfo := (m_lastAssertionInfo rc)\<lparr>ai_lineInfo := si_lineInfo info\<rparr>\<rparr>)
         else rc\<lparr>m_trackerContext := cx\<rparr>)"
    and "prev = (if inc then assertions (m_totals rc) else 0)"
proof -
  from assms obtain x where x: "acquire_section \<lparr>nl_name = si_name info, nl_location = si_lineInfo info\<rparr>
      (m_trackerContext rc) = Inr x"
    unfolding sectionStarted_def by (elim bindE_InrE) blast
  obtain p cx where p: "x = (p, cx)" by (cases x)
  with assms x obtain t where "tracker_at p cx = Inr t" unfolding sectionStarted_def by (auto elim!: bindE_InrE)
  with assms x p show ?thesis by (intro that [of p cx t]) (auto simp: sectionStarted_def Let_def split: if_splits)
qed

lemma sectionStarted_counted:
  assumes "sectionStarted info rc = Inr (inc, prev, rc')"
  shows "counted rc rc'"
  using assms
proof (rule sectionStartedE)
  fix p cx t
  assume "rc' = (if inc then report (Ev_sectionStarting info) (rc\<lparr>m_trackerContext := cx,
           m_activeSections := m_activeSections rc @ [p],
           m_lastAssertionInfo := (m_lastAssertionInfo rc)\<lparr>ai_lineInfo := si_lineInfo info\<rparr>\<rparr>)
         else rc\<lparr>m_trackerContext := cx\<rparr>)"
  then show ?thesis
    by (intro countedI [where es = "if inc then [Ev_sectionStarting info] else []"]) (simp_all add: report_def)
qed

lemma missing_counted:
  assumes "testForMissingAssertions config c rc = Inr (missing, c', rc')"
  shows "rc' = (if missing then add_assertion one_failed rc else rc)"
  using assms unfolding testForMissingAssertions_def
  by (auto split: if_splits elim!: bindE_InrE)

lemma rc_trackerE:
  assumes "rc_tracker f rc = Inr rc'"
  obtains cx where "rc' = rc\<lparr>m_trackerContext := cx\<rparr>"
  using assms unfolding rc_tracker_def by (auto elim!: bindE_InrE)

lemma sectionEnded_counted:
  assumes "rc_sectionEnded config nxt endInfo rc = Inr rc'"
  shows "counted rc rc'"
proof -
  from assms obtain missing c rc1 rc2 where
    m: "testForMissingAssertions config (assertions (m_totals rc) - prevAssertions endInfo) rc = Inr (missing, c, rc1)"
    and a: "(if m_activeSections rc1 \<noteq> [] then close_activeSection nxt rc1 else Inr rc1) = Inr rc2"
    and rc': "rc' = clear_messages (report (Ev_sectionEnded
         \<lparr>ss_sectionInfo = se_sectionInfo endInfo, ss_assertions = c, missingAssertions = missing\<rparr>) rc2)"
    unfolding rc_sectionEnded_def by (auto elim!: bindE_InrE)
  from a have "same_counts rc1 rc2"
    by (auto simp: same_counts_def close_activeSection_def split: if_splits elim!: bindE_InrE rc_trackerE)
  then show ?thesis using missing_counted [OF m]
    by (intro countedI [where es = "[Ev_sectionEnded \<lparr>ss_sectionInfo = se_sectionInfo endInfo, ss_assertions = c, missingAssertions = missing\<rparr>]"])
      (auto simp: rc' clear_messages_def clear_messageScopes_eq report_def same_counts_def add_assertion_def)
qed

lemma early_counted:
  assumes "sectionEndedEarly nxt endInfo rc = Inr rc'"
  shows "counted rc rc'"
  using assms unfolding sectionEndedEarly_def
  by (auto intro!: same_counted simp: same_counts_def split: if_splits elim!: bindE_InrE rc_trackerE)

lemma leave_section_counted:
  assumes "leave_section ts nxt endInfo (out, rc) = Inr (out', rc')"
  shows "counted rc rc'"
  using assms unfolding leave_section_def
  by (auto split: outcome.splits elim!: bindE_InrE dest!: sectionEnded_counted early_counted)

lemma pop_counted [simp]: "counted rc (popScopedMessage m rc') = counted rc rc'"
  by (simp add: popScopedMessage_def)

lemma build_counted: "build_message macro line ty message rc = (m, rc1) \<Longrightarrow> counted rc1 rc' \<Longrightarrow> counted rc rc'"
  by (erule counted_trans [rotated], rule same_counted) (auto simp: build_message_def new_MessageInfo_def same_counts_def)

lemma exec_counted:
  "exec ts nxt s rc = Inr (out, rc') \<Longrightarrow> counted rc rc'"
  "exec_all ts nxt ss rc = Inr (out, rc') \<Longrightarrow> counted rc rc'"
proof (induction ts nxt s rc and ts nxt ss rc arbitrary: out rc' and out rc' rule: exec_exec_all.induct)
  case (1 ts nxt info expr rc)
  then show ?case by (auto elim!: bindE_InrE dest: handleExpr_counted)
next
  case (3 ts nxt info rc)
  then show ?case by (auto elim!: bindE_InrE dest: handleNonExpr_counted)
next
  case (7 ts nxt info ty message rc)
  then show ?case by (auto elim!: bindE_InrE dest: handleMessage_counted)
next
  case (8 ts nxt macro line message body rc)
  obtain m rc1 where b: "build_message macro line RW_Info message rc = (m, rc1)"
    by (cases "build_message macro line RW_Info message rc")
  with 8(2) obtain out2 rc2 where e: "exec_all ts nxt body (pushScopedMessage m rc1) = Inr (out2, rc2)"
    "leave_scope m (out2, rc2) = Inr (out, rc')" by (auto elim!: bindE_InrE)
  from 8(1) [OF b [symmetric] refl e(1)] have "counted rc rc2"
    by (intro build_counted [OF b]) (simp add: pushScopedMessage_def counted_def)
  with e(2) show ?case by (auto simp: leave_scope_def split: outcome.splits)
next
  case (9 ts nxt macro line message rc)
  obtain m rc1 where b: "build_message macro line RW_Info message rc = (m, rc1)"
    by (cases "build_message macro line RW_Info message rc")
  have "counted rc1 (emplaceUnscopedMessage m rc1)"
    by (intro same_counted) (simp add: same_counts_def emplaceUnscopedMessage_def pushScopedMessage_def)
  with 9 b build_counted [OF b] show ?case by auto
next
  case (10 ts nxt info body rc)
  from 10(2) obtain inc prev rc1 where st: "sectionStarted info rc = Inr (inc, prev, rc1)"
    and r: "\<not> inc \<and> rc' = rc1 \<or> inc \<and> bindE (exec_all ts nxt body rc1)
      (leave_section ts nxt \<lparr>se_sectionInfo = info, prevAssertions = prev\<rparr>) = Inr (out, rc')"
    by (auto elim!: bindE_InrE split: if_splits)
  have c1: "counted rc rc1" by (rule sectionStarted_counted [OF st])
  show ?case
  proof (cases inc)
    case True
    with r obtain out2 rc2 where e: "exec_all ts nxt body rc1 = Inr (out2, rc2)"
      "leave_section ts nxt \<lparr>se_sectionInfo = info, prevAssertions = prev\<rparr> (out2, rc2) = Inr (out, rc')"
      by (auto elim!: bindE_InrE)
    have "counted rc1 rc2" by (rule 10(1) [OF st refl refl _ e(1)]) (simp add: True)
    with c1 leave_section_counted [OF e(2)] show ?thesis by (blast intro: counted_trans)
  qed (use c1 r in simp)
next
  case (13 ts nxt s ss rc)
  from 13(3) obtain out1 rc1 where e: "exec ts nxt s rc = Inr (out1, rc1)"
    and r: "(case out1 of Finished \<Rightarrow> exec_all ts nxt ss rc1 | Thrown e \<Rightarrow> Inr (Thrown e, rc1)) = Inr (out, rc')"
    by (auto elim!: bindE_InrE)
  have c: "counted rc rc1" by (rule 13(1) [OF e])
  show ?case
  proof (cases out1)
    case Finished
    with r have "counted rc1 rc'" by (intro 13(2) [OF e refl Finished]) simp
    with c show ?thesis by (rule counted_trans)
  qed (use r c in simp)
qed (auto dest: unexpected_counted exec_throws_counted)


lemma escaped_counted:
  assumes "handle_escaped ts (out, rc) = Inr rc'"
  shows "counted rc rc'"
  using assms unfolding handle_escaped_def
  by (auto split: outcome.splits cpp_exn.splits sum.splits if_splits elim!: bindE_InrE dest!: inflight_counted)

lemma missing_same_counted: "same_counts rc rc' \<Longrightarrow> counted rc0 rc \<Longrightarrow> counted rc0 rc'"
  by (blast intro: counted_trans same_counted)

lemma unfinished_counted:
  assumes "handleUnfinishedSections config nxt rc = Inr rc'"
  shows "counted rc rc'"
proof -
  have "foldE (rc_sectionEnded config nxt) us rc = Inr rc1 \<Longrightarrow> counted rc rc1" for us rc rc1
    by (induction us arbitrary: rc)
      (auto elim!: bindE_InrE dest: sectionEnded_counted intro: counted_trans)
  with assms show ?thesis unfolding handleUnfinishedSections_def
    by (elim bindE_InrE) (auto intro: missing_same_counted simp: same_counts_def)
qed

text \<open>
  The states of \<open>runCurrentTest\<close>: after the body, after the exception, the test for missing
  assertions, the tracker and the unfinished sections.
\<close>

lemma runCurrentTestE:
  assumes "runCurrentTest ts nxt body rc = Inr rc'"
  obtains info rc1 out rc2 rc3 missing c rc4 cx rc5 where "m_activeTestCase rc = Some info"
    and "rc1 = (report (Ev_sectionStarting \<lparr>si_name = ti_name info, si_lineInfo = ti_lineInfo info\<rparr>) rc)
        \<lparr>m_shouldReportUnexpected := True,
         m_lastAssertionInfo := \<lparr>ai_macroName = ''TEST_CASE'', ai_lineInfo = ti_lineInfo info, capturedExpression = [],
             resultDisposition = RD_Normal\<rparr>,
         rc_rng := seedRng (registry_config (ts_config ts)) (rc_rng rc)\<rparr>"
    and "exec_all ts nxt body rc1 = Inr (out, rc2)" and "handle_escaped ts (out, rc2) = Inr rc3"
    and "testForMissingAssertions (ts_config ts) (assertions (m_totals rc3) - assertions (m_totals rc)) rc3 = Inr (missing, c, rc4)"
    and "\<exists>p. m_testCaseTracker rc4 = Some p \<and> tracker_close nxt p (m_trackerContext rc4) = Inr cx"
    and "handleUnfinishedSections (ts_config ts) nxt (rc4\<lparr>m_trackerContext := cx\<rparr>) = Inr rc5"
    and "rc' = report (Ev_sectionEnded \<lparr>ss_sectionInfo = \<lparr>si_name = ti_name info, si_lineInfo = ti_lineInfo info\<rparr>,
      ss_assertions = c, missingAssertions = missing\<rparr>) (clear_messages rc5)"
proof -
  from assms obtain info where info: "m_activeTestCase rc = Some info"
    unfolding runCurrentTest_def by (auto simp: activeTestInfo_def elim!: bindE_InrE split: option.splits)
  define rc1 where rc1: "rc1 = (report (Ev_sectionStarting \<lparr>si_name = ti_name info, si_lineInfo = ti_lineInfo info\<rparr>) rc)
        \<lparr>m_shouldReportUnexpected := True,
         m_lastAssertionInfo := \<lparr>ai_macroName = ''TEST_CASE'', ai_lineInfo = ti_lineInfo info, capturedExpression = [],
             resultDisposition = RD_Normal\<rparr>,
         rc_rng := seedRng (registry_config (ts_config ts)) (rc_rng rc)\<rparr>"
  have r: "bindE (bindE (exec_all ts nxt body rc1) (handle_escaped ts)) (\<lambda>rc2.
        bindE (testForMissingAssertions (ts_config ts) (assertions (m_totals rc2) - assertions (m_totals rc)) rc2) (\<lambda>(missing, c, rc3).
        bindE (case m_testCaseTracker rc3 of None \<Rightarrow> Inl Undefined | Some p \<Rightarrow> rc_tracker (tracker_close nxt p) rc3) (\<lambda>rc4.
        bindE (handleUnfinishedSections (ts_config ts) nxt rc4) (\<lambda>rc5.
          Inr (report (Ev_sectionEnded \<lparr>ss_sectionInfo = \<lparr>si_name = ti_name info, si_lineInfo = ti_lineInfo info\<rparr>,
            ss_assertions = c, missingAssertions = missing\<rparr>) (clear_messages rc5)))))) = Inr rc'"
    using assms info by (simp add: runCurrentTest_def activeTestInfo_def Let_def rc1 report_def)
  from bindE_InrE [OF r] obtain rc3 where 1: "bindE (exec_all ts nxt body rc1) (handle_escaped ts) = Inr rc3"
    and r1: "bindE (testForMissingAssertions (ts_config ts) (assertions (m_totals rc3) - assertions (m_totals rc)) rc3) (\<lambda>(missing, c, rc3).
        bindE (case m_testCaseTracker rc3 of None \<Rightarrow> Inl Undefined | Some p \<Rightarrow> rc_tracker (tracker_close nxt p) rc3) (\<lambda>rc4.
        bindE (handleUnfinishedSections (ts_config ts) nxt rc4) (\<lambda>rc5.
          Inr (report (Ev_sectionEnded \<lparr>ss_sectionInfo = \<lparr>si_name = ti_name info, si_lineInfo = ti_lineInfo info\<rparr>,
            ss_assertions = c, missingAssertions = missing\<rparr>) (clear_messages rc5))))) = Inr rc'" by blast
  from bindE_InrE [OF 1] obtain out rc2 where
    e: "exec_all ts nxt body rc1 = Inr (out, rc2)" "handle_escaped ts (out, rc2) = Inr rc3" by (metis surj_pair)
  from bindE_InrE [OF r1] obtain missing c rc4 where m: "testForMissingAssertions (ts_config ts)
      (assertions (m_totals rc3) - assertions (m_totals rc)) rc3 = Inr (missing, c, rc4)"
    and r2: "bindE (case m_testCaseTracker rc4 of None \<Rightarrow> Inl Undefined | Some p \<Rightarrow> rc_tracker (tracker_close nxt p) rc4) (\<lambda>rc4.
        bindE (handleUnfinishedSections (ts_config ts) nxt rc4) (\<lambda>rc5.
          Inr (report (Ev_sectionEnded \<lparr>ss_sectionInfo = \<lparr>si_name = ti_name info, si_lineInfo = ti_lineInfo info\<rparr>,
            ss_assertions = c, missingAssertions = missing\<rparr>) (clear_messages rc5)))) = Inr rc'"
    by (metis (no_types, lifting) case_prod_conv surj_pair)
  from r2 obtain cx rc5 where "\<exists>p. m_testCaseTracker rc4 = Some p \<and> tracker_close nxt p (m_trackerContext rc4) = Inr cx"
    "handleUnfinishedSections (ts_config ts) nxt (rc4\<lparr>m_trackerContext := cx\<rparr>) = Inr rc5"
    "rc' = report (Ev_sectionEnded \<lparr>ss_sectionInfo = \<lparr>si_name = ti_name info, si_lineInfo = ti_lineInfo info\<rparr>,
      ss_assertions = c, missingAssertions = missing\<rparr>) (clear_messages rc5)"
    by (elim bindE_InrE) (auto simp: rc_tracker_def split: option.splits elim!: bindE_InrE)
  with that info rc1 e m show ?thesis by blast
qed

lemma runCurrentTest_counted:
  assumes "runCurrentTest ts nxt body rc = Inr rc'"
  shows "counted rc rc'"
  using assms
proof (rule runCurrentTestE)
  fix info rc1 out rc2 rc3 missing c rc4 cx rc5
  assume 1: "rc1 = (report (Ev_sectionStarting \<lparr>si_name = ti_name info, si_lineInfo = ti_lineInfo info\<rparr>) rc)
        \<lparr>m_shouldReportUnexpected := True,
         m_lastAssertionInfo := \<lparr>ai_macroName = ''TEST_CASE'', ai_lineInfo = ti_lineInfo info, capturedExpression = [],
             resultDisposition = RD_Normal\<rparr>,
         rc_rng := seedRng (registry_config (ts_config ts)) (rc_rng rc)\<rparr>"
    and 2: "exec_all ts nxt body rc1 = Inr (out, rc2)" "handle_escaped ts (out, rc2) = Inr rc3"
    and 3: "testForMissingAssertions (ts_config ts) (assertions (m_totals rc3) - assertions (m_totals rc)) rc3 = Inr (missing, c, rc4)"
    and 4: "handleUnfinishedSections (ts_config ts) nxt (rc4\<lparr>m_trackerContext := cx\<rparr>) = Inr rc5"
    and 5: "rc' = report (Ev_sectionEnded \<lparr>ss_sectionInfo = \<lparr>si_name = ti_name info, si_lineInfo = ti_lineInfo info\<rparr>,
      ss_assertions = c, missingAssertions = missing\<rparr>) (clear_messages rc5)"
  have "counted rc rc1"
    by (rule countedI [where es = "[Ev_sectionStarting \<lparr>si_name = ti_name info, si_lineInfo = ti_lineInfo info\<rparr>]"])
      (simp_all add: 1 report_def)
  with 2 have "counted rc rc3" by (blast intro: counted_trans exec_counted escaped_counted)
  then obtain es n where es: "m_reported rc3 = m_reported rc @ es" "m_activeTestCase rc3 = m_activeTestCase rc"
    "m_includeSuccessfulResults rc3 = m_includeSuccessfulResults rc" "m_includeSuccessfulResults rc \<longrightarrow> n = 0"
    "m_totals rc3 = Totals (error (m_totals rc)) (assertions (m_totals rc) +
       events_counts (\<exists>info. m_activeTestCase rc = Some info \<and> okToFail info) es + Counts n 0 0) (testCases (m_totals rc))"
    unfolding counted_def by blast
  from unfinished_counted [OF 4] missing_counted [OF 3] obtain es' n' where
    es': "m_reported rc5 = m_reported rc3 @ es'" "m_activeTestCase rc5 = m_activeTestCase rc3"
    "m_includeSuccessfulResults rc5 = m_includeSuccessfulResults rc3" "m_includeSuccessfulResults rc3 \<longrightarrow> n' = 0"
    "m_totals rc5 = Totals (error (m_totals rc3)) (assertions (m_totals rc3) + (if missing then one_failed else 0) +
       events_counts (\<exists>info. m_activeTestCase rc3 = Some info \<and> okToFail info) es' + Counts n' 0 0) (testCases (m_totals rc3))"
    by (auto simp: counted_def add_assertion_def split: if_splits)
  have nn: "Counts n' 0 0 + Counts n 0 0 = Counts (n' + n) 0 0" by (intro counts_eqI) simp_all
  show "counted rc rc'"
    unfolding counted_def 5 using es es'
    by (intro exI [of _ "es @ es' @ [Ev_sectionEnded \<lparr>ss_sectionInfo = \<lparr>si_name = ti_name info, si_lineInfo = ti_lineInfo info\<rparr>,
      ss_assertions = c, missingAssertions = missing\<rparr>]"] exI [of _ "n + n'"])
      (simp add: report_def clear_messages_def clear_messageScopes_eq nn algebra_simps)
qed

subsection \<open>The sections the reporter sees\<close>

text \<open>
  Sections on a stack: an end must name the section that was started last. Inside of a test case the
  reporter is told of sections and assertions only.
\<close>

fun nest :: "reporter_event list \<Rightarrow> SectionInfo list \<Rightarrow> SectionInfo list option" where
  "nest [] st = Some st"
| "nest (Ev_sectionStarting s # es) st = nest es (s # st)"
| "nest (Ev_sectionEnded e # es) st = (case st of [] \<Rightarrow> None
     | s # st' \<Rightarrow> if s = ss_sectionInfo e then nest es st' else None)"
| "nest (Ev_assertionStarting _ # es) st = nest es st"
| "nest (Ev_assertionEnded _ # es) st = nest es st"
| "nest (_ # es) st = None"

fun no_section :: "reporter_event \<Rightarrow> bool" where
  "no_section (Ev_assertionStarting _) \<longleftrightarrow> True"
| "no_section (Ev_assertionEnded _) \<longleftrightarrow> True"
| "no_section _ \<longleftrightarrow> False"

lemma nest_append: "nest (es @ es') st = Option.bind (nest es st) (nest es')"
  by (induction es st rule: nest.induct) (auto split: list.splits)

lemma nest_flat [simp]: "list_all no_section es \<Longrightarrow> nest es st = Some st"
  by (induction es st rule: nest.induct) auto

text \<open>An assertion or a message: no section starts or ends and the trackers stay as they are.\<close>

definition flat :: "'g RunContext \<Rightarrow> 'g RunContext \<Rightarrow> bool" where
  "flat rc rc' \<longleftrightarrow> (\<exists>es. m_reported rc' = m_reported rc @ es \<and> list_all no_section es) \<and>
     m_trackerContext rc' = m_trackerContext rc \<and> m_activeSections rc' = m_activeSections rc \<and>
     m_unfinishedSections rc' = m_unfinishedSections rc \<and> m_testCaseTracker rc' = m_testCaseTracker rc"

lemma flatI:
  assumes "m_reported rc' = m_reported rc @ es" and "list_all no_section es"
    and "m_trackerContext rc' = m_trackerContext rc" and "m_activeSections rc' = m_activeSections rc"
    and "m_unfinishedSections rc' = m_unfinishedSections rc" and "m_testCaseTracker rc' = m_testCaseTracker rc"
  shows "flat rc rc'"
  using assms by (auto simp: flat_def)

lemma flat_trans: "flat rc rc1 \<Longrightarrow> flat rc1 rc2 \<Longrightarrow> flat rc rc2"
  unfolding flat_def by (metis append.assoc list_all_append)

lemma count_result_flat: "count_result r rc = Inr rc1 \<Longrightarrow> flat rc rc1"
  by (intro flatI [where es = "[]"])
    (auto simp: count_result_def add_assertion_def split: if_splits elim!: bindE_InrE)

lemma assertionEnded_flat:
  assumes "rc_assertionEnded r rc = Inr rc'"
  shows "flat rc rc'"
proof -
  from assms obtain rc1 where c: "count_result r rc = Inr rc1"
    and rc': "rc' = (let (stats, rc2) = new_AssertionStats r rc1; rc3 = report (Ev_assertionEnded stats) rc2;
      rc4 = (if getResultType r \<noteq> RW_Warning then clear_messageScopes rc3 else rc3)
     in (resetAssertionInfo rc4)\<lparr>m_lastResult := Some r\<rparr>)"
    unfolding rc_assertionEnded_def by (elim bindE_InrE) (simp add: Let_def split: prod.splits)
  obtain st rc2 where n: "new_AssertionStats r rc1 = (st, rc2)" by (cases "new_AssertionStats r rc1")
  then have "flat rc1 rc2"
    by (intro flatI [where es = "[]"]) (auto simp: new_AssertionStats_def build_message_def new_MessageInfo_def Let_def split: if_splits)
  moreover have "flat rc2 rc'"
    by (intro flatI [where es = "[Ev_assertionEnded st]"])
      (simp_all add: rc' n Let_def report_def clear_messageScopes_eq resetAssertionInfo_def)
  ultimately show ?thesis using count_result_flat [OF c] by (blast intro: flat_trans)
qed

lemma flat_simps [simp]:
  "flat (rc\<lparr>m_lastAssertionInfo := info\<rparr>) rc' = flat rc rc'"
  "flat rc (rc'\<lparr>m_messages := ms\<rparr>) = flat rc rc'"
  "flat rc (popScopedMessage m rc') = flat rc rc'"
  by (simp_all add: flat_def popScopedMessage_def)

lemma flat_info: "flat (report (Ev_assertionStarting info) rc) rc' \<Longrightarrow> flat rc rc'"
  by (erule flat_trans [rotated]) (rule flatI [where es = "[Ev_assertionStarting info]"], simp_all add: report_def)

lemma handleExpr_flat:
  assumes "rc_handleExpr config info expr reaction rc = Inr x"
  shows "flat rc (snd x)"
proof (rule flat_info)
  let ?rc = "report (Ev_assertionStarting info) rc"
  from assms consider "snd x = assertionPassed ?rc"
    | ty where "reportExpr info ty expr (isFalseTest (resultDisposition info)) ?rc = Inr (snd x)"
    by (auto simp: rc_handleExpr_def Let_def bindE_eq_Inr split: if_splits)
  then show "flat ?rc (snd x)"
  proof cases
    case 1
    then show ?thesis
      by (intro flatI [where es = "[]"]) (simp_all add: assertionPassed_def rc_quiet add_assertion_def)
  next
    case 2
    then show ?thesis unfolding reportExpr_def using assertionEnded_flat by fastforce
  qed
qed

lemma handleMessage_flat: "rc_handleMessage config info ty message reaction rc = Inr x \<Longrightarrow> flat rc (snd x)"
  unfolding rc_handleMessage_def by (elim bindE_InrE) (auto dest!: assertionEnded_flat intro: flat_info)

lemma handleNonExpr_flat: "handleNonExpr config info ty reaction rc = Inr x \<Longrightarrow> flat rc (snd x)"
  unfolding handleNonExpr_def by (elim bindE_InrE) (auto dest!: assertionEnded_flat)

lemma inflight_flat: "handleUnexpectedInflightException config info message rc = Inr x \<Longrightarrow> flat rc (snd x)"
  unfolding handleUnexpectedInflightException_def by (elim bindE_InrE) (auto dest!: assertionEnded_flat)

lemma unexpected_flat:
  assumes "unexpected ts info e rc = Inr (out, rc')"
  shows "flat rc rc'"
proof (cases "translateActiveException (ts_translators ts) e")
  case (Inl e')
  with assms obtain rc1 where "handleIncomplete info rc = Inr rc1" "rc' = rc1\<lparr>m_messages := m_messages rc\<rparr>"
    unfolding unexpected_def by (auto elim!: bindE_InrE)
  then show ?thesis by (auto simp: handleIncomplete_def dest!: assertionEnded_flat)
next
  case (Inr m)
  with assms show ?thesis unfolding unexpected_def by (auto elim!: bindE_InrE dest!: inflight_flat)
qed

lemma exec_throws_flat: "exec_throws ts info e rc = Inr (out, rc') \<Longrightarrow> flat rc rc'"
  unfolding exec_throws_def handleUnexpectedExceptionNotThrown_def
  by (auto split: if_splits option.splits elim!: bindE_InrE dest!: handleNonExpr_flat unexpected_flat)

lemma build_flat: "build_message macro line ty message rc = (m, rc1) \<Longrightarrow> flat rc rc1"
  by (rule flatI [where es = "[]"]) (auto simp: build_message_def new_MessageInfo_def)

fun simple_stmt :: "stmt \<Rightarrow> bool" where
  "simple_stmt (Section _ _) \<longleftrightarrow> False"
| "simple_stmt (Info _ _ _ _) \<longleftrightarrow> False"
| "simple_stmt _ \<longleftrightarrow> True"

lemma exec_flat:
  assumes "exec ts nxt s rc = Inr (out, rc')" and "simple_stmt s"
  shows "flat rc rc'"
proof (cases s)
  case (Check info r)
  with assms show ?thesis by (cases r) (auto elim!: bindE_InrE dest: handleExpr_flat unexpected_flat)
next
  case (NoThrow info r)
  with assms show ?thesis by (cases r) (auto elim!: bindE_InrE dest: handleNonExpr_flat unexpected_flat)
next
  case (UnscopedInfo macro line message)
  obtain m rc1 where b: "build_message macro line RW_Info message rc = (m, rc1)"
    by (cases "build_message macro line RW_Info message rc")
  have "flat rc1 (emplaceUnscopedMessage m rc1)"
    by (rule flatI [where es = "[]"]) (simp_all add: emplaceUnscopedMessage_def pushScopedMessage_def)
  with UnscopedInfo assms b build_flat [OF b] show ?thesis by (auto intro: flat_trans)
next
  case (Throw e)
  with assms show ?thesis by (auto intro!: flatI [where es = "[]"])
qed (use assms in \<open>auto elim!: bindE_InrE dest: handleMessage_flat exec_throws_flat\<close>)

text \<open>What a part of a test reports: its sections nest, but for those it left early.\<close>

definition nests :: "SectionEndInfo list \<Rightarrow> 'g RunContext \<Rightarrow> 'g RunContext \<Rightarrow> bool" where
  "nests us rc rc' \<longleftrightarrow> (\<exists>es. m_reported rc' = m_reported rc @ es \<and> (\<forall>st. nest es st = Some (map se_sectionInfo us @ st))) \<and>
     m_unfinishedSections rc' = m_unfinishedSections rc @ us \<and> m_testCaseTracker rc' = m_testCaseTracker rc"

lemma nestsI:
  assumes "m_reported rc' = m_reported rc @ es" and "\<And>st. nest es st = Some (map se_sectionInfo us @ st)"
    and "m_unfinishedSections rc' = m_unfinishedSections rc @ us" and "m_testCaseTracker rc' = m_testCaseTracker rc"
  shows "nests us rc rc'"
  using assms by (auto simp: nests_def)

lemma flat_nests: "flat rc rc' \<Longrightarrow> nests [] rc rc'"
  by (auto simp: flat_def intro: nestsI)

lemma nests_trans:
  assumes "nests [] rc rc1" and "nests us rc1 rc2"
  shows "nests us rc rc2"
proof -
  from assms obtain es es' where "m_reported rc1 = m_reported rc @ es" "\<forall>st. nest es st = Some st"
    "m_reported rc2 = m_reported rc1 @ es'" "\<forall>st. nest es' st = Some (map se_sectionInfo us @ st)"
    unfolding nests_def by auto
  with assms show ?thesis by (intro nestsI [where es = "es @ es'"]) (simp_all add: nest_append nests_def)
qed

lemma sectionEnded_event:
  assumes "rc_sectionEnded config nxt endInfo rc = Inr rc'"
  shows "\<exists>e. m_reported rc' = m_reported rc @ [Ev_sectionEnded e] \<and> ss_sectionInfo e = se_sectionInfo endInfo \<and>
    m_unfinishedSections rc' = m_unfinishedSections rc \<and> m_testCaseTracker rc' = m_testCaseTracker rc"
proof -
  from assms obtain missing c rc1 rc2 where
    m: "testForMissingAssertions config (assertions (m_totals rc) - prevAssertions endInfo) rc = Inr (missing, c, rc1)"
    and a: "(if m_activeSections rc1 \<noteq> [] then close_activeSection nxt rc1 else Inr rc1) = Inr rc2"
    and rc': "rc' = clear_messages (report (Ev_sectionEnded
         \<lparr>ss_sectionInfo = se_sectionInfo endInfo, ss_assertions = c, missingAssertions = missing\<rparr>) rc2)"
    unfolding rc_sectionEnded_def by (auto elim!: bindE_InrE)
  from a have "flat rc1 rc2 \<or> m_reported rc2 = m_reported rc1 \<and> m_unfinishedSections rc2 = m_unfinishedSections rc1 \<and>
      m_testCaseTracker rc2 = m_testCaseTracker rc1"
    by (auto simp: close_activeSection_def split: if_splits elim!: bindE_InrE rc_trackerE)
  then show ?thesis using missing_counted [OF m] a
    by (auto simp: rc' clear_messages_def clear_messageScopes_eq report_def add_assertion_def close_activeSection_def
        split: if_splits elim!: bindE_InrE rc_trackerE)
qed

lemma early_state:
  assumes "sectionEndedEarly nxt endInfo rc = Inr rc'"
  shows "m_reported rc' = m_reported rc \<and> m_unfinishedSections rc' = m_unfinishedSections rc @ [endInfo] \<and>
    m_testCaseTracker rc' = m_testCaseTracker rc"
  using assms unfolding sectionEndedEarly_def by (auto split: if_splits elim!: bindE_InrE rc_trackerE)

lemma exec_nests:
  "exec ts nxt s rc = Inr (out, rc') \<Longrightarrow> \<exists>us. nests us rc rc' \<and> (out = Finished \<longrightarrow> us = [])"
  "exec_all ts nxt ss rc = Inr (out, rc') \<Longrightarrow> \<exists>us. nests us rc rc' \<and> (out = Finished \<longrightarrow> us = [])"
proof (induction ts nxt s rc and ts nxt ss rc arbitrary: out rc' and out rc' rule: exec_exec_all.induct)
  case (8 ts nxt macro line message body rc)
  obtain m rc1 where b: "build_message macro line RW_Info message rc = (m, rc1)"
    by (cases "build_message macro line RW_Info message rc")
  with 8(2) obtain out2 rc2 where e: "exec_all ts nxt body (pushScopedMessage m rc1) = Inr (out2, rc2)"
    "leave_scope m (out2, rc2) = Inr (out, rc')" by (auto elim!: bindE_InrE)
  from 8(1) [OF b [symmetric] refl e(1)] obtain us where
    "nests us (pushScopedMessage m rc1) rc2" "out2 = Finished \<longrightarrow> us = []" by blast
  moreover have "nests [] rc (pushScopedMessage m rc1)"
    using build_flat [OF b] by (intro flat_nests) (simp add: pushScopedMessage_def)
  ultimately have "nests us rc rc2" "out2 = Finished \<longrightarrow> us = []" by (auto intro: nests_trans)
  with e(2) show ?case
    by (auto simp: leave_scope_def nests_def popScopedMessage_def split: outcome.splits intro!: exI [of _ us])
next
  case (10 ts nxt info body rc)
  from 10(2) obtain inc prev rc1 where st: "sectionStarted info rc = Inr (inc, prev, rc1)"
    and r: "\<not> inc \<and> rc' = rc1 \<and> out = Finished \<or> inc \<and> bindE (exec_all ts nxt body rc1)
      (leave_section ts nxt \<lparr>se_sectionInfo = info, prevAssertions = prev\<rparr>) = Inr (out, rc')"
    by (auto elim!: bindE_InrE split: if_splits)
  show ?case
  proof (cases inc)
    case False
    with r st have "nests [] rc rc'" by (auto elim!: sectionStartedE intro!: nestsI [where es = "[]"])
    with r False show ?thesis by auto
  next
    case True
    with r obtain out2 rc2 where e: "exec_all ts nxt body rc1 = Inr (out2, rc2)"
      "leave_section ts nxt \<lparr>se_sectionInfo = info, prevAssertions = prev\<rparr> (out2, rc2) = Inr (out, rc')"
      by (auto elim!: bindE_InrE)
    from st True have r1: "m_reported rc1 = m_reported rc @ [Ev_sectionStarting info]"
      "m_unfinishedSections rc1 = m_unfinishedSections rc" "m_testCaseTracker rc1 = m_testCaseTracker rc"
      by (auto elim!: sectionStartedE simp: report_def)
    from 10(1) [OF st refl refl _ e(1)] True obtain us es where us: "out2 = Finished \<longrightarrow> us = []"
      "m_reported rc2 = m_reported rc1 @ es" "\<forall>st. nest es st = Some (map se_sectionInfo us @ st)"
      "m_unfinishedSections rc2 = m_unfinishedSections rc1 @ us" "m_testCaseTracker rc2 = m_testCaseTracker rc1"
      unfolding nests_def by auto
    show ?thesis
    proof (cases out2)
      case Finished
      with e(2) obtain e where "m_reported rc' = m_reported rc2 @ [Ev_sectionEnded e]" "ss_sectionInfo e = info"
        "m_unfinishedSections rc' = m_unfinishedSections rc2" "m_testCaseTracker rc' = m_testCaseTracker rc2" "out = Finished"
        unfolding leave_section_def by (auto elim!: bindE_InrE dest!: sectionEnded_event)
      then have "nests [] rc rc'" using r1 us Finished
        by (intro nestsI [where es = "Ev_sectionStarting info # es @ [Ev_sectionEnded e]"]) (simp_all add: nest_append)
      then show ?thesis by blast
    next
      case (Thrown x)
      with e(2) have "m_reported rc' = m_reported rc2"
        "m_unfinishedSections rc' = m_unfinishedSections rc2 @ [\<lparr>se_sectionInfo = info, prevAssertions = prev\<rparr>]"
        "m_testCaseTracker rc' = m_testCaseTracker rc2" "out = Thrown x"
        unfolding leave_section_def by (auto elim!: bindE_InrE dest!: early_state)
      then have "nests (us @ [\<lparr>se_sectionInfo = info, prevAssertions = prev\<rparr>]) rc rc'" using r1 us
        by (intro nestsI [where es = "Ev_sectionStarting info # es"]) simp_all
      then show ?thesis using \<open>out = Thrown x\<close> by blast
    qed
  qed
next
  case (12 ts nxt rc)
  then show ?case by (auto intro!: exI [of _ "[]"] nestsI [where es = "[]"])
next
  case (13 ts nxt s ss rc)
  from 13(3) obtain out1 rc1 where e: "exec ts nxt s rc = Inr (out1, rc1)"
    and r: "(case out1 of Finished \<Rightarrow> exec_all ts nxt ss rc1 | Thrown e \<Rightarrow> Inr (Thrown e, rc1)) = Inr (out, rc')"
    by (auto elim!: bindE_InrE)
  from 13(1) [OF e] obtain us where us: "nests us rc rc1" "out1 = Finished \<longrightarrow> us = []" by blast
  show ?case
  proof (cases out1)
    case Finished
    with r obtain us' where "nests us' rc1 rc'" "out = Finished \<longrightarrow> us' = []" using 13(2) [OF e refl Finished] by auto
    with us Finished show ?thesis by (auto intro: nests_trans)
  qed (use r us in auto)
qed (auto dest!: exec_flat dest: flat_nests simp del: exec.simps)

lemma escaped_flat:
  assumes "handle_escaped ts (out, rc) = Inr rc'"
  shows "flat rc rc'"
proof -
  have "flat rc rc" by (rule flatI [where es = "[]"]) simp_all
  with assms show ?thesis unfolding handle_escaped_def
    by (auto split: outcome.splits cpp_exn.splits sum.splits if_splits elim!: bindE_InrE dest!: inflight_flat)
qed

lemma unfinished_events:
  assumes "handleUnfinishedSections config nxt rc = Inr rc'"
  shows "\<exists>ends. m_reported rc' = m_reported rc @ map Ev_sectionEnded ends \<and>
    map ss_sectionInfo ends = rev (map se_sectionInfo (m_unfinishedSections rc)) \<and> m_unfinishedSections rc' = [] \<and>
    m_testCaseTracker rc' = m_testCaseTracker rc"
proof -
  have "foldE (rc_sectionEnded config nxt) us rc = Inr rc1 \<Longrightarrow>
      \<exists>ends. m_reported rc1 = m_reported rc @ map Ev_sectionEnded ends \<and> map ss_sectionInfo ends = map se_sectionInfo us \<and>
        m_testCaseTracker rc1 = m_testCaseTracker rc" for us rc rc1
  proof (induction us arbitrary: rc)
    case (Cons u us)
    from Cons.prems obtain rc2 where s: "rc_sectionEnded config nxt u rc = Inr rc2"
      and f: "foldE (rc_sectionEnded config nxt) us rc2 = Inr rc1" by (auto elim!: bindE_InrE)
    from sectionEnded_event [OF s] obtain e where "m_reported rc2 = m_reported rc @ [Ev_sectionEnded e]"
      "ss_sectionInfo e = se_sectionInfo u" "m_testCaseTracker rc2 = m_testCaseTracker rc" by blast
    moreover from Cons.IH [OF f] obtain ends where "m_reported rc1 = m_reported rc2 @ map Ev_sectionEnded ends"
      "map ss_sectionInfo ends = map se_sectionInfo us" "m_testCaseTracker rc1 = m_testCaseTracker rc2" by blast
    ultimately show ?case by (intro exI [of _ "e # ends"]) simp
  qed simp
  with assms show ?thesis unfolding handleUnfinishedSections_def by (fastforce elim!: bindE_InrE simp: rev_map)
qed

lemma nest_ends:
  "length ends = length us \<Longrightarrow> nest (map Ev_sectionEnded ends @ es) (us @ st) =
     (if map ss_sectionInfo ends = us then nest es st else None)"
  by (induction ends us rule: list_induct2) auto

lemma runCurrentTest_sections:
  assumes "runCurrentTest ts nxt body rc = Inr rc'" and "m_unfinishedSections rc = []"
  obtains info :: TestCaseInfo and bs us ends e where "m_activeTestCase rc = Some info"
    "m_reported rc' = m_reported rc @
        Ev_sectionStarting \<lparr>si_name = ti_name info, si_lineInfo = ti_lineInfo info\<rparr> # bs @ map Ev_sectionEnded ends @ [Ev_sectionEnded e]"
    "\<And>st. nest bs st = Some (us @ st)" "map ss_sectionInfo ends = rev us"
    "ss_sectionInfo e = \<lparr>si_name = ti_name info, si_lineInfo = ti_lineInfo info\<rparr>" "m_unfinishedSections rc' = []"
  using assms(1)
proof (rule runCurrentTestE)
  fix info :: TestCaseInfo and rc1 out rc2 rc3 missing c rc4 cx rc5
  let ?T = "\<lparr>si_name = ti_name info, si_lineInfo = ti_lineInfo info\<rparr>"
  assume i: "m_activeTestCase rc = Some info"
    and 1: "rc1 = (report (Ev_sectionStarting \<lparr>si_name = ti_name info, si_lineInfo = ti_lineInfo info\<rparr>) rc)
        \<lparr>m_shouldReportUnexpected := True,
         m_lastAssertionInfo := \<lparr>ai_macroName = ''TEST_CASE'', ai_lineInfo = ti_lineInfo info, capturedExpression = [],
             resultDisposition = RD_Normal\<rparr>,
         rc_rng := seedRng (registry_config (ts_config ts)) (rc_rng rc)\<rparr>"
    and 2: "exec_all ts nxt body rc1 = Inr (out, rc2)" "handle_escaped ts (out, rc2) = Inr rc3"
    and 3: "testForMissingAssertions (ts_config ts) (assertions (m_totals rc3) - assertions (m_totals rc)) rc3 = Inr (missing, c, rc4)"
    and 4: "handleUnfinishedSections (ts_config ts) nxt (rc4\<lparr>m_trackerContext := cx\<rparr>) = Inr rc5"
    and 5: "rc' = report (Ev_sectionEnded \<lparr>ss_sectionInfo = \<lparr>si_name = ti_name info, si_lineInfo = ti_lineInfo info\<rparr>,
      ss_assertions = c, missingAssertions = missing\<rparr>) (clear_messages rc5)"
  from exec_nests(2) [OF 2(1)] obtain us es where es: "m_reported rc2 = m_reported rc1 @ es"
    "\<forall>st. nest es st = Some (map se_sectionInfo us @ st)" "m_unfinishedSections rc2 = m_unfinishedSections rc1 @ us"
    unfolding nests_def by blast
  from escaped_flat [OF 2(2)] obtain es' where es': "m_reported rc3 = m_reported rc2 @ es'" "list_all no_section es'"
    "m_unfinishedSections rc3 = m_unfinishedSections rc2" unfolding flat_def by blast
  have r4: "m_reported rc4 = m_reported rc3" "m_unfinishedSections rc4 = m_unfinishedSections rc3"
    using missing_counted [OF 3] by (auto simp: add_assertion_def)
  from unfinished_events [OF 4] obtain ends where ends: "m_reported rc5 = m_reported rc4 @ map Ev_sectionEnded ends"
    "map ss_sectionInfo ends = rev (map se_sectionInfo (m_unfinishedSections rc4))" "m_unfinishedSections rc5 = []" by auto
  let ?us = "map se_sectionInfo us" and ?bs = "es @ es'"
  let ?e = "\<lparr>ss_sectionInfo = ?T, ss_assertions = c, missingAssertions = missing\<rparr>"
  have unf: "m_unfinishedSections rc4 = us" using es(3) es'(3) r4 assms(2) by (simp add: 1 report_def)
  have rep: "m_reported rc' = m_reported rc @ Ev_sectionStarting ?T # ?bs @ map Ev_sectionEnded ends @ [Ev_sectionEnded ?e]"
    using es es' r4 ends by (simp add: 5 1 report_def clear_messages_def clear_messageScopes_eq)
  have bs: "nest ?bs st = Some (?us @ st)" for st using es(2) es'(2) by (simp add: nest_append)
  show ?thesis
    by (rule that [OF i rep bs]) (use ends unf in \<open>simp_all add: 5 report_def clear_messages_def clear_messageScopes_eq\<close>)
qed

text \<open>
  C29: One run through a test reports its sections like this. The section of the test case is started;
  the sections of the body start and end in a nested way, and those that an exception left are still
  open afterwards (the list \<open>us\<close>, the innermost first); they are ended in the opposite order, the
  outermost first; and the section of the test case is ended. So the events nest if and only if the
  list of the sections that were left reads the same from both ends, which it does when there is none
  or one, and does not when an exception leaves two different sections.
\<close>

theorem sections_reported:
  assumes "runCurrentTest ts nxt body rc = Inr rc'" and "m_activeTestCase rc = Some info" and "m_unfinishedSections rc = []"
  shows "\<exists>bs us ends e. m_reported rc' = m_reported rc @
        Ev_sectionStarting \<lparr>si_name = ti_name info, si_lineInfo = ti_lineInfo info\<rparr> # bs @ map Ev_sectionEnded ends @ [Ev_sectionEnded e] \<and>
    nest bs [] = Some us \<and> map ss_sectionInfo ends = rev us \<and>
    ss_sectionInfo e = \<lparr>si_name = ti_name info, si_lineInfo = ti_lineInfo info\<rparr> \<and>
    (nest (drop (length (m_reported rc)) (m_reported rc')) [] = Some [] \<longleftrightarrow> rev us = us) \<and> m_unfinishedSections rc' = []"
proof -
  let ?T = "\<lparr>si_name = ti_name info, si_lineInfo = ti_lineInfo info\<rparr>"
  from runCurrentTest_sections [OF assms(1,3)] assms(2) obtain bs us ends e where
    rep: "m_reported rc' = m_reported rc @ Ev_sectionStarting ?T # bs @ map Ev_sectionEnded ends @ [Ev_sectionEnded e]"
    and bs: "\<And>st. nest bs st = Some (us @ st)" and ends: "map ss_sectionInfo ends = rev us"
    and e: "ss_sectionInfo e = ?T" "m_unfinishedSections rc' = []" by (metis option.inject)
  have len: "length ends = length us" using arg_cong [OF ends, of length] by simp
  have "drop (length (m_reported rc)) (m_reported rc') =
      Ev_sectionStarting ?T # bs @ map Ev_sectionEnded ends @ [Ev_sectionEnded e]"
    by (simp only: rep append_eq_conv_conj) simp
  then have "nest (drop (length (m_reported rc)) (m_reported rc')) [] =
      nest (map Ev_sectionEnded ends @ [Ev_sectionEnded e]) (us @ [?T])"
    by (simp only: nest.simps nest_append bs bind.bind_lunit)
  then have "nest (drop (length (m_reported rc)) (m_reported rc')) [] = Some [] \<longleftrightarrow> rev us = us"
    using nest_ends [OF len, of "[Ev_sectionEnded e]" "[?T]"] ends e(1) by simp
  with rep bs [of "[]"] ends e show ?thesis
    by (intro exI [of _ bs] exI [of _ us] exI [of _ ends] exI [of _ e]) simp
qed

text \<open>A run of a test case, cycle by cycle.\<close>

lemma run_cycle_counted:
  assumes "run_cycle ts nxt info body rc = Inr (fin, rc')"
  shows "counted rc rc'"
proof -
  from assms obtain p cx where "runCurrentTest ts nxt body (rc\<lparr>m_trackerContext := cx, m_testCaseTracker := Some p\<rparr>) = Inr rc'"
    unfolding run_cycle_def by (auto elim!: bindE_InrE)
  from runCurrentTest_counted [OF this] show ?thesis by (simp add: counted_def)
qed

text \<open>An invariant of the turns that go on, and what the last turn gives.\<close>

lemma run_cycles_induct_all:
  fixes rc :: "'g RunContext"
  assumes "run_cycles ts nxt info body rc = Some y"
  shows "(\<forall>rc rc1. I rc \<longrightarrow> run_cycle ts nxt info body rc = Inr (False, rc1) \<longrightarrow> I rc1) \<longrightarrow>
    (\<forall>rc rc1. I rc \<longrightarrow> run_cycle ts nxt info body rc = Inr (True, rc1) \<longrightarrow> J rc1) \<longrightarrow>
    I rc \<longrightarrow> (case y of Inl e \<Rightarrow> True | Inr rc' \<Rightarrow> J rc')"
proof (rule run_cycles.raw_induct [OF _ assms], intro impI)
  fix run :: "testing \<Rightarrow> ('g \<Rightarrow> bool \<times> 'g) \<Rightarrow> TestCaseInfo \<Rightarrow> stmt list \<Rightarrow> 'g RunContext \<Rightarrow> 'g RunContext res option"
  fix ts nxt info body and rc :: "'g RunContext" and y
  assume IH: "\<And>ts nxt info body rc y. run ts nxt info body rc = Some y \<Longrightarrow>
      (\<forall>rc rc1. I rc \<longrightarrow> run_cycle ts nxt info body rc = Inr (False, rc1) \<longrightarrow> I rc1) \<longrightarrow>
      (\<forall>rc rc1. I rc \<longrightarrow> run_cycle ts nxt info body rc = Inr (True, rc1) \<longrightarrow> J rc1) \<longrightarrow>
      I rc \<longrightarrow> (case y of Inl e \<Rightarrow> True | Inr rc' \<Rightarrow> J rc')"
    and now: "(case run_cycle ts nxt info body rc of Inl e \<Rightarrow> Some (Inl e)
       | Inr (finished, rc1) \<Rightarrow> if finished then Some (Inr rc1) else run ts nxt info body rc1) = Some y"
    and step: "\<forall>rc rc1. I rc \<longrightarrow> run_cycle ts nxt info body rc = Inr (False, rc1) \<longrightarrow> I rc1"
    and fini: "\<forall>rc rc1. I rc \<longrightarrow> run_cycle ts nxt info body rc = Inr (True, rc1) \<longrightarrow> J rc1" and i: "I rc"
  show "case y of Inl e \<Rightarrow> True | Inr rc' \<Rightarrow> J rc'"
  proof (cases "run_cycle ts nxt info body rc")
    case (Inr x)
    obtain fin rc1 where x: "x = (fin, rc1)" by (cases x)
    show ?thesis
    proof (cases fin)
      case False
      with now Inr x have r: "run ts nxt info body rc1 = Some y" by simp
      have "I rc1" using step [rule_format, OF i] Inr x False by simp
      with IH [OF r] step fini show ?thesis by blast
    next
      case True
      with now Inr x have "y = Inr rc1" by auto
      with fini [rule_format, OF i] Inr x True show ?thesis by simp
    qed
  next
    case (Inl e)
    with now have "y = Inl e" by auto
    then show ?thesis by simp
  qed
qed

lemma run_cycles_invariant:
  assumes "run_cycles ts nxt info body rc = Some (Inr rc')" and "I rc"
    and "\<And>rc rc1. I rc \<Longrightarrow> run_cycle ts nxt info body rc = Inr (False, rc1) \<Longrightarrow> I rc1"
    and "\<And>rc rc1. I rc \<Longrightarrow> run_cycle ts nxt info body rc = Inr (True, rc1) \<Longrightarrow> J rc1"
  shows "J rc'"
  using run_cycles_induct_all [OF assms(1), of I J] assms(2-) by simp

lemma run_cycles_counted: "run_cycles ts nxt info body rc = Some (Inr rc') \<Longrightarrow> counted rc rc'"
  by (erule run_cycles_invariant [where I = "counted rc"]) (blast intro: counted_trans run_cycle_counted)+

text \<open>
  C13: The totals are what was reported. A test case that ran to its end reported its start, then some
  events, then its end. With all assertions reported, the counts of assertions of the run context grew
  by what the events say: every assertion that passed, failed, or failed where the test may fail, and
  every section that was missing an assertion. The totals of the test case are the same, with one
  failure more if the test was to fail and did not; and the test case counts once: as failed if an
  assertion failed, else as failed but ok, else as passed, or as failed if it should have failed.
\<close>

theorem totals_are_reported:
  assumes "runTest here ts nxt info body rc = Some (Inr (delta, rc'))" and "m_includeSuccessfulResults rc"
  shows "\<exists>es st. m_reported rc' = m_reported rc @ Ev_testCaseStarting info # es @ [Ev_testCaseEnded st] \<and>
    tc_testInfo st = info \<and> tc_totals st = delta \<and>
    assertions (m_totals rc') = assertions (m_totals rc) + events_counts (okToFail info) es \<and>
    testCases (m_totals rc') = testCases (m_totals rc) + testCases delta \<and>
    (let c = events_counts (okToFail info) es; surprise = expectedToFail info \<and> failed c = 0 \<and> failedButOk c = 0
     in assertions delta = c + (if surprise then one_failed else 0) \<and>
        testCases delta = (if failed c > 0 \<or> surprise then one_failed else if failedButOk c > 0 then one_failedButOk else one_passed))"
proof -
  from assms(1) obtain rc0 rc1 where s: "start_test here (ts_config ts) info rc = Inr rc0"
    and r: "run_cycles ts nxt info body rc0 = Some (Inr rc1)" and f: "(delta, rc') = finish_test (ts_config ts) info (m_totals rc) rc1"
    unfolding runTest_def by (auto simp: bindE_eq_Inr split: sum.splits)
  from s have rc0: "m_reported rc0 = m_reported rc @ [Ev_testCaseStarting info]" "m_activeTestCase rc0 = Some info"
    "m_includeSuccessfulResults rc0" "m_totals rc0 = m_totals rc"
    using assms(2) by (auto simp: start_test_def report_def elim!: bindE_InrE)
  from run_cycles_counted [OF r] rc0 obtain es where es: "m_reported rc1 = m_reported rc0 @ es"
    "m_totals rc1 = Totals (error (m_totals rc)) (assertions (m_totals rc) + events_counts (okToFail info) es) (testCases (m_totals rc))"
    by (auto simp: counted_def)
  let ?c = "events_counts (okToFail info) es"
  let ?d = "totals_delta (m_totals rc1) (m_totals rc)"
  have d: "assertions ?d = ?c" "testCases ?d = (if failed ?c > 0 then one_failed else if failedButOk ?c > 0 then one_failedButOk else one_passed)"
    by (auto simp: totals_delta_def totals_minus_def es(2) Let_def)
  have sur: "passed (testCases ?d) > 0 \<longleftrightarrow> failed ?c = 0 \<and> failedButOk ?c = 0" using d(2) by (auto simp: word_gt_0)
  have delta: "delta = expected_failure info ?d" using f by (simp add: finish_test_def Let_def)
  define st where "st = \<lparr>tc_testInfo = info, tc_totals = delta, tc_stdOut = [], tc_stdErr = [], tc_aborting = aborting (ts_config ts)
        (rc1\<lparr>m_totals := Totals (error (m_totals rc1)) (assertions (m_totals rc1)) (testCases (m_totals rc1) + testCases delta)\<rparr>)\<rparr>"
  have "m_reported rc' = m_reported rc @ Ev_testCaseStarting info # es @ [Ev_testCaseEnded st]"
    and "assertions (m_totals rc') = assertions (m_totals rc) + ?c"
    and "testCases (m_totals rc') = testCases (m_totals rc) + testCases delta"
    using f delta es rc0(1) by (auto simp: finish_test_def report_def Let_def st_def)
  moreover have "tc_testInfo st = info" "tc_totals st = delta" by (simp_all add: st_def)
  moreover have "assertions delta = ?c + (if expectedToFail info \<and> failed ?c = 0 \<and> failedButOk ?c = 0 then one_failed else 0)"
    using sur d(1) by (auto simp: delta expected_failure_def)
  moreover have "testCases delta = (if failed ?c > 0 \<or> (expectedToFail info \<and> failed ?c = 0 \<and> failedButOk ?c = 0) then one_failed
      else if failedButOk ?c > 0 then one_failedButOk else one_passed)"
    using sur d(2) by (auto simp: delta expected_failure_def word_gt_0 intro!: counts_eqI)
  ultimately show ?thesis
    unfolding Let_def by blast
qed

subsection \<open>Aborting\<close>

text \<open>
  The number of failures and the limit of the option \<open>--abort\<close>. As long as the limit is not reached a
  test goes on; the assertion that reaches it throws.
\<close>

abbreviation failures :: "'g RunContext \<Rightarrow> u64" where
  "failures rc \<equiv> failed (assertions (m_totals rc))"

abbreviation abort_limit :: "Config \<Rightarrow> u64" where
  "abort_limit config \<equiv> word_of_int (abortAfter config)"

definition limited :: "Config \<Rightarrow> outcome \<Rightarrow> 'g RunContext \<Rightarrow> bool" where
  "limited config out rc \<longleftrightarrow> failures rc \<le> abort_limit config \<and> (out \<noteq> Thrown TestFailureException \<longrightarrow> \<not> aborting config rc)"

lemma below_limit: "\<not> aborting config rc \<longleftrightarrow> failures rc < abort_limit config"
  by (simp add: aborting_def not_le)

lemma same_limited:
  "failures rc' = failures rc \<Longrightarrow> \<not> aborting config rc \<Longrightarrow> limited config out rc'"
  by (auto simp: limited_def below_limit)

lemma assertionEnded_failures:
  assumes "rc_assertionEnded r rc = Inr rc'"
  shows "failures rc' = (if ar_isOk r \<or> (\<exists>info. m_activeTestCase rc = Some info \<and> okToFail info) \<or> getResultType r = RW_Ok
    then failures rc else failures rc + 1)"
  using assertionEnded_reports [OF assms] by (auto simp: Let_def)

lemma assertionEnded_below:
  assumes "rc_assertionEnded r rc = Inr rc'" and "\<not> aborting config rc"
  shows "failures rc' \<le> abort_limit config"
  using assertionEnded_failures [OF assms(1)] assms(2) by (auto simp: below_limit intro: inc_le order.strict_implies_order)

lemma aborting_info [simp]:
  "aborting config (rc\<lparr>m_lastAssertionInfo := info\<rparr>) = aborting config rc"
  "aborting config (report e rc) = aborting config rc"
  by (simp_all add: aborting_def report_def)

lemma react_limited:
  assumes "rc_assertionEnded r rc0 = Inr rc1" and "\<not> aborting config rc0"
    and "x = (if \<not> ar_isOk r then populateReaction config rc1 else no_reaction, rc1)" and "react x = Inr (out, rc')"
  shows "limited config out rc'"
proof (cases "ar_isOk r")
  case True
  then show ?thesis using assms assertionEnded_failures [OF assms(1)] by (auto intro!: same_limited)
next
  case False
  with assms have "rc' = rc1" "shouldThrow (populateReaction config rc1) = (out = Thrown TestFailureException)"
    "out = Finished \<or> out = Thrown TestFailureException" by (auto split: if_splits)
  moreover have "\<not> shouldThrow (populateReaction config rc1) \<Longrightarrow> \<not> aborting config rc1" by (simp add: populateReaction_def)
  ultimately show ?thesis using assertionEnded_below [OF assms(1,2)] by (auto simp: limited_def)
qed

lemma handleExpr_limited:
  assumes "bindE (rc_handleExpr config info expr no_reaction rc) react = Inr (out, rc')" and "\<not> aborting config rc"
  shows "limited config out rc'"
proof -
  let ?rc = "report (Ev_assertionStarting info) rc" and ?neg = "isFalseTest (resultDisposition info)"
  have st: "\<not> aborting config ?rc" using assms(2) by simp
  from assms(1) obtain x where h: "rc_handleExpr config info expr no_reaction rc = Inr x" and r: "react x = Inr (out, rc')"
    by (elim bindE_InrE)
  from h consider "x = (no_reaction, assertionPassed ?rc)"
    | rc1 where "reportExpr info RW_Ok expr ?neg ?rc = Inr rc1" "x = (no_reaction, rc1)"
    | rc1 where "reportExpr info ExpressionFailed expr ?neg ?rc = Inr rc1" "x = (populateReaction config rc1, rc1)"
    by (auto simp: rc_handleExpr_def Let_def bindE_eq_Inr split: if_splits)
  then show ?thesis
  proof cases
    case 1
    with r have "failures rc' = failures rc"
      by (simp add: assertionPassed_def rc_quiet add_assertion_def report_def)
    with assms(2) show ?thesis by (intro same_limited)
  next
    case 2
    let ?r = "\<lparr>ar_info = info, ar_resultData = new_AssertionResultData RW_Ok \<lparr>m_transientExpression = Some expr, m_isNegated = ?neg\<rparr>\<rparr>"
    have "ar_isOk ?r" by (simp add: ar_isOk_def rw_isOk_def new_AssertionResultData_def)
    with 2 r st show ?thesis
      by (intro react_limited [OF _ _ _ r, of ?r "?rc\<lparr>m_lastAssertionInfo := info\<rparr>" rc1]) (auto simp: reportExpr_def)
  next
    case 3
    let ?r = "\<lparr>ar_info = info, ar_resultData = new_AssertionResultData ExpressionFailed \<lparr>m_transientExpression = Some expr, m_isNegated = ?neg\<rparr>\<rparr>"
    have "failures rc1 \<le> abort_limit config" using 3(1) st
      by (intro assertionEnded_below [where rc = "?rc\<lparr>m_lastAssertionInfo := info\<rparr>"]) (auto simp: reportExpr_def)
    with 3(2) r show ?thesis by (auto simp: limited_def populateReaction_def split: if_splits)
  qed
qed

lemma handleMessage_limited:
  assumes "bindE (rc_handleMessage config info ty message no_reaction rc) react = Inr (out, rc')" and "\<not> aborting config rc"
  shows "limited config out rc'"
proof -
  from assms(1) obtain x where h: "rc_handleMessage config info ty message no_reaction rc = Inr x" and r: "react x = Inr (out, rc')"
    by (elim bindE_InrE)
  from h obtain rc1 where a: "rc_assertionEnded (plain_result info ty message)
      ((report (Ev_assertionStarting info) rc)\<lparr>m_lastAssertionInfo := info\<rparr>) = Inr rc1"
    and x: "x = (if \<not> ar_isOk (plain_result info ty message) then populateReaction config rc1 else no_reaction, rc1)"
    unfolding rc_handleMessage_def by (auto elim!: bindE_InrE)
  show ?thesis by (rule react_limited [OF a _ x r]) (use assms(2) in simp)
qed

lemma handleNonExpr_limited:
  assumes "bindE (handleNonExpr config info ty no_reaction rc) react = Inr (out, rc')" and "\<not> aborting config rc"
  shows "limited config out rc'"
proof -
  from assms(1) obtain x where h: "handleNonExpr config info ty no_reaction rc = Inr x" and r: "react x = Inr (out, rc')"
    by (elim bindE_InrE)
  from h obtain rc1 where a: "rc_assertionEnded (plain_result info ty []) (rc\<lparr>m_lastAssertionInfo := info\<rparr>) = Inr rc1"
    and x: "x = (if \<not> ar_isOk (plain_result info ty []) then populateReaction config rc1 else no_reaction, rc1)"
    unfolding handleNonExpr_def by (auto elim!: bindE_InrE)
  show ?thesis by (rule react_limited [OF a _ x r]) (use assms(2) in simp)
qed

lemma inflight_limited:
  assumes "handleUnexpectedInflightException config info message rc = Inr (reaction, rc')" and "\<not> aborting config rc"
  shows "failures rc' \<le> abort_limit config \<and> reaction = populateReaction config rc'"
  using assms unfolding handleUnexpectedInflightException_def
  by (auto elim!: bindE_InrE intro: assertionEnded_below [where rc = "rc\<lparr>m_lastAssertionInfo := info\<rparr>"])

lemma translate_TestFailure: "translateActiveException ts e = Inl e' \<Longrightarrow> e' = TestFailureException"
  by (auto simp: translateActiveException_def split: option.splits cpp_exn.splits)

lemma unexpected_limited:
  assumes "unexpected ts info e rc = Inr (out, rc')" and "\<not> aborting (ts_config ts) rc"
  shows "limited (ts_config ts) out rc'"
proof (cases "translateActiveException (ts_translators ts) e")
  case (Inl e')
  with assms(1) obtain rc1 where 1: "handleIncomplete info rc = Inr rc1" "rc' = rc1\<lparr>m_messages := m_messages rc\<rparr>" "out = Thrown e'"
    unfolding unexpected_def by (auto elim!: bindE_InrE)
  have "failures rc1 \<le> abort_limit (ts_config ts)"
    using 1(1) assms(2) unfolding handleIncomplete_def
    by (intro assertionEnded_below [where rc = "rc\<lparr>m_lastAssertionInfo := info\<rparr>"]) auto
  with 1 translate_TestFailure [OF Inl] show ?thesis by (simp add: limited_def)
next
  case (Inr m)
  with assms(1) obtain x where "handleUnexpectedInflightException (ts_config ts) info m rc = Inr x" "react x = Inr (out, rc')"
    unfolding unexpected_def by (auto elim!: bindE_InrE)
  with inflight_limited [OF _ assms(2), of info m "fst x" "snd x"] show ?thesis
    by (auto simp: limited_def populateReaction_def split: if_splits)
qed

lemma exec_throws_limited:
  assumes "exec_throws ts info e rc = Inr (out, rc')" and "\<not> aborting (ts_config ts) rc"
  shows "limited (ts_config ts) out rc'"
  using assms handleNonExpr_limited [of "ts_config ts" info _ rc out rc'] unexpected_limited [of ts info _ rc out rc']
  unfolding exec_throws_def handleUnexpectedExceptionNotThrown_def by (auto split: if_splits option.splits)

lemma sectionEnded_failures:
  assumes "rc_sectionEnded config nxt endInfo rc = Inr rc'" and "\<not> warnAboutMissingAssertions config"
  shows "failures rc' = failures rc"
proof -
  from assms obtain c rc2 where
    "(if m_activeSections rc \<noteq> [] then close_activeSection nxt rc else Inr rc) = Inr rc2"
    and "rc' = clear_messages (report (Ev_sectionEnded
         \<lparr>ss_sectionInfo = se_sectionInfo endInfo, ss_assertions = c, missingAssertions = False\<rparr>) rc2)"
    unfolding rc_sectionEnded_def testForMissingAssertions_def by (auto elim!: bindE_InrE split: if_splits)
  then show ?thesis
    by (auto simp: clear_messages_def clear_messageScopes_eq report_def close_activeSection_def
        split: if_splits elim!: bindE_InrE rc_trackerE)
qed

lemma early_failures: "sectionEndedEarly nxt endInfo rc = Inr rc' \<Longrightarrow> m_totals rc' = m_totals rc"
  unfolding sectionEndedEarly_def by (auto split: if_splits elim!: bindE_InrE rc_trackerE)

lemma limited_same_totals: "m_totals rc' = m_totals rc \<Longrightarrow> limited config out rc' = limited config out rc"
  by (simp add: limited_def aborting_def)

lemma limited_same_failures: "failures rc' = failures rc \<Longrightarrow> limited config out rc' = limited config out rc"
  by (simp add: limited_def aborting_def)

lemma exec_limited:
  assumes "\<not> warnAboutMissingAssertions (ts_config ts)"
  shows "exec ts nxt s rc = Inr (out, rc') \<Longrightarrow> \<not> aborting (ts_config ts) rc \<Longrightarrow> limited (ts_config ts) out rc'"
    and "exec_all ts nxt ss rc = Inr (out, rc') \<Longrightarrow> \<not> aborting (ts_config ts) rc \<Longrightarrow> limited (ts_config ts) out rc'"
  using assms
proof (induction ts nxt s rc and ts nxt ss rc arbitrary: out rc' and out rc' rule: exec_exec_all.induct)
  case (1 ts nxt info expr rc)
  then show ?case by (intro handleExpr_limited) simp_all
next
  case (3 ts nxt info rc)
  then show ?case by (intro handleNonExpr_limited) simp_all
next
  case (7 ts nxt info ty message rc)
  then show ?case by (intro handleMessage_limited) simp_all
next
  case (8 ts nxt macro line message body rc)
  obtain m rc1 where b: "build_message macro line RW_Info message rc = (m, rc1)"
    by (cases "build_message macro line RW_Info message rc")
  with 8(2) obtain out2 rc2 where e: "exec_all ts nxt body (pushScopedMessage m rc1) = Inr (out2, rc2)"
    "leave_scope m (out2, rc2) = Inr (out, rc')" by (auto elim!: bindE_InrE)
  have "m_totals (pushScopedMessage m rc1) = m_totals rc"
    using b by (auto simp: build_message_def new_MessageInfo_def pushScopedMessage_def)
  then have "\<not> aborting (ts_config ts) (pushScopedMessage m rc1)" using 8(3) by (simp add: aborting_def)
  from 8(1) [OF b [symmetric] refl e(1) this 8(4)] have "limited (ts_config ts) out2 rc2" .
  with e(2) show ?case
    by (auto simp: leave_scope_def popScopedMessage_def limited_def aborting_def split: outcome.splits)
next
  case (9 ts nxt macro line message rc)
  then have "m_totals rc' = m_totals rc"
    by (auto simp: build_message_def new_MessageInfo_def emplaceUnscopedMessage_def pushScopedMessage_def)
  with 9 show ?case by (intro same_limited) simp_all
next
  case (10 ts nxt info body rc)
  from 10(2) obtain inc prev rc1 where st: "sectionStarted info rc = Inr (inc, prev, rc1)"
    and r: "\<not> inc \<and> rc' = rc1 \<or> inc \<and> bindE (exec_all ts nxt body rc1)
      (leave_section ts nxt \<lparr>se_sectionInfo = info, prevAssertions = prev\<rparr>) = Inr (out, rc')"
    by (auto elim!: bindE_InrE split: if_splits)
  have f1: "m_totals rc1 = m_totals rc" using st by (auto elim!: sectionStartedE simp: report_def)
  show ?case
  proof (cases inc)
    case True
    with r obtain out2 rc2 where e: "exec_all ts nxt body rc1 = Inr (out2, rc2)"
      "leave_section ts nxt \<lparr>se_sectionInfo = info, prevAssertions = prev\<rparr> (out2, rc2) = Inr (out, rc')"
      by (auto elim!: bindE_InrE)
    have "\<not> aborting (ts_config ts) rc1" using 10(3) f1 by (simp add: aborting_def)
    from 10(1) [OF st refl refl _ e(1) this 10(4)] True have "limited (ts_config ts) out2 rc2" by simp
    moreover from e(2) 10(4) have "out = out2" "failures rc' = failures rc2"
      unfolding leave_section_def
      by (auto split: outcome.splits elim!: bindE_InrE dest!: sectionEnded_failures early_failures)
    ultimately show ?thesis using limited_same_failures by blast
  next
    case False
    with r f1 10(3) show ?thesis by (intro same_limited) simp_all
  qed
next
  case (13 ts nxt s ss rc)
  from 13(3) obtain out1 rc1 where e: "exec ts nxt s rc = Inr (out1, rc1)"
    and r: "(case out1 of Finished \<Rightarrow> exec_all ts nxt ss rc1 | Thrown e \<Rightarrow> Inr (Thrown e, rc1)) = Inr (out, rc')"
    by (auto elim!: bindE_InrE)
  have l: "limited (ts_config ts) out1 rc1" by (rule 13(1) [OF e 13(4,5)])
  show ?case
  proof (cases out1)
    case Finished
    then have "\<not> aborting (ts_config ts) rc1" using l by (simp add: limited_def)
    from 13(2) [OF e refl Finished _ this 13(5)] r Finished show ?thesis by simp
  qed (use r l in auto)
qed (auto intro: unexpected_limited exec_throws_limited same_limited)

lemma run_cycle_limited:
  assumes "run_cycle ts nxt info body rc = Inr (fin, rc')" and "\<not> warnAboutMissingAssertions (ts_config ts)"
    and "\<not> aborting (ts_config ts) rc"
  shows "failures rc' \<le> abort_limit (ts_config ts) \<and> (\<not> fin \<longrightarrow> \<not> aborting (ts_config ts) rc')"
proof -
  from assms(1) obtain p cx where r: "runCurrentTest ts nxt body (rc\<lparr>m_trackerContext := cx, m_testCaseTracker := Some p\<rparr>) = Inr rc'"
    and fin: "aborting (ts_config ts) rc' \<longrightarrow> fin"
    unfolding run_cycle_def by (auto elim!: bindE_InrE)
  let ?rc = "rc\<lparr>m_trackerContext := cx, m_testCaseTracker := Some p\<rparr>"
  from r have "failures rc' \<le> abort_limit (ts_config ts)"
  proof (rule runCurrentTestE)
    fix info' rc1 out rc2 rc3 missing c rc4 cx rc5
    assume 1: "rc1 = (report (Ev_sectionStarting \<lparr>si_name = ti_name info', si_lineInfo = ti_lineInfo info'\<rparr>) ?rc)
        \<lparr>m_shouldReportUnexpected := True,
         m_lastAssertionInfo := \<lparr>ai_macroName = ''TEST_CASE'', ai_lineInfo = ti_lineInfo info', capturedExpression = [],
             resultDisposition = RD_Normal\<rparr>,
         rc_rng := seedRng (registry_config (ts_config ts)) (rc_rng ?rc)\<rparr>"
      and 2: "exec_all ts nxt body rc1 = Inr (out, rc2)" "handle_escaped ts (out, rc2) = Inr rc3"
      and 3: "testForMissingAssertions (ts_config ts) (assertions (m_totals rc3) - assertions (m_totals ?rc)) rc3 = Inr (missing, c, rc4)"
      and 4: "handleUnfinishedSections (ts_config ts) nxt (rc4\<lparr>m_trackerContext := cx\<rparr>) = Inr rc5"
      and 5: "rc' = report (Ev_sectionEnded \<lparr>ss_sectionInfo = \<lparr>si_name = ti_name info', si_lineInfo = ti_lineInfo info'\<rparr>,
        ss_assertions = c, missingAssertions = missing\<rparr>) (clear_messages rc5)"
    have "\<not> aborting (ts_config ts) rc1" using assms(3) by (simp add: 1 aborting_def report_def)
    then have l: "limited (ts_config ts) out rc2" by (rule exec_limited(2) [OF assms(2) 2(1)])
    have "failures rc3 \<le> abort_limit (ts_config ts)"
    proof (cases "out = Finished \<or> out = Thrown TestFailureException")
      case True
      with 2(2) l show ?thesis by (auto simp: handle_escaped_def limited_def)
    next
      case False
      with l have "\<not> aborting (ts_config ts) rc2" by (simp add: limited_def)
      with 2(2) False l show ?thesis
        by (auto simp: handle_escaped_def limited_def split: outcome.splits cpp_exn.splits sum.splits if_splits
            elim!: bindE_InrE dest!: inflight_limited)
    qed
    moreover have "rc4 = rc3" using 3 assms(2) by (auto simp: testForMissingAssertions_def split: if_splits)
    moreover have "foldE (rc_sectionEnded (ts_config ts) nxt) us ra = Inr rb \<Longrightarrow> failures rb = failures ra" for us ra rb
      by (induction us arbitrary: ra) (auto elim!: bindE_InrE dest: sectionEnded_failures [OF _ assms(2)])
    then have "failures rc5 = failures rc4" using 4 unfolding handleUnfinishedSections_def by (fastforce elim!: bindE_InrE)
    ultimately show ?thesis by (simp add: 5 report_def clear_messages_def clear_messageScopes_eq)
  qed
  with fin show ?thesis by blast
qed

text \<open>
  C30: The limit of failures holds. When the number of failed assertions is below the limit of the
  option \<open>--abort\<close> before a test case, it is at most the limit after it, whatever the test does: the
  assertion that reaches the limit throws, the test is left and no further cycle starts. (The warning
  for sections without assertions is off; it counts failures without throwing.)
\<close>

theorem abort_limits_failures:
  assumes "runTest here ts nxt info body rc = Some (Inr (delta, rc'))"
    and "\<not> warnAboutMissingAssertions (ts_config ts)" and "\<not> aborting (ts_config ts) rc"
  shows "failed (assertions (m_totals rc')) \<le> word_of_int (abortAfter (ts_config ts))"
proof -
  from assms(1) obtain rc0 rc1 where s: "start_test here (ts_config ts) info rc = Inr rc0"
    and r: "run_cycles ts nxt info body rc0 = Some (Inr rc1)" and f: "(delta, rc') = finish_test (ts_config ts) info (m_totals rc) rc1"
    unfolding runTest_def by (auto simp: bindE_eq_Inr split: sum.splits)
  from s assms(3) have "\<not> aborting (ts_config ts) rc0"
    by (auto simp: start_test_def report_def aborting_def elim!: bindE_InrE)
  with r have "failures rc1 \<le> abort_limit (ts_config ts)"
    by (rule run_cycles_invariant) (use run_cycle_limited [OF _ assms(2)] in blast)+
  with f show ?thesis by (auto simp: finish_test_def report_def Let_def)
qed

theorem sections_reported_witness:
  "\<exists>rc rc' bs us ends e. sample_run = Inr rc \<and>
     runCurrentTest sample_testing (\<lambda>g. (False, g)) [in_section ''asks'' [in_section ''add'' [check_that RD_Normal False]]] rc = Inr rc' \<and>
     m_reported rc' = m_reported rc @ Ev_sectionStarting \<lparr>si_name = ''book'', si_lineInfo = \<lparr>li_file = ''t.cpp'', li_line = 1\<rparr>\<rparr> #
       bs @ map Ev_sectionEnded ends @ [Ev_sectionEnded e] \<and>
     map ss_sectionInfo ends = rev us \<and> rev us \<noteq> us"
proof -
  let ?body = "[in_section ''asks'' [in_section ''add'' [check_that RD_Normal False]]]"
  have "(case sample_run of Inl _ \<Rightarrow> False | Inr rc \<Rightarrow> m_activeTestCase rc = Some (named_test ''book'') \<and> m_unfinishedSections rc = [] \<and>
      (case runCurrentTest sample_testing (\<lambda>g. (False, g)) ?body rc of Inl _ \<Rightarrow> False
       | Inr rc' \<Rightarrow> nest (drop (length (m_reported rc)) (m_reported rc')) [] \<noteq> Some []))"
    by code_simp
  then obtain rc rc' where r: "sample_run = Inr rc" "m_activeTestCase rc = Some (named_test ''book'')" "m_unfinishedSections rc = []"
    "runCurrentTest sample_testing (\<lambda>g. (False, g)) ?body rc = Inr rc'"
    "nest (drop (length (m_reported rc)) (m_reported rc')) [] \<noteq> Some []"
    by (auto split: sum.splits)
  from sections_reported [OF r(4,2,3)] obtain bs us ends e where
    "m_reported rc' = m_reported rc @ Ev_sectionStarting \<lparr>si_name = ''book'', si_lineInfo = \<lparr>li_file = ''t.cpp'', li_line = 1\<rparr>\<rparr> #
       bs @ map Ev_sectionEnded ends @ [Ev_sectionEnded e]" "map ss_sectionInfo ends = rev us" "rev us \<noteq> us"
    using r(5) unfolding named_test_def by auto
  with r show ?thesis by blast
qed

lemma run_one_cycle:
  assumes "case start_test here (ts_config ts) info rc of Inl _ \<Rightarrow> False
    | Inr rc0 \<Rightarrow> (case run_cycle ts nxt info body rc0 of Inl _ \<Rightarrow> False | Inr (fin, rc1) \<Rightarrow> fin)"
  shows "\<exists>delta rc'. runTest here ts nxt info body rc = Some (Inr (delta, rc'))"
proof -
  from assms obtain rc0 rc1 where "start_test here (ts_config ts) info rc = Inr rc0" "run_cycle ts nxt info body rc0 = Inr (True, rc1)"
    by (auto split: sum.splits)
  then show ?thesis
    by (cases "finish_test (ts_config ts) info (m_totals rc) rc1") (simp add: runTest_def run_cycles.simps)
qed

text \<open>A test with an assertion that fails and one that passes.\<close>

definition sample_body :: "stmt list" where
  "sample_body = [check_that RD_ContinueOnFailure False, check_that RD_Normal True]"

lemma sample_test_runs:
  "\<exists>delta rc'. runTest sample_place sample_testing (\<lambda>g::unit. (False, g)) (named_test ''book'') sample_body
    (new_RunContext sample_config True 0 0) = Some (Inr (delta, rc'))"
proof (rule run_one_cycle)
  show "case start_test sample_place (ts_config sample_testing) (named_test ''book'') (new_RunContext sample_config True 0 0 :: unit RunContext) of Inl _ \<Rightarrow> False
    | Inr rc0 \<Rightarrow> (case run_cycle sample_testing (\<lambda>g. (False, g)) (named_test ''book'') sample_body rc0 of Inl _ \<Rightarrow> False | Inr (fin, rc1) \<Rightarrow> fin)"
    by code_simp
qed

theorem totals_are_reported_witness:
  "\<exists>delta rc' es st. runTest sample_place sample_testing (\<lambda>g::unit. (False, g)) (named_test ''book'')
      sample_body (new_RunContext sample_config True 0 0) =
      Some (Inr (delta, rc')) \<and>
    m_reported rc' = m_reported (new_RunContext sample_config True 0 0 :: unit RunContext) @
      Ev_testCaseStarting (named_test ''book'') # es @ [Ev_testCaseEnded st] \<and>
    tc_totals st = delta \<and> assertions delta = events_counts False es"
proof -
  let ?rc = "new_RunContext sample_config True 0 0 :: unit RunContext"
  from sample_test_runs obtain delta rc' where
    r: "runTest sample_place sample_testing (\<lambda>g. (False, g)) (named_test ''book'') sample_body ?rc = Some (Inr (delta, rc'))" by blast
  have "m_includeSuccessfulResults ?rc" by (simp add: new_RunContext_def report_def)
  from totals_are_reported [OF r this] obtain es st where
    "m_reported rc' = m_reported ?rc @ Ev_testCaseStarting (named_test ''book'') # es @ [Ev_testCaseEnded st]"
    "tc_totals st = delta" "assertions delta = events_counts (okToFail (named_test ''book'')) es +
      (if expectedToFail (named_test ''book'') \<and> failed (events_counts (okToFail (named_test ''book'')) es) = 0 \<and>
          failedButOk (events_counts (okToFail (named_test ''book'')) es) = 0 then one_failed else 0)"
    unfolding Let_def by blast
  moreover have "\<not> okToFail (named_test ''book'')" "\<not> expectedToFail (named_test ''book'')" by code_simp+
  ultimately show ?thesis using r by auto
qed

theorem abort_limits_failures_witness:
  "\<exists>delta rc'. runTest sample_place (sample_testing\<lparr>ts_config := sample_config\<lparr>m_data := default_ConfigData\<lparr>cd_abortAfter := 1\<rparr>\<rparr>\<rparr>)
      (\<lambda>g::unit. (False, g)) (named_test ''book'') [check_that RD_ContinueOnFailure False, check_that RD_ContinueOnFailure False]
      (new_RunContext sample_config False 0 0) = Some (Inr (delta, rc')) \<and> failed (assertions (m_totals rc')) \<le> 1"
proof -
  let ?rc = "new_RunContext sample_config False 0 0 :: unit RunContext"
  let ?ts = "sample_testing\<lparr>ts_config := sample_config\<lparr>m_data := default_ConfigData\<lparr>cd_abortAfter := 1\<rparr>\<rparr>\<rparr>"
  let ?body = "[check_that RD_ContinueOnFailure False, check_that RD_ContinueOnFailure False]"
  have "case start_test sample_place (ts_config ?ts) (named_test ''book'') ?rc of Inl _ \<Rightarrow> False
    | Inr rc0 \<Rightarrow> (case run_cycle ?ts (\<lambda>g. (False, g)) (named_test ''book'') ?body rc0 of Inl _ \<Rightarrow> False | Inr (fin, rc1) \<Rightarrow> fin)"
    by code_simp
  from run_one_cycle [OF this] obtain delta rc' where
    r: "runTest sample_place ?ts (\<lambda>g. (False, g)) (named_test ''book'') ?body ?rc = Some (Inr (delta, rc'))" by blast
  have "\<not> warnAboutMissingAssertions (ts_config ?ts)" "\<not> aborting (ts_config ?ts) ?rc" by code_simp+
  from abort_limits_failures [OF r this] r show ?thesis by (auto simp: abortAfter_def)
qed

end
