(* ===== verification/Catch_Run_Passing.thy ===== *)
theory Catch_Run_Passing
  imports Catch_Run_Report
begin

section \<open>A test that passes\<close>

text \<open>
  The run context on the body of a test whose assertions all pass does to the trackers what the nested
  sections of the body do, so every way through the sections is run once.
\<close>

text \<open>The statements that pass, and the sections of a body as the trackers see them.\<close>

fun passing :: "testing \<Rightarrow> stmt \<Rightarrow> bool" where
  "passing ts (Check info (Inr expr)) \<longleftrightarrow> m_result expr \<noteq> isFalseTest (resultDisposition info)"
| "passing ts (Check info (Inl e)) \<longleftrightarrow> False"
| "passing ts (NoThrow info e) \<longleftrightarrow> e = None"
| "passing ts (Throws info e) \<longleftrightarrow> allowThrows (ts_config ts) \<longrightarrow> e \<noteq> None"
| "passing ts (ThrowsAs info e) \<longleftrightarrow> allowThrows (ts_config ts) \<longrightarrow> (case e of Some (True, _) \<Rightarrow> True | _ \<Rightarrow> False)"
| "passing ts (Message info ty message) \<longleftrightarrow> rw_isOk ty"
| "passing ts (Info macro line message body) \<longleftrightarrow> list_all (passing ts) body"
| "passing ts (UnscopedInfo macro line message) \<longleftrightarrow> True"
| "passing ts (Section info body) \<longleftrightarrow> list_all (passing ts) body"
| "passing ts (Throw e) \<longleftrightarrow> False"

definition section_nl :: "SectionInfo \<Rightarrow> NameAndLocation" where
  "section_nl info = \<lparr>nl_name = si_name info, nl_location = si_lineInfo info\<rparr>"

fun sections_of :: "stmt \<Rightarrow> block list" where
  "sections_of (Section info body) = [Block (section_nl info) (concat (map sections_of body))]"
| "sections_of (Info macro line message body) = concat (map sections_of body)"
| "sections_of _ = []"

fun section_starts :: "reporter_event list \<Rightarrow> NameAndLocation list" where
  "section_starts [] = []"
| "section_starts (Ev_sectionStarting s # es) = section_nl s # section_starts es"
| "section_starts (_ # es) = section_starts es"

lemma section_starts_append [simp]: "section_starts (es @ es') = section_starts es @ section_starts es'"
  by (induction es rule: section_starts.induct) auto

lemma section_starts_flat [simp]: "list_all no_section es \<Longrightarrow> section_starts es = []"
  by (induction es rule: section_starts.induct) auto

text \<open>From one state to another without a failure, entering the sections of a trace.\<close>

definition passes_to :: "NameAndLocation list \<Rightarrow> 'g TrackerContext \<Rightarrow> 'g RunContext \<Rightarrow> 'g RunContext \<Rightarrow> bool" where
  "passes_to tr cx rc rc' \<longleftrightarrow> (\<exists>es n. m_reported rc' = m_reported rc @ es \<and> section_starts es = tr \<and>
       m_totals rc' = Totals (error (m_totals rc)) (assertions (m_totals rc) + Counts n 0 0) (testCases (m_totals rc))) \<and>
     m_trackerContext rc' = cx \<and> m_activeSections rc' = m_activeSections rc \<and>
     m_unfinishedSections rc' = m_unfinishedSections rc \<and> m_testCaseTracker rc' = m_testCaseTracker rc \<and>
     m_activeTestCase rc' = m_activeTestCase rc"

lemma passes_toI:
  assumes "m_reported rc' = m_reported rc @ es" and "section_starts es = tr"
    and "m_totals rc' = Totals (error (m_totals rc)) (assertions (m_totals rc) + Counts n 0 0) (testCases (m_totals rc))"
    and "m_trackerContext rc' = cx" and "m_activeSections rc' = m_activeSections rc"
    and "m_unfinishedSections rc' = m_unfinishedSections rc" and "m_testCaseTracker rc' = m_testCaseTracker rc"
    and "m_activeTestCase rc' = m_activeTestCase rc"
  shows "passes_to tr cx rc rc'"
  using assms by (auto simp: passes_to_def)

lemma counts_passed: "Counts n 0 0 + Counts n' 0 0 = Counts (n + n') 0 0"
  by (intro counts_eqI) simp_all

lemma passes_to_trans:
  assumes "passes_to tr cx rc rc1" and "passes_to tr' cx' rc1 rc2"
  shows "passes_to (tr @ tr') cx' rc rc2"
proof -
  from assms(1) obtain es n where 1: "m_reported rc1 = m_reported rc @ es" "section_starts es = tr"
    "m_totals rc1 = Totals (error (m_totals rc)) (assertions (m_totals rc) + Counts n 0 0) (testCases (m_totals rc))"
    unfolding passes_to_def by blast
  from assms(2) obtain es' n' where 2: "m_reported rc2 = m_reported rc1 @ es'" "section_starts es' = tr'"
    "m_totals rc2 = Totals (error (m_totals rc1)) (assertions (m_totals rc1) + Counts n' 0 0) (testCases (m_totals rc1))"
    unfolding passes_to_def by blast
  show ?thesis
    by (rule passes_toI [where es = "es @ es'" and n = "n + n'"])
      (use assms 1 2 in \<open>auto simp: passes_to_def add.assoc counts_passed\<close>)
qed

lemma passes_to_failures: "passes_to tr cx rc rc' \<Longrightarrow> failures rc' = failures rc"
  by (auto simp: passes_to_def)

lemma flat_counted_passes:
  assumes "flat rc rc'" and "m_activeTestCase rc' = m_activeTestCase rc"
    and "m_totals rc' = Totals (error (m_totals rc)) (assertions (m_totals rc) + Counts n 0 0) (testCases (m_totals rc))"
  shows "passes_to [] (m_trackerContext rc) rc rc'"
proof -
  from assms(1) obtain es where "m_reported rc' = m_reported rc @ es" "list_all no_section es"
    by (auto simp: flat_def)
  then show ?thesis using assms by (intro passes_toI [where es = es and n = n]) (auto simp: flat_def)
qed

lemma assertion_passes:
  assumes "ar_isOk r" and "flat rc rc0" and "m_activeTestCase rc0 = m_activeTestCase rc" and "m_totals rc0 = m_totals rc"
  shows "\<exists>rc'. rc_assertionEnded r rc0 = Inr rc' \<and> passes_to [] (m_trackerContext rc) rc rc'"
proof -
  have "\<exists>rc1. count_result r rc0 = Inr rc1"
    using assms(1) by (cases "getResultType r = RW_Ok") (simp_all add: count_result_def)
  then obtain rc1 where "count_result r rc0 = Inr rc1" by blast
  then obtain rc' where e: "rc_assertionEnded r rc0 = Inr rc'"
    by (cases "new_AssertionStats r rc1") (auto simp: rc_assertionEnded_def Let_def)
  from assertionEnded_reports [OF e] assms have "m_activeTestCase rc' = m_activeTestCase rc"
    and "\<exists>n. m_totals rc' = Totals (error (m_totals rc)) (assertions (m_totals rc) + Counts n 0 0) (testCases (m_totals rc))"
    using exI [of "\<lambda>n. Counts n 0 0 = 0" 0] by (auto simp: Let_def)
  with e flat_trans [OF assms(2) assertionEnded_flat [OF e]] show ?thesis
    by (auto intro: flat_counted_passes)
qed

lemma handleExpr_passes:
  assumes "m_result expr \<noteq> isFalseTest (resultDisposition info)"
  shows "\<exists>rc'. bindE (rc_handleExpr config info expr no_reaction rc) react = Inr (Finished, rc') \<and>
    passes_to [] (m_trackerContext rc) rc rc'"
proof -
  let ?rc = "report (Ev_assertionStarting info) rc" and ?neg = "isFalseTest (resultDisposition info)"
  have f: "flat rc ?rc" by (rule flatI [where es = "[Ev_assertionStarting info]"]) (simp_all add: report_def)
  show ?thesis
  proof (cases "m_includeSuccessfulResults rc")
    case True
    let ?r = "\<lparr>ar_info = info, ar_resultData = new_AssertionResultData RW_Ok \<lparr>m_transientExpression = Some expr, m_isNegated = ?neg\<rparr>\<rparr>"
    have "ar_isOk ?r" by (simp add: ar_isOk_def rw_isOk_def new_AssertionResultData_def)
    moreover have "flat rc (?rc\<lparr>m_lastAssertionInfo := info\<rparr>)" using f by (simp add: flat_def)
    ultimately obtain rc' where "rc_assertionEnded ?r (?rc\<lparr>m_lastAssertionInfo := info\<rparr>) = Inr rc'"
      "passes_to [] (m_trackerContext rc) rc rc'"
      using assertion_passes [of ?r rc "?rc\<lparr>m_lastAssertionInfo := info\<rparr>"] by (auto simp: report_def)
    with True assms show ?thesis
      by (simp add: rc_handleExpr_def Let_def reportExpr_def no_reaction_def report_def)
  next
    case False
    have "flat ?rc (assertionPassed ?rc)"
      by (rule flatI [where es = "[]"]) (simp_all add: assertionPassed_def rc_quiet add_assertion_def)
    from flat_trans [OF f this] have "passes_to [] (m_trackerContext rc) rc (assertionPassed ?rc)"
      by (rule flat_counted_passes [where n = 1])
        (simp_all add: assertionPassed_def rc_quiet add_assertion_def report_def)
    with False assms show ?thesis
      by (simp add: rc_handleExpr_def Let_def no_reaction_def report_def)
  qed
qed

lemma handleNonExpr_passes:
  assumes "rw_isOk ty"
  shows "\<exists>rc'. bindE (handleNonExpr config info ty no_reaction rc) react = Inr (Finished, rc') \<and>
    passes_to [] (m_trackerContext rc) rc rc'"
proof -
  have ok: "ar_isOk (plain_result info ty m)" for m
    using assms by (simp add: ar_isOk_def plain_result_def new_AssertionResultData_def)
  have "flat rc (rc\<lparr>m_lastAssertionInfo := info\<rparr>)" by (rule flatI [where es = "[]"]) simp_all
  with assertion_passes [OF ok this, of "[]"] obtain rc' where
    "rc_assertionEnded (plain_result info ty []) (rc\<lparr>m_lastAssertionInfo := info\<rparr>) = Inr rc'"
    "passes_to [] (m_trackerContext rc) rc rc'" by auto
  with ok [of "[]"] show ?thesis by (simp add: handleNonExpr_def no_reaction_def)
qed

lemma handleMessage_passes:
  assumes "rw_isOk ty"
  shows "\<exists>rc'. bindE (rc_handleMessage config info ty message no_reaction rc) react = Inr (Finished, rc') \<and>
    passes_to [] (m_trackerContext rc) rc rc'"
proof -
  let ?rc = "(report (Ev_assertionStarting info) rc)\<lparr>m_lastAssertionInfo := info\<rparr>"
  have ok: "ar_isOk (plain_result info ty message)"
    using assms by (simp add: ar_isOk_def plain_result_def new_AssertionResultData_def)
  have "flat rc ?rc" by (rule flatI [where es = "[Ev_assertionStarting info]"]) (simp_all add: report_def)
  from assertion_passes [OF ok this] obtain rc' where "rc_assertionEnded (plain_result info ty message) ?rc = Inr rc'"
    "passes_to [] (m_trackerContext rc) rc rc'" by (auto simp: report_def)
  with ok show ?thesis by (simp add: rc_handleMessage_def no_reaction_def)
qed

lemma run_sections_append: "run_sections nxt (xs @ ys) cx = bindE (run_sections nxt xs cx) (\<lambda>(tr1, cx1).
    bindE (run_sections nxt ys cx1) (\<lambda>(tr2, cx2). Inr (tr1 @ tr2, cx2)))"
proof (induction xs arbitrary: cx)
  case Nil
  then show ?case by (cases "run_sections nxt ys cx") auto
next
  case (Cons x xs)
  show ?case
  proof (cases "run_section nxt x cx")
    case (Inr r)
    obtain tr cx1 where "r = (tr, cx1)" by (cases r)
    with Inr Cons.IH [of cx1] show ?thesis
      by (cases "run_sections nxt xs cx1") (auto split: prod.splits simp: bindE_assoc intro!: bindE_cong)
  qed simp
qed

lemma passes_to_refl: "passes_to [] (m_trackerContext rc) rc rc"
  by (rule passes_toI [where es = "[]" and n = 0]) simp_all

lemma message_passes: "passes_to tr cx rc rc' \<Longrightarrow> passes_to tr cx rc (popScopedMessage m rc')"
  by (simp add: passes_to_def popScopedMessage_def)

lemma exec_throws_passes:
  assumes "allowThrows (ts_config ts) \<longrightarrow> (\<exists>x. e = Some (True, x))"
  shows "\<exists>rc'. exec_throws ts info e rc = Inr (Finished, rc') \<and> passes_to [] (m_trackerContext rc) rc rc'"
proof -
  have "exec_throws ts info e rc = bindE (handleNonExpr (ts_config ts) info RW_Ok no_reaction rc) react"
    using assms by (auto simp: exec_throws_def)
  then show ?thesis using handleNonExpr_passes [of RW_Ok] by (simp add: rw_isOk_def)
qed

lemma sectionEnded_passes:
  assumes "\<not> warnAboutMissingAssertions config" and "m_activeSections rc = as @ [p]"
    and "tracker_close nxt p (m_trackerContext rc) = Inr cx"
  shows "\<exists>rc'. rc_sectionEnded config nxt endInfo rc = Inr rc' \<and>
    passes_to [] cx (rc\<lparr>m_activeSections := as\<rparr>) rc'"
proof -
  let ?e = "\<lparr>ss_sectionInfo = se_sectionInfo endInfo, ss_assertions = assertions (m_totals rc) - prevAssertions endInfo,
      missingAssertions = False\<rparr>"
  let ?rc = "clear_messages (report (Ev_sectionEnded ?e) (rc\<lparr>m_trackerContext := cx, m_activeSections := as\<rparr>))"
  have "rc_sectionEnded config nxt endInfo rc = Inr ?rc"
    using assms by (simp add: rc_sectionEnded_def testForMissingAssertions_def close_activeSection_def rc_tracker_def)
  moreover have "passes_to [] cx (rc\<lparr>m_activeSections := as\<rparr>) ?rc"
    by (rule passes_toI [where es = "[Ev_sectionEnded ?e]" and n = 0])
      (simp_all add: clear_messages_def clear_messageScopes_eq report_def)
  ultimately show ?thesis by blast
qed

lemma exec_passes:
  assumes "\<not> warnAboutMissingAssertions (ts_config ts)"
  shows "passing ts s \<Longrightarrow> run_sections nxt (sections_of s) (m_trackerContext rc) = Inr (tr, cx) \<Longrightarrow>
      \<exists>rc'. exec ts nxt s rc = Inr (Finished, rc') \<and> passes_to tr cx rc rc'"
    and "list_all (passing ts) ss \<Longrightarrow> run_sections nxt (concat (map sections_of ss)) (m_trackerContext rc) = Inr (tr, cx) \<Longrightarrow>
      \<exists>rc'. exec_all ts nxt ss rc = Inr (Finished, rc') \<and> passes_to tr cx rc rc'"
  using assms
proof (induction ts nxt s rc and ts nxt ss rc arbitrary: tr cx and tr cx rule: exec_exec_all.induct)
  case (1 ts nxt info expr rc)
  then show ?case using handleExpr_passes [of expr info "ts_config ts" rc] by auto
next
  case (3 ts nxt info rc)
  then show ?case using handleNonExpr_passes [of RW_Ok "ts_config ts" info rc] by (auto simp: rw_isOk_def)
next
  case (5 ts nxt info e rc)
  then show ?case using exec_throws_passes [of ts "map_option (Pair True) e" info rc] by (cases e) auto
next
  case (6 ts nxt info e rc)
  then show ?case using exec_throws_passes [of ts e info rc] by (auto split: option.splits prod.splits bool.splits)
next
  case (7 ts nxt info ty message rc)
  then show ?case using handleMessage_passes [of ty "ts_config ts" info message rc] by auto
next
  case (8 ts nxt macro line message body rc)
  obtain m rc1 where b: "build_message macro line RW_Info message rc = (m, rc1)"
    by (cases "build_message macro line RW_Info message rc")
  let ?rc = "pushScopedMessage m rc1"
  have p1: "passes_to [] (m_trackerContext rc) rc ?rc" and cx1: "m_trackerContext ?rc = m_trackerContext rc"
    using b by (auto simp: build_message_def new_MessageInfo_def pushScopedMessage_def intro!: passes_toI [where es = "[]" and n = 0])
  have "\<exists>rc'. exec_all ts nxt body ?rc = Inr (Finished, rc') \<and> passes_to tr cx ?rc rc'"
    by (rule 8(1) [OF b [symmetric] refl]) (use 8 cx1 in simp_all)
  then obtain rc' where e: "exec_all ts nxt body ?rc = Inr (Finished, rc')" and p2: "passes_to tr cx ?rc rc'" by blast
  from passes_to_trans [OF p1 p2] have "passes_to tr cx rc (popScopedMessage m rc')" by (simp add: message_passes)
  with e b show ?case by (simp add: leave_scope_def)
next
  case (9 ts nxt macro line message rc)
  obtain m rc1 where b: "build_message macro line RW_Info message rc = (m, rc1)"
    by (cases "build_message macro line RW_Info message rc")
  have "passes_to [] (m_trackerContext rc) rc (emplaceUnscopedMessage m rc1)"
    using b by (auto simp: build_message_def new_MessageInfo_def emplaceUnscopedMessage_def pushScopedMessage_def
        intro!: passes_toI [where es = "[]" and n = 0])
  with 9 b show ?case by simp
next
  case (10 ts nxt info body rc)
  let ?n = "section_nl info" and ?bs = "concat (map sections_of body)"
  from 10(3) obtain tr1 cx1 where "run_section nxt (Block ?n ?bs) (m_trackerContext rc) = Inr (tr1, cx1)" "tr = tr1" "cx = cx1"
    by (auto elim!: bindE_InrE)
  then have r: "run_section nxt (Block ?n ?bs) (m_trackerContext rc) = Inr (tr, cx)" by simp
  from r obtain p cx1 t where a: "acquire_section ?n (m_trackerContext rc) = Inr (p, cx1)" "tracker_at p cx1 = Inr t"
    and o: "(if \<not> isOpen t then Inr ([], cx1)
       else bindE (run_sections nxt ?bs cx1) (\<lambda>(tr, cx2). bindE (tracker_close nxt p cx2) (\<lambda>cx3. Inr (?n # tr, cx3)))) = Inr (tr, cx)"
    by (auto elim!: bindE_InrE)
  show ?case
  proof (cases "isOpen t")
    case False
    with o have "tr = []" "cx = cx1" by auto
    moreover have "exec ts nxt (Section info body) rc = Inr (Finished, rc\<lparr>m_trackerContext := cx1\<rparr>)"
      using a False by (simp add: sectionStarted_def section_nl_def Let_def)
    moreover have "passes_to [] cx1 rc (rc\<lparr>m_trackerContext := cx1\<rparr>)"
      by (rule passes_toI [where es = "[]" and n = 0]) simp_all
    ultimately show ?thesis by blast
  next
    case True
    define rc1 where "rc1 = report (Ev_sectionStarting info) (rc\<lparr>m_trackerContext := cx1,
           m_activeSections := m_activeSections rc @ [p],
           m_lastAssertionInfo := (m_lastAssertionInfo rc)\<lparr>ai_lineInfo := si_lineInfo info\<rparr>\<rparr>)"
    have st: "sectionStarted info rc = Inr (True, assertions (m_totals rc), rc1)"
      using a True by (simp add: sectionStarted_def section_nl_def Let_def rc1_def)
    from o True obtain tr2 cx2 where s: "run_sections nxt ?bs cx1 = Inr (tr2, cx2)" "tracker_close nxt p cx2 = Inr cx" "tr = ?n # tr2"
      by (auto elim!: bindE_InrE)
    have "\<exists>rc2. exec_all ts nxt body rc1 = Inr (Finished, rc2) \<and> passes_to tr2 cx2 rc1 rc2"
      by (rule 10(1) [OF st refl refl]) (use 10 s(1) in \<open>simp_all add: rc1_def report_def\<close>)
    then obtain rc2 where e: "exec_all ts nxt body rc1 = Inr (Finished, rc2)" and p2: "passes_to tr2 cx2 rc1 rc2" by blast
    have as: "m_activeSections rc2 = m_activeSections rc @ [p]" "m_trackerContext rc2 = cx2"
      using p2 by (simp_all add: passes_to_def rc1_def report_def)
    from sectionEnded_passes [OF 10(4) as(1), of nxt cx "\<lparr>se_sectionInfo = info, prevAssertions = assertions (m_totals rc)\<rparr>"] s(2) as(2)
    obtain rc' where c: "rc_sectionEnded (ts_config ts) nxt \<lparr>se_sectionInfo = info, prevAssertions = assertions (m_totals rc)\<rparr> rc2 = Inr rc'"
      and p3: "passes_to [] cx (rc2\<lparr>m_activeSections := m_activeSections rc\<rparr>) rc'" by auto
    have p1: "passes_to [?n] cx1 rc (rc1\<lparr>m_activeSections := m_activeSections rc\<rparr>)"
      by (rule passes_toI [where es = "[Ev_sectionStarting info]" and n = 0]) (simp_all add: rc1_def report_def)
    have "passes_to tr2 cx2 (rc1\<lparr>m_activeSections := m_activeSections rc\<rparr>) (rc2\<lparr>m_activeSections := m_activeSections rc\<rparr>)"
      using p2 by (simp add: passes_to_def)
    from passes_to_trans [OF passes_to_trans [OF p1 this] p3] have "passes_to tr cx rc rc'" using s(3) by simp
    moreover have "exec ts nxt (Section info body) rc = Inr (Finished, rc')"
      using st e c by (simp add: leave_section_def)
    ultimately show ?thesis by blast
  qed
next
  case (12 ts nxt rc)
  then show ?case using passes_to_refl by auto
next
  case (13 ts nxt s ss rc)
  from 13(4) obtain tr1 cx1 tr2 where s1: "run_sections nxt (sections_of s) (m_trackerContext rc) = Inr (tr1, cx1)"
    and s2: "run_sections nxt (concat (map sections_of ss)) cx1 = Inr (tr2, cx)" and tr: "tr = tr1 @ tr2"
    by (auto simp: run_sections_append elim!: bindE_InrE)
  from 13(3) have ok: "passing ts s" "list_all (passing ts) ss" by simp_all
  from 13(1) [OF ok(1) s1 13(5)] obtain rc1 where e1: "exec ts nxt s rc = Inr (Finished, rc1)" and p1: "passes_to tr1 cx1 rc rc1"
    by blast
  have "m_trackerContext rc1 = cx1" using p1 by (simp add: passes_to_def)
  with 13(2) [OF e1 refl refl ok(2) _ 13(5)] s2 obtain rc' where
    "exec_all ts nxt ss rc1 = Inr (Finished, rc')" "passes_to tr2 cx rc1 rc'" by blast
  with e1 passes_to_trans [OF p1] tr show ?case by auto
qed simp_all

lemma runCurrentTest_passes:
  assumes "list_all (passing ts) body" and "\<not> warnAboutMissingAssertions (ts_config ts)"
    and "m_activeTestCase rc = Some info" and "m_testCaseTracker rc = Some p" and "m_unfinishedSections rc = []"
    and "run_sections nxt (concat (map sections_of body)) (m_trackerContext rc) = Inr (tr, cx2)"
    and "tracker_close nxt p cx2 = Inr cx3"
  shows "\<exists>rc'. runCurrentTest ts nxt body rc = Inr rc' \<and>
    passes_to (\<lparr>nl_name = ti_name info, nl_location = ti_lineInfo info\<rparr> # tr) cx3 rc rc'"
proof -
  let ?T = "\<lparr>si_name = ti_name info, si_lineInfo = ti_lineInfo info\<rparr>"
  define rc1 where "rc1 = (report (Ev_sectionStarting ?T) rc)
        \<lparr>m_shouldReportUnexpected := True,
         m_lastAssertionInfo := \<lparr>ai_macroName = ''TEST_CASE'', ai_lineInfo = ti_lineInfo info, capturedExpression = [],
             resultDisposition = RD_Normal\<rparr>,
         rc_rng := seedRng (registry_config (ts_config ts)) (rc_rng rc)\<rparr>"
  have p1: "passes_to [\<lparr>nl_name = ti_name info, nl_location = ti_lineInfo info\<rparr>] (m_trackerContext rc) rc rc1"
    by (rule passes_toI [where es = "[Ev_sectionStarting ?T]" and n = 0]) (simp_all add: rc1_def report_def section_nl_def)
  then have cx1: "m_trackerContext rc1 = m_trackerContext rc" by (simp add: passes_to_def)
  from exec_passes(2) [OF assms(2,1), of nxt rc1 tr cx2] assms(6) cx1 obtain rc2 where
    e: "exec_all ts nxt body rc1 = Inr (Finished, rc2)" and p2: "passes_to tr cx2 rc1 rc2" by auto
  have st2: "m_testCaseTracker rc2 = Some p" "m_trackerContext rc2 = cx2" "m_unfinishedSections rc2 = []"
    using p2 assms(4,5) by (simp_all add: passes_to_def rc1_def report_def)
  let ?e = "\<lparr>ss_sectionInfo = ?T, ss_assertions = assertions (m_totals rc2) - assertions (m_totals rc), missingAssertions = False\<rparr>"
  let ?rc = "report (Ev_sectionEnded ?e) (clear_messages (rc2\<lparr>m_trackerContext := cx3, m_unfinishedSections := []\<rparr>))"
  have mis: "testForMissingAssertions (ts_config ts) c rc2 = Inr (False, c, rc2)" for c
    using assms(2) by (simp add: testForMissingAssertions_def)
  have trk: "rc_tracker (tracker_close nxt p) rc2 = Inr (rc2\<lparr>m_trackerContext := cx3\<rparr>)"
    using st2(2) assms(7) by (simp add: rc_tracker_def)
  have unf: "handleUnfinishedSections (ts_config ts) nxt (rc2\<lparr>m_trackerContext := cx3\<rparr>) =
      Inr (rc2\<lparr>m_trackerContext := cx3, m_unfinishedSections := []\<rparr>)"
    using st2(3) by (simp add: handleUnfinishedSections_def)
  have "bindE (exec_all ts nxt body rc1) (handle_escaped ts) = Inr rc2" using e by (simp add: handle_escaped_def)
  then have "runCurrentTest ts nxt body rc = Inr ?rc"
    using assms(3) mis trk unf st2(1)
    by (simp add: runCurrentTest_def activeTestInfo_def Let_def rc1_def report_def)
  moreover have "passes_to [] cx3 rc2 ?rc"
    by (rule passes_toI [where es = "[Ev_sectionEnded ?e]" and n = 0])
      (use st2 in \<open>simp_all add: clear_messages_def clear_messageScopes_eq report_def\<close>)
  ultimately show ?thesis using passes_to_trans [OF passes_to_trans [OF p1 p2]] by fastforce
qed

lemma passes_to_start:
  "passes_to tr cx (rc\<lparr>m_trackerContext := cx0, m_testCaseTracker := p\<rparr>) rc' \<Longrightarrow>
     \<exists>es n. m_reported rc' = m_reported rc @ es \<and> section_starts es = tr \<and>
       m_totals rc' = Totals (error (m_totals rc)) (assertions (m_totals rc) + Counts n 0 0) (testCases (m_totals rc)) \<and>
       m_trackerContext rc' = cx \<and> m_unfinishedSections rc' = m_unfinishedSections rc \<and> m_activeTestCase rc' = m_activeTestCase rc"
  by (auto simp: passes_to_def)

lemma run_cycle_passes:
  fixes rc :: "'g RunContext"
  defines "nl \<equiv> \<lambda>info. \<lparr>nl_name = ti_name info, nl_location = ti_lineInfo info\<rparr>"
  assumes "list_all (passing ts) body" and "\<not> warnAboutMissingAssertions (ts_config ts)"
    and "m_activeTestCase rc = Some info" and "m_unfinishedSections rc = []"
    and "test_cycle nxt (nl info) (concat (map sections_of body)) (m_trackerContext rc) = Inr (tr, fin, cx)"
  shows "\<exists>rc' es n. run_cycle ts nxt info body rc = Inr (fin \<or> aborting (ts_config ts) rc, rc') \<and>
    m_reported rc' = m_reported rc @ es \<and> section_starts es = nl info # tr \<and>
    m_totals rc' = Totals (error (m_totals rc)) (assertions (m_totals rc) + Counts n 0 0) (testCases (m_totals rc)) \<and>
    m_trackerContext rc' = cx \<and> m_unfinishedSections rc' = [] \<and> m_activeTestCase rc' = Some info"
proof -
  from bindE_InrE [OF assms(6) [unfolded test_cycle_def]] obtain p cx1 where
    a: "acquire_section (nl info) (startCycle (m_trackerContext rc)) = Inr (p, cx1)"
    and r: "bindE (run_sections nxt (concat (map sections_of body)) cx1) (\<lambda>(tr, cx2).
     bindE (tracker_close nxt p cx2) (\<lambda>cx3. bindE (tracker_at p cx3) (\<lambda>t. Inr (tr, isSuccessfullyCompleted t, cx3)))) = Inr (tr, fin, cx)"
    by (metis (no_types, lifting) case_prod_conv surj_pair)
  from r obtain cx2 t where s: "run_sections nxt (concat (map sections_of body)) cx1 = Inr (tr, cx2)"
    "tracker_close nxt p cx2 = Inr cx" "tracker_at p cx = Inr t" "fin = isSuccessfullyCompleted t"
    by (auto elim!: bindE_InrE)
  let ?rc = "rc\<lparr>m_trackerContext := cx1, m_testCaseTracker := Some p\<rparr>"
  from runCurrentTest_passes [of ts body ?rc info p nxt tr cx2 cx] assms s obtain rc' where
    run: "runCurrentTest ts nxt body ?rc = Inr rc'" and ps: "passes_to (nl info # tr) cx ?rc rc'"
    by (auto simp: nl_def)
  from passes_to_start [OF ps] obtain es n where p: "m_reported rc' = m_reported rc @ es" "section_starts es = nl info # tr"
    "m_totals rc' = Totals (error (m_totals rc)) (assertions (m_totals rc) + Counts n 0 0) (testCases (m_totals rc))"
    "m_trackerContext rc' = cx" "m_unfinishedSections rc' = m_unfinishedSections rc" "m_activeTestCase rc' = m_activeTestCase rc"
    by blast
  have "aborting (ts_config ts) rc' = aborting (ts_config ts) rc" using p(3) by (simp add: aborting_def)
  then have "run_cycle ts nxt info body rc = Inr (fin \<or> aborting (ts_config ts) rc, rc')"
    using a run s p(4) by (simp add: run_cycle_def nl_def)
  with p assms(4,5) show ?thesis by auto
qed

lemma run_cycles_pass:
  fixes rc :: "'g RunContext" and info :: TestCaseInfo and body :: "stmt list"
  defines "bs \<equiv> concat (map sections_of body)" and "n \<equiv> \<lparr>nl_name = ti_name info, nl_location = ti_lineInfo info\<rparr>"
  assumes "good_block (Block n bs)" and "list_all (passing ts) body" and "\<not> warnAboutMissingAssertions (ts_config ts)"
  shows "between_cycles (Block n bs) k (m_trackerContext rc) \<Longrightarrow> k < leaves (Block n bs) \<Longrightarrow>
    m_activeTestCase rc = Some info \<Longrightarrow> m_unfinishedSections rc = [] \<Longrightarrow> \<not> aborting (ts_config ts) rc \<Longrightarrow>
    \<exists>rc' es m. run_cycles ts nxt info body rc = Some (Inr rc') \<and> m_reported rc' = m_reported rc @ es \<and>
      section_starts es = concat (map (\<lambda>k. n # way_all bs k) [k..<leaves (Block n bs)]) \<and>
      m_totals rc' = Totals (error (m_totals rc)) (assertions (m_totals rc) + Counts m 0 0) (testCases (m_totals rc))"
proof (induction "leaves (Block n bs) - k" arbitrary: k rc)
  case (Suc d)
  from test_cycle_runs [OF assms(3) Suc.prems(1,2)] obtain cx where
    c: "test_cycle nxt n bs (m_trackerContext rc) = Inr (way_all bs k, leaves (Block n bs) \<le> k + 1, cx)"
    and b: "between_cycles (Block n bs) (k + 1) cx" by blast
  from run_cycle_passes [OF assms(4,5) Suc.prems(3,4) c [unfolded n_def bs_def]] Suc.prems(5) obtain rc1 es m where
    r: "run_cycle ts nxt info body rc = Inr (leaves (Block n bs) \<le> k + 1, rc1)" "m_reported rc1 = m_reported rc @ es"
    "section_starts es = n # way_all bs k"
    "m_totals rc1 = Totals (error (m_totals rc)) (assertions (m_totals rc) + Counts m 0 0) (testCases (m_totals rc))"
    "m_trackerContext rc1 = cx" "m_unfinishedSections rc1 = []" "m_activeTestCase rc1 = Some info"
    by (auto simp: n_def bs_def simp del: leaves.simps)
  show ?case
  proof (cases "leaves (Block n bs) \<le> k + 1")
    case True
    with Suc.prems(2) have "[k..<leaves (Block n bs)] = [k]" by (simp add: upt_rec del: leaves.simps)
    with r True show ?thesis by (subst run_cycles.simps) (simp del: leaves.simps)
  next
    case False
    have d: "d = leaves (Block n bs) - (k + 1)" using Suc.hyps(2) by simp
    have "\<not> aborting (ts_config ts) rc1" using r(4) Suc.prems(5) by (simp add: aborting_def)
    with Suc.hyps(1) [OF d, of rc1] b r False obtain rc' es' m' where
      r2: "run_cycles ts nxt info body rc1 = Some (Inr rc')" "m_reported rc' = m_reported rc1 @ es'"
      "section_starts es' = concat (map (\<lambda>k. n # way_all bs k) [k + 1..<leaves (Block n bs)])"
      "m_totals rc' = Totals (error (m_totals rc1)) (assertions (m_totals rc1) + Counts m' 0 0) (testCases (m_totals rc1))"
      by (auto simp del: leaves.simps)
    have u: "[k..<leaves (Block n bs)] = k # [k + 1..<leaves (Block n bs)]"
      using Suc.prems(2) by (simp add: upt_conv_Cons del: leaves.simps)
    from r(1) False r2(1) have run: "run_cycles ts nxt info body rc = Some (Inr rc')"
      by (subst run_cycles.simps) (simp del: leaves.simps)
    show ?thesis
      by (intro exI [of _ rc'] exI [of _ "es @ es'"] exI [of _ "m + m'"])
        (simp add: run r r2 u add.assoc counts_passed del: leaves.simps)
  qed
qed simp



end
