(* ===== verification/Catch_Reporters.thy ===== *)
theory Catch_Reporters
  imports Catch_Run_Report
begin

section \<open>Reporters\<close>

text \<open>
  The interface \<open>IStreamingReporter\<close>: a reporter is what it does with a call, as a change of its state that
  may fail. The order in which the run context makes the calls is an automaton; a reporter that accepts
  the automaton is an instance of the locale \<open>reporter\<close> and accepts every run. Here are the base of the
  streaming reporters and \<open>ListeningReporter\<close>, which passes the calls on.
\<close>

subsection \<open>The order of the calls\<close>

text \<open>In a test case: whether a section has been started, and how many sections are open.\<close>

datatype phase = Not_started | In_run | In_group | In_test bool nat | Run_over

fun follow :: "reporter_event \<Rightarrow> phase \<Rightarrow> phase option" where
  "follow (Ev_testRunStarting _) Not_started = Some In_run"
| "follow (Ev_testGroupStarting _) In_run = Some In_group"
| "follow (Ev_testGroupEnded _) In_group = Some In_run"
| "follow (Ev_testRunEnded _) In_run = Some Run_over"
| "follow (Ev_noMatchingTestCases _) In_group = Some In_group"
| "follow (Ev_reportInvalidArguments _) In_group = Some In_group"
| "follow (Ev_skipTest _) In_group = Some In_group"
| "follow (Ev_testCaseStarting _) In_group = Some (In_test False 0)"
| "follow (Ev_sectionStarting _) (In_test _ n) = Some (In_test True (Suc n))"
| "follow (Ev_sectionEnded _) (In_test b (Suc n)) = Some (In_test b n)"
| "follow (Ev_assertionStarting _) (In_test b (Suc n)) = Some (In_test b (Suc n))"
| "follow (Ev_assertionEnded _) (In_test b (Suc n)) = Some (In_test b (Suc n))"
| "follow (Ev_testCaseEnded _) (In_test True 0) = Some In_group"
| "follow _ _ = None"

fun follows :: "reporter_event list \<Rightarrow> phase \<Rightarrow> phase option" where
  "follows [] p = Some p"
| "follows (e # es) p = Option.bind (follow e p) (follows es)"

lemma follows_append: "follows (es @ es') p = Option.bind (follows es p) (follows es')"
  by (induction es arbitrary: p) (auto split: bind_splits)

lemma nest_follows:
  "nest es st = Some st' \<Longrightarrow> 0 < k \<Longrightarrow> follows es (In_test True (length st + k)) = Some (In_test True (length st' + k))"
  by (induction es st rule: nest.induct) (auto simp: gr0_conv_Suc split: list.splits if_splits)

text \<open>Calls from inside of a test case: its end is not among them.\<close>

definition inside :: "reporter_event list \<Rightarrow> bool" where
  "inside es \<longleftrightarrow> (\<forall>st. Ev_testCaseEnded st \<notin> set es)"

lemma inside_simps [simp]:
  "inside (es @ es') \<longleftrightarrow> inside es \<and> inside es'" "inside []" "inside (map Ev_sectionEnded ends)"
  "inside (e # es) \<longleftrightarrow> (\<forall>st. e \<noteq> Ev_testCaseEnded st) \<and> inside es"
  by (auto simp: inside_def)

lemma nest_inside: "nest es st = Some st' \<Longrightarrow> inside es"
  by (induction es st rule: nest.induct) (auto split: list.splits if_splits)

lemma ends_follow: "follows (map Ev_sectionEnded ends) (In_test b (length ends + k)) = Some (In_test b k)"
  by (induction ends) auto

lemma runCurrentTest_follows:
  assumes "runCurrentTest ts nxt body rc = Inr rc'" and "m_unfinishedSections rc = []"
  shows "\<exists>es. m_reported rc' = m_reported rc @ es \<and> follows es (In_test b 0) = Some (In_test True 0) \<and>
    inside es \<and> m_unfinishedSections rc' = []"
proof -
  from assms obtain info :: TestCaseInfo and bs us ends e where
    rep: "m_reported rc' = m_reported rc @ Ev_sectionStarting \<lparr>si_name = ti_name info, si_lineInfo = ti_lineInfo info\<rparr> #
      bs @ map Ev_sectionEnded ends @ [Ev_sectionEnded e]"
    and bs: "\<And>st. nest bs st = Some (us @ st)" and ends: "map ss_sectionInfo ends = rev us"
    and u: "m_unfinishedSections rc' = []" by (rule runCurrentTest_sections) blast
  have len: "length us = length ends" using arg_cong [OF ends, of length] by simp
  have "follows bs (In_test True 1) = Some (In_test True (length ends + 1))"
    using nest_follows [OF bs [of "[]"], of 1] len by simp
  then show ?thesis unfolding rep using u ends_follow [of ends True 1] nest_inside [OF bs]
    by (simp add: follows_append)
qed

lemma runTest_events:
  assumes "runTest here ts nxt info body rc = Some (Inr (delta, rc'))" and "m_unfinishedSections rc = []"
  shows "\<exists>es st. m_reported rc' = m_reported rc @ Ev_testCaseStarting info # es @ [Ev_testCaseEnded st] \<and>
    tc_totals st = delta \<and> error delta = 0 \<and>
    follows es (In_test False 0) = Some (In_test True 0) \<and> inside es \<and> m_unfinishedSections rc' = []"
proof -
  from assms(1) obtain rc0 rc1 where s: "start_test here (ts_config ts) info rc = Inr rc0"
    and r: "run_cycles ts nxt info body rc0 = Some (Inr rc1)" and f: "(delta, rc') = finish_test (ts_config ts) info (m_totals rc) rc1"
    unfolding runTest_def by (auto simp: bindE_eq_Inr split: sum.splits)
  let ?I = "\<lambda>b rc1. (\<exists>es. m_reported rc1 = m_reported rc @ Ev_testCaseStarting info # es \<and>
      follows es (In_test False 0) = Some (In_test b 0) \<and> inside es) \<and> m_unfinishedSections rc1 = []"
  from s assms(2) have "?I False rc0"
    by (auto simp: start_test_def report_def elim!: bindE_InrE)
  then have start: "\<exists>b. ?I b rc0" by blast
  have cycle: "?I True rc2" if I: "\<exists>b. ?I b rc1" and c: "run_cycle ts nxt info body rc1 = Inr (fin, rc2)" for rc1 rc2 fin
  proof -
    from I obtain b es where b: "m_reported rc1 = m_reported rc @ Ev_testCaseStarting info # es"
      "follows es (In_test False 0) = Some (In_test b 0)" "inside es"
      "m_unfinishedSections rc1 = []" by blast
    from c obtain p cx where "runCurrentTest ts nxt body (rc1\<lparr>m_trackerContext := cx, m_testCaseTracker := Some p\<rparr>) = Inr rc2"
      unfolding run_cycle_def by (auto elim!: bindE_InrE)
    from runCurrentTest_follows [OF this, of b] b show ?thesis by (auto simp: follows_append)
  qed
  have "?I True rc1"
    by (rule run_cycles_invariant [where I = "\<lambda>rc. \<exists>b. ?I b rc", OF r start]) (use cycle in \<open>blast\<close>)+
  with f show ?thesis by (auto simp: finish_test_def report_def Let_def follows_append expected_failure_def totals_delta_def totals_minus_def)
qed

lemma runTest_follows:
  assumes "runTest here ts nxt info body rc = Some (Inr (delta, rc'))" and "m_unfinishedSections rc = []"
  shows "\<exists>es. m_reported rc' = m_reported rc @ es \<and> follows es In_group = Some In_group \<and> m_unfinishedSections rc' = []"
  using runTest_events [OF assms] by (auto simp: follows_append)

subsection \<open>The interface\<close>

type_synonym 's reporter = "reporter_event \<Rightarrow> 's \<Rightarrow> 's res"

text \<open>A reporter and what is true of its state in every phase of a run.\<close>

locale reporter =
  fixes handle :: "'s reporter" and view :: "phase \<Rightarrow> 's \<Rightarrow> bool"
  assumes accepts: "follow e p = Some p' \<Longrightarrow> view p s \<Longrightarrow> \<exists>s'. handle e s = Inr s' \<and> view p' s'"
begin

lemma accepts_all: "follows es p = Some p' \<Longrightarrow> view p s \<Longrightarrow> \<exists>s'. foldE handle es s = Inr s' \<and> view p' s'"
proof (induction es arbitrary: p s)
  case (Cons e es)
  from Cons.prems(1) obtain p1 where p1: "follow e p = Some p1" "follows es p1 = Some p'"
    by (auto simp: bind_eq_Some_conv)
  from accepts [OF p1(1) Cons.prems(2)] obtain s1 where s1: "handle e s = Inr s1" "view p1 s1" by blast
  from Cons.IH [OF p1(2) s1(2)] s1(1) show ?case by simp
qed simp

lemma accepts_test:
  assumes "runTest here ts nxt info body rc = Some (Inr (delta, rc'))" and "m_unfinishedSections rc = []"
    and "view In_group s"
  shows "\<exists>s'. foldE handle (drop (length (m_reported rc)) (m_reported rc')) s = Inr s' \<and> view In_group s'"
  using runTest_follows [OF assms(1,2)] accepts_all [OF _ assms(3)] by auto

end

subsection \<open>Streaming reporters\<close>

record StreamingReporterBase =
  currentTestRunInfo :: "string option"
  currentGroupInfo :: "GroupInfo option"
  currentTestCaseInfo :: "TestCaseInfo option"
  m_sectionStack :: "SectionInfo list"

definition new_StreamingReporterBase :: StreamingReporterBase where
  "new_StreamingReporterBase =
     \<lparr>currentTestRunInfo = None, currentGroupInfo = None, currentTestCaseInfo = None, m_sectionStack = []\<rparr>"

fun streaming :: "reporter_event \<Rightarrow> 'x StreamingReporterBase_scheme \<Rightarrow> 'x StreamingReporterBase_scheme res" where
  "streaming (Ev_testRunStarting runInfo) r = Inr (r\<lparr>currentTestRunInfo := Some runInfo\<rparr>)"
| "streaming (Ev_testGroupStarting groupInfo) r = Inr (r\<lparr>currentGroupInfo := Some groupInfo\<rparr>)"
| "streaming (Ev_testCaseStarting testInfo) r = Inr (r\<lparr>currentTestCaseInfo := Some testInfo\<rparr>)"
| "streaming (Ev_sectionStarting sectionInfo) r = Inr (r\<lparr>m_sectionStack := m_sectionStack r @ [sectionInfo]\<rparr>)"
| "streaming (Ev_sectionEnded _) r =
     (if m_sectionStack r = [] then Inl Undefined else Inr (r\<lparr>m_sectionStack := butlast (m_sectionStack r)\<rparr>))"
| "streaming (Ev_testCaseEnded _) r = Inr (r\<lparr>currentTestCaseInfo := None\<rparr>)"
| "streaming (Ev_testGroupEnded _) r = Inr (r\<lparr>currentGroupInfo := None\<rparr>)"
| "streaming (Ev_testRunEnded _) r =
     Inr (r\<lparr>currentTestCaseInfo := None, currentGroupInfo := None, currentTestRunInfo := None\<rparr>)"
| "streaming _ r = Inr r"

text \<open>What the state says in a phase: the current test case is there, and the stack has the open sections.\<close>

fun streaming_view :: "phase \<Rightarrow> 'x StreamingReporterBase_scheme \<Rightarrow> bool" where
  "streaming_view (In_test b n) r \<longleftrightarrow> currentTestCaseInfo r \<noteq> None \<and> length (m_sectionStack r) = n"
| "streaming_view _ r \<longleftrightarrow> m_sectionStack r = []"

lemma streaming_accepts:
  "follow e p = Some p' \<Longrightarrow> streaming_view p r \<Longrightarrow> \<exists>r'. streaming e r = Inr r' \<and> streaming_view p' r'"
  by (induction e p rule: follow.induct) auto

interpretation streaming: reporter streaming streaming_view
  by unfold_locales (rule streaming_accepts)

text \<open>How a place in the source is printed.\<close>

definition source_text :: "SourceLineInfo \<Rightarrow> string" where
  "source_text info = li_file info @ CHR '':'' # to_string (int (li_line info))"

subsection \<open>Listeners\<close>

record ReporterPreferences =
  shouldRedirectStdOut :: bool
  shouldReportAllAssertions :: bool

text \<open>A reporter object: its operations, its state and its preferences.\<close>

record 's IStreamingReporter =
  ir_handle :: "'s reporter"
  ir_state :: 's
  ir_preferences :: ReporterPreferences

record 's ListeningReporter =
  m_listeners :: "'s IStreamingReporter list"
  m_reporter :: "'s IStreamingReporter option"
  m_preferences :: ReporterPreferences

definition new_ListeningReporter :: "'s ListeningReporter" where
  "new_ListeningReporter = \<lparr>m_listeners = [], m_reporter = None,
     m_preferences = \<lparr>shouldRedirectStdOut = False, shouldReportAllAssertions = True\<rparr>\<rparr>"

definition addListener :: "'s IStreamingReporter \<Rightarrow> 's ListeningReporter \<Rightarrow> 's ListeningReporter" where
  "addListener listener r = r\<lparr>m_listeners := m_listeners r @ [listener]\<rparr>"

definition addReporter :: "'s IStreamingReporter \<Rightarrow> 's ListeningReporter \<Rightarrow> 's ListeningReporter res" where
  "addReporter rep r = (if m_reporter r \<noteq> None then Inl Assert_Failed
     else Inr (r\<lparr>m_reporter := Some rep,
       m_preferences := (m_preferences r)\<lparr>shouldRedirectStdOut := shouldRedirectStdOut (ir_preferences rep)\<rparr>\<rparr>))"

definition tell :: "reporter_event \<Rightarrow> 's IStreamingReporter \<Rightarrow> 's IStreamingReporter res" where
  "tell e r = bindE (ir_handle r e (ir_state r)) (\<lambda>s. Inr (r\<lparr>ir_state := s\<rparr>))"

text \<open>Every operation but \<open>fatalErrorEncountered\<close>, which the class inherits and which does nothing.\<close>

definition listening :: "reporter_event \<Rightarrow> 's ListeningReporter \<Rightarrow> 's ListeningReporter res" where
  "listening e r = (case e of
       Ev_fatalErrorEncountered _ \<Rightarrow> Inr r
     | _ \<Rightarrow> bindE (mapE (tell e) (m_listeners r)) (\<lambda>ls.
         case m_reporter r of
           None \<Rightarrow> Inl Undefined
         | Some rep \<Rightarrow> bindE (tell e rep) (\<lambda>rep'. Inr (r\<lparr>m_listeners := ls, m_reporter := Some rep'\<rparr>))))"

text \<open>Every listener and the reporter keep to the interface, each with a view of its own.\<close>

definition keeps_to :: "phase \<Rightarrow> 's IStreamingReporter \<Rightarrow> bool" where
  "keeps_to p r \<longleftrightarrow> (\<exists>v. reporter (ir_handle r) v \<and> v p (ir_state r))"

definition listening_view :: "phase \<Rightarrow> 's ListeningReporter \<Rightarrow> bool" where
  "listening_view p r \<longleftrightarrow> (\<forall>l \<in> set (m_listeners r). keeps_to p l) \<and> (\<exists>rep. m_reporter r = Some rep \<and> keeps_to p rep)"

lemma tell_keeps:
  assumes "follow e p = Some p'" and "keeps_to p r"
  shows "\<exists>r'. tell e r = Inr r' \<and> keeps_to p' r'"
proof -
  from assms(2) obtain v where v: "reporter (ir_handle r) v" "v p (ir_state r)" unfolding keeps_to_def by blast
  from reporter.accepts [OF v(1) assms(1) v(2)] obtain s where "ir_handle r e (ir_state r) = Inr s" "v p' s" by blast
  with v(1) show ?thesis by (intro exI [of _ "r\<lparr>ir_state := s\<rparr>"]) (auto simp: tell_def keeps_to_def)
qed

lemma follow_not_fatal: "follow (Ev_fatalErrorEncountered m) p = None"
  by (cases p) auto

lemma listening_tells: "follow e p = Some p' \<Longrightarrow>
    listening e r = bindE (mapE (tell e) (m_listeners r)) (\<lambda>ls. case m_reporter r of
       None \<Rightarrow> Inl Undefined
     | Some rep \<Rightarrow> bindE (tell e rep) (\<lambda>rep'. Inr (r\<lparr>m_listeners := ls, m_reporter := Some rep'\<rparr>)))"
  by (auto simp: listening_def follow_not_fatal split: reporter_event.split)

lemma tell_all_keeps:
  "follow e p = Some p' \<Longrightarrow> \<forall>l \<in> set ls. keeps_to p l \<Longrightarrow> \<exists>ls'. mapE (tell e) ls = Inr ls' \<and> (\<forall>l \<in> set ls'. keeps_to p' l)"
  by (induction ls) (auto dest!: tell_keeps)

interpretation listening: reporter listening listening_view
proof
  fix e p p' and r :: "'s ListeningReporter"
  assume f: "follow e p = Some p'" and v: "listening_view p r"
  from v obtain rep where rep: "m_reporter r = Some rep" "keeps_to p rep" by (auto simp: listening_view_def)
  from tell_keeps [OF f rep(2)] tell_all_keeps [OF f, of "m_listeners r"] v rep(1)
  show "\<exists>r'. listening e r = Inr r' \<and> listening_view p' r'"
    by (auto simp: listening_tells [OF f] listening_view_def)
qed

text \<open>What a reporter object makes of a list of calls.\<close>

definition hears :: "reporter_event list \<Rightarrow> 's IStreamingReporter \<Rightarrow> 's IStreamingReporter \<Rightarrow> bool" where
  "hears es r r' \<longleftrightarrow> foldE (ir_handle r) es (ir_state r) = Inr (ir_state r') \<and> ir_handle r' = ir_handle r"

lemma tell_hears: "tell e r = Inr r1 \<Longrightarrow> hears es r1 r' \<Longrightarrow> hears (e # es) r r'"
  by (auto simp: tell_def hears_def elim!: bindE_InrE)

lemma tell_all_hear:
  "mapE (tell e) ls = Inr ls1 \<Longrightarrow> list_all2 (hears es) ls1 ls' \<Longrightarrow> list_all2 (hears (e # es)) ls ls'"
proof (induction ls arbitrary: ls1 ls')
  case (Cons l ls)
  from Cons.prems(1) obtain l1 ls2 where l1: "tell e l = Inr l1" "mapE (tell e) ls = Inr ls2" "ls1 = l1 # ls2"
    by (auto elim!: bindE_InrE)
  with Cons.prems(2) obtain l' ls3 where "ls' = l' # ls3" "hears es l1 l'" "list_all2 (hears es) ls2 ls3"
    by (auto simp: list_all2_Cons1)
  with l1 Cons.IH [OF l1(2)] tell_hears [OF l1(1)] show ?case by simp
qed simp

lemma listening_hears:
  "follows es p = Some p' \<Longrightarrow> foldE listening es r = Inr r' \<Longrightarrow>
   list_all2 (hears es) (m_listeners r) (m_listeners r') \<and> rel_option (hears es) (m_reporter r) (m_reporter r')"
proof (induction es arbitrary: p r)
  case Nil
  then show ?case by (auto simp: hears_def intro!: list.rel_refl option.rel_refl)
next
  case (Cons e es)
  from Cons.prems(1) obtain p1 where p1: "follow e p = Some p1" "follows es p1 = Some p'"
    by (auto simp: bind_eq_Some_conv)
  from Cons.prems(2) obtain r1 where r1: "listening e r = Inr r1" "foldE listening es r1 = Inr r'" by (auto elim!: bindE_InrE)
  from r1(1) [unfolded listening_tells [OF p1(1)]] obtain ls rep rep' where "mapE (tell e) (m_listeners r) = Inr ls"
    "m_reporter r = Some rep" "tell e rep = Inr rep'" "r1 = r\<lparr>m_listeners := ls, m_reporter := Some rep'\<rparr>"
    by (auto elim!: bindE_InrE split: option.splits)
  with Cons.IH [OF p1(2) r1(2)] show ?case
    by (auto simp: option_rel_Some1 intro: tell_all_hear tell_hears)
qed

text \<open>A listener and a reporter.\<close>

definition sample_reporter :: "StreamingReporterBase IStreamingReporter" where
  "sample_reporter = \<lparr>ir_handle = streaming, ir_state = new_StreamingReporterBase,
     ir_preferences = \<lparr>shouldRedirectStdOut = False, shouldReportAllAssertions = False\<rparr>\<rparr>"

definition sample_listening :: "StreamingReporterBase ListeningReporter" where
  "sample_listening = \<lparr>m_listeners = [sample_reporter], m_reporter = Some sample_reporter,
     m_preferences = ir_preferences sample_reporter\<rparr>"

text \<open>
  C21: Listeners hear every call. A test case runs to its end and reports to a \<open>ListeningReporter\<close> whose
  listeners and reporter keep to the interface: nothing fails, and each of them is afterwards in the
  state it would be in if it had got the calls alone, all of them and in the same order.
\<close>

theorem listeners_hear_everything:
  assumes "runTest here ts nxt info body rc = Some (Inr (delta, rc'))" and "m_unfinishedSections rc = []"
    and "listening_view In_group r"
  shows "\<exists>es r'. m_reported rc' = m_reported rc @ es \<and> foldE listening es r = Inr r' \<and> listening_view In_group r' \<and>
    list_all2 (hears es) (m_listeners r) (m_listeners r') \<and> rel_option (hears es) (m_reporter r) (m_reporter r')"
proof -
  from runTest_follows [OF assms(1,2)] obtain es where es: "m_reported rc' = m_reported rc @ es"
    "follows es In_group = Some In_group" by blast
  from listening.accepts_all [OF es(2) assms(3)] obtain r' where "foldE listening es r = Inr r'" "listening_view In_group r'"
    by blast
  with es listening_hears [OF es(2)] show ?thesis by blast
qed

theorem listeners_hear_everything_witness:
  "\<exists>delta rc' es r'. runTest sample_place sample_testing (\<lambda>g::unit. (False, g)) (named_test ''book'') sample_body
      (new_RunContext sample_config True 0 0) = Some (Inr (delta, rc')) \<and>
    m_reported rc' = m_reported (new_RunContext sample_config True 0 0 :: unit RunContext) @ es \<and>
    foldE listening es (sample_listening :: StreamingReporterBase ListeningReporter) = Inr r' \<and>
    list_all2 (hears es) (m_listeners sample_listening) (m_listeners r')"
proof -
  let ?rc = "new_RunContext sample_config True 0 0 :: unit RunContext"
  from sample_test_runs obtain delta rc' where
    r: "runTest sample_place sample_testing (\<lambda>g. (False, g)) (named_test ''book'') sample_body ?rc = Some (Inr (delta, rc'))" by blast
  have "m_unfinishedSections ?rc = []" by (simp add: new_RunContext_def report_def)
  moreover have "keeps_to In_group sample_reporter"
    unfolding keeps_to_def using streaming.reporter_axioms
    by (intro exI [of _ streaming_view]) (simp add: sample_reporter_def new_StreamingReporterBase_def)
  then have "listening_view In_group (sample_listening :: StreamingReporterBase ListeningReporter)"
    by (simp add: listening_view_def sample_listening_def)
  ultimately show ?thesis using r listeners_hear_everything [OF r, of sample_listening] by blast
qed

end
