(* ===== verification/Catch_Xml_Report.thy ===== *)
theory Catch_Xml_Report
  imports Catch_Reporters Catch_Xml
begin

section \<open>The XML report\<close>

text \<open>
  \<open>XmlReporter\<close> writes an element for every call with the \<open>XmlWriter\<close>. A time is written only when the
  user asks for it; its text is an argument. Benchmarks report to an element of their own.
\<close>

subsection \<open>Writing\<close>

definition do_all :: "('s \<Rightarrow> 's res) list \<Rightarrow> 's \<Rightarrow> 's res" where
  "do_all fs = foldE (\<lambda>f. f) fs"

definition only_if :: "bool \<Rightarrow> ('s \<Rightarrow> 's res) \<Rightarrow> 's \<Rightarrow> 's res" where
  "only_if b f s = (if b then f s else Inr s)"

definition open_element :: "string \<Rightarrow> XmlWriter \<Rightarrow> XmlWriter res" where
  "open_element name w = Inr (startElement name default_fmt w)"

definition attribute_bool :: "string \<Rightarrow> bool \<Rightarrow> XmlWriter \<Rightarrow> XmlWriter res" where
  "attribute_bool name b w = Inr (writeAttribute_bool name b w)"

definition attribute_count :: "string \<Rightarrow> u64 \<Rightarrow> XmlWriter \<Rightarrow> XmlWriter res" where
  "attribute_count name n = writeAttribute name (to_string (uint n))"

definition close_tag :: "XmlWriter \<Rightarrow> XmlWriter res" where
  "close_tag w = Inr (ensureTagClosed w)"

text \<open>A \<open>ScopedElement\<close> that lives while something is written.\<close>

definition in_element :: "string \<Rightarrow> (XmlWriter \<Rightarrow> XmlWriter res) \<Rightarrow> XmlWriter \<Rightarrow> XmlWriter res" where
  "in_element name f w = (let (e, w1) = scopedElement name default_fmt w in bindE (f w1) (delete_ScopedElement e))"

definition writeSourceInfo :: "SourceLineInfo \<Rightarrow> XmlWriter \<Rightarrow> XmlWriter res" where
  "writeSourceInfo sourceInfo = do_all [writeAttribute ''filename'' (li_file sourceInfo),
     writeAttribute ''line'' (to_string (int (li_line sourceInfo)))]"

text \<open>For no filters the size that is reserved wraps around and \<open>std::length_error\<close> is thrown.\<close>

fun joined :: "string list \<Rightarrow> string" where
  "joined [] = []"
| "joined [f] = f"
| "joined (f # fs) = f @ CHR '' '' # joined fs"

definition serializeFilters :: "string list \<Rightarrow> string res" where
  "serializeFilters filters = (if filters = [] then Inl Logic_Error else Inr (joined filters))"

subsection \<open>The reporter\<close>

record XmlReporter = StreamingReporterBase +
  m_xml :: XmlWriter
  m_sectionDepth :: int

definition new_XmlReporter :: "string \<Rightarrow> XmlReporter" where
  "new_XmlReporter os = StreamingReporterBase.extend new_StreamingReporterBase
     (XmlReporter.fields (new_XmlWriter os) 0)"

definition xml_preferences :: ReporterPreferences where
  "xml_preferences = \<lparr>shouldRedirectStdOut = True, shouldReportAllAssertions = True\<rparr>"

definition getStylesheetRef :: string where
  "getStylesheetRef = []"

definition writing :: "(XmlWriter \<Rightarrow> XmlWriter res) \<Rightarrow> XmlReporter \<Rightarrow> XmlReporter res" where
  "writing f r = bindE (f (m_xml r)) (\<lambda>w. Inr (r\<lparr>m_xml := w\<rparr>))"

definition xml_run_head :: "Config \<Rightarrow> XmlWriter \<Rightarrow> XmlWriter res" where
  "xml_run_head config = do_all [
     only_if (getStylesheetRef \<noteq> []) (\<lambda>w. Inr (writeStylesheetRef getStylesheetRef w)),
     open_element ''Catch'',
     only_if (config_name config \<noteq> []) (writeAttribute ''name'' (config_name config)),
     only_if (hasFilters (cf_testSpec config)) (\<lambda>w. bindE (serializeFilters (testsOrTags (m_data config)))
       (\<lambda>f. writeAttribute ''filters'' f w)),
     only_if (cd_rngSeed (m_data config) \<noteq> 0)
       (in_element ''Randomness'' (writeAttribute ''seed'' (to_string (uint (cd_rngSeed (m_data config))))))]"

definition xml_testRunStarting :: "Config \<Rightarrow> string \<Rightarrow> XmlReporter \<Rightarrow> XmlReporter res" where
  "xml_testRunStarting config testInfo = do_all [streaming (Ev_testRunStarting testInfo), writing (xml_run_head config)]"

definition xml_testCaseStarting :: "TestCaseInfo \<Rightarrow> XmlReporter \<Rightarrow> XmlReporter res" where
  "xml_testCaseStarting testInfo = do_all [streaming (Ev_testCaseStarting testInfo), writing (do_all [
     open_element ''TestCase'', writeAttribute ''name'' (trim (ti_name testInfo)),
     writeAttribute ''tags'' (tagsAsString testInfo), writeSourceInfo (ti_lineInfo testInfo), close_tag])]"

definition xml_sectionStarting :: "SectionInfo \<Rightarrow> XmlReporter \<Rightarrow> XmlReporter res" where
  "xml_sectionStarting sectionInfo r = do_all [streaming (Ev_sectionStarting sectionInfo),
     \<lambda>r. Inr (r\<lparr>m_sectionDepth := m_sectionDepth r + 1\<rparr>),
     only_if (m_sectionDepth r > 0) (writing (do_all [open_element ''Section'',
       writeAttribute ''name'' (trim (si_name sectionInfo)), writeSourceInfo (si_lineInfo sectionInfo), close_tag]))] r"

definition xml_message :: "bool \<Rightarrow> MessageInfo \<Rightarrow> XmlWriter \<Rightarrow> XmlWriter res" where
  "xml_message includeResults msg = (
     if mi_type msg = RW_Info \<and> includeResults then in_element ''Info'' (writeText (mi_message msg) default_fmt)
     else if mi_type msg = RW_Warning then in_element ''Warning'' (writeText (mi_message msg) default_fmt)
     else Inr)"

definition getMessage :: "AssertionResult \<Rightarrow> string" where
  "getMessage r = ad_message (ar_resultData r)"

definition xml_place_and_message :: "string \<Rightarrow> AssertionResult \<Rightarrow> XmlWriter \<Rightarrow> XmlWriter res" where
  "xml_place_and_message name result = do_all [open_element name, writeSourceInfo (ai_lineInfo (ar_info result)),
     writeText (getMessage result) default_fmt, endElement default_fmt]"

definition xml_result :: "AssertionResult \<Rightarrow> XmlWriter \<Rightarrow> XmlWriter res" where
  "xml_result result = (case getResultType result of
       ThrewException \<Rightarrow> xml_place_and_message ''Exception'' result
     | FatalErrorCondition \<Rightarrow> xml_place_and_message ''FatalErrorCondition'' result
     | RW_Info \<Rightarrow> in_element ''Info'' (writeText (getMessage result) default_fmt)
     | ExplicitFailure \<Rightarrow> xml_place_and_message ''Failure'' result
     | _ \<Rightarrow> Inr)"

definition xml_expression :: "AssertionResult \<Rightarrow> XmlWriter \<Rightarrow> XmlWriter res" where
  "xml_expression result = do_all [open_element ''Expression'', attribute_bool ''success'' (ar_succeeded result),
     writeAttribute ''type'' (ai_macroName (ar_info result)), writeSourceInfo (ai_lineInfo (ar_info result)),
     in_element ''Original'' (writeText (getExpression result) default_fmt),
     in_element ''Expanded'' (writeText (getExpandedExpression result) default_fmt)]"

definition xml_assertionEnded :: "Config \<Rightarrow> AssertionStats \<Rightarrow> XmlWriter \<Rightarrow> XmlWriter res" where
  "xml_assertionEnded config assertionStats = (
     let result = as_assertionResult assertionStats;
         includeResults = (includeSuccessfulResults config \<or> \<not> ar_isOk result)
     in if \<not> includeResults \<and> getResultType result \<noteq> RW_Warning then Inr
        else do_all [foldE (xml_message includeResults) (infoMessages assertionStats),
          only_if (hasExpression result) (xml_expression result), xml_result result,
          only_if (hasExpression result) (endElement default_fmt)])"

definition shows_durations :: "Config \<Rightarrow> bool" where
  "shows_durations config \<longleftrightarrow> cd_showDurations (m_data config) = Always"

text \<open>The explicit \<open>endElement\<close> ends the element of the results, the destructor the section.\<close>

definition overall_results :: "Counts \<Rightarrow> (XmlWriter \<Rightarrow> XmlWriter res) list" where
  "overall_results c = [attribute_count ''successes'' (passed c), attribute_count ''failures'' (failed c),
     attribute_count ''expectedFailures'' (failedButOk c)]"

definition xml_sectionEnded :: "Config \<Rightarrow> string \<Rightarrow> SectionStats \<Rightarrow> XmlReporter \<Rightarrow> XmlReporter res" where
  "xml_sectionEnded config seconds sectionStats r = do_all [streaming (Ev_sectionEnded sectionStats),
     \<lambda>r. Inr (r\<lparr>m_sectionDepth := m_sectionDepth r - 1\<rparr>),
     only_if (m_sectionDepth r - 1 > 0) (writing (in_element ''OverallResults'' (do_all (overall_results (ss_assertions sectionStats) @
       [only_if (shows_durations config) (writeAttribute ''durationInSeconds'' seconds), endElement default_fmt]))))] r"

definition xml_testCaseEnded :: "Config \<Rightarrow> string \<Rightarrow> TestCaseStats \<Rightarrow> XmlReporter \<Rightarrow> XmlReporter res" where
  "xml_testCaseEnded config seconds testCaseStats = do_all [streaming (Ev_testCaseEnded testCaseStats),
     writing (in_element ''OverallResult'' (do_all [
       attribute_bool ''success'' (allOk (assertions (tc_totals testCaseStats))),
       only_if (shows_durations config) (writeAttribute ''durationInSeconds'' seconds),
       only_if (tc_stdOut testCaseStats \<noteq> []) (in_element ''StdOut'' (writeText (trim (tc_stdOut testCaseStats)) Fmt_Newline)),
       only_if (tc_stdErr testCaseStats \<noteq> []) (in_element ''StdErr'' (writeText (trim (tc_stdErr testCaseStats)) Fmt_Newline)),
       endElement default_fmt]))]"

definition xml_totals :: "Totals \<Rightarrow> XmlWriter \<Rightarrow> XmlWriter res" where
  "xml_totals totals = do_all [in_element ''OverallResults'' (do_all (overall_results (assertions totals))),
     in_element ''OverallResultsCases'' (do_all (overall_results (testCases totals))), endElement default_fmt]"

fun xml_report :: "Config \<Rightarrow> string \<Rightarrow> reporter_event \<Rightarrow> XmlReporter \<Rightarrow> XmlReporter res" where
  "xml_report config seconds (Ev_testRunStarting testInfo) = xml_testRunStarting config testInfo"
| "xml_report config seconds (Ev_testGroupStarting groupInfo) = do_all [streaming (Ev_testGroupStarting groupInfo),
     writing (do_all [open_element ''Group'', writeAttribute ''name'' (gi_name groupInfo)])]"
| "xml_report config seconds (Ev_testCaseStarting testInfo) = xml_testCaseStarting testInfo"
| "xml_report config seconds (Ev_sectionStarting sectionInfo) = xml_sectionStarting sectionInfo"
| "xml_report config seconds (Ev_assertionEnded assertionStats) = writing (xml_assertionEnded config assertionStats)"
| "xml_report config seconds (Ev_sectionEnded sectionStats) = xml_sectionEnded config seconds sectionStats"
| "xml_report config seconds (Ev_testCaseEnded testCaseStats) = xml_testCaseEnded config seconds testCaseStats"
| "xml_report config seconds (Ev_testGroupEnded testGroupStats) = do_all [streaming (Ev_testGroupEnded testGroupStats),
     writing (xml_totals (tg_totals testGroupStats))]"
| "xml_report config seconds (Ev_testRunEnded testRunStats) = do_all [streaming (Ev_testRunEnded testRunStats),
     writing (xml_totals (tr_totals testRunStats))]"
| "xml_report config seconds (Ev_benchmarkPreparing name) =
     writing (do_all [open_element ''BenchmarkResults'', writeAttribute ''name'' name])"
| "xml_report config seconds (Ev_benchmarkFailed err) =
     writing (do_all [in_element ''failed'' (writeAttribute ''message'' err), endElement default_fmt])"
| "xml_report config seconds e = streaming e"

text \<open>Lists of reporters, tests and tags.\<close>

definition line_element :: "string \<Rightarrow> string \<Rightarrow> XmlWriter \<Rightarrow> XmlWriter res" where
  "line_element name txt0 = do_all [\<lambda>w. Inr (startElement name Fmt_Indent w), writeText txt0 Fmt_None, endElement Fmt_Newline]"

definition xml_listReporters :: "(string \<times> string) list \<Rightarrow> XmlWriter \<Rightarrow> XmlWriter res" where
  "xml_listReporters descriptions = in_element ''AvailableReporters'' (foldE (\<lambda>(name, description).
     in_element ''Reporter'' (do_all [line_element ''Name'' name, line_element ''Description'' description])) descriptions)"

definition xml_listTests :: "TestCaseInfo list \<Rightarrow> XmlWriter \<Rightarrow> XmlWriter res" where
  "xml_listTests tests = in_element ''MatchingTests'' (foldE (\<lambda>testInfo. in_element ''TestCase'' (do_all [
     line_element ''Name'' (ti_name testInfo), line_element ''ClassName'' (ti_className testInfo),
     line_element ''Tags'' (tagsAsString testInfo),
     in_element ''SourceInfo'' (do_all [line_element ''File'' (li_file (ti_lineInfo testInfo)),
       line_element ''Line'' (to_string (int (li_line (ti_lineInfo testInfo))))])])) tests)"

definition xml_listTags :: "(string list \<times> nat) list \<Rightarrow> XmlWriter \<Rightarrow> XmlWriter res" where
  "xml_listTags tags = in_element ''TagsFromMatchingTests'' (foldE (\<lambda>(spellings, count). in_element ''Tag'' (do_all [
     line_element ''Count'' (to_string (int count)),
     in_element ''Aliases'' (foldE (line_element ''Alias'') spellings)])) tags)"

subsection \<open>Every element is ended\<close>

text \<open>What a piece of writing does to the open elements.\<close>

definition tagged :: "string list \<Rightarrow> string list \<Rightarrow> (XmlWriter \<Rightarrow> XmlWriter res) \<Rightarrow> bool" where
  "tagged ts ts' f \<longleftrightarrow> (\<forall>w. m_tags w = ts \<longrightarrow> (\<exists>w'. f w = Inr w' \<and> m_tags w' = ts'))"

named_theorems tagged

lemma tagged_nothing [tagged]: "tagged ts ts Inr"
  by (simp add: tagged_def)

lemma tagged_Nil [tagged]: "tagged ts ts (do_all [])"
  by (simp add: tagged_def do_all_def)

lemma tagged_Cons [tagged]: "tagged ts ts1 f \<Longrightarrow> tagged ts1 ts' (do_all fs) \<Longrightarrow> tagged ts ts' (do_all (f # fs))"
  unfolding tagged_def do_all_def by fastforce

lemma only_if_simps [simp]: "only_if True f = f" "only_if False f = Inr"
  by (simp_all add: only_if_def fun_eq_iff)

lemma tagged_only_if [tagged]: "(b \<Longrightarrow> tagged ts ts f) \<Longrightarrow> tagged ts ts (only_if b f)"
  by (simp add: tagged_def only_if_def)

lemma tagged_fold [tagged]: "(\<And>x. tagged ts ts (f x)) \<Longrightarrow> tagged ts ts (foldE f xs)"
proof (induction xs)
  case (Cons x xs)
  show ?case unfolding tagged_def
  proof (intro allI impI)
    fix w :: XmlWriter assume "m_tags w = ts"
    with Cons.prems obtain w1 where "f x w = Inr w1" "m_tags w1 = ts" unfolding tagged_def by blast
    with Cons.IH [OF Cons.prems] show "\<exists>w'. foldE f (x # xs) w = Inr w' \<and> m_tags w' = ts" by (simp add: tagged_def)
  qed
qed (simp add: tagged_def)

lemma keep_tags [simp]:
  "m_tags (put s w) = m_tags w" "m_tags (applyFormatting fmt w) = m_tags w" "m_tags (newlineIfNecessary w) = m_tags w"
  "m_tags (ensureTagClosed w) = m_tags w" "m_tags (writeAttribute_bool n b w) = m_tags w"
  by (simp_all add: put_def applyFormatting_def newlineIfNecessary_def ensureTagClosed_def writeAttribute_bool_def)

lemma start_tags: "m_tags (startElement name fmt w) = m_tags w @ [name]"
  by (simp add: startElement_def Let_def)

lemma tagged_open [tagged]: "tagged ts (ts @ [name]) (open_element name)"
  by (simp add: tagged_def open_element_def start_tags)

lemma tagged_attribute [tagged]: "tagged ts ts (writeAttribute n v)"
  by (simp add: tagged_def writeAttribute_def encodeTo_encoded)

lemma tagged_attribute_bool [tagged]: "tagged ts ts (attribute_bool n b)"
  by (simp add: tagged_def attribute_bool_def)

lemma tagged_attribute_count [tagged]: "tagged ts ts (attribute_count n c)"
  unfolding attribute_count_def by (rule tagged)

lemma tagged_text [tagged]: "tagged ts ts (writeText t fmt)"
  by (simp add: tagged_def writeText_def Let_def encodeTo_encoded)

lemma tagged_close [tagged]: "tagged ts ts close_tag"
  by (simp add: tagged_def close_tag_def)

lemma tagged_end [tagged]: "tagged (ts @ [name]) ts (endElement fmt)"
proof -
  have "\<exists>w'. endElement fmt w = Inr w' \<and> m_tags w' = ts" if "m_tags w = ts @ [name]" for w
    using endElement_pops [of w fmt] that by auto
  then show ?thesis by (simp add: tagged_def)
qed

lemma tagged_in_element:
  assumes "tagged (ts @ [name]) (ts' @ [name']) f"
  shows "tagged ts ts' (in_element name f)"
  unfolding tagged_def
proof (intro allI impI)
  fix w :: XmlWriter
  assume "m_tags w = ts"
  then have "m_tags (startElement name default_fmt w) = ts @ [name]" by (simp add: start_tags)
  with assms obtain w1 where w1: "f (startElement name default_fmt w) = Inr w1" "m_tags w1 = ts' @ [name']"
    unfolding tagged_def by blast
  from endElement_pops [of w1 default_fmt] w1(2) obtain w' where "endElement default_fmt w1 = Inr w'" "m_tags w' = ts'" by auto
  with w1 show "\<exists>w'. in_element name f w = Inr w' \<and> m_tags w' = ts'"
    by (simp add: in_element_def scopedElement_def delete_ScopedElement_def)
qed

lemma tagged_whole_element [tagged]: "tagged (ts @ [name]) (ts @ [name]) f \<Longrightarrow> tagged ts ts (in_element name f)"
  by (rule tagged_in_element)

lemma tagged_line [tagged]: "tagged ts ts (line_element name t)"
  unfolding line_element_def
proof (rule tagged_Cons)
  show "tagged ts (ts @ [name]) (\<lambda>w. Inr (startElement name Fmt_Indent w))" by (simp add: tagged_def start_tags)
qed (rule tagged)+

lemma tagged_source [tagged]: "tagged ts ts (writeSourceInfo i)"
  unfolding writeSourceInfo_def by (rule tagged)+

lemma tagged_place [tagged]: "tagged ts ts (xml_place_and_message name result)"
  unfolding xml_place_and_message_def by (rule tagged)+

lemma tagged_result [tagged]: "tagged ts ts (xml_result result)"
  unfolding xml_result_def by (auto split: ResultWas.split intro!: tagged)

lemma tagged_message [tagged]: "tagged ts ts (xml_message b msg)"
  unfolding xml_message_def by (auto intro!: tagged)

lemma tagged_expression: "tagged ts (ts @ [''Expression'']) (xml_expression result)"
  unfolding xml_expression_def by (rule tagged)+

lemma tagged_assertion [tagged]: "tagged ts ts (xml_assertionEnded config st)"
proof (cases "hasExpression (as_assertionResult st)")
  case True
  have "tagged ts ts (do_all [foldE (xml_message b) ms, xml_expression r, xml_result r, endElement default_fmt])" for b ms r
    by (rule tagged tagged_expression)+
  then show ?thesis using True by (simp add: xml_assertionEnded_def Let_def tagged_nothing)
next
  case False
  then show ?thesis by (auto simp: xml_assertionEnded_def Let_def intro!: tagged)
qed

fun open_tags :: "phase \<Rightarrow> string list" where
  "open_tags In_run = [''Catch'']"
| "open_tags In_group = [''Catch'', ''Group'']"
| "open_tags (In_test b n) = [''Catch'', ''Group'', ''TestCase''] @ replicate (n - 1) ''Section''"
| "open_tags _ = []"

fun depth_of :: "phase \<Rightarrow> nat" where
  "depth_of (In_test b n) = n"
| "depth_of _ = 0"

definition xml_view :: "Config \<Rightarrow> phase \<Rightarrow> XmlReporter \<Rightarrow> bool" where
  "xml_view config p r \<longleftrightarrow> streaming_view p r \<and> m_sectionDepth r = int (depth_of p) \<and> m_tags (m_xml r) = open_tags p \<and>
     (hasFilters (cf_testSpec config) \<longrightarrow> testsOrTags (m_data config) \<noteq> [])"

lemma streaming_view_xml [simp]:
  "streaming_view p (r\<lparr>m_xml := w\<rparr>) = streaming_view p r" "streaming_view p (r\<lparr>m_sectionDepth := n\<rparr>) = streaming_view p r"
  by (cases p; simp)+

lemma streaming_keeps_xml: "streaming e r = Inr r' \<Longrightarrow> m_xml r' = m_xml r \<and> m_sectionDepth r' = m_sectionDepth r"
  by (cases e) (auto split: if_splits)

lemma writing_tagged:
  assumes "tagged (m_tags (m_xml r)) ts' f"
  shows "\<exists>w. writing f r = Inr (r\<lparr>m_xml := w\<rparr>) \<and> m_tags w = ts'"
  using assms unfolding tagged_def writing_def by fastforce

lemma tagged_results [tagged]: "tagged ts ts' (do_all fs) \<Longrightarrow> tagged ts ts' (do_all (overall_results c @ fs))"
  unfolding overall_results_def append_Cons append_Nil by (rule tagged | assumption)+

lemma tagged_totals: "tagged (ts @ [name]) ts (xml_totals t)"
proof -
  have results: "tagged us us (do_all (overall_results c))" for us c using tagged_results [OF tagged_Nil, of us c] by simp
  show ?thesis unfolding xml_totals_def by (rule tagged results)+
qed

lemma open_tags_section: "open_tags (In_test b (Suc (Suc n))) = open_tags (In_test c (Suc n)) @ [''Section'']"
  by (simp add: replicate_append_same)

lemma writing_Inr [simp]: "writing Inr = Inr"
  by (simp add: writing_def fun_eq_iff)

lemma only_if_writing [simp]: "only_if b (writing f) = writing (only_if b f)"
  by (simp add: only_if_def fun_eq_iff writing_def)

lemma do_two: "do_all [f, g] = do_all [f, Inr, g]"
proof
  fix x show "do_all [f, g] x = do_all [f, Inr, g] x" by (cases "f x") (simp_all add: do_all_def)
qed

text \<open>One operation: the base class, the depth of sections, and a piece of writing.\<close>

lemma xml_step:
  assumes "follow e p = Some p'" and "xml_view config p r" and "tagged (open_tags p) (open_tags p') f"
    and "\<And>r. g r = Inr (r\<lparr>m_sectionDepth := m_sectionDepth r + int (depth_of p') - int (depth_of p)\<rparr>)"
  shows "\<exists>r'. do_all [streaming e, g, writing f] r = Inr r' \<and> xml_view config p' r'"
proof -
  from assms(2) have v: "streaming_view p r" "m_sectionDepth r = int (depth_of p)" "m_tags (m_xml r) = open_tags p"
    by (simp_all add: xml_view_def)
  from streaming_accepts [OF assms(1) v(1)] obtain r1 where r1: "streaming e r = Inr r1" "streaming_view p' r1" by blast
  let ?r2 = "r1\<lparr>m_sectionDepth := int (depth_of p')\<rparr>"
  note k = streaming_keeps_xml [OF r1(1)]
  from assms(3) k v have "tagged (m_tags (m_xml ?r2)) (open_tags p') f" by simp
  from writing_tagged [OF this] obtain w where "writing f ?r2 = Inr (?r2\<lparr>m_xml := w\<rparr>)" "m_tags w = open_tags p'" by blast
  moreover have "g r1 = Inr ?r2" using assms(4) k v by simp
  ultimately show ?thesis using r1 assms(2) by (simp add: do_all_def xml_view_def)
qed

lemma xml_step_same:
  assumes "follow e p = Some p'" and "xml_view config p r" and "tagged (open_tags p) (open_tags p') f" and "depth_of p' = depth_of p"
  shows "\<exists>r'. do_all [streaming e, writing f] r = Inr r' \<and> xml_view config p' r'"
  unfolding do_two by (rule xml_step [OF assms(1-3)]) (simp add: assms(4))

lemma tagged_run_head:
  assumes "hasFilters (cf_testSpec config) \<longrightarrow> testsOrTags (m_data config) \<noteq> []"
  shows "tagged [] [''Catch''] (xml_run_head config)"
proof -
  have style: "tagged [] [] (\<lambda>w. Inr (writeStylesheetRef getStylesheetRef w))"
    by (simp add: tagged_def writeStylesheetRef_def)
  have filters: "tagged ts ts (\<lambda>w. bindE (serializeFilters (testsOrTags (m_data config))) (\<lambda>f. writeAttribute ''filters'' f w))"
    if "hasFilters (cf_testSpec config)" for ts
    using assms that tagged_attribute by (simp add: tagged_def serializeFilters_def)
  have opened: "tagged [] [''Catch''] (open_element ''Catch'')" using tagged_open [of "[]"] by simp
  show ?thesis unfolding xml_run_head_def by (rule opened tagged style filters | assumption)+
qed

lemma xml_accepts:
  "follow e p = Some p' \<Longrightarrow> xml_view config p r \<Longrightarrow> \<exists>r'. xml_report config seconds e r = Inr r' \<and> xml_view config p' r'"
proof (induction e p rule: follow.induct)
  case (1 n)
  then have "hasFilters (cf_testSpec config) \<longrightarrow> testsOrTags (m_data config) \<noteq> []" by (simp add: xml_view_def)
  from xml_step_same [OF 1, of "xml_run_head config"] tagged_run_head [OF this] 1 show ?case
    by (auto simp: xml_testRunStarting_def)
next
  case (2 n)
  have "tagged [''Catch''] ([''Catch''] @ [''Group'']) (do_all [open_element ''Group'', writeAttribute ''name'' (gi_name n)])"
    by (rule tagged)+
  with xml_step_same [OF 2] 2 show ?case by fastforce
next
  case (3 n)
  from xml_step_same [OF 3, of "xml_totals (tg_totals n)"] tagged_totals [of "[''Catch'']" "''Group''"] 3 show ?case by auto
next
  case (4 n)
  from xml_step_same [OF 4, of "xml_totals (tr_totals n)"] tagged_totals [of "[]" "''Catch''"] 4 show ?case by auto
next
  case (8 n)
  have "tagged [''Catch'', ''Group''] ([''Catch'', ''Group''] @ [''TestCase'']) (do_all [open_element ''TestCase'',
      writeAttribute ''name'' (trim (ti_name n)), writeAttribute ''tags'' (tagsAsString n), writeSourceInfo (ti_lineInfo n), close_tag])"
    by (rule tagged)+
  with xml_step_same [OF 8] 8 show ?case by (fastforce simp: xml_testCaseStarting_def)
next
  case (9 i b n)
  let ?f = "do_all [open_element ''Section'', writeAttribute ''name'' (trim (si_name i)), writeSourceInfo (si_lineInfo i), close_tag]"
  have "tagged ts (ts @ [''Section'']) ?f" for ts by (rule tagged)+
  then have "tagged (open_tags (In_test b n)) (open_tags p') (only_if (int n > 0) ?f)"
    using 9(1) by (cases n) (auto simp: tagged_nothing open_tags_section [of _ _ b] simp del: open_tags.simps(3), simp add: tagged_nothing)
  from xml_step [OF 9 this, of "\<lambda>r. Inr (r\<lparr>m_sectionDepth := m_sectionDepth r + 1\<rparr>)"] 9 show ?case
    by (auto simp: xml_sectionStarting_def xml_view_def)
next
  case (10 i b n)
  let ?f = "in_element ''OverallResults'' (do_all (overall_results (ss_assertions i) @
       [only_if (shows_durations config) (writeAttribute ''durationInSeconds'' seconds), endElement default_fmt]))"
  have "tagged ((ts @ [''Section'']) @ [''OverallResults'']) (ts @ [''Section''])
      (do_all (overall_results (ss_assertions i) @ [only_if (shows_durations config) (writeAttribute ''durationInSeconds'' seconds), endElement default_fmt]))" for ts
    by (rule tagged)+
  then have "tagged (ts @ [''Section'']) ts ?f" for ts by (rule tagged_in_element)
  then have "tagged (open_tags (In_test b (Suc n))) (open_tags p') (only_if (int n > 0) ?f)"
    using 10(1) by (cases n) (auto simp: tagged_nothing open_tags_section [of _ _ b] simp del: open_tags.simps(3), simp add: tagged_nothing)
  from xml_step [OF 10 this, of "\<lambda>r. Inr (r\<lparr>m_sectionDepth := m_sectionDepth r - 1\<rparr>)"] 10 show ?case
    by (auto simp: xml_sectionEnded_def xml_view_def)
next
  case (12 i b n)
  from xml_step_same [OF 12, of "xml_assertionEnded config i"] 12(1) tagged_assertion show ?case
    by (cases "writing (xml_assertionEnded config i) r") (auto simp: do_all_def)
next
  case (13 i)
  let ?fs = "do_all [attribute_bool ''success'' (allOk (assertions (tc_totals i))),
       only_if (shows_durations config) (writeAttribute ''durationInSeconds'' seconds),
       only_if (tc_stdOut i \<noteq> []) (in_element ''StdOut'' (writeText (trim (tc_stdOut i)) Fmt_Newline)),
       only_if (tc_stdErr i \<noteq> []) (in_element ''StdErr'' (writeText (trim (tc_stdErr i)) Fmt_Newline)),
       endElement default_fmt]"
  have "tagged ([''Catch'', ''Group'', ''TestCase''] @ [''OverallResult'']) [''Catch'', ''Group'', ''TestCase''] ?fs"
    by (rule tagged)+
  then have "tagged [''Catch'', ''Group'', ''TestCase''] [''Catch'', ''Group''] (in_element ''OverallResult'' ?fs)"
    by (intro tagged_in_element) simp
  with xml_step_same [OF 13] 13 show ?case by (fastforce simp: xml_testCaseEnded_def)
qed (auto simp: xml_view_def)

interpretation xml: reporter "xml_report config seconds" "xml_view config" for config seconds
  by unfold_locales (rule xml_accepts)

end
