(* ===== verification/Catch_Cumulative.thy ===== *)
theory Catch_Cumulative
  imports Catch_Reporters "HOL-Library.Multiset"
begin

section \<open>Cumulative reporters\<close>

text \<open>
  \<open>CumulativeReporterBase\<close> keeps all it is told until the run is over: for every test case a tree of
  sections with their assertions. The nodes are shared and changed through pointers: a node is a place
  in a list, and a pointer is its number; nodes are only added. The stack has the pointers of the open
  sections, and a section that is started again in a later cycle is found among the children of the
  section above.
\<close>

subsection \<open>The class\<close>

record SectionNode =
  sn_stats :: SectionStats
  childSections :: "nat list"
  sn_assertions :: "AssertionStats list"
  sn_stdOut :: string
  sn_stdErr :: string

definition new_SectionNode :: "SectionStats \<Rightarrow> SectionNode" where
  "new_SectionNode stats = \<lparr>sn_stats = stats, childSections = [], sn_assertions = [], sn_stdOut = [], sn_stdErr = []\<rparr>"

record ('v, 'c) report_node =
  rn_value :: 'v
  rn_children :: "'c list"

type_synonym TestCaseNode = "(TestCaseStats, nat option) report_node"
type_synonym TestGroupNode = "(TestGroupStats, TestCaseNode) report_node"
type_synonym TestRunNode = "(TestRunStats, TestGroupNode) report_node"

record CumulativeReporterBase =
  section_nodes :: "SectionNode list"
  m_testCases :: "TestCaseNode list"
  m_testGroups :: "TestGroupNode list"
  m_testRuns :: "TestRunNode list"
  m_rootSection :: "nat option"
  m_deepestSection :: "nat option"
  m_nodeStack :: "nat list"

definition new_CumulativeReporterBase :: CumulativeReporterBase where
  "new_CumulativeReporterBase = \<lparr>section_nodes = [], m_testCases = [], m_testGroups = [], m_testRuns = [],
     m_rootSection = None, m_deepestSection = None, m_nodeStack = []\<rparr>"

definition BySectionInfo :: "SectionInfo \<Rightarrow> SectionNode \<Rightarrow> bool" where
  "BySectionInfo other node \<longleftrightarrow> si_name (ss_sectionInfo (sn_stats node)) = si_name other \<and>
     si_lineInfo (ss_sectionInfo (sn_stats node)) = si_lineInfo other"

definition change_node :: "nat \<Rightarrow> (SectionNode \<Rightarrow> SectionNode) \<Rightarrow> 'x CumulativeReporterBase_scheme \<Rightarrow> 'x CumulativeReporterBase_scheme" where
  "change_node a f r = r\<lparr>section_nodes := (section_nodes r)[a := f (section_nodes r ! a)]\<rparr>"

text \<open>\<open>make_shared\<close>: a new node, and the pointer to it.\<close>

definition make_node :: "SectionStats \<Rightarrow> 'x CumulativeReporterBase_scheme \<Rightarrow> nat \<times> 'x CumulativeReporterBase_scheme" where
  "make_node stats r = (length (section_nodes r), r\<lparr>section_nodes := section_nodes r @ [new_SectionNode stats]\<rparr>)"

definition incompleteStats :: "SectionInfo \<Rightarrow> SectionStats" where
  "incompleteStats sectionInfo = \<lparr>ss_sectionInfo = sectionInfo, ss_assertions = 0, missingAssertions = False\<rparr>"

definition find_or_make :: "SectionInfo \<Rightarrow> 'x CumulativeReporterBase_scheme \<Rightarrow> nat \<times> 'x CumulativeReporterBase_scheme" where
  "find_or_make sectionInfo r =
     (if m_nodeStack r = [] then
        (case m_rootSection r of
           Some rootNode \<Rightarrow> (rootNode, r)
         | None \<Rightarrow> let (node, r1) = make_node (incompleteStats sectionInfo) r in (node, r1\<lparr>m_rootSection := Some node\<rparr>))
      else
        (let parentNode = last (m_nodeStack r);
             children = childSections (section_nodes r ! parentNode);
             it = find_if (\<lambda>c. BySectionInfo sectionInfo (section_nodes r ! c)) children
         in if it = length children then
              let (node, r1) = make_node (incompleteStats sectionInfo) r
              in (node, change_node parentNode (\<lambda>n. n\<lparr>childSections := childSections n @ [node]\<rparr>) r1)
            else (children ! it, r)))"

definition cumulative_sectionStarting :: "SectionInfo \<Rightarrow> 'x CumulativeReporterBase_scheme \<Rightarrow> 'x CumulativeReporterBase_scheme" where
  "cumulative_sectionStarting sectionInfo r = (let (node, r1) = find_or_make sectionInfo r
     in r1\<lparr>m_nodeStack := m_nodeStack r1 @ [node], m_deepestSection := Some node\<rparr>)"

definition prepareExpandedExpression :: "AssertionStats \<Rightarrow> AssertionStats" where
  "prepareExpandedExpression st = st\<lparr>as_assertionResult := (as_assertionResult st)
     \<lparr>ar_resultData := snd (reconstructExpression (ar_resultData (as_assertionResult st)))\<rparr>\<rparr>"

definition cumulative_assertionEnded :: "AssertionStats \<Rightarrow> 'x CumulativeReporterBase_scheme \<Rightarrow> 'x CumulativeReporterBase_scheme res" where
  "cumulative_assertionEnded assertionStats r =
     (if m_nodeStack r = [] then Inl Assert_Failed
      else Inr (change_node (last (m_nodeStack r))
        (\<lambda>n. n\<lparr>sn_assertions := sn_assertions n @ [prepareExpandedExpression assertionStats]\<rparr>) r))"

definition cumulative_sectionEnded :: "SectionStats \<Rightarrow> 'x CumulativeReporterBase_scheme \<Rightarrow> 'x CumulativeReporterBase_scheme res" where
  "cumulative_sectionEnded sectionStats r =
     (if m_nodeStack r = [] then Inl Assert_Failed
      else Inr ((change_node (last (m_nodeStack r)) (\<lambda>n. n\<lparr>sn_stats := sectionStats\<rparr>) r)\<lparr>m_nodeStack := butlast (m_nodeStack r)\<rparr>))"

definition cumulative_testCaseEnded :: "TestCaseStats \<Rightarrow> 'x CumulativeReporterBase_scheme \<Rightarrow> 'x CumulativeReporterBase_scheme res" where
  "cumulative_testCaseEnded testCaseStats r =
     (if length (m_nodeStack r) \<noteq> 0 then Inl Assert_Failed
      else (let r1 = r\<lparr>m_testCases := m_testCases r @ [\<lparr>rn_value = testCaseStats, rn_children = [m_rootSection r]\<rparr>],
                       m_rootSection := None\<rparr>
            in case m_deepestSection r1 of
                 None \<Rightarrow> Inl Assert_Failed
               | Some a \<Rightarrow> Inr (change_node a (\<lambda>n. n\<lparr>sn_stdOut := tc_stdOut testCaseStats, sn_stdErr := tc_stdErr testCaseStats\<rparr>) r1)))"

definition cumulative_testGroupEnded :: "TestGroupStats \<Rightarrow> 'x CumulativeReporterBase_scheme \<Rightarrow> 'x CumulativeReporterBase_scheme" where
  "cumulative_testGroupEnded testGroupStats r =
     r\<lparr>m_testGroups := m_testGroups r @ [\<lparr>rn_value = testGroupStats, rn_children = m_testCases r\<rparr>], m_testCases := []\<rparr>"

definition cumulative_testRunEnded :: "TestRunStats \<Rightarrow> 'x CumulativeReporterBase_scheme \<Rightarrow> 'x CumulativeReporterBase_scheme" where
  "cumulative_testRunEnded testRunStats r =
     r\<lparr>m_testRuns := m_testRuns r @ [\<lparr>rn_value = testRunStats, rn_children = m_testGroups r\<rparr>], m_testGroups := []\<rparr>"

text \<open>The operations of the class; after the end of a run a derived class writes its report.\<close>

fun cumulative :: "reporter_event \<Rightarrow> 'x CumulativeReporterBase_scheme \<Rightarrow> 'x CumulativeReporterBase_scheme res" where
  "cumulative (Ev_sectionStarting sectionInfo) r = Inr (cumulative_sectionStarting sectionInfo r)"
| "cumulative (Ev_assertionEnded assertionStats) r = cumulative_assertionEnded assertionStats r"
| "cumulative (Ev_sectionEnded sectionStats) r = cumulative_sectionEnded sectionStats r"
| "cumulative (Ev_testCaseEnded testCaseStats) r = cumulative_testCaseEnded testCaseStats r"
| "cumulative (Ev_testGroupEnded testGroupStats) r = Inr (cumulative_testGroupEnded testGroupStats r)"
| "cumulative (Ev_testRunEnded testRunStats) r = Inr (cumulative_testRunEnded testRunStats r)"
| "cumulative _ r = Inr r"

subsection \<open>The trees\<close>

text \<open>What the nodes have below them: only nodes that were made later.\<close>

definition below_ok :: "nat list list \<Rightarrow> bool" where
  "below_ok cs \<longleftrightarrow> (\<forall>q < length cs. \<forall>c \<in> set (cs ! q). q < c \<and> c < length cs)"

definition only_parent :: "nat list list \<Rightarrow> nat \<Rightarrow> nat \<Rightarrow> bool" where
  "only_parent cs p x \<longleftrightarrow> p < x \<and> count_list (cs ! p) x = 1 \<and> (\<forall>q < length cs. q \<noteq> p \<longrightarrow> x \<notin> set (cs ! q))"

text \<open>From the node \<open>k\<close> on the nodes are those of one test case; all but \<open>k\<close> are below exactly one other.\<close>

definition tree_from :: "nat \<Rightarrow> nat list list \<Rightarrow> bool" where
  "tree_from k cs \<longleftrightarrow> below_ok cs \<and> (\<forall>x. k < x \<and> x < length cs \<longrightarrow> (\<exists>p \<ge> k. only_parent cs p x))"

definition collected :: "nat \<Rightarrow> SectionNode list \<Rightarrow> AssertionStats multiset" where
  "collected k ns = mset (concat (map sn_assertions (drop k ns)))"

lemma update_same_children:
  "childSections n = childSections (ns ! a) \<Longrightarrow> map childSections (ns[a := n]) = map childSections ns"
  by (cases "a < length ns") (simp_all add: map_update list_update_same_conv list_update_beyond)

lemma append_nth: "q \<le> length cs \<Longrightarrow> (cs @ [ds]) ! q = (if q < length cs then cs ! q else ds)"
  by (simp add: nth_append)

lemma tree_from_root:
  assumes "tree_from (length cs) cs"
  shows "tree_from (length cs) (cs @ [[]])"
proof -
  have "below_ok (cs @ [[]])" unfolding below_ok_def
  proof (intro allI impI ballI)
    fix q c assume q: "q < length (cs @ [[]])" and c: "c \<in> set ((cs @ [[]]) ! q)"
    then have "q < length cs" "c \<in> set (cs ! q)" by (simp_all add: append_nth split: if_splits)
    with assms have "q < c \<and> c < length cs" unfolding tree_from_def below_ok_def by blast
    then show "q < c \<and> c < length (cs @ [[]])" by simp
  qed
  then show ?thesis by (auto simp: tree_from_def less_Suc_eq)
qed

lemma tree_from_child:
  assumes "tree_from k cs" and "k \<le> p" and "p < length cs"
  shows "tree_from k ((cs @ [[]])[p := cs ! p @ [length cs]])"
proof -
  let ?cs = "(cs @ [[]])[p := cs ! p @ [length cs]]"
  have ok: "below_ok cs" using assms(1) by (simp add: tree_from_def)
  have kids: "?cs ! q = (if q = p then cs ! p @ [length cs] else if q < length cs then cs ! q else [])" if "q \<le> length cs" for q
    using that assms(3) by (simp add: nth_list_update append_nth)
  have old: "length cs \<notin> set (cs ! q)" if "q < length cs" for q
    using ok that unfolding below_ok_def by blast
  have "below_ok ?cs" unfolding below_ok_def
  proof (intro allI impI ballI)
    fix q c assume q: "q < length ?cs" and c: "c \<in> set (?cs ! q)"
    then have k: "q \<le> length cs" "c \<in> set (if q = p then cs ! p @ [length cs] else if q < length cs then cs ! q else [])"
      by (simp_all add: kids)
    then consider "q < length cs" "c \<in> set (cs ! q)" | "q = p" "c = length cs" using assms(3) by (auto split: if_splits)
    then show "q < c \<and> c < length ?cs"
    proof cases
      case 1
      with ok have "q < c \<and> c < length cs" unfolding below_ok_def by blast
      then show ?thesis by simp
    qed (use assms(3) in simp)
  qed
  moreover have "\<exists>p' \<ge> k. only_parent ?cs p' x" if x: "k < x" "x < length ?cs" for x
  proof (cases "x < length cs")
    case True
    with x assms(1) obtain p' where p': "k \<le> p'" "p' < x" "count_list (cs ! p') x = 1"
      "\<And>q. q < length cs \<Longrightarrow> q \<noteq> p' \<Longrightarrow> x \<notin> set (cs ! q)" unfolding tree_from_def only_parent_def by blast
    have "count_list (?cs ! p') x = 1" using p'(2,3) True by (cases "p' = p") (simp_all add: kids append_nth)
    moreover have "x \<notin> set (?cs ! q)" if "q < length ?cs" "q \<noteq> p'" for q
      using that p'(4) [of q] True assms(3) by (auto simp: kids less_Suc_eq_le)
    ultimately show ?thesis using p'(1,2) unfolding only_parent_def by blast
  next
    case False
    with x have x: "x = length cs" by simp
    have "count_list (?cs ! p) x = 1" using assms(3) old [OF assms(3)] x by (simp add: kids count_list_0_iff)
    moreover have "x \<notin> set (?cs ! q)" if "q < length ?cs" "q \<noteq> p" for q
      using that old [of q] x by (auto simp: kids append_nth less_Suc_eq_le)
    ultimately show ?thesis using assms(2,3) x unfolding only_parent_def by blast
  qed
  ultimately show ?thesis by (simp add: tree_from_def)
qed

lemma mset_update_append:
  assumes "j < length xs" and "f y = f (xs ! j) @ new"
  shows "mset (concat (map f (xs[j := y]))) = mset (concat (map f xs)) + mset new"
proof -
  have "xs = take j xs @ xs ! j # drop (Suc j) xs" using assms(1) by (simp add: id_take_nth_drop)
  then have "mset (concat (map f xs)) = mset (concat (map f (take j xs @ xs ! j # drop (Suc j) xs)))" by simp
  then show ?thesis using assms by (simp add: upd_conv_take_nth_drop)
qed

lemma collected_update:
  assumes "k \<le> a" and "a < length ns" and "sn_assertions n = sn_assertions (ns ! a) @ new"
  shows "collected k (ns[a := n]) = collected k ns + mset new"
proof -
  have "drop k (ns[a := n]) = (drop k ns)[a - k := n]" using assms(1) by (simp add: drop_update_swap)
  moreover have "mset (concat (map sn_assertions ((drop k ns)[a - k := n]))) = mset (concat (map sn_assertions (drop k ns))) + mset new"
    by (rule mset_update_append) (use assms in simp_all)
  ultimately show ?thesis by (simp add: collected_def)
qed

text \<open>A test case in progress: its nodes start at \<open>k\<close>, and it has collected the assertions \<open>ms\<close>.\<close>

definition in_progress :: "nat \<Rightarrow> AssertionStats multiset \<Rightarrow> bool \<Rightarrow> nat \<Rightarrow> 'x CumulativeReporterBase_scheme \<Rightarrow> bool" where
  "in_progress k ms b n r \<longleftrightarrow> tree_from k (map childSections (section_nodes r)) \<and>
     m_rootSection r = (if b then Some k else None) \<and> k \<le> length (section_nodes r) \<and> (b \<longleftrightarrow> k < length (section_nodes r)) \<and>
     (b \<longrightarrow> (\<exists>a. m_deepestSection r = Some a \<and> k \<le> a \<and> a < length (section_nodes r))) \<and> length (m_nodeStack r) = n \<and> (n > 0 \<longrightarrow> b) \<and>
     (\<forall>a \<in> set (m_nodeStack r). k \<le> a \<and> a < length (section_nodes r)) \<and> collected k (section_nodes r) = ms"

text \<open>What no operation inside of a test case changes.\<close>

definition same_before :: "nat \<Rightarrow> 'x CumulativeReporterBase_scheme \<Rightarrow> 'x CumulativeReporterBase_scheme \<Rightarrow> bool" where
  "same_before k r r' \<longleftrightarrow> take k (section_nodes r') = take k (section_nodes r) \<and> m_testCases r' = m_testCases r \<and>
     m_testGroups r' = m_testGroups r \<and> m_testRuns r' = m_testRuns r \<and>
     CumulativeReporterBase.more r' = CumulativeReporterBase.more r"

lemma same_before_trans: "same_before k r r1 \<Longrightarrow> same_before k r1 r2 \<Longrightarrow> same_before k r r2"
  by (simp add: same_before_def)

lemma last_in: "xs \<noteq> [] \<Longrightarrow> (\<forall>x \<in> set xs. P x) \<Longrightarrow> P (last xs)"
  by simp

lemma find_or_make_progress:
  assumes "in_progress k ms b n r" and "find_or_make i r = (a, r1)"
  shows "same_before k r r1 \<and> m_nodeStack r1 = m_nodeStack r \<and> k \<le> a \<and> a < length (section_nodes r1) \<and>
    length (section_nodes r) \<le> length (section_nodes r1) \<and>
    tree_from k (map childSections (section_nodes r1)) \<and> m_rootSection r1 = Some k \<and> collected k (section_nodes r1) = ms"
proof (cases "m_nodeStack r = []")
  case True
  with assms show ?thesis
    using tree_from_root [of "map childSections (section_nodes r)"]
    by (auto simp: in_progress_def find_or_make_def make_node_def new_SectionNode_def same_before_def collected_def split: if_splits)
next
  case False
  let ?ns = "section_nodes r" let ?p = "last (m_nodeStack r)"
  let ?n = "new_SectionNode (incompleteStats i)"
  let ?it = "find_if (\<lambda>c. BySectionInfo i (?ns ! c)) (childSections (?ns ! ?p))"
  from False assms(1) have p: "k \<le> ?p" "?p < length ?ns" and b: "b" and kl: "k \<le> length ?ns" by (auto simp: in_progress_def)
  have t: "tree_from k (map childSections ?ns)" using assms(1) by (simp add: in_progress_def)
  have root: "m_rootSection r = Some k" and coll: "collected k ?ns = ms" using assms(1) b by (simp_all add: in_progress_def)
  show ?thesis
  proof (cases "?it = length (childSections (?ns ! ?p))")
    case True
    let ?q = "(?ns ! ?p)\<lparr>childSections := childSections (?ns ! ?p) @ [length ?ns]\<rparr>"
    have r1: "a = length ?ns" "r1 = r\<lparr>section_nodes := (?ns @ [?n])[?p := ?q]\<rparr>"
      using assms(2) False True p(2) by (auto simp: find_or_make_def make_node_def change_node_def Let_def nth_append)
    have "collected k ((?ns @ [?n])[?p := ?q]) = collected k (?ns @ [?n]) + mset []"
      by (rule collected_update) (use p in \<open>simp_all add: nth_append\<close>)
    then have "collected k ((?ns @ [?n])[?p := ?q]) = ms"
      using coll kl by (simp add: collected_def new_SectionNode_def)
    moreover have "map childSections ((?ns @ [?n])[?p := ?q]) = (map childSections ?ns @ [[]])[?p := map childSections ?ns ! ?p @ [length (map childSections ?ns)]]"
      using p(2) by (simp add: map_update new_SectionNode_def)
    then have "tree_from k (map childSections ((?ns @ [?n])[?p := ?q]))"
      using tree_from_child [OF t p(1)] p(2) by simp
    ultimately show ?thesis using r1 p root kl by (simp add: same_before_def)
  next
    case it: False
    have r1: "a = childSections (?ns ! ?p) ! ?it" "r1 = r"
      using assms(2) False it by (auto simp: find_or_make_def Let_def)
    have "a \<in> set (map childSections ?ns ! ?p)" using find_if_less [OF it] r1(1) p(2) by simp
    with t p(2) have "?p < a \<and> a < length ?ns" unfolding tree_from_def below_ok_def by (metis length_map)
    with r1 p t root coll show ?thesis by (simp add: same_before_def)
  qed
qed

text \<open>The assertions of a list of calls, as they are kept.\<close>

fun kept_assertions :: "reporter_event list \<Rightarrow> AssertionStats list" where
  "kept_assertions [] = []"
| "kept_assertions (Ev_assertionEnded st # es) = prepareExpandedExpression st # kept_assertions es"
| "kept_assertions (_ # es) = kept_assertions es"

lemma change_same_progress:
  assumes "in_progress k ms b n r" and "0 < n"
    and "\<And>x. childSections (f x) = childSections x" and "\<And>x. sn_assertions (f x) = sn_assertions x @ new"
  shows "in_progress k (ms + mset new) b n (change_node (last (m_nodeStack r)) f r) \<and>
    same_before k r (change_node (last (m_nodeStack r)) f r)"
proof -
  let ?a = "last (m_nodeStack r)"
  from assms(1,2) have a: "k \<le> ?a" "?a < length (section_nodes r)" by (auto simp: in_progress_def)
  have "collected k ((section_nodes r)[?a := f (section_nodes r ! ?a)]) = collected k (section_nodes r) + mset new"
    by (rule collected_update [OF a]) (rule assms(4))
  moreover have "map childSections ((section_nodes r)[?a := f (section_nodes r ! ?a)]) = map childSections (section_nodes r)"
    by (rule update_same_children) (rule assms(3))
  ultimately show ?thesis using assms(1) a(1) by (auto simp: in_progress_def change_node_def same_before_def)
qed

lemma cumulative_step:
  assumes "follow e (In_test b n) = Some (In_test b' n')" and "in_progress k ms b n r"
  shows "\<exists>r'. cumulative e r = Inr r' \<and> in_progress k (ms + mset (kept_assertions [e])) b' n' r' \<and> same_before k r r'"
proof (cases e)
  case (Ev_sectionStarting i)
  obtain a r1 where f: "find_or_make i r = (a, r1)" by (cases "find_or_make i r")
  from find_or_make_progress [OF assms(2) f] assms Ev_sectionStarting f show ?thesis
    by (auto simp: cumulative_sectionStarting_def in_progress_def same_before_def)
next
  case (Ev_assertionEnded st)
  with assms(1) have n: "0 < n" "b' = b" "n' = n" by (cases n; simp)+
  then have "m_nodeStack r \<noteq> []" using assms(2) by (auto simp: in_progress_def)
  with change_same_progress [OF assms(2) n(1), of "\<lambda>n. n\<lparr>sn_assertions := sn_assertions n @ [prepareExpandedExpression st]\<rparr>"
      "[prepareExpandedExpression st]"] n Ev_assertionEnded show ?thesis by (simp add: cumulative_assertionEnded_def)
next
  case (Ev_sectionEnded st)
  with assms(1) have n: "n = Suc n'" "b' = b" by (cases n; simp)+
  then have ne: "m_nodeStack r \<noteq> []" using assms(2) by (auto simp: in_progress_def)
  have "in_progress k ms b n r1 \<Longrightarrow> in_progress k ms b n' (r1\<lparr>m_nodeStack := butlast (m_nodeStack r1)\<rparr>)" for r1 :: "'x CumulativeReporterBase_scheme"
    using n by (auto simp: in_progress_def dest: in_set_butlastD)
  with change_same_progress [OF assms(2), of "\<lambda>n. n\<lparr>sn_stats := st\<rparr>" "[]"] n Ev_sectionEnded ne show ?thesis
    by (fastforce simp: cumulative_sectionEnded_def same_before_def change_node_def)
qed (use assms in \<open>cases n; cases b; simp add: same_before_def\<close>)+

lemma follow_inside: "follow e (In_test b n) = Some p \<Longrightarrow> \<forall>st. e \<noteq> Ev_testCaseEnded st \<Longrightarrow> \<exists>b' n'. p = In_test b' n'"
  by (cases e; cases n) auto

lemma cumulative_steps:
  "follows es (In_test b n) = Some (In_test b' n') \<Longrightarrow> inside es \<Longrightarrow> in_progress k ms b n r \<Longrightarrow>
   \<exists>r'. foldE cumulative es r = Inr r' \<and> in_progress k (ms + mset (kept_assertions es)) b' n' r' \<and> same_before k r r'"
proof (induction es arbitrary: b n ms r)
  case Nil
  then show ?case by (simp add: same_before_def)
next
  case (Cons e es)
  from Cons.prems(1) obtain p1 where p1: "follow e (In_test b n) = Some p1" "follows es p1 = Some (In_test b' n')"
    by (auto simp: bind_eq_Some_conv)
  from follow_inside [OF p1(1)] Cons.prems(2) obtain b1 n1 where b1: "p1 = In_test b1 n1" by auto
  from cumulative_step [OF p1(1) [unfolded b1] Cons.prems(3)] obtain r1 where
    r1: "cumulative e r = Inr r1" "in_progress k (ms + mset (kept_assertions [e])) b1 n1 r1" "same_before k r r1" by blast
  from Cons.IH [OF p1(2) [unfolded b1] _ r1(2)] Cons.prems(2) obtain r' where "foldE cumulative es r1 = Inr r'"
    "in_progress k (ms + mset (kept_assertions [e]) + mset (kept_assertions es)) b' n' r'" "same_before k r1 r'" by auto
  moreover have "kept_assertions (e # es) = kept_assertions [e] @ kept_assertions es" by (cases e) simp_all
  ultimately show ?case using r1 by (auto simp: add.assoc intro: same_before_trans)
qed

text \<open>The tree below a node, in the order in which a report is written.\<close>

fun nodes_below :: "nat \<Rightarrow> nat list list \<Rightarrow> nat \<Rightarrow> nat list" where
  "nodes_below 0 cs a = []"
| "nodes_below (Suc d) cs a = a # concat (map (nodes_below d cs) (cs ! a))"

lemma sum_list_count: "sum_list (map (\<lambda>c. if c = x then m else f c) xs) = count_list xs x * m + sum_list (map f (filter (\<lambda>c. c \<noteq> x) xs))"
  for m :: nat
  by (induction xs) auto

lemma below_at_least: "below_ok cs \<Longrightarrow> a < length cs \<Longrightarrow> x \<in> set (nodes_below d cs a) \<Longrightarrow> a \<le> x \<and> x < length cs"
proof (induction d arbitrary: a)
  case (Suc d)
  from Suc.prems(3) consider "x = a" | c where "c \<in> set (cs ! a)" "x \<in> set (nodes_below d cs c)" by auto
  then show ?case
  proof cases
    case 2
    with Suc.prems(1,2) have "a < c" "c < length cs" unfolding below_ok_def by blast+
    with Suc.IH [OF Suc.prems(1) this(2) 2(2)] show ?thesis by simp
  qed (use Suc.prems in simp)
qed simp

text \<open>A node appears as often as the one it is below.\<close>

lemma count_parent:
  assumes "below_ok cs" and "only_parent cs p x" and "x < length cs"
  shows "a < length cs \<Longrightarrow> a \<noteq> x \<Longrightarrow> length cs - a \<le> d \<Longrightarrow>
    count_list (nodes_below d cs a) x = count_list (nodes_below d cs a) p"
proof (induction d arbitrary: a)
  case (Suc d)
  have kids: "a < c \<and> c < length cs" if "c \<in> set (cs ! a)" for c
    using assms(1) Suc.prems(1) that unfolding below_ok_def by blast
  have fuel: "length cs - c \<le> d" if "c \<in> set (cs ! a)" for c
    using kids [OF that] Suc.prems(3) by arith
  have sums: "count_list (concat (map (nodes_below d cs) ys)) y = (\<Sum>c\<leftarrow>ys. count_list (nodes_below d cs c) y)" for y ys
    by (induction ys) (simp_all add: count_list_append)
  show ?case
  proof (cases "a = p")
    case True
    have zero: "count_list (nodes_below d cs c) p = 0" if "c \<in> set (cs ! a)" for c
      using below_at_least [OF assms(1), of c p d] kids [OF that] True by (auto simp: count_list_0_iff)
    have one: "count_list (nodes_below d cs c) x = (if c = x then 1 else 0)" if c: "c \<in> set (cs ! a)" for c
    proof (cases "c = x")
      case False
      with Suc.IH [of c] kids [OF c] fuel [OF c] zero [OF c] show ?thesis by simp
    next
      case cx: True
      with kids [OF c] Suc.prems(3) obtain d' where d: "d = Suc d'" by (cases d) auto
      have "x \<notin> set (concat (map (nodes_below d' cs) (cs ! x)))"
      proof
        assume "x \<in> set (concat (map (nodes_below d' cs) (cs ! x)))"
        then obtain y where y: "y \<in> set (cs ! x)" "x \<in> set (nodes_below d' cs y)" by auto
        then have "x < y" "y < length cs" using assms(1,3) unfolding below_ok_def by blast+
        with below_at_least [OF assms(1) _ y(2)] show False by simp
      qed
      then show ?thesis using cx d by (simp add: count_list_0_iff)
    qed
    have "(\<Sum>c\<leftarrow>cs ! a. count_list (nodes_below d cs c) x) = (\<Sum>c\<leftarrow>cs ! a. if c = x then 1 else 0)"
      using one by (intro arg_cong [where f = sum_list] map_cong) auto
    also have "\<dots> = count_list (cs ! p) x" using sum_list_count [of x 1 "\<lambda>c. 0" "cs ! a"] True by simp
    finally have "(\<Sum>c\<leftarrow>cs ! a. count_list (nodes_below d cs c) x) = 1" using assms(2) by (simp add: only_parent_def)
    moreover have "(\<Sum>c\<leftarrow>cs ! a. count_list (nodes_below d cs c) p) = 0" using zero by (simp add: sum_list_eq_0_iff)
    ultimately show ?thesis using True Suc.prems(2) sums by simp
  next
    case False
    have "x \<notin> set (cs ! a)" using assms(2) False Suc.prems(1) by (simp add: only_parent_def)
    then have "count_list (nodes_below d cs c) x = count_list (nodes_below d cs c) p" if "c \<in> set (cs ! a)" for c
      using Suc.IH [of c] kids [OF that] fuel [OF that] that by auto
    then have "(\<Sum>c\<leftarrow>cs ! a. count_list (nodes_below d cs c) x) = (\<Sum>c\<leftarrow>cs ! a. count_list (nodes_below d cs c) p)"
      by (intro arg_cong [where f = sum_list] map_cong) auto
    then show ?thesis using False Suc.prems(2) sums by simp
  qed
qed simp

lemma nodes_once:
  assumes "tree_from k cs" and "k \<le> x" and "x < length cs"
  shows "count_list (nodes_below (length cs) cs k) x = 1"
  using assms(2,3)
proof (induction x rule: less_induct)
  case (less x)
  have ok: "below_ok cs" using assms(1) by (simp add: tree_from_def)
  show ?case
  proof (cases "x = k")
    case True
    from less.prems obtain d where d: "length cs = Suc d" by (cases "length cs") auto
    have "x \<notin> set (concat (map (nodes_below d cs) (cs ! x)))"
    proof
      assume "x \<in> set (concat (map (nodes_below d cs) (cs ! x)))"
      then obtain y where y: "y \<in> set (cs ! x)" "x \<in> set (nodes_below d cs y)" by auto
      then have "x < y" "y < length cs" using ok less.prems(2) unfolding below_ok_def by blast+
      with below_at_least [OF ok _ y(2)] show False by simp
    qed
    then show ?thesis using True by (simp add: d count_list_0_iff)
  next
    case False
    with less.prems assms(1) obtain p where p: "k \<le> p" "only_parent cs p x" unfolding tree_from_def by (metis le_neq_implies_less)
    then have "p < x" by (simp add: only_parent_def)
    with less.IH [OF this p(1)] less.prems count_parent [OF ok p(2) less.prems(2), of k "length cs"] False show ?thesis by simp
  qed
qed

lemma nodes_are_all:
  assumes "tree_from k cs" and "k < length cs"
  shows "mset (nodes_below (length cs) cs k) = mset [k..<length cs]"
proof (rule multiset_eqI)
  fix x
  have ok: "below_ok cs" using assms(1) by (simp add: tree_from_def)
  show "count (mset (nodes_below (length cs) cs k)) x = count (mset [k..<length cs]) x"
  proof (cases "k \<le> x \<and> x < length cs")
    case True
    then have "count (mset [k..<length cs]) x = 1" by (simp add: count_mset_set(1) mset_upt)
    with nodes_once [OF assms(1)] True show ?thesis by (simp add: count_mset)
  next
    case False
    with below_at_least [OF ok assms(2)] have "x \<notin> set (nodes_below (length cs) cs k)" by blast
    with False show ?thesis by (auto simp: not_in_iff [symmetric])
  qed
qed

lemma concat_mset: "mset xs = mset ys \<Longrightarrow> mset (concat (map f xs)) = mset (concat (map f ys))"
proof -
  have "mset (concat (map f zs)) = (\<Sum>z\<in>#mset zs. mset (f z))" for zs by (induction zs) simp_all
  then show "mset xs = mset ys \<Longrightarrow> ?thesis" by simp
qed

text \<open>The assertions of the tree below a node.\<close>

definition tree_assertions :: "nat \<Rightarrow> SectionNode list \<Rightarrow> AssertionStats list" where
  "tree_assertions a ns = concat (map (\<lambda>b. sn_assertions (ns ! b)) (nodes_below (length ns) (map childSections ns) a))"

lemma tree_assertions_collected:
  assumes "tree_from k (map childSections ns)" and "k < length ns"
  shows "mset (tree_assertions k ns) = collected k ns"
proof -
  have "mset (tree_assertions k ns) = mset (concat (map (\<lambda>b. sn_assertions (ns ! b)) [k..<length ns]))"
    unfolding tree_assertions_def using nodes_are_all [OF assms(1)] assms(2) by (intro concat_mset) simp
  also have "map (\<lambda>b. sn_assertions (ns ! b)) [k..<length ns] = map sn_assertions (drop k ns)"
    by (rule nth_equalityI) simp_all
  finally show ?thesis by (simp add: collected_def)
qed

subsection \<open>Nothing is lost\<close>

fun cumulative_view :: "phase \<Rightarrow> 'x CumulativeReporterBase_scheme \<Rightarrow> bool" where
  "cumulative_view (In_test b n) r \<longleftrightarrow> (\<exists>k ms. in_progress k ms b n r)"
| "cumulative_view _ r \<longleftrightarrow> m_nodeStack r = [] \<and> m_rootSection r = None \<and> below_ok (map childSections (section_nodes r))"

lemma start_progress:
  "m_nodeStack r = [] \<Longrightarrow> m_rootSection r = None \<Longrightarrow> below_ok (map childSections (section_nodes r)) \<Longrightarrow>
   in_progress (length (section_nodes r)) {#} False 0 r"
  by (auto simp: in_progress_def tree_from_def collected_def)

lemma end_progress:
  assumes "in_progress k ms True 0 r"
  shows "\<exists>r'. cumulative (Ev_testCaseEnded st) r = Inr r' \<and> m_nodeStack r' = [] \<and> m_rootSection r' = None \<and>
    tree_from k (map childSections (section_nodes r')) \<and> length (section_nodes r') = length (section_nodes r) \<and>
    collected k (section_nodes r') = ms \<and> take k (section_nodes r') = take k (section_nodes r) \<and>
    m_testCases r' = m_testCases r @ [\<lparr>rn_value = st, rn_children = [Some k]\<rparr>] \<and> m_testGroups r' = m_testGroups r"
proof -
  from assms obtain a where a: "m_deepestSection r = Some a" "k \<le> a" "a < length (section_nodes r)" by (auto simp: in_progress_def)
  let ?n = "(section_nodes r ! a)\<lparr>sn_stdOut := tc_stdOut st, sn_stdErr := tc_stdErr st\<rparr>"
  have "collected k ((section_nodes r)[a := ?n]) = collected k (section_nodes r) + mset []"
    by (rule collected_update [OF a(2,3)]) simp
  moreover have "map childSections ((section_nodes r)[a := ?n]) = map childSections (section_nodes r)"
    by (rule update_same_children) simp
  ultimately show ?thesis using assms a
    by (simp add: cumulative_testCaseEnded_def change_node_def in_progress_def Let_def)
qed

interpretation cumulative: reporter cumulative cumulative_view
proof
  fix e p p' and r :: "'x CumulativeReporterBase_scheme"
  assume f: "follow e p = Some p'" and v: "cumulative_view p r"
  show "\<exists>r'. cumulative e r = Inr r' \<and> cumulative_view p' r'"
  proof (cases p)
    case (In_test b n)
    with v obtain k ms where k: "in_progress k ms b n r" by auto
    show ?thesis
    proof (cases "\<exists>st. e = Ev_testCaseEnded st")
      case True
      then obtain st where e: "e = Ev_testCaseEnded st" by blast
      with f In_test have "b" "n = 0" "p' = In_group" by (cases b; cases n; simp)+
      with k end_progress [of k ms r st] e show ?thesis by (auto simp: tree_from_def)
    next
      case False
      with follow_inside [of e b n p'] f In_test obtain b' n' where "p' = In_test b' n'" by auto
      with cumulative_step [of e b n b' n' k ms r] f In_test k show ?thesis by auto
    qed
  qed (use f v start_progress [of r] in \<open>cases e; fastforce simp: cumulative_testGroupEnded_def cumulative_testRunEnded_def\<close>)+
qed

text \<open>
  C20: No assertion is lost. When a test case has run and all assertions are reported, the cumulative
  reporter has one more test case, with one root section; the tree of sections below it, walked through
  in the order of a report, holds every assertion that was reported exactly once (with its expression
  written out), whatever sections were started again in later cycles or left by exceptions. The test
  cases before it are as they were, and no assertion of the reporter fails.
\<close>

theorem no_assertion_lost:
  assumes "runTest here ts nxt info body rc = Some (Inr (delta, rc'))" and "m_unfinishedSections rc = []"
    and "cumulative_view In_group r"
  defines "k \<equiv> length (section_nodes r)"
  shows "\<exists>es st r'. m_reported rc' = m_reported rc @ es @ [Ev_testCaseEnded st] \<and>
    foldE cumulative (es @ [Ev_testCaseEnded st]) r = Inr r' \<and>
    m_testCases r' = m_testCases r @ [\<lparr>rn_value = st, rn_children = [Some k]\<rparr>] \<and>
    mset (tree_assertions k (section_nodes r')) = mset (kept_assertions es) \<and>
    take k (section_nodes r') = section_nodes r \<and> cumulative_view In_group r'"
proof -
  from runTest_events [OF assms(1,2)] obtain es st where es: "m_reported rc' = m_reported rc @ Ev_testCaseStarting info # es @ [Ev_testCaseEnded st]"
    "follows es (In_test False 0) = Some (In_test True 0)" "inside es" by blast
  have "in_progress k {#} False 0 r" unfolding k_def using assms(3) by (intro start_progress) simp_all
  from cumulative_steps [OF es(2,3) this] obtain r1 where r1: "foldE cumulative es r = Inr r1"
    "in_progress k (mset (kept_assertions es)) True 0 r1" "same_before k r r1" by auto
  from end_progress [OF r1(2), of st] obtain r' where r': "cumulative (Ev_testCaseEnded st) r1 = Inr r'" "m_nodeStack r' = []"
    "m_rootSection r' = None" "tree_from k (map childSections (section_nodes r'))" "length (section_nodes r') = length (section_nodes r1)"
    "collected k (section_nodes r') = mset (kept_assertions es)" "take k (section_nodes r') = take k (section_nodes r1)"
    "m_testCases r' = m_testCases r1 @ [\<lparr>rn_value = st, rn_children = [Some k]\<rparr>]" by blast
  have "k < length (section_nodes r')" using r1(2) r'(5) by (simp add: in_progress_def)
  from tree_assertions_collected [OF r'(4) this] r' r1 es show ?thesis
    by (intro exI [of _ "Ev_testCaseStarting info # es"] exI [of _ st] exI [of _ r'])
      (simp add: foldE_append same_before_def k_def tree_from_def)
qed

theorem no_assertion_lost_witness:
  "\<exists>delta rc' es st r'. runTest sample_place sample_testing (\<lambda>g::unit. (False, g)) (named_test ''book'') sample_body
      (new_RunContext sample_config True 0 0) = Some (Inr (delta, rc')) \<and>
    foldE cumulative (es @ [Ev_testCaseEnded st]) new_CumulativeReporterBase = Inr r' \<and>
    mset (tree_assertions 0 (section_nodes r')) = mset (kept_assertions es)"
proof -
  let ?rc = "new_RunContext sample_config True 0 0 :: unit RunContext"
  from sample_test_runs obtain delta rc' where
    r: "runTest sample_place sample_testing (\<lambda>g. (False, g)) (named_test ''book'') sample_body ?rc = Some (Inr (delta, rc'))" by blast
  have "m_unfinishedSections ?rc = []" by (simp add: new_RunContext_def report_def)
  moreover have "cumulative_view In_group new_CumulativeReporterBase" by (simp add: new_CumulativeReporterBase_def below_ok_def)
  ultimately show ?thesis using no_assertion_lost [OF r, of new_CumulativeReporterBase] r
    by (fastforce simp: new_CumulativeReporterBase_def)
qed

subsection \<open>A signal inside of a section\<close>

lemma fatal_events:
  assumes "handleFatalErrorCondition config nxt message rc = Inr rc'" and "m_unfinishedSections rc = []"
  shows "\<exists>st se te es. m_reported rc' = m_reported rc @ Ev_fatalErrorEncountered message # Ev_assertionEnded st #
    Ev_sectionEnded se # Ev_testCaseEnded te # es"
proof -
  let ?rc = "report (Ev_fatalErrorEncountered message) rc"
  from assms(1) obtain rc1 rc2 where 1: "rc_assertionEnded (plain_result (m_lastAssertionInfo ?rc) FatalErrorCondition message) ?rc = Inr rc1"
    and 2: "handleUnfinishedSections config nxt rc1 = Inr rc2"
    and 3: "\<exists>se te es. m_reported rc' = m_reported rc2 @ Ev_sectionEnded se # Ev_testCaseEnded te # es"
    unfolding handleFatalErrorCondition_def Let_def
    by (elim bindE_InrE) (fastforce simp: report_def testGroupEnded_def)
  from assertionEnded_reports [OF 1] obtain st where st: "m_reported rc1 = m_reported ?rc @ [Ev_assertionEnded st]" by blast
  from assertionEnded_flat [OF 1] assms(2) have "m_unfinishedSections rc1 = []" by (simp add: flat_def report_def)
  with 2 have "m_reported rc2 = m_reported rc1" by (auto simp: handleUnfinishedSections_def)
  with st 3 show ?thesis by (auto simp: report_def)
qed

text \<open>
  A signal inside of a section breaks the cumulative reporters. The run context ends one section, that
  of the test case, and then the test case; the sections that are open when the signal comes are not
  ended. When there is at least one besides that of the test case, the reporter still has a section on
  its stack at the end of the test case, and its assertion that there is none fails.
\<close>

theorem fatal_error_in_section:
  assumes "handleFatalErrorCondition config nxt message rc = Inr rc'" and "m_unfinishedSections rc = []"
    and "in_progress k ms True (Suc (Suc n)) r"
  shows "\<exists>es. m_reported rc' = m_reported rc @ es \<and> foldE cumulative es r = Inl Assert_Failed"
proof -
  from fatal_events [OF assms(1,2)] obtain st se te es where es: "m_reported rc' = m_reported rc @
    Ev_fatalErrorEncountered message # Ev_assertionEnded st # Ev_sectionEnded se # Ev_testCaseEnded te # es" by blast
  have "follows [Ev_assertionEnded st, Ev_sectionEnded se] (In_test True (Suc (Suc n))) = Some (In_test True (Suc n))" by simp
  from cumulative_steps [OF this _ assms(3)] obtain r1 where r1: "foldE cumulative [Ev_assertionEnded st, Ev_sectionEnded se] r = Inr r1"
    and n: "length (m_nodeStack r1) = Suc n" by (auto simp: in_progress_def)
  have "cumulative (Ev_testCaseEnded te) r1 = Inl Assert_Failed" by (simp add: cumulative_testCaseEnded_def n)
  moreover from r1 obtain r2 where "cumulative (Ev_assertionEnded st) r = Inr r2" "cumulative (Ev_sectionEnded se) r2 = Inr r1"
    by (auto elim!: bindE_InrE)
  ultimately show ?thesis by (intro exI) (rule conjI [OF es], simp)
qed

theorem fatal_error_in_section_witness:
  "\<exists>rc rc' es r. sample_run = Inr rc \<and> handleFatalErrorCondition sample_config (\<lambda>g. (False, g)) ''SIGSEGV'' rc = Inr rc' \<and>
    foldE cumulative (map Ev_sectionStarting [\<lparr>si_name = ''book'', si_lineInfo = sample_place\<rparr>, \<lparr>si_name = ''bids'', si_lineInfo = sample_place\<rparr>])
      new_CumulativeReporterBase = Inr r \<and>
    m_reported rc' = m_reported rc @ es \<and> foldE cumulative es r = Inl Assert_Failed"
proof -
  have "case sample_run of Inl _ \<Rightarrow> False | Inr rc \<Rightarrow> m_unfinishedSections rc = [] \<and>
      (case handleFatalErrorCondition sample_config (\<lambda>g. (False, g)) ''SIGSEGV'' rc of Inl _ \<Rightarrow> False | Inr rc' \<Rightarrow> True)"
    by code_simp
  then obtain rc rc' where rc: "sample_run = Inr rc" "m_unfinishedSections rc = []"
    "handleFatalErrorCondition sample_config (\<lambda>g. (False, g)) ''SIGSEGV'' rc = Inr rc'" by (auto split: sum.splits)
  let ?es = "map Ev_sectionStarting [\<lparr>si_name = ''book'', si_lineInfo = sample_place\<rparr>, \<lparr>si_name = ''bids'', si_lineInfo = sample_place\<rparr>]"
  have "in_progress 0 {#} False 0 new_CumulativeReporterBase"
    using start_progress [of new_CumulativeReporterBase] by (simp add: new_CumulativeReporterBase_def below_ok_def)
  from cumulative_steps [OF _ _ this, of ?es True 2] obtain r where
    r: "foldE cumulative ?es new_CumulativeReporterBase = Inr r" "in_progress 0 {#} True (Suc (Suc 0)) r"
    by (auto simp: numeral_2_eq_2)
  from fatal_error_in_section [OF rc(3,2) r(2)] rc r(1) show ?thesis by blast
qed

end
