(* ===== verification/Catch_Clara.thy ===== *)
theory Catch_Clara
  imports Complex_Main Catch_Strings Catch_Text_Flow
begin

section \<open>The parser of the command line\<close>

text \<open>
  Clara: the arguments as a stream of tokens, options and arguments bound to what they set, and the parser
  that tries them in turn. What is bound is a part of a state; a reference is a function that changes it.
  An assertion on the stream that fails is \<open>Assert_Failed\<close>, a result that is an error is a value.
\<close>

subsection \<open>Results\<close>

datatype ParseResultType = Matched | NoMatch | ShortCircuitAll | ShortCircuitSame

datatype 'a BasicResult = Result_ok 'a | LogicError string | RuntimeError string

type_synonym ParserResult = "ParseResultType BasicResult"

text \<open>The conversion of a failure to a result of another type.\<close>

fun failure :: "'a BasicResult \<Rightarrow> 'b BasicResult res" where
  "failure (Result_ok _) = Inl Assert_Failed"
| "failure (LogicError m) = Inr (LogicError m)"
| "failure (RuntimeError m) = Inr (RuntimeError m)"

subsection \<open>Tokens\<close>

datatype TokenType = Token_Option | Token_Argument

record Token =
  token_type :: TokenType
  token_text :: string

abbreviation option_token :: "string \<Rightarrow> Token" where
  "option_token t \<equiv> \<lparr>token_type = Token_Option, token_text = t\<rparr>"

abbreviation argument_token :: "string \<Rightarrow> Token" where
  "argument_token t \<equiv> \<lparr>token_type = Token_Argument, token_text = t\<rparr>"

text \<open>The arguments from \<open>it\<close> to \<open>itEnd\<close> are a list; the first one is the one in the buffer.\<close>

record TokenStream =
  unread :: "string list"
  m_tokenBuffer :: "Token list"

definition isOptPrefix :: "char \<Rightarrow> bool" where
  "isOptPrefix c \<longleftrightarrow> c = CHR ''-''"

definition split_word :: "string \<Rightarrow> Token list" where
  "split_word nxt =
     (if isOptPrefix (char_at nxt 0) then
        (let delimiterPos = find_if (\<lambda>c. c \<in> set '' :='') nxt
         in if delimiterPos \<noteq> length nxt then
              [option_token (take delimiterPos nxt), argument_token (drop (delimiterPos + 1) nxt)]
            else if char_at nxt 1 \<noteq> CHR ''-'' \<and> length nxt > 2 then map (\<lambda>c. option_token (CHR ''-'' # [c])) (drop 1 nxt)
            else [option_token nxt])
      else [argument_token nxt])"

definition loadBuffer :: "TokenStream \<Rightarrow> TokenStream" where
  "loadBuffer ts = (let rest = dropWhile (\<lambda>s. s = []) (unread ts)
     in \<lparr>unread = rest, m_tokenBuffer = (case rest of [] \<Rightarrow> [] | nxt # _ \<Rightarrow> split_word nxt)\<rparr>)"

definition new_TokenStream :: "string list \<Rightarrow> TokenStream" where
  "new_TokenStream args = loadBuffer \<lparr>unread = args, m_tokenBuffer = []\<rparr>"

definition has_tokens :: "TokenStream \<Rightarrow> bool" where
  "has_tokens ts \<longleftrightarrow> m_tokenBuffer ts \<noteq> [] \<or> unread ts \<noteq> []"

definition this_token :: "TokenStream \<Rightarrow> Token res" where
  "this_token ts = (case m_tokenBuffer ts of [] \<Rightarrow> Inl Assert_Failed | t # _ \<Rightarrow> Inr t)"

definition next_token :: "TokenStream \<Rightarrow> TokenStream" where
  "next_token ts = (if length (m_tokenBuffer ts) \<ge> 2 then ts\<lparr>m_tokenBuffer := tl (m_tokenBuffer ts)\<rparr>
     else loadBuffer (ts\<lparr>unread := tl (unread ts)\<rparr>))"

subsection \<open>Conversions\<close>

text \<open>
  \<open>convertInto\<close> gives the result and the new value of the target. Numbers are read from a
  \<open>stringstream\<close>: what follows the number is ignored, a failure sets zero, a number out of range
  the nearest one in it.
\<close>

definition convertInto_bool :: "string \<Rightarrow> bool BasicResult" where
  "convertInto_bool source = (let srcLC = toLower source
     in if srcLC \<in> {''y'', ''1'', ''true'', ''yes'', ''on''} then Result_ok True
        else if srcLC \<in> {''n'', ''0'', ''false'', ''no'', ''off''} then Result_ok False
        else RuntimeError (''Expected a boolean value but did not recognise: '' @ [CHR 0x27] @ source @ [CHR 0x27]))"

definition unable :: "string \<Rightarrow> 'a BasicResult" where
  "unable source = RuntimeError (''Unable to convert '' @ [CHR 0x27] @ source @ [CHR 0x27] @ '' to destination type'')"

definition read_sign :: "string \<Rightarrow> bool \<times> string" where
  "read_sign s = (case s of [] \<Rightarrow> (False, []) | c # cs \<Rightarrow>
     if c = CHR ''-'' then (True, cs) else if c = CHR ''+'' then (False, cs) else (False, s))"

definition read_number :: "string \<Rightarrow> (bool \<times> nat) option" where
  "read_number source = (let (neg, rest) = read_sign (dropWhile isspace source); ds = takeWhile isdigit rest
     in if ds = [] then None else Some (neg, number_of ds))"

definition convertInto_signed :: "nat \<Rightarrow> string \<Rightarrow> unit BasicResult \<times> int" where
  "convertInto_signed bits source = (case read_number source of
       None \<Rightarrow> (unable source, 0)
     | Some (neg, n) \<Rightarrow> let v = (if neg then - int n else int n)
         in if v \<ge> 2 ^ (bits - 1) then (unable source, 2 ^ (bits - 1) - 1)
            else if v < - (2 ^ (bits - 1)) then (unable source, - (2 ^ (bits - 1)))
            else (Result_ok (), v))"

definition convertInto_unsigned :: "string \<Rightarrow> unit BasicResult \<times> 32 word" where
  "convertInto_unsigned source = (case read_number source of
       None \<Rightarrow> (unable source, 0)
     | Some (neg, n) \<Rightarrow> if n \<ge> 2 ^ 32 then (unable source, - 1)
         else (Result_ok (), if neg then - of_nat n else of_nat n))"

text \<open>
  A \<open>double\<close>: digits with a point, and an exponent. An exponent without digits, or no digits at all, fails. The
  value is exact here.
\<close>

definition max_double :: real where
  "max_double = (2 ^ 53 - 1) * 2 ^ 971"

definition scaled :: "nat \<Rightarrow> int \<Rightarrow> real" where
  "scaled m e = (if e \<ge> 0 then of_nat m * 10 ^ nat e else of_nat m / 10 ^ nat (- e))"

definition convertInto_double :: "string \<Rightarrow> unit BasicResult \<times> real" where
  "convertInto_double source =
     (let (neg, s1) = read_sign (dropWhile isspace source);
          whole = takeWhile isdigit s1; s2 = dropWhile isdigit s1;
          point = (s2 \<noteq> [] \<and> hd s2 = CHR ''.'');
          fraction = (if point then takeWhile isdigit (tl s2) else []);
          s3 = (if point then dropWhile isdigit (tl s2) else s2);
          exponent = (s3 \<noteq> [] \<and> hd s3 \<in> {CHR ''e'', CHR ''E''});
          (eneg, s4) = read_sign (if exponent then tl s3 else []);
          es = takeWhile isdigit s4
      in if whole @ fraction = [] \<or> exponent \<and> es = [] then (unable source, 0)
         else let e = (if es = [] then 0 else if eneg then - int (number_of es) else int (number_of es));
                  v = scaled (number_of (whole @ fraction)) (e - int (length fraction));
                  signed = (\<lambda>x. if neg then - x else x)
              in if v > max_double then (unable source, signed max_double) else (Result_ok (), signed v))"

subsection \<open>References\<close>

text \<open>Whether what is bound is a container, and what a flag or a value does to the state.\<close>

datatype 's BoundRef =
    BoundFlag "bool \<Rightarrow> 's \<Rightarrow> ParserResult \<times> 's"
  | BoundValue bool "string \<Rightarrow> 's \<Rightarrow> ParserResult \<times> 's"

fun isContainer :: "'s BoundRef \<Rightarrow> bool" where
  "isContainer (BoundFlag _) \<longleftrightarrow> False"
| "isContainer (BoundValue container _) \<longleftrightarrow> container"

fun isFlag :: "'s BoundRef \<Rightarrow> bool" where
  "isFlag (BoundFlag _) \<longleftrightarrow> True"
| "isFlag (BoundValue _ _) \<longleftrightarrow> False"

fun matched :: "'a BasicResult \<Rightarrow> ParserResult" where
  "matched (Result_ok _) = Result_ok Matched"
| "matched (LogicError m) = LogicError m"
| "matched (RuntimeError m) = RuntimeError m"

definition BoundFlagRef :: "((bool \<Rightarrow> bool) \<Rightarrow> 's \<Rightarrow> 's) \<Rightarrow> 's BoundRef" where
  "BoundFlagRef ref = BoundFlag (\<lambda>flag s. (Result_ok Matched, ref (\<lambda>_. flag) s))"

definition BoundValueRef :: "(string \<Rightarrow> unit BasicResult \<times> 'v) \<Rightarrow> (('v \<Rightarrow> 'v) \<Rightarrow> 's \<Rightarrow> 's) \<Rightarrow> 's BoundRef" where
  "BoundValueRef convert ref = BoundValue False (\<lambda>arg s. let (result, v) = convert arg in (matched result, ref (\<lambda>_. v) s))"

definition BoundVectorRef :: "((string list \<Rightarrow> string list) \<Rightarrow> 's \<Rightarrow> 's) \<Rightarrow> 's BoundRef" where
  "BoundVectorRef ref = BoundValue True (\<lambda>arg s. (Result_ok Matched, ref (\<lambda>xs. xs @ [arg]) s))"

definition BoundLambda :: "(string \<Rightarrow> unit BasicResult \<times> 'v) \<Rightarrow> ('v \<Rightarrow> 's \<Rightarrow> ParserResult \<times> 's) \<Rightarrow> 's BoundRef" where
  "BoundLambda convert lambda = BoundValue False (\<lambda>arg s. case convert arg of
       (Result_ok _, v) \<Rightarrow> lambda v s
     | (result, _) \<Rightarrow> (matched result, s))"

definition BoundFlagLambda :: "(bool \<Rightarrow> 's \<Rightarrow> ParserResult \<times> 's) \<Rightarrow> 's BoundRef" where
  "BoundFlagLambda lambda = BoundFlag lambda"

definition convertInto_string :: "string \<Rightarrow> unit BasicResult \<times> string" where
  "convertInto_string source = (Result_ok (), source)"

subsection \<open>Options and arguments\<close>

record 's ParserRefImpl =
  m_ref :: "'s BoundRef"
  m_hint :: string
  m_description :: string

record 's Opt = "'s ParserRefImpl" +
  m_optNames :: "string list"

definition ref_cardinality :: "('s, 'x) ParserRefImpl_scheme \<Rightarrow> nat" where
  "ref_cardinality p = (if isContainer (m_ref p) then 0 else 1)"

type_synonym ParseState = "ParseResultType \<times> TokenStream"

type_synonym InternalParseResult = "ParseState BasicResult"

definition Arg_parse :: "'s ParserRefImpl \<Rightarrow> TokenStream \<Rightarrow> 's \<Rightarrow> (InternalParseResult \<times> 's) res" where
  "Arg_parse arg tokens s = bindE (this_token tokens) (\<lambda>token.
     if token_type token \<noteq> Token_Argument then Inr (Result_ok (NoMatch, tokens), s)
     else case m_ref arg of
         BoundFlag _ \<Rightarrow> Inl Assert_Failed
       | BoundValue _ setValue \<Rightarrow> let (result, s1) = setValue (token_text token) s
           in case result of
                Result_ok _ \<Rightarrow> Inr (Result_ok (Matched, next_token tokens), s1)
              | _ \<Rightarrow> bindE (failure result) (\<lambda>r. Inr (r, s1)))"

definition isMatch :: "'s Opt \<Rightarrow> string \<Rightarrow> bool" where
  "isMatch opt optToken \<longleftrightarrow> optToken \<in> set (m_optNames opt)"

fun validate_names :: "string list \<Rightarrow> unit BasicResult" where
  "validate_names [] = Result_ok ()"
| "validate_names (name # names) =
     (if name = [] then LogicError ''Option name cannot be empty''
      else if name ! 0 \<noteq> CHR ''-'' then LogicError (''Option name must begin with '' @ [CHR 0x27] @ ''-'' @ [CHR 0x27])
      else validate_names names)"

definition Opt_validate :: "'s Opt \<Rightarrow> unit BasicResult" where
  "Opt_validate opt = (if m_optNames opt = [] then LogicError ''No options supplied to Opt'' else validate_names (m_optNames opt))"

text \<open>After a flag or a value is set: the token is used up, unless the whole parse is to stop.\<close>

definition option_set :: "ParserResult \<times> 's \<Rightarrow> TokenStream \<Rightarrow> (InternalParseResult \<times> 's) res" where
  "option_set rs tokens = (let (result, s1) = rs in case result of
       Result_ok ty \<Rightarrow> Inr (Result_ok (if ty = ShortCircuitAll then (ty, tokens) else (Matched, next_token tokens)), s1)
     | _ \<Rightarrow> bindE (failure result) (\<lambda>r. Inr (r, s1)))"

definition Opt_parse :: "'s Opt \<Rightarrow> TokenStream \<Rightarrow> 's \<Rightarrow> (InternalParseResult \<times> 's) res" where
  "Opt_parse opt tokens s = (case Opt_validate opt of
       Result_ok _ \<Rightarrow>
         if \<not> has_tokens tokens then Inr (Result_ok (NoMatch, tokens), s)
         else bindE (this_token tokens) (\<lambda>token.
           if token_type token \<noteq> Token_Option \<or> \<not> isMatch opt (token_text token) then Inr (Result_ok (NoMatch, tokens), s)
           else case m_ref opt of
               BoundFlag setFlag \<Rightarrow> option_set (setFlag True s) tokens
             | BoundValue _ setValue \<Rightarrow> let tokens1 = next_token tokens
                 in if \<not> has_tokens tokens1 then Inr (RuntimeError (''Expected argument following '' @ token_text token), s)
                    else bindE (this_token tokens1) (\<lambda>argToken.
                      if token_type argToken \<noteq> Token_Argument
                      then Inr (RuntimeError (''Expected argument following '' @ token_text token), s)
                      else option_set (setValue (token_text argToken) s) tokens1))
     | result \<Rightarrow> bindE (failure result) (\<lambda>r. Inr (r, s)))"

text \<open>What the help says of an option: its names and its hint, and the description.\<close>

record HelpColumns =
  help_left :: string
  help_right :: string

fun names_list :: "string list \<Rightarrow> string" where
  "names_list [] = []"
| "names_list [name] = name"
| "names_list (name # names) = name @ '', '' @ names_list names"

definition Opt_getHelpColumns :: "'s Opt \<Rightarrow> HelpColumns list" where
  "Opt_getHelpColumns opt = [\<lparr>help_left = names_list (m_optNames opt) @
     (if m_hint opt \<noteq> [] then '' <'' @ m_hint opt @ ''>'' else []), help_right = m_description opt\<rparr>]"

subsection \<open>The parser\<close>

record 's ExeName =
  m_name :: string
  exe_ref :: "'s BoundRef option"

definition new_ExeName :: "'s BoundRef \<Rightarrow> 's ExeName" where
  "new_ExeName ref = \<lparr>m_name = ''<executable>'', exe_ref = Some ref\<rparr>"

text \<open>The file name is what stands behind the last slash or backslash.\<close>

definition ExeName_set :: "string \<Rightarrow> 's ExeName \<Rightarrow> 's \<Rightarrow> ParserResult \<times> 's ExeName \<times> 's" where
  "ExeName_set newName e s =
     (let filename = rev (takeWhile (\<lambda>c. c \<noteq> CHR 0x5C \<and> c \<noteq> CHR ''/'') (rev newName));
          e1 = e\<lparr>m_name := filename\<rparr>
      in case exe_ref e1 of
           Some (BoundValue _ setValue) \<Rightarrow> let (result, s1) = setValue filename s in (result, e1, s1)
         | _ \<Rightarrow> (Result_ok Matched, e1, s))"

record 's Parser =
  m_exeName :: "'s ExeName"
  m_options :: "'s Opt list"
  m_args :: "'s ParserRefImpl list"

definition new_Parser :: "'s Parser" where
  "new_Parser = \<lparr>m_exeName = \<lparr>m_name = ''<executable>'', exe_ref = None\<rparr>, m_options = [], m_args = []\<rparr>"

definition with_exeName :: "'s ExeName \<Rightarrow> 's Parser \<Rightarrow> 's Parser" where
  "with_exeName exeName p = p\<lparr>m_exeName := exeName\<rparr>"

definition with_opt :: "'s Opt \<Rightarrow> 's Parser \<Rightarrow> 's Parser" where
  "with_opt opt p = p\<lparr>m_options := m_options p @ [opt]\<rparr>"

definition with_arg :: "'s ParserRefImpl \<Rightarrow> 's Parser \<Rightarrow> 's Parser" where
  "with_arg arg p = p\<lparr>m_args := m_args p @ [arg]\<rparr>"

definition with_parser :: "'s Parser \<Rightarrow> 's Parser \<Rightarrow> 's Parser" where
  "with_parser other p = p\<lparr>m_options := m_options p @ m_options other, m_args := m_args p @ m_args other\<rparr>"

definition Parser_getHelpColumns :: "'s Parser \<Rightarrow> HelpColumns list" where
  "Parser_getHelpColumns p = concat (map Opt_getHelpColumns (m_options p))"

fun first_failure :: "unit BasicResult list \<Rightarrow> unit BasicResult" where
  "first_failure [] = Result_ok ()"
| "first_failure (Result_ok _ # rs) = first_failure rs"
| "first_failure (result # _) = result"

definition Parser_validate :: "'s Parser \<Rightarrow> unit BasicResult" where
  "Parser_validate p = first_failure (map Opt_validate (m_options p) @ map (\<lambda>_. Result_ok ()) (m_args p))"

text \<open>The parsers that are tried, each with the number of times it has matched.\<close>

datatype 's sub_parser = An_opt "'s Opt" | An_arg "'s ParserRefImpl"

fun cardinality :: "'s sub_parser \<Rightarrow> nat" where
  "cardinality (An_opt opt) = ref_cardinality opt"
| "cardinality (An_arg arg) = ref_cardinality arg"

fun sub_parse :: "'s sub_parser \<Rightarrow> TokenStream \<Rightarrow> 's \<Rightarrow> (InternalParseResult \<times> 's) res" where
  "sub_parse (An_opt opt) = Opt_parse opt"
| "sub_parse (An_arg arg) = Arg_parse arg"

text \<open>
  The inner loop: the result, whether a token was parsed, and the new counts. The result of the loop that
  tried nothing is never looked at.
\<close>

fun try_parsers :: "('s sub_parser \<times> nat) list \<Rightarrow> TokenStream \<Rightarrow> 's \<Rightarrow>
    (InternalParseResult \<times> bool \<times> ('s sub_parser \<times> nat) list \<times> 's) res" where
  "try_parsers [] tokens s = Inr (Result_ok (NoMatch, tokens), False, [], s)"
| "try_parsers ((parser, n) # infos) tokens s =
     (if cardinality parser = 0 \<or> n < cardinality parser then
        bindE (sub_parse parser tokens s) (\<lambda>(result, s1). case result of
            Result_ok (ty, tokens1) \<Rightarrow>
              if ty \<noteq> NoMatch then Inr (result, True, (parser, n + 1) # infos, s1)
              else bindE (try_parsers infos tokens1 s1) (\<lambda>(r, parsed, infos1, s2). Inr (r, parsed, (parser, n) # infos1, s2))
          | _ \<Rightarrow> Inr (result, False, (parser, n) # infos, s1))
      else bindE (try_parsers infos tokens s) (\<lambda>(r, parsed, infos1, s2). Inr (r, parsed, (parser, n) # infos1, s2)))"

text \<open>The tokens of a stream; one of them is used up in every turn of the loop.\<close>

definition tokens_of :: "string list \<Rightarrow> Token list" where
  "tokens_of args = concat (map split_word (filter (\<lambda>s. s \<noteq> []) args))"

definition tokens_left :: "TokenStream \<Rightarrow> Token list" where
  "tokens_left ts = m_tokenBuffer ts @ tokens_of (tl (unread ts))"

lemma tokens_of_skip: "(case dropWhile (\<lambda>s. s = []) args of [] \<Rightarrow> [] | nxt # _ \<Rightarrow> split_word nxt) @
    tokens_of (tl (dropWhile (\<lambda>s. s = []) args)) = tokens_of args"
  by (induction args) (auto simp: tokens_of_def)

lemma tokens_of_load: "m_tokenBuffer (loadBuffer ts) @ tokens_of (tl (unread (loadBuffer ts))) = tokens_of (unread ts)"
  by (simp add: loadBuffer_def Let_def tokens_of_skip)

lemma tokens_left_new: "tokens_left (new_TokenStream args) = tokens_of args"
  using tokens_of_load [of "\<lparr>unread = args, m_tokenBuffer = []\<rparr>"] by (simp add: tokens_left_def new_TokenStream_def)

lemma tokens_left_next: "m_tokenBuffer ts \<noteq> [] \<Longrightarrow> tokens_left (next_token ts) = tl (tokens_left ts)"
  using tokens_of_load [of "ts\<lparr>unread := tl (unread ts)\<rparr>"]
  by (cases "m_tokenBuffer ts"; cases "tl (m_tokenBuffer ts)") (auto simp: tokens_left_def next_token_def)

lemma option_set_ok:
  assumes "option_set rs tokens = Inr (Result_ok (ty, tokens1), s1)"
  shows "ty = ShortCircuitAll \<or> ty = Matched \<and> tokens1 = next_token tokens"
  using assms by (cases "fst rs") (auto simp: option_set_def Let_def split: prod.splits if_splits)

text \<open>A parser that does not match leaves the stream, one that matches uses up a token.\<close>

definition uses_up :: "ParseResultType \<Rightarrow> TokenStream \<Rightarrow> TokenStream \<Rightarrow> bool" where
  "uses_up ty tokens tokens1 \<longleftrightarrow> (ty = NoMatch \<longrightarrow> tokens1 = tokens) \<and>
     (ty \<noteq> NoMatch \<and> ty \<noteq> ShortCircuitAll \<longrightarrow> length (tokens_left tokens1) < length (tokens_left tokens))"

lemma this_token_buffer: "this_token ts = Inr t \<Longrightarrow> m_tokenBuffer ts \<noteq> [] \<and> tokens_left ts \<noteq> []"
  by (auto simp: this_token_def tokens_left_def split: list.splits)

lemma next_token_less: "this_token ts = Inr t \<Longrightarrow> length (tokens_left (next_token ts)) < length (tokens_left ts)"
  using this_token_buffer [of ts t] by (simp add: tokens_left_next)

lemma Arg_parse_uses:
  assumes "Arg_parse arg tokens s = Inr (Result_ok (ty, tokens1), s1)"
  shows "uses_up ty tokens tokens1"
  using assms next_token_less [of tokens]
  by (auto simp: Arg_parse_def uses_up_def bindE_eq_Inr Let_def split: if_splits BoundRef.splits prod.splits BasicResult.splits)

lemma Opt_parse_uses:
  assumes "Opt_parse opt tokens s = Inr (Result_ok (ty, tokens1), s1)"
  shows "uses_up ty tokens tokens1"
proof -
  have f: "failure r \<noteq> Inr (Result_ok x)" for r :: "unit BasicResult" and x :: ParseState by (cases r) auto
  from assms consider "ty = NoMatch" "tokens1 = tokens"
    | t rs where "this_token tokens = Inr t" "option_set rs tokens = Inr (Result_ok (ty, tokens1), s1)"
    | t t' rs where "this_token tokens = Inr t" "this_token (next_token tokens) = Inr t'"
        "option_set rs (next_token tokens) = Inr (Result_ok (ty, tokens1), s1)"
    by (auto simp: Opt_parse_def Let_def bindE_eq_Inr f split: BasicResult.splits if_splits BoundRef.splits) (metis prod.collapse)+
  then show ?thesis
  proof cases
    case (2 t rs)
    with option_set_ok [OF 2(2)] next_token_less [OF 2(1)] show ?thesis by (auto simp: uses_up_def)
  next
    case (3 t t' rs)
    with option_set_ok [OF 3(3)] next_token_less [OF 3(1)] next_token_less [OF 3(2)] show ?thesis by (auto simp: uses_up_def)
  qed (simp add: uses_up_def)
qed

lemma sub_parse_uses: "sub_parse parser tokens s = Inr (Result_ok (ty, tokens1), s1) \<Longrightarrow> uses_up ty tokens tokens1"
  by (cases parser) (auto dest: Arg_parse_uses Opt_parse_uses)

lemma try_parsers_uses:
  assumes "try_parsers infos tokens s = Inr (Result_ok (ty, tokens1), parsed, infos1, s1)"
  shows "uses_up ty tokens tokens1 \<and> parsed = (ty \<noteq> NoMatch)"
  using assms
proof (induction infos tokens s arbitrary: infos1 rule: try_parsers.induct)
  case (2 parser n infos tokens s)
  show ?case
  proof (cases "cardinality parser = 0 \<or> n < cardinality parser")
    case True
    with 2(3) obtain result s2 where p: "sub_parse parser tokens s = Inr (result, s2)" by (auto simp: bindE_eq_Inr)
    with 2(3) True obtain ty2 tokens2 where r: "result = Result_ok (ty2, tokens2)" by (cases result) auto
    note u = sub_parse_uses [OF p [unfolded r]]
    show ?thesis
    proof (cases "ty2 = NoMatch")
      case nomatch: True
      with u have t: "tokens2 = tokens" by (simp add: uses_up_def)
      from 2(3) True p r nomatch t obtain infos2 where
        "try_parsers infos tokens s2 = Inr (Result_ok (ty, tokens1), parsed, infos2, s1)" by (auto simp: bindE_eq_Inr)
      with 2(1) [OF True, of "(result, s2)" result s2 "(ty2, tokens2)" ty2 tokens2] r nomatch t p show ?thesis by simp
    qed (use 2(3) True p r u in auto)
  next
    case False
    with 2(3) obtain infos2 where "try_parsers infos tokens s = Inr (Result_ok (ty, tokens1), parsed, infos2, s1)"
      by (auto simp: bindE_eq_Inr)
    with 2(2) [OF False] show ?thesis by simp
  qed
qed (simp add: uses_up_def)

text \<open>The outer loop; \<open>ty\<close> is the kind of the last result.\<close>

function parse_loop :: "ParseResultType \<Rightarrow> ('s sub_parser \<times> nat) list \<Rightarrow> TokenStream \<Rightarrow> 's \<Rightarrow> (InternalParseResult \<times> 's) res" where
  "parse_loop ty infos tokens s =
     (if \<not> has_tokens tokens then Inr (Result_ok (ty, tokens), s)
      else bindE (try_parsers infos tokens s) (\<lambda>(result, parsed, infos1, s1). case result of
          Result_ok (ty1, tokens1) \<Rightarrow>
            if ty1 = ShortCircuitAll then Inr (result, s1)
            else if \<not> parsed then bindE (this_token tokens1) (\<lambda>token. Inr (RuntimeError (''Unrecognised token: '' @ token_text token), s1))
            else parse_loop ty1 infos1 tokens1 s1
        | _ \<Rightarrow> Inr (result, s1)))"
  by pat_completeness auto

termination
  by (relation "measure (\<lambda>(ty, infos, tokens, s). length (tokens_left tokens))")
    (auto dest!: try_parsers_uses simp: uses_up_def)

declare parse_loop.simps [simp del]

definition Parser_parse :: "'s Parser \<Rightarrow> string \<Rightarrow> TokenStream \<Rightarrow> 's \<Rightarrow> (InternalParseResult \<times> 's Parser \<times> 's) res" where
  "Parser_parse p exeName tokens s =
     (let parseInfos = map (\<lambda>opt. (An_opt opt, 0)) (m_options p) @ map (\<lambda>arg. (An_arg arg, 0)) (m_args p);
          (_, exe, s1) = ExeName_set exeName (m_exeName p) s
      in bindE (parse_loop NoMatch parseInfos tokens s1) (\<lambda>(result, s2). Inr (result, p\<lparr>m_exeName := exe\<rparr>, s2)))"

record Args =
  a_exeName :: string
  a_args :: "string list"

definition new_Args :: "string list \<Rightarrow> Args res" where
  "new_Args argv = (case argv of [] \<Rightarrow> Inl Undefined | exe # args \<Rightarrow> Inr \<lparr>a_exeName = exe, a_args = args\<rparr>)"

definition parse_args :: "'s Parser \<Rightarrow> Args \<Rightarrow> 's \<Rightarrow> (InternalParseResult \<times> 's Parser \<times> 's) res" where
  "parse_args p args = Parser_parse p (a_exeName args) (new_TokenStream (a_args args))"

text \<open>The option for help stops the parse.\<close>

definition Help :: "((bool \<Rightarrow> bool) \<Rightarrow> 's \<Rightarrow> 's) \<Rightarrow> 's Opt" where
  "Help showHelpFlag = \<lparr>m_ref = BoundFlagLambda (\<lambda>flag s. (Result_ok ShortCircuitAll, showHelpFlag (\<lambda>_. flag) s)),
     m_hint = [], m_description = ''display usage information'', m_optNames = [''-?'', ''-h'', ''--help'']\<rparr>"

subsection \<open>The usage\<close>

text \<open>
  \<open>writeToStream\<close>: the arguments, in brackets from the first that is optional on (all of them are, none is made
  required), then a row of two columns for every option. Printing a column may not end, so the
  result is an option.
\<close>

fun write_args :: "bool \<Rightarrow> 's ParserRefImpl list \<Rightarrow> string" where
  "write_args first [] = []"
| "write_args first (arg # args) = (if first then ''['' else '' '') @ ''<'' @ m_hint arg @ ''>'' @
     (if ref_cardinality arg = 0 then '' ... '' else []) @ write_args False args"

definition write_head :: "'s Parser \<Rightarrow> string" where
  "write_head p = (if m_name (m_exeName p) = [] then []
     else ''usage:'' @ [CHR 0x0A] @ ''  '' @ m_name (m_exeName p) @ '' '' @ write_args True (m_args p) @
       (if m_args p \<noteq> [] then '']'' else []) @ (if m_options p \<noteq> [] then '' options'' else []) @
       [CHR 0x0A, CHR 0x0A] @ ''where options are:'' @ [CHR 0x0A])"

definition opt_width :: "HelpColumns list \<Rightarrow> nat" where
  "opt_width rows = min (fold (\<lambda>cols w. max w (length (help_left cols) + 2)) rows 0) (80 div 2)"

definition help_row :: "nat \<Rightarrow> HelpColumns \<Rightarrow> Columns res" where
  "help_row optWidth cols =
     bindE (Column_width optWidth (new_Column (help_left cols))) (\<lambda>left.
     bindE (Spacer 4) (\<lambda>spacer.
     bindE (Column_width (80 - 7 - optWidth) (new_Column (help_right cols))) (\<lambda>right.
       Inr (Columns_plus (Column_plus (Column_indent 2 left) spacer) right))))"

fun write_rows :: "nat \<Rightarrow> HelpColumns list \<Rightarrow> string \<Rightarrow> string res option" where
  "write_rows optWidth [] os = Some (Inr os)"
| "write_rows optWidth (cols # rows) os = (case help_row optWidth cols of
       Inl e \<Rightarrow> Some (Inl e)
     | Inr row \<Rightarrow> (case print_Columns row os of
           None \<Rightarrow> None
         | Some (Inl e) \<Rightarrow> Some (Inl e)
         | Some (Inr os1) \<Rightarrow> write_rows optWidth rows (os1 @ [CHR 0x0A])))"

definition Parser_writeToStream :: "'s Parser \<Rightarrow> string \<Rightarrow> string res option" where
  "Parser_writeToStream p os = (let rows = Parser_getHelpColumns p
     in write_rows (opt_width rows) rows (os @ write_head p))"

subsection \<open>The stream as a list of tokens\<close>

definition good_stream :: "TokenStream \<Rightarrow> bool" where
  "good_stream ts \<longleftrightarrow> (m_tokenBuffer ts = [] \<longleftrightarrow> unread ts = [])"

lemma split_word_nonempty [simp]: "nxt \<noteq> [] \<Longrightarrow> split_word nxt \<noteq> []"
  by (auto simp: split_word_def Let_def)

lemma dropWhile_first: "dropWhile P xs = y # ys \<Longrightarrow> \<not> P y"
  by (metis hd_dropWhile list.distinct(1) list.sel(1))

lemma good_load [simp]: "good_stream (loadBuffer ts)"
proof (cases "dropWhile (\<lambda>s. s = []) (unread ts)")
  case Nil
  then show ?thesis unfolding good_stream_def loadBuffer_def Let_def by (simp only: TokenStream.select_convs list.case simp_thms)
next
  case (Cons nxt rest)
  then have "nxt \<noteq> []" by (rule dropWhile_first)
  with Cons show ?thesis unfolding good_stream_def loadBuffer_def Let_def by simp
qed

lemma good_new [simp]: "good_stream (new_TokenStream args)"
  by (simp add: new_TokenStream_def)

lemma good_next: "good_stream ts \<Longrightarrow> good_stream (next_token ts)"
  by (cases "m_tokenBuffer ts"; cases "tl (m_tokenBuffer ts)") (auto simp: next_token_def good_stream_def[of ts] good_stream_def[of "ts\<lparr>m_tokenBuffer := x\<rparr>" for x])

lemma good_empty: "good_stream ts \<Longrightarrow> tokens_left ts = [] \<longleftrightarrow> \<not> has_tokens ts"
  by (auto simp: good_stream_def tokens_left_def has_tokens_def tokens_of_def)

lemma good_this: "good_stream ts \<Longrightarrow> tokens_left ts = t # rest \<Longrightarrow>
    has_tokens ts \<and> this_token ts = Inr t \<and> tokens_left (next_token ts) = rest \<and> good_stream (next_token ts)"
  using good_next [of ts] tokens_left_next [of ts]
  by (auto simp: good_stream_def [of ts] tokens_left_def [of ts] has_tokens_def this_token_def tokens_of_def split: list.splits)

subsection \<open>Settings\<close>

text \<open>
  What somebody writes: flags, options with a value in the next word or behind a sign of equality, and texts that
  are no options.
\<close>

datatype setting = Set_flag string | Set_value string string bool | Set_text string

fun written :: "setting \<Rightarrow> string list" where
  "written (Set_flag n) = [n]"
| "written (Set_value n v joined) = (if joined then [n @ ''='' @ v] else [n, v])"
| "written (Set_text t) = [t]"

definition option_word :: "string \<Rightarrow> bool" where
  "option_word n \<longleftrightarrow> n \<noteq> [] \<and> n ! 0 = CHR ''-'' \<and> (\<forall>c \<in> set n. c \<notin> set '' :='') \<and> (length n \<le> 2 \<or> n ! 1 = CHR ''-'')"

definition plain_word :: "string \<Rightarrow> bool" where
  "plain_word t \<longleftrightarrow> t \<noteq> [] \<and> t ! 0 \<noteq> CHR ''-''"

fun well_written :: "setting \<Rightarrow> bool" where
  "well_written (Set_flag n) \<longleftrightarrow> option_word n"
| "well_written (Set_value n v joined) \<longleftrightarrow> option_word n \<and> (joined \<or> plain_word v)"
| "well_written (Set_text t) \<longleftrightarrow> plain_word t"

fun setting_tokens :: "setting \<Rightarrow> Token list" where
  "setting_tokens (Set_flag n) = [option_token n]"
| "setting_tokens (Set_value n v joined) = [option_token n, argument_token v]"
| "setting_tokens (Set_text t) = [argument_token t]"

lemma split_option_word: "option_word n \<Longrightarrow> split_word n = [option_token n]"
  by (cases n rule: list.exhaust; cases "tl n")
    (auto simp: option_word_def split_word_def Let_def isOptPrefix_def char_at_def find_if_end find_if_found)

lemma find_if_append: "\<forall>x \<in> set xs. \<not> P x \<Longrightarrow> P y \<Longrightarrow> find_if P (xs @ y # ys) = length xs"
  by (induction xs) auto

lemma split_joined:
  assumes "option_word n"
  shows "split_word (n @ CHR ''='' # v) = [option_token n, argument_token v]"
proof -
  have "find_if (\<lambda>c. c \<in> set '' :='') (n @ CHR ''='' # v) = length n"
    using assms by (intro find_if_append) (auto simp: option_word_def)
  with assms show ?thesis
    by (cases n) (simp_all add: option_word_def split_word_def Let_def isOptPrefix_def char_at_def)
qed

lemma split_plain_word: "plain_word t \<Longrightarrow> split_word t = [argument_token t]"
  by (cases t) (simp_all add: plain_word_def split_word_def isOptPrefix_def char_at_def)

lemma written_tokens:
  assumes "well_written st"
  shows "tokens_of (written st) = setting_tokens st"
proof (cases st)
  case (Set_flag n)
  with assms have "n \<noteq> []" "split_word n = [option_token n]" by (simp_all add: split_option_word) (simp add: option_word_def)
  with Set_flag show ?thesis by (simp add: tokens_of_def)
next
  case (Set_value n v joined)
  with assms have n: "n \<noteq> []" "split_word n = [option_token n]" "split_word (n @ CHR ''='' # v) = [option_token n, argument_token v]"
    by (simp_all add: split_option_word split_joined) (simp add: option_word_def)
  have "\<not> joined \<Longrightarrow> v \<noteq> [] \<and> split_word v = [argument_token v]"
    using assms Set_value by (simp add: split_plain_word) (simp add: plain_word_def)
  with n Set_value show ?thesis by (simp add: tokens_of_def)
next
  case (Set_text t)
  with assms have "t \<noteq> []" "split_word t = [argument_token t]" by (simp_all add: split_plain_word) (simp add: plain_word_def)
  with Set_text show ?thesis by (simp add: tokens_of_def)
qed

lemma all_written_tokens: "\<forall>st \<in> set sts. well_written st \<Longrightarrow>
    tokens_of (concat (map written sts)) = concat (map setting_tokens sts)"
  using written_tokens by (induction sts) (auto simp: tokens_of_def)

text \<open>What a setting means: the first option that has the name is set.\<close>

definition option_at :: "'s Parser \<Rightarrow> string \<Rightarrow> nat" where
  "option_at p n = find_if (\<lambda>opt. isMatch opt n) (m_options p)"

fun set_ok :: "ParserResult \<times> 's \<Rightarrow> 's option" where
  "set_ok (Result_ok ty, s) = (if ty = ShortCircuitAll then None else Some s)"
| "set_ok (_, s) = None"

lemma set_okE:
  assumes "set_ok rs = Some s1"
  obtains ty where "rs = (Result_ok ty, s1)" and "ty \<noteq> ShortCircuitAll"
  using assms by (cases rs rule: set_ok.cases) (auto split: if_splits)

fun set_one :: "'s Parser \<Rightarrow> setting \<Rightarrow> 's \<Rightarrow> 's option" where
  "set_one p (Set_flag n) s = (if option_at p n = length (m_options p) then None
     else case m_ref (m_options p ! option_at p n) of BoundFlag f \<Rightarrow> set_ok (f True s) | _ \<Rightarrow> None)"
| "set_one p (Set_value n v joined) s = (if option_at p n = length (m_options p) then None
     else case m_ref (m_options p ! option_at p n) of BoundValue _ f \<Rightarrow> set_ok (f v s) | _ \<Rightarrow> None)"
| "set_one p (Set_text t) s = (case m_args p of arg # _ \<Rightarrow>
       (case m_ref arg of BoundValue True f \<Rightarrow> (case f t s of (Result_ok _, s1) \<Rightarrow> Some s1 | _ \<Rightarrow> None) | _ \<Rightarrow> None)
     | [] \<Rightarrow> None)"

fun set_all :: "'s Parser \<Rightarrow> setting list \<Rightarrow> 's \<Rightarrow> 's option" where
  "set_all p [] s = Some s"
| "set_all p (st # sts) s = Option.bind (set_one p st s) (set_all p sts)"

fun names_set :: "setting list \<Rightarrow> string list" where
  "names_set [] = []"
| "names_set (Set_flag n # sts) = n # names_set sts"
| "names_set (Set_value n v joined # sts) = n # names_set sts"
| "names_set (Set_text t # sts) = names_set sts"

text \<open>An option that is no container is set at most once.\<close>

definition once :: "'s Parser \<Rightarrow> setting list \<Rightarrow> bool" where
  "once p sts \<longleftrightarrow> distinct (filter (\<lambda>i. \<not> isContainer (m_ref (m_options p ! i))) (map (option_at p) (names_set sts)))"

subsection \<open>The parser sets what is written\<close>

text \<open>The parsers of \<open>p\<close> with their counts.\<close>

definition counts_for :: "'s Parser \<Rightarrow> ('s sub_parser \<times> nat) list \<Rightarrow> bool" where
  "counts_for p infos \<longleftrightarrow> map fst infos = map An_opt (m_options p) @ map An_arg (m_args p)"

definition unused :: "'s Parser \<Rightarrow> setting list \<Rightarrow> ('s sub_parser \<times> nat) list \<Rightarrow> bool" where
  "unused p sts infos \<longleftrightarrow> (\<forall>i \<in> set (map (option_at p) (names_set sts)).
     i < length (m_options p) \<and> \<not> isContainer (m_ref (m_options p ! i)) \<longrightarrow> snd (infos ! i) = 0)"

lemma try_skip:
  assumes "\<And>q k. (q, k) \<in> set pre \<Longrightarrow> sub_parse q tokens s = Inr (Result_ok (NoMatch, tokens), s)"
  shows "try_parsers (pre @ infos) tokens s =
    bindE (try_parsers infos tokens s) (\<lambda>(r, parsed, infos1, s1). Inr (r, parsed, pre @ infos1, s1))"
  using assms
proof (induction pre)
  case Nil
  then show ?case by (cases "try_parsers infos tokens s") auto
next
  case (Cons q pre)
  obtain parser k where q: "q = (parser, k)" by (cases q)
  from Cons.prems [of parser k] q have n: "sub_parse parser tokens s = Inr (Result_ok (NoMatch, tokens), s)" by simp
  have "try_parsers (pre @ infos) tokens s =
    bindE (try_parsers infos tokens s) (\<lambda>(r, parsed, infos1, s1). Inr (r, parsed, pre @ infos1, s1))"
    by (rule Cons.IH) (metis Cons.prems list.set_intros(2))
  with q n show ?case by (cases "try_parsers infos tokens s") (auto split: prod.splits)
qed

lemma option_declines:
  assumes "good_stream tokens" and "tokens_left tokens = t # rest" and "Opt_validate opt = Result_ok ()"
    and "token_type t \<noteq> Token_Option \<or> \<not> isMatch opt (token_text t)"
  shows "Opt_parse opt tokens s = Inr (Result_ok (NoMatch, tokens), s)"
  using assms(3,4) good_this [OF assms(1,2)] by (simp add: Opt_parse_def)

lemma try_at:
  assumes "i < length infos" and "\<And>j. j < i \<Longrightarrow> sub_parse (fst (infos ! j)) tokens s = Inr (Result_ok (NoMatch, tokens), s)"
    and "sub_parse (fst (infos ! i)) tokens s = Inr (Result_ok (Matched, tokens1), s1)"
    and "cardinality (fst (infos ! i)) = 0 \<or> snd (infos ! i) < cardinality (fst (infos ! i))"
  shows "try_parsers infos tokens s =
    Inr (Result_ok (Matched, tokens1), True, infos[i := (fst (infos ! i), snd (infos ! i) + 1)], s1)"
proof -
  obtain parser k where pk: "infos ! i = (parser, k)" by (cases "infos ! i")
  have split: "infos = take i infos @ (parser, k) # drop (Suc i) infos"
    using assms(1) pk by (metis id_take_nth_drop)
  have "sub_parse q tokens s = Inr (Result_ok (NoMatch, tokens), s)" if "(q, n) \<in> set (take i infos)" for q n
  proof -
    from that assms(1) obtain j where "j < i" "infos ! j = (q, n)" by (auto simp: in_set_conv_nth)
    with assms(2) [of j] show ?thesis by simp
  qed
  then have "try_parsers (take i infos @ (parser, k) # drop (Suc i) infos) tokens s =
      bindE (try_parsers ((parser, k) # drop (Suc i) infos) tokens s)
      (\<lambda>(r, parsed, infos1, s1). Inr (r, parsed, take i infos @ infos1, s1))" by (rule try_skip)
  with split have "try_parsers infos tokens s = bindE (try_parsers ((parser, k) # drop (Suc i) infos) tokens s)
      (\<lambda>(r, parsed, infos1, s1). Inr (r, parsed, take i infos @ infos1, s1))" by (simp only:)
  also have "\<dots> = Inr (Result_ok (Matched, tokens1), True, take i infos @ (parser, k + 1) # drop (Suc i) infos, s1)"
    using assms(3,4) pk by simp
  also have "take i infos @ (parser, k + 1) # drop (Suc i) infos = infos[i := (parser, k + 1)]"
    using assms(1) by (simp add: upd_conv_take_nth_drop)
  finally show ?thesis using pk by simp
qed

lemma counts_for_nth:
  assumes "counts_for p infos" and "i < length (m_options p)"
  shows "i < length infos \<and> fst (infos ! i) = An_opt (m_options p ! i)"
proof -
  from assms(1) have "length infos = length (m_options p) + length (m_args p)"
    unfolding counts_for_def by (metis length_append length_map)
  moreover have "map fst infos ! i = An_opt (m_options p ! i)"
    using assms unfolding counts_for_def by (simp add: nth_append)
  ultimately show ?thesis using assms(2) by simp
qed

lemma counts_for_update: "counts_for p infos \<Longrightarrow> i < length infos \<Longrightarrow> counts_for p (infos[i := (fst (infos ! i), n)])"
  by (simp add: counts_for_def map_update) (metis list_update_id nth_map)

text \<open>A setting of an option: the options before it decline, and its own is set.\<close>

lemma try_option:
  assumes p: "counts_for p infos" "\<And>opt. opt \<in> set (m_options p) \<Longrightarrow> Opt_validate opt = Result_ok ()"
    and ts: "good_stream tokens" "tokens_left tokens = option_token n # rest"
    and i: "option_at p n < length (m_options p)"
    and set: "Opt_parse (m_options p ! option_at p n) tokens s = Inr (Result_ok (Matched, tokens1), s1)"
    and n: "isContainer (m_ref (m_options p ! option_at p n)) \<or> snd (infos ! option_at p n) = 0"
  shows "try_parsers infos tokens s = Inr (Result_ok (Matched, tokens1), True,
    infos[option_at p n := (fst (infos ! option_at p n), snd (infos ! option_at p n) + 1)], s1)"
proof (rule try_at)
  let ?i = "option_at p n"
  note at = counts_for_nth [OF p(1) i]
  show "?i < length infos" using at ..
  show "sub_parse (fst (infos ! ?i)) tokens s = Inr (Result_ok (Matched, tokens1), s1)" using at set by simp
  show "cardinality (fst (infos ! ?i)) = 0 \<or> snd (infos ! ?i) < cardinality (fst (infos ! ?i))"
    using at n by (auto simp: ref_cardinality_def)
next
  fix j assume j: "j < option_at p n"
  with i have "j < length (m_options p)" by simp
  moreover from j have "\<not> isMatch (m_options p ! j) n" unfolding option_at_def by (rule find_if_first)
  ultimately show "sub_parse (fst (infos ! j)) tokens s = Inr (Result_ok (NoMatch, tokens), s)"
    using counts_for_nth [OF p(1), of j] option_declines [OF ts p(2)] by simp
qed

lemma option_is_set:
  assumes ts: "good_stream tokens" "tokens_left tokens = setting_tokens st @ rest"
    and v: "Opt_validate (m_options p ! option_at p n) = Result_ok ()"
    and st: "st = Set_flag n \<or> (\<exists>v joined. st = Set_value n v joined)"
    and set: "set_one p st s = Some s1"
  shows "option_at p n < length (m_options p) \<and>
    (\<exists>tokens1. Opt_parse (m_options p ! option_at p n) tokens s = Inr (Result_ok (Matched, tokens1), s1) \<and>
      good_stream tokens1 \<and> tokens_left tokens1 = rest)"
proof -
  let ?o = "m_options p ! option_at p n"
  from st set have ne: "option_at p n \<noteq> length (m_options p)" by auto
  then have le: "option_at p n < length (m_options p)" unfolding option_at_def by (rule find_if_less)
  have m: "isMatch ?o n" using ne find_if_nth [of "\<lambda>opt. isMatch opt n" "m_options p"] by (simp add: option_at_def)
  from st show ?thesis
  proof (elim disjE exE)
    assume st: "st = Set_flag n"
    with ts(2) have t: "tokens_left tokens = option_token n # rest" by simp
    from st set ne obtain f ty where f: "m_ref ?o = BoundFlag f" "f True s = (Result_ok ty, s1)" "ty \<noteq> ShortCircuitAll"
      by (auto split: BoundRef.splits if_splits elim!: set_okE)
    with good_this [OF ts(1) t] v m le show ?thesis by (auto simp: Opt_parse_def option_set_def)
  next
    fix v joined
    assume st: "st = Set_value n v joined"
    with ts(2) have t: "tokens_left tokens = option_token n # argument_token v # rest" by simp
    from st set ne obtain c f ty where f: "m_ref ?o = BoundValue c f" "f v s = (Result_ok ty, s1)" "ty \<noteq> ShortCircuitAll"
      by (auto split: BoundRef.splits if_splits elim!: set_okE)
    note 1 = good_this [OF ts(1) t]
    with 1 have "good_stream (next_token tokens)" "tokens_left (next_token tokens) = argument_token v # rest" by auto
    note 2 = good_this [OF this]
    from 1 2 f v m le show ?thesis by (auto simp: Opt_parse_def option_set_def Let_def)
  qed
qed

lemma text_is_set:
  assumes p: "counts_for p infos" "\<And>opt. opt \<in> set (m_options p) \<Longrightarrow> Opt_validate opt = Result_ok ()"
    and ts: "good_stream tokens" "tokens_left tokens = argument_token t # rest"
    and set: "set_one p (Set_text t) s = Some s1"
  shows "\<exists>tokens1 n. try_parsers infos tokens s = Inr (Result_ok (Matched, tokens1), True,
      infos[length (m_options p) := (fst (infos ! length (m_options p)), n)], s1) \<and> length (m_options p) < length infos \<and>
    good_stream tokens1 \<and> tokens_left tokens1 = rest"
proof -
  let ?n = "length (m_options p)"
  from set obtain arg args f ty where a: "m_args p = arg # args" "m_ref arg = BoundValue True f" "f t s = (Result_ok ty, s1)"
    by (auto split: list.splits BoundRef.splits bool.splits prod.splits BasicResult.splits)
  have "length infos = ?n + length (m_args p)" "map fst infos ! ?n = An_arg arg"
    using p(1) a(1) unfolding counts_for_def by (metis length_append length_map, simp add: nth_append)
  with a(1) have at: "?n < length infos" "fst (infos ! ?n) = An_arg arg" by simp_all
  note this_is = good_this [OF ts]
  have "try_parsers infos tokens s = Inr (Result_ok (Matched, next_token tokens), True,
      infos[?n := (fst (infos ! ?n), snd (infos ! ?n) + 1)], s1)"
  proof (rule try_at)
    fix j assume "j < ?n"
    then show "sub_parse (fst (infos ! j)) tokens s = Inr (Result_ok (NoMatch, tokens), s)"
      using counts_for_nth [OF p(1), of j] option_declines [OF ts p(2)] by simp
  qed (use at a this_is in \<open>simp_all add: Arg_parse_def ref_cardinality_def\<close>)
  with at(1) this_is show ?thesis by blast
qed

lemma once_Cons:
  assumes "st = Set_flag n \<or> (\<exists>v joined. st = Set_value n v joined)" and "once p (st # sts)"
  shows "once p sts \<and> (isContainer (m_ref (m_options p ! option_at p n)) \<or> option_at p n \<notin> set (map (option_at p) (names_set sts)))"
  using assms by (auto simp: once_def split: if_splits)

lemma unused_update:
  assumes "unused p (st # sts) infos" and "st = Set_flag n \<or> (\<exists>v joined. st = Set_value n v joined)"
    and "isContainer (m_ref (m_options p ! option_at p n)) \<or> option_at p n \<notin> set (map (option_at p) (names_set sts))"
  shows "unused p sts (infos[option_at p n := x])"
  unfolding unused_def
proof (intro ballI impI)
  fix i
  assume i: "i \<in> set (map (option_at p) (names_set sts))"
    and c: "i < length (m_options p) \<and> \<not> isContainer (m_ref (m_options p ! i))"
  then have "i \<noteq> option_at p n" using assms(3) by metis
  moreover have "snd (infos ! i) = 0" using assms(1,2) i c by (auto simp: unused_def)
  ultimately show "snd (infos[option_at p n := x] ! i) = 0" by simp
qed

text \<open>The outer loop over the written settings.\<close>

lemma loop_sets:
  assumes v: "\<And>opt. opt \<in> set (m_options p) \<Longrightarrow> Opt_validate opt = Result_ok ()"
  shows "counts_for p infos \<Longrightarrow> unused p sts infos \<Longrightarrow> once p sts \<Longrightarrow> set_all p sts s = Some s' \<Longrightarrow> good_stream tokens \<Longrightarrow>
    tokens_left tokens = concat (map setting_tokens sts) \<Longrightarrow>
    \<exists>ty1 tokens1. parse_loop ty infos tokens s = Inr (Result_ok (ty1, tokens1), s') \<and> \<not> has_tokens tokens1 \<and> ty1 \<in> {ty, Matched}"
proof (induction sts arbitrary: infos s tokens ty)
  case Nil
  then have "\<not> has_tokens tokens" using good_empty by auto
  with Nil show ?case by (auto simp: parse_loop.simps)
next
  case (Cons st sts)
  from Cons.prems(4) obtain s1 where s1: "set_one p st s = Some s1" "set_all p sts s1 = Some s'"
    by (auto simp: bind_eq_Some_conv)
  let ?rest = "concat (map setting_tokens sts)"
  have ts: "tokens_left tokens = setting_tokens st @ ?rest" using Cons.prems(6) by simp
  have "\<exists>tokens1 infos1. try_parsers infos tokens s = Inr (Result_ok (Matched, tokens1), True, infos1, s1) \<and>
      counts_for p infos1 \<and> unused p sts infos1 \<and> once p sts \<and> good_stream tokens1 \<and> tokens_left tokens1 = ?rest \<and> has_tokens tokens"
  proof (cases "\<exists>t. st = Set_text t")
    case True
    then obtain t where t: "st = Set_text t" by blast
    with ts have tl: "tokens_left tokens = argument_token t # ?rest" by simp
    from text_is_set [OF Cons.prems(1) v Cons.prems(5) tl s1(1) [unfolded t]] obtain tokens1 n where
      r: "try_parsers infos tokens s = Inr (Result_ok (Matched, tokens1), True,
        infos[length (m_options p) := (fst (infos ! length (m_options p)), n)], s1)" "length (m_options p) < length infos"
        "good_stream tokens1" "tokens_left tokens1 = ?rest" by blast
    have "unused p sts (infos[length (m_options p) := (fst (infos ! length (m_options p)), n)])"
      using Cons.prems(2) t by (auto simp: unused_def nth_list_update)
    with r t Cons.prems(1,3) good_this [OF Cons.prems(5) tl] counts_for_update show ?thesis
      by (intro exI conjI) (auto simp: once_def)
  next
    case False
    then obtain n where n: "st = Set_flag n \<or> (\<exists>v joined. st = Set_value n v joined)" by (cases st) auto
    let ?i = "option_at p n"
    have le: "?i < length (m_options p)" using option_is_set [OF Cons.prems(5) ts _ n s1(1)] v Cons.prems(1) s1(1) n
      by (auto simp: option_at_def intro: find_if_less)
    from option_is_set [OF Cons.prems(5) ts v n s1(1)] le obtain tokens1 where
      o: "Opt_parse (m_options p ! ?i) tokens s = Inr (Result_ok (Matched, tokens1), s1)" "good_stream tokens1"
        "tokens_left tokens1 = ?rest" by auto
    obtain more where tl: "tokens_left tokens = option_token n # more" using ts n by auto
    note oc = once_Cons [OF n Cons.prems(3)]
    have "isContainer (m_ref (m_options p ! ?i)) \<or> snd (infos ! ?i) = 0"
      using Cons.prems(2) n le by (auto simp: unused_def)
    from try_option [OF Cons.prems(1) v Cons.prems(5) tl le o(1) this] have
      "try_parsers infos tokens s = Inr (Result_ok (Matched, tokens1), True,
        infos[?i := (fst (infos ! ?i), snd (infos ! ?i) + 1)], s1)" .
    moreover note unused_update [OF Cons.prems(2) n conjunct2 [OF oc], of "(fst (infos ! ?i), snd (infos ! ?i) + 1)"]
    ultimately show ?thesis
      using o(2,3) oc good_this [OF Cons.prems(5) tl] counts_for_update [OF Cons.prems(1)] counts_for_nth [OF Cons.prems(1) le] by blast
  qed
  then obtain tokens1 infos1 where r: "try_parsers infos tokens s = Inr (Result_ok (Matched, tokens1), True, infos1, s1)"
    "counts_for p infos1" "unused p sts infos1" "once p sts" "good_stream tokens1" "tokens_left tokens1 = ?rest" "has_tokens tokens" by blast
  from Cons.IH [OF r(2-4) s1(2) r(5,6), of Matched] r(1,7) show ?case by (subst parse_loop.simps) auto
qed

text \<open>
  The parser does what is written. Let every option of the parser have proper names, and let the words stand for
  settings, no option set twice unless it collects. Then the whole command line is used up, the parse succeeds,
  and the state is the one the settings give when they are made one after the other.
\<close>

lemma settings_applied:
  assumes v: "\<And>opt. opt \<in> set (m_options p) \<Longrightarrow> Opt_validate opt = Result_ok ()"
    and "tokens_of words = concat (map setting_tokens sts)" and "once p sts"
    and "ExeName_set exe (m_exeName p) s = (r, e1, s1)" and "set_all p sts s1 = Some s'"
  shows "\<exists>ty rest. parse_args p \<lparr>a_exeName = exe, a_args = words\<rparr> s =
      Inr (Result_ok (ty, rest), p\<lparr>m_exeName := e1\<rparr>, s') \<and> \<not> has_tokens rest \<and> ty \<noteq> ShortCircuitAll"
proof -
  let ?infos = "map (\<lambda>opt. (An_opt opt, 0)) (m_options p) @ map (\<lambda>arg. (An_arg arg, 0)) (m_args p)"
  have "counts_for p ?infos" by (simp add: counts_for_def)
  moreover have "unused p sts ?infos" by (auto simp: unused_def nth_append)
  moreover have "tokens_left (new_TokenStream words) = concat (map setting_tokens sts)" by (simp add: tokens_left_new assms(2))
  ultimately obtain ty rest where "parse_loop NoMatch ?infos (new_TokenStream words) s1 = Inr (Result_ok (ty, rest), s')"
    "\<not> has_tokens rest" "ty \<in> {NoMatch, Matched}"
    using loop_sets [OF v _ _ assms(3,5) good_new, of ?infos words NoMatch] by blast
  with assms(4) show ?thesis by (auto simp: parse_args_def Parser_parse_def)
qed

subsection \<open>The parser never stumbles\<close>

text \<open>References that are used as they are made: an argument is bound to a value.\<close>

definition sound_parser :: "'s Parser \<Rightarrow> bool" where
  "sound_parser p \<longleftrightarrow> list_all (\<lambda>arg. \<not> isFlag (m_ref arg)) (m_args p)"

lemma failure_defined: "(\<forall>x. r \<noteq> Result_ok x) \<Longrightarrow> \<exists>r'. failure r = Inr r' \<and> (\<forall>x. r' \<noteq> Result_ok x)"
  by (cases r) auto

text \<open>What a parser gives on a stream: a failure, or a stream whose tokens are at the end of those it was given.\<close>

definition safe_step :: "TokenStream \<Rightarrow> InternalParseResult \<Rightarrow> bool" where
  "safe_step tokens result \<longleftrightarrow> (\<forall>ty tokens1. result = Result_ok (ty, tokens1) \<longrightarrow>
     (ty = NoMatch \<longrightarrow> tokens1 = tokens) \<and> good_stream tokens1)"

lemma option_set_safe: "good_stream tokens \<Longrightarrow> \<exists>result s1. option_set rs tokens = Inr (result, s1) \<and> 
    (\<forall>ty tokens1. result = Result_ok (ty, tokens1) \<longrightarrow> ty \<noteq> NoMatch \<and> good_stream tokens1)"
  using good_next [of tokens] by (cases rs; cases "fst rs") (auto simp: option_set_def)

lemma sub_parse_safe:
  assumes "good_stream tokens" and "has_tokens tokens" and "case parser of An_opt _ \<Rightarrow> True | An_arg arg \<Rightarrow> \<not> isFlag (m_ref arg)"
  shows "\<exists>result s1. sub_parse parser tokens s = Inr (result, s1) \<and> safe_step tokens result"
proof -
  from assms(1,2) obtain t rest where tl: "tokens_left tokens = t # rest" using good_empty by (cases "tokens_left tokens") auto
  note this_is = good_this [OF assms(1) tl]
  show ?thesis
  proof (cases parser)
    case (An_arg arg)
    with assms(3) obtain c f where f: "m_ref arg = BoundValue c f" by (cases "m_ref arg") auto
    show ?thesis
    proof (cases "f (token_text t) s")
      case (Pair r s1)
      with An_arg f this_is assms(1) show ?thesis by (cases r) (auto simp: Arg_parse_def safe_step_def)
    qed
  next
    case (An_opt opt)
    show ?thesis
    proof (cases "Opt_validate opt = Result_ok () \<and> token_type t = Token_Option \<and> isMatch opt (token_text t)")
      case False
      with An_opt this_is assms(1) show ?thesis
        by (cases "Opt_validate opt") (auto simp: Opt_parse_def safe_step_def)
    next
      case True
      show ?thesis
      proof (cases "m_ref opt")
        case (BoundFlag f)
        with True An_opt this_is option_set_safe [OF assms(1), of "f True s"] show ?thesis
          by (auto simp: Opt_parse_def safe_step_def)
      next
        case (BoundValue c f)
        show ?thesis
        proof (cases rest)
          case Nil
          with this_is have "\<not> has_tokens (next_token tokens)" using good_empty by auto
          with True An_opt this_is BoundValue show ?thesis by (auto simp: Opt_parse_def safe_step_def Let_def)
        next
          case (Cons t2 rest2)
          with this_is have n: "good_stream (next_token tokens)" "tokens_left (next_token tokens) = t2 # rest2" by auto
          from good_this [OF n] option_set_safe [OF n(1), of "f (token_text t2) s"] True An_opt this_is BoundValue
          show ?thesis by (auto simp: Opt_parse_def safe_step_def Let_def)
        qed
      qed
    qed
  qed
qed

definition sound_infos :: "('s sub_parser \<times> nat) list \<Rightarrow> bool" where
  "sound_infos infos \<longleftrightarrow> (\<forall>(parser, n) \<in> set infos. case parser of An_opt _ \<Rightarrow> True | An_arg arg \<Rightarrow> \<not> isFlag (m_ref arg))"

lemma try_parsers_safe:
  assumes "good_stream tokens" and "has_tokens tokens" and "sound_infos infos"
  shows "\<exists>result parsed infos1 s1. try_parsers infos tokens s = Inr (result, parsed, infos1, s1) \<and>
    safe_step tokens result \<and> sound_infos infos1"
  using assms
proof (induction infos arbitrary: s)
  case Nil
  then have "try_parsers [] tokens s = Inr (Result_ok (NoMatch, tokens), False, [], s)" "safe_step tokens (Result_ok (NoMatch, tokens))"
    "sound_infos []" by (simp_all add: safe_step_def sound_infos_def)
  then show ?case by blast
next
  case (Cons q infos)
  obtain parser n where q: "q = (parser, n)" by (cases q)
  with Cons.prems(3) have ok: "case parser of An_opt _ \<Rightarrow> True | An_arg arg \<Rightarrow> \<not> isFlag (m_ref arg)" "sound_infos infos"
    by (simp_all add: sound_infos_def)
  from sub_parse_safe [OF Cons.prems(1,2) ok(1), of s] obtain result s1 where
    r: "sub_parse parser tokens s = Inr (result, s1)" "safe_step tokens result" by blast
  have more: "\<exists>result' parsed infos1 s3. try_parsers infos tokens s2 = Inr (result', parsed, infos1, s3) \<and>
      safe_step tokens result' \<and> sound_infos infos1" for s2 using Cons.IH [OF Cons.prems(1,2) ok(2)] .
  have out: "sound_infos ((parser, k) # infos1) = sound_infos infos1" for k infos1 using ok(1) by (simp add: sound_infos_def)
  from more [of s] obtain w where "try_parsers infos tokens s = Inr w" by blast
  moreover from more [of s1] obtain w1 where "try_parsers infos tokens s1 = Inr w1" by blast
  ultimately show ?case
    using r ok(2) q more [of s] more [of s1]
    by (cases result) (auto simp: out safe_step_def split: if_splits)
qed

lemma parse_loop_safe:
  assumes "good_stream tokens" and "sound_infos infos"
  shows "\<exists>result s1. parse_loop ty infos tokens s = Inr (result, s1) \<and>
    (\<forall>ty1 rest. result = Result_ok (ty1, rest) \<and> ty1 \<noteq> ShortCircuitAll \<longrightarrow> \<not> has_tokens rest)"
  using assms
proof (induction ty infos tokens s rule: parse_loop.induct)
  case (1 ty infos tokens s)
  show ?case
  proof (cases "has_tokens tokens")
    case True
    with 1(2,3) obtain result parsed infos1 s1 where
      t: "try_parsers infos tokens s = Inr (result, parsed, infos1, s1)" "safe_step tokens result" "sound_infos infos1"
      using try_parsers_safe [of tokens infos s] by blast
    show ?thesis
    proof (cases "\<exists>ty1 tokens1. result = Result_ok (ty1, tokens1) \<and> ty1 \<noteq> ShortCircuitAll")
      case False
      with t True show ?thesis by (cases result) (auto simp: parse_loop.simps)
    next
      case ok: True
      then obtain ty1 tokens1 where r: "result = Result_ok (ty1, tokens1)" "ty1 \<noteq> ShortCircuitAll" by blast
      with t have g: "good_stream tokens1" "ty1 = NoMatch \<longrightarrow> tokens1 = tokens" and u: "parsed = (ty1 \<noteq> NoMatch)"
        using try_parsers_uses [of infos tokens s ty1 tokens1] by (auto simp: safe_step_def)
      show ?thesis
      proof (cases parsed)
        case False
        with u g True 1(2) have "tokens1 = tokens" "tokens_left tokens \<noteq> []" by (auto simp: good_empty)
        then obtain tk rest where "tokens_left tokens1 = tk # rest" by (cases "tokens_left tokens") auto
        from good_this [OF g(1) this] t(1) r False True show ?thesis by (auto simp: parse_loop.simps [of ty])
      next
        case p: True
        from 1(1) True t(1,3) r p g(1)
        have "\<exists>result s2. parse_loop ty1 infos1 tokens1 s1 = Inr (result, s2) \<and>
          (\<forall>ty1 rest. result = Result_ok (ty1, rest) \<and> ty1 \<noteq> ShortCircuitAll \<longrightarrow> \<not> has_tokens rest)" by auto
        with t(1) r p True show ?thesis by (auto simp: parse_loop.simps [of ty])
      qed
    qed
  qed (auto simp: parse_loop.simps)
qed

text \<open>The parser ends, and without an error only when every token was used up or help was asked for.\<close>

lemma parse_ends:
  assumes "sound_parser p"
  shows "\<exists>result p' s'. parse_args p args s = Inr (result, p', s') \<and>
    (\<forall>ty rest. result = Result_ok (ty, rest) \<and> ty \<noteq> ShortCircuitAll \<longrightarrow> \<not> has_tokens rest)"
proof -
  let ?infos = "map (\<lambda>opt. (An_opt opt, 0)) (m_options p) @ map (\<lambda>arg. (An_arg arg, 0)) (m_args p)"
  obtain r e1 s1 where e: "ExeName_set (a_exeName args) (m_exeName p) s = (r, e1, s1)" by (cases "ExeName_set (a_exeName args) (m_exeName p) s")
  have "sound_infos ?infos" using assms by (auto simp: sound_infos_def sound_parser_def list_all_iff)
  from parse_loop_safe [OF good_new this, of NoMatch "a_args args" s1] e show ?thesis
    by (auto simp: parse_args_def Parser_parse_def)
qed

end
