(* ===== verification/Catch_Command_Line.thy ===== *)
theory Catch_Command_Line
  imports Catch_Clara Catch_Config
begin

section \<open>The command line of a test program\<close>

text \<open>
  \<open>makeCommandLineParser\<close>: the options, and what each does to the configuration. The files that can be read, the time, and
  the names of the reporters are the record \<open>surroundings\<close>.
\<close>

record surroundings =
  su_files :: "string \<Rightarrow> string option"
  su_time :: int
  su_factories :: "string list"

definition quoted :: "string \<Rightarrow> string" where
  "quoted s = CHR 0x27 # s @ [CHR 0x27]"

definition setWarning :: "string \<Rightarrow> ConfigData \<Rightarrow> ParserResult \<times> ConfigData" where
  "setWarning warning c =
     (let warningSet = (if warning = ''NoAssertions'' then WarnAbout_NoAssertions
                        else if warning = ''NoTests'' then WarnAbout_NoTests else WarnAbout_Nothing)
      in if warningSet = WarnAbout_Nothing then (RuntimeError (''Unrecognised warning: '' @ quoted warning), c)
         else (Result_ok Matched, c\<lparr>cd_warnings := cd_warnings c OR warningSet\<rparr>))"

text \<open>\<open>getline\<close>: the lines of a file; a newline at the end does not begin another one.\<close>

fun getlines :: "string \<Rightarrow> string \<Rightarrow> string list" where
  "getlines line [] = (if line = [] then [] else [line])"
| "getlines line (c # cs) = (if c = CHR 0x0A then line # getlines [] cs else getlines (line @ [c]) cs)"

definition test_line :: "string \<Rightarrow> string list" where
  "test_line l = (let line = trim l
     in if line \<noteq> [] \<and> \<not> startsWith_char line (CHR ''#'') then
          [if \<not> startsWith_char line (CHR 0x22) then CHR 0x22 # line @ [CHR 0x22] else line, '','']
        else [])"

definition loadTestNamesFromFile :: "(string \<Rightarrow> string option) \<Rightarrow> string \<Rightarrow> ConfigData \<Rightarrow> ParserResult \<times> ConfigData" where
  "loadTestNamesFromFile files filename c = (case files filename of
       None \<Rightarrow> (RuntimeError (''Unable to load input file: '' @ quoted filename), c)
     | Some content \<Rightarrow>
         let names = testsOrTags c @ concat (map test_line (getlines [] content))
         in (Result_ok Matched, c\<lparr>testsOrTags := (if names \<noteq> [] then butlast names else names)\<rparr>))"

definition setTestOrder :: "string \<Rightarrow> ConfigData \<Rightarrow> ParserResult \<times> ConfigData" where
  "setTestOrder order c =
     (if startsWith ''declared'' order then (Result_ok Matched, c\<lparr>cd_runOrder := Declared\<rparr>)
      else if startsWith ''lexical'' order then (Result_ok Matched, c\<lparr>cd_runOrder := LexicographicallySorted\<rparr>)
      else if startsWith ''random'' order then (Result_ok Matched, c\<lparr>cd_runOrder := Randomized\<rparr>)
      else (RuntimeError (''Unrecognised ordering: '' @ quoted order), c))"

definition setRngSeed :: "int \<Rightarrow> string \<Rightarrow> ConfigData \<Rightarrow> ParserResult \<times> ConfigData" where
  "setRngSeed now seed c =
     (if seed \<noteq> ''time'' then let (result, v) = convertInto_unsigned seed in (matched result, c\<lparr>cd_rngSeed := v\<rparr>)
      else (Result_ok Matched, c\<lparr>cd_rngSeed := word_of_int now\<rparr>))"

definition setColourUsage :: "string \<Rightarrow> ConfigData \<Rightarrow> ParserResult \<times> ConfigData" where
  "setColourUsage useColour c = (let mode = toLower useColour
     in if mode = ''yes'' then (Result_ok Matched, c\<lparr>cd_useColour := Colour_Yes\<rparr>)
        else if mode = ''no'' then (Result_ok Matched, c\<lparr>cd_useColour := Colour_No\<rparr>)
        else if mode = ''auto'' then (Result_ok Matched, c\<lparr>cd_useColour := Colour_Auto\<rparr>)
        else (RuntimeError (''colour mode must be one of: auto, yes or no. '' @ quoted useColour @ '' not recognised''), c))"

definition setWaitForKeypress :: "string \<Rightarrow> ConfigData \<Rightarrow> ParserResult \<times> ConfigData" where
  "setWaitForKeypress keypress c = (let keypressLc = toLower keypress
     in if keypressLc = ''never'' then (Result_ok Matched, c\<lparr>waitForKeypress := Keypress_Never\<rparr>)
        else if keypressLc = ''start'' then (Result_ok Matched, c\<lparr>waitForKeypress := BeforeStart\<rparr>)
        else if keypressLc = ''exit'' then (Result_ok Matched, c\<lparr>waitForKeypress := BeforeExit\<rparr>)
        else if keypressLc = ''both'' then (Result_ok Matched, c\<lparr>waitForKeypress := BeforeStartAndExit\<rparr>)
        else (RuntimeError (''keypress argument must be one of: never, start, exit or both. '' @ quoted keypress @ '' not recognised''), c))"

definition setVerbosity :: "string \<Rightarrow> ConfigData \<Rightarrow> ParserResult \<times> ConfigData" where
  "setVerbosity verbosity c = (let lcVerbosity = toLower verbosity
     in if lcVerbosity = ''quiet'' then (Result_ok Matched, c\<lparr>cd_verbosity := Quiet\<rparr>)
        else if lcVerbosity = ''normal'' then (Result_ok Matched, c\<lparr>cd_verbosity := Verbosity_Normal\<rparr>)
        else if lcVerbosity = ''high'' then (Result_ok Matched, c\<lparr>cd_verbosity := High\<rparr>)
        else (RuntimeError (''Unrecognised verbosity, '' @ quoted verbosity), c))"

definition setReporter :: "string list \<Rightarrow> string \<Rightarrow> ConfigData \<Rightarrow> ParserResult \<times> ConfigData" where
  "setReporter factories reporter c = (let lcReporter = toLower reporter
     in if lcReporter \<in> set factories then (Result_ok Matched, c\<lparr>reporterName := lcReporter\<rparr>)
        else (RuntimeError (''Unrecognized reporter, '' @ quoted reporter @ ''. Check available with --list-reporters''), c))"

definition convert_bool :: "string \<Rightarrow> unit BasicResult \<times> bool" where
  "convert_bool arg = (case convertInto_bool arg of Result_ok b \<Rightarrow> (Result_ok (), b)
     | LogicError m \<Rightarrow> (LogicError m, False) | RuntimeError m \<Rightarrow> (RuntimeError m, False))"

text \<open>The options, in their order.\<close>

definition an_option :: "'s BoundRef \<Rightarrow> string \<Rightarrow> string list \<Rightarrow> string \<Rightarrow> 's Opt" where
  "an_option ref hint names description = \<lparr>m_ref = ref, m_hint = hint, m_description = description, m_optNames = names\<rparr>"

definition cli_options :: "surroundings \<Rightarrow> ConfigData Opt list" where
  "cli_options su =
    [Help cd_showHelp_update,
     an_option (BoundFlagRef cd_listTests_update) [] [''-l'', ''--list-tests''] ''list all/matching test cases'',
     an_option (BoundFlagRef cd_listTags_update) [] [''-t'', ''--list-tags''] ''list all/matching tags'',
     an_option (BoundFlagRef showSuccessfulTests_update) [] [''-s'', ''--success''] ''include successful tests in output'',
     an_option (BoundFlagRef cd_shouldDebugBreak_update) [] [''-b'', ''--break''] ''break into debugger on failure'',
     an_option (BoundFlagRef noThrow_update) [] [''-e'', ''--nothrow''] ''skip exception tests'',
     an_option (BoundFlagRef cd_showInvisibles_update) [] [''-i'', ''--invisibles''] ''show invisibles (tabs, newlines)'',
     an_option (BoundValueRef convertInto_string outputFilename_update) ''filename'' [''-o'', ''--out''] ''output filename'',
     an_option (BoundLambda convertInto_string (setReporter (su_factories su))) ''name'' [''-r'', ''--reporter'']
       ''reporter to use (defaults to console)'',
     an_option (BoundValueRef convertInto_string cd_name_update) ''name'' [''-n'', ''--name''] ''suite name'',
     an_option (BoundFlagLambda (\<lambda>_ c. (Result_ok Matched, c\<lparr>cd_abortAfter := 1\<rparr>))) [] [''-a'', ''--abort''] ''abort at first failure'',
     an_option (BoundLambda (convertInto_signed 32) (\<lambda>x c. (Result_ok Matched, c\<lparr>cd_abortAfter := x\<rparr>))) ''no. failures''
       [''-x'', ''--abortx''] ''abort after x failures'',
     an_option (BoundLambda convertInto_string setWarning) ''warning name'' [''-w'', ''--warn''] ''enable warnings'',
     an_option (BoundLambda convert_bool (\<lambda>flag c. (Result_ok Matched,
         c\<lparr>cd_showDurations := (if flag then Always else Durations_Never)\<rparr>))) ''yes|no'' [''-d'', ''--durations''] ''show test durations'',
     an_option (BoundValueRef convertInto_double cd_minDuration_update) ''seconds'' [''-D'', ''--min-duration'']
       ''show test durations for tests taking at least the given number of seconds'',
     an_option (BoundLambda convertInto_string (loadTestNamesFromFile (su_files su))) ''filename'' [''-f'', ''--input-file'']
       ''load test names to run from a file'',
     an_option (BoundFlagRef filenamesAsTags_update) [] [''-#'', ''--filenames-as-tags''] ''adds a tag for the filename'',
     an_option (BoundVectorRef sectionsToRun_update) ''section name'' [''-c'', ''--section''] ''specify section to run'',
     an_option (BoundLambda convertInto_string setVerbosity) ''quiet|normal|high'' [''-v'', ''--verbosity''] ''set output verbosity'',
     an_option (BoundFlagRef cd_listReporters_update) [] [''--list-reporters''] ''list all reporters'',
     an_option (BoundLambda convertInto_string setTestOrder) ''decl|lex|rand'' [''--order''] ''test case order (defaults to decl)'',
     an_option (BoundLambda convertInto_string (setRngSeed (su_time su))) (quoted ''time'' @ ''|number'') [''--rng-seed'']
       ''set a specific seed for random numbers'',
     an_option (BoundLambda convertInto_string setColourUsage) ''yes|no'' [''--use-colour''] ''should output be colourised'',
     an_option (BoundFlagRef libIdentify_update) [] [''--libidentify''] ''report name and version according to libidentify standard'',
     an_option (BoundLambda convertInto_string setWaitForKeypress) ''never|start|exit|both'' [''--wait-for-keypress'']
       ''waits for a keypress before exiting'',
     an_option (BoundValueRef convertInto_unsigned cd_benchmarkSamples_update) ''samples'' [''--benchmark-samples'']
       ''number of samples to collect (default: 100)'',
     an_option (BoundValueRef convertInto_unsigned cd_benchmarkResamples_update) ''resamples'' [''--benchmark-resamples'']
       ''number of resamples for the bootstrap (default: 100000)'',
     an_option (BoundValueRef convertInto_double cd_benchmarkConfidenceInterval_update) ''confidence interval''
       [''--benchmark-confidence-interval''] ''confidence interval for the bootstrap (between 0 and 1, default: 0.95)'',
     an_option (BoundFlagRef cd_benchmarkNoAnalysis_update) [] [''--benchmark-no-analysis'']
       ''perform only measurements; do not perform any analysis'',
     an_option (BoundValueRef (convertInto_signed 64) cd_benchmarkWarmupTime_update) ''benchmarkWarmupTime'' [''--benchmark-warmup-time'']
       ''amount of time in milliseconds spent on warming up each test (default: 100)'']"

definition makeCommandLineParser :: "surroundings \<Rightarrow> ConfigData Parser" where
  "makeCommandLineParser su =
     with_arg \<lparr>m_ref = BoundVectorRef testsOrTags_update, m_hint = ''test name|pattern|tags'', m_description = ''which test or tests to use''\<rparr>
       (fold with_opt (cli_options su) (with_exeName (new_ExeName (BoundValueRef convertInto_string processName_update)) new_Parser))"

subsection \<open>What the command line does\<close>

lemma cli_parser: "m_options (makeCommandLineParser su) = cli_options su"
  "m_exeName (makeCommandLineParser su) = new_ExeName (BoundValueRef convertInto_string processName_update)"
  "m_args (makeCommandLineParser su) = [\<lparr>m_ref = BoundVectorRef testsOrTags_update, m_hint = ''test name|pattern|tags'',
     m_description = ''which test or tests to use''\<rparr>]"
proof -
  have f: "m_options (fold with_opt os p) = m_options p @ os \<and> m_exeName (fold with_opt os p) = m_exeName p \<and>
      m_args (fold with_opt os p) = m_args p" for os and p :: "ConfigData Parser"
    by (induction os arbitrary: p) (simp_all add: with_opt_def)
  show "m_options (makeCommandLineParser su) = cli_options su"
    "m_exeName (makeCommandLineParser su) = new_ExeName (BoundValueRef convertInto_string processName_update)"
    "m_args (makeCommandLineParser su) = [\<lparr>m_ref = BoundVectorRef testsOrTags_update, m_hint = ''test name|pattern|tags'',
     m_description = ''which test or tests to use''\<rparr>]"
    by (simp_all add: makeCommandLineParser_def with_arg_def with_exeName_def new_Parser_def f)
qed

text \<open>The names of the options, apart from what they are bound to.\<close>

lemma cli_names: "map m_optNames (cli_options su) =
    [[''-?'', ''-h'', ''--help''], [''-l'', ''--list-tests''], [''-t'', ''--list-tags''], [''-s'', ''--success''], [''-b'', ''--break''],
     [''-e'', ''--nothrow''], [''-i'', ''--invisibles''], [''-o'', ''--out''], [''-r'', ''--reporter''], [''-n'', ''--name''],
     [''-a'', ''--abort''], [''-x'', ''--abortx''], [''-w'', ''--warn''], [''-d'', ''--durations''], [''-D'', ''--min-duration''],
     [''-f'', ''--input-file''], [''-#'', ''--filenames-as-tags''], [''-c'', ''--section''], [''-v'', ''--verbosity''],
     [''--list-reporters''], [''--order''], [''--rng-seed''], [''--use-colour''], [''--libidentify''], [''--wait-for-keypress''],
     [''--benchmark-samples''], [''--benchmark-resamples''], [''--benchmark-confidence-interval''],
     [''--benchmark-no-analysis''], [''--benchmark-warmup-time'']]"
  by (simp add: cli_options_def an_option_def Help_def)

lemma cli_valid: "opt \<in> set (cli_options su) \<Longrightarrow> Opt_validate opt = Result_ok ()"
proof -
  assume "opt \<in> set (cli_options su)"
  then have "m_optNames opt \<in> set (map m_optNames (cli_options su))" by simp
  moreover have "list_all (\<lambda>names. names \<noteq> [] \<and> validate_names names = Result_ok ()) (map m_optNames (cli_options su))"
    unfolding cli_names by simp
  ultimately have "m_optNames opt \<noteq> [] \<and> validate_names (m_optNames opt) = Result_ok ()"
    unfolding list_all_iff by blast
  then show ?thesis by (simp add: Opt_validate_def)
qed

text \<open>The name of the program: what stands behind the last slash or backslash.\<close>

definition process_name :: "string \<Rightarrow> string" where
  "process_name exe = rev (takeWhile (\<lambda>c. c \<noteq> CHR 0x5C \<and> c \<noteq> CHR ''/'') (rev exe))"

lemma cli_exe: "ExeName_set exe (m_exeName (makeCommandLineParser su)) c = (Result_ok Matched,
    (m_exeName (makeCommandLineParser su))\<lparr>m_name := process_name exe\<rparr>, c\<lparr>processName := process_name exe\<rparr>)"
  by (simp add: ExeName_set_def cli_parser new_ExeName_def BoundValueRef_def convertInto_string_def process_name_def Let_def)

text \<open>The words of a command line that stand for settings, however they are written.\<close>

lemma words_applied:
  assumes "tokens_of words = concat (map setting_tokens sts)" and "once (makeCommandLineParser su) sts"
    and "set_all (makeCommandLineParser su) sts (c\<lparr>processName := process_name exe\<rparr>) = Some c'"
  shows "\<exists>ty rest p'. parse_args (makeCommandLineParser su) \<lparr>a_exeName = exe, a_args = words\<rparr> c =
    Inr (Result_ok (ty, rest), p', c') \<and> \<not> has_tokens rest"
  using settings_applied [OF _ assms(1,2) cli_exe assms(3)] cli_valid cli_parser(1) by metis


text \<open>
  C17: The command line of a test program is always parsed to an end, whatever its words are, without a failed assertion: no token is
  read where there is none. Without an error, either every token was used up, or help was asked for.
\<close>

theorem command_line_ends:
  "\<exists>result p' c'. parse_args (makeCommandLineParser su) args c = Inr (result, p', c') \<and>
    ((\<exists>ty rest. result = Result_ok (ty, rest) \<and> (ty = ShortCircuitAll \<or> \<not> has_tokens rest)) \<or>
     (\<exists>message. result = RuntimeError message \<or> result = LogicError message))"
proof -
  have "sound_parser (makeCommandLineParser su)" by (simp add: sound_parser_def cli_parser BoundVectorRef_def)
  from parse_ends [OF this, of args c] obtain result p' c' where
    r: "parse_args (makeCommandLineParser su) args c = Inr (result, p', c')"
      "\<forall>ty rest. result = Result_ok (ty, rest) \<and> ty \<noteq> ShortCircuitAll \<longrightarrow> \<not> has_tokens rest" by blast
  then show ?thesis by (cases result) auto
qed

theorem command_line_ends_witness:
  "\<exists>result p' c'. parse_args (makeCommandLineParser \<lparr>su_files = Map.empty, su_time = 0, su_factories = []\<rparr>)
    \<lparr>a_exeName = ''tests'', a_args = [''--nothrow'', ''-x'']\<rparr> default_ConfigData = Inr (result, p', c')"
  using command_line_ends [of "\<lparr>su_files = Map.empty, su_time = 0, su_factories = []\<rparr>"
    "\<lparr>a_exeName = ''tests'', a_args = [''--nothrow'', ''-x'']\<rparr>" default_ConfigData] by blast

subsection \<open>Surprises\<close>

text \<open>Which option a name belongs to.\<close>

lemma option_at_names: "option_at (makeCommandLineParser su) n =
    find_if (\<lambda>names. n \<in> set names) (map m_optNames (cli_options su))"
proof -
  have "find_if (\<lambda>opt. isMatch opt n) os = find_if (\<lambda>names. n \<in> set names) (map m_optNames os)" for os :: "ConfigData Opt list"
    by (induction os) (simp_all add: isMatch_def)
  then show ?thesis by (simp add: option_at_def cli_parser(1))
qed

lemma cli_places [simp]:
  "option_at (makeCommandLineParser su) ''--success'' = 3" "option_at (makeCommandLineParser su) ''-s'' = 3"
  "option_at (makeCommandLineParser su) ''-n'' = 9" "option_at (makeCommandLineParser su) ''--abortx'' = 11"
  "option_at (makeCommandLineParser su) ''-f'' = 15" "length (cli_options su) = 30"
  unfolding option_at_names cli_names by (simp_all add: cli_options_def)

lemma cli_refs [simp]:
  "m_ref (cli_options su ! 3) = BoundFlagRef showSuccessfulTests_update"
  "m_ref (cli_options su ! 9) = BoundValueRef convertInto_string cd_name_update"
  "m_ref (cli_options su ! 11) = BoundLambda (convertInto_signed 32) (\<lambda>x c. (Result_ok Matched, c\<lparr>cd_abortAfter := x\<rparr>))"
  "m_ref (cli_options su ! 15) = BoundLambda convertInto_string (loadTestNamesFromFile (su_files su))"
  by (simp_all add: cli_options_def an_option_def)

lemmas ref_defs = BoundFlagRef_def BoundValueRef_def BoundVectorRef_def BoundLambda_def convertInto_string_def

text \<open>
  A value that is joined to a flag is not refused and not used for the flag: \<open>--success=no\<close> switches the flag on, and
  the value becomes the name of a test to run.
\<close>

theorem flag_value_becomes_test:
  "\<exists>ty rest p'. parse_args (makeCommandLineParser su) \<lparr>a_exeName = exe, a_args = [''--success='' @ v]\<rparr> c =
    Inr (Result_ok (ty, rest), p', c\<lparr>processName := process_name exe, showSuccessfulTests := True,
      testsOrTags := testsOrTags c @ [v]\<rparr>) \<and> \<not> has_tokens rest"
proof (rule words_applied [where sts = "[Set_flag ''--success'', Set_text v]"])
  have "split_word (''--success'' @ CHR ''='' # v) = [option_token ''--success'', argument_token v]"
    by (rule split_joined) (simp add: option_word_def)
  then show "tokens_of [''--success='' @ v] = concat (map setting_tokens [Set_flag ''--success'', Set_text v])"
    by (simp add: tokens_of_def)
qed (simp_all add: once_def cli_parser ref_defs)

text \<open>
  A file without test names takes a test name away. \<open>loadTestNamesFromFile\<close> removes the last entry as the comma behind the names
  it has read, also when it has read none: a test that was named before the file is forgotten, and
  the command line selects what it would without any test name.
\<close>

theorem input_file_forgets_test:
  assumes "plain_word t" and "plain_word f" and "su_files su f = Some content"
    and "concat (map test_line (getlines [] content)) = []"
  shows "\<exists>ty rest p'. parse_args (makeCommandLineParser su) \<lparr>a_exeName = exe, a_args = [t, ''-f'', f]\<rparr> c =
    Inr (Result_ok (ty, rest), p', c\<lparr>processName := process_name exe\<rparr>) \<and> \<not> has_tokens rest"
proof (rule words_applied [where sts = "[Set_text t, Set_value ''-f'' f False]"])
  have "well_written (Set_value ''-f'' f False)" using assms(2) by (simp add: option_word_def)
  with assms(1) show "tokens_of [t, ''-f'', f] = concat (map setting_tokens [Set_text t, Set_value ''-f'' f False])"
    using all_written_tokens [of "[Set_text t, Set_value ''-f'' f False]"] by simp
qed (use assms(3,4) in \<open>cases c, simp_all add: once_def cli_parser ref_defs loadTestNamesFromFile_def
    del: concat_eq_Nil_conv\<close>)

theorem input_file_forgets_test_witness:
  "\<exists>ty rest p'. parse_args (makeCommandLineParser \<lparr>su_files = [''none.txt'' \<mapsto> ''# none''], su_time = 0, su_factories = []\<rparr>)
      \<lparr>a_exeName = ''tests'', a_args = [''book'', ''-f'', ''none.txt'']\<rparr> default_ConfigData =
    Inr (Result_ok (ty, rest), p', default_ConfigData\<lparr>processName := process_name ''tests''\<rparr>)"
proof -
  have "plain_word ''book''" "plain_word ''none.txt''" "concat (map test_line (getlines [] ''# none'')) = []" by code_simp+
  then show ?thesis
    using input_file_forgets_test [of "''book''" "''none.txt''" "\<lparr>su_files = [''none.txt'' \<mapsto> ''# none''], su_time = 0, su_factories = []\<rparr>"
      "''# none''" "''tests''" default_ConfigData] by auto
qed


text \<open>A second warning is refused, although a warning is added to those that are set.\<close>

lemma second_warning_refused:
  "(case parse_args (makeCommandLineParser \<lparr>su_files = Map.empty, su_time = 0, su_factories = []\<rparr>)
      \<lparr>a_exeName = ''tests'', a_args = [''-w'', ''NoTests'', ''-w'', ''NoAssertions'']\<rparr> default_ConfigData of
    Inr (RuntimeError message, _) \<Rightarrow> message = ''Unrecognised token: -w'' | _ \<Rightarrow> False)"
  by code_simp

subsection \<open>The help\<close>

lemma help_row_wide:
  assumes "4 \<le> w" and "w \<le> 71"
  shows "\<exists>row. help_row w cols = Inr row \<and> list_all col_wide row"
  using assms by (auto simp: help_row_def Column_width_def Spacer_def new_Column_def Column_indent_def Columns_plus_def
    Columns_add_def Column_plus_def col_wide_def iter_indent_def)

lemma write_rows_ends:
  assumes "4 \<le> w" and "w \<le> 71"
  shows "\<exists>out. write_rows w rows os = Some (Inr out)"
proof (induction rows arbitrary: os)
  case (Cons cols rows)
  from help_row_wide [OF assms, of cols] obtain row where row: "help_row w cols = Inr row" "list_all col_wide row" by blast
  from columns_print [OF row(2), of os] obtain out where "print_Columns row os = Some (Inr out)" by blast
  with row(1) Cons show ?case by simp
qed simp

lemma opt_width_bounds: "rows \<noteq> [] \<Longrightarrow> \<exists>cols \<in> set rows. 2 \<le> length (help_left cols) \<Longrightarrow> 4 \<le> opt_width rows \<and> opt_width rows \<le> 71"
proof -
  have f: "n \<le> fold (\<lambda>cols w. max w (length (help_left cols) + 2)) rows n \<and>
      (\<forall>cols \<in> set rows. length (help_left cols) + 2 \<le> fold (\<lambda>cols w. max w (length (help_left cols) + 2)) rows n)" for n
  proof (induction rows arbitrary: n)
    case (Cons a rows)
    from Cons [of "max n (length (help_left a) + 2)"] show ?case by auto
  qed simp
  assume "\<exists>cols \<in> set rows. 2 \<le> length (help_left cols)"
  then obtain cols where "cols \<in> set rows" "2 \<le> length (help_left cols)" by blast
  with f [of 0] have "4 \<le> fold (\<lambda>cols w. max w (length (help_left cols) + 2)) rows 0" by force
  then show ?thesis by (simp add: opt_width_def)
qed

text \<open>The help of a test program is printed to its end: no column of it is too narrow.\<close>

lemma help_is_printed: "\<exists>out. Parser_writeToStream (p\<lparr>m_exeName := e\<rparr>) os = Some (Inr out)"
  if "m_options p = cli_options su"
proof -
  let ?q = "p\<lparr>m_exeName := e\<rparr>"
  have "Help cd_showHelp_update \<in> set (m_options ?q)" using that by (simp add: cli_options_def)
  then have "\<exists>cols \<in> set (Parser_getHelpColumns ?q). 2 \<le> length (help_left cols)"
    unfolding Parser_getHelpColumns_def
    by (intro bexI [where x = "hd (Opt_getHelpColumns (Help cd_showHelp_update))"])
      (simp add: Opt_getHelpColumns_def Help_def, force simp: Opt_getHelpColumns_def)
  moreover from this have "Parser_getHelpColumns ?q \<noteq> []" by auto
  ultimately have "4 \<le> opt_width (Parser_getHelpColumns ?q) \<and> opt_width (Parser_getHelpColumns ?q) \<le> 71"
    by (intro opt_width_bounds)
  with write_rows_ends show ?thesis unfolding Parser_writeToStream_def Let_def by blast
qed

end
