(* ===== verification/Catch_Session.thy ===== *)
theory Catch_Session
  imports Catch_Xml_Report Catch_Command_Line
begin

section \<open>A session\<close>

text \<open>
  \<open>Session::run\<close>: the configuration, the lists a user may ask for, the group of tests that is run, and the
  exit code. The tests and the reporters of a program are in the record \<open>program\<close>, what a run changes
  besides the session in the record \<open>process\<close>. Of a reporter only its name and what it prefers are asked
  for here; what it is told is the list of calls.
\<close>

subsection \<open>The program\<close>

record 'g program =
  pr_here :: SourceLineInfo
  pr_next :: "'g \<Rightarrow> bool \<times> 'g"
  pr_sort :: "TestCaseHandle sorter"
  pr_sort_hashed :: "(u64 \<times> TestCaseHandle) sorter"
  pr_aliases :: TagAliasRegistry
  pr_translators :: "translator list"
  pr_body :: "TestCaseHandle \<Rightarrow> stmt list"
  pr_factories :: "(string \<times> string) list"
  pr_preferences :: "string \<Rightarrow> ReporterPreferences"
  pr_listeners :: nat
  pr_files :: "string \<Rightarrow> string option"
  pr_time :: int

record process =
  pc_registry :: TestRegistry
  pc_rng :: u64
  pc_messages :: "32 word"

definition getAllTestCasesSorted :: "'g program \<Rightarrow> Config \<Rightarrow> process \<Rightarrow> (TestCaseHandle list \<times> process) res" where
  "getAllTestCasesSorted prog config pc =
     bindE (getAllTestsSorted (pr_sort prog) (pr_sort_hashed prog) (registry_config config) (pc_registry pc) (pc_rng pc))
       (\<lambda>(tests, registry, rng). Inr (tests, pc\<lparr>pc_registry := registry, pc_rng := rng\<rparr>))"

text \<open>The names of the files as tags; the handles of a test share its information.\<close>

definition applyFilenamesAsTags :: "TestRegistry \<Rightarrow> TestRegistry res" where
  "applyFilenamesAsTags r = bindE (mapE addFilenameTag (m_viewed_test_infos r)) (\<lambda>infos.
     let renewed = (\<lambda>h. case map_of (zip (m_handles r) infos) h of None \<Rightarrow> h | Some info \<Rightarrow> h\<lparr>th_info := info\<rparr>)
     in Inr (r\<lparr>m_viewed_test_infos := infos, m_handles := map renewed (m_handles r),
       m_sortedFunctions := map renewed (m_sortedFunctions r)\<rparr>))"

subsection \<open>Reporters and lists\<close>

definition createReporter :: "'g program \<Rightarrow> string \<Rightarrow> ReporterPreferences res" where
  "createReporter prog name = (if name \<in> fst ` set (pr_factories prog) then Inr (pr_preferences prog name) else Inl Domain_Error)"

definition makeReporter :: "'g program \<Rightarrow> Config \<Rightarrow> ReporterPreferences res" where
  "makeReporter prog config = bindE (createReporter prog (reporterName (m_data config))) (\<lambda>prefs.
     Inr (if pr_listeners prog = 0 then prefs else prefs\<lparr>shouldReportAllAssertions := True\<rparr>))"

text \<open>\<open>TagInfo\<close>: the spellings of a tag, a set, and how often it was found; the tags are a map.\<close>

fun insert_spelling :: "string \<Rightarrow> string list \<Rightarrow> string list" where
  "insert_spelling s [] = [s]"
| "insert_spelling s (x # xs) = (if StringRef_less s x then s # x # xs
     else if StringRef_less x s then x # insert_spelling s xs else x # xs)"

record TagInfo =
  spellings :: "string list"
  tag_count :: nat

definition TagInfo_add :: "string \<Rightarrow> TagInfo \<Rightarrow> TagInfo" where
  "TagInfo_add spelling t = t\<lparr>tag_count := tag_count t + 1, spellings := insert_spelling spelling (spellings t)\<rparr>"

definition TagInfo_all :: "TagInfo \<Rightarrow> string" where
  "TagInfo_all t = concat (map (\<lambda>spelling. ''['' @ spelling @ '']'') (spellings t))"

fun count_tag :: "string \<times> string \<Rightarrow> (string \<times> TagInfo) list \<Rightarrow> (string \<times> TagInfo) list" where
  "count_tag (lower, orig) [] = [(lower, TagInfo_add orig \<lparr>spellings = [], tag_count = 0\<rparr>)]"
| "count_tag (lower, orig) ((k, t) # ts) =
     (if StringRef_less lower k then (lower, TagInfo_add orig \<lparr>spellings = [], tag_count = 0\<rparr>) # (k, t) # ts
      else if StringRef_less k lower then (k, t) # count_tag (lower, orig) ts
      else (k, TagInfo_add orig t) # ts)"

datatype listing = Listed_tests "TestCaseHandle list" | Listed_tags "TagInfo list" | Listed_reporters "(string \<times> string) list"

definition matched_tests :: "'g program \<Rightarrow> Config \<Rightarrow> process \<Rightarrow> (TestCaseHandle list \<times> process) res" where
  "matched_tests prog config pc = bindE (getAllTestCasesSorted prog config pc) (\<lambda>(tests, pc1).
     Inr (filterTests tests (cf_testSpec config) (registry_config config), pc1))"

definition listTests :: "'g program \<Rightarrow> Config \<Rightarrow> listing list \<times> process \<Rightarrow> (listing list \<times> process) res" where
  "listTests prog config = (\<lambda>(ls, pc). bindE (matched_tests prog config pc) (\<lambda>(tests, pc1).
     Inr (ls @ [Listed_tests tests], pc1)))"

definition listTags :: "'g program \<Rightarrow> Config \<Rightarrow> listing list \<times> process \<Rightarrow> (listing list \<times> process) res" where
  "listTags prog config = (\<lambda>(ls, pc). bindE (matched_tests prog config pc) (\<lambda>(tests, pc1).
     let tags = concat (map (\<lambda>t. map (\<lambda>tag. (tag_lowerCased (th_info t) tag, tag_original (th_info t) tag)) (ti_tags (th_info t))) tests)
     in Inr (ls @ [Listed_tags (map snd (fold count_tag tags []))], pc1)))"

definition listReporters :: "'g program \<Rightarrow> listing list \<times> process \<Rightarrow> (listing list \<times> process) res" where
  "listReporters prog = (\<lambda>(ls, pc). Inr (ls @ [Listed_reporters (pr_factories prog)], pc))"

text \<open>\<open>list\<close> gives what was listed; a list that is asked for is there even if it is empty.\<close>

definition list_requests :: "'g program \<Rightarrow> Config \<Rightarrow> process \<Rightarrow> (listing list \<times> process) res" where
  "list_requests prog config pc = do_all
     [only_if (cd_listTests (m_data config)) (listTests prog config),
      only_if (cd_listTags (m_data config)) (listTags prog config),
      only_if (cd_listReporters (m_data config)) (listReporters prog)] ([], pc)"

subsection \<open>The group of tests\<close>

text \<open>
  The tests to run are a set of pointers into one vector: they run in the order of the vector, once. An
  exception of the constructor unwinds the run context, which reports the end of the run.
\<close>

definition select_tests :: "Config \<Rightarrow> TestCaseHandle list \<Rightarrow> (string \<times> TestCaseHandle list) list \<Rightarrow> TestCaseHandle list" where
  "select_tests config allTestCases matches =
     (if matches = [] \<and> m_invalidArgs (cf_testSpec config) = [] then filter (\<lambda>t. \<not> isHidden (th_info t)) allTestCases
      else filter (\<lambda>t. \<exists>(name, tests) \<in> set matches. t \<in> set tests) allTestCases)"

fun run_tests :: "'g program \<Rightarrow> Config \<Rightarrow> TestCaseHandle list \<Rightarrow> Totals \<Rightarrow> 'g RunContext \<Rightarrow>
    (Totals \<times> 'g RunContext) res option" where
  "run_tests prog config [] totals rc = Some (Inr (totals, rc))"
| "run_tests prog config (t # ts) totals rc =
     (if \<not> aborting config rc then
        (case runTest (pr_here prog) \<lparr>ts_config = config, ts_translators = pr_translators prog\<rparr> (pr_next prog)
            (th_info t) (pr_body prog t) rc of
           None \<Rightarrow> None
         | Some (Inl e) \<Rightarrow> Some (Inl e)
         | Some (Inr (delta, rc1)) \<Rightarrow> run_tests prog config ts (totals_plus totals delta) rc1)
      else run_tests prog config ts totals (report (Ev_skipTest (th_info t)) rc))"

fun report_unmatched :: "(string \<times> TestCaseHandle list) list \<Rightarrow> Totals \<times> 'g RunContext \<Rightarrow> Totals \<times> 'g RunContext" where
  "report_unmatched [] st = st"
| "report_unmatched ((name, tests) # ms) (totals, rc) =
     (if tests = [] then report_unmatched ms (Totals (-1) (assertions totals) (testCases totals), report (Ev_noMatchingTestCases name) rc)
      else report_unmatched ms (totals, rc))"

definition execute :: "'g program \<Rightarrow> Config \<Rightarrow> TestCaseHandle list \<Rightarrow> (string \<times> TestCaseHandle list) list \<Rightarrow>
    'g RunContext \<Rightarrow> (Totals \<times> 'g RunContext) res option" where
  "execute prog config tests matches rc = map_option (\<lambda>res. bindE res (\<lambda>st.
       let (totals, rc1) = report_unmatched matches st;
           rc2 = fold (\<lambda>arg. report (Ev_reportInvalidArguments arg)) (m_invalidArgs (cf_testSpec config)) rc1
       in Inr (totals, testGroupEnded config (config_name config) totals 1 1 rc2)))
     (run_tests prog config tests no_totals (testGroupStarting (config_name config) 1 1 rc))"

text \<open>Constructor, \<open>execute\<close> and destructor; an exception is kept as its kind.\<close>

definition group_config :: "Config \<Rightarrow> ReporterPreferences \<Rightarrow> process \<Rightarrow> 'g RunContext" where
  "group_config config prefs pc = new_RunContext config (shouldReportAllAssertions prefs) (pc_messages pc) (pc_rng pc)"

definition run_group :: "'g program \<Rightarrow> Config \<Rightarrow> ReporterPreferences \<Rightarrow> process \<Rightarrow>
    (Totals res \<times> process \<times> 'g RunContext) res option" where
  "run_group prog config prefs pc = (
     let rc0 = group_config config prefs pc
     in case getAllTestCasesSorted prog config pc of
          Inl e \<Rightarrow> Some (Inr (Inl e, pc, delete_RunContext config rc0))
        | Inr (tests, pc1) \<Rightarrow>
            let matches = matchesByFilter (cf_testSpec config) tests (registry_config config)
            in map_option (\<lambda>res. bindE res (\<lambda>(totals, rc). Inr (Inr totals,
                   pc1\<lparr>pc_rng := rc_rng rc, pc_messages := globalCount rc\<rparr>, delete_RunContext config rc)))
                 (execute prog config (select_tests config tests matches) matches (rc0\<lparr>rc_rng := pc_rng pc1\<rparr>)))"

subsection \<open>The session\<close>

record Session =
  m_configData :: ConfigData
  m_config :: "Config option"
  m_startupExceptions :: bool
  m_cli :: "ConfigData Parser"

definition MaxExitCode :: int where
  "MaxExitCode = 255"

definition useConfigData :: "ConfigData \<Rightarrow> Session \<Rightarrow> Session" where
  "useConfigData configData s = s\<lparr>m_configData := configData, m_config := None\<rparr>"

definition session_config :: "TagAliasRegistry \<Rightarrow> Session \<Rightarrow> (Config \<times> Session) res" where
  "session_config aliases s = (case m_config s of
       Some c \<Rightarrow> Inr (c, s)
     | None \<Rightarrow> bindE (new_Config aliases (m_configData s)) (\<lambda>c. Inr (c, s\<lparr>m_config := Some c\<rparr>)))"

definition cli_surroundings :: "'g program \<Rightarrow> surroundings" where
  "cli_surroundings prog = \<lparr>su_files = pr_files prog, su_time = pr_time prog, su_factories = map fst (pr_factories prog)\<rparr>"

text \<open>
  The constructor, given whether a static initialiser threw: then the configuration is made at once, to print
  what was thrown.
\<close>

definition new_Session :: "'g program \<Rightarrow> bool \<Rightarrow> Session res" where
  "new_Session prog thrown =
     (let s = \<lparr>m_configData = default_ConfigData, m_config = None, m_startupExceptions = False, m_cli = new_Parser\<rparr>
      in bindE (if thrown then bindE (session_config (pr_aliases prog) s) (\<lambda>(_, s1). Inr (s1\<lparr>m_startupExceptions := True\<rparr>)) else Inr s)
         (\<lambda>s1. Inr (s1\<lparr>m_cli := makeCommandLineParser (cli_surroundings prog)\<rparr>)))"

record Version =
  majorVersion :: nat
  minorVersion :: nat
  patchNumber :: nat
  branchName :: string
  buildNumber :: nat

definition libraryVersion :: Version where
  "libraryVersion = \<lparr>majorVersion = 3, minorVersion = 0, patchNumber = 0, branchName = ''preview'', buildNumber = 3\<rparr>"

definition version_text :: "Version \<Rightarrow> string" where
  "version_text v = digits (majorVersion v) @ ''.'' @ digits (minorVersion v) @ ''.'' @ digits (patchNumber v) @
     (if branchName v \<noteq> [] then ''-'' @ branchName v @ ''.'' @ digits (buildNumber v) else [])"

text \<open>What is written to the standard output; printing the options may not end.\<close>

definition showHelp :: "Session \<Rightarrow> string \<Rightarrow> string res option" where
  "showHelp s os = map_option (\<lambda>r. bindE r (\<lambda>os1. Inr (os1 @ [CHR 0x0A] @
       ''For more detailed usage please see the project docs'' @ [CHR 0x0A, CHR 0x0A])))
     (Parser_writeToStream (m_cli s) (os @ [CHR 0x0A] @ ''Catch v'' @ version_text libraryVersion @ [CHR 0x0A]))"

definition identify_line :: "string \<Rightarrow> string \<Rightarrow> string" where
  "identify_line name value = name @ replicate (16 - length name) (CHR '' '') @ value @ [CHR 0x0A]"

definition session_libIdentify :: "string \<Rightarrow> string" where
  "session_libIdentify os = os @ identify_line ''description: '' ''A Catch2 test executable'' @
     identify_line ''category: '' ''testframework'' @ identify_line ''framework: '' ''Catch Test'' @
     identify_line ''version: '' (version_text libraryVersion)"

text \<open>The exit code, or zero to go on, and the output.\<close>

definition applyCommandLine :: "'g program \<Rightarrow> string list \<Rightarrow> Session \<Rightarrow> string \<Rightarrow> (int \<times> Session \<times> string) res option" where
  "applyCommandLine prog argv s os =
     (if m_startupExceptions s then Some (Inr (1, s, os))
      else case bindE (new_Args argv) (\<lambda>args. parse_args (m_cli s) args (m_configData s)) of
          Inl e \<Rightarrow> Some (Inl e)
        | Inr (result, cli, d) \<Rightarrow>
            let s1 = s\<lparr>m_configData := d, m_cli := cli\<rparr>
            in case result of
                 Result_ok _ \<Rightarrow>
                   (case (if cd_showHelp d then showHelp s1 os else Some (Inr os)) of
                      None \<Rightarrow> None
                    | Some (Inl e) \<Rightarrow> Some (Inl e)
                    | Some (Inr os1) \<Rightarrow> Some (Inr (0, s1\<lparr>m_config := None\<rparr>, if libIdentify d then session_libIdentify os1 else os1)))
               | _ \<Rightarrow> Some (bindE (session_config (pr_aliases prog) s1) (\<lambda>(_, s2). Inr (MaxExitCode, s2, os))))"

text \<open>\<open>static_cast<int>\<close> of a \<open>size_t\<close> takes the lower 32 bits.\<close>

definition exit_code :: "Config \<Rightarrow> Totals \<Rightarrow> int" where
  "exit_code config totals =
     (if warnAboutNoTests config \<and> error totals = -1 then 2
      else min MaxExitCode (max (error totals) (sint (ucast (failed (assertions totals)) :: 32 word))))"

definition is_std_exception :: "exn \<Rightarrow> bool" where
  "is_std_exception e \<longleftrightarrow> e \<notin> {Undefined, Assert_Failed, Stack_Exhausted}"

text \<open>
  The result of a run: the exit code, what was listed, and the calls of the reporter. Standard exceptions
  are caught; what is not an exception in the code stays an error.
\<close>

record run_result =
  rr_code :: int
  rr_listed :: "listing list"
  rr_calls :: "reporter_event list"

definition caught :: "process \<Rightarrow> exn \<Rightarrow> (run_result \<times> process) res option" where
  "caught pc e = Some (if is_std_exception e then Inr (\<lparr>rr_code = MaxExitCode, rr_listed = [], rr_calls = []\<rparr>, pc) else Inl e)"

definition run_with :: "'g program \<Rightarrow> Config \<Rightarrow> process \<Rightarrow> (run_result \<times> process) res option" where
  "run_with prog config pc = (
     let pc1 = pc\<lparr>pc_rng := seedRng (registry_config config) (pc_rng pc)\<rparr>
     in case (if filenamesAsTags (m_data config) then applyFilenamesAsTags (pc_registry pc1) else Inr (pc_registry pc1)) of
          Inl e \<Rightarrow> caught pc1 e
        | Inr registry \<Rightarrow> (let pc2 = pc1\<lparr>pc_registry := registry\<rparr> in case makeReporter prog config of
            Inl e \<Rightarrow> caught pc2 e
          | Inr prefs \<Rightarrow> (case list_requests prog config pc2 of
              Inl e \<Rightarrow> caught pc2 e
            | Inr (ls, pc3) \<Rightarrow>
                if ls \<noteq> [] then Some (Inr (\<lparr>rr_code = 0, rr_listed = ls, rr_calls = []\<rparr>, pc3))
                else (case run_group prog config prefs pc3 of
                    None \<Rightarrow> None
                  | Some (Inl e) \<Rightarrow> Some (Inl e)
                  | Some (Inr (Inl e, pc4, rc)) \<Rightarrow> (if is_std_exception e
                      then Some (Inr (\<lparr>rr_code = MaxExitCode, rr_listed = [], rr_calls = m_reported rc\<rparr>, pc4)) else Some (Inl e))
                  | Some (Inr (Inr totals, pc4, rc)) \<Rightarrow>
                      Some (Inr (\<lparr>rr_code = exit_code config totals, rr_listed = [], rr_calls = m_reported rc\<rparr>, pc4))))))"

definition runInternal :: "'g program \<Rightarrow> Session \<Rightarrow> process \<Rightarrow> (run_result \<times> Session \<times> process) res option" where
  "runInternal prog s pc =
     (if m_startupExceptions s then Some (Inr (\<lparr>rr_code = 1, rr_listed = [], rr_calls = []\<rparr>, s, pc))
      else if cd_showHelp (m_configData s) \<or> libIdentify (m_configData s)
        then Some (Inr (\<lparr>rr_code = 0, rr_listed = [], rr_calls = []\<rparr>, s, pc))
      else (case session_config (pr_aliases prog) s of
          Inl e \<Rightarrow> map_option (\<lambda>r. bindE r (\<lambda>(res, pc1). Inr (res, s, pc1))) (caught pc e)
        | Inr (config, s1) \<Rightarrow> map_option (\<lambda>r. bindE r (\<lambda>(res, pc1). Inr (res, s1, pc1))) (run_with prog config pc)))"

text \<open>\<open>run(argc, argv)\<close>, with the standard output; the pauses that wait for a key are left out.\<close>

definition session_run :: "'g program \<Rightarrow> string list \<Rightarrow> Session \<Rightarrow> process \<Rightarrow>
    (run_result \<times> string \<times> Session \<times> process) res option" where
  "session_run prog argv s pc =
     (if m_startupExceptions s then Some (Inr (\<lparr>rr_code = 1, rr_listed = [], rr_calls = []\<rparr>, [], s, pc))
      else (case applyCommandLine prog argv s [] of
          None \<Rightarrow> None
        | Some (Inl e) \<Rightarrow> Some (Inl e)
        | Some (Inr (code, s1, os)) \<Rightarrow>
            if code = 0 then map_option (\<lambda>r. bindE r (\<lambda>(res, s2, pc1). Inr (res, os, s2, pc1))) (runInternal prog s1 pc)
            else Some (Inr (\<lparr>rr_code = code, rr_listed = [], rr_calls = []\<rparr>, os, s1, pc))))"

end
