(* ===== verification/Catch_Session_Run.thy ===== *)
theory Catch_Session_Run
  imports Catch_Session
begin

section \<open>What a session does\<close>

text \<open>
  Properties of \<open>Session::run\<close>: which tests are run, in which order, that every reporter can follow the
  calls of a whole run, and what the exit code says.
\<close>

subsection \<open>The calls of a group\<close>

text \<open>The tests a reporter hears of, those that are skipped too, and the totals of the tests that ended.\<close>

fun tests_heard :: "reporter_event list \<Rightarrow> TestCaseInfo list" where
  "tests_heard [] = []"
| "tests_heard (Ev_testCaseStarting info # es) = info # tests_heard es"
| "tests_heard (Ev_skipTest info # es) = info # tests_heard es"
| "tests_heard (_ # es) = tests_heard es"

fun ended_totals :: "reporter_event list \<Rightarrow> Totals list" where
  "ended_totals [] = []"
| "ended_totals (Ev_testCaseEnded st # es) = tc_totals st # ended_totals es"
| "ended_totals (_ # es) = ended_totals es"

lemma tests_heard_append [simp]: "tests_heard (es @ es') = tests_heard es @ tests_heard es'"
  by (induction es rule: tests_heard.induct) simp_all

lemma ended_totals_append [simp]: "ended_totals (es @ es') = ended_totals es @ ended_totals es'"
  by (induction es rule: ended_totals.induct) simp_all

lemma inside_quiet:
  "follows es (In_test b n) = Some p \<Longrightarrow> inside es \<Longrightarrow> tests_heard es = [] \<and> ended_totals es = []"
proof (induction es arbitrary: b n)
  case (Cons e es)
  then show ?case
    by (cases e; cases n; cases b) (auto simp: bind_eq_Some_conv)
qed simp

lemma runTest_heard:
  assumes "runTest here ts nxt info body rc = Some (Inr (delta, rc'))" and "m_unfinishedSections rc = []"
  shows "\<exists>es. m_reported rc' = m_reported rc @ es \<and> follows es In_group = Some In_group \<and> tests_heard es = [info] \<and>
    ended_totals es = [delta] \<and> m_unfinishedSections rc' = []"
proof -
  from runTest_events [OF assms] obtain es st where
    "m_reported rc' = m_reported rc @ Ev_testCaseStarting info # es @ [Ev_testCaseEnded st]"
    "tc_totals st = delta" "follows es (In_test False 0) = Some (In_test True 0)" "inside es" "m_unfinishedSections rc' = []" by blast
  with inside_quiet [of es] show ?thesis by (auto simp: follows_append)
qed

text \<open>A part of a group: the tests that are heard of, and what it adds to the totals.\<close>

definition group_part :: "TestCaseInfo list \<Rightarrow> Totals \<times> 'g RunContext \<Rightarrow> Totals \<times> 'g RunContext \<Rightarrow> bool" where
  "group_part infos = (\<lambda>(totals, rc) (totals', rc'). \<exists>es. m_reported rc' = m_reported rc @ es \<and>
     follows es In_group = Some In_group \<and> tests_heard es = infos \<and>
     (\<forall>name. Ev_noMatchingTestCases name \<notin> set es) \<and> error totals' = error totals \<and>
     assertions totals' = assertions totals + sum_list (map assertions (ended_totals es)))"

lemma inside_matched:
  "follows es (In_test b n) = Some p \<Longrightarrow> inside es \<Longrightarrow> Ev_noMatchingTestCases name \<notin> set es"
proof (induction es arbitrary: b n)
  case (Cons e es)
  then show ?case by (cases e; cases n; cases b) (auto simp: bind_eq_Some_conv)
qed simp

lemma run_tests_part:
  assumes "run_tests prog config ts totals rc = Some (Inr (totals', rc'))" and "m_unfinishedSections rc = []"
  shows "group_part (map th_info ts) (totals, rc) (totals', rc') \<and> m_unfinishedSections rc' = []"
  using assms
proof (induction prog config ts totals rc rule: run_tests.induct)
  case (1 prog config totals rc)
  then show ?case by (simp add: group_part_def)
next
  case (2 prog config t ts totals rc)
  show ?case
  proof (cases "aborting config rc")
    case True
    with 2(3) have r: "run_tests prog config ts totals (report (Ev_skipTest (th_info t)) rc) = Some (Inr (totals', rc'))" by simp
    from 2(2) True r 2(4)
    have "group_part (map th_info ts) (totals, report (Ev_skipTest (th_info t)) rc) (totals', rc') \<and> m_unfinishedSections rc' = []"
      by (simp add: report_def)
    then show ?thesis by (fastforce simp: group_part_def report_def)
  next
    case False
    with 2(3) obtain delta rc1 where
      t: "runTest (pr_here prog) \<lparr>ts_config = config, ts_translators = pr_translators prog\<rparr> (pr_next prog)
          (th_info t) (pr_body prog t) rc = Some (Inr (delta, rc1))"
      and r: "run_tests prog config ts (totals_plus totals delta) rc1 = Some (Inr (totals', rc'))"
      by (auto split: option.splits sum.splits)
    from runTest_events [OF t 2(4)] obtain bs st where bs: "m_reported rc1 = m_reported rc @ Ev_testCaseStarting (th_info t) # bs @ [Ev_testCaseEnded st]"
      "tc_totals st = delta" "error delta = 0" "follows bs (In_test False 0) = Some (In_test True 0)" "inside bs" "m_unfinishedSections rc1 = []" by blast
    note quiet = inside_quiet [OF bs(4,5)] inside_matched [OF bs(4,5)]
    from 2(1) False t r bs(6)
    have p: "group_part (map th_info ts) (totals_plus totals delta, rc1) (totals', rc')" "m_unfinishedSections rc' = []" by auto
    from p(1) obtain es where es: "m_reported rc' = m_reported rc1 @ es" "follows es In_group = Some In_group"
      "tests_heard es = map th_info ts" "\<forall>name. Ev_noMatchingTestCases name \<notin> set es" "error totals' = error totals"
      "assertions totals' = assertions totals + assertions delta + sum_list (map assertions (ended_totals es))"
      by (auto simp: group_part_def totals_plus_def)
    have "group_part (map th_info (t # ts)) (totals, rc) (totals', rc')"
      unfolding group_part_def using es bs quiet
      by (auto simp: follows_append add.assoc intro!: exI [of _ "Ev_testCaseStarting (th_info t) # bs @ Ev_testCaseEnded st # es"])
    with p(2) show ?thesis by blast
  qed
qed

text \<open>A call that belongs to a group and is about no test that runs.\<close>

definition aside :: "reporter_event list \<Rightarrow> bool" where
  "aside es \<longleftrightarrow> follows es In_group = Some In_group \<and> tests_heard es = [] \<and> ended_totals es = []"

lemma unmatched_part:
  assumes "report_unmatched matches (totals, rc) = (totals', rc')"
  shows "\<exists>es. m_reported rc' = m_reported rc @ es \<and> aside es \<and>
    (\<forall>name. Ev_noMatchingTestCases name \<in> set es \<longleftrightarrow> (name, []) \<in> set matches) \<and>
    assertions totals' = assertions totals \<and>
    error totals' = (if \<exists>name. (name, []) \<in> set matches then -1 else error totals)"
  using assms
proof (induction matches "(totals, rc)" arbitrary: totals rc rule: report_unmatched.induct)
  case (2 name tests ms totals rc)
  show ?case
  proof (cases "tests = []")
    case True
    with 2(1) [OF True] 2(3) obtain es where
      "m_reported rc' = m_reported rc @ Ev_noMatchingTestCases name # es" "aside es"
      "\<forall>name. Ev_noMatchingTestCases name \<in> set es \<longleftrightarrow> (name, []) \<in> set ms" "assertions totals' = assertions totals"
      "error totals' = -1"
      by (fastforce simp: report_def split: if_splits)
    with True show ?thesis by (intro exI [of _ "Ev_noMatchingTestCases name # es"]) (auto simp: aside_def)
  next
    case False
    with 2(2) [OF False] 2(3) show ?thesis by auto
  qed
qed (auto simp: aside_def)

lemma invalid_part:
  "m_reported (fold (\<lambda>arg. report (Ev_reportInvalidArguments arg)) args rc) = m_reported rc @ map Ev_reportInvalidArguments args \<and>
    aside (map Ev_reportInvalidArguments args)"
  by (induction args arbitrary: rc) (auto simp: aside_def report_def)

lemma aside_append: "aside es \<Longrightarrow> aside es' \<Longrightarrow> aside (es @ es')"
  by (simp add: aside_def follows_append)

lemma group_call:
  "m_reported (testGroupStarting testSpec i n rc) = m_reported rc @
     [Ev_testGroupStarting \<lparr>gi_name = testSpec, groupIndex = i, groupsCounts = n\<rparr>]"
  "m_reported (testGroupEnded config testSpec totals i n rc) = m_reported rc @
     [Ev_testGroupEnded \<lparr>tg_groupInfo = \<lparr>gi_name = testSpec, groupIndex = i, groupsCounts = n\<rparr>,
       tg_totals = totals, tg_aborting = aborting config rc\<rparr>]"
  by (simp_all add: testGroupStarting_def testGroupEnded_def report_def)

text \<open>The calls of \<open>execute\<close>: a group, with the tests in their order.\<close>

lemma execute_calls:
  assumes "execute prog config tests matches rc = Some (Inr (totals, rc'))" and "m_unfinishedSections rc = []"
  shows "\<exists>es. m_reported rc' = m_reported rc @ es \<and> follows es In_run = Some In_run \<and> tests_heard es = map th_info tests \<and>
    (\<forall>name. Ev_noMatchingTestCases name \<in> set es \<longleftrightarrow> (name, []) \<in> set matches) \<and>
    assertions totals = sum_list (map assertions (ended_totals es)) \<and>
    error totals = (if \<exists>name. (name, []) \<in> set matches then -1 else 0) \<and> (\<exists>st. Ev_testGroupEnded st \<in> set es)"
proof -
  let ?rc0 = "testGroupStarting (config_name config) 1 1 rc"
  from assms(1) obtain t1 rc1 t2 rc2 where r: "run_tests prog config tests no_totals ?rc0 = Some (Inr (t1, rc1))"
    and u: "report_unmatched matches (t1, rc1) = (t2, rc2)" and t: "totals = t2"
    and e: "rc' = testGroupEnded config (config_name config) t2 1 1
      (fold (\<lambda>arg. report (Ev_reportInvalidArguments arg)) (m_invalidArgs (cf_testSpec config)) rc2)"
    unfolding execute_def
    by (auto simp: Let_def bindE_eq_Inr split: prod.splits) (metis surj_pair)
  have "m_unfinishedSections ?rc0 = []" using assms(2) by (simp add: testGroupStarting_def report_def)
  from run_tests_part [OF r this] obtain es1 where 1: "m_reported rc1 = m_reported ?rc0 @ es1"
    "follows es1 In_group = Some In_group" "tests_heard es1 = map th_info tests" "\<forall>name. Ev_noMatchingTestCases name \<notin> set es1"
    "error t1 = 0" "assertions t1 = sum_list (map assertions (ended_totals es1))"
    by (auto simp: group_part_def no_totals_def)
  from unmatched_part [OF u] obtain es2 where 2: "m_reported rc2 = m_reported rc1 @ es2" "aside es2"
    "\<forall>name. Ev_noMatchingTestCases name \<in> set es2 \<longleftrightarrow> (name, []) \<in> set matches" "assertions t2 = assertions t1"
    "error t2 = (if \<exists>name. (name, []) \<in> set matches then -1 else error t1)" by blast
  let ?es3 = "map Ev_reportInvalidArguments (m_invalidArgs (cf_testSpec config))"
  have 3: "m_reported (fold (\<lambda>arg. report (Ev_reportInvalidArguments arg)) (m_invalidArgs (cf_testSpec config)) rc2) =
      m_reported rc2 @ ?es3" "aside ?es3" using invalid_part by blast+
  let ?g = "\<lparr>gi_name = config_name config, groupIndex = 1, groupsCounts = 1\<rparr>"
  have "\<exists>st. m_reported rc' = m_reported rc @ Ev_testGroupStarting ?g # es1 @ es2 @ ?es3 @ [Ev_testGroupEnded st]"
    using 1(1) 2(1) 3(1) by (simp add: e group_call)
  then obtain st where "m_reported rc' = m_reported rc @ Ev_testGroupStarting ?g # es1 @ es2 @ ?es3 @ [Ev_testGroupEnded st]" by blast
  then show ?thesis using 1 2 3(2) t
    by (intro exI [of _ "Ev_testGroupStarting ?g # es1 @ es2 @ ?es3 @ [Ev_testGroupEnded st]"]) (auto simp: follows_append aside_def)
qed

subsection \<open>The calls of a run\<close>

lemma new_context_state: "m_unfinishedSections (group_config config prefs pc) = []"
  "m_reported (group_config config prefs pc) = [Ev_testRunStarting (config_name config)]"
  by (simp_all add: group_config_def new_RunContext_def report_def)

lemma run_group_failed:
  assumes "run_group prog config prefs pc = Some (Inr (Inl e, pc', rc'))"
  shows "follows (m_reported rc') Not_started = Some Run_over \<and> (\<forall>st. Ev_testGroupEnded st \<notin> set (m_reported rc'))"
  using assms by (auto simp: run_group_def Let_def bindE_eq_Inr new_context_state delete_RunContext_def report_def
    split: sum.splits)

lemma run_group_ran:
  fixes prog :: "'g program"
  assumes "run_group prog config prefs pc = Some (Inr (Inr totals, pc', rc'))"
  obtains tests pc1 where "getAllTestCasesSorted prog config pc = Inr (tests, pc1)"
    and "follows (m_reported rc') Not_started = Some Run_over"
    and "tests_heard (m_reported rc') = map th_info (select_tests config tests (matchesByFilter (cf_testSpec config) tests (registry_config config)))"
    and "\<And>name. Ev_noMatchingTestCases name \<in> set (m_reported rc') \<longleftrightarrow>
      (name, []) \<in> set (matchesByFilter (cf_testSpec config) tests (registry_config config))"
    and "assertions totals = sum_list (map assertions (ended_totals (m_reported rc')))"
    and "error totals = (if \<exists>name. Ev_noMatchingTestCases name \<in> set (m_reported rc') then -1 else 0)"
    and "\<exists>st. Ev_testGroupEnded st \<in> set (m_reported rc')"
proof -
  from assms obtain tests pc1 where t: "getAllTestCasesSorted prog config pc = Inr (tests, pc1)"
    unfolding run_group_def by (auto simp: Let_def split: sum.splits)
  let ?matches = "matchesByFilter (cf_testSpec config) tests (registry_config config)"
  let ?rc = "(group_config config prefs pc :: 'g RunContext)\<lparr>rc_rng := pc_rng pc1\<rparr>"
  from assms t obtain rc where e: "execute prog config (select_tests config tests ?matches) ?matches ?rc = Some (Inr (totals, rc))"
    and rc': "rc' = delete_RunContext config rc"
    unfolding run_group_def by (auto simp: Let_def bindE_eq_Inr)
  have u: "m_unfinishedSections ?rc = []" by (simp add: new_context_state)
  from execute_calls [OF e u] obtain es where es: "m_reported rc = m_reported ?rc @ es" "follows es In_run = Some In_run"
    "tests_heard es = map th_info (select_tests config tests ?matches)"
    "\<forall>name. Ev_noMatchingTestCases name \<in> set es \<longleftrightarrow> (name, []) \<in> set ?matches"
    "assertions totals = sum_list (map assertions (ended_totals es))"
    "error totals = (if \<exists>name. (name, []) \<in> set ?matches then -1 else 0)" "\<exists>st. Ev_testGroupEnded st \<in> set es" by blast
  then show ?thesis
    by (intro that [OF t]) (auto simp add: rc' delete_RunContext_def report_def new_context_state follows_append)
qed

subsection \<open>What runs is what is listed\<close>

lemma matches_groups: "matchesByFilter spec tests config = map (\<lambda>f. (filter_name f,
    filter (\<lambda>t. isThrowSafe t config \<and> filter_matches f (th_info t)) tests)) (TestSpec.m_filters spec)"
  by (simp add: matchesByFilter_def foldl_filter)

lemma select_tests_filter:
  assumes "hasFilters (cf_testSpec config) \<or> m_invalidArgs (cf_testSpec config) = []"
  shows "select_tests config tests (matchesByFilter (cf_testSpec config) tests (registry_config config)) =
    filterTests tests (cf_testSpec config) (registry_config config)"
  using assms by (auto simp: select_tests_def matches_groups filterTests_filter hasFilters_def matchTest_def
      spec_matches_def list_ex_iff intro!: filter_cong)

text \<open>
  C19: A group runs what \<open>--list-tests\<close> lists. The reporter hears, in the order of the sorted vector and
  each once, of exactly the tests that \<open>listTests\<close> would list for the same configuration, as started or
  as skipped after the limit of failures; unless the specification has invalid arguments and nothing
  else: then no test runs at all, although the same specification lists every test that is not hidden.
\<close>

theorem group_runs_what_is_listed:
  assumes "run_group prog config prefs pc = Some (Inr (Inr totals, pc', rc'))"
  shows "\<exists>tests pc1. matched_tests prog config pc = Inr (tests, pc1) \<and>
    tests_heard (m_reported rc') =
      (if TestSpec.m_filters (cf_testSpec config) = [] \<and> m_invalidArgs (cf_testSpec config) \<noteq> [] then [] else map th_info tests)"
  using assms
proof (rule run_group_ran)
  fix all pc1
  assume all: "getAllTestCasesSorted prog config pc = Inr (all, pc1)"
    and heard: "tests_heard (m_reported rc') =
      map th_info (select_tests config all (matchesByFilter (cf_testSpec config) all (registry_config config)))"
  have "select_tests config all (matchesByFilter (cf_testSpec config) all (registry_config config)) = []"
    if "TestSpec.m_filters (cf_testSpec config) = []" "m_invalidArgs (cf_testSpec config) \<noteq> []"
    using that by (simp add: select_tests_def matches_groups)
  with all heard select_tests_filter [of config all] show ?thesis
    by (auto simp: matched_tests_def hasFilters_def)
qed

subsection \<open>The exit code\<close>

lemma no_failed: "failed (0 :: Counts) = 0"
  by (simp only: zero_Counts_def Counts.sel)

lemma failed_sum: "sum_list (map (\<lambda>t. unat (failed (assertions t))) ts) < 2 ^ 31 \<Longrightarrow>
    unat (failed (sum_list (map assertions ts))) = sum_list (map (\<lambda>t. unat (failed (assertions t))) ts)"
proof (induction ts)
  case (Cons t ts)
  let ?n = "sum_list (map (\<lambda>t. unat (failed (assertions t))) ts)" and ?w = "failed (sum_list (map assertions ts))"
  from Cons have n: "unat ?w = ?n" "unat (failed (assertions t)) + ?n < 2 ^ 31" by simp_all
  then have "unat (failed (assertions t) + ?w) = unat (failed (assertions t)) + unat ?w"
    by (intro unat_add_lem [THEN iffD1]) simp
  then show ?case using n by (simp add: plus_Counts_def)
qed (simp add: no_failed)

lemma low_bits:
  assumes "unat (w :: u64) < 2 ^ 31"
  shows "sint (ucast w :: 32 word) = int (unat w)"
proof -
  have w: "uint w < 2 ^ 31" 
    unfolding uint_nat using iffD2 [OF of_nat_less_iff [where 'a = int] assms] by (simp only: of_nat_power of_nat_numeral)
  have u: "uint (ucast w :: 32 word) = uint w"
    unfolding unsigned_ucast_eq using w by (intro take_bit_int_eq_self) simp_all
  have z: "- (2 ^ 31) \<le> uint w" by (rule order_trans [OF _ uint_ge_0]) simp
  have t: "signed_take_bit 31 (uint w) = uint w" using z w by (rule signed_take_bit_int_eq_self)
  have "LENGTH(32) - Suc 0 = 31" by simp
  then show ?thesis unfolding sint_uint u by (simp only: t uint_nat [symmetric])
qed
lemma exit_code_value:
  assumes "assertions totals = sum_list (map assertions ts)"
    and "sum_list (map (\<lambda>t. unat (failed (assertions t))) ts) < 2 ^ 31" and "error totals \<in> {-1, 0}"
  shows "exit_code config totals = (if warnAboutNoTests config \<and> error totals = -1 then 2
    else int (min 255 (sum_list (map (\<lambda>t. unat (failed (assertions t))) ts))))"
proof -
  have "sint (ucast (failed (assertions totals)) :: 32 word) = int (sum_list (map (\<lambda>t. unat (failed (assertions t))) ts))"
    using assms(1,2) failed_sum [OF assms(2)] low_bits [of "failed (assertions totals)"] by simp
  with assms(3) show ?thesis by (auto simp: exit_code_def MaxExitCode_def)
qed

lemma makes_no_calls: "caught pc e = Some (Inr (res, pc')) \<Longrightarrow> rr_code res = 255 \<and> rr_calls res = [] \<and> rr_listed res = []"
  by (auto simp: caught_def MaxExitCode_def split: if_splits)

text \<open>A session ends in one of these ways.\<close>

lemma run_with_cases:
  assumes "run_with prog config pc = Some (Inr (res, pc'))"
  obtains (listed) "rr_code res = 0" "rr_listed res \<noteq> []" "rr_calls res = []"
  | (thrown) "rr_code res = 255" "rr_listed res = []" "rr_calls res = []"
  | (thrown_late) prefs pc1 rc e where "rr_code res = 255" "rr_listed res = []" "rr_calls res = m_reported rc"
      "run_group prog config prefs pc1 = Some (Inr (Inl e, pc', rc))"
  | (ran) prefs pc1 rc totals where "rr_code res = exit_code config totals" "rr_listed res = []" "rr_calls res = m_reported rc"
      "run_group prog config prefs pc1 = Some (Inr (Inr totals, pc', rc))"
  using assms unfolding run_with_def
  by (auto simp: Let_def MaxExitCode_def dest!: makes_no_calls split: sum.splits if_splits option.splits)

text \<open>
  C15: What the exit code of a session says. Without exceptions of static initialisers the code is 0 if
  help was asked for or something was listed; 255 if no group of tests was run to its end, that is after an exception;
  2 if a test name matched nothing and the warning for that is switched on; otherwise the number of failed
  assertions of the tests that ended, cut off at 255, provided fewer than 2 ^ 31 assertions failed.
\<close>

theorem exit_code_tells:
  assumes "runInternal prog s pc = Some (Inr (res, s', pc'))" and "session_config (pr_aliases prog) s = Inr (config, s1)"
    and "sum_list (map (\<lambda>t. unat (failed (assertions t))) (ended_totals (rr_calls res))) < 2 ^ 31"
  shows "rr_code res =
    (if m_startupExceptions s then 1
     else if cd_showHelp (m_configData s) \<or> libIdentify (m_configData s) \<or> rr_listed res \<noteq> [] then 0
     else if \<forall>st. Ev_testGroupEnded st \<notin> set (rr_calls res) then 255
     else if warnAboutNoTests config \<and> (\<exists>name. Ev_noMatchingTestCases name \<in> set (rr_calls res)) then 2
     else int (min 255 (sum_list (map (\<lambda>t. unat (failed (assertions t))) (ended_totals (rr_calls res))))))"
proof (cases "m_startupExceptions s \<or> cd_showHelp (m_configData s) \<or> libIdentify (m_configData s)")
  case True
  with assms(1) show ?thesis by (auto simp: runInternal_def split: if_splits)
next
  case False
  with assms(1,2) have "run_with prog config pc = Some (Inr (res, pc'))"
    by (auto simp: runInternal_def bindE_eq_Inr)
  then show ?thesis
  proof (cases rule: run_with_cases)
    case (thrown_late prefs pc1 rc e)
    with run_group_failed [OF thrown_late(4)] False show ?thesis by simp
  next
    case (ran prefs pc1 rc totals)
    from run_group_ran [OF ran(4)] have
      "error totals = (if \<exists>name. Ev_noMatchingTestCases name \<in> set (m_reported rc) then -1 else 0)"
      "\<exists>st. Ev_testGroupEnded st \<in> set (m_reported rc)"
      and a: "assertions totals = sum_list (map assertions (ended_totals (m_reported rc)))" by blast+
    moreover from this have "exit_code config totals = (if warnAboutNoTests config \<and> error totals = -1 then 2
        else int (min 255 (sum_list (map (\<lambda>t. unat (failed (assertions t))) (ended_totals (m_reported rc))))))"
      using assms(3) ran(3) by (intro exit_code_value [OF a]) auto
    ultimately show ?thesis using False ran(1-3) by auto
  qed (use False in simp_all)
qed

subsection \<open>The report of a whole session\<close>

lemma session_calls:
  assumes "runInternal prog s pc = Some (Inr (res, s', pc'))" and "rr_calls res \<noteq> []"
  shows "follows (rr_calls res) Not_started = Some Run_over"
proof -
  from assms obtain config pc1 where "run_with prog config pc = Some (Inr (res, pc1))"
    by (auto simp: runInternal_def bindE_eq_Inr dest!: makes_no_calls split: if_splits sum.splits)
  then show ?thesis
  proof (cases rule: run_with_cases)
    case (thrown_late prefs pc2 rc e)
    with run_group_failed [OF thrown_late(4)] show ?thesis by simp
  next
    case (ran prefs pc2 rc totals)
    then show ?thesis using run_group_ran [OF ran(4)] by metis
  qed (use assms(2) in simp_all)
qed

lemma new_Config_filters:
  assumes "new_Config aliases data = Inr config"
  shows "hasFilters (cf_testSpec config) \<longrightarrow> testsOrTags (m_data config) \<noteq> []"
  using assms by (auto simp: new_Config_def Let_def bindE_eq_Inr hasFilters_def parser_testSpec_def new_TestSpecParser_def addFilter_def empty_filter_def)

text \<open>
  C18: The XML report of a session is a whole document. Whatever the tests of a session do, and also when an exception
  ends it before the first test, the XML reporter takes the calls of the whole run without an error, and at the end every
  element that was opened is closed: run, group, test cases, sections and results.
\<close>

theorem xml_document_closed:
  assumes "runInternal prog s pc = Some (Inr (res, s', pc'))" and "rr_calls res \<noteq> []" and "m_config s = None"
  shows "\<exists>config r. m_config s' = Some config \<and>
    foldE (xml_report config seconds) (rr_calls res) (new_XmlReporter os) = Inr r \<and> m_tags (m_xml r) = []"
proof -
  from assms(1,2) obtain config s1 where c: "session_config (pr_aliases prog) s = Inr (config, s1)" and s': "s' = s1"
    by (auto simp: runInternal_def bindE_eq_Inr dest!: makes_no_calls split: if_splits sum.splits)
  from c assms(3) have new: "new_Config (pr_aliases prog) (m_configData s) = Inr config" and s1: "m_config s1 = Some config"
    by (auto simp: session_config_def bindE_eq_Inr)
  have "xml_view config Not_started (new_XmlReporter os)"
    using new_Config_filters [OF new] by (simp add: xml_view_def new_XmlReporter_def XmlReporter.defs StreamingReporterBase.defs
      new_StreamingReporterBase_def new_XmlWriter_def writeDeclaration_def)
  from xml.accepts_all [OF session_calls [OF assms(1,2)] this] s1 s' show ?thesis by (fastforce simp: xml_view_def)
qed

subsection \<open>A session with one test\<close>

text \<open>The loop over the cycles is evaluated by its equation.\<close>

declare run_cycles.simps [code]

definition sample_program :: "unit program" where
  "sample_program = \<lparr>pr_here = sample_place, pr_next = (\<lambda>g. (False, g)), pr_sort = insertion_sort, pr_sort_hashed = insertion_sort,
     pr_aliases = [], pr_translators = [], pr_body = (\<lambda>t. sample_body), pr_factories = [(''xml'', [])],
     pr_preferences = (\<lambda>name. xml_preferences), pr_listeners = 0,
     pr_files = Map.empty, pr_time = 0\<rparr>"

definition sample_session :: Session where
  "sample_session = \<lparr>m_configData = default_ConfigData\<lparr>reporterName := ''xml''\<rparr>, m_config = None, m_startupExceptions = False, m_cli = new_Parser\<rparr>"

definition sample_process :: process where
  "sample_process = \<lparr>pc_registry = registerTest (named_test ''book'') 1 new_TestRegistry, pc_rng = 0, pc_messages = 0\<rparr>"

definition group_ended :: "reporter_event \<Rightarrow> bool" where
  "group_ended e = (case e of Ev_testGroupEnded _ \<Rightarrow> True | _ \<Rightarrow> False)"

lemma group_endedD: "group_ended e \<Longrightarrow> \<exists>st. e = Ev_testGroupEnded st"
  by (cases e) (auto simp: group_ended_def)

lemma sample_session_runs:
  obtains res s' pc' where "runInternal sample_program sample_session sample_process = Some (Inr (res, s', pc'))"
    and "rr_calls res \<noteq> []" and "map (\<lambda>t. unat (failed (assertions t))) (ended_totals (rr_calls res)) = [1]"
    and "rr_listed res = []" and "\<exists>st. Ev_testGroupEnded st \<in> set (rr_calls res)"
proof -
  have "case runInternal sample_program sample_session sample_process of
      Some (Inr (res, s', pc')) \<Rightarrow> rr_calls res \<noteq> [] \<and> map (\<lambda>t. unat (failed (assertions t))) (ended_totals (rr_calls res)) = [1] \<and>
        rr_listed res = [] \<and> list_ex group_ended (rr_calls res)
    | _ \<Rightarrow> False" by code_simp
  then show ?thesis using that by (fastforce simp: list_ex_iff dest!: group_endedD split: option.splits sum.splits)
qed

theorem group_runs_what_is_listed_witness:
  "\<exists>totals pc' rc'. run_group sample_program sample_config xml_preferences sample_process = Some (Inr (Inr totals, pc', rc')) \<and>
    tests_heard (m_reported rc') = [named_test ''book'']"
proof -
  have "case run_group sample_program sample_config xml_preferences sample_process of
    Some (Inr (Inr totals, pc', rc')) \<Rightarrow> True | _ \<Rightarrow> False" by code_simp
  then obtain totals pc' rc' where r: "run_group sample_program sample_config xml_preferences sample_process = Some (Inr (Inr totals, pc', rc'))"
    by (auto split: option.splits sum.splits) (metis sum.exhaust)
  have "case matched_tests sample_program sample_config sample_process of
      Inr (tests, pc1) \<Rightarrow> map th_info tests = [named_test ''book''] | _ \<Rightarrow> False"
    and "m_invalidArgs (cf_testSpec sample_config) = []" by code_simp+
  with r group_runs_what_is_listed [OF r] show ?thesis by auto
qed

theorem exit_code_tells_witness:
  "\<exists>res s' pc'. runInternal sample_program sample_session sample_process = Some (Inr (res, s', pc')) \<and>
    rr_code res = 1"
proof (rule sample_session_runs)
  fix res s' pc'
  assume r: "runInternal sample_program sample_session sample_process = Some (Inr (res, s', pc'))"
    and f: "map (\<lambda>t. unat (failed (assertions t))) (ended_totals (rr_calls res)) = [1]"
    and e: "rr_listed res = []" "\<exists>st. Ev_testGroupEnded st \<in> set (rr_calls res)"
  obtain config s1 where c: "session_config (pr_aliases sample_program) sample_session = Inr (config, s1)"
    and d: "cd_warnings (m_data config) = WarnAbout_Nothing"
    by (auto simp: session_config_def new_Config_def sample_session_def default_ConfigData_def)
  have "\<not> warnAboutNoTests config" using d by (simp add: warnAboutNoTests_def WarnAbout_Nothing_def)
  moreover have "\<not> m_startupExceptions sample_session" "\<not> cd_showHelp (m_configData sample_session)"
    "\<not> libIdentify (m_configData sample_session)" by (simp_all add: sample_session_def default_ConfigData_def)
  ultimately show ?thesis using exit_code_tells [OF r c] f e r by auto
qed

theorem xml_document_closed_witness:
  "\<exists>res s' pc' config r. runInternal sample_program sample_session sample_process = Some (Inr (res, s', pc')) \<and>
    foldE (xml_report config []) (rr_calls res) (new_XmlReporter []) = Inr r \<and> m_tags (m_xml r) = []"
proof (rule sample_session_runs)
  fix res s' pc'
  assume r: "runInternal sample_program sample_session sample_process = Some (Inr (res, s', pc'))" and n: "rr_calls res \<noteq> []"
  have "m_config sample_session = None" by (simp add: sample_session_def)
  from xml_document_closed [OF r n this] r show ?thesis by blast
qed

end
