(* ===== verification/Catch_Generators.thy ===== *)
theory Catch_Generators
  imports Std_Strings
begin

section \<open>Generators\<close>

text \<open>
  The generators of test data: a current value (\<open>get\<close>) and a step to the next one (\<open>next\<close>, here \<open>nxt\<close>), which tells
  whether there is one. The interface \<open>IGenerator\<close> is a locale; what wraps another generator takes the
  two operations of that one as arguments. \<open>get\<close> may change the state, as it does in \<open>RepeatGenerator\<close>; a step may not
  end, as a filter may look for ever.
\<close>

type_synonym ('s, 'a) getter = "'s \<Rightarrow> ('a \<times> 's) res"

type_synonym 's stepper = "'s \<Rightarrow> (bool \<times> 's) res option"

subsection \<open>Values\<close>

definition single_get :: "('a, 'a) getter" where
  "single_get m_value = Inr (m_value, m_value)"

definition single_nxt :: "'a stepper" where
  "single_nxt m_value = Some (Inr (False, m_value))"

record 'a FixedValuesGenerator =
  m_values :: "'a list"
  m_idx :: nat

definition new_FixedValues :: "'a list \<Rightarrow> 'a FixedValuesGenerator" where
  "new_FixedValues values = \<lparr>m_values = values, m_idx = 0\<rparr>"

definition fixed_get :: "('a FixedValuesGenerator, 'a) getter" where
  "fixed_get g = (if m_idx g < length (m_values g) then Inr (m_values g ! m_idx g, g) else Inl Undefined)"

definition fixed_nxt :: "'a FixedValuesGenerator stepper" where
  "fixed_nxt g = (let g1 = g\<lparr>m_idx := m_idx g + 1\<rparr> in Some (Inr (m_idx g1 < length (m_values g1), g1)))"

text \<open>\<open>IteratorGenerator\<close> is the same but for its constructor and its test for the end.\<close>

definition new_IteratorGenerator :: "'a list \<Rightarrow> 'a FixedValuesGenerator res" where
  "new_IteratorGenerator elems = (if elems = [] then Inl Generator_Exception else Inr \<lparr>m_values = elems, m_idx = 0\<rparr>)"

definition iterator_nxt :: "'a FixedValuesGenerator stepper" where
  "iterator_nxt g = (let g1 = g\<lparr>m_idx := m_idx g + 1\<rparr> in Some (Inr (m_idx g1 \<noteq> length (m_values g1), g1)))"

text \<open>\<open>Generators\<close>, the one that \<open>GENERATE\<close> makes: one generator after the other.\<close>

record 'g Generators =
  m_generators :: "'g list"
  m_current :: nat

definition makeGenerators :: "'g list \<Rightarrow> 'g Generators" where
  "makeGenerators gs = \<lparr>m_generators = gs, m_current = 0\<rparr>"

definition seq_get :: "('g, 'a) getter \<Rightarrow> ('g Generators, 'a) getter" where
  "seq_get get g = (if m_current g < length (m_generators g) then
       bindE (get (m_generators g ! m_current g)) (\<lambda>(v, h). Inr (v, g\<lparr>m_generators := (m_generators g)[m_current g := h]\<rparr>))
     else Inl Undefined)"

definition seq_nxt :: "'g stepper \<Rightarrow> 'g Generators stepper" where
  "seq_nxt nxt g = (if m_current g \<ge> length (m_generators g) then Some (Inr (False, g))
     else case nxt (m_generators g ! m_current g) of
         None \<Rightarrow> None
       | Some (Inl e) \<Rightarrow> Some (Inl e)
       | Some (Inr (current_status, h)) \<Rightarrow>
           let g1 = g\<lparr>m_generators := (m_generators g)[m_current g := h],
             m_current := (if current_status then m_current g else m_current g + 1)\<rparr>
           in Some (Inr (m_current g1 < length (m_generators g1), g1)))"

subsection \<open>Adapters\<close>

record 'g TakeGenerator =
  t_generator :: 'g
  t_returned :: nat
  t_target :: nat

definition new_Take :: "nat \<Rightarrow> 'g \<Rightarrow> 'g TakeGenerator res" where
  "new_Take target g = (if target \<noteq> 0 then Inr \<lparr>t_generator = g, t_returned = 0, t_target = target\<rparr> else Inl Assert_Failed)"

definition take_get :: "('g, 'a) getter \<Rightarrow> ('g TakeGenerator, 'a) getter" where
  "take_get get t = bindE (get (t_generator t)) (\<lambda>(v, g). Inr (v, t\<lparr>t_generator := g\<rparr>))"

definition take_nxt :: "'g stepper \<Rightarrow> 'g TakeGenerator stepper" where
  "take_nxt nxt t = (let t1 = t\<lparr>t_returned := t_returned t + 1\<rparr> in
     if t_returned t1 \<ge> t_target t1 then Some (Inr (False, t1))
     else case nxt (t_generator t1) of
         None \<Rightarrow> None
       | Some (Inl e) \<Rightarrow> Some (Inl e)
       | Some (Inr (success, g)) \<Rightarrow> let t2 = t1\<lparr>t_generator := g\<rparr>
           in Some (Inr (success, if \<not> success then t2\<lparr>t_returned := t_target t2\<rparr> else t2)))"

text \<open>The predicate of a filter is fixed; its state is that of the generator in it.\<close>

partial_function (option) filter_scan :: "('g, 'a) getter \<Rightarrow> 'g stepper \<Rightarrow> ('a \<Rightarrow> bool) \<Rightarrow> 'g stepper" where
  "filter_scan get nxt predicate g = (case get g of
       Inl e \<Rightarrow> Some (Inl e)
     | Inr (v, g1) \<Rightarrow> if predicate v then Some (Inr (True, g1))
         else (case nxt g1 of
             None \<Rightarrow> None
           | Some (Inl e) \<Rightarrow> Some (Inl e)
           | Some (Inr (success, g2)) \<Rightarrow> if success then filter_scan get nxt predicate g2 else Some (Inr (False, g2))))"

definition filter_nxt :: "('g, 'a) getter \<Rightarrow> 'g stepper \<Rightarrow> ('a \<Rightarrow> bool) \<Rightarrow> 'g stepper" where
  "filter_nxt get nxt predicate g = (case nxt g of
       None \<Rightarrow> None
     | Some (Inl e) \<Rightarrow> Some (Inl e)
     | Some (Inr (success, g1)) \<Rightarrow> if \<not> success then Some (Inr (False, g1)) else filter_scan get nxt predicate g1)"

definition new_Filter :: "('g, 'a) getter \<Rightarrow> 'g stepper \<Rightarrow> ('a \<Rightarrow> bool) \<Rightarrow> 'g \<Rightarrow> 'g res option" where
  "new_Filter get nxt predicate g = (case get g of
       Inl e \<Rightarrow> Some (Inl e)
     | Inr (v, g1) \<Rightarrow> if predicate v then Some (Inr g1)
         else map_option (\<lambda>r. bindE r (\<lambda>(has_initial_value, g2). if has_initial_value then Inr g2 else Inl Generator_Exception))
           (filter_nxt get nxt predicate g1))"

record ('g, 'a) RepeatGenerator =
  r_generator :: 'g
  r_returned :: "'a list"
  r_target_repeats :: nat
  r_current_repeat :: nat
  r_repeat_index :: nat

definition new_Repeat :: "nat \<Rightarrow> 'g \<Rightarrow> ('g, 'a) RepeatGenerator res" where
  "new_Repeat repeats g = (if repeats > 0 then Inr \<lparr>r_generator = g, r_returned = [], r_target_repeats = repeats,
     r_current_repeat = 0, r_repeat_index = 0\<rparr> else Inl Assert_Failed)"

definition repeat_get :: "('g, 'a) getter \<Rightarrow> (('g, 'a) RepeatGenerator, 'a) getter" where
  "repeat_get get r = (if r_current_repeat r = 0 then
       bindE (get (r_generator r)) (\<lambda>(v, g). Inr (v, r\<lparr>r_generator := g, r_returned := r_returned r @ [v]\<rparr>))
     else if r_repeat_index r < length (r_returned r) then Inr (r_returned r ! r_repeat_index r, r) else Inl Undefined)"

definition repeat_nxt :: "'g stepper \<Rightarrow> ('g, 'a) RepeatGenerator stepper" where
  "repeat_nxt nxt r =
     (if r_current_repeat r = 0 then
        (case nxt (r_generator r) of
            None \<Rightarrow> None
          | Some (Inl e) \<Rightarrow> Some (Inl e)
          | Some (Inr (success, g)) \<Rightarrow>
              let r1 = r\<lparr>r_generator := g, r_current_repeat := (if success then 0 else 1)\<rparr>
              in Some (Inr (r_current_repeat r1 < r_target_repeats r1, r1)))
      else let i = r_repeat_index r + 1;
               r1 = (if i = length (r_returned r) then r\<lparr>r_repeat_index := 0, r_current_repeat := r_current_repeat r + 1\<rparr>
                     else r\<lparr>r_repeat_index := i\<rparr>)
           in Some (Inr (r_current_repeat r1 < r_target_repeats r1, r1)))"

record ('g, 'b) MapGenerator =
  mp_generator :: 'g
  mp_cache :: 'b

definition new_Map :: "('g, 'a) getter \<Rightarrow> ('a \<Rightarrow> 'b) \<Rightarrow> 'g \<Rightarrow> ('g, 'b) MapGenerator res" where
  "new_Map get func g = bindE (get g) (\<lambda>(v, g1). Inr \<lparr>mp_generator = g1, mp_cache = func v\<rparr>)"

definition map_get :: "(('g, 'b) MapGenerator, 'b) getter" where
  "map_get m = Inr (mp_cache m, m)"

definition map_nxt :: "('g, 'a) getter \<Rightarrow> 'g stepper \<Rightarrow> ('a \<Rightarrow> 'b) \<Rightarrow> ('g, 'b) MapGenerator stepper" where
  "map_nxt get nxt func m = (case nxt (mp_generator m) of
       None \<Rightarrow> None
     | Some (Inl e) \<Rightarrow> Some (Inl e)
     | Some (Inr (success, g)) \<Rightarrow> if \<not> success then Some (Inr (False, m\<lparr>mp_generator := g\<rparr>))
         else Some (bindE (get g) (\<lambda>(v, g1). Inr (True, m\<lparr>mp_generator := g1, mp_cache := func v\<rparr>))))"

record ('g, 'a) ChunkGenerator =
  ch_chunk :: "'a list"
  ch_size :: nat
  ch_generator :: 'g

text \<open>Reading \<open>n\<close> further values behind those that are read.\<close>

fun read_chunk :: "('g, 'a) getter \<Rightarrow> 'g stepper \<Rightarrow> nat \<Rightarrow> 'a list \<Rightarrow> 'g \<Rightarrow> (bool \<times> 'a list \<times> 'g) res option" where
  "read_chunk get nxt 0 chunk g = Some (Inr (True, chunk, g))"
| "read_chunk get nxt (Suc n) chunk g = (case nxt g of
       None \<Rightarrow> None
     | Some (Inl e) \<Rightarrow> Some (Inl e)
     | Some (Inr (success, g1)) \<Rightarrow> if \<not> success then Some (Inr (False, chunk, g1))
         else (case get g1 of
             Inl e \<Rightarrow> Some (Inl e)
           | Inr (v, g2) \<Rightarrow> read_chunk get nxt n (chunk @ [v]) g2))"

definition new_Chunk :: "('g, 'a) getter \<Rightarrow> 'g stepper \<Rightarrow> nat \<Rightarrow> 'g \<Rightarrow> ('g, 'a) ChunkGenerator res option" where
  "new_Chunk get nxt sz g = (if sz = 0 then Some (Inr \<lparr>ch_chunk = [], ch_size = sz, ch_generator = g\<rparr>)
     else case get g of
         Inl e \<Rightarrow> Some (Inl e)
       | Inr (v, g1) \<Rightarrow> map_option (\<lambda>r. bindE r (\<lambda>(enough, chunk, g2).
             if enough then Inr \<lparr>ch_chunk = chunk, ch_size = sz, ch_generator = g2\<rparr> else Inl Generator_Exception))
           (read_chunk get nxt (sz - 1) [v] g1))"

definition chunk_get :: "(('g, 'a) ChunkGenerator, 'a list) getter" where
  "chunk_get c = Inr (ch_chunk c, c)"

definition chunk_nxt :: "('g, 'a) getter \<Rightarrow> 'g stepper \<Rightarrow> ('g, 'a) ChunkGenerator stepper" where
  "chunk_nxt get nxt c = map_option (\<lambda>r. bindE r (\<lambda>(enough, chunk, g).
     Inr (enough, c\<lparr>ch_chunk := chunk, ch_generator := g\<rparr>))) (read_chunk get nxt (ch_size c) [] (ch_generator c))"

subsection \<open>Ranges\<close>

text \<open>For \<open>int\<close>: the sum in \<open>next\<close> is undefined when it leaves the range of the type.\<close>

record RangeGenerator =
  rg_current :: int
  rg_end :: int
  rg_step :: int
  rg_positive :: bool

definition new_Range :: "int \<Rightarrow> int \<Rightarrow> int \<Rightarrow> RangeGenerator res" where
  "new_Range start stop stp = (let positive = (stp > 0) in
     if start \<noteq> stop \<and> stp \<noteq> 0 \<and> (positive \<and> start \<le> stop \<or> \<not> positive \<and> start \<ge> stop)
     then Inr \<lparr>rg_current = start, rg_end = stop, rg_step = stp, rg_positive = positive\<rparr> else Inl Assert_Failed)"

definition new_unit_Range :: "int \<Rightarrow> int \<Rightarrow> RangeGenerator res" where
  "new_unit_Range start stop = new_Range start stop (if start < stop then 1 else -1)"

definition range_get :: "(RangeGenerator, int) getter" where
  "range_get r = Inr (rg_current r, r)"

definition range_nxt :: "RangeGenerator stepper" where
  "range_nxt r = (case int_range (rg_current r + rg_step r) of
       Inl _ \<Rightarrow> Some (Inl Undefined)
     | Inr c \<Rightarrow> Some (Inr (if rg_positive r then c < rg_end r else c > rg_end r, r\<lparr>rg_current := c\<rparr>)))"

subsection \<open>What a test sees\<close>

text \<open>\<open>GENERATE\<close> reads a value in every cycle and steps at its end; \<open>n\<close> is a bound for the number of values.\<close>

fun generated :: "('g, 'a) getter \<Rightarrow> 'g stepper \<Rightarrow> nat \<Rightarrow> 'g \<Rightarrow> 'a list res option" where
  "generated get nxt 0 g = None"
| "generated get nxt (Suc n) g = (case get g of
       Inl e \<Rightarrow> Some (Inl e)
     | Inr (v, g1) \<Rightarrow> (case nxt g1 of
           None \<Rightarrow> None
         | Some (Inl e) \<Rightarrow> Some (Inl e)
         | Some (Inr (again, g2)) \<Rightarrow> if \<not> again then Some (Inr [v])
             else map_option (\<lambda>r. bindE r (\<lambda>vs. Inr (v # vs))) (generated get nxt n g2)))"

subsection \<open>The interface\<close>

text \<open>
  A generator stands for the values that are still to come, the current one first. \<open>fresh\<close> relates a generator whose
  current value was not read to them, \<open>was_read\<close> one whose current value was. \<open>IGenerator\<close> is the contract of the
  class, whose \<open>get\<close> is a constant method: reading makes no difference. A generator that must be read just once between
  two steps keeps the weaker contract only.
\<close>

locale read_once =
  fixes get :: "('g, 'a) getter" and nxt :: "'g stepper"
    and fresh :: "'g \<Rightarrow> 'a list \<Rightarrow> bool" and was_read :: "'g \<Rightarrow> 'a list \<Rightarrow> bool"
  assumes get_law: "fresh g (x # xs) \<Longrightarrow> \<exists>g'. get g = Inr (x, g') \<and> was_read g' (x # xs)"
    and nxt_law: "was_read g (x # xs) \<Longrightarrow> \<exists>g'. nxt g = Some (Inr (xs \<noteq> [], g')) \<and> (xs \<noteq> [] \<longrightarrow> fresh g' xs)"
begin

lemma getE:
  assumes "fresh g (x # xs)"
  obtains g' where "get g = Inr (x, g')" and "was_read g' (x # xs)"
  using get_law [OF assms] by blast

lemma nxtE:
  assumes "was_read g (x # xs)"
  obtains (last) g' where "nxt g = Some (Inr (False, g'))" and "xs = []"
  | (more) g' where "nxt g = Some (Inr (True, g'))" and "xs \<noteq> []" and "fresh g' xs"
  using nxt_law [OF assms] by (cases "xs = []") auto

lemma all_generated: "fresh g xs \<Longrightarrow> xs \<noteq> [] \<Longrightarrow> length xs \<le> n \<Longrightarrow> generated get nxt n g = Some (Inr xs)"
proof (induction xs arbitrary: g n)
  case Nil
  then show ?case by simp
next
  case (Cons x xs)
  then obtain m where m: "n = Suc m" "length xs \<le> m" by (cases n) auto
  from Cons.prems(1) obtain g1 where g1: "get g = Inr (x, g1)" "was_read g1 (x # xs)" by (rule getE)
  from g1(2) show ?case
  proof (cases rule: nxtE)
    case (last g2)
    with g1 m show ?thesis by simp
  next
    case (more g2)
    with Cons.IH [OF more(3) more(2) m(2)] g1 m show ?thesis by simp
  qed
qed

end

locale IGenerator =
  fixes get :: "('g, 'a) getter" and nxt :: "'g stepper" and holds :: "'g \<Rightarrow> 'a list \<Rightarrow> bool"
  assumes keeps: "read_once get nxt holds holds"

sublocale IGenerator \<subseteq> once: read_once get nxt holds holds
  by (rule keeps)

subsection \<open>Every generator keeps the contract\<close>

definition single_holds :: "'a \<Rightarrow> 'a list \<Rightarrow> bool" where
  "single_holds v xs \<longleftrightarrow> xs = [v]"

definition fixed_holds :: "'a FixedValuesGenerator \<Rightarrow> 'a list \<Rightarrow> bool" where
  "fixed_holds g xs \<longleftrightarrow> xs = drop (m_idx g) (m_values g)"

interpretation single: IGenerator single_get single_nxt single_holds
  by unfold_locales (auto simp: single_get_def single_nxt_def single_holds_def)

lemma drop_Cons_facts:
  assumes "x # xs = drop i ys"
  shows "i < length ys" and "ys ! i = x" and "drop (Suc i) ys = xs" and "Suc i < length ys \<longleftrightarrow> xs \<noteq> []" and "Suc i \<noteq> length ys \<longleftrightarrow> xs \<noteq> []"
proof -
  show i: "i < length ys" using assms by (metis drop_eq_Nil leI list.distinct(1))
  have split: "drop i ys = ys ! i # drop (Suc i) ys" using i by (rule Cons_nth_drop_Suc [symmetric])
  show "ys ! i = x" and xs: "drop (Suc i) ys = xs" using assms split by auto
  show "Suc i < length ys \<longleftrightarrow> xs \<noteq> []" and "Suc i \<noteq> length ys \<longleftrightarrow> xs \<noteq> []"
    using i by (auto simp: xs [symmetric])
qed

lemmas fixed_defs = fixed_get_def fixed_nxt_def iterator_nxt_def fixed_holds_def

interpretation fixed: IGenerator fixed_get fixed_nxt fixed_holds
  by unfold_locales (auto simp: fixed_defs dest: drop_Cons_facts)

interpretation iter: IGenerator fixed_get iterator_nxt fixed_holds
  by unfold_locales (auto simp: fixed_defs dest: drop_Cons_facts)

subsection \<open>Every adapter keeps it\<close>

text \<open>What is left of the generator in the adapter, seen through the adapter.\<close>

definition take_left :: "('g \<Rightarrow> 'a list \<Rightarrow> bool) \<Rightarrow> 'g TakeGenerator \<Rightarrow> 'a list \<Rightarrow> bool" where
  "take_left holds t ys \<longleftrightarrow> (\<exists>xs. holds (t_generator t) xs \<and> ys = take (t_target t - t_returned t) xs)"

definition filter_left :: "('g \<Rightarrow> 'a list \<Rightarrow> bool) \<Rightarrow> ('a \<Rightarrow> bool) \<Rightarrow> 'g \<Rightarrow> 'a list \<Rightarrow> bool" where
  "filter_left holds P g ys \<longleftrightarrow> (\<exists>x xs. holds g (x # xs) \<and> P x \<and> ys = x # filter P xs)"

definition map_left :: "('g \<Rightarrow> 'a list \<Rightarrow> bool) \<Rightarrow> ('a \<Rightarrow> 'b) \<Rightarrow> ('g, 'b) MapGenerator \<Rightarrow> 'b list \<Rightarrow> bool" where
  "map_left read f m ys \<longleftrightarrow> (\<exists>x xs. read (mp_generator m) (x # xs) \<and> mp_cache m = f x \<and> ys = f x # List.map f xs)"

lemma Cons_eq_take: "y # ys = take k xs \<longleftrightarrow> (\<exists>n zs. k = Suc n \<and> xs = y # zs \<and> ys = take n zs)"
  by (cases k; cases xs) auto

context read_once
begin

lemma take_keeps: "read_once (take_get get) (take_nxt nxt) (take_left fresh) (take_left was_read)"
proof
  fix t x ys
  assume "take_left fresh t (x # ys)"
  then obtain xs n where xs: "fresh (t_generator t) (x # xs)" "ys = take n xs" "t_target t - t_returned t = Suc n"
    unfolding take_left_def Cons_eq_take by blast
  from xs(1) obtain g where g: "get (t_generator t) = Inr (x, g)" "was_read g (x # xs)" by (rule getE)
  have "take_left was_read (t\<lparr>t_generator := g\<rparr>) (x # ys)"
    unfolding take_left_def using g(2) xs(2,3) by (intro exI [of _ "x # xs"]) simp
  with g(1) show "\<exists>t'. take_get get t = Inr (x, t') \<and> take_left was_read t' (x # ys)"
    by (simp add: take_get_def)
next
  fix t x ys
  assume "take_left was_read t (x # ys)"
  then obtain xs n where xs: "was_read (t_generator t) (x # xs)" "ys = take n xs" and n: "t_target t - t_returned t = Suc n"
    unfolding take_left_def Cons_eq_take by blast
  show "\<exists>t'. take_nxt nxt t = Some (Inr (ys \<noteq> [], t')) \<and> (ys \<noteq> [] \<longrightarrow> take_left fresh t' ys)"
  proof (cases "t_returned t + 1 \<ge> t_target t")
    case True
    then have "n = 0" using n by arith
    then show ?thesis using True xs(2) by (simp add: take_nxt_def)
  next
    case False
    then have n0: "n \<noteq> 0" and n1: "n = t_target t - (t_returned t + 1)" using n by arith+
    from xs(1) show ?thesis
    proof (cases rule: nxtE)
      case (last g)
      with False xs(2) show ?thesis by (simp add: take_nxt_def)
    next
      case (more g)
      with False xs(2) n0 n1 show ?thesis by (auto simp: take_nxt_def take_left_def)
    qed
  qed
qed

lemma map_keeps: "IGenerator map_get (map_nxt get nxt f) (map_left was_read f)"
proof (rule IGenerator.intro, unfold_locales)
  show "\<exists>m'. map_get m = Inr (y, m') \<and> map_left was_read f m' (y # ys)" if "map_left was_read f m (y # ys)" for m y ys
    using that by (auto simp: map_get_def map_left_def)
  show "\<exists>m'. map_nxt get nxt f m = Some (Inr (ys \<noteq> [], m')) \<and> (ys \<noteq> [] \<longrightarrow> map_left was_read f m' ys)"
    if left: "map_left was_read f m (y # ys)" for m y ys
  proof -
    obtain x xs where xs: "was_read (mp_generator m) (x # xs)" "ys = List.map f xs" using left by (auto simp: map_left_def)
    from xs(1) show ?thesis
    proof (cases rule: nxtE)
      case (last g)
      with xs(2) show ?thesis by (simp add: map_nxt_def)
    next
      case (more g)
      then obtain x2 xs2 where x2: "xs = x2 # xs2" by (cases xs) auto
      with more obtain g2 where "get g = Inr (x2, g2)" "was_read g2 (x2 # xs2)" by (auto elim: getE)
      with more x2 xs(2) show ?thesis by (auto simp: map_nxt_def map_left_def)
    qed
  qed
qed

lemma new_map:
  assumes "fresh g (x # xs)"
  shows "\<exists>m. new_Map get f g = Inr m \<and> map_left was_read f m (List.map f (x # xs))"
proof -
  from assms obtain g' where g': "get g = Inr (x, g')" "was_read g' (x # xs)" by (rule getE)
  have "map_left was_read f \<lparr>mp_generator = g', mp_cache = f x\<rparr> (List.map f (x # xs))"
    unfolding map_left_def using g'(2) by (intro exI [of _ x] exI [of _ xs]) simp
  with g'(1) show ?thesis by (simp add: new_Map_def)
qed

end

context IGenerator
begin

lemma scan_keeps:
  "holds g (x # xs) \<Longrightarrow> \<exists>g'. filter_scan get nxt P g = Some (Inr (filter P (x # xs) \<noteq> [], g')) \<and>
     (filter P (x # xs) \<noteq> [] \<longrightarrow> filter_left holds P g' (filter P (x # xs)))"
proof (induction xs arbitrary: g x)
  case Nil
  from Nil obtain g1 where g1: "get g = Inr (x, g1)" "holds g1 [x]" by (rule once.getE)
  from g1(2) obtain g2 where "nxt g1 = Some (Inr (False, g2))" by (cases rule: once.nxtE) auto
  with g1 show ?case by (subst filter_scan.simps) (auto simp: filter_left_def)
next
  case (Cons y ys)
  from Cons.prems obtain g1 where g1: "get g = Inr (x, g1)" "holds g1 (x # y # ys)" by (rule once.getE)
  then obtain g2 where g2: "nxt g1 = Some (Inr (True, g2))" "holds g2 (y # ys)" by (auto elim: once.nxtE)
  show ?case
  proof (cases "P x")
    case True
    with g1 show ?thesis by (subst filter_scan.simps) (auto simp: filter_left_def)
  next
    case False
    then have "filter_scan get nxt P g = filter_scan get nxt P g2" using g1 g2 by (subst filter_scan.simps) simp
    then show ?thesis using Cons.IH [OF g2(2)] False by simp
  qed
qed

lemma filter_nxt_keeps:
  assumes "holds g (x # xs)"
  shows "\<exists>g'. filter_nxt get nxt P g = Some (Inr (filter P xs \<noteq> [], g')) \<and>
     (filter P xs \<noteq> [] \<longrightarrow> filter_left holds P g' (filter P xs))"
  using assms
proof (cases rule: once.nxtE)
  case (last g')
  then show ?thesis by (simp add: filter_nxt_def)
next
  case (more g')
  then show ?thesis using scan_keeps [of g' "hd xs" "tl xs" P] by (simp add: filter_nxt_def)
qed

lemma filter_keeps: "IGenerator get (filter_nxt get nxt P) (filter_left holds P)"
proof (rule IGenerator.intro, unfold_locales)
  show "\<exists>g'. get g = Inr (y, g') \<and> filter_left holds P g' (y # ys)" if "filter_left holds P g (y # ys)" for g y ys
    using that once.get_law by (auto simp: filter_left_def) blast
  show "\<exists>g'. filter_nxt get nxt P g = Some (Inr (ys \<noteq> [], g')) \<and> (ys \<noteq> [] \<longrightarrow> filter_left holds P g' ys)"
    if "filter_left holds P g (y # ys)" for g y ys
    using that filter_nxt_keeps by (auto simp: filter_left_def)
qed

lemma new_filter:
  assumes "holds g (x # xs)"
  shows "if filter P (x # xs) = [] then new_Filter get nxt P g = Some (Inl Generator_Exception)
     else \<exists>g'. new_Filter get nxt P g = Some (Inr g') \<and> filter_left holds P g' (filter P (x # xs))"
proof -
  from assms obtain g1 where g1: "get g = Inr (x, g1)" "holds g1 (x # xs)" by (rule once.getE)
  show ?thesis
  proof (cases "P x")
    case True
    with g1 show ?thesis by (auto simp: new_Filter_def filter_left_def)
  next
    case False
    with g1 show ?thesis using filter_nxt_keeps [OF g1(2), of P] by (auto simp: new_Filter_def)
  qed
qed

end

subsection \<open>Repeating, chunks and sequences\<close>

text \<open>
  In the first round the values are kept as they are read, so that a further round delivers what was kept and what is
  still to be read.
\<close>

definition repeat_fresh :: "('g \<Rightarrow> 'a list \<Rightarrow> bool) \<Rightarrow> ('g, 'a) RepeatGenerator \<Rightarrow> 'a list \<Rightarrow> bool" where
  "repeat_fresh fresh r ys \<longleftrightarrow> r_current_repeat r < r_target_repeats r \<and>
     (if r_current_repeat r = 0
      then r_repeat_index r = 0 \<and> (\<exists>x xs. fresh (r_generator r) (x # xs) \<and>
        ys = (x # xs) @ concat (replicate (r_target_repeats r - 1) (r_returned r @ x # xs)))
      else r_repeat_index r < length (r_returned r) \<and> ys = drop (r_repeat_index r) (r_returned r) @
        concat (replicate (r_target_repeats r - 1 - r_current_repeat r) (r_returned r)))"

definition repeat_read :: "('g \<Rightarrow> 'a list \<Rightarrow> bool) \<Rightarrow> ('g, 'a) RepeatGenerator \<Rightarrow> 'a list \<Rightarrow> bool" where
  "repeat_read read r ys \<longleftrightarrow> r_current_repeat r < r_target_repeats r \<and> r_returned r \<noteq> [] \<and>
     (if r_current_repeat r = 0
      then r_repeat_index r = 0 \<and> (\<exists>x xs. read (r_generator r) (x # xs) \<and>
        ys = (x # xs) @ concat (replicate (r_target_repeats r - 1) (r_returned r @ xs)))
      else r_repeat_index r < length (r_returned r) \<and> ys = drop (r_repeat_index r) (r_returned r) @
        concat (replicate (r_target_repeats r - 1 - r_current_repeat r) (r_returned r)))"

lemma concat_replicate_pos: "0 < n \<Longrightarrow> concat (replicate n xs) = xs @ concat (replicate (n - 1) xs)"
  by (cases n) simp_all

context read_once
begin

lemma repeat_get_keeps:
  assumes "repeat_fresh fresh r (y # ys)"
  shows "\<exists>r'. repeat_get get r = Inr (y, r') \<and> repeat_read was_read r' (y # ys)"
proof (cases "r_current_repeat r = 0")
  case True
  then obtain x xs where xs: "fresh (r_generator r) (x # xs)"
      "y # ys = (x # xs) @ concat (replicate (r_target_repeats r - 1) (r_returned r @ x # xs))"
      and more: "0 < r_target_repeats r" "r_repeat_index r = 0" using assms by (auto simp: repeat_fresh_def)
  from xs(1) obtain g where g: "get (r_generator r) = Inr (x, g)" "was_read g (x # xs)" by (rule getE)
  have "repeat_read was_read (r\<lparr>r_generator := g, r_returned := r_returned r @ [x]\<rparr>) (y # ys)"
    using True more g(2) xs(2) by (auto simp: repeat_read_def)
  with True g(1) xs(2) show ?thesis by (simp add: repeat_get_def)
next
  case False
  then have "r_returned r \<noteq> []" using assms by (auto simp: repeat_fresh_def)
  then show ?thesis using False assms
    by (auto simp: repeat_fresh_def repeat_read_def repeat_get_def Cons_nth_drop_Suc [symmetric])
qed

lemma repeat_nxt_reading:
  assumes "repeat_read was_read r (y # ys)" and start: "r_current_repeat r = 0"
  shows "\<exists>r'. repeat_nxt nxt r = Some (Inr (ys \<noteq> [], r')) \<and> (ys \<noteq> [] \<longrightarrow> repeat_fresh fresh r' ys)"
proof -
  obtain x xs where xs: "was_read (r_generator r) (x # xs)"
      "ys = xs @ concat (replicate (r_target_repeats r - 1) (r_returned r @ xs))"
    and more: "0 < r_target_repeats r" "r_repeat_index r = 0" "r_returned r \<noteq> []" using assms by (auto simp: repeat_read_def)
  from xs(1) show ?thesis
  proof (cases rule: nxtE)
    case (last g)
    then have "ys = concat (replicate (r_target_repeats r - 1) (r_returned r))" using xs(2) by simp
    then show ?thesis using last start more
      by (auto simp: repeat_nxt_def repeat_fresh_def Let_def concat_replicate_pos)
  next
    case (more g)
    then obtain x2 xs2 where "xs = x2 # xs2" by (cases xs) auto
    with more xs(2) start \<open>0 < r_target_repeats r\<close> \<open>r_repeat_index r = 0\<close> show ?thesis
      by (auto simp: repeat_nxt_def repeat_fresh_def)
  qed
qed

lemma repeat_nxt_cached:
  assumes "repeat_read was_read r (y # ys)" and start: "r_current_repeat r \<noteq> 0"
  shows "\<exists>r'. repeat_nxt nxt r = Some (Inr (ys \<noteq> [], r')) \<and> (ys \<noteq> [] \<longrightarrow> repeat_fresh fresh r' ys)"
proof -
  let ?i = "r_repeat_index r" and ?c = "concat (replicate (r_target_repeats r - 1 - r_current_repeat r) (r_returned r))"
  have i: "?i < length (r_returned r)" and c: "r_current_repeat r < r_target_repeats r"
    and ys: "y # ys = drop ?i (r_returned r) @ ?c" using assms by (auto simp: repeat_read_def)
  have ys: "ys = drop (Suc ?i) (r_returned r) @ ?c" using ys i by (simp add: Cons_nth_drop_Suc [symmetric])
  show ?thesis
  proof (cases "Suc ?i = length (r_returned r)")
    case True
    then have "ys = ?c" using ys by simp
    moreover have "?c = (if Suc (r_current_repeat r) < r_target_repeats r
        then r_returned r @ concat (replicate (r_target_repeats r - Suc (Suc (r_current_repeat r))) (r_returned r)) else [])"
      by (simp add: concat_replicate_pos)
    ultimately show ?thesis using True i c start by (auto simp: repeat_nxt_def repeat_fresh_def Let_def)
  next
    case False
    then show ?thesis using ys i c start by (auto simp: repeat_nxt_def repeat_fresh_def Let_def)
  qed
qed

lemma repeat_keeps: "read_once (repeat_get get) (repeat_nxt nxt) (repeat_fresh fresh) (repeat_read was_read)"
  using repeat_get_keeps repeat_nxt_reading repeat_nxt_cached by unfold_locales blast+

lemma new_repeat:
  assumes "fresh g xs" and "xs \<noteq> []" and "0 < n"
  shows "\<exists>r. new_Repeat n g = Inr r \<and> repeat_fresh fresh r (concat (replicate n xs))"
  using assms by (cases xs) (auto simp: new_Repeat_def repeat_fresh_def concat_replicate_pos)

lemma new_take:
  assumes "fresh g xs" and "0 < n"
  shows "\<exists>t. new_Take n g = Inr t \<and> take_left fresh t (take n xs)"
  using assms by (auto simp: new_Take_def take_left_def)

end

text \<open>Full chunks only: what is left over is dropped. A chunk of size 0 has no end, and is not covered.\<close>

function chunks_of :: "nat \<Rightarrow> 'a list \<Rightarrow> 'a list list" where
  "chunks_of n xs = (if n = 0 \<or> length xs < n then [] else List.take n xs # chunks_of n (drop n xs))"
  by pat_completeness auto

termination by (relation "measure (\<lambda>(n, xs). length xs)") auto

declare chunks_of.simps [simp del]

definition chunk_left :: "('g \<Rightarrow> 'a list \<Rightarrow> bool) \<Rightarrow> ('g, 'a) ChunkGenerator \<Rightarrow> 'a list list \<Rightarrow> bool" where
  "chunk_left read c ys \<longleftrightarrow> 0 < ch_size c \<and>
     (\<exists>x xs. read (ch_generator c) (x # xs) \<and> ys = ch_chunk c # chunks_of (ch_size c) xs)"

lemma chunk_leftI:
  "0 < ch_size c \<Longrightarrow> read (ch_generator c) (x # xs) \<Longrightarrow> ys = ch_chunk c # chunks_of (ch_size c) xs \<Longrightarrow> chunk_left read c ys"
  by (auto simp: chunk_left_def)

definition seq_left :: "('g \<Rightarrow> 'a list \<Rightarrow> bool) \<Rightarrow> ('g \<Rightarrow> 'a list \<Rightarrow> bool) \<Rightarrow> 'g Generators \<Rightarrow> 'a list \<Rightarrow> bool" where
  "seq_left holds fresh g ys \<longleftrightarrow> m_current g < length (m_generators g) \<and> (\<exists>x xs xss.
     holds (m_generators g ! m_current g) (x # xs) \<and> list_all2 fresh (drop (Suc (m_current g)) (m_generators g)) xss \<and>
     [] \<notin> set xss \<and> ys = (x # xs) @ concat xss)"

context read_once
begin

lemma read_chunk_enough:
  "was_read g (x # xs) \<Longrightarrow> n \<le> length xs \<Longrightarrow>
     \<exists>g' y. read_chunk get nxt n chunk g = Some (Inr (True, chunk @ List.take n xs, g')) \<and> was_read g' (y # drop n xs)"
proof (induction n arbitrary: g x xs chunk)
  case 0
  then show ?case by auto
next
  case (Suc n)
  then obtain z zs where zs: "xs = z # zs" by (cases xs) auto
  with Suc.prems(1) obtain g1 where g1: "nxt g = Some (Inr (True, g1))" "fresh g1 (z # zs)" by (auto elim: nxtE)
  from g1(2) obtain g2 where "get g1 = Inr (z, g2)" "was_read g2 (z # zs)" by (rule getE)
  with g1 zs Suc.IH [of g2 z zs "chunk @ [z]"] Suc.prems(2) show ?case by auto
qed

lemma read_chunk_short:
  "was_read g (x # xs) \<Longrightarrow> length xs < n \<Longrightarrow> \<exists>g'. read_chunk get nxt n chunk g = Some (Inr (False, chunk @ xs, g'))"
proof (induction xs arbitrary: g x n chunk)
  case Nil
  then obtain m where "n = Suc m" by (cases n) auto
  with Nil show ?case by (auto elim: nxtE)
next
  case (Cons z zs)
  then obtain m where m: "n = Suc m" "length zs < m" by (cases n) auto
  from Cons.prems(1) obtain g1 where g1: "nxt g = Some (Inr (True, g1))" "fresh g1 (z # zs)" by (auto elim: nxtE)
  from g1(2) obtain g2 where "get g1 = Inr (z, g2)" "was_read g2 (z # zs)" by (rule getE)
  with g1 m Cons.IH [of g2 z m "chunk @ [z]"] show ?case by auto
qed

lemma chunk_keeps: "IGenerator chunk_get (chunk_nxt get nxt) (chunk_left was_read)"
proof (rule IGenerator.intro, unfold_locales)
  show "\<exists>c'. chunk_get c = Inr (y, c') \<and> chunk_left was_read c' (y # ys)" if "chunk_left was_read c (y # ys)" for c y ys
    using that by (auto simp: chunk_get_def chunk_left_def)
  show "\<exists>c'. chunk_nxt get nxt c = Some (Inr (ys \<noteq> [], c')) \<and> (ys \<noteq> [] \<longrightarrow> chunk_left was_read c' ys)"
    if left: "chunk_left was_read c (y # ys)" for c y ys
  proof -
    obtain x xs where xs: "0 < ch_size c" "was_read (ch_generator c) (x # xs)" "ys = chunks_of (ch_size c) xs"
      using left by (auto simp: chunk_left_def)
    show ?thesis
    proof (cases "length xs < ch_size c")
      case True
      then have "ys = []" using xs(3) by (simp add: chunks_of.simps)
      then show ?thesis using read_chunk_short [OF xs(2) True, of "[]"] by (auto simp: chunk_nxt_def)
    next
      case False
      then have "ys = List.take (ch_size c) xs # chunks_of (ch_size c) (drop (ch_size c) xs)"
        using xs(1,3) by (subst (asm) chunks_of.simps) simp
      moreover obtain g z where g: "read_chunk get nxt (ch_size c) [] (ch_generator c) = Some (Inr (True, List.take (ch_size c) xs, g))"
          "was_read g (z # drop (ch_size c) xs)"
        using read_chunk_enough [OF xs(2), of "ch_size c" "[]"] False by auto
      moreover have "chunk_left was_read (c\<lparr>ch_chunk := List.take (ch_size c) xs, ch_generator := g\<rparr>)
          (List.take (ch_size c) xs # chunks_of (ch_size c) (drop (ch_size c) xs))"
        using g(2) xs(1) by (intro chunk_leftI) simp_all
      ultimately show ?thesis by (simp add: chunk_nxt_def)
    qed
  qed
qed

lemma new_chunk:
  assumes "fresh g (x # xs)" and "0 < n"
  shows "if length (x # xs) < n then new_Chunk get nxt n g = Some (Inl Generator_Exception)
     else \<exists>c. new_Chunk get nxt n g = Some (Inr c) \<and> chunk_left was_read c (chunks_of n (x # xs))"
proof -
  from assms(1) obtain g1 where g1: "get g = Inr (x, g1)" "was_read g1 (x # xs)" by (rule getE)
  show ?thesis
  proof (cases "length (x # xs) < n")
    case True
    then have "length xs < n - 1" by simp
    with read_chunk_short [OF g1(2) this, of "[x]"] True g1(1) show ?thesis by (auto simp: new_Chunk_def)
  next
    case False
    then have le: "n - 1 \<le> length xs" and eq: "List.take n (x # xs) = x # List.take (n - 1) xs" "drop n (x # xs) = drop (n - 1) xs"
      using assms(2) by (cases n; simp)+
    then have "chunks_of n (x # xs) = (x # List.take (n - 1) xs) # chunks_of n (drop (n - 1) xs)"
      using False assms(2) by (subst chunks_of.simps) (simp only: eq, simp)
    moreover obtain g' z where g': "read_chunk get nxt (n - 1) [x] g1 = Some (Inr (True, x # List.take (n - 1) xs, g'))"
        "was_read g' (z # drop (n - 1) xs)" using read_chunk_enough [OF g1(2) le, of "[x]"] by auto
    moreover have "chunk_left was_read \<lparr>ch_chunk = x # List.take (n - 1) xs, ch_size = n, ch_generator = g'\<rparr>
        ((x # List.take (n - 1) xs) # chunks_of n (drop (n - 1) xs))"
      using g'(2) assms(2) by (intro chunk_leftI) simp_all
    ultimately show ?thesis using False g1(1) assms(2) by (simp add: new_Chunk_def)
  qed
qed

lemma seq_get_keeps:
  assumes "seq_left fresh fresh g (y # ys)"
  shows "\<exists>g'. seq_get get g = Inr (y, g') \<and> seq_left was_read fresh g' (y # ys)"
proof -
  obtain xs xss where cur: "m_current g < length (m_generators g)" and xs: "fresh (m_generators g ! m_current g) (y # xs)"
      "list_all2 fresh (drop (Suc (m_current g)) (m_generators g)) xss" "[] \<notin> set xss" "ys = xs @ concat xss"
    using assms by (auto simp: seq_left_def)
  from xs(1) obtain h where "get (m_generators g ! m_current g) = Inr (y, h)" "was_read h (y # xs)" by (rule getE)
  with cur xs(2-4) show ?thesis by (auto simp: seq_get_def seq_left_def)
qed

lemma seq_nxt_keeps:
  assumes "seq_left was_read fresh g (y # ys)"
  shows "\<exists>g'. seq_nxt nxt g = Some (Inr (ys \<noteq> [], g')) \<and> (ys \<noteq> [] \<longrightarrow> seq_left fresh fresh g' ys)"
proof -
  let ?rest = "drop (Suc (m_current g)) (m_generators g)"
  obtain xs xss where cur: "m_current g < length (m_generators g)" and xs: "was_read (m_generators g ! m_current g) (y # xs)"
      "list_all2 fresh ?rest xss" "[] \<notin> set xss" "ys = xs @ concat xss"
    using assms by (auto simp: seq_left_def)
  from xs(1) show ?thesis
  proof (cases rule: nxtE)
    case (last h)
    show ?thesis
    proof (cases xss)
      case Nil
      then have "length (m_generators g) = Suc (m_current g)" using xs(2) cur by simp
      then show ?thesis using last cur xs(4) Nil by (simp add: seq_nxt_def)
    next
      case (Cons zs zss)
      then obtain k ks where ks: "?rest = k # ks" "fresh k zs" "list_all2 fresh ks zss" using xs(2) by (auto simp: list_all2_Cons2)
      have "zs \<noteq> []" using xs(3) Cons by auto
      then obtain z zs2 where "zs = z # zs2" by (cases zs) auto
      with ks last cur xs(3,4) Cons drop_Cons_facts(1,2,3) [OF ks(1) [symmetric]] show ?thesis
        by (auto simp: seq_nxt_def seq_left_def)
    qed
  next
    case (more h)
    then obtain x2 xs2 where "xs = x2 # xs2" by (cases xs) auto
    with more cur xs(2-4) show ?thesis by (auto simp: seq_nxt_def seq_left_def)
  qed
qed

lemma seq_keeps: "read_once (seq_get get) (seq_nxt nxt) (seq_left fresh fresh) (seq_left was_read fresh)"
  using seq_get_keeps seq_nxt_keeps by unfold_locales

end

subsection \<open>Ranges keep it\<close>

text \<open>What a range has left, when no sum that is formed on the way leaves the range of \<open>int\<close>.\<close>

fun range_holds :: "RangeGenerator \<Rightarrow> int list \<Rightarrow> bool" where
  "range_holds r [] \<longleftrightarrow> False"
| "range_holds r (x # xs) \<longleftrightarrow> rg_current r = x \<and> (let c = x + rg_step r in
     - (2 ^ 31) \<le> c \<and> c < 2 ^ 31 \<and> (if (if rg_positive r then c < rg_end r else c > rg_end r)
       then xs \<noteq> [] \<and> range_holds (r\<lparr>rg_current := c\<rparr>) xs else xs = []))"

interpretation rng: IGenerator range_get range_nxt range_holds
  by unfold_locales (auto simp: range_get_def range_nxt_def int_range_def Let_def split: if_splits)

lemma range_up:
  "a < b \<Longrightarrow> - (2 ^ 31) \<le> a \<Longrightarrow> b < 2 ^ 31 \<Longrightarrow>
     range_holds \<lparr>rg_current = a, rg_end = b, rg_step = 1, rg_positive = True\<rparr> [a..b - 1]"
proof (induction "nat (b - a)" arbitrary: a)
  case (Suc n)
  show ?case
  proof (cases "a + 1 < b")
    case True
    then have "range_holds \<lparr>rg_current = a + 1, rg_end = b, rg_step = 1, rg_positive = True\<rparr> [a + 1..b - 1]"
      using Suc by simp
    moreover have "[a..b - 1] = a # [a + 1..b - 1]" using Suc.prems(1) by (simp add: upto.simps)
    moreover have "[a + 1..b - 1] \<noteq> []" using True by simp
    ultimately show ?thesis using Suc.prems True by (simp add: Let_def)
  next
    case False
    then have "b = a + 1" using Suc.prems(1) by simp
    then show ?thesis using Suc.prems by (simp add: Let_def)
  qed
qed simp

lemma range_down:
  "b < a \<Longrightarrow> - (2 ^ 31) \<le> b \<Longrightarrow> a < 2 ^ 31 \<Longrightarrow>
     range_holds \<lparr>rg_current = a, rg_end = b, rg_step = -1, rg_positive = False\<rparr> (rev [b + 1..a])"
proof (induction "nat (a - b)" arbitrary: a)
  case (Suc n)
  show ?case
  proof (cases "b < a - 1")
    case True
    then have "range_holds \<lparr>rg_current = a - 1, rg_end = b, rg_step = -1, rg_positive = False\<rparr> (rev [b + 1..a - 1])"
      using Suc by simp
    moreover have "[b + 1..a] = [b + 1..a - 1] @ [a]" using True by (simp add: upto_rec2)
    moreover have "[b + 1..a - 1] \<noteq> []" using True by simp
    ultimately show ?thesis using Suc.prems True by (simp add: Let_def)
  next
    case False
    then have "b = a - 1" using Suc.prems(1) by simp
    then show ?thesis using Suc.prems by (simp add: Let_def)
  qed
qed simp

text \<open>A range with the step of 1 cannot overflow; a longer step can, though all its values are in range.\<close>

lemma unit_range_generated:
  assumes "a \<noteq> b" and "- (2 ^ 31) \<le> a" and "a < 2 ^ 31" and "- (2 ^ 31) \<le> b" and "b < 2 ^ 31"
  shows "\<exists>r. new_unit_Range a b = Inr r \<and>
    generated range_get range_nxt (nat \<bar>b - a\<bar>) r = Some (Inr (if a < b then [a..b - 1] else rev [b + 1..a]))"
proof (cases "a < b")
  case True
  then show ?thesis using rng.once.all_generated [OF range_up [OF True assms(2,5)]]
    by (simp add: new_unit_Range_def new_Range_def)
next
  case False
  then have "b < a" using assms(1) by simp
  then show ?thesis using rng.once.all_generated [OF range_down [OF _ assms(4,3)]]
    by (simp add: new_unit_Range_def new_Range_def)
qed

lemma range_step_overflows: "bindE (new_Range 2147483640 2147483647 10) (\<lambda>r. the (generated range_get range_nxt 2 r)) = Inl Undefined"
  by code_simp

subsection \<open>Adapters on adapters\<close>

interpretation flt: IGenerator fixed_get "filter_nxt fixed_get fixed_nxt P" "filter_left fixed_holds P" for P :: "'a \<Rightarrow> bool"
  by (rule fixed.filter_keeps)

interpretation tk: read_once "take_get fixed_get" "take_nxt (filter_nxt fixed_get fixed_nxt P)"
  "take_left (filter_left fixed_holds P)" "take_left (filter_left fixed_holds P)" for P :: "'a \<Rightarrow> bool"
  by (rule flt.once.take_keeps)

interpretation chk: IGenerator chunk_get "chunk_nxt fixed_get fixed_nxt" "chunk_left fixed_holds"
  by (rule fixed.once.chunk_keeps)

interpretation rep: read_once "repeat_get chunk_get" "repeat_nxt (chunk_nxt fixed_get fixed_nxt)"
  "repeat_fresh (chunk_left fixed_holds)" "repeat_read (chunk_left fixed_holds)"
  by (rule chk.once.repeat_keeps)

interpretation mp: IGenerator map_get "map_nxt fixed_get fixed_nxt f" "map_left fixed_holds f" for f :: "'a \<Rightarrow> 'b"
  by (rule fixed.once.map_keeps)

interpretation sq: read_once "seq_get fixed_get" "seq_nxt fixed_nxt" "seq_left fixed_holds fixed_holds" "seq_left fixed_holds fixed_holds"
  by (rule fixed.once.seq_keeps)

lemma new_fixed: "fixed_holds (new_FixedValues xs) xs"
  by (simp add: fixed_holds_def new_FixedValues_def)

lemma mapped_values:
  assumes "xs \<noteq> []"
  shows "\<exists>m. new_Map fixed_get f (new_FixedValues xs) = Inr m \<and>
    generated map_get (map_nxt fixed_get fixed_nxt f) (length xs) m = Some (Inr (List.map f xs))"
proof -
  obtain x ys where xs: "xs = x # ys" using assms by (cases xs) auto
  obtain m where "new_Map fixed_get f (new_FixedValues xs) = Inr m" "map_left fixed_holds f m (List.map f (x # ys))"
    using fixed.once.new_map [of "new_FixedValues xs" x ys f] new_fixed [of xs] xs by auto
  with mp.once.all_generated [of f m "List.map f (x # ys)" "length xs"] xs show ?thesis by simp
qed

lemma values_in_sequence:
  assumes "xss \<noteq> []" and "[] \<notin> set xss"
  shows "generated (seq_get fixed_get) (seq_nxt fixed_nxt) (length (concat xss)) (makeGenerators (List.map new_FixedValues xss)) =
    Some (Inr (concat xss))"
proof -
  obtain xs yss where xss: "xss = xs # yss" using assms(1) by (cases xss) auto
  then obtain x ys where xs: "xs = x # ys" using assms(2) by (cases xs) auto
  have "list_all2 fixed_holds (List.map new_FixedValues yss) yss" by (simp add: list_all2_conv_all_nth new_fixed)
  then have "seq_left fixed_holds fixed_holds (makeGenerators (List.map new_FixedValues xss)) (concat xss)"
    using assms(2) xss xs new_fixed [of "x # ys"] by (auto simp: seq_left_def makeGenerators_def)
  then show ?thesis by (rule sq.all_generated) (use xss xs in auto)
qed



text \<open>
  a test that generates \<open>repeat(r, chunk(n, values(xs)))\<close> sees the full chunks of \<open>n\<close> values \<open>r\<close> times over, what
  is left over being dropped; when there is no full chunk, the constructor throws.
\<close>

theorem repeat_of_chunk:
  assumes "0 < n" and "0 < r" and "xs \<noteq> []"
  shows "if length xs < n then new_Chunk fixed_get fixed_nxt n (new_FixedValues xs) = Some (Inl Generator_Exception)
    else \<exists>c t. new_Chunk fixed_get fixed_nxt n (new_FixedValues xs) = Some (Inr c) \<and> new_Repeat r c = Inr t \<and>
      generated (repeat_get chunk_get) (repeat_nxt (chunk_nxt fixed_get fixed_nxt)) (r * length (chunks_of n xs)) t =
        Some (Inr (concat (replicate r (chunks_of n xs))))"
proof -
  obtain x ys where xs: "xs = x # ys" using assms(3) by (cases xs) auto
  note new = fixed.once.new_chunk [of "new_FixedValues xs" x ys n, folded xs, OF new_fixed assms(1)]
  show ?thesis
  proof (cases "length xs < n")
    case False
    then obtain c where c: "new_Chunk fixed_get fixed_nxt n (new_FixedValues xs) = Some (Inr c)"
        "chunk_left fixed_holds c (chunks_of n xs)" using new by auto
    have some: "chunks_of n xs \<noteq> []" using False assms(1) by (simp add: chunks_of.simps)
    obtain t where t: "new_Repeat r c = Inr t" "repeat_fresh (chunk_left fixed_holds) t (concat (replicate r (chunks_of n xs)))"
      using chk.once.new_repeat [OF c(2) some assms(2)] by auto
    have "concat (replicate r (chunks_of n xs)) \<noteq> []" using some assms(2) by simp
    with rep.all_generated [OF t(2)] False c(1) t(1) show ?thesis by (simp add: length_concat sum_list_replicate)
  qed (use new in auto)
qed

theorem repeat_of_chunk_witness:
  "\<exists>c t. new_Chunk fixed_get fixed_nxt 2 (new_FixedValues [1, 2, 3, 4, 5::nat]) = Some (Inr c) \<and> new_Repeat 2 c = Inr t \<and>
    generated (repeat_get chunk_get) (repeat_nxt (chunk_nxt fixed_get fixed_nxt)) 4 t =
      Some (Inr [[1, 2], [3, 4], [1, 2], [3, 4]])"
proof -
  have "chunks_of 2 [1, 2, 3, 4, 5::nat] = [[1, 2], [3, 4]]" and "replicate 2 x = [x, x]" for x :: "nat list list"
    by (simp_all add: chunks_of.simps numeral_2_eq_2)
  then show ?thesis using repeat_of_chunk [of 2 2 "[1, 2, 3, 4, 5::nat]"] by simp
qed

subsection \<open>What is outside the contract\<close>

text \<open>
  A filter reads its generator before the test does, and \<open>RepeatGenerator\<close> keeps a value each time it is read: the second
  round of a repetition in a filter has every value twice.
\<close>

declare filter_scan.simps [code]

lemma filter_of_repeat_doubles:
  "bindE (new_Repeat 2 (new_FixedValues [1, 2::nat])) (\<lambda>r.
     bindE (the (new_Filter (repeat_get fixed_get) (repeat_nxt fixed_nxt) (\<lambda>_. True) r)) (\<lambda>g.
     the (generated (repeat_get fixed_get) (filter_nxt (repeat_get fixed_get) (repeat_nxt fixed_nxt) (\<lambda>_. True)) 10 g)))
   = Inr [1, 2, 1, 1, 2, 2]"
  by code_simp

lemma empty_chunks_never_end:
  assumes "new_Chunk get nxt 0 g = Some (Inr c)"
  shows "generated chunk_get (chunk_nxt get nxt) n c = None"
proof -
  have "generated chunk_get (chunk_nxt get nxt) n \<lparr>ch_chunk = [], ch_size = 0, ch_generator = g\<rparr> = None"
    by (induction n) (simp_all add: chunk_get_def chunk_nxt_def)
  with assms show ?thesis by (simp add: new_Chunk_def)
qed

end
