(* ===== verification/Catch_Group_Report.thy ===== *)
theory Catch_Group_Report
  imports Catch_Cumulative Catch_Xml_Report
begin

section \<open>Reports of whole groups\<close>

text \<open>
  What the reporters have in common that collect a group of tests and then write it as XML: pieces of writing as trees,
  the number of the elements that report a problem, and the contract, as a locale, from which it follows that the
  document is whole and has an element for every assertion that failed.
\<close>

subsection \<open>Pieces of writing\<close>

text \<open>A piece of writing: attributes of the open element, then nodes.\<close>

definition writes :: "(XmlWriter \<Rightarrow> XmlWriter res) \<Rightarrow> (string \<times> string) list \<Rightarrow> xml_node list \<Rightarrow> bool" where
  "writes f atts ks \<longleftrightarrow> f = (\<lambda>w. bindE (foldE (\<lambda>(n, v). writeAttribute n v) atts w) (write_nodes ks))"

lemma fun_forms:
  "write_nodes [] = Inr" "write_nodes (k # ks) = (\<lambda>w. bindE (write_node k w) (write_nodes ks))"
  "foldE f [] = Inr" "foldE f (x # xs) = (\<lambda>s. bindE (f x s) (foldE f xs))" "bindE res Inr = res"
  "in_element name g = (\<lambda>w. bindE (g (startElement name default_fmt w)) (endElement default_fmt))"
proof -
  show "bindE res Inr = res" by (cases res) simp_all
  have "delete_ScopedElement \<lparr>se_writer = True, se_fmt = default_fmt\<rparr> = endElement default_fmt"
    by (rule ext) (simp add: delete_ScopedElement_def)
  then show "in_element name g = (\<lambda>w. bindE (g (startElement name default_fmt w)) (endElement default_fmt))"
    by (simp only: in_element_def [abs_def] scopedElement_def Let_def prod.case)
qed (simp_all add: fun_eq_iff)

lemma writesD: "writes f [] ks \<Longrightarrow> f w = write_nodes ks w"
  by (simp add: writes_def fun_forms)

lemma write_nodes_append: "write_nodes (ks @ ls) = (\<lambda>w. bindE (write_nodes ks w) (write_nodes ls))"
  by (induction ks) (simp_all add: fun_forms bindE_assoc)

lemma writes_eq: "writes f atts ks \<Longrightarrow> atts = atts' \<Longrightarrow> ks = ks' \<Longrightarrow> writes f atts' ks'"
  by simp

named_theorems writes

lemma writes_nothing [writes]: "writes Inr [] []"
  by (simp add: writes_def fun_forms)

lemma writes_Nil [writes]: "writes (do_all []) [] []"
  by (simp add: writes_def do_all_def fun_forms)

lemma writes_Cons [writes]: "writes f [] ks \<Longrightarrow> writes (do_all fs) [] ls \<Longrightarrow> writes (do_all (f # fs)) [] (ks @ ls)"
  by (simp add: writes_def do_all_def fun_forms write_nodes_append)

lemma writes_attribute: "writes (do_all fs) atts ks \<Longrightarrow> writes (do_all (writeAttribute n v # fs)) ((n, v) # atts) ks"
  by (simp add: writes_def do_all_def fun_forms bindE_assoc)

lemma writes_element [writes]: "writes f atts ks \<Longrightarrow> writes (in_element name f) [] [Element name atts ks]"
  by (simp add: writes_def fun_forms bindE_assoc)

lemma writes_only_if [writes]: "(b \<Longrightarrow> writes f [] ks) \<Longrightarrow> writes (only_if b f) [] (if b then ks else [])"
  by (simp add: only_if_def writes_nothing)

lemma writes_line [writes]: "writes (writeText t Fmt_Newline) [] [Line t]"
  by (simp add: writes_def fun_forms)

lemma writes_fold: "(\<And>x. x \<in> set xs \<Longrightarrow> writes (f x) [] (g x)) \<Longrightarrow> writes (foldE f xs) [] (concat (map g xs))"
  by (induction xs) (simp_all add: writes_def fun_forms write_nodes_append)

subsection \<open>Problems\<close>

fun problems :: "xml_node \<Rightarrow> nat" and problemss :: "xml_node list \<Rightarrow> nat" where
  "problems (Element name atts ks) = (if name \<in> {''failure'', ''error'', ''internalError'', ''skipped''} then 1 else 0) + problemss ks"
| "problems _ = 0"
| "problemss [] = 0"
| "problemss (k # ks) = problems k + problemss ks"

definition not_ok :: "AssertionStats \<Rightarrow> bool" where
  "not_ok stats \<longleftrightarrow> \<not> ar_isOk (as_assertionResult stats)"

lemma problemss_append [simp]: "problemss (ks @ ls) = problemss ks + problemss ls"
  by (induction ks) simp_all

lemma problemss_concat: "problemss (concat (map f xs)) = (\<Sum>x\<leftarrow>xs. problemss (f x))"
  by (induction xs) simp_all

subsection \<open>The test cases of a group\<close>

text \<open>A test case in a group that is over: the node of its section.\<close>

definition case_root :: "TestCaseNode \<Rightarrow> nat" where
  "case_root testCaseNode = the (hd (rn_children testCaseNode))"

definition case_complete :: "nat \<Rightarrow> TestCaseNode \<Rightarrow> bool" where
  "case_complete k testCaseNode \<longleftrightarrow> (\<exists>a < k. rn_children testCaseNode = [Some a])"

lemma child_later: "below_ok (map childSections ns) \<Longrightarrow> a < length ns \<Longrightarrow> c \<in> set (childSections (ns ! a)) \<Longrightarrow> a < c \<and> c < length ns"
  unfolding below_ok_def by (metis length_map nth_map)

text \<open>What lies below a node is the same when later nodes are added.\<close>

lemma below_prefix:
  assumes "below_ok (take k cs)" and "k \<le> length cs"
  shows "a < k \<Longrightarrow> k \<le> d + a \<Longrightarrow> k \<le> d' + a \<Longrightarrow> nodes_below d (take k cs) a = nodes_below d' cs a"
proof (induction d arbitrary: a d')
  case (Suc d)
  then obtain e where e: "d' = Suc e" by (cases d') auto
  have kids: "a < c \<and> c < k" if "c \<in> set (cs ! a)" for c
    using assms [unfolded below_ok_def] that Suc.prems(1) by (metis length_take min.absorb2 nth_take)
  have "nodes_below d (take k cs) c = nodes_below e cs c" if "c \<in> set (cs ! a)" for c
    using kids [OF that] Suc.IH [of c e] Suc.prems e by simp
  then show ?case using Suc.prems(1) e by (simp cong: map_cong)
qed simp

lemma tree_prefix:
  assumes "below_ok (map childSections (take k ns))" and "k \<le> length ns" and "a < k"
  shows "tree_assertions a (take k ns) = tree_assertions a ns"
proof -
  have "nodes_below k (map childSections (take k ns)) a = nodes_below (length ns) (map childSections ns) a"
    using below_prefix [of k "map childSections ns" a k "length ns"] assms by (simp add: take_map)
  moreover have "take k ns ! b = ns ! b" if "b \<in> set (nodes_below k (map childSections (take k ns)) a)" for b
    using below_at_least [OF assms(1) _ that] assms(2,3) by simp
  ultimately show ?thesis using assms(2) by (simp add: tree_assertions_def cong: map_cong)
qed

text \<open>The test cases of the group so far, whose nodes come before \<open>k\<close>, and all their assertions.\<close>

definition cases_done :: "nat \<Rightarrow> AssertionStats multiset \<Rightarrow> 'x CumulativeReporterBase_scheme \<Rightarrow> bool" where
  "cases_done k ms r \<longleftrightarrow> k \<le> length (section_nodes r) \<and> below_ok (map childSections (take k (section_nodes r))) \<and>
     (\<forall>tc \<in> set (m_testCases r). case_complete k tc) \<and>
     mset (concat (map (\<lambda>tc. tree_assertions (case_root tc) (take k (section_nodes r))) (m_testCases r))) = ms"

fun group_view :: "phase \<Rightarrow> AssertionStats multiset \<Rightarrow> 'x CumulativeReporterBase_scheme \<Rightarrow> bool" where
  "group_view (In_test b n) ms r \<longleftrightarrow> (\<exists>k ms1 ms2. in_progress k ms2 b n r \<and> cases_done k ms1 r \<and> ms = ms1 + ms2)"
| "group_view In_group ms r \<longleftrightarrow> m_nodeStack r = [] \<and> m_rootSection r = None \<and> cases_done (length (section_nodes r)) ms r"
| "group_view _ ms r \<longleftrightarrow> m_nodeStack r = [] \<and> m_rootSection r = None \<and> m_testCases r = [] \<and> ms = {#} \<and>
     below_ok (map childSections (section_nodes r))"

lemma cases_same: "cases_done k ms r \<Longrightarrow> same_before k r r' \<Longrightarrow> k \<le> length (section_nodes r') \<Longrightarrow> cases_done k ms r'"
  by (simp add: cases_done_def same_before_def)

lemma case_added:
  assumes "in_progress k ms2 True 0 r" and "cases_done k ms1 r"
  shows "\<exists>r'. cumulative (Ev_testCaseEnded st) r = Inr r' \<and> group_view In_group (ms1 + ms2) r'"
proof -
  from end_progress [OF assms(1), of st] obtain r' where r': "cumulative (Ev_testCaseEnded st) r = Inr r'"
      "m_nodeStack r' = []" "m_rootSection r' = None" "tree_from k (map childSections (section_nodes r'))"
      "length (section_nodes r') = length (section_nodes r)" "collected k (section_nodes r') = ms2"
      "take k (section_nodes r') = take k (section_nodes r)" "m_testCases r' = m_testCases r @ [\<lparr>rn_value = st, rn_children = [Some k]\<rparr>]" by blast
  let ?ns = "section_nodes r'"
  have k: "k < length ?ns" using assms(1) r'(5) by (simp add: in_progress_def)
  have ok: "below_ok (map childSections (take k ?ns))" using assms(2) r'(7) by (simp add: cases_done_def)
  have old: "case_complete k tc" if "tc \<in> set (m_testCases r)" for tc using assms(2) that by (simp add: cases_done_def)
  have "tree_assertions (case_root tc) (take k ?ns) = tree_assertions (case_root tc) ?ns" if "tc \<in> set (m_testCases r)" for tc
    using tree_prefix [OF ok] k old [OF that] by (auto simp: case_complete_def case_root_def)
  then have "mset (concat (map (\<lambda>tc. tree_assertions (case_root tc) ?ns) (m_testCases r))) = ms1"
    using assms(2) r'(7) by (simp add: cases_done_def cong: map_cong)
  moreover have "mset (tree_assertions k ?ns) = ms2" using tree_assertions_collected [OF r'(4) k] r'(6) by simp
  moreover have "case_complete (length ?ns) tc" if "tc \<in> set (m_testCases r)" for tc
    using old [OF that] k less_trans unfolding case_complete_def by blast
  ultimately have "cases_done (length ?ns) (ms1 + ms2) r'"
    using r'(4,8) k by (auto simp: cases_done_def tree_from_def case_complete_def case_root_def)
  then show ?thesis using r' by simp
qed

lemma group_step:
  assumes "follow e p = Some p'" and "group_view p ms r" and "\<forall>st. e \<noteq> Ev_testGroupEnded st"
  shows "\<exists>r'. cumulative e r = Inr r' \<and> group_view p' (ms + mset (kept_assertions [e])) r'"
proof (cases p)
  case (In_test b n)
  with assms(2) obtain k ms1 ms2 where k: "in_progress k ms2 b n r" "cases_done k ms1 r" "ms = ms1 + ms2" by auto
  show ?thesis
  proof (cases "\<exists>st. e = Ev_testCaseEnded st")
    case True
    then obtain st where e: "e = Ev_testCaseEnded st" by blast
    with assms(1) In_test have "b" "n = 0" "p' = In_group" by (cases b; cases n; simp)+
    with case_added [of k ms2 r ms1 st] k e show ?thesis by simp
  next
    case False
    with follow_inside [of e b n p'] assms(1) In_test obtain b' n' where p': "p' = In_test b' n'" by auto
    with cumulative_step [of e b n b' n' k ms2 r] assms(1) In_test k(1) obtain r' where
      r': "cumulative e r = Inr r'" "in_progress k (ms2 + mset (kept_assertions [e])) b' n' r'" "same_before k r r'" by auto
    have "cases_done k ms1 r'" using cases_same [OF k(2) r'(3)] r'(2) by (simp add: in_progress_def)
    with r' p' k(3) show ?thesis by (fastforce simp: add.assoc)
  qed
next
  case In_group
  with assms have r: "m_nodeStack r = []" "m_rootSection r = None" "cases_done (length (section_nodes r)) ms r" by simp_all
  then have "in_progress (length (section_nodes r)) {#} False 0 r" by (intro start_progress) (simp_all add: cases_done_def)
  with r(3) have "in_progress (length (section_nodes r)) {#} False 0 r \<and> cases_done (length (section_nodes r)) ms r \<and> ms = ms + {#}"
    by simp
  then have "group_view (In_test False 0) ms r" unfolding group_view.simps by blast
  with assms In_group show ?thesis by (cases e) auto
next
  case In_run
  with assms show ?thesis by (cases e) (auto simp: cumulative_testRunEnded_def cases_done_def)
qed (use assms in \<open>cases e; simp\<close>)+

text \<open>The base class changes nothing of the classes derived from it.\<close>

lemma find_or_make_more: "find_or_make i r = (a, r') \<Longrightarrow> CumulativeReporterBase.more r' = CumulativeReporterBase.more r"
  by (auto simp: find_or_make_def make_node_def Let_def change_node_def split: option.splits if_splits)

lemma cumulative_keeps_more: "cumulative e r = Inr r' \<Longrightarrow> CumulativeReporterBase.more r' = CumulativeReporterBase.more r"
  by (cases e) (auto simp: cumulative_sectionStarting_def cumulative_assertionEnded_def cumulative_sectionEnded_def
    cumulative_testCaseEnded_def cumulative_testGroupEnded_def cumulative_testRunEnded_def Let_def find_or_make_more
    change_node_def split: prod.splits if_splits option.splits)

subsection \<open>The contract\<close>

text \<open>The calls that only collect.\<close>

fun collects :: "reporter_event \<Rightarrow> bool" where
  "collects (Ev_testRunStarting _) = False"
| "collects (Ev_testGroupEnded _) = False"
| "collects (Ev_testRunEnded _) = False"
| "collects _ = True"

text \<open>The document so far, with the elements that are written.\<close>

fun group_doc :: "string \<Rightarrow> (string \<times> string) list \<Rightarrow> string \<Rightarrow> phase \<Rightarrow> xml_node list \<Rightarrow> XmlWriter" where
  "group_doc name atts os Not_started ks = new_XmlWriter os"
| "group_doc name atts os Run_over ks = in_document False 0 [] (m_os (new_XmlWriter os) @ layout 0 True (Element name atts ks))"
| "group_doc name atts os _ ks = in_document (ks = []) 1 [name] (m_os (new_XmlWriter os) @ ''<'' @ name @
     concat (map layout_attribute atts) @ (if ks \<noteq> [] then ''>'' @ newline else []) @ layouts 1 True ks)"

lemma layouts_append: "layouts d first (ks @ ls) = layouts d first ks @ layouts d (first \<and> \<not> (\<exists>k \<in> set ks. visible k)) ls"
  by (induction ks arbitrary: first) (auto simp: layout_invisible)

lemma all_visible: "\<forall>k \<in> set ks. visible k \<Longrightarrow> (\<exists>k \<in> set ks. visible k) \<longleftrightarrow> ks \<noteq> []"
  by (cases ks) auto

lemma more_written:
  assumes "\<forall>k \<in> set ks. visible k" and "\<forall>k \<in> set ls. visible k"
  shows "write_nodes ls (group_doc name atts os In_group ks) = Inr (group_doc name atts os In_run (ks @ ls))"
  using nodes_in_document [of ls, OF node_in_document] all_visible [OF assms(1)] all_visible [OF assms(2)]
  by (auto simp: layouts_append)

lemma document_begun:
  "bindE (open_element name (new_XmlWriter os)) (foldE (\<lambda>(n, v). writeAttribute n v) atts) = Inr (group_doc name atts os In_run [])"
  by (simp add: open_element_def start_document attributes_in_document)

lemma document_ended:
  assumes "\<forall>k \<in> set ks. visible k"
  shows "endElement default_fmt (group_doc name atts os In_run ks) = Inr (group_doc name atts os Run_over ks)"
  using end_in_document [where ts = "[]" and d = 0 and name = name] all_visible [OF assms] by (auto simp: blanks_def)

lemma follow_inner:
  "collects e \<Longrightarrow> follow e p = Some p' \<Longrightarrow> group_doc name atts os p' ks = group_doc name atts os p ks \<and> p \<noteq> Not_started \<and> p' \<noteq> Not_started"
  by (cases "(e, p)" rule: follow.cases) auto

text \<open>
  The contract: between the beginning and the end of a group the reporter collects; at the beginning it opens the element
  of the run, at the end of a group it writes nodes with an element for every problem of the group, and at the end it
  closes the element of the run. \<open>ready\<close> is what the reporter needs of its configuration.
\<close>

locale group_report =
  fixes handle :: "'x CumulativeReporterBase_scheme reporter" and xml :: "'x CumulativeReporterBase_scheme \<Rightarrow> XmlWriter"
    and name :: string and atts :: "(string \<times> string) list" and ready :: bool
  assumes collect: "collects e \<Longrightarrow> \<exists>r1. handle e r = cumulative e r1 \<and> xml r1 = xml r \<and> (\<forall>p ms. group_view p ms r1 = group_view p ms r)"
    and keep: "cumulative e r = Inr r' \<Longrightarrow> xml r' = xml r"
    and start: "bindE (open_element name (xml r)) (foldE (\<lambda>(n, v). writeAttribute n v) atts) = Inr w \<Longrightarrow>
      \<exists>r'. handle (Ev_testRunStarting info) r = Inr r' \<and> xml r' = w \<and> (\<forall>p ms. group_view p ms r' = group_view p ms r)"
    and group: "ready \<Longrightarrow> group_view In_group ms r \<Longrightarrow> \<exists>ks. (\<forall>k \<in> set ks. visible k) \<and> problemss ks = size (filter_mset not_ok ms) \<and>
      (\<forall>w. write_nodes ks (xml r) = Inr w \<longrightarrow> (\<exists>r'. handle (Ev_testGroupEnded st) r = Inr r' \<and> xml r' = w \<and> group_view In_run {#} r'))"
    and fin: "endElement default_fmt (xml r) = Inr w \<Longrightarrow> group_view In_run ms r \<Longrightarrow>
      \<exists>r'. handle (Ev_testRunEnded ru) r = Inr r' \<and> xml r' = w \<and> group_view Run_over ms r'"
begin

text \<open>The assertions reported so far are those of the groups that are written and those of the group at hand.\<close>

definition report_view :: "string \<Rightarrow> phase \<Rightarrow> AssertionStats multiset \<Rightarrow> 'x CumulativeReporterBase_scheme \<Rightarrow> bool" where
  "report_view os p ms r \<longleftrightarrow> (\<exists>ks ms1 ms2. ms = ms1 + ms2 \<and> group_view p ms2 r \<and> (\<forall>k \<in> set ks. visible k) \<and>
     (p = Not_started \<longrightarrow> ks = []) \<and> problemss ks = size (filter_mset not_ok ms1) \<and> xml r = group_doc name atts os p ks)"

lemma viewI:
  "group_view p new r \<Longrightarrow> (\<forall>k \<in> set ks. visible k) \<Longrightarrow> p \<noteq> Not_started \<Longrightarrow> problemss ks = size (filter_mset not_ok old) \<Longrightarrow>
     xml r = group_doc name atts os p ks \<Longrightarrow> ms = old + new \<Longrightarrow> report_view os p ms r"
  unfolding report_view_def by blast

lemma report_accepts:
  assumes "ready" and "follow e p = Some p'" and "report_view os p ms r"
  shows "\<exists>r'. handle e r = Inr r' \<and> report_view os p' (ms + mset (kept_assertions [e])) r'"
proof -
  obtain ks ms1 ms2 where v: "ms = ms1 + ms2" "group_view p ms2 r" "\<forall>k \<in> set ks. visible k" "p = Not_started \<longrightarrow> ks = []"
      "problemss ks = size (filter_mset not_ok ms1)" "xml r = group_doc name atts os p ks"
    using assms(3) unfolding report_view_def by blast
  consider (inner) "collects e" | (start) info where "e = Ev_testRunStarting info"
    | (group) st where "e = Ev_testGroupEnded st" | (fin) st where "e = Ev_testRunEnded st" by (cases e) auto
  then show ?thesis
  proof cases
    case inner
    from collect [OF this, of r] obtain r1 where r1: "handle e r = cumulative e r1" "xml r1 = xml r" "group_view p ms2 r1"
      using v(2) by blast
    have "\<forall>st. e \<noteq> Ev_testGroupEnded st" using inner by auto
    from group_step [OF assms(2) r1(3) this] obtain r2 where
      r2: "cumulative e r1 = Inr r2" "group_view p' (ms2 + mset (kept_assertions [e])) r2" by blast
    from follow_inner [OF inner assms(2)] keep [OF r2(1)] r1(2) v(6)
    have "xml r2 = group_doc name atts os p' ks" "p' \<noteq> Not_started" by auto
    with viewI [OF r2(2) v(3)] v(1,5) r1(1) r2(1) show ?thesis by (auto simp: add.assoc)
  next
    case start
    with assms(2) have p: "p = Not_started" "p' = In_run" by (cases p; simp)+
    from group_report.start [OF group_report_axioms, of r "group_doc name atts os In_run []" info] document_begun v(4,6) p
    obtain r' where r': "handle e r = Inr r'" "xml r' = group_doc name atts os In_run []" "\<And>p ms. group_view p ms r' = group_view p ms r"
      using start by auto
    have "group_view p' ms2 r'" using v(2) p r'(3) by simp
    from viewI [OF this v(3)] r'(1,2) v(1,4,5) p start show ?thesis by auto
  next
    case group
    with assms(2) have p: "p = In_group" "p' = In_run" by (cases p; simp)+
    from group_report.group [OF group_report_axioms assms(1), of ms2 r st] v(2) p obtain ls where ls: "\<forall>k \<in> set ls. visible k"
        "problemss ls = size (filter_mset not_ok ms2)"
        "\<And>w. write_nodes ls (xml r) = Inr w \<Longrightarrow> \<exists>r'. handle e r = Inr r' \<and> xml r' = w \<and> group_view In_run {#} r'"
      using group by blast
    from ls(3) more_written [OF v(3) ls(1)] v(6) p obtain r' where r': "handle e r = Inr r'"
      "xml r' = group_doc name atts os In_run (ks @ ls)" "group_view In_run {#} r'" by metis
    have "report_view os p' ms r'"
      by (rule viewI [where old = ms and new = "{#}" and ks = "ks @ ls"]) (use r' ls v p in auto)
    with r'(1) group show ?thesis by simp
  next
    case fin
    with assms(2) have p: "p = In_run" "p' = Run_over" by (cases p; simp)+
    from group_report.fin [OF group_report_axioms, of r _ ms2] document_ended [OF v(3)] v(2,6) p fin obtain r' where
      r': "handle e r = Inr r'" "xml r' = group_doc name atts os Run_over ks" "group_view p' ms2 r'" by metis
    from viewI [OF r'(3) v(3)] r' v(1,5) p fin show ?thesis by auto
  qed
qed

lemma report_accepts_all:
  assumes "ready"
  shows "follows es p = Some p' \<Longrightarrow> report_view os p ms r \<Longrightarrow>
    \<exists>r'. foldE handle es r = Inr r' \<and> report_view os p' (ms + mset (kept_assertions es)) r'"
proof (induction es arbitrary: p ms r)
  case (Cons e es)
  from Cons.prems(1) obtain p1 where p1: "follow e p = Some p1" "follows es p1 = Some p'" by (auto simp: bind_eq_Some_conv)
  from report_accepts [OF assms p1(1) Cons.prems(2)] obtain r1 where
    r1: "handle e r = Inr r1" "report_view os p1 (ms + mset (kept_assertions [e])) r1" by blast
  have "kept_assertions (e # es) = kept_assertions [e] @ kept_assertions es" by (cases e) simp_all
  with Cons.IH [OF p1(2) r1(2)] r1(1) show ?case by (simp add: add.assoc)
qed simp

lemma whole_report:
  assumes "ready" and "follows es Not_started = Some Run_over" and "group_view Not_started {#} r" and "xml r = new_XmlWriter os"
  shows "\<exists>r' ks. foldE handle es r = Inr r' \<and> m_tags (xml r') = [] \<and>
    m_os (xml r') = m_os (new_XmlWriter os) @ layout 0 True (Element name atts ks) \<and>
    problemss ks = length (filter not_ok (kept_assertions es))"
proof -
  have "report_view os Not_started {#} r" unfolding report_view_def using assms(3,4) by force
  from report_accepts_all [OF assms(1,2) this] obtain r' where
    r': "foldE handle es r = Inr r'" "report_view os Run_over (mset (kept_assertions es)) r'" by auto
  then obtain ks ms1 where "mset (kept_assertions es) = ms1" "problemss ks = size (filter_mset not_ok ms1)"
      "xml r' = group_doc name atts os Run_over ks"
    unfolding report_view_def by auto
  moreover have "size (filter_mset not_ok (mset xs)) = length (filter not_ok xs)" for xs by (metis mset_filter size_mset)
  ultimately show ?thesis using r'(1) by (auto simp: in_document_def)
qed

end

end
