(* ===== verification/Catch_Junit.thy ===== *)
theory Catch_Junit
  imports Catch_Group_Report Catch_Text_Flow
begin

section \<open>The JUnit report\<close>

text \<open>
  \<open>JunitReporter\<close> writes when a group is over, from the trees the cumulative reporter collected. A time that is measured
  and the time stamp are arguments. The recursion over a tree of sections has a depth; the number of the nodes is enough,
  as a child is a later node than its parent.
\<close>

subsection \<open>The reporter\<close>

record JunitReporter = CumulativeReporterBase +
  ju_xml :: XmlWriter
  stdOutForSuite :: string
  stdErrForSuite :: string
  unexpectedExceptions :: "32 word"
  m_okToFail :: bool

definition new_JunitReporter :: "string \<Rightarrow> JunitReporter" where
  "new_JunitReporter os = CumulativeReporterBase.extend new_CumulativeReporterBase
     (JunitReporter.fields (new_XmlWriter os) [] [] 0 False)"

record report_times =
  rt_timestamp :: string
  rt_suite :: string
  rt_section :: "SectionStats \<Rightarrow> string"
  rt_milliseconds :: "SectionStats \<Rightarrow> string"

definition fileNameTag :: "TestCaseInfo \<Rightarrow> string" where
  "fileNameTag info = (case find (\<lambda>tag. tag \<noteq> [] \<and> hd tag = CHR ''#'') (map (tag_original info) (ti_tags info)) of
       Some tag \<Rightarrow> tl tag
     | None \<Rightarrow> [])"

definition junit_element :: "ResultWas \<Rightarrow> string" where
  "junit_element rt = (case rt of
       ThrewException \<Rightarrow> ''error''
     | FatalErrorCondition \<Rightarrow> ''error''
     | ExplicitFailure \<Rightarrow> ''failure''
     | ExpressionFailed \<Rightarrow> ''failure''
     | DidntThrowException \<Rightarrow> ''failure''
     | _ \<Rightarrow> ''internalError'')"

text \<open>A column that is printed to a stream; that the printing ends is shown below.\<close>

definition expansion_column :: "string \<Rightarrow> string res" where
  "expansion_column expanded = (case print_Column (Column_indent 2 (new_Column expanded)) [] of None \<Rightarrow> Inl Undefined | Some r \<Rightarrow> r)"

definition info_lines :: "MessageInfo list \<Rightarrow> string" where
  "info_lines ms = concat (map (\<lambda>msg. if mi_type msg = RW_Info then mi_message msg @ newline else []) ms)"

definition expansion_text :: "AssertionResult \<Rightarrow> string res" where
  "expansion_text result = (if hasExpandedExpression result
     then bindE (expansion_column (getExpandedExpression result)) (\<lambda>c. Inr (''with expansion:'' @ newline @ c @ newline))
     else Inr [])"

definition junit_text :: "AssertionStats \<Rightarrow> string res" where
  "junit_text stats = (let result = as_assertionResult stats in
     bindE (if counts_total (assertions (as_totals stats)) > 0
       then bindE (expansion_text result) (\<lambda>expansion. Inr (''FAILED:'' @ newline @
         (if hasExpression result then ''  '' @ getExpressionInMacro result @ newline else []) @ expansion))
       else Inr newline) (\<lambda>head.
     Inr (head @ (if hasMessage result then getMessage result @ newline else []) @ info_lines (infoMessages stats) @
       ''at '' @ source_text (ai_lineInfo (ar_info result)))))"

definition junit_writeAssertion :: "AssertionStats \<Rightarrow> XmlWriter \<Rightarrow> XmlWriter res" where
  "junit_writeAssertion stats = (let result = as_assertionResult stats in
     if ar_isOk result then Inr
     else in_element (junit_element (getResultType result)) (do_all [
       writeAttribute ''message'' (getExpression result), writeAttribute ''type'' (ai_macroName (ar_info result)),
       \<lambda>w. bindE (junit_text stats) (\<lambda>t. writeText t Fmt_Newline w)]))"

definition text_element :: "string \<Rightarrow> string \<Rightarrow> XmlWriter \<Rightarrow> XmlWriter res" where
  "text_element name t = in_element name (writeText (trim t) Fmt_Newline)"

definition section_name :: "string \<Rightarrow> SectionNode \<Rightarrow> string" where
  "section_name rootName n = (let name = trim (si_name (ss_sectionInfo (sn_stats n)))
     in if rootName \<noteq> [] then rootName @ CHR ''/'' # name else name)"

definition has_content :: "SectionNode \<Rightarrow> bool" where
  "has_content n \<longleftrightarrow> sn_assertions n \<noteq> [] \<or> sn_stdOut n \<noteq> [] \<or> sn_stdErr n \<noteq> []"

fun junit_writeSection :: "report_times \<Rightarrow> nat \<Rightarrow> SectionNode list \<Rightarrow> string \<Rightarrow> string \<Rightarrow> nat \<Rightarrow> XmlWriter \<Rightarrow> XmlWriter res" where
  "junit_writeSection rt 0 ns className rootName a = (\<lambda>w. Inl Undefined)"
| "junit_writeSection rt (Suc d) ns className rootName a = (let n = ns ! a; name = section_name rootName n in
     do_all [
       only_if (has_content n) (in_element ''testcase'' (do_all [
         writeAttribute ''classname'' (if className = [] then name else className),
         writeAttribute ''name'' (if className = [] then ''root'' else name),
         writeAttribute ''time'' (rt_section rt (sn_stats n)),
         writeAttribute ''status'' ''run'',
         foldE junit_writeAssertion (sn_assertions n),
         only_if (sn_stdOut n \<noteq> []) (text_element ''system-out'' (sn_stdOut n)),
         only_if (sn_stdErr n \<noteq> []) (text_element ''system-err'' (sn_stdErr n))])),
       foldE (\<lambda>c. if className = [] then junit_writeSection rt d ns name [] c else junit_writeSection rt d ns className name c)
         (childSections n)])"

text \<open>A test case has exactly one section, its own.\<close>

definition root_of :: "TestCaseNode \<Rightarrow> nat res" where
  "root_of testCaseNode = (if length (rn_children testCaseNode) \<noteq> 1 then Inl Assert_Failed
     else case hd (rn_children testCaseNode) of None \<Rightarrow> Inl Undefined | Some a \<Rightarrow> Inr a)"

definition junit_className :: "Config \<Rightarrow> TestCaseInfo \<Rightarrow> string" where
  "junit_className config info = (let c = (if ti_className info \<noteq> [] then ti_className info
       else if fileNameTag info \<noteq> [] then fileNameTag info else ''global'')
     in if config_name config \<noteq> [] then config_name config @ CHR ''.'' # c else c)"

definition junit_writeTestCase :: "Config \<Rightarrow> report_times \<Rightarrow> SectionNode list \<Rightarrow> TestCaseNode \<Rightarrow> XmlWriter \<Rightarrow> XmlWriter res" where
  "junit_writeTestCase config rt ns testCaseNode w = bindE (root_of testCaseNode) (\<lambda>a.
     junit_writeSection rt (length ns) ns (junit_className config (tc_testInfo (rn_value testCaseNode))) [] a w)"

definition junit_property :: "string \<Rightarrow> string \<Rightarrow> XmlWriter \<Rightarrow> XmlWriter res" where
  "junit_property name v = in_element ''property'' (do_all [writeAttribute ''name'' name, writeAttribute ''value'' v])"

definition junit_properties :: "Config \<Rightarrow> XmlWriter \<Rightarrow> XmlWriter res" where
  "junit_properties config = only_if (m_hasTestFilters config \<or> cd_rngSeed (m_data config) \<noteq> 0) (in_element ''properties'' (do_all [
     only_if (m_hasTestFilters config) (\<lambda>w. bindE (serializeFilters (testsOrTags (m_data config))) (\<lambda>f. junit_property ''filters'' f w)),
     only_if (cd_rngSeed (m_data config) \<noteq> 0) (junit_property ''random-seed'' (to_string (uint (cd_rngSeed (m_data config)))))]))"

text \<open>The number of failures is a difference of unsigned numbers.\<close>

definition junit_failures :: "Counts \<Rightarrow> 32 word \<Rightarrow> u64" where
  "junit_failures c exceptions = failed c - ucast exceptions"

definition junit_writeGroup :: "Config \<Rightarrow> report_times \<Rightarrow> TestGroupNode \<Rightarrow> JunitReporter \<Rightarrow> XmlWriter \<Rightarrow> XmlWriter res" where
  "junit_writeGroup config rt groupNode r = (let stats = rn_value groupNode; c = assertions (tg_totals stats) in
     in_element ''testsuite'' (do_all [
       writeAttribute ''name'' (gi_name (tg_groupInfo stats)),
       writeAttribute ''errors'' (to_string (uint (unexpectedExceptions r))),
       writeAttribute ''failures'' (to_string (uint (junit_failures c (unexpectedExceptions r)))),
       writeAttribute ''tests'' (to_string (uint (counts_total c))),
       writeAttribute ''hostname'' ''tbd'',
       writeAttribute ''time'' (if cd_showDurations (m_data config) = Durations_Never then [] else rt_suite rt),
       writeAttribute ''timestamp'' (rt_timestamp rt),
       junit_properties config,
       foldE (junit_writeTestCase config rt (section_nodes r)) (rn_children groupNode),
       text_element ''system-out'' (stdOutForSuite r),
       text_element ''system-err'' (stdErrForSuite r)]))"

definition ju_writing :: "(XmlWriter \<Rightarrow> XmlWriter res) \<Rightarrow> JunitReporter \<Rightarrow> JunitReporter res" where
  "ju_writing f r = bindE (f (ju_xml r)) (\<lambda>w. Inr (r\<lparr>ju_xml := w\<rparr>))"

fun junit :: "Config \<Rightarrow> report_times \<Rightarrow> reporter_event \<Rightarrow> JunitReporter \<Rightarrow> JunitReporter res" where
  "junit config rt (Ev_testRunStarting runInfo) r =
     do_all [cumulative (Ev_testRunStarting runInfo), ju_writing (open_element ''testsuites'')] r"
| "junit config rt (Ev_testGroupStarting groupInfo) r = cumulative (Ev_testGroupStarting groupInfo)
     (r\<lparr>stdOutForSuite := [], stdErrForSuite := [], unexpectedExceptions := 0\<rparr>)"
| "junit config rt (Ev_testCaseStarting testCaseInfo) r = Inr (r\<lparr>m_okToFail := okToFail testCaseInfo\<rparr>)"
| "junit config rt (Ev_assertionEnded stats) r = cumulative (Ev_assertionEnded stats)
     (if getResultType (as_assertionResult stats) = ThrewException \<and> \<not> m_okToFail r
      then r\<lparr>unexpectedExceptions := unexpectedExceptions r + 1\<rparr> else r)"
| "junit config rt (Ev_testCaseEnded stats) r = cumulative (Ev_testCaseEnded stats)
     (r\<lparr>stdOutForSuite := stdOutForSuite r @ tc_stdOut stats, stdErrForSuite := stdErrForSuite r @ tc_stdErr stats\<rparr>)"
| "junit config rt (Ev_testGroupEnded stats) r = bindE (cumulative (Ev_testGroupEnded stats) r) (\<lambda>r1.
     ju_writing (junit_writeGroup config rt (last (m_testGroups r1)) r1) r1)"
| "junit config rt (Ev_testRunEnded stats) r =
     do_all [cumulative (Ev_testRunEnded stats), ju_writing (endElement default_fmt)] r"
| "junit config rt e r = cumulative e r"

subsection \<open>What it writes, as trees\<close>

lemma writes_text_element [writes]: "writes (text_element name t) [] [Element name [] [Line (trim t)]]"
  unfolding text_element_def by (rule writes)+

text \<open>The texts are always there.\<close>

lemma expansion_column_ends: "\<exists>t. expansion_column s = Inr t"
proof -
  let ?c = "Column_indent 2 (new_Column s)"
  have wide: "col_wide ?c" by (simp add: col_wide_def iter_indent_def Column_indent_def new_Column_def)
  from Column_begin_good [OF wide] obtain it where it: "Column_begin ?c = Inr it" "good_iter ?c it" by blast
  from column_lines_spec [OF wide it(2)] obtain ls where "column_lines ?c it = Some (Inr ls)" by blast
  with it(1) show ?thesis by (simp add: expansion_column_def print_Column_def)
qed

lemma expansion_text_ends: "\<exists>t. expansion_text result = Inr t"
  using expansion_column_ends [of "getExpandedExpression result"] by (auto simp: expansion_text_def)

definition written :: "string res \<Rightarrow> string" where
  "written r = (case r of Inr t \<Rightarrow> t | Inl _ \<Rightarrow> [])"

lemma junit_text_written: "junit_text stats = Inr (written (junit_text stats))"
  using expansion_text_ends [of "as_assertionResult stats"] by (auto simp: junit_text_def Let_def written_def)

definition junit_problem :: "AssertionStats \<Rightarrow> xml_node list" where
  "junit_problem stats = (let result = as_assertionResult stats in if ar_isOk result then [] else
     [Element (junit_element (getResultType result)) [(''message'', getExpression result), (''type'', ai_macroName (ar_info result))]
       [Line (written (junit_text stats))]])"

lemma assertion_written: "writes (junit_writeAssertion stats) [] (junit_problem stats)"
proof -
  have t: "writes (\<lambda>w. bindE (junit_text stats) (\<lambda>t. writeText t Fmt_Newline w)) [] [Line (written (junit_text stats))]"
    by (subst junit_text_written) (simp add: writes_def fun_forms)
  have "writes (in_element name (do_all [writeAttribute ''message'' m, writeAttribute ''type'' ty,
      \<lambda>w. bindE (junit_text stats) (\<lambda>t. writeText t Fmt_Newline w)])) []
      [Element name [(''message'', m), (''type'', ty)] [Line (written (junit_text stats))]]" for name m ty
    by (rule writes_eq, rule writes_element, rule writes_attribute, rule writes_attribute, rule writes_Cons [OF t], rule writes) simp_all
  then show ?thesis by (simp add: junit_writeAssertion_def junit_problem_def Let_def writes_nothing)
qed

fun section_tree :: "report_times \<Rightarrow> nat \<Rightarrow> SectionNode list \<Rightarrow> string \<Rightarrow> string \<Rightarrow> nat \<Rightarrow> xml_node list" where
  "section_tree rt 0 ns className rootName a = []"
| "section_tree rt (Suc d) ns className rootName a = (let n = ns ! a; name = section_name rootName n in
     (if has_content n then [Element ''testcase''
        [(''classname'', if className = [] then name else className), (''name'', if className = [] then ''root'' else name),
         (''time'', rt_section rt (sn_stats n)), (''status'', ''run'')]
        (concat (map junit_problem (sn_assertions n)) @
         (if sn_stdOut n \<noteq> [] then [Element ''system-out'' [] [Line (trim (sn_stdOut n))]] else []) @
         (if sn_stdErr n \<noteq> [] then [Element ''system-err'' [] [Line (trim (sn_stdErr n))]] else []))] else []) @
     concat (map (\<lambda>c. if className = [] then section_tree rt d ns name [] c else section_tree rt d ns className name c)
       (childSections n)))"

lemma section_written:
  assumes "below_ok (map childSections ns)"
  shows "a < length ns \<Longrightarrow> length ns \<le> d + a \<Longrightarrow>
    writes (junit_writeSection rt d ns className rootName a) [] (section_tree rt d ns className rootName a)"
proof (induction d arbitrary: a className rootName)
  case (Suc d)
  note kids = child_later [OF assms Suc.prems(1)]
  have assertions: "writes (foldE junit_writeAssertion sts) [] (concat (map junit_problem sts))" for sts
    by (rule writes_fold) (rule assertion_written)
  have children: "writes (foldE (\<lambda>c. if className = [] then junit_writeSection rt d ns name [] c else junit_writeSection rt d ns className name c)
      (childSections (ns ! a))) []
    (concat (map (\<lambda>c. if className = [] then section_tree rt d ns name [] c else section_tree rt d ns className name c) (childSections (ns ! a))))" for name
  proof (rule writes_fold)
    fix c assume "c \<in> set (childSections (ns ! a))"
    from kids [OF this] Suc.prems(2) Suc.IH [of c] show "writes (if className = [] then junit_writeSection rt d ns name [] c else junit_writeSection rt d ns className name c) []
      (if className = [] then section_tree rt d ns name [] c else section_tree rt d ns className name c)" by simp
  qed
  show ?case unfolding junit_writeSection.simps section_tree.simps Let_def
    by (rule writes_eq, (rule assertions children writes_attribute | rule writes)+) simp_all
qed simp

definition case_tree :: "Config \<Rightarrow> report_times \<Rightarrow> SectionNode list \<Rightarrow> TestCaseNode \<Rightarrow> xml_node list" where
  "case_tree config rt ns testCaseNode = section_tree rt (length ns) ns
     (junit_className config (tc_testInfo (rn_value testCaseNode))) [] (case_root testCaseNode)"

definition properties_tree :: "Config \<Rightarrow> xml_node list" where
  "properties_tree config = (let seed = cd_rngSeed (m_data config) in
     if m_hasTestFilters config \<or> seed \<noteq> 0 then [Element ''properties'' []
       ((if m_hasTestFilters config then [Element ''property'' [(''name'', ''filters''), (''value'', joined (testsOrTags (m_data config)))] []] else []) @
        (if seed \<noteq> 0 then [Element ''property'' [(''name'', ''random-seed''), (''value'', to_string (uint seed))] []] else []))] else [])"

definition suite_tree :: "Config \<Rightarrow> report_times \<Rightarrow> TestGroupNode \<Rightarrow> JunitReporter \<Rightarrow> xml_node" where
  "suite_tree config rt groupNode r = (let stats = rn_value groupNode; c = assertions (tg_totals stats) in Element ''testsuite''
     [(''name'', gi_name (tg_groupInfo stats)), (''errors'', to_string (uint (unexpectedExceptions r))),
      (''failures'', to_string (uint (junit_failures c (unexpectedExceptions r)))), (''tests'', to_string (uint (counts_total c))),
      (''hostname'', ''tbd''), (''time'', if cd_showDurations (m_data config) = Durations_Never then [] else rt_suite rt),
      (''timestamp'', rt_timestamp rt)]
     (properties_tree config @ concat (map (case_tree config rt (section_nodes r)) (rn_children groupNode)) @
      [Element ''system-out'' [] [Line (trim (stdOutForSuite r))], Element ''system-err'' [] [Line (trim (stdErrForSuite r))]]))"

lemma case_written:
  assumes "below_ok (map childSections ns)" and "case_complete (length ns) tc"
  shows "writes (junit_writeTestCase config rt ns tc) [] (case_tree config rt ns tc)"
proof -
  from assms(2) obtain a where a: "rn_children tc = [Some a]" "a < length ns" by (auto simp: case_complete_def)
  from section_written [OF assms(1) a(2), of "length ns"] a(1) show ?thesis
    by (simp add: case_tree_def case_root_def junit_writeTestCase_def [abs_def] root_of_def)
qed

lemma property_written [writes]: "writes (junit_property n v) [] [Element ''property'' [(''name'', n), (''value'', v)] []]"
  unfolding junit_property_def by (rule writes_attribute | rule writes)+

lemma properties_written:
  assumes "m_hasTestFilters config \<longrightarrow> testsOrTags (m_data config) \<noteq> []"
  shows "writes (junit_properties config) [] (properties_tree config)"
proof -
  have filters: "writes (\<lambda>w. bindE (serializeFilters (testsOrTags (m_data config))) (\<lambda>f. junit_property ''filters'' f w)) []
      [Element ''property'' [(''name'', ''filters''), (''value'', joined (testsOrTags (m_data config)))] []]" if "m_hasTestFilters config"
    using assms that property_written by (simp add: serializeFilters_def)
  show ?thesis unfolding junit_properties_def properties_tree_def Let_def
    by (rule writes_eq, (rule filters writes_attribute | assumption | rule writes)+) simp_all
qed

lemma group_written:
  assumes "below_ok (map childSections (section_nodes r))" and "\<And>tc. tc \<in> set (rn_children g) \<Longrightarrow> case_complete (length (section_nodes r)) tc"
    and "m_hasTestFilters config \<longrightarrow> testsOrTags (m_data config) \<noteq> []"
  shows "writes (junit_writeGroup config rt g r) [] [suite_tree config rt g r]"
proof -
  have cases: "writes (foldE (junit_writeTestCase config rt (section_nodes r)) (rn_children g)) []
      (concat (map (case_tree config rt (section_nodes r)) (rn_children g)))"
    using assms(1,2) by (intro writes_fold case_written)
  show ?thesis unfolding junit_writeGroup_def suite_tree_def Let_def
    by (rule writes_eq, (rule cases properties_written [OF assms(3)] writes_attribute | rule writes)+) simp_all
qed

subsection \<open>Every failure is in the report\<close>

lemma junit_element_is: "junit_element rt \<in> {''failure'', ''error'', ''internalError''}"
  by (cases rt) (simp_all add: junit_element_def)

lemma assertion_problems: "problemss (junit_problem stats) = (if not_ok stats then 1 else 0)"
  using junit_element_is [of "getResultType (as_assertionResult stats)"] by (auto simp: junit_problem_def Let_def not_ok_def)

lemma assertions_problems: "(\<Sum>st\<leftarrow>sts. problemss (junit_problem st)) = length (filter not_ok sts)"
  by (induction sts) (simp_all add: assertion_problems)

lemma no_content: "\<not> has_content n \<Longrightarrow> sn_assertions n = []"
  by (simp add: has_content_def)

lemma section_problems:
  "problemss (section_tree rt d ns className rootName a) =
     length (filter not_ok (concat (map (\<lambda>b. sn_assertions (ns ! b)) (nodes_below d (map childSections ns) a))))"
  if "below_ok (map childSections ns)" "a < length ns"
  using that(2)
proof (induction d arbitrary: a className rootName)
  case (Suc d)
  let ?kids = "childSections (ns ! a)" let ?f = "\<lambda>c. length (filter not_ok (concat (map (\<lambda>b. sn_assertions (ns ! b)) (nodes_below d (map childSections ns) c))))"
  note kids = child_later [OF \<open>below_ok (map childSections ns)\<close> Suc.prems]
  have below: "length (filter not_ok (concat (map (\<lambda>b. sn_assertions (ns ! b)) (concat (map (nodes_below d (map childSections ns)) cs))))) =
      (\<Sum>c\<leftarrow>cs. ?f c)" for cs by (induction cs) simp_all
  have "(\<Sum>c\<leftarrow>?kids. problemss (if className = [] then section_tree rt d ns name [] c else section_tree rt d ns className name c)) =
      (\<Sum>c\<leftarrow>?kids. ?f c)" for name
    using Suc.IH kids by (intro arg_cong [where f = sum_list] map_cong) auto
  then show ?case using Suc.prems no_content [of "ns ! a"]
    by (simp add: Let_def problemss_concat assertions_problems below)
qed simp

lemma case_problems:
  assumes "below_ok (map childSections ns)" and "case_complete (length ns) tc"
  shows "problemss (case_tree config rt ns tc) = length (filter not_ok (tree_assertions (case_root tc) ns))"
  using section_problems [OF assms(1)] assms(2) by (auto simp: case_tree_def tree_assertions_def case_complete_def case_root_def)

lemma junit_no_problem: "problemss (properties_tree config) = 0"
  by (simp add: properties_tree_def Let_def)

lemma group_view_junit [simp]:
  "group_view p ms (r\<lparr>ju_xml := w\<rparr>) = group_view p ms r" "group_view p ms (r\<lparr>stdOutForSuite := s\<rparr>) = group_view p ms r"
  "group_view p ms (r\<lparr>stdErrForSuite := s\<rparr>) = group_view p ms r" "group_view p ms (r\<lparr>unexpectedExceptions := u\<rparr>) = group_view p ms r"
  "group_view p ms (r\<lparr>m_okToFail := b\<rparr>) = group_view p ms r"
  by (cases p; simp add: in_progress_def cases_done_def)+

lemma cumulative_keeps_xml: "cumulative e r = Inr r' \<Longrightarrow> ju_xml r' = ju_xml r"
  using cumulative_keeps_more [of e r r'] by (cases r; cases r') simp

lemma suite_problems:
  assumes "cases_done (length (section_nodes r)) ms r" and "section_nodes r1 = section_nodes r"
  shows "problems (suite_tree config rt \<lparr>rn_value = st, rn_children = m_testCases r\<rparr> r1) = size (filter_mset not_ok ms)"
proof -
  let ?ns = "section_nodes r" let ?f = "\<lambda>tc. tree_assertions (case_root tc) ?ns"
  have "problemss (concat (map (case_tree config rt ?ns) tcs)) = length (filter not_ok (concat (map ?f tcs)))"
    if "set tcs \<subseteq> set (m_testCases r)" for tcs
    using that case_problems [of ?ns] assms(1) by (induction tcs) (auto simp: cases_done_def)
  moreover have "ms = mset (concat (map ?f (m_testCases r)))" using assms(1) by (simp add: cases_done_def)
  ultimately show ?thesis using junit_no_problem assms(2)
    by (simp add: suite_tree_def Let_def mset_filter [symmetric] del: mset_filter mset_concat)
qed

subsection \<open>The contract\<close>

definition junit_config :: "Config \<Rightarrow> bool" where
  "junit_config config \<longleftrightarrow> (m_hasTestFilters config \<longrightarrow> testsOrTags (m_data config) \<noteq> [])"

lemma junit_group:
  assumes "junit_config config" and "group_view In_group ms r"
  shows "\<exists>ks. (\<forall>k \<in> set ks. visible k) \<and> problemss ks = size (filter_mset not_ok ms) \<and>
    (\<forall>w. write_nodes ks (ju_xml r) = Inr w \<longrightarrow>
      (\<exists>r'. junit config rt (Ev_testGroupEnded st) r = Inr r' \<and> ju_xml r' = w \<and> group_view In_run {#} r'))"
proof -
  let ?g = "\<lparr>rn_value = st, rn_children = m_testCases r\<rparr>" let ?r1 = "cumulative_testGroupEnded st r"
  have r1: "last (m_testGroups ?r1) = ?g" "section_nodes ?r1 = section_nodes r" "ju_xml ?r1 = ju_xml r"
    by (simp_all add: cumulative_testGroupEnded_def)
  have complete: "cases_done (length (section_nodes r)) ms r" using assms(2) by simp
  let ?s = "suite_tree config rt ?g ?r1"
  have "junit_writeGroup config rt ?g ?r1 w = write_nodes [?s] w" for w
    by (rule writesD, rule group_written) (use complete assms(1) r1(2) in \<open>auto simp: cases_done_def junit_config_def\<close>)
  moreover have "problems ?s = size (filter_mset not_ok ms)" by (intro suite_problems) (use complete r1(2) in simp_all)
  moreover have "visible ?s" by (simp add: suite_tree_def Let_def)
  moreover have "group_view In_run {#} (?r1\<lparr>ju_xml := w\<rparr>)" for w
    using assms(2) by (simp add: cumulative_testGroupEnded_def cases_done_def)
  ultimately show ?thesis using r1 by (intro exI [of _ "[?s]"]) (simp add: ju_writing_def)
qed

interpretation junit: group_report "junit config rt" ju_xml "''testsuites''" "[]" "junit_config config" for config rt
proof
  show "\<exists>r1. junit config rt e r = cumulative e r1 \<and> ju_xml r1 = ju_xml r \<and> (\<forall>p ms. group_view p ms r1 = group_view p ms r)"
    if "collects e" for e r
    using that by (cases e) auto
  show "ju_xml r' = ju_xml r" if "cumulative e r = Inr r'" for e and r r' :: JunitReporter
    using that by (rule cumulative_keeps_xml)
  show "\<exists>r'. junit config rt (Ev_testRunStarting info) r = Inr r' \<and> ju_xml r' = w \<and> (\<forall>p ms. group_view p ms r' = group_view p ms r)"
    if "bindE (open_element ''testsuites'' (ju_xml r)) (foldE (\<lambda>(n, v). writeAttribute n v) []) = Inr w" for r w info
    using that by (simp add: do_all_def ju_writing_def open_element_def)
  show "\<exists>r'. junit config rt (Ev_testRunEnded ru) r = Inr r' \<and> ju_xml r' = w \<and> group_view Run_over ms r'"
    if "endElement default_fmt (ju_xml r) = Inr w" "group_view In_run ms r" for r w ms ru
    using that by (simp add: do_all_def ju_writing_def cumulative_testRunEnded_def)
qed (rule junit_group)

end
