(* ===== verification/Catch_Sonar.thy ===== *)
theory Catch_Sonar
  imports Catch_Junit
begin

section \<open>The SonarQube report\<close>

text \<open>
  \<open>SonarQubeReporter\<close> sorts the test cases of a group by their files, and keeps the contract of \<open>Catch_Group_Report\<close>. A
  failure of a test that may fail is reported as skipped.
\<close>

subsection \<open>The reporter\<close>

record SonarQubeReporter = CumulativeReporterBase +
  sq_xml :: XmlWriter

definition new_SonarQubeReporter :: "string \<Rightarrow> SonarQubeReporter" where
  "new_SonarQubeReporter os = CumulativeReporterBase.extend new_CumulativeReporterBase (SonarQubeReporter.fields (new_XmlWriter os))"

definition sonar_text :: "AssertionStats \<Rightarrow> string" where
  "sonar_text stats = (let result = as_assertionResult stats in
     (if counts_total (assertions (as_totals stats)) > 0
      then ''FAILED:'' @ newline @
        (if hasExpression result then [CHR 0x09] @ getExpressionInMacro result @ newline else []) @
        (if hasExpandedExpression result then ''with expansion:'' @ newline @ [CHR 0x09] @ getExpandedExpression result @ newline else [])
      else []) @
     (if hasMessage result then getMessage result @ newline else []) @ info_lines (infoMessages stats) @
     ''at '' @ source_text (ai_lineInfo (ar_info result)))"

definition sonar_element :: "bool \<Rightarrow> ResultWas \<Rightarrow> string" where
  "sonar_element ok rt = (if ok then ''skipped'' else case rt of
       ThrewException \<Rightarrow> ''error''
     | FatalErrorCondition \<Rightarrow> ''error''
     | ExplicitFailure \<Rightarrow> ''failure''
     | ExpressionFailed \<Rightarrow> ''failure''
     | DidntThrowException \<Rightarrow> ''failure''
     | _ \<Rightarrow> ''internalError'')"

definition sonar_writeAssertion :: "bool \<Rightarrow> AssertionStats \<Rightarrow> XmlWriter \<Rightarrow> XmlWriter res" where
  "sonar_writeAssertion ok stats = (let result = as_assertionResult stats in
     if ar_isOk result then Inr
     else in_element (sonar_element ok (getResultType result)) (do_all [
       writeAttribute ''message'' (ai_macroName (ar_info result) @ ''('' @ getExpression result @ '')''),
       writeText (sonar_text stats) Fmt_Newline]))"

fun sonar_writeSection :: "report_times \<Rightarrow> bool \<Rightarrow> nat \<Rightarrow> SectionNode list \<Rightarrow> string \<Rightarrow> nat \<Rightarrow> XmlWriter \<Rightarrow> XmlWriter res" where
  "sonar_writeSection rt ok 0 ns rootName a = (\<lambda>w. Inl Undefined)"
| "sonar_writeSection rt ok (Suc d) ns rootName a = (let n = ns ! a; name = section_name rootName n in
     do_all [
       only_if (has_content n) (in_element ''testCase'' (do_all [
         writeAttribute ''name'' name, writeAttribute ''duration'' (rt_milliseconds rt (sn_stats n)),
         foldE (sonar_writeAssertion ok) (sn_assertions n)])),
       foldE (sonar_writeSection rt ok d ns name) (childSections n)])"

definition sonar_writeTestCase :: "report_times \<Rightarrow> SectionNode list \<Rightarrow> TestCaseNode \<Rightarrow> XmlWriter \<Rightarrow> XmlWriter res" where
  "sonar_writeTestCase rt ns testCaseNode w = bindE (root_of testCaseNode) (\<lambda>a.
     sonar_writeSection rt (okToFail (tc_testInfo (rn_value testCaseNode))) (length ns) ns [] a w)"

definition sonar_writeTestFile :: "report_times \<Rightarrow> SectionNode list \<Rightarrow> string \<times> TestCaseNode list \<Rightarrow> XmlWriter \<Rightarrow> XmlWriter res" where
  "sonar_writeTestFile rt ns kv = in_element ''file'' (do_all [writeAttribute ''path'' (fst kv),
     foldE (sonar_writeTestCase rt ns) (snd kv)])"

text \<open>\<open>testsPerFile[key].push_back(value)\<close> on a \<open>std::map\<close>.\<close>

fun push_file :: "string \<Rightarrow> 'a \<Rightarrow> (string \<times> 'a list) list \<Rightarrow> (string \<times> 'a list) list" where
  "push_file k v [] = [(k, [v])]"
| "push_file k v ((l, vs) # r) = (if k = l then (l, vs @ [v]) # r
     else if string_less k l then (k, [v]) # (l, vs) # r else (l, vs) # push_file k v r)"

definition testsPerFile :: "TestCaseNode list \<Rightarrow> (string \<times> TestCaseNode list) list" where
  "testsPerFile children = fold (\<lambda>child. push_file (li_file (ti_lineInfo (tc_testInfo (rn_value child)))) child) children []"

definition sonar_writeGroup :: "report_times \<Rightarrow> SectionNode list \<Rightarrow> TestGroupNode \<Rightarrow> XmlWriter \<Rightarrow> XmlWriter res" where
  "sonar_writeGroup rt ns groupNode = foldE (sonar_writeTestFile rt ns) (testsPerFile (rn_children groupNode))"

definition sq_writing :: "(XmlWriter \<Rightarrow> XmlWriter res) \<Rightarrow> SonarQubeReporter \<Rightarrow> SonarQubeReporter res" where
  "sq_writing f r = bindE (f (sq_xml r)) (\<lambda>w. Inr (r\<lparr>sq_xml := w\<rparr>))"

fun sonar :: "report_times \<Rightarrow> reporter_event \<Rightarrow> SonarQubeReporter \<Rightarrow> SonarQubeReporter res" where
  "sonar rt (Ev_testRunStarting runInfo) r = do_all [cumulative (Ev_testRunStarting runInfo),
     sq_writing (open_element ''testExecutions''), sq_writing (writeAttribute ''version'' ''1'')] r"
| "sonar rt (Ev_testGroupEnded stats) r = bindE (cumulative (Ev_testGroupEnded stats) r) (\<lambda>r1.
     sq_writing (sonar_writeGroup rt (section_nodes r1) (last (m_testGroups r1))) r1)"
| "sonar rt (Ev_testRunEnded stats) r = do_all [cumulative (Ev_testRunEnded stats), sq_writing (endElement default_fmt)] r"
| "sonar rt e r = cumulative e r"

subsection \<open>What it writes, as trees\<close>

definition sonar_problem :: "bool \<Rightarrow> AssertionStats \<Rightarrow> xml_node list" where
  "sonar_problem ok stats = (let result = as_assertionResult stats in if ar_isOk result then [] else
     [Element (sonar_element ok (getResultType result)) [(''message'', ai_macroName (ar_info result) @ ''('' @ getExpression result @ '')'')]
       [Line (sonar_text stats)]])"

lemma sonar_assertion_written: "writes (sonar_writeAssertion ok stats) [] (sonar_problem ok stats)"
proof -
  have "writes (in_element name (do_all [writeAttribute ''message'' m, writeText t Fmt_Newline])) []
      [Element name [(''message'', m)] [Line t]]" for name m t
    by (rule writes_eq, rule writes_element, rule writes_attribute, rule writes_Cons, (rule writes)+) simp_all
  then show ?thesis by (simp add: sonar_writeAssertion_def sonar_problem_def Let_def writes_nothing)
qed

fun sonar_tree :: "report_times \<Rightarrow> bool \<Rightarrow> nat \<Rightarrow> SectionNode list \<Rightarrow> string \<Rightarrow> nat \<Rightarrow> xml_node list" where
  "sonar_tree rt ok 0 ns rootName a = []"
| "sonar_tree rt ok (Suc d) ns rootName a = (let n = ns ! a; name = section_name rootName n in
     (if has_content n then [Element ''testCase'' [(''name'', name), (''duration'', rt_milliseconds rt (sn_stats n))]
        (concat (map (sonar_problem ok) (sn_assertions n)))] else []) @
     concat (map (sonar_tree rt ok d ns name) (childSections n)))"

lemma sonar_section_written:
  assumes "below_ok (map childSections ns)"
  shows "a < length ns \<Longrightarrow> length ns \<le> d + a \<Longrightarrow> writes (sonar_writeSection rt ok d ns rootName a) [] (sonar_tree rt ok d ns rootName a)"
proof (induction d arbitrary: a rootName)
  case (Suc d)
  have assertions: "writes (foldE (sonar_writeAssertion ok) sts) [] (concat (map (sonar_problem ok) sts))" for sts
    by (rule writes_fold) (rule sonar_assertion_written)
  have children: "writes (foldE (sonar_writeSection rt ok d ns name) (childSections (ns ! a))) []
      (concat (map (sonar_tree rt ok d ns name) (childSections (ns ! a))))" for name
    using child_later [OF assms Suc.prems(1)] Suc.prems(2) by (intro writes_fold Suc.IH) fastforce+
  show ?case unfolding sonar_writeSection.simps sonar_tree.simps Let_def
    by (rule writes_eq, (rule assertions children writes_attribute | rule writes)+) simp_all
qed simp

definition sonar_case_tree :: "report_times \<Rightarrow> SectionNode list \<Rightarrow> TestCaseNode \<Rightarrow> xml_node list" where
  "sonar_case_tree rt ns testCaseNode = sonar_tree rt (okToFail (tc_testInfo (rn_value testCaseNode))) (length ns) ns [] (case_root testCaseNode)"

definition file_tree :: "report_times \<Rightarrow> SectionNode list \<Rightarrow> string \<times> TestCaseNode list \<Rightarrow> xml_node" where
  "file_tree rt ns kv = Element ''file'' [(''path'', fst kv)] (concat (map (sonar_case_tree rt ns) (snd kv)))"

lemma sonar_case_written:
  assumes "below_ok (map childSections ns)" and "case_complete (length ns) tc"
  shows "writes (sonar_writeTestCase rt ns tc) [] (sonar_case_tree rt ns tc)"
proof -
  from assms(2) obtain a where a: "rn_children tc = [Some a]" "a < length ns" by (auto simp: case_complete_def)
  from sonar_section_written [OF assms(1) a(2), of "length ns"] a(1) show ?thesis
    by (simp add: sonar_case_tree_def case_root_def sonar_writeTestCase_def [abs_def] root_of_def)
qed

lemma push_file_cases: "mset (concat (map snd (push_file k v m))) = add_mset v (mset (concat (map snd m)))"
  by (induction k v m rule: push_file.induct) simp_all

lemma tests_per_file: "mset (concat (map snd (testsPerFile tcs))) = mset tcs"
proof -
  have "mset (concat (map snd (fold (\<lambda>child. push_file (f child) child) tcs m))) = mset (concat (map snd m)) + mset tcs" for f m
    by (induction tcs arbitrary: m) (simp_all add: push_file_cases del: mset_concat)
  then show ?thesis by (simp add: testsPerFile_def del: mset_concat)
qed

lemma sonar_group_written:
  assumes "below_ok (map childSections ns)" and "\<And>tc. tc \<in> set (rn_children g) \<Longrightarrow> case_complete (length ns) tc"
  shows "writes (sonar_writeGroup rt ns g) [] (map (file_tree rt ns) (testsPerFile (rn_children g)))"
proof -
  have "writes (sonar_writeTestFile rt ns kv) [] [file_tree rt ns kv]" if "kv \<in> set (testsPerFile (rn_children g))" for kv
  proof -
    have "tc \<in> set (rn_children g)" if "tc \<in> set (snd kv)" for tc
      using that \<open>kv \<in> _\<close> tests_per_file [of "rn_children g", THEN mset_eq_setD] by auto
    then have cases: "writes (foldE (sonar_writeTestCase rt ns) (snd kv)) [] (concat (map (sonar_case_tree rt ns) (snd kv)))"
      using assms by (intro writes_fold sonar_case_written) auto
    show ?thesis unfolding sonar_writeTestFile_def file_tree_def
      by (rule writes_eq, (rule cases writes_attribute | rule writes)+) simp_all
  qed
  then show ?thesis unfolding sonar_writeGroup_def by (subst concat_map_singleton [symmetric]) (rule writes_fold)
qed

subsection \<open>Every failure is in the report\<close>

lemma sonar_element_is: "sonar_element ok rt \<in> {''failure'', ''error'', ''internalError'', ''skipped''}"
  by (cases rt) (simp_all add: sonar_element_def)

lemma sonar_problems: "(\<Sum>st\<leftarrow>sts. problemss (sonar_problem ok st)) = length (filter not_ok sts)"
proof (induction sts)
  case (Cons st sts)
  then show ?case using sonar_element_is [of ok "getResultType (as_assertionResult st)"]
    by (auto simp: sonar_problem_def Let_def not_ok_def)
qed simp

lemma sonar_section_problems:
  assumes "below_ok (map childSections ns)"
  shows "a < length ns \<Longrightarrow> problemss (sonar_tree rt ok d ns rootName a) =
     length (filter not_ok (concat (map (\<lambda>b. sn_assertions (ns ! b)) (nodes_below d (map childSections ns) a))))"
proof (induction d arbitrary: a rootName)
  case (Suc d)
  let ?kids = "childSections (ns ! a)" let ?f = "\<lambda>c. length (filter not_ok (concat (map (\<lambda>b. sn_assertions (ns ! b)) (nodes_below d (map childSections ns) c))))"
  have below: "length (filter not_ok (concat (map (\<lambda>b. sn_assertions (ns ! b)) (concat (map (nodes_below d (map childSections ns)) cs))))) =
      (\<Sum>c\<leftarrow>cs. ?f c)" for cs by (induction cs) simp_all
  have "(\<Sum>c\<leftarrow>?kids. problemss (sonar_tree rt ok d ns name c)) = (\<Sum>c\<leftarrow>?kids. ?f c)" for name
    using Suc.IH child_later [OF assms Suc.prems] by (intro arg_cong [where f = sum_list] map_cong) auto
  then show ?case using Suc.prems no_content [of "ns ! a"] by (simp add: Let_def problemss_concat sonar_problems below)
qed simp

lemma sonar_case_problems:
  assumes "below_ok (map childSections ns)" and "case_complete (length ns) tc"
  shows "problemss (sonar_case_tree rt ns tc) = length (filter not_ok (tree_assertions (case_root tc) ns))"
  using sonar_section_problems [OF assms(1)] assms(2)
  by (auto simp: sonar_case_tree_def tree_assertions_def case_complete_def case_root_def)

lemma problemss_map: "problemss (map f xs) = (\<Sum>x\<leftarrow>xs. problems (f x))"
  by (induction xs) simp_all

lemma files_problems:
  assumes "cases_done (length (section_nodes r)) ms r"
  shows "problemss (map (file_tree rt (section_nodes r)) (testsPerFile (m_testCases r))) = size (filter_mset not_ok ms)"
proof -
  let ?ns = "section_nodes r" let ?f = "\<lambda>tc. tree_assertions (case_root tc) ?ns"
  let ?tcs = "concat (map snd (testsPerFile (m_testCases r)))"
  have ok: "below_ok (map childSections ?ns)" and cases: "\<And>tc. tc \<in> set (m_testCases r) \<Longrightarrow> case_complete (length ?ns) tc"
    using assms by (simp_all add: cases_done_def)
  have "problemss (map (file_tree rt ?ns) fs) = problemss (concat (map (sonar_case_tree rt ?ns) (concat (map snd fs))))" for fs
    by (induction fs) (simp_all add: file_tree_def)
  moreover have "problemss (concat (map (sonar_case_tree rt ?ns) tcs)) = length (filter not_ok (concat (map ?f tcs)))"
    if "set tcs \<subseteq> set (m_testCases r)" for tcs
    using that cases sonar_case_problems [OF ok] by (induction tcs) auto
  moreover have "set ?tcs = set (m_testCases r)" using tests_per_file by (rule mset_eq_setD)
  moreover have "mset (concat (map ?f ?tcs)) = mset (concat (map ?f (m_testCases r)))" using tests_per_file by (rule concat_mset)
  then have "length (filter not_ok (concat (map ?f ?tcs))) = length (filter not_ok (concat (map ?f (m_testCases r))))"
    by (metis mset_filter size_mset)
  moreover have "ms = mset (concat (map ?f (m_testCases r)))" using assms by (simp add: cases_done_def)
  ultimately show ?thesis by (simp add: mset_filter [symmetric] del: mset_filter mset_concat)
qed

subsection \<open>The contract\<close>

lemma group_view_sonar [simp]: "group_view p ms (r\<lparr>sq_xml := w\<rparr>) = group_view p ms r"
  by (cases p; simp add: in_progress_def cases_done_def)

lemma cumulative_keeps_sonar: "cumulative e r = Inr r' \<Longrightarrow> sq_xml r' = sq_xml r"
  using cumulative_keeps_more [of e r r'] by (cases r; cases r') simp

lemma sonar_group:
  assumes "group_view In_group ms r"
  shows "\<exists>ks. (\<forall>k \<in> set ks. visible k) \<and> problemss ks = size (filter_mset not_ok ms) \<and>
    (\<forall>w. write_nodes ks (sq_xml r) = Inr w \<longrightarrow>
      (\<exists>r'. sonar rt (Ev_testGroupEnded st) r = Inr r' \<and> sq_xml r' = w \<and> group_view In_run {#} r'))"
proof -
  let ?g = "\<lparr>rn_value = st, rn_children = m_testCases r\<rparr>" let ?r1 = "cumulative_testGroupEnded st r"
  have r1: "last (m_testGroups ?r1) = ?g" "section_nodes ?r1 = section_nodes r" "sq_xml ?r1 = sq_xml r"
    by (simp_all add: cumulative_testGroupEnded_def)
  have complete: "cases_done (length (section_nodes r)) ms r" using assms by simp
  let ?ks = "map (file_tree rt (section_nodes r)) (testsPerFile (m_testCases r))"
  have "sonar_writeGroup rt (section_nodes r) ?g w = write_nodes ?ks w" for w
    using writesD [OF sonar_group_written [of "section_nodes r" ?g rt]] complete by (simp add: cases_done_def)
  moreover have "\<forall>k \<in> set ?ks. visible k" by (auto simp: file_tree_def)
  moreover have "group_view In_run {#} (?r1\<lparr>sq_xml := w\<rparr>)" for w
    using assms by (simp add: cumulative_testGroupEnded_def cases_done_def)
  ultimately show ?thesis using r1 files_problems [OF complete] by (intro exI [of _ ?ks]) (simp add: sq_writing_def)
qed

interpretation sonar: group_report "sonar rt" sq_xml "''testExecutions''" "[(''version'', ''1'')]" True for rt
proof
  show "\<exists>r1. sonar rt e r = cumulative e r1 \<and> sq_xml r1 = sq_xml r \<and> (\<forall>p ms. group_view p ms r1 = group_view p ms r)"
    if "collects e" for e r
    using that by (cases e) auto
  show "sq_xml r' = sq_xml r" if "cumulative e r = Inr r'" for e and r r' :: SonarQubeReporter
    using that by (rule cumulative_keeps_sonar)
  show "\<exists>r'. sonar rt (Ev_testRunStarting info) r = Inr r' \<and> sq_xml r' = w \<and> (\<forall>p ms. group_view p ms r' = group_view p ms r)"
    if "bindE (open_element ''testExecutions'' (sq_xml r)) (foldE (\<lambda>(n, v). writeAttribute n v) [(''version'', ''1'')]) = Inr w" for r w info
    using that by (auto simp: do_all_def sq_writing_def open_element_def bindE_eq_Inr)
  show "\<exists>r'. sonar rt (Ev_testRunEnded ru) r = Inr r' \<and> sq_xml r' = w \<and> group_view Run_over ms r'"
    if "endElement default_fmt (sq_xml r) = Inr w" "group_view In_run ms r" for r w ms ru
    using that by (simp add: do_all_def sq_writing_def cumulative_testRunEnded_def)
qed (rule sonar_group)

end
