(* ===== verification/Catch_Lines.thy ===== *)
theory Catch_Lines
  imports Catch_Reporters Catch_Text_Flow
begin

section \<open>Reports in lines\<close>

text \<open>
  The compact, TAP and Automake reporters, which write text as the calls come. A function that prints to the stream is the
  text it prints; colours are left out. The messages still to be printed are the rest of a list.
\<close>

definition endl :: string where
  "endl = [CHR 0x0A]"

definition quoted :: "string \<Rightarrow> string" where
  "quoted s = [CHR 0x27] @ s @ [CHR 0x27]"

definition plural :: "u64 \<Rightarrow> string \<Rightarrow> string" where
  "plural n label = pluralise_text \<lparr>m_count = unat n, m_label = label\<rparr>"

subsection \<open>Assertions\<close>

definition printOriginalExpression :: "AssertionResult \<Rightarrow> string" where
  "printOriginalExpression result = (if hasExpression result then '' '' @ getExpression result else [])"

definition printExpressionWas :: "AssertionResult \<Rightarrow> string" where
  "printExpressionWas result = (if hasExpression result then ''; expression was:'' @ printOriginalExpression result else [])"

definition printMessage :: "MessageInfo list \<Rightarrow> string \<times> MessageInfo list" where
  "printMessage itMessage = (case itMessage of [] \<Rightarrow> ([], []) | m # ms \<Rightarrow> ('' '' @ quoted (mi_message m), ms))"

fun message_loop :: "bool \<Rightarrow> MessageInfo list \<Rightarrow> string" where
  "message_loop printInfoMessages [] = []"
| "message_loop printInfoMessages (m # ms) =
     (if printInfoMessages \<or> mi_type m \<noteq> RW_Info then '' '' @ quoted (mi_message m) @ (if ms \<noteq> [] then '' and'' else []) else []) @
     message_loop printInfoMessages ms"

definition printRemainingMessages :: "bool \<Rightarrow> MessageInfo list \<Rightarrow> string" where
  "printRemainingMessages printInfoMessages itMessage = (if itMessage = [] then []
     else '' with '' @ pluralise_text \<lparr>m_count = length itMessage, m_label = ''message''\<rparr> @ '':'' @ message_loop printInfoMessages itMessage)"

text \<open>An issue, the first message, the expression and the rest of the messages.\<close>

definition issue_with_message :: "string \<Rightarrow> bool \<Rightarrow> AssertionStats \<Rightarrow> string" where
  "issue_with_message issue printInfoMessages stats = (let (t, ms) = printMessage (infoMessages stats)
     in '' '' @ issue @ t @ printExpressionWas (as_assertionResult stats) @ printRemainingMessages printInfoMessages ms)"

definition message_and_rest :: "bool \<Rightarrow> AssertionStats \<Rightarrow> string" where
  "message_and_rest printInfoMessages stats = (let (t, ms) = printMessage (infoMessages stats)
     in t @ printRemainingMessages printInfoMessages ms)"

subsection \<open>\<open>CompactReporter\<close>\<close>

definition compact_type :: "string \<Rightarrow> string" where
  "compact_type passOrFail = (if passOrFail = [] then [] else '' '' @ passOrFail @ '':'')"

definition compact_reconstructed :: "AssertionResult \<Rightarrow> string" where
  "compact_reconstructed result = (if hasExpandedExpression result then '' for: '' @ getExpandedExpression result else [])"

definition compact_print :: "bool \<Rightarrow> AssertionStats \<Rightarrow> string" where
  "compact_print infos stats = (let result = as_assertionResult stats; ms = infoMessages stats in
     source_text (ai_lineInfo (ar_info result)) @ '':'' @
     (case getResultType result of
        RW_Ok \<Rightarrow> compact_type ''passed'' @ printOriginalExpression result @ compact_reconstructed result @ printRemainingMessages infos ms
      | ExpressionFailed \<Rightarrow> compact_type (if ar_isOk result then ''failed - but was ok'' else ''failed'') @
          printOriginalExpression result @ compact_reconstructed result @ printRemainingMessages infos ms
      | ThrewException \<Rightarrow> compact_type ''failed'' @ issue_with_message ''unexpected exception with message:'' infos stats
      | FatalErrorCondition \<Rightarrow> compact_type ''failed'' @ issue_with_message ''fatal error condition with message:'' infos stats
      | DidntThrowException \<Rightarrow> compact_type ''failed'' @ '' '' @ ''expected exception, got none'' @ printExpressionWas result @
          printRemainingMessages infos ms
      | RW_Info \<Rightarrow> compact_type ''info'' @ message_and_rest infos stats
      | RW_Warning \<Rightarrow> compact_type ''warning'' @ message_and_rest infos stats
      | ExplicitFailure \<Rightarrow> compact_type ''failed'' @ '' '' @ ''explicitly'' @ printRemainingMessages infos ms
      | RW_Unknown \<Rightarrow> compact_type ''** internal error **''))"

definition bothOrAll :: "u64 \<Rightarrow> string" where
  "bothOrAll n = (if n = 1 then [] else if n = 2 then ''both '' else ''all '')"

definition compact_totals :: "Totals \<Rightarrow> string" where
  "compact_totals totals = (let cases = testCases totals; checks = assertions totals in
     if counts_total cases = 0 then ''No tests ran.''
     else if failed cases = counts_total cases then
       ''Failed '' @ bothOrAll (failed cases) @ plural (failed cases) ''test case'' @ '', '' @
       ''failed '' @ (if failed checks = counts_total checks then bothOrAll (failed checks) else []) @ plural (failed checks) ''assertion'' @ ''.''
     else if counts_total checks = 0 then
       ''Passed '' @ bothOrAll (counts_total cases) @ plural (counts_total cases) ''test case'' @ '' (no assertions).''
     else if failed checks \<noteq> 0 then
       ''Failed '' @ plural (failed cases) ''test case'' @ '', '' @ ''failed '' @ plural (failed checks) ''assertion'' @ ''.''
     else ''Passed '' @ bothOrAll (passed cases) @ plural (passed cases) ''test case'' @ '' with '' @ plural (passed checks) ''assertion'' @ ''.'')"

text \<open>The duration of a section, when it is to be shown: an argument.\<close>

record LineReporter = StreamingReporterBase +
  lr_stream :: string
  lr_counter :: nat

definition new_LineReporter :: "string \<Rightarrow> LineReporter" where
  "new_LineReporter os = StreamingReporterBase.extend new_StreamingReporterBase (LineReporter.fields os 0)"

definition say :: "string \<Rightarrow> LineReporter \<Rightarrow> LineReporter" where
  "say t r = r\<lparr>lr_stream := lr_stream r @ t\<rparr>"

definition compact_assertionEnded :: "Config \<Rightarrow> AssertionStats \<Rightarrow> LineReporter \<Rightarrow> LineReporter" where
  "compact_assertionEnded config stats r = (let result = as_assertionResult stats in
     if \<not> includeSuccessfulResults config \<and> ar_isOk result \<and> getResultType result \<noteq> RW_Warning then r
     else say (compact_print (\<not> (\<not> includeSuccessfulResults config \<and> ar_isOk result)) stats @ endl) r)"

text \<open>\<open>sectionEnded\<close> does not call the base class.\<close>

fun compact :: "Config \<Rightarrow> (SectionStats \<Rightarrow> string option) \<Rightarrow> reporter_event \<Rightarrow> LineReporter \<Rightarrow> LineReporter res" where
  "compact config dur (Ev_noMatchingTestCases spec) r = Inr (say (''No test cases matched '' @ quoted spec @ endl) r)"
| "compact config dur (Ev_assertionEnded stats) r = Inr (compact_assertionEnded config stats r)"
| "compact config dur (Ev_sectionEnded stats) r = Inr (case dur stats of None \<Rightarrow> r
     | Some d \<Rightarrow> say (d @ '' s: '' @ si_name (ss_sectionInfo stats) @ endl) r)"
| "compact config dur (Ev_testRunEnded stats) r =
     streaming (Ev_testRunEnded stats) (say (compact_totals (tr_totals stats) @ endl @ endl) r)"
| "compact config dur e r = streaming e r"

subsection \<open>\<open>TAPReporter\<close>\<close>

definition tap_type :: "string \<Rightarrow> nat \<Rightarrow> string" where
  "tap_type passOrFail counter = (if passOrFail = [] then [] else passOrFail @ '' '' @ digits counter @ '' -'')"

definition tap_reconstructed :: "AssertionResult \<Rightarrow> string" where
  "tap_reconstructed result = (if hasExpandedExpression result
     then '' for: '' @ map (\<lambda>c. if c = CHR 0x0A then CHR '' '' else c) (getExpandedExpression result) else [])"

definition tap_print :: "nat \<Rightarrow> AssertionStats \<Rightarrow> string" where
  "tap_print counter stats = (let result = as_assertionResult stats; ms = infoMessages stats in
     case getResultType result of
        RW_Ok \<Rightarrow> tap_type ''ok'' counter @ printOriginalExpression result @ tap_reconstructed result @ printRemainingMessages True ms
      | ExpressionFailed \<Rightarrow> tap_type (if ar_isOk result then ''ok'' else ''not ok'') counter @ printOriginalExpression result @
          tap_reconstructed result @ (if ar_isOk result then '' '' @ '' # TODO'' else []) @ printRemainingMessages True ms
      | ThrewException \<Rightarrow> tap_type ''not ok'' counter @ issue_with_message ''unexpected exception with message:'' True stats
      | FatalErrorCondition \<Rightarrow> tap_type ''not ok'' counter @ issue_with_message ''fatal error condition with message:'' True stats
      | DidntThrowException \<Rightarrow> tap_type ''not ok'' counter @ '' '' @ ''expected exception, got none'' @ printExpressionWas result @
          printRemainingMessages True ms
      | RW_Info \<Rightarrow> tap_type ''info'' counter @ message_and_rest True stats
      | RW_Warning \<Rightarrow> tap_type ''warning'' counter @ message_and_rest True stats
      | ExplicitFailure \<Rightarrow> tap_type ''not ok'' counter @ '' '' @ ''explicitly'' @ printRemainingMessages True ms
      | RW_Unknown \<Rightarrow> tap_type ''** internal error **'' counter)"

definition tap_plan :: "Totals \<Rightarrow> string" where
  "tap_plan totals = ''1..'' @ digits (unat (counts_total (assertions totals))) @
     (if counts_total (testCases totals) = 0 then '' # Skipped: No tests ran.'' else []) @ endl @ endl"

fun tap :: "reporter_event \<Rightarrow> LineReporter \<Rightarrow> LineReporter res" where
  "tap (Ev_noMatchingTestCases spec) r = Inr (say (''# No test cases matched '' @ quoted spec @ endl) r)"
| "tap (Ev_assertionEnded stats) r = (let r1 = r\<lparr>lr_counter := lr_counter r + 1\<rparr> in
     case currentTestCaseInfo r1 of None \<Rightarrow> Inl Undefined
     | Some info \<Rightarrow> Inr (say (''# '' @ ti_name info @ endl @ tap_print (lr_counter r1) stats @ endl) r1))"
| "tap (Ev_testRunEnded stats) r = streaming (Ev_testRunEnded stats) (say (tap_plan (tr_totals stats)) r)"
| "tap e r = streaming e r"

subsection \<open>\<open>AutomakeReporter\<close>\<close>

definition automake_result :: "Counts \<Rightarrow> string" where
  "automake_result c = (if allPassed c then ''PASS'' else if allOk c then ''XFAIL'' else ''FAIL'')"

fun automake :: "reporter_event \<Rightarrow> LineReporter \<Rightarrow> LineReporter res" where
  "automake (Ev_testCaseEnded stats) r = streaming (Ev_testCaseEnded stats) (say ('':test-result: '' @
     automake_result (assertions (tc_totals stats)) @ '' '' @ ti_name (tc_testInfo stats) @ endl) r)"
| "automake (Ev_skipTest info) r = Inr (say ('':test-result: SKIP '' @ ti_name info @ endl) r)"
| "automake e r = streaming e r"

subsection \<open>They take every run\<close>

lemma streaming_view_say [simp]:
  "streaming_view p (say t r) = streaming_view p r" "streaming_view p (r\<lparr>lr_counter := n\<rparr>) = streaming_view p r"
  by (cases p; simp add: say_def)+

lemma say_keeps [simp]:
  "m_sectionStack (say t r) = m_sectionStack r" "currentTestCaseInfo (say t r) = currentTestCaseInfo r"
  "lr_counter (say t r) = lr_counter r" "lr_stream (say t r) = lr_stream r @ t"
  by (simp_all add: say_def)

lemma tap_accepts: "follow e p = Some p' \<Longrightarrow> streaming_view p r \<Longrightarrow> \<exists>r'. tap e r = Inr r' \<and> streaming_view p' r'"
proof (induction e p rule: follow.induct)
  case (4 st)
  then show ?case using streaming_accepts [OF 4(1), of "say (tap_plan (tr_totals st)) r"] by simp
qed (auto simp: Let_def say_def)

lemma automake_accepts: "follow e p = Some p' \<Longrightarrow> streaming_view p r \<Longrightarrow> \<exists>r'. automake e r = Inr r' \<and> streaming_view p' r'"
proof (induction e p rule: follow.induct)
  case (13 st)
  then show ?case using streaming_accepts [OF 13(1)] by simp
qed (auto simp: say_def)

text \<open>The stack of the compact reporter is never shortened.\<close>

fun compact_view :: "phase \<Rightarrow> LineReporter \<Rightarrow> bool" where
  "compact_view (In_test b n) r \<longleftrightarrow> n \<le> length (m_sectionStack r)"
| "compact_view _ r \<longleftrightarrow> True"

lemma compact_accepts:
  "follow e p = Some p' \<Longrightarrow> compact_view p r \<Longrightarrow> \<exists>r'. compact config dur e r = Inr r' \<and> compact_view p' r'"
  by (induction e p rule: follow.induct) (auto simp: say_def compact_assertionEnded_def Let_def split: option.splits)

interpretation tap: reporter tap streaming_view
  by unfold_locales (rule tap_accepts)

interpretation automake: reporter automake streaming_view
  by unfold_locales (rule automake_accepts)

interpretation compact: reporter "compact config dur" compact_view for config dur
  by unfold_locales (rule compact_accepts)

subsection \<open>The numbers of a TAP report\<close>

fun reported_assertions :: "reporter_event list \<Rightarrow> AssertionStats list" where
  "reported_assertions [] = []"
| "reported_assertions (Ev_assertionEnded st # es) = st # reported_assertions es"
| "reported_assertions (_ # es) = reported_assertions es"

definition tap_line :: "string \<Rightarrow> nat \<times> AssertionStats \<Rightarrow> string" where
  "tap_line test = (\<lambda>(i, st). ''# '' @ test @ endl @ tap_print i st @ endl)"

lemma follow_inside_test: "follow e (In_test b n) = Some p \<Longrightarrow> \<forall>st. e \<noteq> Ev_testCaseEnded st \<Longrightarrow> \<exists>b' n'. p = In_test b' n'"
  by (cases e; cases n) auto

lemma tap_inside:
  "follows es (In_test b n) = Some p \<Longrightarrow> inside es \<Longrightarrow> currentTestCaseInfo r = Some info \<Longrightarrow> length (m_sectionStack r) = n \<Longrightarrow>
   \<exists>r'. foldE tap es r = Inr r' \<and> currentTestCaseInfo r' = Some info \<and>
     lr_stream r' = lr_stream r @ concat (map (tap_line (ti_name info)) (enumerate (Suc (lr_counter r)) (reported_assertions es))) \<and>
     lr_counter r' = lr_counter r + length (reported_assertions es)"
proof (induction es arbitrary: b n r)
  case (Cons e es)
  from Cons.prems(1) obtain p1 where p1: "follow e (In_test b n) = Some p1" "follows es p1 = Some p" by (auto simp: bind_eq_Some_conv)
  from Cons.prems(2) have "inside es" "\<forall>st. e \<noteq> Ev_testCaseEnded st" by simp_all
  with follow_inside_test [OF p1(1)] obtain b1 n1 where p: "p1 = In_test b1 n1" by blast
  have step: "\<exists>r1. tap e r = Inr r1 \<and> currentTestCaseInfo r1 = Some info \<and> length (m_sectionStack r1) = n1 \<and>
      lr_stream r1 = lr_stream r @ concat (map (tap_line (ti_name info)) (enumerate (Suc (lr_counter r)) (reported_assertions [e]))) \<and>
      lr_counter r1 = lr_counter r + length (reported_assertions [e])"
    using p1(1) Cons.prems(3,4) \<open>\<forall>st. e \<noteq> Ev_testCaseEnded st\<close> unfolding p
    by (cases e; cases n) (auto simp: Let_def say_def tap_line_def)
  then obtain r1 where r1: "tap e r = Inr r1" "currentTestCaseInfo r1 = Some info" "length (m_sectionStack r1) = n1"
      "lr_stream r1 = lr_stream r @ concat (map (tap_line (ti_name info)) (enumerate (Suc (lr_counter r)) (reported_assertions [e])))"
      "lr_counter r1 = lr_counter r + length (reported_assertions [e])" by blast
  have split: "reported_assertions (e # es) = reported_assertions [e] @ reported_assertions es" by (cases e) simp_all
  from Cons.IH [OF p1(2) [unfolded p] \<open>inside es\<close> r1(2,3)] r1 show ?case
    unfolding split by (auto simp: enumerate_append_eq)
qed simp

text \<open>
  The report of a test case has one line for every assertion that was reported, headed by the name of the test, and the
  lines are numbered on from the tests before it, without a gap.
\<close>

theorem tap_numbers_assertions:
  assumes "runTest here ts nxt info body rc = Some (Inr (delta, rc'))" and "m_unfinishedSections rc = []" and "m_sectionStack r = []"
  shows "\<exists>es r'. m_reported rc' = m_reported rc @ es \<and> foldE tap es r = Inr r' \<and>
    lr_stream r' = lr_stream r @ concat (map (tap_line (ti_name info)) (enumerate (Suc (lr_counter r)) (reported_assertions es))) \<and>
    lr_counter r' = lr_counter r + length (reported_assertions es)"
proof -
  from runTest_events [OF assms(1,2)] obtain es st where es: "m_reported rc' = m_reported rc @ Ev_testCaseStarting info # es @ [Ev_testCaseEnded st]"
    "follows es (In_test False 0) = Some (In_test True 0)" "inside es" by blast
  from tap_inside [OF es(2,3), of "r\<lparr>currentTestCaseInfo := Some info\<rparr>" info] assms(3) obtain r' where
    r': "foldE tap es (r\<lparr>currentTestCaseInfo := Some info\<rparr>) = Inr r'"
      "lr_stream r' = lr_stream r @ concat (map (tap_line (ti_name info)) (enumerate (Suc (lr_counter r)) (reported_assertions es)))"
      "lr_counter r' = lr_counter r + length (reported_assertions es)" by auto
  have "reported_assertions (es @ [Ev_testCaseEnded st]) = reported_assertions es" by (induction es rule: reported_assertions.induct) simp_all
  with es(1) r' show ?thesis
    by (intro exI [of _ "Ev_testCaseStarting info # es @ [Ev_testCaseEnded st]"] exI [of _ "r'\<lparr>currentTestCaseInfo := None\<rparr>"])
      (simp add: foldE_append)
qed

end
