(* ===== verification/Catch_Report_Session.thy ===== *)
theory Catch_Report_Session
  imports Catch_Session_Run Catch_Sonar Catch_Lines
begin

section \<open>The reports of a session\<close>

text \<open>
  A session whose calls go to the JUnit or to the SonarQube reporter: the document is whole and every assertion that
  failed is in it, once.
\<close>

lemma new_Config_junit: "new_Config aliases data = Inr config \<Longrightarrow> junit_config config"
  by (auto simp: new_Config_def Let_def bindE_eq_Inr junit_config_def)

lemma base_ready: "group_view Not_started {#} r"
  if "section_nodes r = []" "m_nodeStack r = []" "m_rootSection r = None" "m_testCases r = []"
  using that by (simp add: below_ok_def)

lemmas new_base = new_JunitReporter_def new_SonarQubeReporter_def JunitReporter.defs SonarQubeReporter.defs CumulativeReporterBase.defs
  new_CumulativeReporterBase_def



text \<open>
  The number of failures is wrong when an assertion that may fail throws (\<open>CHECK_NOFAIL\<close>): it is not counted as failed,
  but it is an unexpected exception for the JUnit reporter, and the difference wraps around.
\<close>

definition nofail_body :: "stmt list" where
  "nofail_body = [Check \<lparr>ai_macroName = ''CHECK_NOFAIL'', ai_lineInfo = sample_place, capturedExpression = ''parse(m)'',
     resultDisposition = RD_ContinueOnFailure OR RD_SuppressFail\<rparr> (Inl (Std_exception ''bad message''))]"

definition group_failures :: "reporter_event list \<Rightarrow> JunitReporter \<Rightarrow> u64 list" where
  "group_failures es r = concat (map (\<lambda>e. case e of
     Ev_testGroupEnded st \<Rightarrow> [junit_failures (assertions (tg_totals st)) (unexpectedExceptions r)] | _ \<Rightarrow> []) es)"

lemma failures_wrap_around:
  "case runInternal (sample_program\<lparr>pr_body := \<lambda>t. nofail_body\<rparr>) sample_session sample_process of
     Some (Inr (res, s', pc')) \<Rightarrow>
       (case foldE (junit sample_config \<lparr>rt_timestamp = [], rt_suite = [], rt_section = (\<lambda>_. []), rt_milliseconds = (\<lambda>_. [])\<rparr>)
          (filter collects (rr_calls res)) (new_JunitReporter []) of
        Inr r \<Rightarrow> group_failures (rr_calls res) r = [18446744073709551615]
      | Inl _ \<Rightarrow> False)
   | _ \<Rightarrow> False"
  by code_simp

text \<open>
  The plan at the end of a TAP report is the number of the counted assertions, but every assertion that was reported has
  a number: with a warning there are more lines than the plan says.
\<close>

definition warn_body :: "stmt list" where
  "warn_body = [Message \<lparr>ai_macroName = ''WARN'', ai_lineInfo = sample_place, capturedExpression = [],
     resultDisposition = RD_ContinueOnFailure\<rparr> RW_Warning ''slow'']"

lemma tap_plan_too_short:
  "case runInternal (sample_program\<lparr>pr_body := \<lambda>t. warn_body\<rparr>) sample_session sample_process of
     Some (Inr (res, s', pc')) \<Rightarrow>
       (case foldE tap (rr_calls res) (new_LineReporter []) of
        Inr r \<Rightarrow> lr_counter r = 1 \<and> lr_stream r = ''# book'' @ endl @ ''warning 1 - '' @ quoted ''slow'' @ endl @ ''1..0'' @ endl @ endl
      | Inl _ \<Rightarrow> False)
   | _ \<Rightarrow> False"
  by code_simp

end
