(* ===== verification/Catch_Console.thy ===== *)
theory Catch_Console
  imports Catch_Session Catch_Lines
begin

section \<open>The console reporter\<close>

text \<open>
  \<open>ConsoleReporter\<close>: the headers that are printed when there is something to print under them, the assertions,
  the table of the benchmarks and the totals. The stream is a member of the table printer, which writes to the same one.
  A header is printed as a column, which may fail or not end: \<open>None\<close> is a call that does not return. Colours are left
  out, and of the benchmarks what is told before they are measured.
\<close>

subsection \<open>Calls that may not return\<close>

fun bindR :: "'a res option \<Rightarrow> ('a \<Rightarrow> 'b res option) \<Rightarrow> 'b res option" where
  "bindR None k = None"
| "bindR (Some (Inl e)) k = Some (Inl e)"
| "bindR (Some (Inr x)) k = k x"

fun foldR :: "('a \<Rightarrow> 's \<Rightarrow> 's res option) \<Rightarrow> 'a list \<Rightarrow> 's \<Rightarrow> 's res option" where
  "foldR f [] s = Some (Inr s)"
| "foldR f (x # xs) s = bindR (f x s) (foldR f xs)"

definition lineOfChars :: "char \<Rightarrow> string" where
  "lineOfChars c = replicate (80 - 1) c"

subsection \<open>Headers\<close>

text \<open>What follows a colon in the first line is aligned.\<close>

definition header_column :: "string \<Rightarrow> nat \<Rightarrow> Column" where
  "header_column s ind = (let i = (case str_find s '': '' 0 of Some i \<Rightarrow> i + 2 | None \<Rightarrow> 0)
     in Column_initialIndent ind (Column_indent (ind + i) (new_Column s)))"

definition printHeaderString :: "string \<Rightarrow> nat \<Rightarrow> string res option" where
  "printHeaderString s ind = bindR (print_Column (header_column s ind) []) (\<lambda>t. Some (Inr (t @ endl)))"

subsection \<open>Assertions\<close>

definition passOrFail :: "AssertionResult \<Rightarrow> string" where
  "passOrFail result = (case getResultType result of
       RW_Ok \<Rightarrow> ''PASSED''
     | ExpressionFailed \<Rightarrow> if ar_isOk result then ''FAILED - but was ok'' else ''FAILED''
     | RW_Info \<Rightarrow> []
     | RW_Warning \<Rightarrow> []
     | RW_Unknown \<Rightarrow> ''** internal error **''
     | _ \<Rightarrow> ''FAILED'')"

definition by_number :: "nat \<Rightarrow> string \<Rightarrow> string \<Rightarrow> string" where
  "by_number n one many = (if n = 1 then one else if n > 1 then many else [])"

definition messageLabel :: "ResultWas \<Rightarrow> nat \<Rightarrow> string" where
  "messageLabel ty n = (case ty of
       RW_Ok \<Rightarrow> by_number n ''with message'' ''with messages''
     | ExpressionFailed \<Rightarrow> by_number n ''with message'' ''with messages''
     | ThrewException \<Rightarrow> ''due to unexpected exception with '' @ by_number n ''message'' ''messages''
     | FatalErrorCondition \<Rightarrow> ''due to a fatal error condition''
     | DidntThrowException \<Rightarrow> ''because no exception was thrown where one was expected''
     | RW_Info \<Rightarrow> ''info''
     | RW_Warning \<Rightarrow> ''warning''
     | ExplicitFailure \<Rightarrow> by_number n ''explicitly with message'' ''explicitly with messages''
     | RW_Unknown \<Rightarrow> [])"

definition indented :: "string \<Rightarrow> string res option" where
  "indented s = bindR (print_Column (Column_indent 2 (new_Column s)) []) (\<lambda>t. Some (Inr (t @ endl)))"

definition console_reconstructed :: "AssertionResult \<Rightarrow> string res option" where
  "console_reconstructed result = (if hasExpandedExpression result
     then bindR (indented (getExpandedExpression result)) (\<lambda>t. Some (Inr (''with expansion:'' @ endl @ t)))
     else Some (Inr []))"

definition console_result :: "AssertionResult \<Rightarrow> string res option" where
  "console_result result = bindR (console_reconstructed result) (\<lambda>t. Some (Inr (
     (if passOrFail result \<noteq> [] then passOrFail result @ '':'' @ endl else []) @
     (if hasExpression result then ''  '' @ getExpressionInMacro result @ endl else []) @ t)))"

fun console_messages :: "bool \<Rightarrow> MessageInfo list \<Rightarrow> string res option" where
  "console_messages printInfoMessages [] = Some (Inr [])"
| "console_messages printInfoMessages (msg # ms) =
     bindR (if printInfoMessages \<or> mi_type msg \<noteq> RW_Info then indented (mi_message msg) else Some (Inr [])) (\<lambda>t.
     bindR (console_messages printInfoMessages ms) (\<lambda>u. Some (Inr (t @ u))))"

definition console_print :: "bool \<Rightarrow> AssertionStats \<Rightarrow> string res option" where
  "console_print printInfoMessages stats = (let result = as_assertionResult stats;
       label = messageLabel (getResultType result) (length (infoMessages stats))
     in bindR (if counts_total (assertions (as_totals stats)) > 0 then console_result result else Some (Inr endl)) (\<lambda>t.
        bindR (console_messages printInfoMessages (infoMessages stats)) (\<lambda>u.
          Some (Inr (source_text (ai_lineInfo (ar_info result)) @ '': '' @ t @
            (if label \<noteq> [] then label @ '':'' @ endl else []) @ u)))))"

subsection \<open>The table of the benchmarks\<close>

datatype Justification = Left | Right

record ColumnInfo =
  ci_name :: string
  ci_width :: nat
  justification :: Justification

record TablePrinter =
  tp_os :: string
  m_columnInfos :: "ColumnInfo list"
  m_oss :: string
  m_currentColumn :: int
  m_isOpen :: bool

definition table_out :: "string \<Rightarrow> TablePrinter \<Rightarrow> TablePrinter" where
  "table_out t tp = tp\<lparr>tp_os := tp_os tp @ t\<rparr>"

definition table_put :: "string \<Rightarrow> TablePrinter \<Rightarrow> TablePrinter" where
  "table_put value tp = tp\<lparr>m_oss := m_oss tp @ value\<rparr>"

definition row_break :: "TablePrinter \<Rightarrow> TablePrinter" where
  "row_break tp = (if m_currentColumn tp > 0 then (table_out endl tp)\<lparr>m_currentColumn := -1\<rparr> else tp)"

definition header_columns :: "ColumnInfo list \<Rightarrow> Columns res" where
  "header_columns infos = bindE (Spacer 2) (\<lambda>spacer.
     foldE (\<lambda>info headerCols. bindE (Column_width (ci_width info - 2) (new_Column (ci_name info))) (\<lambda>c.
       Inr (Columns_add (Columns_add headerCols c) spacer))) infos [])"

definition table_open :: "TablePrinter \<Rightarrow> TablePrinter res option" where
  "table_open tp = (if m_isOpen tp then Some (Inr tp)
     else let tp1 = row_break (tp\<lparr>m_isOpen := True\<rparr>)
          in bindR (Some (header_columns (m_columnInfos tp1))) (\<lambda>cols.
             bindR (print_Columns cols []) (\<lambda>t. Some (Inr (table_out (t @ endl @ lineOfChars (CHR ''-'') @ endl) tp1)))))"

definition table_close :: "TablePrinter \<Rightarrow> TablePrinter" where
  "table_close tp = (if m_isOpen tp then (table_out endl (row_break tp))\<lparr>m_isOpen := False\<rparr> else tp)"

text \<open>A value in its column; it is never cut.\<close>

definition cell :: "ColumnInfo \<Rightarrow> string \<Rightarrow> string" where
  "cell info colStr = (let padding = replicate (ci_width info - (length colStr + 1)) (CHR '' '')
     in if justification info = Left then colStr @ padding @ '' '' else padding @ colStr @ '' '')"

definition column_break :: "TablePrinter \<Rightarrow> TablePrinter res option" where
  "column_break tp = bindR (table_open (tp\<lparr>m_oss := []\<rparr>)) (\<lambda>tp1.
     let tp2 = (if m_currentColumn tp1 = int (length (m_columnInfos tp1)) - 1
           then (table_out endl tp1)\<lparr>m_currentColumn := -1\<rparr> else tp1);
         i = m_currentColumn tp2 + 1
     in if 0 \<le> i \<and> nat i < length (m_columnInfos tp2)
        then Some (Inr (table_out (cell (m_columnInfos tp2 ! nat i) (m_oss tp)) (tp2\<lparr>m_currentColumn := i\<rparr>)))
        else Some (Inl Undefined))"

definition table_columns :: "bool \<Rightarrow> ColumnInfo list" where
  "table_columns noAnalysis = \<lparr>ci_name = ''benchmark name'', ci_width = 80 - 43, justification = Left\<rparr> #
     map (\<lambda>nm. \<lparr>ci_name = nm, ci_width = 14, justification = Right\<rparr>)
       (if noAnalysis then [''     samples'', ''  iterations'', ''        mean'']
        else [''samples      mean       std dev'', ''iterations   low mean   low std dev'', ''estimated    high mean  high std dev''])"

subsection \<open>The totals\<close>

text \<open>A product of unsigned numbers wraps around.\<close>

definition makeRatio :: "u64 \<Rightarrow> u64 \<Rightarrow> u64" where
  "makeRatio number n = (let ratio = (if n > 0 then 80 * number div n else 0)
     in if ratio = 0 \<and> number > 0 then 1 else ratio)"

text \<open>\<open>findMax\<close> gives a reference to one of three variables, which is then changed.\<close>

definition at_max :: "(u64 \<Rightarrow> u64) \<Rightarrow> u64 \<times> u64 \<times> u64 \<Rightarrow> u64 \<times> u64 \<times> u64" where
  "at_max f = (\<lambda>(i, j, k). if i > j \<and> i > k then (f i, j, k) else if j > k then (i, f j, k) else (i, j, f k))"

definition sum3 :: "u64 \<times> u64 \<times> u64 \<Rightarrow> u64" where
  "sum3 = (\<lambda>(i, j, k). i + j + k)"

lemma sum3_at_max [simp]:
  "sum3 (at_max (\<lambda>x. x + 1) t) = sum3 t + 1" "sum3 (at_max (\<lambda>x. x - 1) t) = sum3 t - 1"
  by (cases t; simp add: sum3_def at_max_def)+

function widen :: "u64 \<times> u64 \<times> u64 \<Rightarrow> u64 \<times> u64 \<times> u64" where
  "widen t = (if sum3 t < 80 - 1 then widen (at_max (\<lambda>x. x + 1) t) else t)"
  by pat_completeness auto
termination
proof (relation "measure (\<lambda>t. 79 - unat (sum3 t))", simp)
  fix t
  assume "sum3 t < 80 - 1"
  then have l: "unat (sum3 t) < 79" by (simp add: word_less_nat_alt)
  then have "unat (sum3 t + 1) = unat (sum3 t) + 1" by (simp add: unat_word_ariths)
  with l show "(at_max (\<lambda>x. x + 1) t, t) \<in> measure (\<lambda>t. 79 - unat (sum3 t))" by simp
qed

function narrow :: "u64 \<times> u64 \<times> u64 \<Rightarrow> u64 \<times> u64 \<times> u64" where
  "narrow t = (if sum3 t > 80 - 1 then narrow (at_max (\<lambda>x. x - 1) t) else t)"
  by pat_completeness auto
termination
proof (relation "measure (\<lambda>t. unat (sum3 t))", simp)
  fix t
  assume "sum3 t > 80 - 1"
  then have "sum3 t \<noteq> 0" by auto
  then have "unat (sum3 t) \<noteq> 0" by (simp add: unat_eq_0)
  with \<open>sum3 t \<noteq> 0\<close> show "(at_max (\<lambda>x. x - 1) t, t) \<in> measure (\<lambda>t. unat (sum3 t))" by (simp add: unat_minus_one)
qed

declare widen.simps [simp del] narrow.simps [simp del]

definition bar_ratios :: "Counts \<Rightarrow> u64 \<times> u64 \<times> u64" where
  "bar_ratios c = narrow (widen (makeRatio (failed c) (counts_total c), makeRatio (failedButOk c) (counts_total c),
     makeRatio (passed c) (counts_total c)))"

definition printTotalsDivider :: "Totals \<Rightarrow> string" where
  "printTotalsDivider totals = (if counts_total (testCases totals) > 0
     then let (failedRatio, failedButOkRatio, passedRatio) = bar_ratios (testCases totals)
          in replicate (unat failedRatio) (CHR ''='') @ replicate (unat failedButOkRatio) (CHR ''='') @
             replicate (unat passedRatio) (CHR ''='')
     else replicate (80 - 1) (CHR ''='')) @ endl"

record SummaryColumn =
  sc_label :: string
  sc_rows :: "string list"

definition fill :: "nat \<Rightarrow> string \<Rightarrow> string" where
  "fill n s = replicate (n - length s) (CHR '' '') @ s"

fun align_rows :: "string list \<Rightarrow> string \<Rightarrow> string list \<times> string" where
  "align_rows [] row = ([], row)"
| "align_rows (oldRow # rows) row = (let oldRow1 = fill (length row) oldRow; (rows1, row1) = align_rows rows (fill (length oldRow1) row)
     in (oldRow1 # rows1, row1))"

definition addRow :: "u64 \<Rightarrow> SummaryColumn \<Rightarrow> SummaryColumn" where
  "addRow n c = (let (rows, row) = align_rows (sc_rows c) (to_string (uint n)) in c\<lparr>sc_rows := rows @ [row]\<rparr>)"

definition summary_cell :: "string \<Rightarrow> nat \<Rightarrow> SummaryColumn \<Rightarrow> string" where
  "summary_cell label row c = (let value = sc_rows c ! row
     in if sc_label c = [] then label @ '': '' @ (if value \<noteq> ''0'' then value else ''- none -'')
        else if value \<noteq> ''0'' then '' | '' @ value @ '' '' @ sc_label c else [])"

definition printSummaryRow :: "string \<Rightarrow> SummaryColumn list \<Rightarrow> nat \<Rightarrow> string" where
  "printSummaryRow label cols row = concat (map (summary_cell label row) cols) @ endl"

definition summary_columns :: "Totals \<Rightarrow> SummaryColumn list" where
  "summary_columns totals = (let column = (\<lambda>label count. addRow (count (assertions totals)) (addRow (count (testCases totals))
       \<lparr>sc_label = label, sc_rows = []\<rparr>))
     in [column [] counts_total, column ''passed'' passed, column ''failed'' failed, column ''failed as expected'' failedButOk])"

definition console_totals :: "Totals \<Rightarrow> string" where
  "console_totals totals = (if counts_total (testCases totals) = 0 then ''No tests ran'' @ endl
     else if counts_total (assertions totals) > 0 \<and> allPassed (testCases totals)
     then ''All tests passed'' @ '' ('' @ plural (passed (assertions totals)) ''assertion'' @ '' in '' @
       plural (passed (testCases totals)) ''test case'' @ '')'' @ endl
     else printSummaryRow ''test cases'' (summary_columns totals) 0 @ printSummaryRow ''assertions'' (summary_columns totals) 1)"

subsection \<open>The bar over the totals\<close>

text \<open>Three parts that are small enough for their sum not to wrap around, and which of them can be seen.\<close>

definition small_parts :: "u64 \<times> u64 \<times> u64 \<Rightarrow> bool" where
  "small_parts = (\<lambda>(i, j, k). unat i \<le> 80 \<and> unat j \<le> 80 \<and> unat k \<le> 80)"

definition seen :: "u64 \<times> u64 \<times> u64 \<Rightarrow> bool \<times> bool \<times> bool" where
  "seen = (\<lambda>(i, j, k). (i \<noteq> 0, j \<noteq> 0, k \<noteq> 0))"

lemma unat_sum3: "small_parts (i, j, k) \<Longrightarrow> unat (sum3 (i, j, k)) = unat i + unat j + unat k"
  by (simp add: small_parts_def sum3_def unat_word_ariths)

lemma unat_up: "unat (x :: u64) \<le> 80 \<Longrightarrow> unat (x + 1) = unat x + 1"
  by (simp add: unat_word_ariths)

lemma unat_down: "unat (x :: u64) \<noteq> 0 \<Longrightarrow> unat (x - 1) = unat x - 1"
  by (metis unat_minus_one unat_0)

lemmas on_parts = word_less_nat_alt unat_eq_0 [symmetric]

lemma up_step:
  assumes "small_parts t" and "sum3 t < 80 - 1" and "sum3 t \<noteq> 0"
  shows "small_parts (at_max (\<lambda>x. x + 1) t) \<and> seen (at_max (\<lambda>x. x + 1) t) = seen t \<and> sum3 t + 1 \<noteq> 0"
proof (cases t)
  case (fields i j k)
  have s: "unat i + unat j + unat k < 79" "unat i + unat j + unat k \<noteq> 0" "unat (sum3 t + 1) \<noteq> 0"
    using assms unat_sum3 [of i j k] unfolding fields
    by (simp_all add: on_parts unat_up)
  from s assms(1) unat_up [of i] unat_up [of j] unat_up [of k] show ?thesis
    unfolding fields by (auto simp: at_max_def small_parts_def seen_def on_parts)
qed

lemma down_step:
  assumes "small_parts t" and "sum3 t > 80 - 1"
  shows "small_parts (at_max (\<lambda>x. x - 1) t) \<and> seen (at_max (\<lambda>x. x - 1) t) = seen t \<and> 79 \<le> unat (sum3 t - 1)"
proof (cases t)
  case (fields i j k)
  have u: "unat (sum3 t) = unat i + unat j + unat k" using assms(1) unat_sum3 [of i j k] unfolding fields by simp
  have "79 < unat (sum3 t)" using assms(2) by (simp add: word_less_nat_alt)
  then have s: "79 < unat i + unat j + unat k" "79 \<le> unat (sum3 t - 1)" using u unat_down [of "sum3 t"] by linarith+
  from s assms(1) unat_down [of i] unat_down [of j] unat_down [of k] show ?thesis
    unfolding fields by (auto simp: at_max_def small_parts_def seen_def on_parts)
qed

lemma widen_parts:
  "small_parts t \<Longrightarrow> sum3 t \<noteq> 0 \<Longrightarrow> small_parts (widen t) \<and> seen (widen t) = seen t \<and> 79 \<le> unat (sum3 (widen t))"
proof (induction t rule: widen.induct)
  case (1 t)
  show ?case
  proof (cases "sum3 t < 80 - 1")
    case True
    with 1 up_step [OF 1(2) True 1(3)] show ?thesis by (subst (1 2 3) widen.simps) simp
  next
    case False
    then have "79 \<le> unat (sum3 t)" by (simp add: word_less_nat_alt)
    with False 1(2) show ?thesis by (subst (1 2 3) widen.simps) simp
  qed
qed

lemma narrow_parts:
  "small_parts t \<Longrightarrow> 79 \<le> unat (sum3 t) \<Longrightarrow> small_parts (narrow t) \<and> seen (narrow t) = seen t \<and> unat (sum3 (narrow t)) = 79"
proof (induction t rule: narrow.induct)
  case (1 t)
  show ?case
  proof (cases "sum3 t > 80 - 1")
    case True
    with 1 down_step [OF 1(2) True] show ?thesis by (subst (1 2 3) narrow.simps) simp
  next
    case False
    then have "unat (sum3 t) \<le> 79" by (simp add: word_less_nat_alt)
    with False 1(2,3) show ?thesis by (subst (1 2 3) narrow.simps) simp
  qed
qed

lemma ratio_parts:
  assumes "unat n \<le> unat m" and "unat m < 2 ^ 57" and "0 < unat m"
  shows "unat (makeRatio n m) \<le> 80" and "makeRatio n m \<noteq> 0 \<longleftrightarrow> n \<noteq> 0"
proof -
  have "unat (80 * n) = 80 * unat n" using assms by (simp add: unat_word_ariths)
  then have u: "unat (80 * n div m) = 80 * unat n div unat m" by (simp add: unat_div)
  have "80 * unat n div unat m \<le> 80 * unat m div unat m" using assms(1) by (intro div_le_mono) simp
  then have "unat (80 * n div m) \<le> 80" using u assms(3) by simp
  then show "unat (makeRatio n m) \<le> 80" by (simp add: makeRatio_def Let_def)
  show "makeRatio n m \<noteq> 0 \<longleftrightarrow> n \<noteq> 0" by (cases "n = 0") (auto simp: makeRatio_def Let_def word_neq_0_conv [symmetric])
qed

text \<open>
  The bar over the totals is a full line, and every kind of result that there was can be seen in it: unless there are
  too many test cases for the product to be computed, the two loops end with parts of 79 characters together, and a part
  is empty if and only if there are no such test cases.
\<close>

theorem bar_shows_all:
  assumes "unat (failed c) + unat (failedButOk c) + unat (passed c) < 2 ^ 57" and "counts_total c \<noteq> 0"
  shows "\<exists>f b p. bar_ratios c = (f, b, p) \<and> unat f + unat b + unat p = 79 \<and>
    (f \<noteq> 0 \<longleftrightarrow> failed c \<noteq> 0) \<and> (b \<noteq> 0 \<longleftrightarrow> failedButOk c \<noteq> 0) \<and> (p \<noteq> 0 \<longleftrightarrow> passed c \<noteq> 0)"
proof -
  have n: "unat (counts_total c) = unat (failed c) + unat (failedButOk c) + unat (passed c)"
    using assms(1) by (simp add: counts_total_def unat_word_ariths)
  have pos: "0 < unat (counts_total c)" using assms(2) by (simp add: unat_eq_0 [symmetric])
  let ?t = "(makeRatio (failed c) (counts_total c), makeRatio (failedButOk c) (counts_total c), makeRatio (passed c) (counts_total c))"
  have small: "small_parts ?t" using ratio_parts(1) [of _ "counts_total c"] assms(1) n pos by (simp add: small_parts_def)
  have seen: "seen ?t = (failed c \<noteq> 0, failedButOk c \<noteq> 0, passed c \<noteq> 0)"
    using ratio_parts(2) [of _ "counts_total c"] assms(1) n pos by (simp add: seen_def)
  have "unat (sum3 ?t) \<noteq> 0"
    unfolding unat_sum3 [OF small] using seen assms(2) by (auto simp: seen_def unat_eq_0 counts_total_def)
  then have "sum3 ?t \<noteq> 0" by auto
  from widen_parts [OF small this] narrow_parts [of "widen ?t"] have
    "small_parts (bar_ratios c)" "seen (bar_ratios c) = seen ?t" "unat (sum3 (bar_ratios c)) = 79"
    by (auto simp: bar_ratios_def)
  with seen unat_sum3 show ?thesis by (cases "bar_ratios c") (auto simp: seen_def)
qed

text \<open>
  A zero is left out of a row of the totals only if it is not filled up to the width of the number in the other row.
\<close>

lemma zero_in_summary:
  "console_totals (Totals 0 (Counts 8 1 0) (Counts 0 1 0)) =
     ''test cases: 1 | 1 failed'' @ endl @ ''assertions: 9 | 8 passed | 1 failed'' @ endl"
  "console_totals (Totals 0 (Counts 10 1 0) (Counts 0 1 0)) =
     ''test cases:  1 |  0 passed | 1 failed'' @ endl @ ''assertions: 11 | 10 passed | 1 failed'' @ endl"
  by code_simp+

end
