(* ===== verification/Catch_Console_Report.thy ===== *)
theory Catch_Console_Report
  imports Catch_Console Catch_Session_Run
begin

section \<open>The reports on the console\<close>

text \<open>
  The state of \<open>ConsoleReporter\<close> and what it does with every call. The flag \<open>used\<close> of what is known of the run and of
  the group is a field of its own. Printing may fail or not end, so the contract of these reporters, the locale
  \<open>printing_reporter\<close>, has a condition on the names that are printed.
\<close>

subsection \<open>The reporter\<close>

record ConsoleReporter = StreamingReporterBase +
  m_tablePrinter :: TablePrinter
  m_headerPrinted :: bool
  run_used :: bool
  group_used :: bool

definition new_TablePrinter :: "string \<Rightarrow> ColumnInfo list \<Rightarrow> TablePrinter" where
  "new_TablePrinter os infos = \<lparr>tp_os = os, m_columnInfos = infos, m_oss = [], m_currentColumn = -1, m_isOpen = False\<rparr>"

definition new_ConsoleReporter :: "Config \<Rightarrow> string \<Rightarrow> ConsoleReporter" where
  "new_ConsoleReporter config os = StreamingReporterBase.extend new_StreamingReporterBase
     (ConsoleReporter.fields (new_TablePrinter os (table_columns (cd_benchmarkNoAnalysis (m_data config)))) False False False)"

definition out :: "string \<Rightarrow> ConsoleReporter \<Rightarrow> ConsoleReporter" where
  "out t r = r\<lparr>m_tablePrinter := table_out t (m_tablePrinter r)\<rparr>"

definition out_text :: "string res option \<Rightarrow> ConsoleReporter \<Rightarrow> ConsoleReporter res option" where
  "out_text m r = bindR m (\<lambda>t. Some (Inr (out t r)))"

definition close_table :: "ConsoleReporter \<Rightarrow> ConsoleReporter" where
  "close_table r = r\<lparr>m_tablePrinter := table_close (m_tablePrinter r)\<rparr>"

subsection \<open>Headers\<close>

definition lazyPrintRunInfo :: "Config \<Rightarrow> ConsoleReporter \<Rightarrow> ConsoleReporter res option" where
  "lazyPrintRunInfo config r = (case currentTestRunInfo r of
       None \<Rightarrow> Some (Inl Undefined)
     | Some nm \<Rightarrow> Some (Inr ((out (endl @ lineOfChars (CHR ''~'') @ endl @
           nm @ '' is a Catch v'' @ version_text libraryVersion @ '' host application.'' @ endl @
           ''Run with -? for options'' @ endl @ endl @
           (if cd_rngSeed (m_data config) \<noteq> 0
            then ''Randomness seeded to: '' @ to_string (uint (cd_rngSeed (m_data config))) @ endl @ endl else [])) r)
         \<lparr>run_used := True\<rparr>)))"

definition printOpenHeader :: "string \<Rightarrow> ConsoleReporter \<Rightarrow> ConsoleReporter res option" where
  "printOpenHeader nm r = out_text (printHeaderString nm 0) (out (lineOfChars (CHR ''-'') @ endl) r)"

definition printClosedHeader :: "string \<Rightarrow> ConsoleReporter \<Rightarrow> ConsoleReporter res option" where
  "printClosedHeader nm r = bindR (printOpenHeader nm r) (\<lambda>r1. Some (Inr (out (lineOfChars (CHR ''.'') @ endl) r1)))"

definition lazyPrintGroupInfo :: "ConsoleReporter \<Rightarrow> ConsoleReporter res option" where
  "lazyPrintGroupInfo r = (case currentGroupInfo r of
       None \<Rightarrow> Some (Inl Undefined)
     | Some g \<Rightarrow> if gi_name g \<noteq> [] \<and> groupsCounts g > 1
         then bindR (printClosedHeader (''Group: '' @ gi_name g) r) (\<lambda>r1. Some (Inr (r1\<lparr>group_used := True\<rparr>)))
         else Some (Inr r))"

definition printTestCaseAndSectionHeader :: "ConsoleReporter \<Rightarrow> ConsoleReporter res option" where
  "printTestCaseAndSectionHeader r = (if m_sectionStack r = [] then Some (Inl Assert_Failed)
     else case currentTestCaseInfo r of
       None \<Rightarrow> Some (Inl Undefined)
     | Some info \<Rightarrow> bindR (printOpenHeader (ti_name info) r) (\<lambda>r1.
         bindR (foldR (\<lambda>s. out_text (printHeaderString (si_name s) 2)) (tl (m_sectionStack r1)) r1) (\<lambda>r2.
           Some (Inr (out (lineOfChars (CHR ''-'') @ endl @ source_text (si_lineInfo (last (m_sectionStack r2))) @ endl @
             lineOfChars (CHR ''.'') @ endl @ endl) r2)))))"

definition lazyPrintWithoutClosingBenchmarkTable :: "Config \<Rightarrow> ConsoleReporter \<Rightarrow> ConsoleReporter res option" where
  "lazyPrintWithoutClosingBenchmarkTable config r =
     bindR (if \<not> run_used r then lazyPrintRunInfo config r else Some (Inr r)) (\<lambda>r1.
     bindR (if \<not> group_used r1 then lazyPrintGroupInfo r1 else Some (Inr r1)) (\<lambda>r2.
       if \<not> m_headerPrinted r2
       then bindR (printTestCaseAndSectionHeader r2) (\<lambda>r3. Some (Inr (r3\<lparr>m_headerPrinted := True\<rparr>)))
       else Some (Inr r2)))"

definition lazyPrint :: "Config \<Rightarrow> ConsoleReporter \<Rightarrow> ConsoleReporter res option" where
  "lazyPrint config r = lazyPrintWithoutClosingBenchmarkTable config (close_table r)"

subsection \<open>What it does with the calls\<close>

definition console_assertionEnded :: "Config \<Rightarrow> AssertionStats \<Rightarrow> ConsoleReporter \<Rightarrow> ConsoleReporter res option" where
  "console_assertionEnded config stats r =
     (let result = as_assertionResult stats; includeResults = includeSuccessfulResults config \<or> \<not> ar_isOk result
      in if \<not> includeResults \<and> getResultType result \<noteq> RW_Warning then Some (Inr r)
         else bindR (lazyPrint config r) (\<lambda>r1.
              bindR (out_text (console_print includeResults stats) r1) (\<lambda>r2. Some (Inr (out endl r2)))))"

definition console_sectionEnded :: "Config \<Rightarrow> (SectionStats \<Rightarrow> string option) \<Rightarrow> SectionStats \<Rightarrow> ConsoleReporter \<Rightarrow>
    ConsoleReporter res option" where
  "console_sectionEnded config dur stats r = (let r1 = close_table r; nm = si_name (ss_sectionInfo stats)
     in bindR (if missingAssertions stats
          then bindR (lazyPrint config r1) (\<lambda>r2. Some (Inr (out (endl @
            (if length (m_sectionStack r2) > 1 then ''No assertions in section'' else ''No assertions in test case'') @
            '' '' @ quoted nm @ endl @ endl) r2)))
          else Some (Inr r1)) (\<lambda>r3.
        let r4 = (case dur stats of None \<Rightarrow> r3 | Some d \<Rightarrow> out (d @ '' s: '' @ nm @ endl) r3)
        in Some (streaming (Ev_sectionEnded stats) (r4\<lparr>m_headerPrinted := False\<rparr>))))"

fun table_lines :: "bool \<Rightarrow> string list \<Rightarrow> TablePrinter \<Rightarrow> TablePrinter res option" where
  "table_lines firstLine [] tp = Some (Inr tp)"
| "table_lines firstLine (line # ls) tp =
     bindR (foldR (\<lambda>_. column_break) (if firstLine then [] else [(), (), ()]) tp) (\<lambda>tp1.
     bindR (column_break (table_put line tp1)) (table_lines False ls))"

definition console_benchmarkPreparing :: "Config \<Rightarrow> string \<Rightarrow> ConsoleReporter \<Rightarrow> ConsoleReporter res option" where
  "console_benchmarkPreparing config nm r = bindR (lazyPrintWithoutClosingBenchmarkTable config r) (\<lambda>r1.
     case m_columnInfos (m_tablePrinter r1) of
       [] \<Rightarrow> Some (Inl Undefined)
     | info # _ \<Rightarrow> bindR (Some (Column_width (ci_width info - 2) (new_Column nm))) (\<lambda>nameCol.
         bindR (Some (Column_begin nameCol)) (\<lambda>it.
         bindR (column_lines nameCol it) (\<lambda>ls.
         bindR (table_lines True ls (m_tablePrinter r1)) (\<lambda>tp. Some (Inr (r1\<lparr>m_tablePrinter := tp\<rparr>)))))))"

definition console_benchmarkFailed :: "string \<Rightarrow> ConsoleReporter \<Rightarrow> ConsoleReporter res option" where
  "console_benchmarkFailed err r =
     bindR (column_break (table_put (''Benchmark failed ('' @ err @ '')'') (m_tablePrinter r))) (\<lambda>tp.
       Some (Inr (r\<lparr>m_tablePrinter := row_break tp\<rparr>)))"

definition console_testGroupEnded :: "TestGroupStats \<Rightarrow> ConsoleReporter \<Rightarrow> ConsoleReporter" where
  "console_testGroupEnded stats r = (if group_used r then
       out (lineOfChars (CHR ''-'') @ endl @ ''Summary for group '' @ quoted (gi_name (tg_groupInfo stats)) @ '':'' @ endl @
         console_totals (tg_totals stats) @ endl @ endl) r
     else r)"

definition printTestFilters :: "Config \<Rightarrow> ConsoleReporter \<Rightarrow> ConsoleReporter res option" where
  "printTestFilters config r = (if hasFilters (cf_testSpec config)
     then out_text (Some (bindE (serializeFilters (testsOrTags (m_data config))) (\<lambda>f. Inr (''Filters: '' @ f @ endl)))) r
     else Some (Inr r))"

text \<open>The durations of the sections that are to be shown are an argument.\<close>

fun console :: "Config \<Rightarrow> (SectionStats \<Rightarrow> string option) \<Rightarrow> reporter_event \<Rightarrow> ConsoleReporter \<Rightarrow> ConsoleReporter res option" where
  "console config dur (Ev_noMatchingTestCases spec) r = Some (Inr (out (''No test cases matched '' @ quoted spec @ endl) r))"
| "console config dur (Ev_reportInvalidArguments a) r = Some (Inr (out (''Invalid Filter: '' @ a @ endl) r))"
| "console config dur (Ev_assertionEnded stats) r = console_assertionEnded config stats r"
| "console config dur (Ev_sectionStarting info) r =
     Some (streaming (Ev_sectionStarting info) ((close_table r)\<lparr>m_headerPrinted := False\<rparr>))"
| "console config dur (Ev_sectionEnded stats) r = console_sectionEnded config dur stats r"
| "console config dur (Ev_benchmarkPreparing nm) r = console_benchmarkPreparing config nm r"
| "console config dur (Ev_benchmarkFailed err) r = console_benchmarkFailed err r"
| "console config dur (Ev_testCaseEnded stats) r =
     bindR (Some (streaming (Ev_testCaseEnded stats) (close_table r))) (\<lambda>r1. Some (Inr (r1\<lparr>m_headerPrinted := False\<rparr>)))"
| "console config dur (Ev_testGroupStarting info) r = Some (streaming (Ev_testGroupStarting info) (r\<lparr>group_used := False\<rparr>))"
| "console config dur (Ev_testGroupEnded stats) r =
     Some (streaming (Ev_testGroupEnded stats) ((console_testGroupEnded stats r)\<lparr>group_used := False\<rparr>))"
| "console config dur (Ev_testRunStarting nm) r =
     bindR (Some (streaming (Ev_testRunStarting nm) (r\<lparr>run_used := False\<rparr>))) (printTestFilters config)"
| "console config dur (Ev_testRunEnded stats) r = Some (streaming (Ev_testRunEnded stats)
     ((out (printTotalsDivider (tr_totals stats) @ console_totals (tr_totals stats) @ endl) r)\<lparr>run_used := False, group_used := False\<rparr>))"
| "console config dur e r = Some (streaming e r)"

subsection \<open>Calls that return\<close>

definition returns :: "'a res option \<Rightarrow> ('a \<Rightarrow> bool) \<Rightarrow> bool" where
  "returns m P \<longleftrightarrow> (\<exists>x. m = Some (Inr x) \<and> P x)"

lemma returns_value [simp]: "returns (Some (Inr x)) P \<longleftrightarrow> P x"
  by (simp add: returns_def)

lemma returns_bind: "returns m Q \<Longrightarrow> (\<And>x. Q x \<Longrightarrow> returns (k x) P) \<Longrightarrow> returns (bindR m k) P"
  by (auto simp: returns_def)

lemma returns_if:
  "(c \<Longrightarrow> returns m P) \<Longrightarrow> (\<not> c \<Longrightarrow> returns n P) \<Longrightarrow> returns (if c then m else n) P"
  by simp

lemma returns_mono: "returns m Q \<Longrightarrow> (\<And>x. Q x \<Longrightarrow> P x) \<Longrightarrow> returns m P"
  by (auto simp: returns_def)

lemma returns_foldR: "(\<And>x s. x \<in> set xs \<Longrightarrow> I s \<Longrightarrow> returns (f x s) I) \<Longrightarrow> I s \<Longrightarrow> returns (foldR f xs s) I"
proof (induction xs arbitrary: s)
  case (Cons x xs)
  have "returns (f x s) I" using Cons.prems by simp
  moreover have "returns (foldR f xs t) I" if "I t" for t
    using Cons.IH [OF _ that] Cons.prems(1) by simp
  ultimately show ?case by (simp add: returns_bind)
qed (simp)

text \<open>There is room for two characters of a header beside its indentation, also behind the colon.\<close>

definition header_fits :: "string \<Rightarrow> nat \<Rightarrow> bool" where
  "header_fits s ind \<longleftrightarrow> ind + (case str_find s '': '' 0 of Some i \<Rightarrow> i + 2 | None \<Rightarrow> 0) + 2 \<le> 79"

lemma column_returns: "col_wide c \<Longrightarrow> returns (print_Column c []) (\<lambda>_. True)"
  using Column_begin_good [of c] column_lines_spec [of c] by (fastforce simp: returns_def print_Column_def)

lemma header_returns: "header_fits s ind \<Longrightarrow> returns (printHeaderString s ind) (\<lambda>_. True)"
  unfolding printHeaderString_def
  by (rule returns_bind [OF column_returns]) (auto simp: header_fits_def header_column_def col_wide_def iter_indent_def
    Column_initialIndent_def Column_indent_def new_Column_def Let_def split: option.splits)

lemma indented_returns: "returns (indented s) (\<lambda>_. True)"
  unfolding indented_def
  by (rule returns_bind [OF column_returns]) (simp_all add: col_wide_def iter_indent_def Column_indent_def new_Column_def)

lemma console_messages_return: "returns (console_messages b ms) (\<lambda>_. True)"
proof (induction ms)
  case (Cons m ms)
  have m: "returns (if c then indented (mi_message m) else Some (Inr [])) (\<lambda>_. True)" for c
    by (rule returns_if [OF indented_returns]) (simp)
  show ?case unfolding console_messages.simps
    by (rule returns_bind [OF m], rule returns_bind [OF Cons.IH]) simp
qed (simp)

lemma console_print_returns: "returns (console_print b stats) (\<lambda>_. True)"
proof -
  have e: "returns (console_reconstructed result) (\<lambda>_. True)" for result
    unfolding console_reconstructed_def
    by (rule returns_if, rule returns_bind [OF indented_returns]) (simp_all)
  have r: "returns (console_result result) (\<lambda>_. True)" for result
    unfolding console_result_def by (rule returns_bind [OF e]) (simp)
  have t: "returns (if c then console_result result else Some (Inr endl)) (\<lambda>_. True)" for c result
    by (rule returns_if [OF r]) (simp)
  show ?thesis unfolding console_print_def Let_def
    by (rule returns_bind [OF t], rule returns_bind [OF console_messages_return]) simp
qed

lemma group_header_fits: "header_fits (''Group: '' @ s) 0"
proof -
  have "str_find (''Group: '' @ s) '': '' 0 = Some 5"
    by (simp add: str_find_Some occurs_at_def) (auto simp: less_Suc_eq numeral_eq_Suc)
  then show ?thesis by (simp add: header_fits_def)
qed

subsection \<open>What is kept while something is printed\<close>

definition known :: "'x StreamingReporterBase_scheme \<Rightarrow> string option \<times> GroupInfo option \<times> TestCaseInfo option \<times> SectionInfo list" where
  "known r = (currentTestRunInfo r, currentGroupInfo r, currentTestCaseInfo r, m_sectionStack r)"

lemma known_simps [simp]:
  "known (out t r) = known r" "known (close_table r) = known r" "known (r\<lparr>m_headerPrinted := b\<rparr>) = known r"
  "known (r\<lparr>run_used := b\<rparr>) = known r" "known (r\<lparr>group_used := b\<rparr>) = known r"
  "known (console_testGroupEnded g r) = known r"
  by (simp_all add: known_def out_def close_table_def console_testGroupEnded_def)

lemma out_text_returns: "returns m (\<lambda>_. True) \<Longrightarrow> known r = k \<Longrightarrow> returns (out_text m r) (\<lambda>r'. known r' = k)"
  unfolding out_text_def by (erule returns_bind) (simp)

lemma printOpenHeader_returns: "header_fits nm 0 \<Longrightarrow> known r = k \<Longrightarrow> returns (printOpenHeader nm r) (\<lambda>r'. known r' = k)"
  unfolding printOpenHeader_def by (intro out_text_returns header_returns) simp_all

lemma printClosedHeader_returns: "header_fits nm 0 \<Longrightarrow> known r = k \<Longrightarrow> returns (printClosedHeader nm r) (\<lambda>r'. known r' = k)"
  unfolding printClosedHeader_def by (erule (1) returns_bind [OF printOpenHeader_returns]) (simp)

text \<open>What must be known before a header is printed.\<close>

definition can_print :: "string option \<times> GroupInfo option \<times> TestCaseInfo option \<times> SectionInfo list \<Rightarrow> bool" where
  "can_print = (\<lambda>(run, group, test, stack). run \<noteq> None \<and> group \<noteq> None \<and> (\<exists>info. test = Some info \<and> header_fits (ti_name info) 0) \<and>
     stack \<noteq> [] \<and> (\<forall>s \<in> set stack. header_fits (si_name s) 2))"

lemma test_header_returns:
  assumes "can_print (known r)" and "known r = k"
  shows "returns (printTestCaseAndSectionHeader r) (\<lambda>r'. known r' = k)"
proof -
  from assms(1) obtain info where i: "currentTestCaseInfo r = Some info" "header_fits (ti_name info) 0" "m_sectionStack r \<noteq> []"
    and s: "\<forall>s \<in> set (m_sectionStack r). header_fits (si_name s) 2" by (auto simp: can_print_def known_def)
  have f: "returns (foldR (\<lambda>s. out_text (printHeaderString (si_name s) 2)) (tl (m_sectionStack r1)) r1) (\<lambda>r'. known r' = k)"
    if "known r1 = k" for r1
  proof (rule returns_foldR)
    fix x and t :: ConsoleReporter
    assume "x \<in> set (tl (m_sectionStack r1))" "known t = k"
    moreover have "m_sectionStack r1 = m_sectionStack r" using that assms(2) by (auto simp: known_def)
    ultimately show "returns (out_text (printHeaderString (si_name x) 2) t) (\<lambda>r'. known r' = k)"
      using s by (intro out_text_returns header_returns) (auto dest: list.set_sel(2) [OF i(3)])
  qed (rule that)
  show ?thesis unfolding printTestCaseAndSectionHeader_def using i(1,3)
    by (simp add: returns_bind [OF printOpenHeader_returns [OF i(2) assms(2)] returns_bind [OF f]])
qed

lemma lazy_returns:
  assumes "can_print (known r)" and "known r = k"
  shows "returns (lazyPrintWithoutClosingBenchmarkTable config r) (\<lambda>r'. known r' = k)"
proof -
  have run: "returns (if \<not> run_used r then lazyPrintRunInfo config r else Some (Inr r)) (\<lambda>r'. known r' = k)"
    using assms by (auto simp: lazyPrintRunInfo_def can_print_def known_def out_def split: option.splits)
  have group: "returns (if \<not> group_used r1 then lazyPrintGroupInfo r1 else Some (Inr r1)) (\<lambda>r'. known r' = k)"
    if "known r1 = k" for r1
  proof -
    from assms that have "known r1 = known r" by simp
    then obtain g where g: "currentGroupInfo r1 = Some g" using assms(1) by (auto simp: can_print_def known_def)
    have "returns (bindR (printClosedHeader (''Group: '' @ gi_name g) r1) (\<lambda>r'. Some (Inr (r'\<lparr>group_used := True\<rparr>)))) (\<lambda>r'. known r' = k)"
      by (rule returns_bind [OF printClosedHeader_returns [OF group_header_fits that]]) (simp)
    with g that show ?thesis unfolding lazyPrintGroupInfo_def by auto
  qed
  have test: "returns (if \<not> m_headerPrinted r2 then bindR (printTestCaseAndSectionHeader r2) (\<lambda>r3. Some (Inr (r3\<lparr>m_headerPrinted := True\<rparr>)))
      else Some (Inr r2)) (\<lambda>r'. known r' = k)" if "known r2 = k" for r2
    using that assms by (intro returns_if returns_bind [OF test_header_returns]) (simp_all)
  show ?thesis unfolding lazyPrintWithoutClosingBenchmarkTable_def
    by (rule returns_bind [OF run], rule returns_bind [OF group], assumption, rule test)
qed

lemma lazyPrint_returns: "can_print (known r) \<Longrightarrow> known r = k \<Longrightarrow> returns (lazyPrint config r) (\<lambda>r'. known r' = k)"
  unfolding lazyPrint_def by (rule lazy_returns) simp_all

subsection \<open>The contract\<close>

text \<open>A reporter that returns from every call of a run, as long as what it is given fits.\<close>

locale printing_reporter =
  fixes handle :: "reporter_event \<Rightarrow> 's \<Rightarrow> 's res option" and view :: "phase \<Rightarrow> 's \<Rightarrow> bool" and fits :: "reporter_event \<Rightarrow> bool"
  assumes accepts: "follow e p = Some p' \<Longrightarrow> fits e \<Longrightarrow> view p s \<Longrightarrow> returns (handle e s) (view p')"
begin

lemma accepts_all: "follows es p = Some p' \<Longrightarrow> \<forall>e \<in> set es. fits e \<Longrightarrow> view p s \<Longrightarrow> returns (foldR handle es s) (view p')"
proof (induction es arbitrary: p s)
  case (Cons e es)
  from Cons.prems(1) obtain p1 where p1: "follow e p = Some p1" "follows es p1 = Some p'" by (auto simp: bind_eq_Some_conv)
  have "returns (handle e s) (view p1)" using accepts [OF p1(1) _ Cons.prems(3)] Cons.prems(2) by simp
  then show ?case using Cons.IH [OF p1(2)] Cons.prems(2) by (auto intro: returns_bind)
qed (simp)

end

text \<open>The name of a test is printed without an indentation, that of a section with one that is given.\<close>

definition names_fit :: "nat \<Rightarrow> reporter_event \<Rightarrow> bool" where
  "names_fit ind e = (case e of Ev_testCaseStarting info \<Rightarrow> header_fits (ti_name info) 0
     | Ev_sectionStarting info \<Rightarrow> header_fits (si_name info) ind | _ \<Rightarrow> True)"

lemma names_fit_simps [simp]:
  "names_fit ind (Ev_testCaseStarting info) = header_fits (ti_name info) 0"
  "names_fit ind (Ev_sectionStarting se) = header_fits (si_name se) ind"
  by (simp_all add: names_fit_def)

fun known_view :: "nat \<Rightarrow> phase \<Rightarrow> string option \<times> GroupInfo option \<times> TestCaseInfo option \<times> SectionInfo list \<Rightarrow> bool" where
  "known_view ind (In_test b n) (run, grp, test, stack) \<longleftrightarrow> length stack = n \<and> run \<noteq> None \<and> grp \<noteq> None \<and>
     (\<exists>info. test = Some info \<and> header_fits (ti_name info) 0) \<and> (\<forall>s \<in> set stack. header_fits (si_name s) ind)"
| "known_view ind In_group (run, grp, test, stack) \<longleftrightarrow> run \<noteq> None \<and> grp \<noteq> None \<and> stack = []"
| "known_view ind In_run (run, grp, test, stack) \<longleftrightarrow> run \<noteq> None \<and> stack = []"
| "known_view ind _ (run, grp, test, stack) \<longleftrightarrow> stack = []"

definition console_view :: "Config \<Rightarrow> phase \<Rightarrow> ConsoleReporter \<Rightarrow> bool" where
  "console_view config p r \<longleftrightarrow> (hasFilters (cf_testSpec config) \<longrightarrow> testsOrTags (m_data config) \<noteq> []) \<and> known_view 2 p (known r)"

lemma inside_can_print: "known_view 2 (In_test b (Suc n)) k \<Longrightarrow> can_print k"
  by (cases k) (auto simp: can_print_def)

lemma console_assertion_returns:
  assumes "can_print (known r)" and "known r = k"
  shows "returns (console_assertionEnded config stats r) (\<lambda>r'. known r' = k)"
proof -
  have "returns (bindR (lazyPrint config r) (\<lambda>r1. bindR (out_text (console_print b stats) r1) (\<lambda>r2. Some (Inr (out endl r2))))) (\<lambda>r'. known r' = k)" for b
    by (rule returns_bind [OF lazyPrint_returns [OF assms]], rule returns_bind [OF out_text_returns [OF console_print_returns]])
      (simp_all)
  with assms(2) show ?thesis by (simp add: console_assertionEnded_def Let_def)
qed

lemma streaming_end_known:
  "m_sectionStack r \<noteq> [] \<Longrightarrow> known r = (run, grp, test, stack) \<Longrightarrow>
   returns (Some (streaming (Ev_sectionEnded stats) r)) (\<lambda>r'. known r' = (run, grp, test, butlast stack))"
  by (simp add: returns_def known_def)

lemma console_section_returns:
  assumes "can_print (known r)" and "known r = (run, grp, test, stack)"
  shows "returns (console_sectionEnded config dur stats r) (\<lambda>r'. known r' = (run, grp, test, butlast stack))"
proof -
  let ?k = "(run, grp, test, stack)"
  have c: "known (close_table r) = ?k" "can_print (known (close_table r))" using assms by simp_all
  have m: "returns (if missingAssertions stats then bindR (lazyPrint config (close_table r)) (\<lambda>r2. Some (Inr (out (t r2) r2)))
      else Some (Inr (close_table r))) (\<lambda>r'. known r' = ?k)" for t
    by (rule returns_if, rule returns_bind [OF lazyPrint_returns [OF c(2,1)]]) (simp_all add: assms(2))
  have s: "m_sectionStack r' \<noteq> []" if "known r' = ?k" for r' :: ConsoleReporter
    using that assms by (auto simp: can_print_def known_def)
  have e: "returns (Some (streaming (Ev_sectionEnded stats) ((case d of None \<Rightarrow> r3 | Some u \<Rightarrow> out (u' u) r3)\<lparr>m_headerPrinted := False\<rparr>)))
      (\<lambda>r'. known r' = (run, grp, test, butlast stack))" if "known r3 = ?k" for r3 d u'
    by (rule streaming_end_known, rule s) (simp_all add: that split: option.split)
  show ?thesis unfolding console_sectionEnded_def Let_def by (rule returns_bind [OF m], rule e)
qed

lemma console_accepts:
  assumes "follow e p = Some p'" and "names_fit 2 e" and "console_view config p r"
  shows "returns (console config dur e r) (console_view config p')"
proof -
  let ?c = "hasFilters (cf_testSpec config) \<longrightarrow> testsOrTags (m_data config) \<noteq> []"
  from assms(3) have c: "?c" and v: "known_view 2 p (known r)" by (auto simp: console_view_def)
  obtain run grp test stack where k: "known r = (run, grp, test, stack)" by (cases "known r") auto
  have f: "returns (printTestFilters config r') (\<lambda>r''. known r'' = known r')" for r'
    using c by (simp add: printTestFilters_def out_text_def serializeFilters_def)
  have "returns (console config dur e r) (\<lambda>r'. known_view 2 p' (known r'))"
    using assms(1,2) v
  proof (induction e p rule: follow.induct)
    case (1 nm)
    then show ?case using k
      by (auto simp: known_def intro!: returns_mono [OF f])
  next
    case (10 st b n)
    from console_section_returns [OF inside_can_print k, of b n config dur st] 10 k show ?case
      by (auto elim!: returns_mono dest!: in_set_butlastD)
  next
    case (12 st b n)
    from console_assertion_returns [OF inside_can_print refl, of b n r config st] 12 show ?case
      by (auto elim!: returns_mono)
  qed (use k in \<open>auto simp: known_def out_def close_table_def console_testGroupEnded_def\<close>)
  then show ?thesis by (rule returns_mono) (simp add: console_view_def c)
qed

interpretation console: printing_reporter "console config dur" "console_view config" "names_fit 2" for config dur
  by unfold_locales (rule console_accepts)

subsection \<open>A session\<close>

lemma foldR_append: "foldR f (xs @ ys) s = bindR (foldR f xs s) (foldR f ys)"
proof (induction xs arbitrary: s)
  case (Cons x xs)
  show ?case
  proof (cases "f x s")
    case (Some t)
    with Cons show ?thesis by (cases t) auto
  qed simp
qed simp

lemma run_ends:
  assumes "follows es Not_started = Some Run_over"
  obtains es0 st where "es = es0 @ [Ev_testRunEnded st]" and "follows es0 Not_started = Some In_run"
proof (cases es rule: rev_cases)
  case Nil
  with assms show ?thesis by simp
next
  case (snoc es0 e)
  with assms obtain p where p: "follows es0 Not_started = Some p" "follow e p = Some Run_over"
    by (auto simp: follows_append bind_eq_Some_conv)
  from p(2) obtain st where "e = Ev_testRunEnded st" "p = In_run" by (cases "(e, p)" rule: follow.cases) auto
  with that snoc p(1) show ?thesis by simp
qed

text \<open>
  The console reporter reports a whole session. Whatever the tests do, as long as the names of the tests and of the
  sections fit, the reporter returns from all calls of the run, and the last it prints are the bar and the totals of the run.
\<close>

theorem console_reports_session:
  assumes "runInternal prog s pc = Some (Inr (res, s', pc'))" and "rr_calls res \<noteq> []" and "m_config s = None"
    and "\<forall>e \<in> set (rr_calls res). names_fit 2 e"
  shows "\<exists>config r st t. m_config s' = Some config \<and>
    foldR (console config dur) (rr_calls res) (new_ConsoleReporter config os) = Some (Inr r) \<and>
    last (rr_calls res) = Ev_testRunEnded st \<and>
    tp_os (m_tablePrinter r) = t @ printTotalsDivider (tr_totals st) @ console_totals (tr_totals st) @ endl"
proof -
  from assms(1,2) obtain config s1 where c: "session_config (pr_aliases prog) s = Inr (config, s1)" and s': "s' = s1"
    by (auto simp: runInternal_def bindE_eq_Inr dest!: makes_no_calls split: if_splits sum.splits)
  from c assms(3) have new: "new_Config (pr_aliases prog) (m_configData s) = Inr config" and s1: "m_config s1 = Some config"
    by (auto simp: session_config_def bindE_eq_Inr)
  obtain es st where es: "rr_calls res = es @ [Ev_testRunEnded st]" "follows es Not_started = Some In_run"
    using session_calls [OF assms(1,2)] by (rule run_ends)
  have "console_view config Not_started (new_ConsoleReporter config os)"
    using new_Config_filters [OF new] by (simp add: console_view_def known_def new_ConsoleReporter_def ConsoleReporter.defs
      StreamingReporterBase.defs new_StreamingReporterBase_def)
  from console.accepts_all [OF es(2) _ this] assms(4) es(1) obtain r where
    "foldR (console config dur) es (new_ConsoleReporter config os) = Some (Inr r)" by (fastforce simp: returns_def)
  with es(1) s' s1 show ?thesis by (simp add: foldR_append out_def table_out_def)
qed

subsection \<open>Names that do not fit\<close>

text \<open>A colon in the column 77 or behind it fails an assertion.\<close>

lemma header_assertion: "str_find s '': '' 0 = Some i \<Longrightarrow> 77 \<le> i \<Longrightarrow> printHeaderString s ind = Some (Inl Assert_Failed)"
  by (simp add: printHeaderString_def print_Column_def Column_begin_def header_column_def Column_initialIndent_def
    Column_indent_def new_Column_def)

text \<open>One column before, the header of a name with a second line is printed for ever.\<close>

definition long_name :: string where
  "long_name = replicate 76 (CHR ''x'') @ '': bid''"

lemma header_never_ends: "printHeaderString long_name 0 = None"
proof -
  let ?c = "header_column long_name 0"
  let ?first = "\<lparr>it_pos = 0, it_len = 77, it_end = 81, it_suffix = False\<rparr>"
  let ?stuck = "\<lparr>it_pos = 78, it_len = 0, it_end = 81, it_suffix = True\<rparr>"
  have facts: "Column_begin ?c = Inr ?first" "iter_incr ?c ?first = ?stuck" "iter_incr ?c ?stuck = ?stuck" "length (c_string ?c) = 81"
    by code_simp+
  have "column_lines ?c ?stuck = None" by (rule column_lines_stuck [OF facts(3)]) (simp_all add: facts(4))
  then have "column_lines ?c ?first = None"
    by (subst column_lines.simps) (simp add: facts iter_eq_def Column_end_def iter_deref_def)
  then show ?thesis by (simp add: printHeaderString_def print_Column_def facts(1))
qed

text \<open>A test of this name ends in the header above its first failure.\<close>

lemma console_hangs:
  assumes "currentTestCaseInfo r = Some info" and "ti_name info = long_name" and "m_sectionStack r \<noteq> []"
    and "run_used r" and "group_used r" and "\<not> m_headerPrinted r" and "\<not> ar_isOk (as_assertionResult stats)"
  shows "console config dur (Ev_assertionEnded stats) r = None"
proof -
  have "printTestCaseAndSectionHeader (close_table r) = None"
    using assms(1-3) by (simp add: printTestCaseAndSectionHeader_def close_table_def printOpenHeader_def out_text_def header_never_ends)
  then show ?thesis using assms(4-7)
    by (simp add: console_assertionEnded_def Let_def lazyPrint_def lazyPrintWithoutClosingBenchmarkTable_def close_table_def)
qed

end
