(* ===== verification/Catch_Teamcity.thy ===== *)
theory Catch_Teamcity
  imports Catch_Console_Report
begin

section \<open>The TeamCity reporter\<close>

text \<open>
  \<open>TeamCityReporter\<close> writes service messages, in which some characters are escaped with a bar. How long a test took is
  an argument, in milliseconds.
\<close>

subsection \<open>Service messages\<close>

definition escapes :: "(string \<times> string) list" where
  "escapes = [(''|'', ''||''), ([CHR 0x27], [CHR ''|'', CHR 0x27]), ([CHR 0x0A], ''|n''), ([CHR 0x0D], ''|r''), (''['', ''|[''), ('']'', ''|]'')]"

fun replace_each :: "(string \<times> string) list \<Rightarrow> string \<Rightarrow> string option" where
  "replace_each [] escaped = Some escaped"
| "replace_each ((t, w) # ts) escaped = Option.bind (replaceInPlace escaped t w) (\<lambda>(escaped1, _). replace_each ts escaped1)"

definition escape :: "string \<Rightarrow> string option" where
  "escape str = replace_each escapes str"

fun attributes_text :: "(string \<times> string) list \<Rightarrow> string option" where
  "attributes_text [] = Some []"
| "attributes_text ((key, val) # as) = Option.bind (escape val) (\<lambda>v. Option.bind (attributes_text as) (\<lambda>t.
     Some ('' '' @ key @ ''='' @ quoted v @ t)))"

definition service_message :: "string \<Rightarrow> (string \<times> string) list \<Rightarrow> string res option" where
  "service_message kind as = Option.bind (attributes_text as) (\<lambda>t. Some (Inr (''##teamcity['' @ kind @ t @ '']'' @ endl)))"

subsection \<open>The reporter\<close>

record TeamCityReporter = StreamingReporterBase +
  te_stream :: string
  m_headerPrintedForThisSection :: bool

definition new_TeamCityReporter :: "string \<Rightarrow> TeamCityReporter" where
  "new_TeamCityReporter os = StreamingReporterBase.extend new_StreamingReporterBase (TeamCityReporter.fields os False)"

definition write_message :: "string \<Rightarrow> (string \<times> string) list \<Rightarrow> TeamCityReporter \<Rightarrow> TeamCityReporter res option" where
  "write_message kind as r = bindR (service_message kind as) (\<lambda>t. Some (Inr (r\<lparr>te_stream := te_stream r @ t\<rparr>)))"

fun header_lines :: "SectionInfo list \<Rightarrow> string res option" where
  "header_lines [] = Some (Inr [])"
| "header_lines (s # ss) = bindR (printHeaderString (si_name s) 0) (\<lambda>t. bindR (header_lines ss) (\<lambda>u. Some (Inr (t @ u))))"

definition printSectionHeader :: "SectionInfo list \<Rightarrow> string res option" where
  "printSectionHeader stack = (if stack = [] then Some (Inl Assert_Failed)
     else bindR (if length stack > 1
         then bindR (header_lines (tl stack)) (\<lambda>t. Some (Inr (lineOfChars (CHR ''-'') @ endl @ t @ lineOfChars (CHR ''-'') @ endl)))
         else Some (Inr [])) (\<lambda>t.
       Some (Inr (t @ source_text (si_lineInfo (hd stack)) @ endl @ lineOfChars (CHR ''.'') @ endl @ endl))))"

text \<open>What \<open>CATCH_ERROR\<close> throws is not caught.\<close>

definition failure_text :: "ResultWas \<Rightarrow> string res" where
  "failure_text ty = (case ty of
       ExpressionFailed \<Rightarrow> Inr ''expression failed''
     | ThrewException \<Rightarrow> Inr ''unexpected exception''
     | FatalErrorCondition \<Rightarrow> Inr ''fatal error condition''
     | DidntThrowException \<Rightarrow> Inr ''no exception was thrown where one was expected''
     | ExplicitFailure \<Rightarrow> Inr ''explicit failure''
     | _ \<Rightarrow> Inl Runtime_Error)"

definition failure_message :: "AssertionStats \<Rightarrow> string res" where
  "failure_message stats = (let result = as_assertionResult stats; ms = infoMessages stats in
     bindE (failure_text (getResultType result)) (\<lambda>t. Inr (source_text (ai_lineInfo (ar_info result)) @ endl @ t @
       (if length ms = 1 then '' with message:'' else []) @ (if length ms > 1 then '' with messages:'' else []) @
       concat (map (\<lambda>m. endl @ ''  '' @ [CHR 0x22] @ mi_message m @ [CHR 0x22]) ms) @
       (if hasExpression result
        then endl @ ''  '' @ getExpressionInMacro result @ endl @ ''with expansion:'' @ endl @ ''  '' @ getExpandedExpression result @ endl
        else []))))"

definition teamcity_assertionEnded :: "AssertionStats \<Rightarrow> TeamCityReporter \<Rightarrow> TeamCityReporter res option" where
  "teamcity_assertionEnded stats r = (if ar_isOk (as_assertionResult stats) then Some (Inr r)
     else bindR (if \<not> m_headerPrintedForThisSection r then printSectionHeader (m_sectionStack r) else Some (Inr [])) (\<lambda>h.
       let r1 = r\<lparr>m_headerPrintedForThisSection := True\<rparr>
       in bindR (Some (failure_message stats)) (\<lambda>t. case currentTestCaseInfo r1 of
            None \<Rightarrow> Some (Inl Undefined)
          | Some info \<Rightarrow> if okToFail info
              then write_message ''testIgnored'' [(''name'', ti_name info),
                (''message'', h @ t @ ''- failure ignore as test marked as '' @ quoted ''ok to fail'' @ endl)] r1
              else write_message ''testFailed'' [(''name'', ti_name info), (''message'', h @ t)] r1)))"

definition teamcity_testCaseEnded :: "string \<Rightarrow> TestCaseStats \<Rightarrow> TeamCityReporter \<Rightarrow> TeamCityReporter res option" where
  "teamcity_testCaseEnded ms stats r = (let nm = ti_name (tc_testInfo stats) in
     bindR (Some (streaming (Ev_testCaseEnded stats) r)) (\<lambda>r1.
     bindR (if tc_stdOut stats \<noteq> [] then write_message ''testStdOut'' [(''name'', nm), (''out'', tc_stdOut stats)] r1
       else Some (Inr r1)) (\<lambda>r2.
     bindR (if tc_stdErr stats \<noteq> [] then write_message ''testStdErr'' [(''name'', nm), (''out'', tc_stdErr stats)] r2
       else Some (Inr r2))
       (write_message ''testFinished'' [(''name'', nm), (''duration'', ms)]))))"

fun teamcity :: "(TestCaseStats \<Rightarrow> u64) \<Rightarrow> reporter_event \<Rightarrow> TeamCityReporter \<Rightarrow> TeamCityReporter res option" where
  "teamcity dur (Ev_testGroupStarting info) r = bindR (Some (streaming (Ev_testGroupStarting info) r))
     (write_message ''testSuiteStarted'' [(''name'', gi_name info)])"
| "teamcity dur (Ev_testGroupEnded stats) r = bindR (Some (streaming (Ev_testGroupEnded stats) r))
     (write_message ''testSuiteFinished'' [(''name'', gi_name (tg_groupInfo stats))])"
| "teamcity dur (Ev_assertionEnded stats) r = teamcity_assertionEnded stats r"
| "teamcity dur (Ev_sectionStarting info) r = Some (streaming (Ev_sectionStarting info) (r\<lparr>m_headerPrintedForThisSection := False\<rparr>))"
| "teamcity dur (Ev_testCaseStarting info) r = bindR (Some (streaming (Ev_testCaseStarting info) r))
     (write_message ''testStarted'' [(''name'', ti_name info)])"
| "teamcity dur (Ev_testCaseEnded stats) r = teamcity_testCaseEnded (to_string (uint (dur stats))) stats r"
| "teamcity dur e r = Some (streaming e r)"

subsection \<open>Escaping\<close>

definition escape_char :: "char \<Rightarrow> string" where
  "escape_char c = (if c = CHR 0x0A then ''|n'' else if c = CHR 0x0D then ''|r''
     else if c \<in> set ([CHR 0x27] @ ''|[]'') then [CHR ''|'', c] else [c])"

lemma replace_all_char: "replace_all [c] w s = concat (map (\<lambda>x. if x = c then w else [x]) s)"
  by (induction s) (simp_all add: replace_all.simps)

lemma replaceInPlace_char: "replaceInPlace s [c] w = Some (concat (map (\<lambda>x. if x = c then w else [x]) s), str_contains s [c])"
  using replaceInPlace_replaces [of "[c]" s w] by (simp add: replace_all_char)

lemma escape_is: "escape s = Some (concat (map escape_char s))"
proof -
  have c: "concat (map f (concat (map g s))) = concat (map (\<lambda>x. concat (map f (g x))) s)" for f g :: "char \<Rightarrow> string"
    by (induction s) simp_all
  show ?thesis
    by (simp add: escape_def escapes_def replaceInPlace_char c)
      (intro arg_cong [where f = concat] map_cong refl, auto simp: escape_char_def)
qed

text \<open>A reader of service messages: the value of an attribute up to its quote, and what follows.\<close>

definition unbar :: "char \<Rightarrow> char" where
  "unbar c = (if c = CHR ''n'' then CHR 0x0A else if c = CHR ''r'' then CHR 0x0D else c)"

fun read_value :: "string \<Rightarrow> (string \<times> string) option" where
  "read_value [] = None"
| "read_value (c # cs) =
     (if c = CHR 0x27 then Some ([], cs)
      else if c = CHR ''|'' then (case cs of [] \<Rightarrow> None | d # ds \<Rightarrow> map_option (map_prod ((#) (unbar d)) id) (read_value ds))
      else if c \<in> set ([CHR 0x0A, CHR 0x0D] @ ''[]'') then None
      else map_option (map_prod ((#) c) id) (read_value cs))"

text \<open>
  The value of an attribute is read back from a service message: the escaped text has no line break and no bracket or
  quote that is not escaped, so that a reader finds its end and the value.
\<close>

theorem escape_roundtrip: "\<exists>t. escape s = Some t \<and> read_value (t @ CHR 0x27 # rest) = Some (s, rest)"
proof -
  have "read_value (concat (map escape_char s) @ CHR 0x27 # rest) = Some (s, rest)"
    by (induction s) (auto simp: escape_char_def unbar_def)
  then show ?thesis by (simp add: escape_is)
qed

subsection \<open>It takes every run\<close>

definition teamcity_fits :: "reporter_event \<Rightarrow> bool" where
  "teamcity_fits e \<longleftrightarrow> names_fit 0 e \<and>
     (case e of Ev_assertionEnded stats \<Rightarrow> getResultType (as_assertionResult stats) \<noteq> RW_Unknown | _ \<Rightarrow> True)"

definition teamcity_view :: "phase \<Rightarrow> TeamCityReporter \<Rightarrow> bool" where
  "teamcity_view p r \<longleftrightarrow> known_view 0 p (known r)"

lemma attributes_text_is: "\<exists>t. attributes_text as = Some t"
  by (induction as rule: attributes_text.induct) (auto simp: escape_is)

lemma write_message_returns: "known r = k \<Longrightarrow> returns (write_message kind as r) (\<lambda>r'. known r' = k)"
  using attributes_text_is [of as] by (auto simp: write_message_def service_message_def known_def)

lemma header_lines_return: "\<forall>s \<in> set ss. header_fits (si_name s) 0 \<Longrightarrow> returns (header_lines ss) (\<lambda>_. True)"
proof (induction ss)
  case (Cons s ss)
  from Cons.prems have "header_fits (si_name s) 0" "returns (header_lines ss) (\<lambda>_. True)" using Cons.IH by simp_all
  then show ?case unfolding header_lines.simps
    by (intro returns_bind [OF header_returns] returns_bind [of "header_lines ss"]) simp_all
qed simp

lemma printSectionHeader_returns:
  assumes "stack \<noteq> []" and "\<forall>s \<in> set stack. header_fits (si_name s) 0"
  shows "returns (printSectionHeader stack) (\<lambda>_. True)"
proof -
  have "returns (header_lines (tl stack)) (\<lambda>_. True)"
    using assms(2) by (intro header_lines_return) (auto dest: list.set_sel(2) [OF assms(1)])
  then have h: "returns (if c then bindR (header_lines (tl stack)) (\<lambda>t. Some (Inr (f t))) else Some (Inr [])) (\<lambda>_. True)" for c f
    by (intro returns_if, elim returns_bind) simp_all
  show ?thesis unfolding printSectionHeader_def if_not_P [OF assms(1)] by (rule returns_bind [OF h]) simp
qed

lemma failure_message_is: "\<not> ar_isOk (as_assertionResult stats) \<Longrightarrow> getResultType (as_assertionResult stats) \<noteq> RW_Unknown \<Longrightarrow>
    \<exists>t. failure_message stats = Inr t"
  by (cases "getResultType (as_assertionResult stats)")
    (auto simp: failure_message_def failure_text_def Let_def ar_isOk_def rw_isOk_def getResultType_def FailureBit_def)

lemma teamcity_assertion_returns:
  assumes "known_view 0 (In_test b (Suc n)) (known r)" and "getResultType (as_assertionResult stats) \<noteq> RW_Unknown" and "known r = k"
  shows "returns (teamcity_assertionEnded stats r) (\<lambda>r'. known r' = k)"
proof (cases "ar_isOk (as_assertionResult stats)")
  case True
  then show ?thesis using assms(3) by (simp add: teamcity_assertionEnded_def)
next
  case False
  from failure_message_is [OF this assms(2)] obtain t where t: "failure_message stats = Inr t" by blast
  have s: "m_sectionStack r \<noteq> []" "\<forall>s \<in> set (m_sectionStack r). header_fits (si_name s) 0"
    using assms(1) by (auto simp: known_def)
  from assms(1) obtain info where i: "currentTestCaseInfo r = Some info" by (auto simp: known_def)
  have h: "returns (if \<not> m_headerPrintedForThisSection r then printSectionHeader (m_sectionStack r) else Some (Inr [])) (\<lambda>_. True)"
    by (rule returns_if [OF printSectionHeader_returns [OF s]]) simp
  have w: "returns (write_message kind as (r\<lparr>m_headerPrintedForThisSection := True\<rparr>)) (\<lambda>r'. known r' = k)" for kind as
    by (rule write_message_returns) (use assms(3) in \<open>simp add: known_def\<close>)
  show ?thesis unfolding teamcity_assertionEnded_def using False by (simp add: returns_bind [OF h] t i w Let_def)
qed

lemma teamcity_end_returns:
  assumes "known r = (run, grp, test, stack)"
  shows "returns (teamcity_testCaseEnded ms stats r) (\<lambda>r'. known r' = (run, grp, None, stack))"
proof -
  let ?k = "(run, grp, None, stack)"
  have s: "returns (Some (streaming (Ev_testCaseEnded stats) r)) (\<lambda>r'. known r' = ?k)" using assms by (simp add: known_def)
  have w: "returns (if c then write_message kind as r' else Some (Inr r')) (\<lambda>r'. known r' = ?k)" if "known r' = ?k" for c kind as r'
    using that by (simp add: write_message_returns)
  show ?thesis unfolding teamcity_testCaseEnded_def Let_def
    by (rule returns_bind [OF s], rule returns_bind [OF w], assumption, rule returns_bind [OF w], assumption, rule write_message_returns)
qed

lemma teamcity_accepts:
  assumes "follow e p = Some p'" and "teamcity_fits e" and "teamcity_view p r"
  shows "returns (teamcity dur e r) (teamcity_view p')"
proof -
  obtain run grp test stack where k: "known r = (run, grp, test, stack)" by (cases "known r") auto
  have "returns (teamcity dur e r) (\<lambda>r'. known_view 0 p' (known r'))"
    using assms unfolding teamcity_view_def
  proof (induction e p rule: follow.induct)
    case (12 st b n)
    from teamcity_assertion_returns [OF 12(3) _ refl, of st] 12 show ?case
      by (auto simp: teamcity_fits_def elim!: returns_mono)
  next
    case (13 st)
    from teamcity_end_returns [OF k, of "to_string (uint (dur st))" st] 13 k show ?case by (auto elim!: returns_mono)
  qed (use k in \<open>auto simp: known_def teamcity_fits_def intro!: returns_mono [OF write_message_returns [OF refl]] dest!: in_set_butlastD\<close>)
  then show ?thesis by (simp add: teamcity_view_def [abs_def])
qed

interpretation teamcity: printing_reporter "teamcity dur" teamcity_view teamcity_fits for dur
  by unfold_locales (rule teamcity_accepts)

text \<open>
  A whole session is reported in service messages, as long as the names of tests and sections fit and no result is of the
  kind that the reporter has no text for.
\<close>

theorem teamcity_reports_session:
  assumes "runInternal prog s pc = Some (Inr (res, s', pc'))" and "rr_calls res \<noteq> []"
    and "\<forall>e \<in> set (rr_calls res). teamcity_fits e"
  shows "\<exists>r. foldR (teamcity dur) (rr_calls res) (new_TeamCityReporter os) = Some (Inr r) \<and> m_sectionStack r = []"
proof -
  have "teamcity_view Not_started (new_TeamCityReporter os)" by (simp add: teamcity_view_def known_def new_TeamCityReporter_def
    TeamCityReporter.defs StreamingReporterBase.defs new_StreamingReporterBase_def)
  from teamcity.accepts_all [OF session_calls [OF assms(1,2)] assms(3) this] show ?thesis
    by (auto simp: returns_def teamcity_view_def known_def)
qed

end
